(* ===== verification/Kernel_Prelude.thy ===== *)
theory Kernel_Prelude
  imports Main "HOL-Library.Word" "HOL-Library.Signed_Division" "HOL-Library.While_Combinator"
begin

section \<open>Shared vocabulary of the kernel model\<close>

text \<open>
  What every component uses: the machine types of the i386 (\<open>long\<close>, \<open>int\<close> and pointers are 32 bits,
  \<open>short\<close> 16, \<open>char\<close> 8), the outcome of running a piece of kernel code on a state, the error numbers
  of \<^verbatim>\<open>include/errno.h\<close>, and the lemmas on words, lists and loops that the components share.

  Signed and unsigned C integers of the same width are the same word type; a signed comparison is
  written on \<open>sint\<close>, an unsigned one on the word itself.
\<close>

unbundle bit_operations_syntax

type_synonym u8 = "8 word"
type_synonym u16 = "16 word"
type_synonym u32 = "32 word"

text \<open>Rules that say which part of the state an operation leaves alone.\<close>
named_theorems frame_rules

subsection \<open>Outcomes of kernel code\<close>

text \<open>
  Kernel code run in a state \<open>s\<close> does one of five things: it returns a value in a new state; it
  calls \<open>do_exit\<close> (from \<open>oom\<close>, say) and never comes back; it calls \<open>panic\<close>, which loops for ever; it
  does something C leaves undefined (an access outside an array); or it loops for ever.
\<close>

datatype ('s, 'a) outcome =
    Done 'a 's
  | Exits int 's
  | Panics string
  | Undefined string
  | Diverges

primrec and_then ::
  "('s, 'a) outcome \<Rightarrow> ('a \<Rightarrow> 's \<Rightarrow> ('s, 'b) outcome) \<Rightarrow> ('s, 'b) outcome" where
  "and_then (Done a s) f = f a s"
| "and_then (Exits c s) f = Exits c s"
| "and_then (Panics m) f = Panics m"
| "and_then (Undefined m) f = Undefined m"
| "and_then Diverges f = Diverges"

lemma and_then_Done_iff:
  "and_then m f = Done b t \<longleftrightarrow> (\<exists>a s. m = Done a s \<and> f a s = Done b t)"
  by (cases m) auto

lemma and_then_assoc:
  "and_then (and_then m f) g = and_then m (\<lambda>a s. and_then (f a s) g)"
  by (cases m) auto

text \<open>A loop over a list whose body may do any of the five things; \<open>b\<close> are its local variables.\<close>

primrec fold_outcome ::
  "('x \<Rightarrow> 'b \<Rightarrow> 's \<Rightarrow> ('s, 'b) outcome) \<Rightarrow> 'x list \<Rightarrow> 'b \<Rightarrow> 's \<Rightarrow> ('s, 'b) outcome" where
  "fold_outcome f [] b s = Done b s"
| "fold_outcome f (x # xs) b s = and_then (f x b s) (fold_outcome f xs)"

text \<open>What every iteration keeps, the loop keeps.\<close>

lemma fold_outcome_invariant:
  assumes "fold_outcome f xs b s = Done b' s'" "P s"
    "\<And>x b s b' s'. x \<in> set xs \<Longrightarrow> f x b s = Done b' s' \<Longrightarrow> P s \<Longrightarrow> P s'"
  shows "P s'"
  using assms by (induction xs arbitrary: b s) (fastforce simp: and_then_Done_iff)+

text \<open>If the body always returns, the loop is an ordinary fold.\<close>

lemma fold_outcome_Done:
  assumes "\<And>x b s. x \<in> set xs \<Longrightarrow> f x b s = Done (fst (g x (b, s))) (snd (g x (b, s)))"
  shows "fold_outcome f xs b s = Done (fst (fold g xs (b, s))) (snd (fold g xs (b, s)))"
  using assms by (induction xs arbitrary: b s) auto

text \<open>A loop over a list in two parts, and one that has nothing to do.\<close>

lemma fold_outcome_append:
  "fold_outcome f (xs @ ys) b s = and_then (fold_outcome f xs b s) (fold_outcome f ys)"
proof (induction xs arbitrary: b s)
  case (Cons x xs)
  then have "fold_outcome f (xs @ ys) = (\<lambda>b s. and_then (fold_outcome f xs b s) (fold_outcome f ys))"
    by (simp add: fun_eq_iff)
  then show ?case by (simp add: and_then_assoc)
qed simp

lemma fold_outcome_idle: "(\<And>x. x \<in> set xs \<Longrightarrow> f x b s = Done b s) \<Longrightarrow> fold_outcome f xs b s = Done b s"
  by (induction xs) simp_all

subsection \<open>Loops that may not end\<close>

text \<open>
  A loop whose body says whether to go round again, with new values of the local variables, or to
  leave with a result: \<^verbatim>\<open>while\<close>, \<^verbatim>\<open>do ... while\<close> and \<^verbatim>\<open>goto repeat\<close> alike. A loop that never leaves \<open>Diverges\<close>.
\<close>

datatype ('v, 'r) turn = Again 'v | Leave 'r

fun goes_on :: "('s, ('v, 'r) turn) outcome \<Rightarrow> bool" where
  "goes_on (Done (Again v) s) = True"
| "goes_on r = False"

fun turn_step :: "('v \<Rightarrow> 's \<Rightarrow> ('s, ('v, 'r) turn) outcome) \<Rightarrow>
    ('s, ('v, 'r) turn) outcome \<Rightarrow> ('s, ('v, 'r) turn) outcome" where
  "turn_step f (Done (Again v) s) = f v s"
| "turn_step f r = r"

definition loop :: "('v \<Rightarrow> 's \<Rightarrow> ('s, ('v, 'r) turn) outcome) \<Rightarrow> 'v \<Rightarrow> 's \<Rightarrow> ('s, 'r) outcome" where
  "loop f v s =
    (case while_option goes_on (turn_step f) (Done (Again v) s) of
       None \<Rightarrow> Diverges
     | Some r \<Rightarrow> and_then r (\<lambda>x s. case x of Leave y \<Rightarrow> Done y s | Again _ \<Rightarrow> Diverges))"

lemma loop_unfold:
  "loop f v s = and_then (f v s) (\<lambda>x s. case x of Leave y \<Rightarrow> Done y s | Again v \<Rightarrow> loop f v s)"
proof -
  have "while_option goes_on (turn_step f) (Done (Again v) s) = while_option goes_on (turn_step f) (f v s)"
    by (subst while_option_unfold) simp
  moreover have "while_option goes_on (turn_step f) r = Some r" if "\<not> goes_on r" for r
    using that by (subst while_option_unfold) simp
  ultimately show ?thesis
  proof (cases "goes_on (f v s)")
    case True
    then obtain w t where "f v s = Done (Again w) t" by (cases "f v s" rule: goes_on.cases) auto
    then show ?thesis
      using \<open>while_option goes_on (turn_step f) (Done (Again v) s) = _\<close> by (simp add: loop_def)
  next
    case False
    then show ?thesis
      using \<open>while_option goes_on (turn_step f) (Done (Again v) s) = _\<close>
        \<open>\<And>r. \<not> goes_on r \<Longrightarrow> _ r = _ r\<close>[OF False]
      by (cases "f v s" rule: goes_on.cases) (simp_all add: loop_def)
  qed
qed

text \<open>What every turn keeps holds at the end; the last turn gives the result.\<close>

lemma loop_invariant:
  assumes "loop f v s = Done y t" "P v s"
    and "\<And>v s w t. P v s \<Longrightarrow> f v s = Done (Again w) t \<Longrightarrow> P w t"
    and "\<And>v s y t. P v s \<Longrightarrow> f v s = Done (Leave y) t \<Longrightarrow> Q y t"
  shows "Q y t"
proof -
  obtain r where r: "while_option goes_on (turn_step f) (Done (Again v) s) = Some r"
      "and_then r (\<lambda>x s. case x of Leave y \<Rightarrow> Done y s | Again _ \<Rightarrow> Diverges) = Done y t"
    using assms(1) by (auto simp: loop_def split: option.splits)
  let ?I = "\<lambda>r. (\<forall>v s. r = Done (Again v) s \<longrightarrow> P v s) \<and> (\<forall>y s. r = Done (Leave y) s \<longrightarrow> Q y s)"
  have "?I r"
  proof (rule while_option_rule[where P = ?I, OF _ r(1)])
    fix q assume "?I q" "goes_on q"
    then show "?I (turn_step f q)" using assms(3,4) by (cases q rule: goes_on.cases) auto
  qed (use assms(2) in simp)
  then show ?thesis using r(2) by (cases r) (auto split: turn.splits)
qed

text \<open>\<^verbatim>\<open>while (b) sleep(...)\<close>: \<open>w\<close> is what happens to the state while the task sleeps.\<close>

definition await :: "('s \<Rightarrow> bool) \<Rightarrow> ('s \<Rightarrow> 's) \<Rightarrow> 's \<Rightarrow> ('s, unit) outcome" where
  "await b w = loop (\<lambda>_ s. if b s then Done (Again ()) (w s) else Done (Leave ()) s) ()"

lemma await_free [simp]: "\<not> b s \<Longrightarrow> await b w s = Done () s"
  by (simp add: await_def loop_unfold)

lemma await_unfold: "await b w s = (if b s then await b w (w s) else Done () s)"
  unfolding await_def by (subst loop_unfold) simp

lemma await_done: "await b w s = Done u t \<Longrightarrow> \<not> b t"
  unfolding await_def
  by (rule loop_invariant[where P = "\<lambda>_ _. True" and Q = "\<lambda>_ t. \<not> b t"]) (auto split: if_splits)

subsection \<open>Error numbers\<close>

text \<open>\<^verbatim>\<open>include/errno.h\<close>; a system call returns one of them negated.\<close>

abbreviation (input) ERROR :: int where "ERROR \<equiv> 99"
abbreviation (input) EPERM :: int where "EPERM \<equiv> 1"
abbreviation (input) ENOENT :: int where "ENOENT \<equiv> 2"
abbreviation (input) ESRCH :: int where "ESRCH \<equiv> 3"
abbreviation (input) EINTR :: int where "EINTR \<equiv> 4"
abbreviation (input) EIO :: int where "EIO \<equiv> 5"
abbreviation (input) ENXIO :: int where "ENXIO \<equiv> 6"
abbreviation (input) E2BIG :: int where "E2BIG \<equiv> 7"
abbreviation (input) ENOEXEC :: int where "ENOEXEC \<equiv> 8"
abbreviation (input) EBADF :: int where "EBADF \<equiv> 9"
abbreviation (input) ECHILD :: int where "ECHILD \<equiv> 10"
abbreviation (input) EAGAIN :: int where "EAGAIN \<equiv> 11"
abbreviation (input) ENOMEM :: int where "ENOMEM \<equiv> 12"
abbreviation (input) EACCES :: int where "EACCES \<equiv> 13"
abbreviation (input) EFAULT :: int where "EFAULT \<equiv> 14"
abbreviation (input) ENOTBLK :: int where "ENOTBLK \<equiv> 15"
abbreviation (input) EBUSY :: int where "EBUSY \<equiv> 16"
abbreviation (input) EEXIST :: int where "EEXIST \<equiv> 17"
abbreviation (input) EXDEV :: int where "EXDEV \<equiv> 18"
abbreviation (input) ENODEV :: int where "ENODEV \<equiv> 19"
abbreviation (input) ENOTDIR :: int where "ENOTDIR \<equiv> 20"
abbreviation (input) EISDIR :: int where "EISDIR \<equiv> 21"
abbreviation (input) EINVAL :: int where "EINVAL \<equiv> 22"
abbreviation (input) ENFILE :: int where "ENFILE \<equiv> 23"
abbreviation (input) EMFILE :: int where "EMFILE \<equiv> 24"
abbreviation (input) ENOTTY :: int where "ENOTTY \<equiv> 25"
abbreviation (input) ETXTBSY :: int where "ETXTBSY \<equiv> 26"
abbreviation (input) EFBIG :: int where "EFBIG \<equiv> 27"
abbreviation (input) ENOSPC :: int where "ENOSPC \<equiv> 28"
abbreviation (input) ESPIPE :: int where "ESPIPE \<equiv> 29"
abbreviation (input) EROFS :: int where "EROFS \<equiv> 30"
abbreviation (input) EMLINK :: int where "EMLINK \<equiv> 31"
abbreviation (input) EPIPE :: int where "EPIPE \<equiv> 32"
abbreviation (input) ERANGE :: int where "ERANGE \<equiv> 34"
abbreviation (input) ENAMETOOLONG :: int where "ENAMETOOLONG \<equiv> 36"
abbreviation (input) ENOSYS :: int where "ENOSYS \<equiv> 38"
abbreviation (input) ENOTEMPTY :: int where "ENOTEMPTY \<equiv> 39"
abbreviation (input) ERESTARTSYS :: int where "ERESTARTSYS \<equiv> 512"
abbreviation (input) ERESTARTNOINTR :: int where "ERESTARTNOINTR \<equiv> 513"

subsection \<open>Loops over lists of indices\<close>

text \<open>A loop that updates pairwise different cells in the same way, one after the other.\<close>

lemma fold_cell_updates:
  assumes "distinct xs"
  shows "fold (\<lambda>i h. h(i := g (h i))) xs h = (\<lambda>a. if a \<in> set xs then g (h a) else h a)"
  using assms by (induction xs arbitrary: h) (auto simp: fun_eq_iff)

text \<open>The indices 63, 62, ..., 1: the order in which the kernel scans its task table.\<close>

lemma set_rev_upt [simp]: "set (rev [a..<b]) = {a..<b}"
  by simp

text \<open>Invariants of a loop: what every step keeps, the whole fold keeps.\<close>

lemma fold_invariant_rule:
  assumes "P s" and "\<And>x s. x \<in> set xs \<Longrightarrow> P s \<Longrightarrow> P (f x s)"
  shows "P (fold f xs s)"
  using assms by (induction xs arbitrary: s) auto

subsection \<open>Bits and page frames\<close>

text \<open>\<open>1 << n\<close> on a \<open>long\<close>.\<close>

definition bit1 :: "nat \<Rightarrow> u32" where
  "bit1 n = push_bit n 1"

lemma bit_bit1 [simp]: "bit (bit1 n) m \<longleftrightarrow> m = n \<and> n < 32"
  by (auto simp: bit1_def bit_simps)

lemma and_bit1_eq_0 [simp]: "n < 32 \<Longrightarrow> w AND bit1 n = 0 \<longleftrightarrow> \<not> bit w n"
  by (rule iffI) (auto simp: bit_simps intro: bit_word_eqI dest: arg_cong[of _ _ "\<lambda>v. bit v n"])

subsection \<open>C division\<close>

text \<open>C division truncates; on a non-negative dividend it is \<open>div\<close> and \<open>mod\<close>.\<close>

lemma sdiv_nonneg: "0 \<le> a \<Longrightarrow> 0 < b \<Longrightarrow> a sdiv b = a div (b::int)"
  by (cases "a = 0") (simp_all add: signed_divide_int_def)

lemma smod_nonneg: "0 \<le> a \<Longrightarrow> 0 < b \<Longrightarrow> a smod b = a mod (b::int)"
  by (cases "a = 0") (simp_all add: signed_modulo_int_def)

subsection \<open>Signed words\<close>

lemma sint_uint_cases: "sint (w :: u32) = (if uint w < 2 ^ 31 then uint w else uint w - 2 ^ 32)"
proof -
  have e: "sint w = uint w - 2 ^ 32 * of_bool (bit w 31)"
    unfolding sint_uint using uint_lt2p[of w]
    by (simp add: signed_take_bit_eq_take_bit_minus bit_uint_iff take_bit_int_eq_self)
  have "bit w 31 \<longleftrightarrow> bit (uint w) 31" by (simp add: bit_uint_iff)
  then have b: "bit w 31 \<longleftrightarrow> odd (uint w div 2 ^ 31)" by (simp only: bit_iff_odd)
  have "uint w div 2 ^ 31 = (if uint w < 2 ^ 31 then 0 else 1)"
    using uint_lt2p[of w] by auto
  then show ?thesis by (simp add: e b)
qed

lemma sint_small: "unat (w :: u32) < 2 ^ 31 \<Longrightarrow> sint w = int (unat w)"
  by (simp add: sint_uint_cases flip: uint_nat of_nat_less_iff[where 'a = int])

lemma sint_add_small:
  "- (2 ^ 31) \<le> sint a + sint b \<Longrightarrow> sint a + sint b < 2 ^ 31 \<Longrightarrow>
   sint (a + b :: u32) = sint a + sint b"
  using signed_take_bit_int_eq_self[of 31 "sint a + sint b"] by (simp add: sint_word_ariths)

text \<open>A \<open>short\<close> widened to a \<open>long\<close> and narrowed again.\<close>

lemma ucast_u16_u32 [simp]: "ucast (ucast (x :: u16) :: u32) = x"
  by (rule ucast_up_ucast_id) (simp add: is_up)

end
