(* ===== verification/Mktime.thy ===== *)
theory Mktime
  imports Kernel_Prelude
begin

section \<open>The kernel's clock arithmetic\<close>

text \<open>
  \<^verbatim>\<open>kernel/mktime.c\<close>: \<^verbatim>\<open>kernel_mktime\<close> turns the broken-down time read from the CMOS clock into
  seconds since 1970. The result is a 32-bit \<open>long\<close>, assigned to the unsigned \<^verbatim>\<open>startup_time\<close>; the model
  keeps the 32-bit wrap-around. The specification counts days with the Gregorian leap rule.
\<close>

record tm =
  tm_sec :: int
  tm_min :: int
  tm_hour :: int
  tm_mday :: int
  tm_mon :: int
  tm_year :: int

definition MINUTE :: int where "MINUTE = 60"
definition HOUR :: int where "HOUR = 60 * MINUTE"
definition DAY :: int where "DAY = 24 * HOUR"
definition YEAR :: int where "YEAR = 365 * DAY"

lemmas calendar_units = MINUTE_def HOUR_def DAY_def YEAR_def

definition month :: "int list" where
  "month =
    [0,
     DAY * 31,
     DAY * (31 + 29),
     DAY * (31 + 29 + 31),
     DAY * (31 + 29 + 31 + 30),
     DAY * (31 + 29 + 31 + 30 + 31),
     DAY * (31 + 29 + 31 + 30 + 31 + 30),
     DAY * (31 + 29 + 31 + 30 + 31 + 30 + 31),
     DAY * (31 + 29 + 31 + 30 + 31 + 30 + 31 + 31),
     DAY * (31 + 29 + 31 + 30 + 31 + 30 + 31 + 31 + 30),
     DAY * (31 + 29 + 31 + 30 + 31 + 30 + 31 + 31 + 30 + 31),
     DAY * (31 + 29 + 31 + 30 + 31 + 30 + 31 + 31 + 30 + 31 + 30)]"

text \<open>
  \<^verbatim>\<open>month[tm->tm_mon]\<close> outside 0..11 reads past the array: \<open>None\<close>. C division truncates towards
  zero (\<open>sdiv\<close>, \<open>smod\<close>).
\<close>

definition kernel_mktime :: "tm \<Rightarrow> u32 option" where
  "kernel_mktime t =
    (if tm_mon t < 0 \<or> 12 \<le> tm_mon t then None
     else
      (let year = tm_year t - 70;
           res = word_of_int (YEAR * year + DAY * ((year + 1) sdiv 4));
           res = res + word_of_int (month ! nat (tm_mon t));
           res = (if tm_mon t > 1 \<and> (year + 2) smod 4 \<noteq> 0 then res - word_of_int DAY else res);
           res = res + word_of_int (DAY * (tm_mday t - 1));
           res = res + word_of_int (HOUR * tm_hour t);
           res = res + word_of_int (MINUTE * tm_min t);
           res = res + word_of_int (tm_sec t)
       in Some res))"

subsection \<open>Specification\<close>

definition leap :: "int \<Rightarrow> bool" where
  "leap y \<longleftrightarrow> y mod 4 = 0 \<and> (y mod 100 \<noteq> 0 \<or> y mod 400 = 0)"

definition days_in_month :: "int \<Rightarrow> nat \<Rightarrow> int" where
  "days_in_month y m =
    (if m = 1 then (if leap y then 29 else 28) else if m \<in> {3, 5, 8, 10} then 30 else 31)"

definition days_in_year :: "int \<Rightarrow> int" where
  "days_in_year y = (if leap y then 366 else 365)"

text \<open>Days from the first of January 1970 to day \<open>d\<close> (from 1) of month \<open>m\<close> (from 0) of year \<open>y\<close>.\<close>

definition days_since_epoch :: "int \<Rightarrow> nat \<Rightarrow> int \<Rightarrow> int" where
  "days_since_epoch y m d =
    (\<Sum>k<nat (y - 1970). days_in_year (1970 + int k)) + (\<Sum>k<m. days_in_month y k) + (d - 1)"

definition valid_tm :: "tm \<Rightarrow> bool" where
  "valid_tm t \<longleftrightarrow> 0 \<le> tm_mon t \<and> tm_mon t < 12 \<and>
     1 \<le> tm_mday t \<and> tm_mday t \<le> days_in_month (1900 + tm_year t) (nat (tm_mon t)) \<and>
     0 \<le> tm_hour t \<and> tm_hour t < 24 \<and> 0 \<le> tm_min t \<and> tm_min t < 60 \<and>
     0 \<le> tm_sec t \<and> tm_sec t < 60"

definition seconds_since_epoch :: "tm \<Rightarrow> int" where
  "seconds_since_epoch t =
    86400 * days_since_epoch (1900 + tm_year t) (nat (tm_mon t)) (tm_mday t)
    + 3600 * tm_hour t + 60 * tm_min t + tm_sec t"

subsection \<open>The magic offsets are the leap years until 2099\<close>

lemma leap_offset:
  assumes "0 \<le> k" and "k < 130"
  shows "leap (1970 + k) \<longleftrightarrow> (k + 2) mod 4 = 0"
proof -
  have eq: "1970 + k = k + 2 + 4 * 492" by simp
  have "(1970 + k) mod 4 = (k + 2) mod 4" unfolding eq by (simp only: mod_mult_self2)
  moreover have "(1970 + k) mod 400 = 0" if "(1970 + k) mod 100 = 0"
  proof -
    from that obtain q where q: "1970 + k = 100 * q" by (auto elim: dvdE)
    then have "q = 20" using assms by simp
    then show ?thesis using q by simp
  qed
  ultimately show ?thesis by (auto simp: leap_def)
qed

lemma div_4_succ: "((a::int) + 1) div 4 = a div 4 + (if (a + 1) mod 4 = 0 then 1 else 0)"
  by presburger

lemma days_of_years:
  "n \<le> 130 \<Longrightarrow> (\<Sum>k<n. days_in_year (1970 + int k)) = 365 * int n + (int n + 1) div 4"
proof (induction n)
  case 0
  then show ?case by simp
next
  case (Suc n)
  have "days_in_year (1970 + int n) = 365 + (if (int n + 2) mod 4 = 0 then 1 else 0)"
    using Suc.prems leap_offset[of "int n"] by (simp add: days_in_year_def)
  moreover have "(int n + 2) div 4 = (int n + 1) div 4 + (if (int n + 2) mod 4 = 0 then 1 else 0)"
    using div_4_succ[of "int n + 1"] by (simp add: add.commute)
  ultimately show ?case using Suc by simp
qed

lemma month_table:
  assumes "m < 12"
  shows "month ! m - (if 1 < m \<and> \<not> leap y then DAY else 0) = DAY * (\<Sum>k<m. days_in_month y k)"
proof -
  have "m \<in> set [0..<12]" using assms by simp
  then show ?thesis
    by (auto simp: upt_rec month_def days_in_month_def numeral_eq_Suc lessThan_Suc)
qed

lemma kernel_mktime_value:
  assumes "valid_tm t" and "70 \<le> tm_year t" and "tm_year t < 200"
  shows "kernel_mktime t = Some (word_of_int (seconds_since_epoch t))"
proof -
  let ?k = "tm_year t - 70" and ?m = "nat (tm_mon t)"
  have yr: "1900 + tm_year t = 1970 + ?k" by simp
  have lp: "(?k + 2) smod 4 \<noteq> 0 \<longleftrightarrow> \<not> leap (1970 + ?k)"
    using assms leap_offset[of ?k] by (simp add: smod_nonneg)
  have m: "?m < 12" "0 \<le> tm_mon t" using assms by (auto simp: valid_tm_def)
  have days: "(\<Sum>k<nat ?k. days_in_year (1970 + int k)) = 365 * ?k + (?k + 1) div 4"
    using days_of_years[of "nat ?k"] assms by simp
  have "seconds_since_epoch t =
      DAY * (365 * ?k + (?k + 1) div 4) + DAY * (\<Sum>k<?m. days_in_month (1970 + ?k) k)
      + DAY * (tm_mday t - 1) + HOUR * tm_hour t + MINUTE * tm_min t + tm_sec t"
    unfolding seconds_since_epoch_def days_since_epoch_def yr calendar_units
    using days by (simp add: distrib_left)
  also have "\<dots> = YEAR * ?k + DAY * ((?k + 1) sdiv 4) + month ! ?m
      - (if tm_mon t > 1 \<and> (?k + 2) smod 4 \<noteq> 0 then DAY else 0)
      + DAY * (tm_mday t - 1) + HOUR * tm_hour t + MINUTE * tm_min t + tm_sec t"
    using month_table[OF m(1), of "1970 + ?k"] assms m lp
    by (auto simp: YEAR_def sdiv_nonneg algebra_simps split: if_splits)
  finally have eq: "seconds_since_epoch t = \<dots>" .
  show ?thesis
    unfolding eq using m by (auto simp: kernel_mktime_def Let_def)
qed

lemma month_table_bounds: "m < 12 \<Longrightarrow> 0 \<le> month ! m \<and> month ! m \<le> DAY * 335"
proof -
  assume "m < 12"
  then have "m \<in> set [0..<12]" by simp
  then show ?thesis by (auto simp: upt_rec month_def calendar_units)
qed

lemma seconds_since_epoch_bounds:
  assumes "valid_tm t" and "70 \<le> tm_year t" and "tm_year t < 200"
  shows "0 \<le> seconds_since_epoch t \<and> seconds_since_epoch t < 2 ^ 32"
proof -
  let ?k = "tm_year t - 70" and ?y = "1900 + tm_year t" and ?m = "nat (tm_mon t)"
  have yr: "?y - 1970 = ?k" by simp
  have "(\<Sum>k<nat ?k. days_in_year (1970 + int k)) = 365 * ?k + (?k + 1) div 4"
    using days_of_years[of "nat ?k"] assms by simp
  moreover have "(?k + 1) div 4 \<le> 32"
    using assms zdiv_mono1[of "?k + 1" 130 4] by simp
  moreover have "0 \<le> (?k + 1) div 4"
    using assms by simp
  moreover have "0 \<le> (\<Sum>k<?m. days_in_month ?y k)"
    by (rule sum_nonneg) (simp add: days_in_month_def)
  moreover have "?m < 12" using assms by (auto simp: valid_tm_def)
  then have "DAY * (\<Sum>k<?m. days_in_month ?y k) \<le> DAY * 335"
    using month_table[of ?m ?y] month_table_bounds[of ?m]
    by (simp add: calendar_units split: if_splits)
  moreover have "tm_mday t \<le> 31"
    using assms by (auto simp: valid_tm_def days_in_month_def split: if_splits)
  ultimately have "0 \<le> days_since_epoch ?y ?m (tm_mday t)"
    and "days_since_epoch ?y ?m (tm_mday t) \<le> 47482"
    using assms by (auto simp: days_since_epoch_def yr valid_tm_def calendar_units)
  then show ?thesis
    using assms by (simp add: seconds_since_epoch_def valid_tm_def)
qed

text \<open>
  C15. For every valid calendar time from 1970 to 2099, \<open>kernel_mktime\<close> returns, read as the
  unsigned 32-bit number that \<open>startup_time\<close> is, exactly the seconds since the epoch counted with
  the Gregorian leap rule: the magic offsets \<open>y + 1\<close> and \<open>y + 2\<close> are right and nothing wraps.
\<close>

theorem kernel_mktime_correct:
  assumes "valid_tm t" and "70 \<le> tm_year t" and "tm_year t < 200"
  shows "\<exists>w. kernel_mktime t = Some w \<and> uint w = seconds_since_epoch t"
proof -
  have "uint (word_of_int (seconds_since_epoch t) :: u32) = seconds_since_epoch t"
    using seconds_since_epoch_bounds[OF assms] by (simp add: uint_word_of_int)
  then show ?thesis using kernel_mktime_value[OF assms] by simp
qed

definition linux_0_12_birthday :: tm where
  "linux_0_12_birthday =
    \<lparr>tm_sec = 30, tm_min = 15, tm_hour = 12, tm_mday = 15, tm_mon = 0, tm_year = 92\<rparr>"

theorem kernel_mktime_correct_witness:
  "valid_tm linux_0_12_birthday \<and>
   (\<exists>w. kernel_mktime linux_0_12_birthday = Some w \<and> uint w = 695477730)"
proof -
  have v: "valid_tm linux_0_12_birthday"
    by (simp add: valid_tm_def linux_0_12_birthday_def days_in_month_def)
  have "seconds_since_epoch linux_0_12_birthday = 695477730"
    by (simp add: seconds_since_epoch_def days_since_epoch_def linux_0_12_birthday_def
        days_of_years[of 22, simplified])
  then show ?thesis
    using v kernel_mktime_correct[OF v] by (simp add: linux_0_12_birthday_def)
qed

end
