(* ===== verification/Memory.thy ===== *)
theory Memory
  imports Kernel_Prelude
begin

section \<open>Physical memory, page tables and swapping\<close>

text \<open>
  \<^verbatim>\<open>mm/memory.c\<close> and \<^verbatim>\<open>mm/swap.c\<close> without the parts that look at tasks. Physical memory is a map from
  byte addresses to the aligned \<open>long\<close> stored there; the page directory is at address 0, as
  \<^verbatim>\<open>boot/head.s\<close> puts it, so a page-directory or page-table entry is read and written by its address,
  exactly as the code does. \<^verbatim>\<open>mem_map\<close> has 3840 cells, one per page from 1 MB to 16 MB.

  A transfer between memory and the swap device (\<^verbatim>\<open>read_swap_page\<close>, \<^verbatim>\<open>write_swap_page\<close>) is one step:
  the device is a store of pages. \<^verbatim>\<open>invalidate()\<close> flushes the TLB, which the model does not have, and
  \<^verbatim>\<open>printk\<close> messages are left out. \<^verbatim>\<open>oom()\<close> is the outcome \<open>Exits 11\<close>: it calls \<^verbatim>\<open>do_exit(SIGSEGV)\<close>.

  The operations are defined on every extension of the record, so that they run unchanged on the
  whole kernel state.
\<close>

unbundle bit_operations_syntax

record mm_state =
  pmem :: "u32 \<Rightarrow> u32"
  mem_map :: "nat \<Rightarrow> u8"
  HIGH_MEMORY :: u32
  swap_bitmap :: u32
  SWAP_DEV :: u32
  swap_space :: "nat \<Rightarrow> nat \<Rightarrow> u32"
  dir_entry :: nat
  page_entry :: int

abbreviation (input) LOW_MEM :: u32 where "LOW_MEM \<equiv> 0x100000"
abbreviation (input) PAGING_MEMORY :: u32 where "PAGING_MEMORY \<equiv> 15 * 1024 * 1024"
abbreviation (input) PAGING_PAGES :: nat where "PAGING_PAGES \<equiv> 3840"
abbreviation (input) USED :: u8 where "USED \<equiv> 100"
abbreviation (input) PAGE_DIRTY :: u32 where "PAGE_DIRTY \<equiv> 0x40"
abbreviation (input) SWAP_BITS :: nat where "SWAP_BITS \<equiv> 32768"
abbreviation (input) FIRST_VM_DIR :: nat where "FIRST_VM_DIR \<equiv> 16"
abbreviation (input) VM_PAGES :: int where "VM_PAGES \<equiv> 1024 * 1024 - 16 * 1024"

definition MAP_NR :: "u32 \<Rightarrow> nat" where
  "MAP_NR addr = unat (drop_bit 12 (addr - LOW_MEM))"

definition frame :: "u32 \<Rightarrow> u32" where
  "frame w = 0xfffff000 AND w"

text \<open>The byte address of the page-directory entry of a linear address.\<close>

definition pde_addr :: "u32 \<Rightarrow> u32" where
  "pde_addr address = drop_bit 20 address AND 0xffc"

text \<open>The byte offset of the page-table entry of a linear address in its page table.\<close>

definition pte_offset :: "u32 \<Rightarrow> u32" where
  "pte_offset address = drop_bit 10 address AND 0xffc"

definition write_long :: "u32 \<Rightarrow> u32 \<Rightarrow> 'a mm_state_scheme \<Rightarrow> 'a mm_state_scheme" where
  "write_long a v s = s\<lparr>pmem := (pmem s)(a := v)\<rparr>"

text \<open>The words of a page: \<open>rep ; stosl\<close> and \<open>rep ; movsl\<close> with count 1024.\<close>

definition in_page :: "u32 \<Rightarrow> u32 \<Rightarrow> bool" where
  "in_page page a \<longleftrightarrow> a - page < 4096 \<and> (a - page) AND 3 = 0"

definition clear_page :: "u32 \<Rightarrow> 'a mm_state_scheme \<Rightarrow> 'a mm_state_scheme" where
  "clear_page page s = s\<lparr>pmem := (\<lambda>a. if in_page page a then 0 else pmem s a)\<rparr>"

definition copy_page :: "u32 \<Rightarrow> u32 \<Rightarrow> 'a mm_state_scheme \<Rightarrow> 'a mm_state_scheme" where
  "copy_page from to s =
    s\<lparr>pmem := (\<lambda>a. if in_page to a then pmem s (from + (a - to)) else pmem s a)\<rparr>"

definition read_swap_page :: "nat \<Rightarrow> u32 \<Rightarrow> 'a mm_state_scheme \<Rightarrow> 'a mm_state_scheme" where
  "read_swap_page nr page s =
    s\<lparr>pmem := (\<lambda>a. if in_page page a then swap_space s nr (unat (drop_bit 2 (a - page)))
                   else pmem s a)\<rparr>"

definition write_swap_page :: "nat \<Rightarrow> u32 \<Rightarrow> 'a mm_state_scheme \<Rightarrow> 'a mm_state_scheme" where
  "write_swap_page nr page s =
    s\<lparr>swap_space := (swap_space s)(nr := (\<lambda>i. pmem s (page + 4 * of_nat i)))\<rparr>"

subsection \<open>Freeing a page\<close>

definition free_page :: "u32 \<Rightarrow> 'a mm_state_scheme \<Rightarrow> ('a mm_state_scheme, unit) outcome" where
  "free_page addr s =
    (if addr < LOW_MEM then Done () s
     else if addr \<ge> HIGH_MEMORY s then Panics ''trying to free nonexistent page''
     else
      (let i = MAP_NR addr in
       if mem_map s i \<noteq> 0 then Done () (s\<lparr>mem_map := (mem_map s)(i := mem_map s i - 1)\<rparr>)
       else Panics ''trying to free free page''))"

subsection \<open>The swap bitmap\<close>

text \<open>
  \<^verbatim>\<open>bitop\<close>: the instructions \<^verbatim>\<open>bt\<close>, \<^verbatim>\<open>bts\<close>, \<^verbatim>\<open>btr\<close> with a register bit number address the long that
  holds the bit and leave the old bit in the carry flag. A set bit is a free page of swap space.
\<close>

definition bit_in :: "u32 \<Rightarrow> nat \<Rightarrow> 'a mm_state_scheme \<Rightarrow> bool" where
  "bit_in addr nr s = bit (pmem s (addr + 4 * of_nat (nr div 32))) (nr mod 32)"

definition setbit :: "u32 \<Rightarrow> nat \<Rightarrow> 'a mm_state_scheme \<Rightarrow> bool \<times> 'a mm_state_scheme" where
  "setbit addr nr s =
    (let a = addr + 4 * of_nat (nr div 32)
     in (bit_in addr nr s, write_long a (set_bit (nr mod 32) (pmem s a)) s))"

definition clrbit :: "u32 \<Rightarrow> nat \<Rightarrow> 'a mm_state_scheme \<Rightarrow> bool \<times> 'a mm_state_scheme" where
  "clrbit addr nr s =
    (let a = addr + 4 * of_nat (nr div 32)
     in (bit_in addr nr s, write_long a (unset_bit (nr mod 32) (pmem s a)) s))"

text \<open>The loop of \<^verbatim>\<open>get_swap_page\<close> from \<open>nr\<close> on, \<open>n\<close> numbers to go.\<close>

primrec get_swap_page_from :: "nat \<Rightarrow> nat \<Rightarrow> 'a mm_state_scheme \<Rightarrow> nat \<times> 'a mm_state_scheme" where
  "get_swap_page_from 0 nr s = (0, s)"
| "get_swap_page_from (Suc n) nr s =
    (case clrbit (swap_bitmap s) nr s of
       (was_set, s') \<Rightarrow> if was_set then (nr, s') else get_swap_page_from n (Suc nr) s')"

definition get_swap_page :: "'a mm_state_scheme \<Rightarrow> nat \<times> 'a mm_state_scheme" where
  "get_swap_page s =
    (if swap_bitmap s = 0 then (0, s) else get_swap_page_from (32768 - 1) 1 s)"

definition swap_free :: "nat \<Rightarrow> 'a mm_state_scheme \<Rightarrow> 'a mm_state_scheme" where
  "swap_free swap_nr s =
    (if swap_nr = 0 then s
     else if swap_bitmap s \<noteq> 0 \<and> swap_nr < SWAP_BITS
     then snd (setbit (swap_bitmap s) swap_nr s)
     else s)"

subsection \<open>Swapping a page out\<close>

text \<open>
  The result is whether a page table entry was emptied. A clean page is dropped: it can be read
  again from its file; a dirty one that nobody shares goes to a free page of swap space.
\<close>

definition try_to_swap_out ::
  "u32 \<Rightarrow> 'a mm_state_scheme \<Rightarrow> ('a mm_state_scheme, bool) outcome" where
  "try_to_swap_out table_ptr s =
    (let page = pmem s table_ptr in
     if \<not> bit page 0 then Done False s
     else if page - LOW_MEM > PAGING_MEMORY then Done False s
     else if PAGE_DIRTY AND page \<noteq> 0 then
      (let page = frame page in
       if mem_map s (MAP_NR page) \<noteq> 1 then Done False s
       else
        (case get_swap_page s of (swap_nr, s1) \<Rightarrow>
           if swap_nr = 0 then Done False s1
           else
            (let s2 = write_long table_ptr (push_bit 1 (of_nat swap_nr)) s1;
                 s3 = write_swap_page swap_nr page s2
             in and_then (free_page page s3) (\<lambda>_. Done True))))
     else and_then (free_page page (write_long table_ptr 0 s)) (\<lambda>_. Done True))"

text \<open>
  \<^verbatim>\<open>swap_out\<close> keeps its place in the static variables \<open>dir_entry\<close> and \<open>page_entry\<close>. The first loop
  looks for a present page table; the second walks its entries, and \<^verbatim>\<open>repeat:\<close> moves to the next
  present page table, each absent one costing 1024 of the counter.
\<close>

definition next_dir :: "nat \<Rightarrow> nat" where
  "next_dir d = (if d + 1 \<ge> 1024 then FIRST_VM_DIR else d + 1)"

definition pg_dir :: "'a mm_state_scheme \<Rightarrow> nat \<Rightarrow> u32" where
  "pg_dir s d = pmem s (4 * of_nat d)"

function swap_out_first :: "int \<Rightarrow> 'a mm_state_scheme \<Rightarrow> int \<times> u32 \<times> 'a mm_state_scheme" where
  "swap_out_first counter s =
    (if counter > 0 then
       (if bit (pg_dir s (dir_entry s)) 0 then (counter, pg_dir s (dir_entry s), s)
        else swap_out_first (counter - 1024) (s\<lparr>dir_entry := next_dir (dir_entry s)\<rparr>))
     else (counter, 0, s))"
  by pat_completeness auto
termination
  by (relation "measure (\<lambda>(counter, s). nat counter)") auto

text \<open>\<^verbatim>\<open>repeat:\<close>; \<open>None\<close> for the page table is the \<^verbatim>\<open>break\<close>.\<close>

function swap_out_next ::
  "int \<Rightarrow> 'a mm_state_scheme \<Rightarrow> int \<times> u32 option \<times> 'a mm_state_scheme" where
  "swap_out_next counter s =
    (let s = s\<lparr>dir_entry := next_dir (dir_entry s)\<rparr>;
         pg_table = pg_dir s (dir_entry s) in
     if bit pg_table 0 then (counter, Some (frame pg_table), s)
     else if counter - 1024 > 0 then swap_out_next (counter - 1024) s
     else (counter - 1024, None, s))"
  by pat_completeness auto
termination
  by (relation "measure (\<lambda>(counter, s). nat counter)") auto

declare swap_out_first.simps [simp del] swap_out_next.simps [simp del]

lemma swap_out_next_counter:
  "swap_out_next counter s = (c, t, s') \<Longrightarrow> c \<le> counter"
proof (induction counter s rule: swap_out_next.induct)
  case (1 counter s)
  then show ?case
    by (subst (asm) swap_out_next.simps) (fastforce simp: Let_def split: if_splits)
qed

text \<open>
  The second loop; \<open>counter\<close> is its value before the test \<^verbatim>\<open>counter-- > 0\<close>. The entry tried is at
  \<open>page_entry + pg_table\<close>, an index of \<open>long\<close>s.
\<close>

function swap_out_scan ::
  "int \<Rightarrow> u32 \<Rightarrow> 'a mm_state_scheme \<Rightarrow> ('a mm_state_scheme, bool) outcome" where
  "swap_out_scan counter pg_table s =
    (if counter > 0 then
      (let counter = counter - 1;
           s = s\<lparr>page_entry := page_entry s + 1\<rparr> in
       case (if page_entry s \<ge> 1024
             then swap_out_next counter (s\<lparr>page_entry := 0\<rparr>)
             else (counter, Some pg_table, s)) of
         (counter', None, s) \<Rightarrow> Done False s
       | (counter', Some pg_table, s) \<Rightarrow>
          (case try_to_swap_out (pg_table + 4 * of_int (page_entry s)) s of
             Done True s \<Rightarrow> Done True s
           | Done False s \<Rightarrow> swap_out_scan counter' pg_table s
           | Exits c s \<Rightarrow> Exits c s
           | Panics m \<Rightarrow> Panics m
           | Undefined m \<Rightarrow> Undefined m
           | Diverges \<Rightarrow> Diverges))
     else Done False s)"
  by pat_completeness auto
termination
  by (relation "measure (\<lambda>(counter, t, s). nat counter)")
    (auto split: if_splits dest: swap_out_next_counter[OF sym])

declare swap_out_scan.simps [simp del]

definition swap_out :: "'a mm_state_scheme \<Rightarrow> ('a mm_state_scheme, bool) outcome" where
  "swap_out s =
    (case swap_out_first VM_PAGES s of
       (counter, pg_table, s) \<Rightarrow> swap_out_scan counter (frame pg_table) s)"

subsection \<open>Getting a free page\<close>

text \<open>\<^verbatim>\<open>std ; repne ; scasb\<close> from the end of \<^verbatim>\<open>mem_map\<close>: the last of its first \<open>n\<close> cells that is zero.\<close>

primrec last_free :: "(nat \<Rightarrow> u8) \<Rightarrow> nat \<Rightarrow> nat option" where
  "last_free m 0 = None"
| "last_free m (Suc n) = (if m n = 0 then Some n else last_free m n)"

text \<open>
  The assembly: claim the page, clear it, return its address; 0 when no cell is zero.
\<close>

definition grab_page :: "'a mm_state_scheme \<Rightarrow> u32 \<times> 'a mm_state_scheme" where
  "grab_page s =
    (case last_free (mem_map s) PAGING_PAGES of
       None \<Rightarrow> (0, s)
     | Some i \<Rightarrow>
        (let page = push_bit 12 (of_nat i) + LOW_MEM
         in (page, clear_page page (s\<lparr>mem_map := (mem_map s)(i := 1)\<rparr>))))"

partial_function (option) get_free_page_loop ::
  "'a mm_state_scheme \<Rightarrow> ('a mm_state_scheme, u32) outcome option" where
  "get_free_page_loop s =
    (case grab_page s of (res, s) \<Rightarrow>
       if res \<ge> HIGH_MEMORY s then get_free_page_loop s
       else if res = 0 then
        (case swap_out s of
           Done swapped s \<Rightarrow> if swapped then get_free_page_loop s else Some (Done 0 s)
         | Exits c s \<Rightarrow> Some (Exits c s)
         | Panics m \<Rightarrow> Some (Panics m)
         | Undefined m \<Rightarrow> Some (Undefined m)
         | Diverges \<Rightarrow> Some Diverges)
       else Some (Done res s))"

definition get_free_page :: "'a mm_state_scheme \<Rightarrow> ('a mm_state_scheme, u32) outcome" where
  "get_free_page s = (case get_free_page_loop s of None \<Rightarrow> Diverges | Some r \<Rightarrow> r)"

text \<open>\<^verbatim>\<open>oom()\<close>, from \<^verbatim>\<open>include/linux/mm.h\<close>.\<close>

definition oom :: "'a mm_state_scheme \<Rightarrow> ('a mm_state_scheme, 'b) outcome" where
  "oom s = Exits 11 s"

definition swap_in :: "u32 \<Rightarrow> 'a mm_state_scheme \<Rightarrow> ('a mm_state_scheme, unit) outcome" where
  "swap_in table_ptr s =
    (if swap_bitmap s = 0 then Done () s
     else if bit (pmem s table_ptr) 0 then Done () s
     else
      (let swap_nr = unat (drop_bit 1 (pmem s table_ptr)) in
       if swap_nr = 0 then Done () s
       else
        and_then (get_free_page s) (\<lambda>page s.
          if page = 0 then oom s
          else
           (let s = read_swap_page swap_nr page s;
                s = snd (setbit (swap_bitmap s) swap_nr s)
            in Done () (write_long table_ptr (page OR (PAGE_DIRTY OR 7)) s)))))"

subsection \<open>Page tables\<close>

text \<open>The inner loop of \<^verbatim>\<open>free_page_tables\<close>: \<open>n\<close> entries from address \<open>a\<close>.\<close>

primrec free_table_entries ::
  "nat \<Rightarrow> u32 \<Rightarrow> 'a mm_state_scheme \<Rightarrow> ('a mm_state_scheme, unit) outcome" where
  "free_table_entries 0 a s = Done () s"
| "free_table_entries (Suc n) a s =
    (let e = pmem s a in
     and_then
      (if e = 0 then Done () s
       else
        and_then (if bit e 0 then free_page (frame e) s
                  else Done () (swap_free (unat (drop_bit 1 e)) s))
          (\<lambda>_ s. Done () (write_long a 0 s)))
      (\<lambda>_ s. free_table_entries n (a + 4) s))"

primrec free_directories ::
  "nat \<Rightarrow> u32 \<Rightarrow> 'a mm_state_scheme \<Rightarrow> ('a mm_state_scheme, unit) outcome" where
  "free_directories 0 dir s = Done () s"
| "free_directories (Suc n) dir s =
    and_then
     (if \<not> bit (pmem s dir) 0 then Done () s
      else
       and_then (free_table_entries 1024 (frame (pmem s dir)) s) (\<lambda>_ s.
       and_then (free_page (frame (pmem s dir)) s) (\<lambda>_ s.
       Done () (write_long dir 0 s))))
     (\<lambda>_ s. free_directories n (dir + 4) s)"

definition free_page_tables ::
  "u32 \<Rightarrow> u32 \<Rightarrow> 'a mm_state_scheme \<Rightarrow> ('a mm_state_scheme, int) outcome" where
  "free_page_tables from sz s =
    (if from AND 0x3fffff \<noteq> 0 then Panics ''free_page_tables called with wrong alignment''
     else if from = 0 then Panics ''Trying to free up swapper memory space''
     else
      and_then (free_directories (unat (drop_bit 22 (sz + 0x3fffff))) (pde_addr from) s)
        (\<lambda>_ s. Done 0 s))"

text \<open>
  The inner loop of \<^verbatim>\<open>copy_page_tables\<close>: \<open>nr\<close> entries of the page table at \<open>f\<close> are copied to the one
  at \<open>t\<close>. The value says whether the memory sufficed.
\<close>

primrec copy_table_entries ::
  "nat \<Rightarrow> u32 \<Rightarrow> u32 \<Rightarrow> 'a mm_state_scheme \<Rightarrow> ('a mm_state_scheme, bool) outcome" where
  "copy_table_entries 0 f t s = Done True s"
| "copy_table_entries (Suc nr) f t s =
    (let this_page = pmem s f in
     if this_page = 0 then copy_table_entries nr (f + 4) (t + 4) s
     else if \<not> bit this_page 0 then
       and_then (get_free_page s) (\<lambda>new_page s.
         if new_page = 0 then Done False s
         else
          (let s = read_swap_page (unat (drop_bit 1 this_page)) new_page s;
               s = write_long t this_page s;
               s = write_long f (new_page OR (PAGE_DIRTY OR 7)) s
           in copy_table_entries nr (f + 4) (t + 4) s))
     else
      (let this_page = this_page AND NOT 2;
           s = write_long t this_page s;
           s = (if this_page > LOW_MEM then
                 (let s = write_long f this_page s; i = MAP_NR this_page
                  in s\<lparr>mem_map := (mem_map s)(i := mem_map s i + 1)\<rparr>)
                else s)
       in copy_table_entries nr (f + 4) (t + 4) s))"

primrec copy_directories ::
  "bool \<Rightarrow> nat \<Rightarrow> u32 \<Rightarrow> u32 \<Rightarrow> 'a mm_state_scheme \<Rightarrow> ('a mm_state_scheme, int) outcome" where
  "copy_directories low 0 from_dir to_dir s = Done 0 s"
| "copy_directories low (Suc n) from_dir to_dir s =
    (if bit (pmem s to_dir) 0 then Panics ''copy_page_tables: already exist''
     else if \<not> bit (pmem s from_dir) 0
     then copy_directories low n (from_dir + 4) (to_dir + 4) s
     else
      (let from_page_table = frame (pmem s from_dir) in
       and_then (get_free_page s) (\<lambda>to_page_table s.
         if to_page_table = 0 then Done (- 1) s
         else
           and_then
            (copy_table_entries (if low then 0xA0 else 1024) from_page_table to_page_table
               (write_long to_dir (to_page_table OR 7) s))
            (\<lambda>ok s. if ok then copy_directories low n (from_dir + 4) (to_dir + 4) s
                    else Done (- 1) s))))"

definition copy_page_tables ::
  "u32 \<Rightarrow> u32 \<Rightarrow> u32 \<Rightarrow> 'a mm_state_scheme \<Rightarrow> ('a mm_state_scheme, int) outcome" where
  "copy_page_tables from to sz s =
    (if from AND 0x3fffff \<noteq> 0 \<or> to AND 0x3fffff \<noteq> 0
     then Panics ''copy_page_tables called with wrong alignment''
     else copy_directories (from = 0) (unat (drop_bit 22 (sz + 0x3fffff)))
            (pde_addr from) (pde_addr to) s)"

text \<open>
  \<^verbatim>\<open>put_page\<close> and \<^verbatim>\<open>put_dirty_page\<close> differ in the flags of the new entry only; their range checks
  print a message and go on. The result 0 means that no page table could be had.
\<close>

definition put_page_flags ::
  "u32 \<Rightarrow> u32 \<Rightarrow> u32 \<Rightarrow> 'a mm_state_scheme \<Rightarrow> ('a mm_state_scheme, u32) outcome" where
  "put_page_flags fl page address s =
    (let pde = pde_addr address;
         idx = drop_bit 12 address AND 0x3ff in
     if bit (pmem s pde) 0 then
       Done page (write_long (frame (pmem s pde) + 4 * idx) (page OR fl) s)
     else
       and_then (get_free_page s) (\<lambda>tmp s.
         if tmp = 0 then Done 0 s
         else Done page (write_long (tmp + 4 * idx) (page OR fl) (write_long pde (tmp OR 7) s))))"

definition put_page ::
  "u32 \<Rightarrow> u32 \<Rightarrow> 'a mm_state_scheme \<Rightarrow> ('a mm_state_scheme, u32) outcome" where
  "put_page = put_page_flags 7"

definition put_dirty_page ::
  "u32 \<Rightarrow> u32 \<Rightarrow> 'a mm_state_scheme \<Rightarrow> ('a mm_state_scheme, u32) outcome" where
  "put_dirty_page = put_page_flags (PAGE_DIRTY OR 7)"

subsection \<open>Copy on write\<close>

definition un_wp_page ::
  "u32 \<Rightarrow> 'a mm_state_scheme \<Rightarrow> ('a mm_state_scheme, unit) outcome" where
  "un_wp_page table_entry s =
    (let old_page = frame (pmem s table_entry) in
     if old_page \<ge> LOW_MEM \<and> mem_map s (MAP_NR old_page) = 1
     then Done () (write_long table_entry (pmem s table_entry OR 2) s)
     else
       and_then (get_free_page s) (\<lambda>new_page s.
         if new_page = 0 then oom s
         else
          (let i = MAP_NR old_page;
               s = (if old_page \<ge> LOW_MEM
                    then s\<lparr>mem_map := (mem_map s)(i := mem_map s i - 1)\<rparr> else s);
               s = copy_page old_page new_page s
           in Done () (write_long table_entry (new_page OR 7) s))))"

definition write_verify ::
  "u32 \<Rightarrow> 'a mm_state_scheme \<Rightarrow> ('a mm_state_scheme, unit) outcome" where
  "write_verify address s =
    (let page = pmem s (pde_addr address) in
     if \<not> bit page 0 then Done () s
     else
      (let page = frame page + pte_offset address in
       if 3 AND pmem s page = 1 then un_wp_page page s else Done () s))"

definition get_empty_page ::
  "u32 \<Rightarrow> 'a mm_state_scheme \<Rightarrow> ('a mm_state_scheme, unit) outcome" where
  "get_empty_page address s =
    and_then (get_free_page s) (\<lambda>tmp s.
    and_then (if tmp = 0 then Done 0 s else put_page tmp address s) (\<lambda>put s.
      if tmp = 0 \<or> put = 0
      then and_then (free_page tmp s) (\<lambda>_ s. oom s)
      else Done () s))"

text \<open>The signed loop \<^verbatim>\<open>while (end_mem-- > 0)\<close> of \<^verbatim>\<open>mem_init\<close> frees \<open>n\<close> pages from page \<open>i\<close> on.\<close>

definition mem_init :: "u32 \<Rightarrow> u32 \<Rightarrow> 'a mm_state_scheme \<Rightarrow> 'a mm_state_scheme" where
  "mem_init start_mem end_mem s =
    (let m = (\<lambda>i. if i < PAGING_PAGES then USED else mem_map s i);
         i = MAP_NR start_mem;
         n = nat (sint (end_mem - start_mem) div 4096)
     in s\<lparr>HIGH_MEMORY := end_mem, mem_map := fold (\<lambda>k m. m(i + k := 0)) [0..<n] m\<rparr>)"

end
