(* ===== verification/Slot_Allocator.thy ===== *)
theory Slot_Allocator
  imports Kernel_Prelude
begin

section \<open>The contract of a numbered-slot allocator\<close>

text \<open>
  The swap bitmap, the zone bitmap and the inode bitmap of a file system are allocators of the same
  kind: \<open>alloc\<close> hands out a free number and answers 0 when none is left, \<open>release\<close> gives one back.
  The contract speaks of the set \<open>avail s\<close> of free numbers only; what a client may conclude from it is
  proved here once. The interpretations are in the theories of the bitmaps.
\<close>

text \<open>\<open>n\<close> allocations in a row, with the numbers handed out.\<close>

primrec take_slots :: "('s \<Rightarrow> nat \<times> 's) \<Rightarrow> nat \<Rightarrow> 's \<Rightarrow> nat list \<times> 's" where
  "take_slots alloc 0 s = ([], s)"
| "take_slots alloc (Suc n) s =
    (let (x, s1) = alloc s; (xs, s2) = take_slots alloc n s1 in (x # xs, s2))"

locale slot_allocator =
  fixes alloc :: "'s \<Rightarrow> nat \<times> 's"
    and release :: "nat \<Rightarrow> 's \<Rightarrow> 's"
    and avail :: "'s \<Rightarrow> nat set"
    and ready :: "'s \<Rightarrow> bool"
    and slots :: "'s \<Rightarrow> nat set"
  assumes alloc_none: "ready s \<Longrightarrow> avail s = {} \<Longrightarrow> alloc s = (0, s)"
    and alloc_some: "ready s \<Longrightarrow> avail s \<noteq> {} \<Longrightarrow>
      fst (alloc s) \<in> avail s \<and> avail (snd (alloc s)) = avail s - {fst (alloc s)}"
    and ready_alloc: "ready s \<Longrightarrow> ready (snd (alloc s))"
    and release_avail: "ready s \<Longrightarrow> n \<in> slots s \<Longrightarrow> avail (release n s) = insert n (avail s)"
    and ready_release: "ready s \<Longrightarrow> ready (release n s)"
    and avail_slots: "ready s \<Longrightarrow> avail s \<subseteq> slots s"
    and slots_alloc: "ready s \<Longrightarrow> slots (snd (alloc s)) = slots s"
    and finite_slots: "finite (slots s)" and slot_positive: "0 \<notin> slots s"
begin

lemma alloc_zero_iff: "ready s \<Longrightarrow> fst (alloc s) = 0 \<longleftrightarrow> avail s = {}"
  using alloc_none[of s] alloc_some[of s] avail_slots[of s] slot_positive[of s] by force

lemma release_alloc:
  assumes "ready s" and "avail s \<noteq> {}"
  shows "avail (release (fst (alloc s)) (snd (alloc s))) = avail s"
  using alloc_some[OF assms] release_avail[OF ready_alloc[OF assms(1)]] avail_slots[OF assms(1)]
    slots_alloc[OF assms(1)] by auto

lemma take_slots_distinct:
  assumes "ready s" and "n \<le> card (avail s)"
  shows "distinct (fst (take_slots alloc n s)) \<and> set (fst (take_slots alloc n s)) \<subseteq> avail s \<and>
    length (fst (take_slots alloc n s)) = n \<and>
    avail (snd (take_slots alloc n s)) = avail s - set (fst (take_slots alloc n s))"
  using assms
proof (induction n arbitrary: s)
  case 0
  then show ?case by simp
next
  case (Suc n)
  obtain x s1 where a: "alloc s = (x, s1)" by fastforce
  have "finite (avail s)"
    using avail_slots[OF Suc.prems(1)] finite_slots by (rule finite_subset)
  moreover have "avail s \<noteq> {}" using Suc.prems(2) by auto
  ultimately have "x \<in> avail s" "avail s1 = avail s - {x}" "ready s1" "n \<le> card (avail s1)"
    using alloc_some[OF Suc.prems(1)] ready_alloc[OF Suc.prems(1)] Suc.prems(2) a by auto
  then show ?case
    using Suc.IH[of s1] a by (auto simp: case_prod_unfold Let_def)
qed

end

end
