(* ===== verification/Memory_Props.thy ===== *)
theory Memory_Props
  imports Memory Slot_Allocator
begin

section \<open>What the memory manager promises\<close>

text \<open>
  Arithmetic of page frames, allocation of pages, copy on write and the swap bitmap (an
  interpretation of the slot allocator), and the round trip of a page through swap space.
\<close>

unbundle bit_operations_syntax

subsection \<open>Page frames\<close>

definition page_addr :: "nat \<Rightarrow> u32" where
  "page_addr i = push_bit 12 (of_nat i) + LOW_MEM"

lemma unat_page_addr: "i < PAGING_PAGES \<Longrightarrow> unat (page_addr i) = 4096 * i + 0x100000"
  by (simp add: page_addr_def push_bit_eq_mult unat_word_ariths unat_of_nat)

lemma MAP_NR_page_addr [simp]: "i < PAGING_PAGES \<Longrightarrow> MAP_NR (page_addr i) = i"
  by (simp add: page_addr_def MAP_NR_def push_bit_eq_mult drop_bit_eq_div unat_div unat_word_ariths unat_of_nat)

lemma last_free_Some:
  "last_free m n = Some i \<Longrightarrow> i < n \<and> m i = 0 \<and> (\<forall>j. i < j \<and> j < n \<longrightarrow> m j \<noteq> 0)"
  by (induction n) (auto split: if_splits simp: less_Suc_eq)

lemma last_free_None: "last_free m n = None \<longleftrightarrow> (\<forall>i<n. m i \<noteq> 0)"
  by (induction n) (auto simp: less_Suc_eq)

lemma last_free_ex: "i < n \<Longrightarrow> m i = 0 \<Longrightarrow> \<exists>j. last_free m n = Some j"
  using last_free_None[of m n] by (cases "last_free m n") auto

text \<open>Pages above the installed memory are never free: \<open>mem_init\<close> marks them used.\<close>

definition map_within_memory :: "'a mm_state_scheme \<Rightarrow> bool" where
  "map_within_memory s \<longleftrightarrow>
     (\<forall>i<PAGING_PAGES. mem_map s i = 0 \<longrightarrow> page_addr i < HIGH_MEMORY s)"

lemma page_addr_neq_0: "i < PAGING_PAGES \<Longrightarrow> page_addr i \<noteq> 0"
  using unat_page_addr[of i] by auto

lemma get_free_page_free:
  assumes "map_within_memory s" and "i < PAGING_PAGES" and "mem_map s i = 0"
  shows "\<exists>j<PAGING_PAGES. mem_map s j = 0 \<and> page_addr j < HIGH_MEMORY s \<and>
    get_free_page s =
      Done (page_addr j) (clear_page (page_addr j) (s\<lparr>mem_map := (mem_map s)(j := 1)\<rparr>))"
proof -
  obtain j where j: "last_free (mem_map s) PAGING_PAGES = Some j"
    using last_free_ex assms(2,3) by blast
  then have "j < PAGING_PAGES" "mem_map s j = 0" by (auto dest: last_free_Some)
  moreover from this have "page_addr j < HIGH_MEMORY s"
    using assms(1) by (auto simp: map_within_memory_def)
  moreover have "grab_page s =
      (page_addr j, clear_page (page_addr j) (s\<lparr>mem_map := (mem_map s)(j := 1)\<rparr>))"
    using j by (simp add: grab_page_def page_addr_def Let_def)
  ultimately show ?thesis
    using page_addr_neq_0[of j]
    by (intro exI[of _ j])
      (simp add: get_free_page_def get_free_page_loop.simps[of s] clear_page_def not_le[symmetric])
qed

lemma page_addr_push: "page_addr i = push_bit 12 (of_nat (i + 256))"
  by (simp add: page_addr_def push_bit_eq_mult distrib_left)

lemma low_masks: "(0xfffff000 :: u32) = NOT (mask 12)" "(7 :: u32) = mask 3" "(3 :: u32) = mask 2"
    "(0xffc :: u32) = push_bit 2 (mask 10)" "(2 :: u32) = push_bit 1 (mask 1)"
  by (simp_all add: mask_eq_exp_minus_1 word_eq_iff_unsigned)

lemma frame_mask: "frame w = w AND NOT (mask 12)"
  by (simp add: frame_def low_masks(1) and.commute)

lemma frame_idem [simp]: "frame (frame w) = frame w"
  by (simp add: frame_mask and.assoc)

lemma frame_OR_flags [simp]:
  "frame (page_addr i OR 7) = page_addr i"
  unfolding frame_mask page_addr_push low_masks(2)
  by (rule bit_word_eqI) (auto simp: bit_simps)

lemma frame_OR_2 [simp]: "frame (w OR 2) = frame w"
  unfolding frame_mask low_masks(5) by (rule bit_word_eqI) (auto simp: bit_simps)

lemma in_page_nth: "k < 1024 \<Longrightarrow> in_page p (p + 4 * of_nat k)"
proof -
  assume k: "k < 1024"
  have "4 * (of_nat k :: u32) < 4096"
    using k by (simp add: word_less_nat_alt unat_word_ariths unat_of_nat)
  moreover have "4 * (of_nat k :: u32) = push_bit 2 (of_nat k)"
    by (simp add: push_bit_eq_mult)
  then have "4 * (of_nat k :: u32) AND 3 = 0"
    unfolding low_masks(3) by (simp add: take_bit_eq_mask[symmetric] take_bit_push_bit)
  ultimately show ?thesis by (simp add: in_page_def)
qed


lemma frame_add_offset:
  assumes p: "frame p = p" and d: "d < 4096"
  shows "frame (p + d) = p"
proof -
  have d': "d = d AND mask 12"
    using d less_mask_eq[of d 12] by simp
  have "p AND d = 0"
    by (subst d', subst p[symmetric]) (simp add: frame_mask and.assoc and.left_commute)
  then have "p + d = p OR d" by (rule disjunctive_add_eq_or)
  moreover have "d AND NOT (mask 12) = 0"
    by (subst d') (simp add: and.assoc)
  ultimately show ?thesis
    using p by (simp add: frame_mask bit.conj_disj_distrib2)
qed

lemma in_page_frame: "frame p = p \<Longrightarrow> in_page p a \<Longrightarrow> frame a = p"
  using frame_add_offset[of p "a - p"] by (simp add: in_page_def)

lemma frame_page_addr [simp]: "frame (page_addr i) = page_addr i"
  unfolding frame_mask page_addr_push
  by (rule bit_word_eqI) (auto simp: bit_simps)

lemma frame_unat: "frame p = p \<Longrightarrow> unat p mod 4096 = 0"
proof -
  assume p: "frame p = p"
  have "p AND mask 12 = frame p AND mask 12" by (simp only: p)
  also have "\<dots> = 0" by (simp add: frame_mask and.assoc)
  finally have "p AND mask 12 = 0" .
  then have "take_bit 12 p = 0" by (simp only: take_bit_eq_mask)
  then have "take_bit 12 (unat p) = 0" by (metis unsigned_0 unsigned_take_bit_eq)
  then show ?thesis by (simp add: take_bit_eq_mod)
qed

lemma page_addr_MAP_NR:
  assumes "LOW_MEM \<le> p" and "frame p = p" and "MAP_NR p < PAGING_PAGES"
  shows "page_addr (MAP_NR p) = p"
proof (rule word_unat_eq_iff[THEN iffD2])
  have "unat (p - LOW_MEM) = unat p - 0x100000"
    using assms(1) by (simp add: unat_sub)
  then have "MAP_NR p = (unat p - 0x100000) div 4096"
    by (simp add: MAP_NR_def drop_bit_eq_div unat_div)
  moreover have "0x100000 \<le> unat p" using assms(1) by (simp add: word_le_nat_alt)
  ultimately show "unat (page_addr (MAP_NR p)) = unat p"
    using unat_page_addr[OF assms(3)] frame_unat[OF assms(2)] by (auto elim!: dvdE[OF mod_0_imp_dvd])
qed

text \<open>Two different page frames have no word in common.\<close>

lemma pages_disjoint:
  "frame p = p \<Longrightarrow> frame q = q \<Longrightarrow> p \<noteq> q \<Longrightarrow> in_page p a \<Longrightarrow> \<not> in_page q a"
  by (auto dest: in_page_frame)

text \<open>The page through an entry: its 1024 words.\<close>

definition page_view :: "'a mm_state_scheme \<Rightarrow> u32 \<Rightarrow> nat \<Rightarrow> u32" where
  "page_view s e k = pmem s (frame e + 4 * of_nat k)"

text \<open>
  A page table entry that the kernel maintains: the frame it maps and the table it stands in are
  not free pages, and it does not map the table it stands in.
\<close>

definition entry_ok :: "'a mm_state_scheme \<Rightarrow> u32 \<Rightarrow> bool" where
  "entry_ok s te \<longleftrightarrow>
     bit (pmem s te) 0 \<and> \<not> in_page (frame (pmem s te)) te \<and>
     (\<forall>i<PAGING_PAGES. mem_map s i = 0 \<longrightarrow> frame (pmem s te) \<noteq> page_addr i \<and> \<not> in_page (page_addr i) te)"

text \<open>
  C1. Copy on write: when a task writes through a read-only entry and a free page exists,
  \<open>un_wp_page\<close> succeeds; the entry becomes present and writable and maps a frame that this entry
  alone uses, with the 1024 words the page had; the page that was shared keeps its words and, if it
  was left behind, loses one user.
\<close>

theorem un_wp_page_private_copy:
  assumes "map_within_memory s" and "i < PAGING_PAGES" and "mem_map s i = 0"
    and ok: "entry_ok s te"
  shows "\<exists>s'. un_wp_page te s = Done () s' \<and>
    bit (pmem s' te) 0 \<and> bit (pmem s' te) 1 \<and>
    mem_map s' (MAP_NR (frame (pmem s' te))) = 1 \<and>
    (\<forall>k<1024. page_view s' (pmem s' te) k = page_view s (pmem s te) k) \<and>
    (\<forall>k<1024. page_view s' (pmem s te) k = page_view s (pmem s te) k) \<and>
    (frame (pmem s te) \<noteq> frame (pmem s' te) \<longrightarrow> LOW_MEM \<le> frame (pmem s te) \<longrightarrow>
      mem_map s' (MAP_NR (frame (pmem s te))) = mem_map s (MAP_NR (frame (pmem s te))) - 1)"
proof -
  let ?old = "frame (pmem s te)"
  have not_te: "?old + 4 * of_nat k \<noteq> te" if "k < 1024" for k
    using ok in_page_nth[OF that, of ?old] by (auto simp: entry_ok_def)
  show ?thesis
  proof (cases "LOW_MEM \<le> ?old \<and> mem_map s (MAP_NR ?old) = 1")
    case True
    then show ?thesis
      using ok not_te
      by (auto simp: un_wp_page_def Let_def write_long_def page_view_def entry_ok_def bit_simps)
  next
    case False
    obtain j where j: "j < PAGING_PAGES" "mem_map s j = 0"
      and g: "get_free_page s =
        Done (page_addr j) (clear_page (page_addr j) (s\<lparr>mem_map := (mem_map s)(j := 1)\<rparr>))"
      using get_free_page_free[OF assms(1-3)] by blast
    let ?new = "page_addr j"
    have j_old: "j = MAP_NR ?old \<Longrightarrow> LOW_MEM \<le> ?old \<Longrightarrow> page_addr j = ?old"
      using page_addr_MAP_NR[of ?old] j by simp
    have ne: "?old \<noteq> ?new" and te: "\<not> in_page ?new te"
      using ok j by (auto simp: entry_ok_def)
    have "in_page ?new (?old + 4 * of_nat k) = False" if "k < 1024" for k
      using pages_disjoint[of ?old ?new] ne in_page_nth[OF that] by auto
    moreover have "?new + 4 * of_nat k \<noteq> te" if "k < 1024" for k
      using te in_page_nth[OF that, of ?new] by auto
    ultimately show ?thesis
      using False j j_old g page_addr_neq_0[of j] ne te not_te in_page_nth
      by (auto simp: un_wp_page_def Let_def write_long_def page_view_def
          copy_page_def clear_page_def bit_simps)
  qed
qed

subsection \<open>The swap bitmap\<close>

definition free_swap_pages :: "'a mm_state_scheme \<Rightarrow> nat set" where
  "free_swap_pages s = {nr. 0 < nr \<and> nr < SWAP_BITS \<and> bit_in (swap_bitmap s) nr s}"

lemma bitmap_word_inj [simp]:
  "nr < SWAP_BITS \<Longrightarrow> nr' < SWAP_BITS \<Longrightarrow>
   4 * (of_nat (nr div 32) :: u32) = 4 * of_nat (nr' div 32) \<longleftrightarrow> nr div 32 = nr' div 32"
  by (auto simp: word_unat_eq_iff unat_word_ariths unat_of_nat)

lemma bit_nr_eqI: "a div 32 = b div 32 \<Longrightarrow> a mod 32 = b mod 32 \<Longrightarrow> a = (b::nat)"
  by (metis div_mult_mod_eq)

lemma bit_in_setbit:
  "nr < SWAP_BITS \<Longrightarrow> nr' < SWAP_BITS \<Longrightarrow>
   bit_in addr nr' (snd (setbit addr nr s)) \<longleftrightarrow> nr' = nr \<or> bit_in addr nr' s"
  by (auto simp: bit_in_def setbit_def write_long_def Let_def bit_set_bit_iff dest: bit_nr_eqI)

lemma bit_in_clrbit:
  "nr < SWAP_BITS \<Longrightarrow> nr' < SWAP_BITS \<Longrightarrow>
   bit_in addr nr' (snd (clrbit addr nr s)) \<longleftrightarrow> nr' \<noteq> nr \<and> bit_in addr nr' s"
  by (auto simp: bit_in_def clrbit_def write_long_def Let_def bit_unset_bit_iff dest: bit_nr_eqI)

lemma fst_clrbit [simp]: "fst (clrbit addr nr s) = bit_in addr nr s"
  by (simp add: clrbit_def Let_def)

lemma clrbit_clear: "\<not> bit_in addr nr s \<Longrightarrow> snd (clrbit addr nr s) = s"
proof -
  assume "\<not> bit_in addr nr s"
  then have "unset_bit (nr mod 32) w = w" if "w = pmem s (addr + 4 * of_nat (nr div 32))" for w
    using that by (intro bit_word_eqI) (auto simp: bit_in_def bit_unset_bit_iff)
  then show ?thesis by (simp add: clrbit_def Let_def write_long_def)
qed

lemma swap_bitmap_bitops [simp]:
  "swap_bitmap (snd (setbit addr nr s)) = swap_bitmap s"
  "swap_bitmap (snd (clrbit addr nr s)) = swap_bitmap s"
  by (simp_all add: setbit_def clrbit_def write_long_def Let_def)

lemma get_swap_page_from_spec:
  assumes "\<forall>m. 0 < m \<and> m < nr \<longrightarrow> \<not> bit_in (swap_bitmap s) m s" and "0 < nr"
    and "nr + n = SWAP_BITS"
  shows "get_swap_page_from n nr s =
    (if free_swap_pages s = {} then (0, s)
     else (let x = Min (free_swap_pages s) in (x, snd (clrbit (swap_bitmap s) x s))))"
  using assms
proof (induction n arbitrary: nr)
  case 0
  then show ?case by (auto simp: free_swap_pages_def)
next
  case (Suc n)
  show ?case
  proof (cases "bit_in (swap_bitmap s) nr s")
    case True
    then have "nr \<in> free_swap_pages s" using Suc.prems by (auto simp: free_swap_pages_def)
    moreover have "Min (free_swap_pages s) = nr"
      by (rule Min_eqI) (use True Suc.prems in \<open>auto simp: free_swap_pages_def not_less[symmetric]\<close>)
    ultimately show ?thesis using True by (auto simp: split_beta Let_def)
  next
    case False
    moreover have "\<forall>m. 0 < m \<and> m < Suc nr \<longrightarrow> \<not> bit_in (swap_bitmap s) m s"
      using Suc.prems False by (auto simp: less_Suc_eq)
    ultimately show ?thesis
      using Suc.IH[of "Suc nr"] Suc.prems clrbit_clear[OF False] by (simp add: split_beta)
  qed
qed

lemma get_swap_page_spec:
  assumes "swap_bitmap s \<noteq> 0"
  shows "get_swap_page s =
    (if free_swap_pages s = {} then (0, s)
     else (let x = Min (free_swap_pages s) in (x, snd (clrbit (swap_bitmap s) x s))))"
  using assms get_swap_page_from_spec[of 1 s "SWAP_BITS - 1"] by (simp add: get_swap_page_def)

lemma finite_free_swap_pages [simp]: "finite (free_swap_pages s)"
  by (rule finite_subset[of _ "{..<SWAP_BITS}"]) (auto simp: free_swap_pages_def)

interpretation swap_pages: slot_allocator
  get_swap_page swap_free free_swap_pages "\<lambda>s. swap_bitmap s \<noteq> 0" "\<lambda>s. {1..<SWAP_BITS}"
proof
  fix s :: "'a mm_state_scheme"
  assume r: "swap_bitmap s \<noteq> 0"
  show "get_swap_page s = (0, s)" if "free_swap_pages s = {}"
    using get_swap_page_spec[OF r] that by simp
  show "swap_bitmap (snd (get_swap_page s)) \<noteq> 0"
    using r get_swap_page_spec[OF r] by (simp add: Let_def)
  show "fst (get_swap_page s) \<in> free_swap_pages s \<and>
      free_swap_pages (snd (get_swap_page s)) = free_swap_pages s - {fst (get_swap_page s)}"
    if "free_swap_pages s \<noteq> {}"
  proof -
    have "Min (free_swap_pages s) \<in> free_swap_pages s" using that by (intro Min_in) auto
    then show ?thesis
      using get_swap_page_spec[OF r] that
      by (auto simp: Let_def free_swap_pages_def bit_in_clrbit)
  qed
  show "free_swap_pages (swap_free n s) = insert n (free_swap_pages s)" if "n \<in> {1..<SWAP_BITS}" for n
    using that r by (auto simp: swap_free_def free_swap_pages_def bit_in_setbit)
  show "swap_bitmap (swap_free n s) \<noteq> 0" for n
    using r by (simp add: swap_free_def)
qed (auto simp: free_swap_pages_def)

subsection \<open>A page through swap space\<close>

definition page_in_use :: "'a mm_state_scheme \<Rightarrow> u32 \<Rightarrow> bool" where
  "page_in_use s p \<longleftrightarrow> frame p = p \<and> (\<forall>i<PAGING_PAGES. mem_map s i = 0 \<longrightarrow> p \<noteq> page_addr i)"

lemma in_page_bitmap: "nr < SWAP_BITS \<Longrightarrow> in_page b (b + 4 * of_nat (nr div 32))"
  by (rule in_page_nth) simp

lemma page_word_index: "k < 1024 \<Longrightarrow> unat (drop_bit 2 (4 * of_nat k :: u32)) = k"
  by (simp add: drop_bit_eq_div unat_div unat_word_ariths unat_of_nat)

lemma pmem_clrbit_other:
  "a \<noteq> addr + 4 * of_nat (nr div 32) \<Longrightarrow> pmem (snd (clrbit addr nr s)) a = pmem s a"
  by (simp add: clrbit_def Let_def write_long_def)

lemma pmem_setbit_other:
  "a \<noteq> addr + 4 * of_nat (nr div 32) \<Longrightarrow> pmem (snd (setbit addr nr s)) a = pmem s a"
  by (simp add: setbit_def Let_def write_long_def)

lemma mem_bitops [simp]:
  "mem_map (snd (clrbit addr nr s)) = mem_map s" "mem_map (snd (setbit addr nr s)) = mem_map s"
  "HIGH_MEMORY (snd (clrbit addr nr s)) = HIGH_MEMORY s" "HIGH_MEMORY (snd (setbit addr nr s)) = HIGH_MEMORY s"
  "swap_space (snd (clrbit addr nr s)) = swap_space s" "swap_space (snd (setbit addr nr s)) = swap_space s"
  by (simp_all add: clrbit_def setbit_def Let_def write_long_def)

text \<open>A dirty page of one user, in memory the kernel manages, that swap space has room for.\<close>

definition swappable :: "'a mm_state_scheme \<Rightarrow> u32 \<Rightarrow> bool" where
  "swappable s te \<longleftrightarrow>
     entry_ok s te \<and> PAGE_DIRTY AND pmem s te \<noteq> 0 \<and> pmem s te - LOW_MEM \<le> PAGING_MEMORY \<and>
     LOW_MEM \<le> frame (pmem s te) \<and> frame (pmem s te) < HIGH_MEMORY s \<and>
     MAP_NR (frame (pmem s te)) < PAGING_PAGES \<and> mem_map s (MAP_NR (frame (pmem s te))) = 1"

definition swap_ready :: "'a mm_state_scheme \<Rightarrow> u32 \<Rightarrow> bool" where
  "swap_ready s te \<longleftrightarrow>
     swap_bitmap s \<noteq> 0 \<and> page_in_use s (swap_bitmap s) \<and> \<not> in_page (swap_bitmap s) te \<and>
     swap_bitmap s \<noteq> frame (pmem s te) \<and> free_swap_pages s \<noteq> {}"


lemma free_swap_pages_frame:
  assumes "swap_bitmap s' = swap_bitmap s"
    and "\<And>nr. nr < SWAP_BITS \<Longrightarrow> pmem s' (swap_bitmap s + 4 * of_nat (nr div 32)) =
      pmem s (swap_bitmap s + 4 * of_nat (nr div 32))"
  shows "free_swap_pages s' = free_swap_pages s"
  using assms by (auto simp: free_swap_pages_def bit_in_def)

lemma try_to_swap_out_dirty:
  assumes "swappable s te" and "swap_ready s te"
  shows "\<exists>nr s1. nr \<in> free_swap_pages s \<and> try_to_swap_out te s = Done True s1 \<and>
    pmem s1 te = push_bit 1 (of_nat nr) \<and>
    (\<forall>k<1024. swap_space s1 nr k = page_view s (pmem s te) k) \<and>
    free_swap_pages s1 = free_swap_pages s - {nr} \<and>
    swap_bitmap s1 = swap_bitmap s \<and> HIGH_MEMORY s1 = HIGH_MEMORY s \<and>
    mem_map s1 = (mem_map s)(MAP_NR (frame (pmem s te)) := 0)"
proof -
  let ?old = "frame (pmem s te)" and ?b = "swap_bitmap s"
  obtain nr where nr: "nr \<in> free_swap_pages s" and g: "get_swap_page s = (nr, snd (clrbit ?b nr s))"
    using assms(2) get_swap_page_spec[of s] by (auto simp: swap_ready_def Let_def)
  then have nr': "0 < nr" "nr < SWAP_BITS" by (auto simp: free_swap_pages_def)
  have old: "?old + 4 * of_nat k \<noteq> te \<and> ?old + 4 * of_nat k \<noteq> ?b + 4 * of_nat (nr div 32)"
    if "k < 1024" for k
    using assms in_page_nth[OF that, of ?old] in_page_bitmap[OF nr'(2), of ?b]
      pages_disjoint[of ?old ?b]
    by (auto simp: swappable_def swap_ready_def entry_ok_def page_in_use_def)
  have te: "?b + 4 * of_nat (n div 32) \<noteq> te" if "n < SWAP_BITS" for n
    using assms in_page_bitmap[OF that, of ?b] by (auto simp: swap_ready_def)
  define s0 where "s0 = snd (clrbit ?b nr s)"
  define s1 where "s1 = write_swap_page nr ?old (write_long te (push_bit 1 (of_nat nr)) s0)"
  define s2 where "s2 = s1\<lparr>mem_map := (mem_map s)(MAP_NR ?old := 0)\<rparr>"
  have "\<not> ?old < LOW_MEM" "\<not> HIGH_MEMORY s \<le> ?old" "\<not> PAGING_MEMORY < pmem s te - LOW_MEM"
    using assms(1) by (simp_all add: swappable_def not_less not_le)
  then have out: "try_to_swap_out te s = Done True s2"
    using assms(1) nr' g
    by (simp add: try_to_swap_out_def swappable_def entry_ok_def Let_def s1_def s0_def s2_def
        free_page_def write_long_def write_swap_page_def)
  have "free_swap_pages s2 = free_swap_pages s0"
  proof (rule free_swap_pages_frame)
    show "swap_bitmap s2 = swap_bitmap s0"
      by (simp add: s2_def s1_def write_swap_page_def write_long_def)
    fix n assume "n < SWAP_BITS"
    from te[OF this] show "pmem s2 (swap_bitmap s0 + 4 * of_nat (n div 32)) =
        pmem s0 (swap_bitmap s0 + 4 * of_nat (n div 32))"
      by (simp add: s2_def s1_def s0_def write_swap_page_def write_long_def)
  qed
  moreover have "free_swap_pages s0 = free_swap_pages s - {nr}"
    using nr' by (auto simp: s0_def free_swap_pages_def bit_in_clrbit)
  ultimately have "free_swap_pages s2 = free_swap_pages s - {nr}" by simp
  moreover have "\<forall>k<1024. swap_space s2 nr k = page_view s (pmem s te) k"
    using old by (auto simp: s2_def s1_def s0_def write_swap_page_def write_long_def page_view_def
        pmem_clrbit_other)
  moreover have "pmem s2 te = push_bit 1 (of_nat nr)" "swap_bitmap s2 = ?b"
      "HIGH_MEMORY s2 = HIGH_MEMORY s" "mem_map s2 = (mem_map s)(MAP_NR ?old := 0)"
    by (simp_all add: s2_def s1_def s0_def write_swap_page_def write_long_def)
  ultimately show ?thesis using nr out by blast
qed


lemma bit_of_nat_swap_entry: "nr < SWAP_BITS \<Longrightarrow> drop_bit 1 (push_bit 1 (of_nat nr :: u32)) = of_nat nr"
  by (simp add: push_bit_eq_mult drop_bit_eq_div word_unat_eq_iff unat_word_ariths unat_div unat_of_nat)

lemma swap_entry_absent: "\<not> bit (w * 2 :: u32) 0"
  by (simp add: bit_0)

lemma dirty_entry_bits:
  "frame (page_addr j OR 71) = page_addr j" "bit (page_addr j OR 71) 0"
proof -
  have d: "(71 :: u32) = push_bit 6 (mask 1) OR mask 3"
    by (simp add: mask_eq_exp_minus_1)
  show "frame (page_addr j OR 71) = page_addr j"
    unfolding d frame_mask page_addr_push
    by (rule bit_word_eqI) (auto simp: bit_simps simp del: push_bit_numeral push_bit_of_1 mask_1 mask_Suc_0 mask_numeral)
  show "bit (page_addr j OR 71) 0"
    unfolding d by (simp add: bit_simps)
qed

text \<open>
  C11. A dirty page that the kernel swaps out and later swaps in again comes back with the same 1024
  words, its entry is present again, and the swap page it used is free again. The page may come back
  at another physical address.
\<close>

theorem swap_roundtrip:
  assumes sw: "swappable s te" and rd: "swap_ready s te" and mw: "map_within_memory s"
  shows "\<exists>s1 s2. try_to_swap_out te s = Done True s1 \<and> \<not> bit (pmem s1 te) 0 \<and>
    swap_in te s1 = Done () s2 \<and> bit (pmem s2 te) 0 \<and>
    (\<forall>k<1024. page_view s2 (pmem s2 te) k = page_view s (pmem s te) k) \<and>
    free_swap_pages s2 = free_swap_pages s"
proof -
  let ?i = "MAP_NR (frame (pmem s te))" and ?b = "swap_bitmap s"
  obtain nr s1 where nr: "nr \<in> free_swap_pages s" and out: "try_to_swap_out te s = Done True s1"
    and te1: "pmem s1 te = push_bit 1 (of_nat nr)"
    and sp: "\<forall>k<1024. swap_space s1 nr k = page_view s (pmem s te) k"
    and fr: "free_swap_pages s1 = free_swap_pages s - {nr}"
    and b1: "swap_bitmap s1 = ?b" and h1: "HIGH_MEMORY s1 = HIGH_MEMORY s"
    and m1: "mem_map s1 = (mem_map s)(?i := 0)"
    using try_to_swap_out_dirty[OF sw rd] by blast
  have nr': "0 < nr" "nr < SWAP_BITS" using nr by (auto simp: free_swap_pages_def)
  have i: "?i < PAGING_PAGES" "page_addr ?i = frame (pmem s te)"
    using sw page_addr_MAP_NR[of "frame (pmem s te)"] by (auto simp: swappable_def)
  have mw1: "map_within_memory s1"
    using mw sw i by (auto simp: map_within_memory_def m1 h1 swappable_def)
  obtain j where j: "j < PAGING_PAGES" "mem_map s1 j = 0" and
    g: "get_free_page s1 =
      Done (page_addr j) (clear_page (page_addr j) (s1\<lparr>mem_map := (mem_map s1)(j := 1)\<rparr>))"
    using get_free_page_free[OF mw1 i(1)] m1 by auto
  let ?p = "page_addr j"
  have pb: "?p \<noteq> ?b" "\<not> in_page ?p te"
    using j m1 rd sw i by (auto simp: swap_ready_def swappable_def page_in_use_def entry_ok_def split: if_splits)
  have fb: "frame ?b = ?b" using rd by (simp add: swap_ready_def page_in_use_def)
  have bw: "?b + 4 * of_nat (n div 32) \<noteq> te \<and> \<not> in_page ?p (?b + 4 * of_nat (n div 32))"
    if "n < SWAP_BITS" for n
    using rd in_page_bitmap[OF that, of ?b] pages_disjoint[OF fb _ pb(1)[symmetric], of "?b + 4 * of_nat (n div 32)"]
    by (auto simp: swap_ready_def)
  have pw: "?p + 4 * of_nat k \<noteq> te \<and> ?p + 4 * of_nat k \<noteq> ?b + 4 * of_nat (nr div 32)"
    if "k < 1024" for k
    using in_page_nth[OF that, of ?p] pb(2) bw[OF nr'(2)] by auto
  define s2 where "s2 = read_swap_page nr ?p (clear_page ?p (s1\<lparr>mem_map := (mem_map s1)(j := 1)\<rparr>))"
  define s3 where "s3 = write_long te (?p OR (PAGE_DIRTY OR 7)) (snd (setbit ?b nr s2))"
  have sin: "swap_in te s1 = Done () s3"
    using rd nr' g page_addr_neq_0[OF j(1)] bit_of_nat_swap_entry[OF nr'(2)] b1
    by (simp add: swap_in_def te1 swap_ready_def Let_def s3_def s2_def read_swap_page_def
        clear_page_def unat_of_nat swap_entry_absent)
  have "free_swap_pages s3 = free_swap_pages (snd (setbit ?b nr s2))"
  proof (rule free_swap_pages_frame)
    show "swap_bitmap s3 = swap_bitmap (snd (setbit ?b nr s2))"
      by (simp add: s3_def write_long_def)
    fix n assume "n < SWAP_BITS"
    from bw[OF this] b1 show "pmem s3 (swap_bitmap (snd (setbit ?b nr s2)) + 4 * of_nat (n div 32)) =
        pmem (snd (setbit ?b nr s2)) (swap_bitmap (snd (setbit ?b nr s2)) + 4 * of_nat (n div 32))"
      by (simp add: s3_def s2_def write_long_def read_swap_page_def clear_page_def)
  qed
  moreover have "free_swap_pages (snd (setbit ?b nr s2)) = insert nr (free_swap_pages s2)"
    using nr' b1
    by (auto simp: free_swap_pages_def bit_in_setbit s2_def read_swap_page_def clear_page_def)
  moreover have "free_swap_pages s2 = free_swap_pages s1"
  proof (rule free_swap_pages_frame)
    show "swap_bitmap s2 = swap_bitmap s1"
      by (simp add: s2_def read_swap_page_def clear_page_def)
    fix n assume "n < SWAP_BITS"
    from bw[OF this] b1 show "pmem s2 (swap_bitmap s1 + 4 * of_nat (n div 32)) =
        pmem s1 (swap_bitmap s1 + 4 * of_nat (n div 32))"
      by (simp add: s2_def read_swap_page_def clear_page_def)
  qed
  moreover have "page_view s3 (pmem s3 te) k = page_view s (pmem s te) k" if "k < 1024" for k
    using pw[OF that] sp that in_page_nth[OF that, of ?p]
    by (simp add: page_view_def s3_def s2_def write_long_def read_swap_page_def
        dirty_entry_bits page_word_index pmem_setbit_other clear_page_def)
  ultimately show ?thesis
    using out sin fr nr te1
    by (intro exI[of _ s1] exI[of _ s3])
      (auto simp: s3_def write_long_def dirty_entry_bits(2) swap_entry_absent)
qed

subsection \<open>Allocation\<close>

lemma clear_page_sel [simp]:
  "mem_map (clear_page p s) = mem_map s" "HIGH_MEMORY (clear_page p s) = HIGH_MEMORY s"
  "pmem (clear_page p s) a = (if in_page p a then 0 else pmem s a)"
  by (simp_all add: clear_page_def)

text \<open>
  As long as one page is free, \<open>get_free_page\<close> returns (the scan and its \<open>repeat\<close> loop end) a page
  frame inside the installed memory that nobody used, marks it used once, clears its 1024 words,
  touches no other word of memory, and \<open>free_page\<close> takes the page back with the map as it was.
\<close>

theorem get_free_page_delivers:
  assumes "map_within_memory s" and "i < PAGING_PAGES" and "mem_map s i = 0"
  shows "\<exists>p s' s''. get_free_page s = Done p s' \<and> frame p = p \<and> LOW_MEM \<le> p \<and> p < HIGH_MEMORY s \<and>
    mem_map s (MAP_NR p) = 0 \<and> mem_map s' = (mem_map s)(MAP_NR p := 1) \<and>
    (\<forall>k<1024. pmem s' (p + 4 * of_nat k) = 0) \<and>
    (\<forall>a. \<not> in_page p a \<longrightarrow> pmem s' a = pmem s a) \<and>
    free_page p s' = Done () s'' \<and> mem_map s'' = mem_map s"
proof -
  obtain j where j: "j < PAGING_PAGES" "mem_map s j = 0" "page_addr j < HIGH_MEMORY s"
    and g: "get_free_page s =
      Done (page_addr j) (clear_page (page_addr j) (s\<lparr>mem_map := (mem_map s)(j := 1)\<rparr>))"
      (is "_ = Done _ ?s'")
    using get_free_page_free[OF assms] by blast
  have low: "LOW_MEM \<le> page_addr j"
    using unat_page_addr[OF j(1)] by (simp add: word_le_nat_alt)
  then have "free_page (page_addr j) ?s' = Done () (?s'\<lparr>mem_map := mem_map s\<rparr>)"
    using j by (auto simp: free_page_def Let_def not_less not_le fun_upd_idem_iff
        simp del: One_nat_def dest: leD)
  then show ?thesis
    using g j low in_page_nth[of _ "page_addr j"] by fastforce
qed

text \<open>
  Every list of pages of swap space handed out by \<open>get_swap_page\<close> one after the other, as long as
  there are that many, has no page twice and takes only free ones.
\<close>

theorem swap_pages_never_shared:
  assumes "swap_bitmap s \<noteq> 0" and "n \<le> card (free_swap_pages s)"
  shows "distinct (fst (take_slots get_swap_page n s)) \<and>
    set (fst (take_slots get_swap_page n s)) \<subseteq> free_swap_pages s \<and>
    length (fst (take_slots get_swap_page n s)) = n \<and>
    free_swap_pages (snd (take_slots get_swap_page n s)) =
      free_swap_pages s - set (fst (take_slots get_swap_page n s))"
  using assms by (rule swap_pages.take_slots_distinct)

definition demo_mm :: mm_state where
  "demo_mm =
    \<lparr>pmem = (\<lambda>a. if a = 0x300000 then 0x400045 else if a = 0x200000 then 6 else 0),
     mem_map = (\<lambda>i. if i = 3839 then 0 else if i = 768 then 1 else 2),
     HIGH_MEMORY = 0x1000000, swap_bitmap = 0x200000, SWAP_DEV = 0x306,
     swap_space = (\<lambda>_ _. 0), dir_entry = 16, page_entry = - 1\<rparr>"

lemma demo_map_within_memory: "map_within_memory demo_mm"
  by (auto simp: map_within_memory_def demo_mm_def page_addr_def)

lemma demo_entry_ok: "entry_ok demo_mm 0x300000"
  by (auto simp: entry_ok_def demo_mm_def page_addr_def in_page_def frame_def)

lemma demo_frame: "frame 0x400045 = 0x400000" by (simp add: frame_def)

lemma demo_swap: "swappable demo_mm 0x300000 \<and> swap_ready demo_mm 0x300000"
proof -
  have "1 \<in> free_swap_pages demo_mm"
    by (simp add: free_swap_pages_def bit_in_def demo_mm_def)
  then show ?thesis
    using demo_entry_ok
    by (auto simp: swappable_def swap_ready_def page_in_use_def demo_mm_def page_addr_def
        in_page_def frame_def MAP_NR_def)
qed

theorem get_free_page_delivers_witness:
  "\<exists>p s'. get_free_page demo_mm = Done p s' \<and> mem_map demo_mm (MAP_NR p) = 0"
proof -
  have "mem_map demo_mm 3839 = 0" by (simp add: demo_mm_def)
  then show ?thesis
    using get_free_page_delivers[OF demo_map_within_memory, of 3839] by fastforce
qed

theorem swap_pages_never_shared_witness:
  "distinct (fst (take_slots get_swap_page 2 demo_mm))"
proof -
  have "{1, 2} \<subseteq> free_swap_pages demo_mm"
    by (simp add: free_swap_pages_def bit_in_def demo_mm_def)
  then have "2 \<le> card (free_swap_pages demo_mm)"
    using card_mono[OF finite_free_swap_pages, of "{1, 2::nat}" demo_mm]
    by (simp add: numeral_2_eq_2 del: insert_subset)
  then show ?thesis
    using swap_pages_never_shared[of demo_mm 2] by (simp add: demo_mm_def)
qed

theorem un_wp_page_private_copy_witness:
  "\<exists>s'. un_wp_page 0x300000 (demo_mm\<lparr>mem_map := (mem_map demo_mm)(768 := 2)\<rparr>) = Done () s' \<and>
     bit (pmem s' 0x300000) 1"
proof -
  let ?s = "demo_mm\<lparr>mem_map := (mem_map demo_mm)(768 := 2)\<rparr>"
  have "map_within_memory ?s" "entry_ok ?s 0x300000"
    using demo_map_within_memory demo_entry_ok by (auto simp: map_within_memory_def entry_ok_def)
  then show ?thesis
    using un_wp_page_private_copy[of ?s 3839 "0x300000"] by (auto simp: demo_mm_def)
qed

theorem swap_roundtrip_witness:
  "\<exists>s1 s2. try_to_swap_out 0x300000 demo_mm = Done True s1 \<and>
     swap_in 0x300000 s1 = Done () s2 \<and> page_view s2 (pmem s2 0x300000) 0 = 0"
proof -
  have "page_view demo_mm (pmem demo_mm 0x300000) 0 = 0"
    by (simp add: page_view_def demo_mm_def demo_frame)
  then show ?thesis
    using swap_roundtrip[of demo_mm "0x300000"] demo_swap demo_map_within_memory by fastforce
qed

subsection \<open>Initialisation\<close>

lemma fold_clear_map: "fold (\<lambda>k m. m(i + k := 0)) [0..<n] m = (\<lambda>j. if i \<le> j \<and> j < i + n then 0 else m j)"
  by (induction n) (auto simp: fun_eq_iff less_Suc_eq)

lemma page_addr_bounds:
  assumes "i < PAGING_PAGES" and "LOW_MEM \<le> p" and "frame p = p"
  shows "page_addr i < p \<longleftrightarrow> i < MAP_NR p"
proof -
  have "unat (p - LOW_MEM) = unat p - 0x100000"
    using assms(2) by (simp add: unat_sub)
  then have m: "MAP_NR p = (unat p - 0x100000) div 4096"
    by (simp add: MAP_NR_def drop_bit_eq_div unat_div)
  have "0x100000 \<le> unat p" using assms(2) by (simp add: word_le_nat_alt)
  then have "4096 * i + 0x100000 < unat p \<longleftrightarrow> i < (unat p - 0x100000) div 4096"
    using frame_unat[OF assms(3)]
    by (auto elim!: dvdE[OF mod_0_imp_dvd] simp: diff_mult_distrib2[of 4096 _ 256, simplified, symmetric])
  then show ?thesis
    using unat_page_addr[OF assms(1)] by (simp add: m word_less_nat_alt)
qed

text \<open>
  After \<open>mem_init start end\<close> (page aligned, within 1 MB .. 16 MB) exactly the pages from \<open>start\<close>
  up to \<open>end\<close> are free, every other page is marked used, and no free page lies beyond the memory.
\<close>

theorem mem_init_frees_main_memory:
  assumes "LOW_MEM \<le> start" and "start \<le> end" and "end \<le> 0x1000000"
    and "frame start = start" and "frame end = end"
  shows "(\<forall>i<PAGING_PAGES. mem_map (mem_init start end s) i =
      (if start \<le> page_addr i \<and> page_addr i < end then 0 else USED)) \<and>
    map_within_memory (mem_init start end s)"
proof -
  have e: "LOW_MEM \<le> end" using assms(1,2) by (rule order_trans)
  have u: "unat start \<le> unat end" "unat end \<le> 0x1000000" "0x100000 \<le> unat start"
    using assms(1-3) by (simp_all add: word_le_nat_alt)
  have "unat (end - start) = unat end - unat start"
    using assms(2) by (simp add: unat_sub)
  moreover have "unat (end - start) < 2 ^ 31" using u by (simp add: calculation)
  then have "sint (end - start) = int (unat (end - start))"
    by (rule sint_small)
  ultimately have n: "nat (sint (end - start) div 4096) = (unat end - unat start) div 4096"
    by (simp add: nat_div_distrib)
  have mm: "MAP_NR p = (unat p - 0x100000) div 4096" if "LOW_MEM \<le> p" for p
    using that by (simp add: MAP_NR_def drop_bit_eq_div unat_div unat_sub)
  have "MAP_NR start + (unat end - unat start) div 4096 = MAP_NR end"
    using u frame_unat[OF assms(4)] frame_unat[OF assms(5)] mm[OF assms(1)] mm[OF e]
    by (auto elim!: dvdE[OF mod_0_imp_dvd] simp: diff_mult_distrib2[of 4096, simplified, symmetric]
        diff_mult_distrib2[of 4096 _ 256, simplified, symmetric])
  then have map: "mem_map (mem_init start end s) i =
      (if start \<le> page_addr i \<and> page_addr i < end then 0 else USED)" if "i < PAGING_PAGES" for i
    using that page_addr_bounds[OF that assms(1,4)] page_addr_bounds[OF that e assms(5)] n
    by (auto simp: mem_init_def Let_def fold_clear_map not_less)
  moreover have "HIGH_MEMORY (mem_init start end s) = end"
    by (simp add: mem_init_def Let_def)
  ultimately show ?thesis by (auto simp: map_within_memory_def)
qed

theorem mem_init_frees_main_memory_witness:
  "mem_map (mem_init 0x400000 0x1000000 demo_mm) 768 = 0 \<and>
   mem_map (mem_init 0x400000 0x1000000 demo_mm) 767 = USED"
  using mem_init_frees_main_memory[of "0x400000" "0x1000000" demo_mm]
  by (simp add: frame_def page_addr_def)

end
