(* ===== verification/Task_State.thy ===== *)
theory Task_State
  imports Memory
begin

section \<open>The task structure and the state of the kernel\<close>

text \<open>
  \<^verbatim>\<open>include/linux/sched.h\<close>, \<^verbatim>\<open>include/signal.h\<close> and the globals of \<^verbatim>\<open>kernel/sched.c\<close>, \<^verbatim>\<open>kernel/sys.c\<close> and
  \<^verbatim>\<open>kernel/fork.c\<close>. A \<open>struct task_struct *\<close> is the address of the structure, 0 is NULL, and the
  structures live in the store \<open>ts\<close>; \<open>ts s 0\<close> is what the code reads through a NULL pointer: on this
  machine the page directory is at address 0, so the read succeeds and gives whatever stands there.

  The kernel state extends the state of the memory manager: the operations of \<open>Memory\<close> run on it
  unchanged. The segment that \<open>fs\<close> points to while a system call runs (the user's data) is \<open>fs_mem\<close>.
  What the kernel writes to ports, and the calls into the drivers that only do such output, are
  recorded in \<open>io_log\<close>.
\<close>

unbundle bit_operations_syntax

subsection \<open>Constants\<close>

abbreviation (input) NR_TASKS :: nat where "NR_TASKS \<equiv> 64"
abbreviation (input) NR_OPEN :: nat where "NR_OPEN \<equiv> 20"
abbreviation (input) NGROUPS :: nat where "NGROUPS \<equiv> 32"
abbreviation (input) NOGROUP :: u32 where "NOGROUP \<equiv> - 1"
abbreviation (input) RLIM_NLIMITS :: int where "RLIM_NLIMITS \<equiv> 6"
abbreviation (input) HZ :: nat where "HZ \<equiv> 100"
abbreviation (input) TASK_SIZE :: u32 where "TASK_SIZE \<equiv> 0x04000000"
abbreviation (input) LIBRARY_OFFSET :: u32 where "LIBRARY_OFFSET \<equiv> 0x03c00000"

abbreviation (input) TASK_RUNNING :: u32 where "TASK_RUNNING \<equiv> 0"
abbreviation (input) TASK_INTERRUPTIBLE :: u32 where "TASK_INTERRUPTIBLE \<equiv> 1"
abbreviation (input) TASK_UNINTERRUPTIBLE :: u32 where "TASK_UNINTERRUPTIBLE \<equiv> 2"
abbreviation (input) TASK_ZOMBIE :: u32 where "TASK_ZOMBIE \<equiv> 3"
abbreviation (input) TASK_STOPPED :: u32 where "TASK_STOPPED \<equiv> 4"

abbreviation (input) SIGHUP :: nat where "SIGHUP \<equiv> 1"
abbreviation (input) SIGKILL :: nat where "SIGKILL \<equiv> 9"
abbreviation (input) SIGSEGV :: nat where "SIGSEGV \<equiv> 11"
abbreviation (input) SIGPIPE :: nat where "SIGPIPE \<equiv> 13"
abbreviation (input) SIGALRM :: nat where "SIGALRM \<equiv> 14"
abbreviation (input) SIGCHLD :: nat where "SIGCHLD \<equiv> 17"
abbreviation (input) SIGCONT :: nat where "SIGCONT \<equiv> 18"
abbreviation (input) SIGSTOP :: nat where "SIGSTOP \<equiv> 19"
abbreviation (input) SIGTSTP :: nat where "SIGTSTP \<equiv> 20"
abbreviation (input) SIGTTIN :: nat where "SIGTTIN \<equiv> 21"
abbreviation (input) SIGTTOU :: nat where "SIGTTOU \<equiv> 22"

abbreviation (input) SA_NOCLDSTOP :: u32 where "SA_NOCLDSTOP \<equiv> 1"
abbreviation (input) SA_INTERRUPT :: u32 where "SA_INTERRUPT \<equiv> 0x20000000"
abbreviation (input) SA_NOMASK :: u32 where "SA_NOMASK \<equiv> 0x40000000"
abbreviation (input) SA_ONESHOT :: u32 where "SA_ONESHOT \<equiv> 0x80000000"

text \<open>\<^verbatim>\<open>_S(nr)\<close>: the bit of signal \<open>nr\<close>; \<^verbatim>\<open>_BLOCKABLE\<close>: all signals but SIGKILL and SIGSTOP.\<close>

definition sig_bit :: "nat \<Rightarrow> u32" where
  "sig_bit nr = bit1 (nr - 1)"

definition BLOCKABLE :: u32 where
  "BLOCKABLE = NOT (sig_bit SIGKILL OR sig_bit SIGSTOP)"

lemma bit_sig_bit [simp]: "bit (sig_bit n) m \<longleftrightarrow> m = n - 1 \<and> n \<le> 32"
  by (auto simp: sig_bit_def)

subsection \<open>Segment descriptors\<close>

record desc_struct =
  desc_a :: u32
  desc_b :: u32

text \<open>\<^verbatim>\<open>_set_base\<close>, \<^verbatim>\<open>_get_base\<close>: bytes 2, 3, 4 and 7 of the descriptor hold the base.\<close>

definition set_base :: "desc_struct \<Rightarrow> u32 \<Rightarrow> desc_struct" where
  "set_base d base =
     d\<lparr>desc_a := (desc_a d AND 0xffff) OR push_bit 16 base,
       desc_b := (desc_b d AND 0x00ffff00) OR (drop_bit 16 base AND 0xff) OR (base AND 0xff000000)\<rparr>"

definition get_base :: "desc_struct \<Rightarrow> u32" where
  "get_base d =
     (desc_b d AND 0xff000000) OR push_bit 16 (desc_b d AND 0xff) OR drop_bit 16 (desc_a d)"

text \<open>
  \<^verbatim>\<open>get_limit\<close> (\<^verbatim>\<open>lsll\<close>, then \<^verbatim>\<open>incl\<close>) applied to a segment whose descriptor is \<open>d\<close>: the processor scales
  the 20-bit limit by pages when the granularity bit is set.
\<close>

definition get_limit :: "desc_struct \<Rightarrow> u32" where
  "get_limit d =
     (let l = (desc_a d AND 0xffff) OR (desc_b d AND 0x000f0000)
      in (if bit (desc_b d) 23 then push_bit 12 l OR 0xfff else l) + 1)"

subsection \<open>The task structure\<close>

record sigaction_t =
  sa_handler :: u32
  sa_mask :: u32
  sa_flags :: u32
  sa_restorer :: u32

record rlimit =
  rlim_cur :: u32
  rlim_max :: u32

text \<open>The registers of the numeric coprocessor; \<open>st_space\<close> is read by bytes, the eight registers take ten each.\<close>

record i387_struct =
  cwd :: u32
  swd :: u32
  twd :: u32
  fip :: u32
  fcs :: u32
  foo :: u32
  fos :: u32
  st_space :: "nat \<Rightarrow> u8"

record tss_struct =
  tss_back_link :: u32
  tss_esp0 :: u32
  tss_ss0 :: u32
  tss_cr3 :: u32
  tss_eip :: u32
  tss_eflags :: u32
  tss_eax :: u32
  tss_ecx :: u32
  tss_edx :: u32
  tss_ebx :: u32
  tss_esp :: u32
  tss_ebp :: u32
  tss_esi :: u32
  tss_edi :: u32
  tss_es :: u32
  tss_cs :: u32
  tss_ss :: u32
  tss_ds :: u32
  tss_fs :: u32
  tss_gs :: u32
  tss_ldt :: u32
  tss_trace_bitmap :: u32
  tss_i387 :: i387_struct

record task_struct =
  state :: u32
  counter :: u32
  priority :: u32
  signal :: u32
  sigaction :: "nat \<Rightarrow> sigaction_t"
  blocked :: u32
  exit_code :: u32
  start_code :: u32
  end_code :: u32
  end_data :: u32
  brk :: u32
  start_stack :: u32
  pid :: u32
  pgrp :: u32
  session :: u32
  leader :: u32
  groups :: "nat \<Rightarrow> u32"
  p_pptr :: u32
  p_cptr :: u32
  p_ysptr :: u32
  p_osptr :: u32
  uid :: u16
  euid :: u16
  suid :: u16
  gid :: u16
  egid :: u16
  sgid :: u16
  timeout :: u32
  alarm :: u32
  utime :: u32
  stime :: u32
  cutime :: u32
  cstime :: u32
  start_time :: u32
  rlim :: "nat \<Rightarrow> rlimit"
  proc_flags :: u32
  used_math :: u16
  tty :: u32
  umask :: u16
  pwd :: u32
  root :: u32
  executable :: u32
  library :: u32
  close_on_exec :: u32
  filp :: "nat \<Rightarrow> u32"
  ldt :: "nat \<Rightarrow> desc_struct"
  tss :: tss_struct

subsection \<open>The kernel state\<close>

datatype io_event =
    Outb u8 u16
  | Unblank_Screen
  | Blank_Screen
  | Hd_Times_Out
  | Sys_Beep_Stop

text \<open>A slot of \<^verbatim>\<open>timer_list\<close>; \<open>next\<close> is the index of a slot. \<open>fn = 0\<close> marks a free slot.\<close>

record timer =
  tl_jiffies :: u32
  tl_fn :: u32
  tl_next :: "nat option"

record kstate = mm_state +
  ts :: "u32 \<Rightarrow> task_struct"
  task :: "u32 list"
  current :: u32
  jiffies :: u32
  startup_time :: u32
  jiffies_offset :: u32
  last_pid :: u32
  last_task_used_math :: u32
  i_count :: "u32 \<Rightarrow> u16"
  f_count :: "u32 \<Rightarrow> u16"
  gdt_tss :: "nat \<Rightarrow> u32"
  gdt_ldt :: "nat \<Rightarrow> u32"
  fs_mem :: "u32 \<Rightarrow> u8"
  fg_console :: nat
  tty_pgrp :: "nat \<Rightarrow> u32"
  tty_session :: "nat \<Rightarrow> u32"
  tz_minuteswest :: u32
  tz_dsttime :: u32
  firsttime :: bool
  nodename :: "nat \<Rightarrow> u8"
  timer_list :: "nat \<Rightarrow> timer"
  next_timer :: "nat option"
  blankcount :: u32
  blankinterval :: u32
  blanked :: bool
  hd_timeout :: u32
  beepcount :: u32
  current_DOR :: u8
  selected :: bool
  mon_timer :: "nat \<Rightarrow> u32"
  moff_timer :: "nat \<Rightarrow> u32"
  wait_motor :: "nat \<Rightarrow> u32"
  io_log :: "io_event list"

text \<open>The task structure that \<^verbatim>\<open>current\<close> points to, and writing through a task pointer.\<close>

definition cur :: "'a kstate_scheme \<Rightarrow> task_struct" where
  "cur s = ts s (current s)"

definition upd_task :: "u32 \<Rightarrow> (task_struct \<Rightarrow> task_struct) \<Rightarrow> 'a kstate_scheme \<Rightarrow> 'a kstate_scheme" where
  "upd_task p f s = s\<lparr>ts := (ts s)(p := f (ts s p))\<rparr>"

definition upd_cur :: "(task_struct \<Rightarrow> task_struct) \<Rightarrow> 'a kstate_scheme \<Rightarrow> 'a kstate_scheme" where
  "upd_cur f s = upd_task (current s) f s"

definition suser :: "'a kstate_scheme \<Rightarrow> bool" where
  "suser s \<longleftrightarrow> euid (cur s) = 0"

text \<open>
  The slots in the order of the loops \<^verbatim>\<open>for (p = &LAST_TASK ; p > &FIRST_TASK ; --p)\<close>: slot 0 is not
  visited. \<open>live_tasks\<close> are the pointers found when the body starts with \<^verbatim>\<open>if (*p)\<close>.
\<close>

definition slot_order :: "nat list" where
  "slot_order = rev [1..<NR_TASKS]"

definition live_tasks :: "'a kstate_scheme \<Rightarrow> u32 list" where
  "live_tasks s = filter (\<lambda>p. p \<noteq> 0) (map (\<lambda>i. task s ! i) slot_order)"

text \<open>
  The task table is well formed: 64 slots, slot 0 holds a task, no task stands in two slots, and the
  running task is in the table.
\<close>

definition tasks_ok :: "'a kstate_scheme \<Rightarrow> bool" where
  "tasks_ok s \<longleftrightarrow> length (task s) = NR_TASKS \<and> task s ! 0 \<noteq> 0 \<and>
     (\<forall>i<NR_TASKS. \<forall>j<NR_TASKS. task s ! i = task s ! j \<longrightarrow> task s ! i \<noteq> 0 \<longrightarrow> i = j) \<and>
     current s \<in> set (task s) \<and> current s \<noteq> 0"

lemma upd_task_sel [simp, frame_rules]:
  "ts (upd_task p f s) = (ts s)(p := f (ts s p))"
  "task (upd_task p f s) = task s" "current (upd_task p f s) = current s"
  "jiffies (upd_task p f s) = jiffies s" "last_pid (upd_task p f s) = last_pid s"
  "startup_time (upd_task p f s) = startup_time s" "fs_mem (upd_task p f s) = fs_mem s"
  "jiffies_offset (upd_task p f s) = jiffies_offset s"
  by (simp_all add: upd_task_def)

lemma upd_cur_sel [simp, frame_rules]:
  "ts (upd_cur f s) = (ts s)(current s := f (cur s))"
  "task (upd_cur f s) = task s" "current (upd_cur f s) = current s"
  "jiffies (upd_cur f s) = jiffies s" "last_pid (upd_cur f s) = last_pid s"
  "startup_time (upd_cur f s) = startup_time s" "fs_mem (upd_cur f s) = fs_mem s"
  "jiffies_offset (upd_cur f s) = jiffies_offset s"
  by (simp_all add: upd_cur_def cur_def)

lemma cur_upd_cur [simp]: "cur (upd_cur f s) = f (cur s)"
  by (simp add: cur_def)

lemma tasks_ok_upd [simp]: "tasks_ok (upd_task p f s) = tasks_ok s" "tasks_ok (upd_cur f s) = tasks_ok s"
  by (simp_all add: tasks_ok_def)

lemma live_tasks_upd [simp]:
  "live_tasks (upd_task p f s) = live_tasks s" "live_tasks (upd_cur f s) = live_tasks s"
  by (simp_all add: live_tasks_def)

lemma set_slot_order [simp]: "set slot_order = {1..<NR_TASKS}"
  by (simp add: slot_order_def)

lemma set_live_tasks: "set (live_tasks s) = {p. p \<noteq> 0 \<and> (\<exists>i\<in>{1..<NR_TASKS}. task s ! i = p)}"
  by (auto simp: live_tasks_def)

lemma live_tasks_inj:
  "tasks_ok s \<Longrightarrow> i < NR_TASKS \<Longrightarrow> j < NR_TASKS \<Longrightarrow> task s ! i = task s ! j \<Longrightarrow> task s ! i \<noteq> 0 \<Longrightarrow> i = j"
  by (simp add: tasks_ok_def)

lemma distinct_live_tasks: "tasks_ok s \<Longrightarrow> distinct (live_tasks s)"
  by (auto simp: live_tasks_def filter_map distinct_map slot_order_def tasks_ok_def intro!: inj_onI)

subsection \<open>Example states\<close>

text \<open>
  A machine with three tasks, at the addresses 0x1000, 0x2000 and 0x3000 in the slots 0, 1 and 2; the
  second one runs. The examples that go with the properties are variations of it.
\<close>

definition demo_task :: task_struct where
  "demo_task =
    \<lparr>state = TASK_RUNNING, counter = 15, priority = 15, signal = 0,
     sigaction = (\<lambda>_. \<lparr>sa_handler = 0, sa_mask = 0, sa_flags = 0, sa_restorer = 0\<rparr>), blocked = 0,
     exit_code = 0, start_code = 0, end_code = 0x1000, end_data = 0x2000, brk = 0x3000,
     start_stack = 0x03bff000, pid = 1, pgrp = 1, session = 1, leader = 1, groups = (\<lambda>_. NOGROUP),
     p_pptr = 0x1000, p_cptr = 0, p_ysptr = 0, p_osptr = 0,
     uid = 0, euid = 0, suid = 0, gid = 0, egid = 0, sgid = 0,
     timeout = 0, alarm = 0, utime = 0, stime = 0, cutime = 0, cstime = 0, start_time = 0,
     rlim = (\<lambda>_. \<lparr>rlim_cur = 0x7fffffff, rlim_max = 0x7fffffff\<rparr>), proc_flags = 0, used_math = 0, tty = - 1,
     umask = 0x12, pwd = 0, root = 0, executable = 0, library = 0, close_on_exec = 0,
     filp = (\<lambda>_. 0), ldt = (\<lambda>_. \<lparr>desc_a = 0, desc_b = 0\<rparr>),
     tss = \<lparr>tss_back_link = 0, tss_esp0 = 0, tss_ss0 = 0x10, tss_cr3 = 0, tss_eip = 0, tss_eflags = 0,
            tss_eax = 0, tss_ecx = 0, tss_edx = 0, tss_ebx = 0, tss_esp = 0, tss_ebp = 0, tss_esi = 0,
            tss_edi = 0, tss_es = 0x17, tss_cs = 0xf, tss_ss = 0x17, tss_ds = 0x17, tss_fs = 0x17,
            tss_gs = 0x17, tss_ldt = 0, tss_trace_bitmap = 0x80000000,
            tss_i387 = \<lparr>cwd = 0x37f, swd = 0, twd = 0, fip = 0, fcs = 0, foo = 0, fos = 0, st_space = (\<lambda>_. 0)\<rparr>\<rparr>\<rparr>"

definition demo_kernel :: kstate where
  "demo_kernel =
    \<lparr>pmem = (\<lambda>_. 0), mem_map = (\<lambda>_. 0), HIGH_MEMORY = 0x1000000,
     swap_bitmap = 0, SWAP_DEV = 0, swap_space = (\<lambda>_ _. 0), dir_entry = 1024, page_entry = 0,
     ts = (\<lambda>p. if p = 0x1000 then demo_task\<lparr>pid := 0\<rparr>
               else if p = 0x3000 then demo_task\<lparr>pid := 2\<rparr> else demo_task),
     task = [0x1000, 0x2000, 0x3000] @ replicate 61 0, current = 0x2000,
     jiffies = 1000, startup_time = 0, jiffies_offset = 0, last_pid = 2, last_task_used_math = 0,
     i_count = (\<lambda>_. 0), f_count = (\<lambda>_. 0), gdt_tss = (\<lambda>_. 0), gdt_ldt = (\<lambda>_. 0), fs_mem = (\<lambda>_. 0),
     fg_console = 0, tty_pgrp = (\<lambda>_. 0), tty_session = (\<lambda>_. 0), tz_minuteswest = 0, tz_dsttime = 0,
     firsttime = True, nodename = (\<lambda>_. 0),
     timer_list = (\<lambda>_. \<lparr>tl_jiffies = 0, tl_fn = 0, tl_next = None\<rparr>), next_timer = None,
     blankcount = 0, blankinterval = 0, blanked = False, hd_timeout = 0, beepcount = 0,
     current_DOR = 0xc, selected = False, mon_timer = (\<lambda>_. 0), moff_timer = (\<lambda>_. 0),
     wait_motor = (\<lambda>_. 0), io_log = []\<rparr>"

lemma slot_order_list:
  "slot_order =
    [63, 62, 61, 60, 59, 58, 57, 56, 55, 54, 53, 52, 51, 50, 49, 48, 47, 46, 45, 44, 43, 42,
     41, 40, 39, 38, 37, 36, 35, 34, 33, 32, 31, 30, 29, 28, 27, 26, 25, 24, 23, 22,
     21, 20, 19, 18, 17, 16, 15, 14, 13, 12, 11, 10, 9, 8, 7, 6, 5, 4, 3, 2, 1]"
  by code_simp

lemma tasks_ok_prefix:
  assumes "task s = ps @ replicate (NR_TASKS - length ps) 0" "length ps \<le> NR_TASKS" "distinct ps"
    "0 \<notin> set ps" "ps \<noteq> []" "current s \<in> set ps"
  shows "tasks_ok s" "set (live_tasks s) = set (tl ps)"
proof -
  have nth: "task s ! i = (if i < length ps then ps ! i else 0)" if "i < NR_TASKS" for i
    using assms(1,2) that by (simp add: nth_append)
  have "ps ! i \<noteq> 0" if "i < length ps" for i using assms(4) that by (metis nth_mem)
  moreover have "length (task s) = NR_TASKS" using assms(1,2) by simp
  ultimately show "tasks_ok s"
    using assms(3-6) nth by (auto simp: tasks_ok_def nth_eq_iff_index_eq assms(1))
  show "set (live_tasks s) = set (tl ps)" (is "_ = ?R")
  proof (intro set_eqI iffI)
    fix p assume "p \<in> set (live_tasks s)"
    then obtain i where "1 \<le> i" "i < NR_TASKS" "task s ! i = p" "p \<noteq> 0"
      by (auto simp: set_live_tasks)
    then show "p \<in> ?R" using nth[of i] by (cases ps; cases i) (auto split: if_splits)
  next
    fix p assume "p \<in> ?R"
    then obtain i where "i < length (tl ps)" "tl ps ! i = p" by (auto simp: in_set_conv_nth)
    moreover have "p \<noteq> 0" using \<open>p \<in> ?R\<close> assms(4) by (cases ps) auto
    ultimately show "p \<in> set (live_tasks s)"
      using nth[of "Suc i"] assms(2) by (auto simp: set_live_tasks nth_tl intro!: bexI[of _ "Suc i"])
  qed
qed

lemma demo_kernel_tasks [simp]:
  "tasks_ok (demo_kernel\<lparr>ts := h\<rparr>)" "set (live_tasks (demo_kernel\<lparr>ts := h\<rparr>)) = {0x2000, 0x3000}"
  using tasks_ok_prefix[of "demo_kernel\<lparr>ts := h\<rparr>" "[0x1000, 0x2000, 0x3000]"]
  by (simp_all add: demo_kernel_def)

lemma demo_kernel_tasks' [simp]:
  "tasks_ok demo_kernel" "set (live_tasks demo_kernel) = {0x2000, 0x3000}"
  using demo_kernel_tasks[of "ts demo_kernel"] by simp_all

end
