(* ===== verification/Scheduler.thy ===== *)
theory Scheduler
  imports Task_State
begin

section \<open>The scheduler\<close>

text \<open>
  \<^verbatim>\<open>kernel/sched.c\<close>: \<open>schedule\<close>, \<open>wake_up\<close>, \<open>sys_pause\<close>, \<open>sys_alarm\<close>, \<open>sys_nice\<close> and the calls that read
  a field of the current task. \<open>schedule\<close> ends with the switch to the chosen task; code that goes on
  after a call of \<open>schedule\<close> goes on when its task is chosen again, in the state that the other tasks
  have left. That state is an argument \<open>resume\<close> of every operation that sleeps: what it does to the
  state between the switch away and the switch back.
\<close>

unbundle bit_operations_syntax

subsection \<open>Waking up tasks\<close>

text \<open>The body of the first loop of \<open>schedule\<close>, for one task at time \<open>now\<close>.\<close>

definition check_task :: "u32 \<Rightarrow> task_struct \<Rightarrow> task_struct" where
  "check_task now t =
    (let t = (if timeout t \<noteq> 0 \<and> timeout t < now
              then (let t = t\<lparr>timeout := 0\<rparr>
                    in if state t = TASK_INTERRUPTIBLE then t\<lparr>state := TASK_RUNNING\<rparr> else t)
              else t);
         t = (if alarm t \<noteq> 0 \<and> alarm t < now
              then t\<lparr>signal := signal t OR bit1 (SIGALRM - 1), alarm := 0\<rparr> else t)
     in if signal t AND NOT (BLOCKABLE AND blocked t) \<noteq> 0 \<and> state t = TASK_INTERRUPTIBLE
        then t\<lparr>state := TASK_RUNNING\<rparr> else t)"

definition check_tasks :: "'a kstate_scheme \<Rightarrow> 'a kstate_scheme" where
  "check_tasks s = fold (\<lambda>p s. upd_task p (check_task (jiffies s)) s) (live_tasks s) s"

subsection \<open>Choosing the next task\<close>

text \<open>The scan \<^verbatim>\<open>while (--i)\<close> from slot 63 down to 1, with its variables \<open>c\<close> and \<open>next\<close>.\<close>

definition pick_step :: "'a kstate_scheme \<Rightarrow> nat \<Rightarrow> int \<times> nat \<Rightarrow> int \<times> nat" where
  "pick_step s i = (\<lambda>(c, nxt).
     if task s ! i = 0 then (c, nxt)
     else if state (ts s (task s ! i)) = TASK_RUNNING \<and> sint (counter (ts s (task s ! i))) > c
     then (sint (counter (ts s (task s ! i))), i)
     else (c, nxt))"

definition pick :: "'a kstate_scheme \<Rightarrow> int \<times> nat" where
  "pick s = fold (pick_step s) slot_order (- 1, 0)"

text \<open>\<^verbatim>\<open>counter = (counter >> 1) + priority\<close> for every task; the shift is arithmetic.\<close>

definition recharge :: "task_struct \<Rightarrow> task_struct" where
  "recharge t = t\<lparr>counter := signed_drop_bit 1 (counter t) + priority t\<rparr>"

definition recharge_all :: "'a kstate_scheme \<Rightarrow> 'a kstate_scheme" where
  "recharge_all s = fold (\<lambda>p. upd_task p recharge) (live_tasks s) s"

text \<open>The loop \<^verbatim>\<open>while (1)\<close>; \<open>None\<close> is a loop that never ends.\<close>

partial_function (option) sched_loop :: "'a kstate_scheme \<Rightarrow> (nat \<times> 'a kstate_scheme) option" where
  "sched_loop s =
    (case pick s of (c, nxt) \<Rightarrow> if c \<noteq> 0 then Some (nxt, s) else sched_loop (recharge_all s))"

definition switch_to :: "nat \<Rightarrow> 'a kstate_scheme \<Rightarrow> 'a kstate_scheme" where
  "switch_to n s = (if task s ! n = current s then s else s\<lparr>current := task s ! n\<rparr>)"

definition schedule :: "'a kstate_scheme \<Rightarrow> 'a kstate_scheme option" where
  "schedule s = map_option (\<lambda>(nxt, s). switch_to nxt s) (sched_loop (check_tasks s))"

definition reschedule ::
  "('a kstate_scheme \<Rightarrow> 'a kstate_scheme) \<Rightarrow> 'a kstate_scheme \<Rightarrow> ('a kstate_scheme, unit) outcome" where
  "reschedule resume s = (case schedule s of None \<Rightarrow> Diverges | Some s' \<Rightarrow> Done () (resume s'))"

definition sys_pause ::
  "('a kstate_scheme \<Rightarrow> 'a kstate_scheme) \<Rightarrow> 'a kstate_scheme \<Rightarrow> ('a kstate_scheme, int) outcome" where
  "sys_pause resume s =
    and_then (reschedule resume (upd_cur (\<lambda>t. t\<lparr>state := TASK_INTERRUPTIBLE\<rparr>) s)) (\<lambda>_. Done 0)"

text \<open>\<^verbatim>\<open>wake_up(&q)\<close> where \<open>q\<close> holds the task pointer \<open>p\<close>; its messages are left out.\<close>

definition wake_up :: "u32 \<Rightarrow> 'a kstate_scheme \<Rightarrow> 'a kstate_scheme" where
  "wake_up p s = (if p \<noteq> 0 then upd_task p (\<lambda>t. t\<lparr>state := TASK_RUNNING\<rparr>) s else s)"

subsection \<open>Simple system calls\<close>

text \<open>
  In \<open>sys_alarm\<close> the subtraction \<^verbatim>\<open>old - jiffies\<close> and the division are unsigned, since \<open>jiffies\<close> is.
\<close>

definition sys_alarm :: "u32 \<Rightarrow> 'a kstate_scheme \<Rightarrow> int \<times> 'a kstate_scheme" where
  "sys_alarm seconds s =
    (let old = alarm (cur s);
         old = (if old \<noteq> 0 then (old - jiffies s) div of_nat HZ else old)
     in (sint old,
         upd_cur (\<lambda>t. t\<lparr>alarm := if sint seconds > 0 then jiffies s + of_nat HZ * seconds else 0\<rparr>) s))"

definition sys_nice :: "u32 \<Rightarrow> 'a kstate_scheme \<Rightarrow> int \<times> 'a kstate_scheme" where
  "sys_nice increment s =
    (if sint (priority (cur s) - increment) > 0
     then (0, upd_cur (\<lambda>t. t\<lparr>priority := priority t - increment\<rparr>) s)
     else (0, s))"

definition sys_getpid :: "'a kstate_scheme \<Rightarrow> int" where
  "sys_getpid s = sint (pid (cur s))"

definition sys_getppid :: "'a kstate_scheme \<Rightarrow> int" where
  "sys_getppid s = sint (pid (ts s (p_pptr (cur s))))"

definition sys_getuid :: "'a kstate_scheme \<Rightarrow> int" where
  "sys_getuid s = uint (uid (cur s))"

definition sys_geteuid :: "'a kstate_scheme \<Rightarrow> int" where
  "sys_geteuid s = uint (euid (cur s))"

definition sys_getgid :: "'a kstate_scheme \<Rightarrow> int" where
  "sys_getgid s = uint (gid (cur s))"

definition sys_getegid :: "'a kstate_scheme \<Rightarrow> int" where
  "sys_getegid s = uint (egid (cur s))"

text \<open>The coprocessor's registers themselves are not modelled, only who owns them.\<close>

definition math_state_restore :: "'a kstate_scheme \<Rightarrow> 'a kstate_scheme" where
  "math_state_restore s =
    (if last_task_used_math s = current s then s
     else upd_cur (\<lambda>t. if used_math t \<noteq> 0 then t else t\<lparr>used_math := 1\<rparr>)
            (s\<lparr>last_task_used_math := current s\<rparr>))"

subsection \<open>The effect of the loops over all tasks\<close>

lemma fold_upd_task:
  assumes "distinct ps"
  shows "fold (\<lambda>p. upd_task p f) ps s = s\<lparr>ts := (\<lambda>p. if p \<in> set ps then f (ts s p) else ts s p)\<rparr>"
proof -
  have "fold (\<lambda>p. upd_task p f) ps s = s\<lparr>ts := fold (\<lambda>p h. h(p := f (h p))) ps (ts s)\<rparr>"
  proof (induction ps arbitrary: s)
    case (Cons p ps)
    show ?case by (simp add: Cons.IH) (simp add: upd_task_def)
  qed simp
  then show ?thesis by (simp add: fold_cell_updates[OF assms])
qed

lemma check_tasks_eq:
  assumes "tasks_ok s"
  shows "check_tasks s =
    s\<lparr>ts := (\<lambda>p. if p \<in> set (live_tasks s) then check_task (jiffies s) (ts s p) else ts s p)\<rparr>"
proof -
  have "fold (\<lambda>p s. upd_task p (check_task (jiffies s)) s) ps s =
      fold (\<lambda>p. upd_task p (check_task (jiffies s))) ps s" for ps
    by (induction ps rule: rev_induct) (simp_all add: fold_invariant_rule[where P = "\<lambda>r. jiffies r = jiffies s"])
  then show ?thesis
    using distinct_live_tasks[OF assms] by (simp add: check_tasks_def fold_upd_task)
qed

lemma recharge_all_eq:
  "tasks_ok s \<Longrightarrow> recharge_all s =
    s\<lparr>ts := (\<lambda>p. if p \<in> set (live_tasks s) then recharge (ts s p) else ts s p)\<rparr>"
  by (simp add: recharge_all_def fold_upd_task distinct_live_tasks)

text \<open>The slots whose task is runnable.\<close>

definition runnable_slots :: "'a kstate_scheme \<Rightarrow> nat set" where
  "runnable_slots s =
     {i \<in> {1..<NR_TASKS}. task s ! i \<noteq> 0 \<and> state (ts s (task s ! i)) = TASK_RUNNING}"

definition slot_counter :: "'a kstate_scheme \<Rightarrow> nat \<Rightarrow> int" where
  "slot_counter s i = sint (counter (ts s (task s ! i)))"

text \<open>What the scan has found: the best of the runnable slots, or (-1, 0) if none has credit.\<close>

definition best_of :: "'a kstate_scheme \<Rightarrow> nat set \<Rightarrow> int \<times> nat \<Rightarrow> bool" where
  "best_of s R r \<longleftrightarrow> (case r of (c, nxt) \<Rightarrow>
     (\<forall>i\<in>R. slot_counter s i \<le> c) \<and> - 1 \<le> c \<and>
     (if c = - 1 then nxt = 0 else nxt \<in> R \<and> c = slot_counter s nxt))"

lemma pick_fold:
  "best_of s R r \<Longrightarrow> set xs \<subseteq> {1..<NR_TASKS} \<Longrightarrow>
   best_of s (R \<union> (runnable_slots s \<inter> set xs)) (fold (pick_step s) xs r)"
proof (induction xs arbitrary: R r)
  case Nil
  then show ?case by simp
next
  case (Cons x xs)
  have "best_of s (R \<union> (runnable_slots s \<inter> {x})) (pick_step s x r)"
    using Cons.prems
    by (cases r) (auto simp: best_of_def pick_step_def runnable_slots_def slot_counter_def)
  moreover have "R \<union> (runnable_slots s \<inter> {x}) \<union> (runnable_slots s \<inter> set xs) =
      R \<union> (runnable_slots s \<inter> set (x # xs))"
    by auto
  ultimately show ?case using Cons.IH[of "R \<union> (runnable_slots s \<inter> {x})"] Cons.prems(2) by simp
qed

lemma pick_best: "best_of s (runnable_slots s) (pick s)"
proof -
  have "best_of s ({} \<union> (runnable_slots s \<inter> set slot_order)) (fold (pick_step s) slot_order (- 1, 0))"
    by (rule pick_fold) (auto simp: best_of_def)
  moreover have "runnable_slots s \<inter> set slot_order = runnable_slots s"
    by (auto simp: runnable_slots_def)
  ultimately show ?thesis by (simp add: pick_def)
qed

subsection \<open>The scheduler returns, and picks the best task\<close>

lemma live_slot: "tasks_ok s \<Longrightarrow> i \<in> runnable_slots s \<Longrightarrow> task s ! i \<in> set (live_tasks s)"
  by (auto simp: runnable_slots_def set_live_tasks)

lemma recharge_all_sel:
  "tasks_ok s \<Longrightarrow> task (recharge_all s) = task s"
  "tasks_ok s \<Longrightarrow> current (recharge_all s) = current s"
  "tasks_ok s \<Longrightarrow> runnable_slots (recharge_all s) = runnable_slots s"
  "tasks_ok s \<Longrightarrow> live_tasks (recharge_all s) = live_tasks s"
  by (auto simp: recharge_all_eq runnable_slots_def recharge_def live_tasks_def)

lemma sint_recharge_0: "counter t = 0 \<Longrightarrow> counter (recharge t) = priority t"
  by (simp add: recharge_def)

definition sched_pick :: "'a kstate_scheme \<Rightarrow> nat \<Rightarrow> bool" where
  "sched_pick s n \<longleftrightarrow>
     (n = 0 \<and> (\<forall>i\<in>runnable_slots s. slot_counter s i < 0)) \<or>
     (n \<in> runnable_slots s \<and> 0 < slot_counter s n \<and>
      (\<forall>i\<in>runnable_slots s. slot_counter s i \<le> slot_counter s n))"

lemma best_of_sched_pick: "best_of s (runnable_slots s) (c, n) \<Longrightarrow> c \<noteq> 0 \<Longrightarrow> sched_pick s n"
  by (fastforce simp: best_of_def sched_pick_def split: if_splits)

lemma sched_loop_returns:
  assumes ok: "tasks_ok s" and pos: "\<forall>p\<in>set (live_tasks s). 0 < sint (priority (ts s p))"
  shows "\<exists>n s'. sched_loop s = Some (n, s') \<and> (s' = s \<or> s' = recharge_all s) \<and> sched_pick s' n"
proof -
  obtain c n where p: "pick s = (c, n)" by fastforce
  have b: "best_of s (runnable_slots s) (c, n)" using pick_best[of s] p by simp
  show ?thesis
  proof (cases "c = 0")
    case False
    then show ?thesis
      using p best_of_sched_pick[OF b] by (auto simp: sched_loop.simps[of s])
  next
    case True
    let ?r = "recharge_all s"
    have n: "n \<in> runnable_slots s" "sint (counter (ts s (task s ! n))) = 0"
      using b True by (auto simp: best_of_def slot_counter_def)
    then have "counter (ts s (task s ! n)) = 0" by (simp only: signed_eq_0_iff)
    then have "slot_counter ?r n = sint (priority (ts s (task s ! n)))"
      using ok live_slot[OF ok n(1)]
      by (simp add: slot_counter_def recharge_all_eq sint_recharge_0)
    then have gt: "0 < slot_counter ?r n" using pos live_slot[OF ok n(1)] by simp
    obtain c' n' where p': "pick ?r = (c', n')" by fastforce
    have b': "best_of ?r (runnable_slots ?r) (c', n')" using pick_best[of ?r] p' by simp
    then have "c' \<noteq> 0"
      using gt n(1) recharge_all_sel(3)[OF ok] by (auto simp: best_of_def dest!: bspec)
    then show ?thesis
      using p p' True best_of_sched_pick[OF b']
      by (auto simp: sched_loop.simps[of s] sched_loop.simps[of ?r])
  qed
qed

lemma check_task_sel [simp]:
  "priority (check_task now t) = priority t" "counter (check_task now t) = counter t"
  by (simp_all add: check_task_def Let_def)

lemma check_tasks_sel:
  "tasks_ok s \<Longrightarrow> task (check_tasks s) = task s"
  "tasks_ok s \<Longrightarrow> current (check_tasks s) = current s"
  "tasks_ok s \<Longrightarrow> tasks_ok (check_tasks s)"
  "tasks_ok s \<Longrightarrow> live_tasks (check_tasks s) = live_tasks s"
  by (simp_all add: check_tasks_eq tasks_ok_def live_tasks_def)

lemma schedule_result:
  assumes ok: "tasks_ok s" and pos: "\<forall>p\<in>set (live_tasks s). 0 < sint (priority (ts s p))"
  obtains n s1 where "schedule s = Some (switch_to n s1)"
    "s1 = check_tasks s \<or> s1 = recharge_all (check_tasks s)" "sched_pick s1 n"
    "current (switch_to n s1) = task s ! n"
proof -
  let ?c = "check_tasks s"
  have ok': "tasks_ok ?c" by (rule check_tasks_sel(3)[OF ok])
  have "\<forall>p\<in>set (live_tasks ?c). 0 < sint (priority (ts ?c p))"
    using pos check_tasks_sel(4)[OF ok] by (simp add: check_tasks_eq[OF ok])
  from sched_loop_returns[OF ok' this] obtain n s1 where
    r: "sched_loop ?c = Some (n, s1)" "s1 = ?c \<or> s1 = recharge_all ?c" "sched_pick s1 n"
    by blast
  then have "task s1 = task s"
    using recharge_all_sel(1)[OF ok'] check_tasks_sel(1)[OF ok] by auto
  then show ?thesis
    using r by (intro that[of n s1]) (simp_all add: schedule_def switch_to_def)
qed

text \<open>
  C12. If every task has a positive priority, \<open>schedule\<close> returns: after at most one recharge of the
  counters its endless loop finds a task. It switches to a runnable task of greatest counter, and to
  the idle task 0 only when no runnable task has a counter of zero or more.
\<close>

theorem schedule_returns_best:
  assumes ok: "tasks_ok s" and pos: "\<forall>p\<in>set (live_tasks s). 0 < sint (priority (ts s p))"
  shows "\<exists>n s1. schedule s = Some (switch_to n s1) \<and>
    (s1 = check_tasks s \<or> s1 = recharge_all (check_tasks s)) \<and> sched_pick s1 n \<and>
    current (switch_to n s1) = task s ! n"
  using schedule_result[OF ok pos] by metis


subsection \<open>Priorities and credit\<close>

text \<open>
  \<open>sys_nice\<close> keeps the priority of the caller positive for every 32-bit increment, wrap-around
  included, and touches nothing else: no task can make the scheduler's loop spin for ever by calling it.
\<close>

theorem sys_nice_keeps_priority_positive:
  assumes "sys_nice increment s = (r, s')" and "0 < sint (priority (cur s))"
  shows "r = 0 \<and> 0 < sint (priority (cur s')) \<and>
    (priority (cur s') = priority (cur s) \<or> priority (cur s') = priority (cur s) - increment) \<and>
    s' = upd_cur (\<lambda>t. t\<lparr>priority := priority (cur s')\<rparr>) s"
  using assms by (auto simp: sys_nice_def upd_cur_def upd_task_def cur_def split: if_splits)

definition credit_ok :: "task_struct \<Rightarrow> bool" where
  "credit_ok t \<longleftrightarrow> 0 < sint (priority t) \<and> sint (priority t) < 2 ^ 29 \<and>
     0 \<le> sint (counter t) \<and> sint (counter t) \<le> 2 * sint (priority t)"

lemma sint_recharge:
  "credit_ok t \<Longrightarrow> sint (counter (recharge t)) = sint (counter t) div 2 + sint (priority t)"
proof -
  assume c: "credit_ok t"
  have h: "sint (signed_drop_bit (Suc 0) (counter t)) = sint (counter t) div 2"
    by (simp add: sint_signed_drop_bit_eq drop_bit_eq_div)
  have "- (2 ^ 31) \<le> sint (counter t) div 2 + sint (priority t)"
    "sint (counter t) div 2 + sint (priority t) < 2 ^ 31"
    using c unfolding credit_ok_def by (linarith | simp; linarith)+
  then show ?thesis
    using sint_add_small[of "signed_drop_bit (Suc 0) (counter t)" "priority t"]
    by (simp add: recharge_def h)
qed

lemma credit_ok_recharge: "credit_ok t \<Longrightarrow> credit_ok (recharge t)"
  using sint_recharge[of t] by (auto simp: credit_ok_def recharge_def[of t] simp del: sint_recharge)

lemma credit_ok_check_task [simp]: "credit_ok (check_task now t) = credit_ok t"
  by (simp add: credit_ok_def)

text \<open>
  Counters stay between 0 and twice the priority, however long a task sleeps: every call of
  \<open>schedule\<close> keeps that for all tasks, and then switches to the idle task only if no task is runnable.
\<close>

theorem schedule_keeps_credit:
  assumes ok: "tasks_ok s" and cr: "\<forall>p\<in>set (live_tasks s). credit_ok (ts s p)"
  shows "\<exists>s'. schedule s = Some s' \<and> (\<forall>p\<in>set (live_tasks s). credit_ok (ts s' p)) \<and>
    (runnable_slots s' = {} \<and> current s' = task s ! 0 \<or>
     (\<exists>n\<in>runnable_slots s'. current s' = task s ! n \<and> 0 < slot_counter s' n))"
proof -
  let ?c = "check_tasks s"
  have ok': "tasks_ok ?c" by (rule check_tasks_sel(3)[OF ok])
  have lt: "live_tasks ?c = live_tasks s" by (rule check_tasks_sel(4)[OF ok])
  have "\<forall>p\<in>set (live_tasks s). 0 < sint (priority (ts s p))"
    using cr by (simp add: credit_ok_def)
  from schedule_result[OF ok this] obtain n s1 where
    r: "schedule s = Some (switch_to n s1)" and s1: "s1 = ?c \<or> s1 = recharge_all ?c"
    and n: "sched_pick s1 n" and cu: "current (switch_to n s1) = task s ! n"
    by blast
  have crc: "\<forall>p\<in>set (live_tasks s). credit_ok (ts ?c p)"
    using cr by (simp add: check_tasks_eq[OF ok])
  then have cr1: "\<forall>p\<in>set (live_tasks s). credit_ok (ts s1 p)"
    using s1 lt by (auto simp: recharge_all_eq[OF ok'] credit_ok_recharge)
  have sel: "ts (switch_to n s1) = ts s1" "task (switch_to n s1) = task s1"
      "runnable_slots (switch_to n s1) = runnable_slots s1"
      "slot_counter (switch_to n s1) = slot_counter s1"
    by (simp_all add: switch_to_def runnable_slots_def slot_counter_def fun_eq_iff)
  have nn: "0 \<le> slot_counter s1 i" if "i \<in> runnable_slots s1" for i
  proof -
    have "tasks_ok s1" using s1 ok' recharge_all_eq[OF ok'] by (auto simp: tasks_ok_def)
    moreover have "live_tasks s1 = live_tasks s" using s1 lt recharge_all_sel(4)[OF ok'] by auto
    ultimately show ?thesis
      using live_slot[of s1 i] that cr1 by (auto simp: slot_counter_def credit_ok_def)
  qed
  have "runnable_slots s1 = {}" if "n = 0"
  proof -
    have "n \<notin> runnable_slots s1" using that by (simp add: runnable_slots_def)
    then show ?thesis using n nn by (auto simp: sched_pick_def dest: leD)
  qed
  then have "runnable_slots s1 = {} \<and> n = 0 \<or> n \<in> runnable_slots s1 \<and> 0 < slot_counter s1 n"
    using n by (auto simp: sched_pick_def)
  moreover have "task s1 ! n = task s ! n"
    using s1 recharge_all_sel(1)[OF ok'] check_tasks_sel(1)[OF ok] by auto
  ultimately show ?thesis
    using r cr1 cu sel by (intro exI[of _ "switch_to n s1"]) auto
qed

subsection \<open>Wake-ups\<close>

definition wakes :: "u32 \<Rightarrow> task_struct \<Rightarrow> nat \<Rightarrow> bool" where
  "wakes now t sig \<longleftrightarrow>
     (bit (signal t) (sig - 1) \<or> sig = SIGALRM \<and> alarm t \<noteq> 0 \<and> alarm t < now) \<and>
     (sig = SIGKILL \<or> sig = SIGSTOP \<or> \<not> bit (blocked t) (sig - 1))"

lemma word_neq_0_iff: "w \<noteq> 0 \<longleftrightarrow> (\<exists>n<32. bit (w :: u32) n)"
proof -
  have "w = 0" if "\<And>n. n < 32 \<Longrightarrow> \<not> bit w n"
    by (rule bit_word_eqI) (use that in auto)
  then show ?thesis by auto
qed

lemma ex_signal_iff: "(\<exists>sig\<in>{1..32::nat}. P sig (sig - 1)) \<longleftrightarrow> (\<exists>n<32. P (Suc n) n)"
proof -
  have "{1..32::nat} = Suc ` {..<32}" by (simp add: image_Suc_lessThan)
  then show ?thesis by auto
qed

lemma deliverable_iff:
  "w AND NOT (BLOCKABLE AND b) \<noteq> 0 \<longleftrightarrow>
   (\<exists>sig\<in>{1..32}. bit w (sig - 1) \<and> (sig = SIGKILL \<or> sig = SIGSTOP \<or> \<not> bit b (sig - 1)))"
proof -
  have "w AND NOT (BLOCKABLE AND b) \<noteq> 0 \<longleftrightarrow>
      (\<exists>n<32. bit w n \<and> (Suc n = SIGKILL \<or> Suc n = SIGSTOP \<or> \<not> bit b n))"
    unfolding word_neq_0_iff by (intro ex_cong1) (auto simp: BLOCKABLE_def bit_simps)
  also have "\<dots> \<longleftrightarrow> (\<exists>sig\<in>{1..32}. bit w (sig - 1) \<and> (sig = SIGKILL \<or> sig = SIGSTOP \<or> \<not> bit b (sig - 1)))"
    by (rule ex_signal_iff[symmetric])
  finally show ?thesis .
qed

text \<open>
  C13. What a call of \<open>schedule\<close> does to the other tasks before it chooses: a sleeping interruptible
  task becomes runnable exactly if its timeout has passed or a signal is there to be delivered to it,
  a signal that was pending or the SIGALRM of an alarm that has passed, and that it does not block;
  SIGKILL and SIGSTOP cannot be blocked. The state of every other task stays what it was.
\<close>

theorem schedule_wakeups:
  assumes ok: "tasks_ok s" and p: "p \<in> set (live_tasks s)"
  shows "state (ts (check_tasks s) p) =
    (if state (ts s p) = TASK_INTERRUPTIBLE \<and>
        (timeout (ts s p) \<noteq> 0 \<and> timeout (ts s p) < jiffies s \<or>
         (\<exists>sig\<in>{1..32}. wakes (jiffies s) (ts s p) sig))
     then TASK_RUNNING else state (ts s p))"
proof -
  let ?t = "ts s p"
  let ?w = "if alarm ?t \<noteq> 0 \<and> alarm ?t < jiffies s then signal ?t OR bit1 (SIGALRM - 1) else signal ?t"
  have "bit ?w (sig - 1) \<longleftrightarrow> bit (signal ?t) (sig - 1) \<or>
      sig = SIGALRM \<and> alarm ?t \<noteq> 0 \<and> alarm ?t < jiffies s" if "sig \<in> {1..32}" for sig
    using that by (auto simp: bit_simps)
  then have w: "?w AND NOT (BLOCKABLE AND blocked ?t) \<noteq> 0 \<longleftrightarrow>
      (\<exists>sig\<in>{1..32}. wakes (jiffies s) ?t sig)"
    unfolding deliverable_iff wakes_def by (intro bex_cong) auto
  have "state (ts (check_tasks s) p) = state (check_task (jiffies s) ?t)"
    using p by (simp add: check_tasks_eq[OF ok])
  also have "\<dots> = (if state ?t = TASK_INTERRUPTIBLE \<and>
        (timeout ?t \<noteq> 0 \<and> timeout ?t < jiffies s \<or> ?w AND NOT (BLOCKABLE AND blocked ?t) \<noteq> 0)
     then TASK_RUNNING else state ?t)"
    by (simp add: check_task_def Let_def)
  finally show ?thesis unfolding w .
qed

subsection \<open>Examples\<close>

lemma demo_priorities:
  "\<forall>p\<in>set (live_tasks demo_kernel). 0 < sint (priority (ts demo_kernel p))"
  "\<forall>p\<in>set (live_tasks demo_kernel). credit_ok (ts demo_kernel p)"
  by (auto simp: demo_kernel_def[THEN arg_cong[of _ _ ts]] demo_task_def credit_ok_def)

theorem schedule_returns_best_witness:
  "\<exists>n s1. schedule demo_kernel = Some (switch_to n s1) \<and> sched_pick s1 n"
  using schedule_returns_best[OF demo_kernel_tasks'(1) demo_priorities(1)] by blast

theorem schedule_keeps_credit_witness:
  "\<exists>s'. schedule demo_kernel = Some s' \<and> credit_ok (ts s' 0x3000)"
  using schedule_keeps_credit[OF demo_kernel_tasks'(1) demo_priorities(2)] by fastforce

theorem sys_nice_keeps_priority_positive_witness:
  "0 < sint (priority (cur (snd (sys_nice 14 demo_kernel))))"
proof -
  have "0 < sint (priority (cur demo_kernel))" by (simp add: cur_def demo_kernel_def demo_task_def)
  from sys_nice_keeps_priority_positive[OF prod.collapse[symmetric] this, of 14]
  show ?thesis by simp
qed

theorem schedule_wakeups_witness:
  "state (ts (check_tasks (demo_kernel\<lparr>ts := \<lambda>_. demo_task\<lparr>state := TASK_INTERRUPTIBLE, alarm := 900\<rparr>\<rparr>)) 0x3000)
   = TASK_RUNNING"
proof -
  let ?h = "\<lambda>_. demo_task\<lparr>state := TASK_INTERRUPTIBLE, alarm := 900\<rparr>"
  have "\<exists>sig\<in>{1..32}. wakes (jiffies demo_kernel) (?h 0x3000) sig"
    by (intro bexI[of _ SIGALRM]) (simp_all add: wakes_def demo_kernel_def demo_task_def)
  moreover have "(0x3000 :: u32) \<in> set (live_tasks (demo_kernel\<lparr>ts := ?h\<rparr>))" by simp
  note schedule_wakeups[OF demo_kernel_tasks(1) this]
  ultimately show ?thesis by (simp add: demo_task_def)
qed

end
