(* ===== verification/Timers.thy ===== *)
theory Timers
  imports Scheduler
begin

section \<open>Kernel timers\<close>

text \<open>
  The clock interrupt of \<^verbatim>\<open>kernel/sched.c\<close>: \<open>add_timer\<close> and \<open>do_timer\<close> with its timer list, and the
  motor timers of the floppy driver. The pending timers are a chain of slots of \<^verbatim>\<open>timer_list\<close>; every
  slot holds the ticks it waits after the slot in front of it. Each operation on the chain is shown
  to do what a function on the list of pending (ticks, function) pairs does.

  A timer's function is called through its pointer: what it does to the state is the argument \<open>run\<close>.
\<close>

unbundle bit_operations_syntax

abbreviation (input) TIME_REQUESTS :: nat where "TIME_REQUESTS \<equiv> 64"

subsection \<open>Floppy motors\<close>

definition ticks_to_floppy_on :: "nat \<Rightarrow> 'a kstate_scheme \<Rightarrow> ('a kstate_scheme, u32) outcome" where
  "ticks_to_floppy_on nr s =
    (if 3 < nr then Panics ''floppy_on: nr>3''
     else
       let s = s\<lparr>moff_timer := (moff_timer s)(nr := 10000)\<rparr>;
           mask = push_bit nr 0x10 OR current_DOR s;
           mask = (if selected s then mask else (mask AND 0xfc) OR of_nat nr);
           s = (if mask \<noteq> current_DOR s
                then
                  let s = s\<lparr>io_log := io_log s @ [Outb mask 0x3f2]\<rparr>;
                      m = (if (mask XOR current_DOR s) AND 0xf0 \<noteq> 0 then 50
                           else if sint (mon_timer s nr) < 2 then 2 else mon_timer s nr)
                  in s\<lparr>mon_timer := (mon_timer s)(nr := m), current_DOR := mask\<rparr>
                else s)
       in Done (mon_timer s nr) s)"

definition floppy_off :: "nat \<Rightarrow> 'a kstate_scheme \<Rightarrow> 'a kstate_scheme" where
  "floppy_off nr s = s\<lparr>moff_timer := (moff_timer s)(nr := 300)\<rparr>"

definition floppy_timer_step :: "nat \<Rightarrow> 'a kstate_scheme \<Rightarrow> 'a kstate_scheme" where
  "floppy_timer_step i s =
    (let mask = push_bit i 0x10
     in if mask AND current_DOR s = 0 then s
        else if mon_timer s i \<noteq> 0
        then (let s = s\<lparr>mon_timer := (mon_timer s)(i := mon_timer s i - 1)\<rparr>
              in if mon_timer s i = 0 then wake_up (wait_motor s i) s else s)
        else if moff_timer s i = 0
        then (let s = s\<lparr>current_DOR := current_DOR s AND NOT mask\<rparr>
              in s\<lparr>io_log := io_log s @ [Outb (current_DOR s) 0x3f2]\<rparr>)
        else s\<lparr>moff_timer := (moff_timer s)(i := moff_timer s i - 1)\<rparr>)"

definition do_floppy_timer :: "'a kstate_scheme \<Rightarrow> 'a kstate_scheme" where
  "do_floppy_timer s = fold floppy_timer_step [0..<4] s"

subsection \<open>The timer list\<close>

text \<open>The loop \<^verbatim>\<open>while (p->next && p->next->jiffies < p->jiffies)\<close> of \<open>add_timer\<close>.\<close>

partial_function (option) sift_timer :: "nat \<Rightarrow> (nat \<Rightarrow> timer) \<Rightarrow> (nat \<Rightarrow> timer) option" where
  "sift_timer p tls =
    (case tl_next (tls p) of
       None \<Rightarrow> Some tls
     | Some q \<Rightarrow>
         if sint (tl_jiffies (tls q)) < sint (tl_jiffies (tls p))
         then sift_timer q
           (tls(p := (tls p)\<lparr>tl_fn := tl_fn (tls q), tl_jiffies := tl_jiffies (tls q)\<rparr>,
               q := (tls q)\<lparr>tl_fn := tl_fn (tls p), tl_jiffies := tl_jiffies (tls p) - tl_jiffies (tls q)\<rparr>))
         else Some tls)"

definition add_timer ::
  "(u32 \<Rightarrow> 'a kstate_scheme \<Rightarrow> 'a kstate_scheme) \<Rightarrow> u32 \<Rightarrow> u32 \<Rightarrow> 'a kstate_scheme \<Rightarrow>
   ('a kstate_scheme, unit) outcome" where
  "add_timer run ticks fn s =
    (if fn = 0 then Done () s
     else if sint ticks \<le> 0 then Done () (run fn s)
     else case find (\<lambda>p. tl_fn (timer_list s p) = 0) [0..<TIME_REQUESTS] of
       None \<Rightarrow> Panics ''No more time requests free''
     | Some p \<Rightarrow>
         (case sift_timer p
                 ((timer_list s)(p := \<lparr>tl_jiffies = ticks, tl_fn = fn, tl_next = next_timer s\<rparr>)) of
            None \<Rightarrow> Diverges
          | Some tls \<Rightarrow> Done () (s\<lparr>timer_list := tls, next_timer := Some p\<rparr>)))"

text \<open>The loop of \<open>do_timer\<close> that calls the functions of the timers that have run out.\<close>

partial_function (option) fire_timers ::
  "(u32 \<Rightarrow> 'a kstate_scheme \<Rightarrow> 'a kstate_scheme) \<Rightarrow> 'a kstate_scheme \<Rightarrow> 'a kstate_scheme option" where
  "fire_timers run s =
    (case next_timer s of
       None \<Rightarrow> Some s
     | Some p \<Rightarrow>
         if sint (tl_jiffies (timer_list s p)) \<le> 0
         then fire_timers run
           (run (tl_fn (timer_list s p))
             (s\<lparr>timer_list := (timer_list s)(p := (timer_list s p)\<lparr>tl_fn := 0\<rparr>),
                next_timer := tl_next (timer_list s p)\<rparr>))
         else Some s)"

definition timer_tick ::
  "(u32 \<Rightarrow> 'a kstate_scheme \<Rightarrow> 'a kstate_scheme) \<Rightarrow> 'a kstate_scheme \<Rightarrow> 'a kstate_scheme option" where
  "timer_tick run s =
    (case next_timer s of
       None \<Rightarrow> Some s
     | Some p \<Rightarrow>
         fire_timers run
           (s\<lparr>timer_list := (timer_list s)(p := (timer_list s p)\<lparr>tl_jiffies := tl_jiffies (timer_list s p) - 1\<rparr>)\<rparr>))"

subsection \<open>The clock interrupt\<close>

definition blank_step :: "'a kstate_scheme \<Rightarrow> 'a kstate_scheme" where
  "blank_step s =
    (if blankcount s \<noteq> 0 \<or> blankinterval s = 0
     then (let s = (if blanked s then s\<lparr>io_log := io_log s @ [Unblank_Screen]\<rparr> else s);
               s = (if blankcount s \<noteq> 0 then s\<lparr>blankcount := blankcount s - 1\<rparr> else s)
           in s\<lparr>blanked := False\<rparr>)
     else if \<not> blanked s then s\<lparr>io_log := io_log s @ [Blank_Screen], blanked := True\<rparr>
     else s)"

definition countdown_step :: "'a kstate_scheme \<Rightarrow> 'a kstate_scheme" where
  "countdown_step s =
    (let s = (if hd_timeout s \<noteq> 0
              then (let s = s\<lparr>hd_timeout := hd_timeout s - 1\<rparr>
                    in if hd_timeout s = 0 then s\<lparr>io_log := io_log s @ [Hd_Times_Out]\<rparr> else s)
              else s)
     in if beepcount s \<noteq> 0
        then (let s = s\<lparr>beepcount := beepcount s - 1\<rparr>
              in if beepcount s = 0 then s\<lparr>io_log := io_log s @ [Sys_Beep_Stop]\<rparr> else s)
        else s)"

definition do_timer ::
  "(u32 \<Rightarrow> 'a kstate_scheme \<Rightarrow> 'a kstate_scheme) \<Rightarrow> ('a kstate_scheme \<Rightarrow> 'a kstate_scheme) \<Rightarrow> u32 \<Rightarrow>
   'a kstate_scheme \<Rightarrow> ('a kstate_scheme, unit) outcome" where
  "do_timer run resume cpl s =
    (let s = countdown_step (blank_step s);
         s = (if cpl \<noteq> 0 then upd_cur (\<lambda>t. t\<lparr>utime := utime t + 1\<rparr>) s
              else upd_cur (\<lambda>t. t\<lparr>stime := stime t + 1\<rparr>) s)
     in case timer_tick run s of
          None \<Rightarrow> Diverges
        | Some s \<Rightarrow>
            let s = (if current_DOR s AND 0xf0 \<noteq> 0 then do_floppy_timer s else s);
                s = upd_cur (\<lambda>t. t\<lparr>counter := counter t - 1\<rparr>) s
            in if 0 < sint (counter (cur s)) then Done () s
               else let s = upd_cur (\<lambda>t. t\<lparr>counter := 0\<rparr>) s
                    in if cpl = 0 then Done () s else reschedule resume s)"

subsection \<open>The chain of pending timers\<close>

fun timer_path :: "(nat \<Rightarrow> timer) \<Rightarrow> nat option \<Rightarrow> nat list \<Rightarrow> bool" where
  "timer_path tls None ps = (ps = [])"
| "timer_path tls (Some p) [] = False"
| "timer_path tls (Some p) (q # ps) = (p = q \<and> timer_path tls (tl_next (tls p)) ps)"

definition timer_contents :: "(nat \<Rightarrow> timer) \<Rightarrow> nat list \<Rightarrow> (int \<times> u32) list" where
  "timer_contents tls ps = map (\<lambda>p. (sint (tl_jiffies (tls p)), tl_fn (tls p))) ps"

text \<open>
  \<open>timers_are s pending\<close>: the chain from \<open>next_timer\<close> runs through exactly the slots in use, each with
  ticks left, and holds \<open>pending\<close>.
\<close>

definition timers_are :: "'a kstate_scheme \<Rightarrow> (int \<times> u32) list \<Rightarrow> bool" where
  "timers_are s pending \<longleftrightarrow> (\<exists>ps. timer_path (timer_list s) (next_timer s) ps \<and> distinct ps \<and>
     set ps = {p. p < TIME_REQUESTS \<and> tl_fn (timer_list s p) \<noteq> 0} \<and>
     pending = timer_contents (timer_list s) ps \<and> (\<forall>(j, f)\<in>set pending. 0 < j))"

text \<open>What \<open>add_timer\<close> does to the list, and when each timer runs out.\<close>

fun insert_timer :: "int \<times> u32 \<Rightarrow> (int \<times> u32) list \<Rightarrow> (int \<times> u32) list" where
  "insert_timer x [] = [x]"
| "insert_timer (j, f) ((k, g) # r) =
     (if k < j then (k, g) # insert_timer (j - k, f) r else (j, f) # (k, g) # r)"

fun dues :: "int \<Rightarrow> (int \<times> u32) list \<Rightarrow> (int \<times> u32) list" where
  "dues a [] = []"
| "dues a ((j, f) # r) = (a + j, f) # dues (a + j) r"

lemma sint_sub_small: "0 < sint b \<Longrightarrow> sint b < sint a \<Longrightarrow> sint (a - b :: u32) = sint a - sint b"
  using signed_take_bit_int_eq_self[of 31 "sint a - sint b"] sint_lt[of a] sint_ge[of a]
  by (simp add: sint_word_ariths)

lemma timer_path_cong:
  "(\<And>p. p \<in> set ps \<Longrightarrow> tl_next (h p) = tl_next (g p)) \<Longrightarrow> timer_path h start ps = timer_path g start ps"
  by (induction h start ps rule: timer_path.induct) auto

lemma timer_contents_cong:
  "(\<And>p. p \<in> set ps \<Longrightarrow> h p = g p) \<Longrightarrow> timer_contents h ps = timer_contents g ps"
  by (simp add: timer_contents_def)

lemma sift_timer_contents:
  assumes "timer_path tls (Some p) (p # ps)" "distinct (p # ps)"
    "\<forall>(j, f)\<in>set (timer_contents tls (p # ps)). 0 < j"
  shows "\<exists>h. sift_timer p tls = Some h \<and> (\<forall>q. tl_next (h q) = tl_next (tls q)) \<and>
    (\<forall>q. q \<notin> set (p # ps) \<longrightarrow> h q = tls q) \<and>
    timer_contents h (p # ps) =
      insert_timer (sint (tl_jiffies (tls p)), tl_fn (tls p)) (timer_contents tls ps)"
  using assms
proof (induction ps arbitrary: p tls)
  case Nil
  then have "tl_next (tls p) = None" by (cases "tl_next (tls p)") auto
  then show ?case by (simp add: sift_timer.simps[of p] timer_contents_def)
next
  case (Cons q ps)
  have nq: "tl_next (tls p) = Some q" and pq: "p \<noteq> q" "p \<notin> set ps" "q \<notin> set ps"
    using Cons.prems by (cases "tl_next (tls p)"; auto)+
  show ?case
  proof (cases "sint (tl_jiffies (tls q)) < sint (tl_jiffies (tls p))")
    case False
    then show ?thesis by (simp add: sift_timer.simps[of p] nq timer_contents_def)
  next
    case True
    define g where "g = tls(p := (tls p)\<lparr>tl_fn := tl_fn (tls q), tl_jiffies := tl_jiffies (tls q)\<rparr>,
      q := (tls q)\<lparr>tl_fn := tl_fn (tls p), tl_jiffies := tl_jiffies (tls p) - tl_jiffies (tls q)\<rparr>)"
    have step: "sift_timer p tls = sift_timer q g"
      using True by (simp add: sift_timer.simps[of p] nq g_def)
    have nxt: "tl_next (g r) = tl_next (tls r)" for r by (simp add: g_def)
    have out: "g r = tls r" if "r \<noteq> p" "r \<noteq> q" for r using that by (simp add: g_def)
    have gp: "sint (tl_jiffies (g p)) = sint (tl_jiffies (tls q))" "tl_fn (g p) = tl_fn (tls q)"
      using pq by (simp_all add: g_def)
    have "sint (tl_jiffies (tls p) - tl_jiffies (tls q)) =
        sint (tl_jiffies (tls p)) - sint (tl_jiffies (tls q))"
      using Cons.prems(3) True by (intro sint_sub_small) (auto simp: timer_contents_def)
    then have gq: "sint (tl_jiffies (g q)) = sint (tl_jiffies (tls p)) - sint (tl_jiffies (tls q))"
        "tl_fn (g q) = tl_fn (tls p)"
      by (simp_all add: g_def)
    have rest: "timer_contents g ps = timer_contents tls ps"
      using pq out by (intro timer_contents_cong) metis
    have "timer_path g (Some q) (q # ps)"
      using Cons.prems(1) nq nxt by (subst timer_path_cong[where g = tls]) auto
    moreover have "\<forall>(j, f)\<in>set (timer_contents g (q # ps)). 0 < j"
      using Cons.prems(3) rest True gq by (auto simp: timer_contents_def)
    ultimately obtain h where h: "sift_timer q g = Some h" "\<forall>r. tl_next (h r) = tl_next (g r)"
        "\<forall>r. r \<notin> set (q # ps) \<longrightarrow> h r = g r"
        "timer_contents h (q # ps) =
          insert_timer (sint (tl_jiffies (g q)), tl_fn (g q)) (timer_contents g ps)"
      using Cons.IH[of g q] Cons.prems(2) by (metis distinct.simps(2))
    have "h p = g p" using h(3) pq by simp
    then have "timer_contents h (p # q # ps) =
        (sint (tl_jiffies (tls q)), tl_fn (tls q)) # timer_contents h (q # ps)"
      using gp by (simp add: timer_contents_def)
    moreover have "timer_contents tls (q # ps) =
        (sint (tl_jiffies (tls q)), tl_fn (tls q)) # timer_contents tls ps"
      by (simp add: timer_contents_def)
    moreover have "\<forall>r. r \<notin> set (p # q # ps) \<longrightarrow> h r = tls r"
      using h(3) out by simp
    ultimately show ?thesis
      using h(1,2,4) step nxt True gq rest by (intro exI[of _ h]) simp
  qed
qed

definition live_timer :: "int \<times> u32 \<Rightarrow> bool" where
  "live_timer x \<longleftrightarrow> 0 < fst x \<and> snd x \<noteq> 0"

lemma insert_timer_live:
  "live_timer x \<Longrightarrow> \<forall>y\<in>set r. live_timer y \<Longrightarrow> \<forall>y\<in>set (insert_timer x r). live_timer y"
  by (induction x r rule: insert_timer.induct) (auto simp: live_timer_def)

lemma timers_are_iff:
  "timers_are s pending \<longleftrightarrow> (\<exists>ps. timer_path (timer_list s) (next_timer s) ps \<and> distinct ps \<and>
     set ps \<subseteq> {..<TIME_REQUESTS} \<and> (\<forall>p<TIME_REQUESTS. p \<notin> set ps \<longrightarrow> tl_fn (timer_list s p) = 0) \<and>
     pending = timer_contents (timer_list s) ps \<and> (\<forall>x\<in>set pending. live_timer x))"
  unfolding timers_are_def
  by (intro ex_cong1) (fastforce simp: timer_contents_def live_timer_def)

lemma add_timer_list:
  assumes t: "timers_are s pending" and room: "length pending < TIME_REQUESTS"
    and j: "0 < sint ticks" and fn: "fn \<noteq> 0"
  shows "\<exists>s'. add_timer run ticks fn s = Done () s' \<and>
    timers_are s' (insert_timer (sint ticks, fn) pending) \<and>
    s' = s\<lparr>timer_list := timer_list s', next_timer := next_timer s'\<rparr>"
proof -
  from t obtain ps where path: "timer_path (timer_list s) (next_timer s) ps" "distinct ps"
    "set ps = {p. p < TIME_REQUESTS \<and> tl_fn (timer_list s p) \<noteq> 0}"
    and cont: "pending = timer_contents (timer_list s) ps" and pos: "\<forall>(j, f)\<in>set pending. 0 < j"
    and live: "\<forall>x\<in>set pending. live_timer x"
    unfolding timers_are_def by (fastforce simp: timer_contents_def live_timer_def)
  have "length ps < TIME_REQUESTS" using room cont by (simp add: timer_contents_def)
  moreover have "card {..<TIME_REQUESTS} = TIME_REQUESTS" by simp
  ultimately have "\<not> {..<TIME_REQUESTS} \<subseteq> set ps"
    using card_mono[of "set ps" "{..<TIME_REQUESTS}"] card_length[of ps] by auto
  then have ex: "\<exists>p\<in>set [0..<TIME_REQUESTS]. tl_fn (timer_list s p) = 0" using path(3) by auto
  then obtain p where find: "find (\<lambda>p. tl_fn (timer_list s p) = 0) [0..<TIME_REQUESTS] = Some p"
    by (cases "find (\<lambda>p. tl_fn (timer_list s p) = 0) [0..<TIME_REQUESTS]") (auto simp: find_None_iff)
  then have p: "p < TIME_REQUESTS" "tl_fn (timer_list s p) = 0" "p \<notin> set ps"
    using path(3) by (auto simp: find_Some_iff)
  let ?g = "(timer_list s)(p := \<lparr>tl_jiffies = ticks, tl_fn = fn, tl_next = next_timer s\<rparr>)"
  have eq: "timer_contents ?g ps = pending" 
    unfolding cont using p(3) by (intro timer_contents_cong) auto
  have "timer_path ?g (next_timer s) ps"
    using path(1) p(3) by (subst timer_path_cong[where g = "timer_list s"]) auto
  then have "timer_path ?g (Some p) (p # ps)" by simp
  moreover have "\<forall>(j, f)\<in>set (timer_contents ?g (p # ps)). 0 < j"
    using pos eq j by (simp add: timer_contents_def)
  ultimately obtain h where h: "sift_timer p ?g = Some h" "\<forall>q. tl_next (h q) = tl_next (?g q)"
      "\<forall>q. q \<notin> set (p # ps) \<longrightarrow> h q = ?g q"
      "timer_contents h (p # ps) = insert_timer (sint ticks, fn) pending"
    using sift_timer_contents[of ?g p ps] p(3) path(2) eq by auto
  let ?s = "s\<lparr>timer_list := h, next_timer := Some p\<rparr>"
  have "timer_path h (Some p) (p # ps)"
    using \<open>timer_path ?g (Some p) (p # ps)\<close> h(2) by (subst timer_path_cong[where g = ?g]) auto
  moreover have "\<forall>x\<in>set (insert_timer (sint ticks, fn) pending). live_timer x"
    by (rule insert_timer_live[OF _ live]) (simp add: live_timer_def j fn)
  ultimately have "timers_are ?s (insert_timer (sint ticks, fn) pending)"
    unfolding timers_are_iff using h(3,4) path p
    by (intro exI[of _ "p # ps"]) auto
  moreover have "add_timer run ticks fn s = Done () ?s"
    using j fn find h(1) by (simp add: add_timer_def)
  ultimately show ?thesis by (intro exI[of _ ?s]) simp
qed

lemma dues_shift: "dues (a + b) r = map (\<lambda>(d, g). (d + b, g)) (dues a r)"
  by (induction a r rule: dues.induct) (auto simp: algebra_simps)

lemma dues_insert_timer:
  assumes "0 < j" "\<forall>x\<in>set r. live_timer x"
  shows "\<exists>m l. dues a (insert_timer (j, f) r) =
      take m (dues a r) @ (a + j, f) # map (\<lambda>(d, g). (d + l, g)) (drop m (dues a r)) \<and>
    (\<forall>(d, g)\<in>set (take m (dues a r)). d < a + j) \<and>
    0 < l \<and> l = a + j - (if m = 0 then a else fst (dues a r ! (m - 1))) \<and> m \<le> length r"
  using assms
proof (induction "(j, f)" r arbitrary: j a rule: insert_timer.induct)
  case (1 j f)
  then show ?case by (intro exI[of _ 0] exI[of _ j]) auto
next
  case (2 j k g r)
  show ?case
  proof (cases "k < j")
    case True
    then have "0 < j - k" "\<forall>x\<in>set r. live_timer x" using 2 by auto
    from 2(1)[OF True this, of "a + k"] obtain m l where
      "dues (a + k) (insert_timer (j - k, f) r) =
        take m (dues (a + k) r) @ (a + j, f) # map (\<lambda>(d, g). (d + l, g)) (drop m (dues (a + k) r))"
      "\<forall>(d, g)\<in>set (take m (dues (a + k) r)). d < a + j" "0 < l"
      "l = a + j - (if m = 0 then a + k else fst (dues (a + k) r ! (m - 1)))" "m \<le> length r"
      by auto
    then show ?thesis using True
      by (intro exI[of _ "Suc m"] exI[of _ l]) (auto simp: nth_Cons')
  next
    case False
    then show ?thesis using 2 dues_shift[of "a + k" j r]
      by (intro exI[of _ 0] exI[of _ j]) (auto simp: algebra_simps)
  qed
qed

text \<open>The functions that timers call neither read nor change the timers.\<close>

definition timer_free :: "(u32 \<Rightarrow> 'a kstate_scheme \<Rightarrow> 'a kstate_scheme) \<Rightarrow> bool" where
  "timer_free run \<longleftrightarrow> (\<forall>f s h n. run f (s\<lparr>timer_list := h, next_timer := n\<rparr>) =
     (run f s)\<lparr>timer_list := h, next_timer := n\<rparr>)"

definition slots_ok :: "(nat \<Rightarrow> timer) \<Rightarrow> nat option \<Rightarrow> nat list \<Rightarrow> bool" where
  "slots_ok h start ps \<longleftrightarrow> timer_path h start ps \<and> distinct ps \<and> set ps \<subseteq> {..<TIME_REQUESTS} \<and>
     (\<forall>p<TIME_REQUESTS. p \<notin> set ps \<longrightarrow> tl_fn (h p) = 0)"

lemma fire_timers_list:
  assumes "timer_free run" "slots_ok h start ps"
  shows "\<exists>h' n qs. fire_timers run (s\<lparr>timer_list := h, next_timer := start\<rparr>) =
      Some ((fold run (map snd (takeWhile (\<lambda>x. fst x \<le> 0) (timer_contents h ps))) s)
              \<lparr>timer_list := h', next_timer := n\<rparr>) \<and>
    slots_ok h' n qs \<and>
    timer_contents h' qs = dropWhile (\<lambda>x. fst x \<le> 0) (timer_contents h ps)"
  using assms(2)
proof (induction ps arbitrary: h start s)
  case Nil
  then have "start = None" by (cases start) (auto simp: slots_ok_def)
  then show ?case using Nil
    by (intro exI[of _ h] exI[of _ None] exI[of _ "[]"])
      (auto simp: fire_timers.simps[of run "s\<lparr>timer_list := h, next_timer := None\<rparr>"] timer_contents_def)
next
  case (Cons p ps)
  let ?s = "s\<lparr>timer_list := h, next_timer := start\<rparr>"
  have st: "start = Some p" using Cons.prems by (cases start) (auto simp: slots_ok_def)
  show ?case
  proof (cases "sint (tl_jiffies (h p)) \<le> 0")
    case False
    then have "fire_timers run ?s = Some ?s" unfolding st by (subst fire_timers.simps) simp
    then show ?thesis using Cons.prems False
      by (intro exI[of _ h] exI[of _ start] exI[of _ "p # ps"]) (simp add: timer_contents_def)
  next
    case True
    define g where "g = h(p := (h p)\<lparr>tl_fn := 0\<rparr>)"
    have p: "p \<notin> set ps" using Cons.prems by (auto simp: slots_ok_def)
    have "timer_path g (tl_next (h p)) ps = timer_path h (tl_next (h p)) ps"
      by (rule timer_path_cong) (simp add: g_def)
    then have ok: "slots_ok g (tl_next (h p)) ps"
      using Cons.prems st by (auto simp: slots_ok_def g_def)
    have cont: "timer_contents g ps = timer_contents h ps"
      using p by (intro timer_contents_cong) (auto simp: g_def)
    have "fire_timers run ?s =
        fire_timers run ((run (tl_fn (h p)) s)\<lparr>timer_list := g, next_timer := tl_next (h p)\<rparr>)"
      unfolding st using True assms(1) by (subst fire_timers.simps) (simp add: timer_free_def g_def)
    moreover have "timer_contents h (p # ps) = (sint (tl_jiffies (h p)), tl_fn (h p)) # timer_contents h ps"
      by (simp add: timer_contents_def)
    ultimately show ?thesis
      using Cons.IH[OF ok, of "run (tl_fn (h p)) s"] True unfolding cont by simp
  qed
qed

definition tick_list :: "(int \<times> u32) list \<Rightarrow> (int \<times> u32) list" where
  "tick_list pending = (case pending of [] \<Rightarrow> [] | (j, f) # r \<Rightarrow> (j - 1, f) # r)"

lemma timer_tick_list:
  assumes "timer_free run" "timers_are s pending"
  shows "\<exists>h n. timer_tick run s =
      Some ((fold run (map snd (takeWhile (\<lambda>x. fst x \<le> 0) (tick_list pending))) s)
              \<lparr>timer_list := h, next_timer := n\<rparr>) \<and>
    timers_are (s\<lparr>timer_list := h, next_timer := n\<rparr>) (dropWhile (\<lambda>x. fst x \<le> 0) (tick_list pending))"
proof -
  obtain ps where ok: "slots_ok (timer_list s) (next_timer s) ps"
    and cont: "pending = timer_contents (timer_list s) ps" and live: "\<forall>x\<in>set pending. live_timer x"
    using assms(2) unfolding timers_are_iff slots_ok_def by blast
  show ?thesis
  proof (cases ps)
    case Nil
    then have n: "next_timer s = None" using ok by (cases "next_timer s") (auto simp: slots_ok_def)
    have "s\<lparr>timer_list := timer_list s, next_timer := None\<rparr> = s" using n by simp
    have "timer_tick run s = Some s" using n by (simp add: timer_tick_def)
    then show ?thesis using Nil cont assms(2)
      by (intro exI[of _ "timer_list s"] exI[of _ "next_timer s"])
        (simp add: timer_contents_def tick_list_def)
  next
    case (Cons p qs)
    have n: "next_timer s = Some p" using ok Cons by (cases "next_timer s") (auto simp: slots_ok_def)
    let ?j = "tl_jiffies (timer_list s p)"
    let ?h = "(timer_list s)(p := (timer_list s p)\<lparr>tl_jiffies := ?j - 1\<rparr>)"
    have p: "p \<notin> set qs" using ok Cons by (auto simp: slots_ok_def)
    have "timer_path ?h (next_timer s) ps = timer_path (timer_list s) (next_timer s) ps"
      by (rule timer_path_cong) simp
    then have ok': "slots_ok ?h (next_timer s) ps" using ok Cons by (auto simp: slots_ok_def)
    have "timer_contents ?h qs = timer_contents (timer_list s) qs"
      using p by (intro timer_contents_cong) auto
    moreover have "0 < sint ?j" using live cont Cons by (auto simp: timer_contents_def live_timer_def)
    then have "sint (?j - 1) = sint ?j - 1" using sint_lt[of ?j] sint_add_small[of ?j "-1"] by simp
    ultimately have c: "timer_contents ?h ps = tick_list pending"
      using cont Cons by (simp add: timer_contents_def tick_list_def)
    have "\<forall>x\<in>set (dropWhile (\<lambda>x. fst x \<le> 0) (tick_list pending)). live_timer x"
      using live
      by (cases pending) (force simp: tick_list_def live_timer_def split: if_splits dest: set_dropWhileD)+
    moreover obtain h' n' rs where "fire_timers run (s\<lparr>timer_list := ?h, next_timer := next_timer s\<rparr>) =
        Some ((fold run (map snd (takeWhile (\<lambda>x. fst x \<le> 0) (tick_list pending))) s)
              \<lparr>timer_list := h', next_timer := n'\<rparr>)" "slots_ok h' n' rs"
        "timer_contents h' rs = dropWhile (\<lambda>x. fst x \<le> 0) (tick_list pending)"
      using fire_timers_list[OF assms(1) ok', of s] unfolding c by blast
    moreover have "s\<lparr>timer_list := ?h\<rparr> = s\<lparr>timer_list := ?h, next_timer := next_timer s\<rparr>"
      by (cases s) simp
    then have "timer_tick run s = fire_timers run (s\<lparr>timer_list := ?h, next_timer := next_timer s\<rparr>)"
      unfolding timer_tick_def n option.case by (rule arg_cong)
    ultimately show ?thesis
      by (intro exI[of _ h'] exI[of _ n']) (auto simp: timers_are_iff slots_ok_def intro!: exI[of _ rs])
  qed
qed

text \<open>\<open>n\<close> ticks of the clock.\<close>

primrec timer_ticks ::
  "(u32 \<Rightarrow> 'a kstate_scheme \<Rightarrow> 'a kstate_scheme) \<Rightarrow> nat \<Rightarrow> 'a kstate_scheme \<Rightarrow> 'a kstate_scheme option" where
  "timer_ticks run 0 s = Some s"
| "timer_ticks run (Suc n) s =
     (case timer_tick run s of None \<Rightarrow> None | Some s' \<Rightarrow> timer_ticks run n s')"

lemma dues_gt: "\<forall>x\<in>set r. live_timer x \<Longrightarrow> y \<in> set (dues a r) \<Longrightarrow> a < fst y"
  by (induction a r rule: dues.induct) (fastforce simp: live_timer_def)+

definition expired :: "(int \<times> u32) list \<Rightarrow> u32 list" where
  "expired pending = map snd (takeWhile (\<lambda>x. fst x \<le> 0) (tick_list pending))"

definition remaining :: "(int \<times> u32) list \<Rightarrow> (int \<times> u32) list" where
  "remaining pending = dropWhile (\<lambda>x. fst x \<le> 0) (tick_list pending)"

lemma tick_dues:
  assumes "\<forall>x\<in>set pending. live_timer x"
  shows "map snd (filter (\<lambda>x. fst x \<le> int (Suc n)) (dues 0 pending)) =
      expired pending @ map snd (filter (\<lambda>x. fst x \<le> int n) (dues 0 (remaining pending)))"
    and "dues 0 (remaining pending) =
      map (\<lambda>(d, f). (d - 1, f)) (filter (\<lambda>x. 1 < fst x) (dues 0 pending))"
proof -
  have less: "dues (a - 1) r = map (\<lambda>(d, f). (d - 1, f)) (dues a r)" for a r
    using dues_shift[of a "-1" r] by simp
  have filt: "map snd (filter (\<lambda>x. fst x \<le> m) (map (\<lambda>(d, f). (d - 1, f)) l)) =
      map snd (filter (\<lambda>x. fst x \<le> m + 1) l)" for m and l :: "(int \<times> u32) list"
    by (induction l) auto
  consider "pending = []" | f r where "pending = (1, f) # r" | j f r where "pending = (j, f) # r" "1 < j"
    using assms by (cases pending) (force simp: live_timer_def)+
  note cases = this
  have stay: "dropWhile (\<lambda>x. fst x \<le> 0) r = r" "takeWhile (\<lambda>x. fst x \<le> 0) r = []"
    if "\<forall>x\<in>set r. live_timer x" for r using that by (cases r; force simp: live_timer_def)+
  have gt: "filter (\<lambda>x. 1 < fst x) (dues b r) = dues b r"
    if "\<forall>x\<in>set r. live_timer x" "1 \<le> b" for b r
    using dues_gt[OF that(1), of _ b] that(2) by (force intro: filter_True)
  from cases show rem: "dues 0 (remaining pending) =
      map (\<lambda>(d, f). (d - 1, f)) (filter (\<lambda>x. 1 < fst x) (dues 0 pending))"
  proof cases
    case (2 f r)
    then show ?thesis using assms stay(1)[of r] gt[of r 1] less[of 1 r]
      by (simp add: remaining_def tick_list_def)
  next
    case (3 j f r)
    then show ?thesis using assms gt[of r j] less[of j r] by (simp add: remaining_def tick_list_def)
  qed (simp add: remaining_def tick_list_def)
  from cases show "map snd (filter (\<lambda>x. fst x \<le> int (Suc n)) (dues 0 pending)) =
      expired pending @ map snd (filter (\<lambda>x. fst x \<le> int n) (dues 0 (remaining pending)))"
  proof cases
    case (2 f r)
    then show ?thesis using assms stay(2)[of r] gt[of r 1]
      unfolding rem filt by (simp add: expired_def tick_list_def add.commute)
  next
    case (3 j f r)
    then show ?thesis using assms gt[of r j]
      unfolding rem filt by (simp add: expired_def tick_list_def add.commute)
  qed (simp add: expired_def remaining_def tick_list_def)
qed

lemma timer_ticks_list:
  assumes "timer_free run" "timers_are s pending"
  shows "\<exists>h k rest. timer_ticks run n s =
      Some ((fold run (map snd (filter (\<lambda>x. fst x \<le> int n) (dues 0 pending))) s)
              \<lparr>timer_list := h, next_timer := k\<rparr>) \<and>
    timers_are (s\<lparr>timer_list := h, next_timer := k\<rparr>) rest \<and>
    dues 0 rest = map (\<lambda>(d, f). (d - int n, f)) (filter (\<lambda>x. int n < fst x) (dues 0 pending))"
  using assms(2)
proof (induction n arbitrary: s pending)
  case 0
  have live: "\<forall>x\<in>set pending. live_timer x" using 0 by (auto simp: timers_are_iff)
  have "filter (\<lambda>x. fst x \<le> 0) (dues 0 pending) = []" "filter (\<lambda>x. 0 < fst x) (dues 0 pending) = dues 0 pending"
    using dues_gt[OF live, of _ 0] by (force simp: filter_empty_conv intro: filter_True)+
  then show ?case using 0
    by (intro exI[of _ "timer_list s"] exI[of _ "next_timer s"] exI[of _ pending]) simp
next
  case (Suc n)
  have live: "\<forall>x\<in>set pending. live_timer x" using Suc.prems by (auto simp: timers_are_iff)
  obtain h k where tick: "timer_tick run s = Some ((fold run (expired pending) s)\<lparr>timer_list := h, next_timer := k\<rparr>)"
    and rest: "timers_are (s\<lparr>timer_list := h, next_timer := k\<rparr>) (remaining pending)"
    using timer_tick_list[OF assms(1) Suc.prems] unfolding expired_def remaining_def by blast
  let ?s = "(fold run (expired pending) s)\<lparr>timer_list := h, next_timer := k\<rparr>"
  have "timers_are ?s (remaining pending)" using rest by (simp add: timers_are_def)
  from Suc.IH[OF this] obtain h' k' rest' where IH: "timer_ticks run n ?s =
      Some ((fold run (map snd (filter (\<lambda>x. fst x \<le> int n) (dues 0 (remaining pending)))) ?s)
              \<lparr>timer_list := h', next_timer := k'\<rparr>)"
    "timers_are (?s\<lparr>timer_list := h', next_timer := k'\<rparr>) rest'"
    "dues 0 rest' = map (\<lambda>(d, f). (d - int n, f)) (filter (\<lambda>x. int n < fst x) (dues 0 (remaining pending)))"
    by blast
  have move: "fold run fs (t\<lparr>timer_list := h, next_timer := k\<rparr>) =
      (fold run fs t)\<lparr>timer_list := h, next_timer := k\<rparr>" for fs t h k
    using assms(1) by (induction fs arbitrary: t) (simp_all add: timer_free_def)
  have "map (\<lambda>(d, f). (d - int n, f)) (filter (\<lambda>x. int n < fst x) (map (\<lambda>(d, f). (d - 1, f)) (filter (\<lambda>x. 1 < fst x) l))) =
      map (\<lambda>(d, f). (d - int (Suc n), f)) (filter (\<lambda>x. int (Suc n) < fst x) l)" for l :: "(int \<times> u32) list"
    by (induction l) auto
  then have d: "dues 0 rest' =
      map (\<lambda>(d, f). (d - int (Suc n), f)) (filter (\<lambda>x. int (Suc n) < fst x) (dues 0 pending))"
    using IH(3) unfolding tick_dues(2)[OF live] by simp
  have "timers_are (s\<lparr>timer_list := h', next_timer := k'\<rparr>) rest'"
    using IH(2) by (simp add: timers_are_def)
  then show ?case using tick IH(1) d
    by (intro exI[of _ h'] exI[of _ k'] exI[of _ rest']) (simp add: move tick_dues(1)[OF live] del: of_nat_Suc)
qed

subsection \<open>The timer list keeps time, except when a timer is put in front of others\<close>

text \<open>
  C14. The clock: of the pending timers, \<open>n\<close> ticks call exactly those that are due within \<open>n\<close> ticks, in the
  order in which they are due and each once, and leave the others with \<open>n\<close> ticks less to go; no tick
  loops for ever. (The functions called are assumed not to touch the timer list themselves.)
\<close>

theorem timers_fire_when_due:
  assumes "timer_free run" "timers_are s pending"
  shows "\<exists>h k rest. timer_ticks run n s =
      Some ((fold run (map snd (filter (\<lambda>x. fst x \<le> int n) (dues 0 pending))) s)
              \<lparr>timer_list := h, next_timer := k\<rparr>) \<and>
    timers_are (s\<lparr>timer_list := h, next_timer := k\<rparr>) rest \<and>
    dues 0 rest = map (\<lambda>(d, f). (d - int n, f)) (filter (\<lambda>x. int n < fst x) (dues 0 pending))"
  by (rule timer_ticks_list[OF assms])

text \<open>
  \<open>add_timer\<close>: as long as a slot is free, the new timer is due after exactly the ticks asked for, and
  the timers due before it stay as they were; but every timer behind it is put off by the ticks \<open>l > 0\<close>
  that the new one waits after its predecessor, since the code never takes them off its successor.
\<close>

theorem add_timer_due:
  assumes "timers_are s pending" "length pending < TIME_REQUESTS" "0 < sint ticks" "fn \<noteq> 0"
  shows "\<exists>s' pending' m l. add_timer run ticks fn s = Done () s' \<and> timers_are s' pending' \<and>
    dues 0 pending' = take m (dues 0 pending) @ (sint ticks, fn) #
      map (\<lambda>(d, g). (d + l, g)) (drop m (dues 0 pending)) \<and>
    (\<forall>(d, g)\<in>set (take m (dues 0 pending)). d < sint ticks) \<and> 0 < l \<and>
    l = sint ticks - (if m = 0 then 0 else fst (dues 0 pending ! (m - 1)))"
proof -
  obtain s' where "add_timer run ticks fn s = Done () s'"
    "timers_are s' (insert_timer (sint ticks, fn) pending)"
    using add_timer_list[OF assms] by blast
  moreover have live: "\<forall>x\<in>set pending. live_timer x" using assms(1) by (auto simp: timers_are_iff)
  obtain m l where "dues 0 (insert_timer (sint ticks, fn) pending) =
      take m (dues 0 pending) @ (sint ticks, fn) # map (\<lambda>(d, g). (d + l, g)) (drop m (dues 0 pending))"
    "\<forall>(d, g)\<in>set (take m (dues 0 pending)). d < sint ticks" "0 < l"
    "l = sint ticks - (if m = 0 then 0 else fst (dues 0 pending ! (m - 1)))"
    using dues_insert_timer[OF assms(3) live, of 0 fn] unfolding add_0 by blast
  ultimately show ?thesis by blast
qed

subsection \<open>Examples\<close>

text \<open>One timer, \<open>0x9000\<close>, due in 100 ticks; adding a timer of 50 ticks in front of it moves it to 150.\<close>

definition demo_timers :: kstate where
  "demo_timers = demo_kernel\<lparr>next_timer := Some 0,
     timer_list := (timer_list demo_kernel)(0 := \<lparr>tl_jiffies = 100, tl_fn = 0x9000, tl_next = None\<rparr>)\<rparr>"

lemma demo_timers_are: "timers_are demo_timers [(100, 0x9000)]"
  by (auto simp: timers_are_def demo_timers_def demo_kernel_def timer_contents_def intro!: exI[of _ "[0]"])

theorem add_timer_due_witness:
  "\<exists>s'. add_timer (\<lambda>_ s. s) 50 0x8000 demo_timers = Done () s' \<and>
     (\<exists>pending. timers_are s' pending \<and> dues 0 pending = [(50, 0x8000), (150, 0x9000)])"
proof -
  from add_timer_due[OF demo_timers_are, of 50 "0x8000" "\<lambda>_ s. s"]
  obtain s' p m l where *: "add_timer (\<lambda>_ s. s) 50 0x8000 demo_timers = Done () s'" "timers_are s' p"
      "dues 0 p = take m (dues 0 [(100, 0x9000)]) @ (50, 0x8000) # map (\<lambda>(d, g). (d + l, g)) (drop m (dues 0 [(100, 0x9000)]))"
      "\<forall>(d, g)\<in>set (take m (dues 0 [(100, 0x9000)])). d < (50 :: int)" "l = 50 - (if m = 0 then 0 else fst (dues 0 [(100, 0x9000)] ! (m - 1)))"
    by auto
  then have "m = 0" by (cases m) auto
  then show ?thesis using * by auto
qed

theorem timers_fire_when_due_witness:
  "\<exists>h k. timer_ticks (\<lambda>f s. s\<lparr>hd_timeout := f\<rparr>) 100 demo_timers =
     Some (demo_timers\<lparr>hd_timeout := 0x9000, timer_list := h, next_timer := k\<rparr>)"
proof -
  have "timer_free (\<lambda>f s. s\<lparr>hd_timeout := f\<rparr>)" by (simp add: timer_free_def)
  from timers_fire_when_due[OF this demo_timers_are, of 100] show ?thesis by auto
qed

end
