(* ===== verification/Memory_Frame.thy ===== *)
theory Memory_Frame
  imports Task_State
begin

section \<open>What memory management leaves alone\<close>

text \<open>
  The operations of \<open>Memory\<close> run on any state that extends the state of the memory manager. They
  never touch the extension: for the kernel, the tasks, the clock and everything else of \<open>kstate\<close>.
  \<open>keeps g s r\<close> says that \<open>g\<close> has in the states that \<open>r\<close> leads to the value that it has in \<open>s\<close>.
\<close>

unbundle bit_operations_syntax

definition keeps :: "('s \<Rightarrow> 'b) \<Rightarrow> 's \<Rightarrow> ('s, 'a) outcome \<Rightarrow> bool" where
  "keeps g s r \<longleftrightarrow> (\<forall>a t. r = Done a t \<longrightarrow> g t = g s) \<and> (\<forall>c t. r = Exits c t \<longrightarrow> g t = g s)"

lemma keeps_simps [simp]:
  "keeps g s (Done a t) \<longleftrightarrow> g t = g s" "keeps g s (Exits c t) \<longleftrightarrow> g t = g s"
  "keeps g s (Panics m)" "keeps g s (Undefined m)" "keeps g s Diverges"
  by (auto simp: keeps_def)

lemma keeps_trans: "keeps g t r \<Longrightarrow> g t = g s \<Longrightarrow> keeps g s r"
  by (simp add: keeps_def)

lemma keeps_and_then [intro]:
  assumes "keeps g s m" "\<And>a t. g t = g s \<Longrightarrow> keeps g t (f a t)"
  shows "keeps g s (and_then m f)"
proof (cases m)
  case (Done a t)
  then show ?thesis using assms by (simp add: keeps_trans[of g t])
qed (use assms(1) in simp_all)

lemma keepsD: "keeps g s r \<Longrightarrow> r = Done a t \<Longrightarrow> g t = g s"
  by (simp add: keeps_def)

abbreviation (input) rest :: "'a mm_state_scheme \<Rightarrow> 'a" where
  "rest \<equiv> mm_state.more"

named_theorems rest_rules

lemma rest_steps [simp]:
  "rest (write_long a v s) = rest s" "rest (clear_page p s) = rest s" "rest (copy_page p q s) = rest s"
  "rest (read_swap_page n p s) = rest s" "rest (write_swap_page n p s) = rest s"
  "rest (snd (setbit p n s)) = rest s" "rest (snd (clrbit p n s)) = rest s"
  "rest (swap_free n s) = rest s" "rest (snd (grab_page s)) = rest s"
  by (simp_all add: write_long_def clear_page_def copy_page_def read_swap_page_def write_swap_page_def
      setbit_def clrbit_def swap_free_def grab_page_def Let_def split: option.split)

lemma rest_free_page [rest_rules]: "keeps rest s (free_page p s)"
  by (simp add: free_page_def Let_def)

lemma rest_get_swap_page_from [simp]: "rest (snd (get_swap_page_from n nr s)) = rest s"
proof (induction n arbitrary: nr s)
  case (Suc n)
  obtain w t where c: "clrbit (swap_bitmap s) nr s = (w, t)" by fastforce
  then show ?case using Suc[of "Suc nr" t] rest_steps(7)[of "swap_bitmap s" nr s] by (cases w) simp_all
qed simp

lemma rest_get_swap_page [simp]: "rest (snd (get_swap_page s)) = rest s"
  by (simp add: get_swap_page_def)

lemma rest_try_to_swap_out [rest_rules]: "keeps rest s (try_to_swap_out p s)"
proof -
  obtain n s1 where g: "get_swap_page s = (n, s1)" by fastforce
  then have "rest s1 = rest s" using rest_get_swap_page[of s] by simp
  then show ?thesis
    by (auto simp: try_to_swap_out_def Let_def g intro!: keeps_trans[OF rest_free_page])
qed

lemma rest_swap_out_first: "swap_out_first c s = (c', p, t) \<Longrightarrow> rest t = rest s"
proof (induction c s rule: swap_out_first.induct)
  case (1 c s)
  show ?case using 1(2) by (subst (asm) swap_out_first.simps) (auto dest: 1(1) split: if_splits)
qed

lemma rest_swap_out_next: "swap_out_next c s = (c', p, t) \<Longrightarrow> rest t = rest s"
proof (induction c s rule: swap_out_next.induct)
  case (1 c s)
  let ?s = "s\<lparr>dir_entry := next_dir (dir_entry s)\<rparr>"
  have "rest t = rest ?s"
  proof (cases "\<not> bit (pg_dir ?s (dir_entry ?s)) 0 \<and> 1024 < c")
    case True
    then show ?thesis
      using 1(1)[OF refl refl] 1(2) by (simp add: swap_out_next.simps[of c s] Let_def)
  next
    case False
    then show ?thesis using 1(2) by (auto simp: swap_out_next.simps[of c s] Let_def split: if_splits)
  qed
  then show ?case by simp
qed

lemma rest_swap_out_scan: "keeps rest s (swap_out_scan c p s)"
proof (induction c p s rule: swap_out_scan.induct)
  case (1 c p s)
  let ?s = "s\<lparr>page_entry := page_entry s + 1\<rparr>"
  obtain c' p' s' where n: "(if page_entry ?s \<ge> 1024 then swap_out_next (c - 1) (?s\<lparr>page_entry := 0\<rparr>)
      else (c - 1, Some p, ?s)) = (c', p', s')"
    by (metis prod_cases3)
  have r: "rest s' = rest s"
    using n rest_swap_out_next[of "c - 1" "?s\<lparr>page_entry := 0\<rparr>" c' p' s'] by (auto split: if_splits)
  show ?case
  proof (cases "c > 0 \<and> p' \<noteq> None")
    case False
    then show ?thesis using n r by (subst swap_out_scan.simps) (auto simp: Let_def)
  next
    case True
    then obtain q where q: "p' = Some q" by blast
    let ?t = "try_to_swap_out (q + 4 * of_int (page_entry s')) s'"
    have t: "keeps rest s' ?t" by (rule rest_try_to_swap_out)
    have IH: "keeps rest u (swap_out_scan c' q u)" if "?t = Done False u" for u
      using 1[OF _ refl refl n[symmetric] refl q that refl] True by simp
    have "swap_out_scan c p s = (case ?t of Done True s \<Rightarrow> Done True s
        | Done False s \<Rightarrow> swap_out_scan c' q s | Exits c s \<Rightarrow> Exits c s | Panics m \<Rightarrow> Panics m
        | Undefined m \<Rightarrow> Undefined m | Diverges \<Rightarrow> Diverges)"
      using True n q by (subst swap_out_scan.simps) (simp add: Let_def)
    then show ?thesis using t IH r
      by (cases ?t) (auto split: bool.split intro: keeps_trans)
  qed
qed

lemma rest_swap_out [rest_rules]: "keeps rest s (swap_out s)"
proof -
  obtain c p t where "swap_out_first VM_PAGES s = (c, p, t)" by (metis prod_cases3)
  then show ?thesis using rest_swap_out_scan[of t] rest_swap_out_first
    by (fastforce simp: swap_out_def intro: keeps_trans)
qed

lemma rest_get_free_page_loop:
  assumes "get_free_page_loop s = Some r"
  shows "keeps rest s r"
proof (rule get_free_page_loop.raw_induct[OF _ assms], goal_cases)
  case (1 loop s r)
  obtain p t where g: "grab_page s = (p, t)" by fastforce
  then have t: "rest t = rest s" using rest_steps(9)[of s] by simp
  have sw: "keeps rest t (swap_out t)" by (rule rest_swap_out)
  have IH: "keeps rest s r" if "loop u = Some r" "rest u = rest s" for u
    using 1(1)[OF that(1)] that(2) by (rule keeps_trans)
  show ?case
  proof (cases "HIGH_MEMORY t \<le> p")
    case True
    then show ?thesis using 1(2) g t IH by simp
  next
    case False
    then show ?thesis using 1(2) g t IH sw
      by (cases "p = 0"; cases "swap_out t") (auto split: if_splits)
  qed
qed

lemma rest_get_free_page [rest_rules]: "keeps rest s (get_free_page s)"
  by (auto simp: get_free_page_def split: option.split intro: rest_get_free_page_loop)

lemma rest_oom [rest_rules]: "keeps rest s (oom s)" by (simp add: oom_def)

text \<open>Sequences of operations: each step keeps the rest, whatever state it starts in.\<close>

lemma rest_swap_in [rest_rules]: "keeps rest s (swap_in p s)"
  by (auto simp: swap_in_def Let_def intro!: keeps_and_then rest_rules[THEN keeps_trans])

lemma rest_un_wp_page [rest_rules]: "keeps rest s (un_wp_page p s)"
  by (auto simp: un_wp_page_def Let_def intro!: keeps_and_then rest_rules[THEN keeps_trans])

lemma rest_write_verify [rest_rules]: "keeps rest s (write_verify p s)"
  by (simp add: write_verify_def Let_def rest_un_wp_page)

lemma rest_put_page_flags [rest_rules]: "keeps rest s (put_page_flags f p a s)"
  by (auto simp: put_page_flags_def Let_def intro!: keeps_and_then rest_rules[THEN keeps_trans])

lemma rest_get_empty_page [rest_rules]: "keeps rest s (get_empty_page a s)"
  unfolding get_empty_page_def put_page_def
  by (auto intro!: keeps_and_then rest_rules[THEN keeps_trans])

lemma rest_free_table_entries [rest_rules]: "keeps rest s (free_table_entries n a s)"
proof (induction n arbitrary: a s)
  case (Suc n)
  show ?case
    by (auto simp: Let_def intro!: keeps_and_then rest_rules[THEN keeps_trans] Suc[THEN keeps_trans])
qed simp

lemma rest_free_directories [rest_rules]: "keeps rest s (free_directories n a s)"
  by (induction n arbitrary: a s) (auto intro!: keeps_and_then rest_rules[THEN keeps_trans])

lemma rest_free_page_tables [rest_rules]: "keeps rest s (free_page_tables a n s)"
  by (auto simp: free_page_tables_def intro!: keeps_and_then rest_rules)

lemma rest_copy_table_entries [rest_rules]: "keeps rest s (copy_table_entries n f t s)"
proof (induction n arbitrary: f t s)
  case (Suc n)
  show ?case
    by (auto simp: Let_def intro!: keeps_and_then rest_rules[THEN keeps_trans] Suc[THEN keeps_trans])
qed simp

lemma rest_copy_directories [rest_rules]: "keeps rest s (copy_directories low n f t s)"
proof (induction n arbitrary: low f t s)
  case (Suc n)
  show ?case
    by (auto simp: Let_def intro!: keeps_and_then rest_rules[THEN keeps_trans] Suc[THEN keeps_trans])
qed simp

lemma rest_copy_page_tables [rest_rules]: "keeps rest s (copy_page_tables f t n s)"
  by (simp add: copy_page_tables_def rest_copy_directories)

subsection \<open>The kernel state beyond memory management\<close>

text \<open>Two kernel states with the same \<open>rest\<close> agree on the tasks, the clock, user memory and so on.\<close>

lemma rest_eq_fields:
  assumes "rest s = rest t"
  shows "ts s = ts t" "task s = task t" "current s = current t" "jiffies s = jiffies t"
    "last_pid s = last_pid t" "fs_mem s = fs_mem t" "i_count s = i_count t" "f_count s = f_count t"
    "last_task_used_math s = last_task_used_math t" "startup_time s = startup_time t"
    "jiffies_offset s = jiffies_offset t" "cur s = cur t"
  using assms by (cases s; cases t; simp add: cur_def)+

lemma keeps_fields:
  assumes "keeps rest s r" "r = Done a t"
  shows "ts t = ts s" "task t = task s" "current t = current s" "jiffies t = jiffies s"
    "last_pid t = last_pid s" "fs_mem t = fs_mem s" "i_count t = i_count s" "f_count t = f_count s"
    "last_task_used_math t = last_task_used_math s" "startup_time t = startup_time s"
    "jiffies_offset t = jiffies_offset s" "cur t = cur s"
  using rest_eq_fields[OF keepsD[OF assms]] by simp_all

end
