(* ===== verification/User_Access.thy ===== *)
theory User_Access
  imports Memory_Frame
begin

section \<open>Access to user memory\<close>

text \<open>
  \<^verbatim>\<open>include/asm/segment.h\<close> and \<open>verify_area\<close> of \<^verbatim>\<open>kernel/fork.c\<close>. While a system call runs, \<open>fs\<close> addresses
  the data segment of the caller; its contents are the byte store \<open>fs_mem\<close>, little-endian as the
  processor stores words. The 80386 ignores write protection in supervisor mode, so the kernel
  calls \<open>verify_area\<close> before it writes: that un-shares the pages it is about to write to.
\<close>

unbundle bit_operations_syntax

definition get_fs_byte :: "u32 \<Rightarrow> 'a kstate_scheme \<Rightarrow> u8" where
  "get_fs_byte addr s = fs_mem s addr"

definition get_fs_word :: "u32 \<Rightarrow> 'a kstate_scheme \<Rightarrow> u16" where
  "get_fs_word addr s = ucast (fs_mem s addr) OR push_bit 8 (ucast (fs_mem s (addr + 1)))"

definition get_fs_long :: "u32 \<Rightarrow> 'a kstate_scheme \<Rightarrow> u32" where
  "get_fs_long addr s =
    ucast (fs_mem s addr) OR push_bit 8 (ucast (fs_mem s (addr + 1))) OR
    push_bit 16 (ucast (fs_mem s (addr + 2))) OR push_bit 24 (ucast (fs_mem s (addr + 3)))"

definition put_fs_byte :: "u8 \<Rightarrow> u32 \<Rightarrow> 'a kstate_scheme \<Rightarrow> 'a kstate_scheme" where
  "put_fs_byte val addr s = s\<lparr>fs_mem := (fs_mem s)(addr := val)\<rparr>"

definition put_fs_word :: "u16 \<Rightarrow> u32 \<Rightarrow> 'a kstate_scheme \<Rightarrow> 'a kstate_scheme" where
  "put_fs_word val addr s =
    s\<lparr>fs_mem := (fs_mem s)(addr := ucast val, addr + 1 := ucast (drop_bit 8 val))\<rparr>"

definition put_fs_long :: "u32 \<Rightarrow> u32 \<Rightarrow> 'a kstate_scheme \<Rightarrow> 'a kstate_scheme" where
  "put_fs_long val addr s =
    s\<lparr>fs_mem := (fs_mem s)(addr := ucast val, addr + 1 := ucast (drop_bit 8 val),
                           addr + 2 := ucast (drop_bit 16 val), addr + 3 := ucast (drop_bit 24 val))\<rparr>"

lemma sint_sub_pos: "0 < sint (n :: u32) \<Longrightarrow> sint (n - 4096) = sint n - 4096"
  using sint_add_small[of n "- 4096"] sint_lt[of n] by simp

text \<open>The loop of \<open>verify_area\<close>; \<open>n\<close> is the variable \<open>size\<close>.\<close>

function verify_pages ::
  "u32 \<Rightarrow> u32 \<Rightarrow> 'a mm_state_scheme \<Rightarrow> ('a mm_state_scheme, unit) outcome" where
  "verify_pages start n s =
    (if 0 < sint n
     then and_then (write_verify start s) (\<lambda>_. verify_pages (start + 4096) (n - 4096))
     else Done () s)"
  by auto

termination
  by (relation "measure (\<lambda>(start, n, s). nat (sint n))") (auto simp: sint_sub_pos)

declare verify_pages.simps [simp del]

definition verify_area ::
  "u32 \<Rightarrow> u32 \<Rightarrow> 'a kstate_scheme \<Rightarrow> ('a kstate_scheme, unit) outcome" where
  "verify_area addr n s =
    verify_pages ((addr AND 0xfffff000) + get_base (ldt (cur s) 2)) (n + (addr AND 0xfff)) s"

subsection \<open>What is written is read back\<close>

lemma long_bytes:
  "ucast (ucast v :: u8) OR push_bit 8 (ucast (ucast (drop_bit 8 v) :: u8)) OR
   push_bit 16 (ucast (ucast (drop_bit 16 v) :: u8)) OR push_bit 24 (ucast (ucast (drop_bit 24 v) :: u8)) =
   (v :: u32)" (is "?l = _")
proof (rule bit_word_eqI)
  fix n assume "n < LENGTH(32)"
  then have "n < 8 \<or> 8 \<le> n \<and> n < 16 \<or> 16 \<le> n \<and> n < 24 \<or> 24 \<le> n \<and> n < 32"
    unfolding len_of_numeral_defs by linarith
  then show "bit ?l n = bit v n"
    by (elim disjE; simp add: bit_or_iff bit_push_bit_iff bit_ucast_iff bit_drop_bit_eq) linarith+
qed

text \<open>The four bytes of a word in user memory do not overlap, even at the end of the address space.\<close>

lemma bytes_differ [simp]:
  "(a :: u32) + 1 \<noteq> a" "a \<noteq> a + 1" "a + 2 \<noteq> a" "a \<noteq> a + 2" "a + 3 \<noteq> a" "a \<noteq> a + 3"
  "a + 2 \<noteq> a + 1" "a + 1 \<noteq> a + 2" "a + 3 \<noteq> a + 1" "a + 1 \<noteq> a + 3" "a + 3 \<noteq> a + 2" "a + 2 \<noteq> a + 3"
  by simp_all

lemma get_put_fs_long [simp]: "get_fs_long a (put_fs_long v a s) = v"
  using long_bytes[of v] by (simp add: get_fs_long_def put_fs_long_def)

text \<open>Two words of user memory at a distance of at least 4 either way.\<close>

definition words_apart :: "u32 \<Rightarrow> u32 \<Rightarrow> bool" where
  "words_apart a b \<longleftrightarrow> 4 \<le> a - b \<and> 4 \<le> b - a"

lemma get_put_fs_long_apart:
  assumes "words_apart a b"
  shows "get_fs_long a (put_fs_long v b s) = get_fs_long a s"
proof -
  have ne: "a + i \<noteq> b + j" if "i \<in> {0, 1, 2, 3}" "j \<in> {0, 1, 2, 3}" for i j :: u32
  proof
    assume "a + i = b + j"
    then have "a - b = j - i" "b - a = i - j" by (simp_all add: algebra_simps)
    then show False using assms that unfolding words_apart_def by (auto simp: word_le_nat_alt)
  qed
  show ?thesis
    using ne[of 0 0] ne[of 0 1] ne[of 0 2] ne[of 0 3] ne[of 1 0] ne[of 1 1] ne[of 1 2] ne[of 1 3]
      ne[of 2 0] ne[of 2 1] ne[of 2 2] ne[of 2 3] ne[of 3 0] ne[of 3 1] ne[of 3 2] ne[of 3 3]
    by (simp add: get_fs_long_def put_fs_long_def)
qed

lemma put_fs_sel [simp, frame_rules]:
  "ts (put_fs_long v a s) = ts s" "current (put_fs_long v a s) = current s"
  "ts (put_fs_word w a s) = ts s" "current (put_fs_word w a s) = current s"
  "ts (put_fs_byte b a s) = ts s" "current (put_fs_byte b a s) = current s"
  "task (put_fs_long v a s) = task s" "task (put_fs_word w a s) = task s" "task (put_fs_byte b a s) = task s"
  by (simp_all add: put_fs_long_def put_fs_word_def put_fs_byte_def)

lemma cur_put_fs [simp]:
  "cur (put_fs_long v a s) = cur s" "cur (put_fs_word w a s) = cur s" "cur (put_fs_byte b a s) = cur s"
  by (simp_all add: cur_def)

subsection \<open>Verifying an area changes memory management only\<close>

lemma rest_verify_pages: "keeps rest s (verify_pages start n s)"
proof (induction start n s rule: verify_pages.induct)
  case (1 start n s)
  show ?case
  proof (cases "0 < sint n")
    case True
    then show ?thesis using 1
      by (subst verify_pages.simps) (auto simp: rest_write_verify)
  qed (simp add: verify_pages.simps)
qed

lemma rest_verify_area [rest_rules]: "keeps rest s (verify_area addr n s)"
  by (simp add: verify_area_def rest_verify_pages)

lemmas verify_area_fields [frame_rules] = keeps_fields[OF rest_verify_area]

end
