(* ===== verification/Signals.thy ===== *)
theory Signals
  imports Scheduler User_Access
begin

section \<open>Signals\<close>

text \<open>
  \<^verbatim>\<open>kernel/signal.c\<close> and the signal part of \<open>ret_from_sys_call\<close> in \<^verbatim>\<open>kernel/sys_call.s\<close>. The registers that
  stand on the kernel stack, which \<open>do_signal\<close> changes in place, are the record \<open>frame_regs\<close>; the
  segment registers, which it leaves alone, are left out. \<open>Exits c s\<close> is a call of \<open>do_exit(c)\<close> in \<open>s\<close>.
\<close>

unbundle bit_operations_syntax

subsection \<open>Signal masks and actions\<close>

definition sys_sgetmask :: "'a kstate_scheme \<Rightarrow> int" where
  "sys_sgetmask s = sint (blocked (cur s))"

definition sys_ssetmask :: "u32 \<Rightarrow> 'a kstate_scheme \<Rightarrow> int \<times> 'a kstate_scheme" where
  "sys_ssetmask newmask s =
    (sint (blocked (cur s)),
     upd_cur (\<lambda>t. t\<lparr>blocked := newmask AND NOT (bit1 (SIGKILL - 1)) AND NOT (bit1 (SIGSTOP - 1))\<rparr>) s)"

definition sys_sigpending :: "u32 \<Rightarrow> 'a kstate_scheme \<Rightarrow> ('a kstate_scheme, int) outcome" where
  "sys_sigpending newset s =
    and_then (verify_area newset 4 s)
      (\<lambda>_ s. Done 0 (put_fs_long (blocked (cur s) AND signal (cur s)) newset s))"

text \<open>
  \<open>sys_sigsuspend\<close> changes its arguments \<open>restart\<close> and \<open>old_mask\<close> on the stack, for the case that the
  call is restarted: they are returned with the result.
\<close>

definition sys_sigsuspend ::
  "('a kstate_scheme \<Rightarrow> 'a kstate_scheme) \<Rightarrow> u32 \<Rightarrow> u32 \<Rightarrow> u32 \<Rightarrow> 'a kstate_scheme \<Rightarrow>
   ('a kstate_scheme, int \<times> u32 \<times> u32) outcome" where
  "sys_sigsuspend resume restart old_mask newset s =
    (if restart \<noteq> 0
     then Done (- EINTR, restart, old_mask) (upd_cur (\<lambda>t. t\<lparr>blocked := old_mask\<rparr>) s)
     else
       let old_mask = blocked (cur s)
       in and_then (sys_pause resume (upd_cur (\<lambda>t. t\<lparr>blocked := newset\<rparr>) s))
            (\<lambda>_. Done (- ERESTARTNOINTR, 1, old_mask)))"

text \<open>The 16 bytes of a \<open>struct sigaction\<close> in user memory.\<close>

definition save_old :: "sigaction_t \<Rightarrow> u32 \<Rightarrow> 'a kstate_scheme \<Rightarrow> ('a kstate_scheme, unit) outcome" where
  "save_old sa to s =
    and_then (verify_area to 16 s) (\<lambda>_ s. Done ()
      (put_fs_long (sa_restorer sa) (to + 12) (put_fs_long (sa_flags sa) (to + 8)
        (put_fs_long (sa_mask sa) (to + 4) (put_fs_long (sa_handler sa) to s)))))"

definition get_new :: "u32 \<Rightarrow> 'a kstate_scheme \<Rightarrow> sigaction_t" where
  "get_new from_addr s =
    \<lparr>sa_handler = get_fs_long from_addr s, sa_mask = get_fs_long (from_addr + 4) s,
     sa_flags = get_fs_long (from_addr + 8) s, sa_restorer = get_fs_long (from_addr + 12) s\<rparr>"

definition set_action :: "nat \<Rightarrow> sigaction_t \<Rightarrow> 'a kstate_scheme \<Rightarrow> 'a kstate_scheme" where
  "set_action i sa s = upd_cur (\<lambda>t. t\<lparr>sigaction := (sigaction t)(i := sa)\<rparr>) s"

definition sys_signal :: "int \<Rightarrow> u32 \<Rightarrow> u32 \<Rightarrow> 'a kstate_scheme \<Rightarrow> int \<times> 'a kstate_scheme" where
  "sys_signal signum handler restorer s =
    (if signum < 1 \<or> signum > 32 \<or> signum = int SIGKILL \<or> signum = int SIGSTOP then (- EINVAL, s)
     else
       let tmp = \<lparr>sa_handler = handler, sa_mask = 0, sa_flags = SA_ONESHOT OR SA_NOMASK,
                  sa_restorer = restorer\<rparr>;
           handler = sa_handler (sigaction (cur s) (nat signum - 1))
       in (sint handler, set_action (nat signum - 1) tmp s))"

definition sys_sigaction ::
  "int \<Rightarrow> u32 \<Rightarrow> u32 \<Rightarrow> 'a kstate_scheme \<Rightarrow> ('a kstate_scheme, int) outcome" where
  "sys_sigaction signum action oldaction s =
    (if signum < 1 \<or> signum > 32 \<or> signum = int SIGKILL \<or> signum = int SIGSTOP then Done (- EINVAL) s
     else
       let i = nat signum - 1; tmp = sigaction (cur s) i;
           s = set_action i (get_new action s) s
       in and_then (if oldaction \<noteq> 0 then save_old tmp oldaction s else Done () s) (\<lambda>_ s.
            let sa = sigaction (cur s) i
            in Done 0 (set_action i
                 (if sa_flags sa AND SA_NOMASK \<noteq> 0 then sa\<lparr>sa_mask := 0\<rparr>
                  else sa\<lparr>sa_mask := sa_mask sa OR bit1 i\<rparr>) s)))"

subsection \<open>Delivering a signal\<close>

record frame_regs =
  fr_eax :: u32
  fr_ebx :: u32
  fr_ecx :: u32
  fr_edx :: u32
  fr_orig_eax :: u32
  fr_eip :: u32
  fr_cs :: u16
  fr_eflags :: u32
  fr_esp :: u32
  fr_oldss :: u16

definition core_dump :: "nat \<Rightarrow> bool" where
  "core_dump signr = False"

text \<open>The restart of an interrupted system call: new \<open>eax\<close>, and the address to return to.\<close>

definition restart_call :: "nat \<Rightarrow> sigaction_t \<Rightarrow> frame_regs \<Rightarrow> frame_regs" where
  "restart_call signr sa r =
    (if fr_orig_eax r \<noteq> - 1 \<and> (sint (fr_eax r) = - ERESTARTSYS \<or> sint (fr_eax r) = - ERESTARTNOINTR)
     then if sint (fr_eax r) = - ERESTARTSYS \<and>
             (sa_flags sa AND SA_INTERRUPT \<noteq> 0 \<or> signr < SIGCONT \<or> signr > SIGTTOU)
       then r\<lparr>fr_eax := - 4\<rparr>
       else r\<lparr>fr_eax := fr_orig_eax r, fr_eip := fr_eip r - 2\<rparr>
     else r)"

text \<open>The words that are pushed on the user's stack, the last pushed first.\<close>

definition signal_stack :: "nat \<Rightarrow> sigaction_t \<Rightarrow> u32 \<Rightarrow> frame_regs \<Rightarrow> u32 list" where
  "signal_stack signr sa blk r =
    [sa_restorer sa, of_nat signr] @ (if sa_flags sa AND SA_NOMASK \<noteq> 0 then [] else [blk]) @
    [fr_eax r, fr_ecx r, fr_edx r, fr_eflags r, fr_eip r]"

primrec put_fs_longs :: "u32 list \<Rightarrow> u32 \<Rightarrow> 'a kstate_scheme \<Rightarrow> 'a kstate_scheme" where
  "put_fs_longs [] addr s = s"
| "put_fs_longs (v # vs) addr s = put_fs_longs vs (addr + 4) (put_fs_long v addr s)"

definition stop_current :: "nat \<Rightarrow> 'a kstate_scheme \<Rightarrow> 'a kstate_scheme" where
  "stop_current signr s =
    (let s = upd_cur (\<lambda>t. t\<lparr>state := TASK_STOPPED, exit_code := of_nat signr\<rparr>) s;
         father = p_pptr (cur s)
     in if sa_flags (sigaction (ts s father) (SIGCHLD - 1)) AND SA_NOCLDSTOP = 0
        then upd_task father (\<lambda>t. t\<lparr>signal := signal t OR bit1 (SIGCHLD - 1)\<rparr>) s
        else s)"

definition do_signal ::
  "nat \<Rightarrow> frame_regs \<Rightarrow> 'a kstate_scheme \<Rightarrow> ('a kstate_scheme, int \<times> frame_regs) outcome" where
  "do_signal signr r s =
    (let sa = sigaction (cur s) (signr - 1);
         r = restart_call signr sa r;
         handler = sa_handler sa
     in if handler = 1 then Done (1, r) s
        else if handler = 0
        then if signr = SIGCONT \<or> signr = SIGCHLD then Done (1, r) s
          else if signr = SIGSTOP \<or> signr = SIGTSTP \<or> signr = SIGTTIN \<or> signr = SIGTTOU
          then Done (1, r) (stop_current signr s)
          else if signr \<in> {3, 4, 5, 6, 8, SIGSEGV} \<and> core_dump signr
          then Exits (int signr + 128) s
          else Exits (int signr) s
        else
          let s = (if sa_flags sa AND SA_ONESHOT \<noteq> 0
                   then set_action (signr - 1) (sa\<lparr>sa_handler := 0\<rparr>) s else s);
              old_eip = fr_eip r;
              longs = (if sa_flags sa AND SA_NOMASK \<noteq> 0 then 7 else 8);
              r = r\<lparr>fr_eip := handler, fr_esp := fr_esp r - 4 * longs\<rparr>
          in and_then (verify_area (fr_esp r) (longs * 4) s) (\<lambda>_ s.
               Done (0, r)
                 (upd_cur (\<lambda>t. t\<lparr>blocked := blocked t OR sa_mask sa\<rparr>)
                   (put_fs_longs (signal_stack signr sa (blocked (cur s)) (r\<lparr>fr_eip := old_eip\<rparr>))
                     (fr_esp r) s))))"

text \<open>The lowest signal that is pending and not blocked (\<^verbatim>\<open>bsfl\<close>); \<open>None\<close> if there is none.\<close>

definition next_signal :: "'a kstate_scheme \<Rightarrow> nat option" where
  "next_signal s = find (\<lambda>n. bit (NOT (blocked (cur s)) AND signal (cur s)) (n - 1)) [1..<33]"

text \<open>
  The way back to the user: nothing is delivered to task 0 or on the way back to kernel code; while \<open>do_signal\<close> does not
  build a frame, the task is asked again whether it has to give up the processor (\<open>resume\<close> is what happens until it
  gets it back) and the next signal is looked for.
\<close>

definition ret_from_sys_call ::
  "('a kstate_scheme \<Rightarrow> 'a kstate_scheme) \<Rightarrow> frame_regs \<Rightarrow> 'a kstate_scheme \<Rightarrow> ('a kstate_scheme, frame_regs) outcome" where
  "ret_from_sys_call resume =
    loop (\<lambda>r s.
      if current s = task s ! 0 \<or> fr_cs r \<noteq> 0x0f \<or> fr_oldss r \<noteq> 0x17 then Done (Leave r) s
      else
        case next_signal s of
          None \<Rightarrow> Done (Leave r) s
        | Some signr \<Rightarrow>
            and_then (do_signal signr r (upd_cur (\<lambda>t. t\<lparr>signal := signal t AND NOT (bit1 (signr - 1))\<rparr>) s))
              (\<lambda>(v, r) s.
                if v = 0 then Done (Leave r) s
                else if state (cur s) \<noteq> TASK_RUNNING \<or> counter (cur s) = 0
                then and_then (reschedule resume s) (\<lambda>_. Done (Again r))
                else Done (Again r) s))"

subsection \<open>The frame of a signal handler\<close>

primrec get_fs_longs :: "nat \<Rightarrow> u32 \<Rightarrow> 'a kstate_scheme \<Rightarrow> u32 list" where
  "get_fs_longs 0 addr s = []"
| "get_fs_longs (Suc n) addr s = get_fs_long addr s # get_fs_longs n (addr + 4) s"

lemma get_fs_longs_numeral [simp]:
  "get_fs_longs (numeral k) addr s = get_fs_long addr s # get_fs_longs (pred_numeral k) (addr + 4) s"
  by (simp add: numeral_eq_Suc)

lemma words_apart_behind:
  assumes "0 < k" "k < 2 ^ 29"
  shows "words_apart a (a + 4 * of_nat k)"
proof -
  have 1: "unat (4 * of_nat k :: u32) = 4 * k"
    using assms unat_of_nat[where 'a = 32 and x = "4 * k"] by simp
  have "unat (- (4 * of_nat k) :: u32) = 2 ^ 32 - 4 * k"
    using 1 assms unat_sub_if'[of "0 :: u32" "4 * of_nat k"] by simp
  then show ?thesis using 1 assms
    by (simp add: words_apart_def word_le_nat_alt)
qed

lemma get_fs_long_put_fs_longs:
  "0 < k \<Longrightarrow> k + length vs < 2 ^ 29 \<Longrightarrow>
   get_fs_long a (put_fs_longs vs (a + 4 * of_nat k) s) = get_fs_long a s"
proof (induction vs arbitrary: k s)
  case (Cons v vs)
  have e: "a + 4 * of_nat k + 4 = a + 4 * of_nat (Suc k)" by (simp add: algebra_simps)
  have "words_apart a (a + 4 * of_nat k)" using Cons.prems by (intro words_apart_behind) simp_all
  then show ?case
    using Cons.IH[of "Suc k"] Cons.prems unfolding put_fs_longs.simps e
    by (simp add: get_put_fs_long_apart del: of_nat_Suc)
qed simp

lemma get_put_fs_longs:
  "length vs < 2 ^ 28 \<Longrightarrow> get_fs_longs (length vs) a (put_fs_longs vs a s) = vs"
proof (induction vs arbitrary: a s)
  case (Cons v vs)
  then show ?case using get_fs_long_put_fs_longs[of 1 vs a "put_fs_long v a s"] by simp
qed simp

lemma get_fs_longs_cong: "fs_mem s = fs_mem t \<Longrightarrow> get_fs_longs n a s = get_fs_longs n a t"
  by (induction n arbitrary: a) (simp_all add: get_fs_long_def)

lemma put_fs_longs_sel [simp]:
  "ts (put_fs_longs vs a s) = ts s" "current (put_fs_longs vs a s) = current s"
  "cur (put_fs_longs vs a s) = cur s"
  by (induction vs arbitrary: a s) simp_all

lemma set_action_sel [simp]:
  "cur (set_action i sa s) = (cur s)\<lparr>sigaction := (sigaction (cur s))(i := sa)\<rparr>"
  "fs_mem (set_action i sa s) = fs_mem s"
  by (simp_all add: set_action_def)

lemma restart_call_sel [simp]: "fr_esp (restart_call n sa r) = fr_esp r"
  by (simp add: restart_call_def)

lemma signal_stack_length: "length (signal_stack n sa blk r) = (if sa_flags sa AND SA_NOMASK \<noteq> 0 then 7 else 8)"
  by (simp add: signal_stack_def)

text \<open>
  C8. Delivery to a handler: the process goes on in the handler, with a frame of seven words, or eight
  with the old signal mask, below its stack pointer. From the lowest address up the frame is the restorer, the signal,
  the old mask (unless SA_NOMASK), and then \<open>eax\<close>, \<open>ecx\<close>, \<open>edx\<close>, the flags and the address at which the process was
  interrupted. If a system call was interrupted (\<open>orig_eax\<close> is not -1, \<open>eax\<close> is -ERESTARTSYS or -ERESTARTNOINTR), \<open>eax\<close> is -EINTR there when it
  is -ERESTARTSYS and either SA_INTERRUPT is set or the signal is outside SIGCONT..SIGTTOU; else \<open>eax\<close> is the number of
  the call again and the address is that of the \<^verbatim>\<open>int 0x80\<close>, two bytes back. The signals of \<open>sa_mask\<close> are blocked as
  well, and a one-shot action is back to the default.
\<close>

theorem do_signal_builds_frame:
  fixes s :: "'a kstate_scheme"
  defines "sa \<equiv> \<lambda>n. sigaction (cur s) (n - 1)"
  defines "nomask \<equiv> \<lambda>n. sa_flags (sa n) AND SA_NOMASK \<noteq> 0"
  defines "interrupted \<equiv> \<lambda>r. fr_orig_eax r \<noteq> - 1 \<and> (sint (fr_eax r) = - ERESTARTSYS \<or> sint (fr_eax r) = - ERESTARTNOINTR)"
  defines "fails \<equiv> \<lambda>n r. sint (fr_eax r) = - ERESTARTSYS \<and> (sa_flags (sa n) AND SA_INTERRUPT \<noteq> 0 \<or> n \<notin> {SIGCONT..SIGTTOU})"
  assumes h: "sa_handler (sa n) \<notin> {0, 1}"
    and d: "do_signal n r s = Done (v, r') s'"
  shows "v = 0 \<and> fr_eip r' = sa_handler (sa n) \<and>
    fr_esp r' = fr_esp r - (if nomask n then 28 else 32) \<and>
    get_fs_longs (if nomask n then 7 else 8) (fr_esp r') s' =
      [sa_restorer (sa n), of_nat n] @ (if nomask n then [] else [blocked (cur s)]) @
      [if \<not> interrupted r then fr_eax r else if fails n r then - 4 else fr_orig_eax r,
       fr_ecx r, fr_edx r, fr_eflags r,
       if interrupted r \<and> \<not> fails n r then fr_eip r - 2 else fr_eip r] \<and>
    blocked (cur s') = blocked (cur s) OR sa_mask (sa n) \<and>
    sa_handler (sigaction (cur s') (n - 1)) =
      (if sa_flags (sa n) AND SA_ONESHOT \<noteq> 0 then 0 else sa_handler (sa n))"
proof -
  let ?a = "sa n" and ?r = "restart_call n (sa n) r"
  let ?s = "if sa_flags ?a AND SA_ONESHOT \<noteq> 0 then set_action (n - 1) (?a\<lparr>sa_handler := 0\<rparr>) s else s"
  let ?l = "if sa_flags ?a AND SA_NOMASK \<noteq> 0 then 7 else 8 :: u32"
  let ?esp = "fr_esp r - 4 * ?l" and ?w = "signal_stack n ?a (blocked (cur s)) ?r"
  have e: "do_signal n r s = and_then (verify_area ?esp (?l * 4) ?s) (\<lambda>_ t.
      Done (0, ?r\<lparr>fr_eip := sa_handler ?a, fr_esp := ?esp\<rparr>)
        (upd_cur (\<lambda>t. t\<lparr>blocked := blocked t OR sa_mask ?a\<rparr>)
          (put_fs_longs (signal_stack n ?a (blocked (cur t)) (?r\<lparr>fr_eip := sa_handler ?a, fr_esp := ?esp, fr_eip := fr_eip ?r\<rparr>)) ?esp t)))"
    using h unfolding do_signal_def sa_def Let_def by simp
  then obtain t where t: "verify_area ?esp (?l * 4) ?s = Done () t"
    using d unfolding e and_then_Done_iff by auto
  note f = verify_area_fields[OF t]
  have w: "signal_stack n ?a (blocked (cur t)) (?r\<lparr>fr_eip := sa_handler ?a, fr_esp := ?esp, fr_eip := fr_eip ?r\<rparr>) = ?w"
    by (simp add: signal_stack_def f)
  have r': "v = 0" "r' = ?r\<lparr>fr_eip := sa_handler ?a, fr_esp := ?esp\<rparr>"
      "s' = upd_cur (\<lambda>t. t\<lparr>blocked := blocked t OR sa_mask ?a\<rparr>) (put_fs_longs ?w ?esp t)"
    using d unfolding e t and_then.simps w by (auto simp only: outcome.inject prod.inject)
  have "length ?w < 2 ^ 28" by (simp add: signal_stack_def)
  then have "get_fs_longs (length ?w) ?esp (put_fs_longs ?w ?esp t) = ?w" by (rule get_put_fs_longs)
  then have "get_fs_longs (length ?w) ?esp s' = ?w"
    by (subst get_fs_longs_cong[where t = "put_fs_longs ?w ?esp t"]) (simp_all add: r')
  moreover have "?w = [sa_restorer ?a, of_nat n] @ (if nomask n then [] else [blocked (cur s)]) @
      [if \<not> interrupted r then fr_eax r else if fails n r then - 4 else fr_orig_eax r,
       fr_ecx r, fr_edx r, fr_eflags r, if interrupted r \<and> \<not> fails n r then fr_eip r - 2 else fr_eip r]"
    by (auto simp: signal_stack_def restart_call_def nomask_def interrupted_def fails_def)
  ultimately have "get_fs_longs (if nomask n then 7 else 8) ?esp s' =
      [sa_restorer ?a, of_nat n] @ (if nomask n then [] else [blocked (cur s)]) @
      [if \<not> interrupted r then fr_eax r else if fails n r then - 4 else fr_orig_eax r,
       fr_ecx r, fr_edx r, fr_eflags r, if interrupted r \<and> \<not> fails n r then fr_eip r - 2 else fr_eip r]"
    unfolding signal_stack_length nomask_def by simp
  moreover have esp: "fr_esp r' = ?esp" by (simp add: r')
  ultimately show ?thesis unfolding esp by (intro conjI) (simp_all add: r' f sa_def nomask_def)
qed

subsection \<open>SIGKILL and SIGSTOP\<close>

definition kill_default :: "task_struct \<Rightarrow> bool" where
  "kill_default t \<longleftrightarrow>
     sa_handler (sigaction t (SIGKILL - 1)) = 0 \<and> sa_handler (sigaction t (SIGSTOP - 1)) = 0"

text \<open>
  C9. SIGKILL and SIGSTOP can be neither caught nor ignored: no call of \<open>sys_signal\<close> or \<open>sys_sigaction\<close>,
  and no delivery, changes their default action; so a delivered SIGKILL always ends the process.
\<close>

theorem sigkill_cannot_be_caught:
  fixes s :: "'a kstate_scheme"
  assumes k: "kill_default (cur s)"
  shows "kill_default (cur (snd (sys_signal signum handler restorer s))) \<and>
    (sys_sigaction signum action oldaction s = Done v s' \<longrightarrow> kill_default (cur s')) \<and>
    (do_signal n r s = Done x s'' \<longrightarrow> kill_default (cur s'')) \<and>
    do_signal SIGKILL r s = Exits (int SIGKILL) s"
proof (intro conjI impI)
  have set_ok: "kill_default (cur (set_action i sa t))"
    if "kill_default (cur t)" and "i \<noteq> SIGKILL - 1 \<and> i \<noteq> SIGSTOP - 1 \<or> sa_handler sa = 0" for i sa and t :: "'a kstate_scheme"
    using that by (auto simp: kill_default_def)
  have idx: "nat signum - 1 \<noteq> SIGKILL - 1 \<and> nat signum - 1 \<noteq> SIGSTOP - 1"
    if "\<not> (signum < 1 \<or> signum > 32 \<or> signum = int SIGKILL \<or> signum = int SIGSTOP)"
    using that by auto
  show "kill_default (cur (snd (sys_signal signum handler restorer s)))"
    using k idx set_ok[OF k] unfolding sys_signal_def Let_def by (simp del: set_action_sel)
  show "kill_default (cur s')" if sa: "sys_sigaction signum action oldaction s = Done v s'"
  proof (cases "signum < 1 \<or> signum > 32 \<or> signum = int SIGKILL \<or> signum = int SIGSTOP")
    case True
    then show ?thesis using sa k by (auto simp: sys_sigaction_def)
  next
    case False
    let ?i = "nat signum - 1"
    have i: "?i \<noteq> SIGKILL - 1 \<and> ?i \<noteq> SIGSTOP - 1" by (rule idx[OF False])
    let ?t = "set_action ?i (get_new action s) s"
    have save: "cur u' = cur u" if "save_old a p u = Done () u'" for a p and u u' :: "'a kstate_scheme"
      using that by (auto simp: save_old_def and_then_Done_iff dest: verify_area_fields(12))
    let ?m = "if oldaction \<noteq> 0 then save_old (sigaction (cur s) ?i) oldaction ?t else Done () ?t"
    have e: "sys_sigaction signum action oldaction s = and_then ?m (\<lambda>_ s.
        let sa = sigaction (cur s) ?i
            in Done 0 (set_action ?i
                 (if sa_flags sa AND SA_NOMASK \<noteq> 0 then sa\<lparr>sa_mask := 0\<rparr>
                  else sa\<lparr>sa_mask := sa_mask sa OR bit1 ?i\<rparr>) s))"
      unfolding sys_sigaction_def Let_def using False by (simp del: set_action_sel)
    obtain u sa' where m: "?m = Done () u" and u: "s' = set_action ?i sa' u"
      using sa[unfolded e and_then_Done_iff Let_def] by (auto simp del: set_action_sel)
    have "cur u = cur ?t" using m save by (auto simp del: set_action_sel split: if_splits)
    then have "kill_default (cur u)" using set_ok[OF k, of ?i] i by simp
    then show ?thesis unfolding u using set_ok i by blast
  qed
  show "kill_default (cur s'')" if ds: "do_signal n r s = Done x s''"
  proof (cases "sa_handler (sigaction (cur s) (n - 1)) \<in> {0, 1}")
    case True
    have "kill_default (cur (stop_current n s))"
      using k by (simp add: stop_current_def Let_def kill_default_def cur_def)
    then show ?thesis using ds True k by (auto simp: do_signal_def Let_def split: if_splits)
  next
    case False
    let ?sa = "sigaction (cur s) (n - 1)"
    let ?t = "if sa_flags ?sa AND SA_ONESHOT \<noteq> 0 then set_action (n - 1) (?sa\<lparr>sa_handler := 0\<rparr>) s else s"
    have t: "kill_default (cur ?t)" using set_ok[OF k] k by simp
    have "sigaction (cur s'') = sigaction (cur ?t)"
      using ds False
      by (auto simp: do_signal_def Let_def and_then_Done_iff simp del: set_action_sel
          dest!: verify_area_fields(12) split: if_splits)
    then show ?thesis using t by (simp add: kill_default_def)
  qed
  show "do_signal SIGKILL r s = Exits (int SIGKILL) s"
    using k by (simp add: do_signal_def kill_default_def Let_def)
qed

subsection \<open>Examples\<close>

text \<open>Signal 2 with the handler at 0x400, on a machine without page tables: \<open>verify_area\<close> finds nothing to copy.\<close>

definition demo_signal :: kstate where
  "demo_signal = set_action 1 \<lparr>sa_handler = 0x400, sa_mask = 0x80, sa_flags = 0, sa_restorer = 0x500\<rparr>
     demo_kernel"

definition demo_frame :: frame_regs where
  "demo_frame = \<lparr>fr_eax = - 512, fr_ebx = 1, fr_ecx = 2, fr_edx = 3, fr_orig_eax = 7, fr_eip = 0x100, fr_cs = 0xf,
     fr_eflags = 0x202, fr_esp = 0x3000, fr_oldss = 0x17\<rparr>"

lemma write_verify_absent: "pmem s (pde_addr a) = 0 \<Longrightarrow> write_verify a s = Done () s"
  by (simp add: write_verify_def)

lemma verify_area_absent:
  fixes s :: "'a kstate_scheme"
  assumes "\<And>a. pmem s a = 0"
  shows "verify_area addr n s = Done () s"
proof -
  have "verify_pages start m t = Done () t" if "pmem t = pmem s" for start m and t :: "'a kstate_scheme"
    using that
  proof (induction start m t rule: verify_pages.induct)
    case (1 start m t)
    then have "write_verify start t = Done () t" using assms by (simp add: write_verify_absent)
    then show ?case using 1 by (subst verify_pages.simps) simp
  qed
  then show ?thesis by (simp add: verify_area_def)
qed

theorem do_signal_builds_frame_witness:
  "\<exists>r' s'. do_signal 2 demo_frame demo_signal = Done (0, r') s' \<and> fr_eip r' = 0x400 \<and>
     fr_esp r' = 0x2fe0 \<and> get_fs_longs 8 0x2fe0 s' = [0x500, 2, 0, - 4, 2, 3, 0x202, 0x100]"
proof -
  have v: "verify_area a n demo_signal = Done () demo_signal" for a n
    by (rule verify_area_absent) (simp add: demo_signal_def set_action_def demo_kernel_def upd_cur_def upd_task_def)
  have h: "sigaction (cur demo_signal) (2 - 1) =
      \<lparr>sa_handler = 0x400, sa_mask = 0x80, sa_flags = 0, sa_restorer = 0x500\<rparr>"
    "blocked (cur demo_signal) = 0"
    by (simp_all add: demo_signal_def cur_def demo_kernel_def demo_task_def set_action_def)
  obtain r' s' v where d: "do_signal 2 demo_frame demo_signal = Done (v, r') s'"
    by (simp add: do_signal_def h[simplified] v Let_def)
  show ?thesis
    using do_signal_builds_frame[OF _ d] d unfolding h
    by (auto simp: demo_frame_def)
qed

theorem sigkill_cannot_be_caught_witness:
  "do_signal SIGKILL demo_frame demo_kernel = Exits 9 demo_kernel"
proof -
  have "kill_default (cur demo_kernel)"
    by (simp add: kill_default_def cur_def demo_kernel_def demo_task_def)
  from sigkill_cannot_be_caught[OF this, THEN conjunct2, THEN conjunct2, THEN conjunct2, of demo_frame]
  show ?thesis by (simp only: of_nat_numeral)
qed

end
