(* ===== verification/Process_Tree.thy ===== *)
theory Process_Tree
  imports Task_State
begin

section \<open>The process tree\<close>

text \<open>
  The links between task structures: \<open>p_pptr\<close> (parent), \<open>p_cptr\<close> (youngest child), \<open>p_ysptr\<close> and \<open>p_osptr\<close>
  (younger and older sibling). The three operations that change them are the last lines of
  \<open>copy_process\<close> in \<^verbatim>\<open>kernel/fork.c\<close>, and \<open>release\<close> and the loop of \<open>do_exit\<close> in \<^verbatim>\<open>kernel/exit.c\<close>;
  \<open>audit_ptree\<close> there prints a warning for each link that is wrong.
\<close>

unbundle bit_operations_syntax

subsection \<open>The three operations\<close>

text \<open>\<open>copy_process\<close>: \<open>p\<close> becomes the youngest child of the running task.\<close>

definition link_child :: "u32 \<Rightarrow> 'a kstate_scheme \<Rightarrow> 'a kstate_scheme" where
  "link_child p s =
    (let s = upd_task p (\<lambda>t. t\<lparr>p_pptr := current s, p_cptr := 0, p_ysptr := 0, p_osptr := p_cptr (cur s)\<rparr>) s;
         s = (if p_osptr (ts s p) \<noteq> 0
              then upd_task (p_osptr (ts s p)) (\<lambda>t. t\<lparr>p_ysptr := p\<rparr>) s else s)
     in upd_cur (\<lambda>t. t\<lparr>p_cptr := p\<rparr>) s)"

text \<open>\<open>release\<close>: \<open>p\<close> leaves the list of its siblings.\<close>

definition unlink_task :: "u32 \<Rightarrow> 'a kstate_scheme \<Rightarrow> 'a kstate_scheme" where
  "unlink_task p s =
    (let s = (if p_osptr (ts s p) \<noteq> 0
              then upd_task (p_osptr (ts s p)) (\<lambda>t. t\<lparr>p_ysptr := p_ysptr (ts s p)\<rparr>) s else s)
     in if p_ysptr (ts s p) \<noteq> 0
        then upd_task (p_ysptr (ts s p)) (\<lambda>t. t\<lparr>p_osptr := p_osptr (ts s p)\<rparr>) s
        else upd_task (p_pptr (ts s p)) (\<lambda>t. t\<lparr>p_cptr := p_osptr (ts s p)\<rparr>) s)"

subsection \<open>The audit\<close>

datatype audit_warning =
    Bad_Parent_Link | Bad_Child_Link | Bad_Ys_Link | Bad_Os_Link
  | Parent_Self | Child_Self | Ys_Self | Os_Self
  | Older_Sibling_Parent | Older_Sibling_Ys | Younger_Sibling_Parent | Younger_Sibling_Os
  | Child_Parent | Child_Has_Ys

definition bad_task_ptr :: "'a kstate_scheme \<Rightarrow> u32 \<Rightarrow> bool" where
  "bad_task_ptr s p = (if p = 0 then False else p \<notin> set (take NR_TASKS (task s)))"

definition audit_task :: "'a kstate_scheme \<Rightarrow> u32 \<Rightarrow> audit_warning list" where
  "audit_task s p =
    (let t = ts s p in
     (if bad_task_ptr s (p_pptr t) then [Bad_Parent_Link] else []) @
     (if bad_task_ptr s (p_cptr t) then [Bad_Child_Link] else []) @
     (if bad_task_ptr s (p_ysptr t) then [Bad_Ys_Link] else []) @
     (if bad_task_ptr s (p_osptr t) then [Bad_Os_Link] else []) @
     (if p_pptr t = p then [Parent_Self] else []) @
     (if p_cptr t = p then [Child_Self] else []) @
     (if p_ysptr t = p then [Ys_Self] else []) @
     (if p_osptr t = p then [Os_Self] else []) @
     (if p_osptr t \<noteq> 0 then
       (if p_pptr t \<noteq> p_pptr (ts s (p_osptr t)) then [Older_Sibling_Parent] else []) @
       (if p_ysptr (ts s (p_osptr t)) \<noteq> p then [Older_Sibling_Ys] else []) else []) @
     (if p_ysptr t \<noteq> 0 then
       (if p_pptr t \<noteq> p_pptr (ts s (p_ysptr t)) then [Younger_Sibling_Parent] else []) @
       (if p_osptr (ts s (p_ysptr t)) \<noteq> p then [Younger_Sibling_Os] else []) else []) @
     (if p_cptr t \<noteq> 0 then
       (if p_pptr (ts s (p_cptr t)) \<noteq> p then [Child_Parent] else []) @
       (if p_ysptr (ts s (p_cptr t)) \<noteq> 0 then [Child_Has_Ys] else []) else []))"

definition audit_ptree :: "'a kstate_scheme \<Rightarrow> (u32 \<times> audit_warning) list" where
  "audit_ptree s =
    concat (map (\<lambda>i. if task s ! i = 0 then []
                     else map (Pair (pid (ts s (task s ! i)))) (audit_task s (task s ! i))) [1..<NR_TASKS])"

subsection \<open>The tree invariant\<close>

text \<open>
  \<open>sibs h y p qs\<close>: from \<open>p\<close> the older-sibling links run through \<open>qs\<close> and end, and each member of \<open>qs\<close> has
  the one before it (the first: \<open>y\<close>) as its younger sibling.
\<close>

fun sibs :: "(u32 \<Rightarrow> task_struct) \<Rightarrow> u32 \<Rightarrow> u32 \<Rightarrow> u32 list \<Rightarrow> bool" where
  "sibs h y p [] = (p = 0)"
| "sibs h y p (q # qs) = (p = q \<and> q \<noteq> 0 \<and> p_ysptr (h q) = y \<and> sibs h q (p_osptr (h q)) qs)"

definition children :: "'a kstate_scheme \<Rightarrow> u32 \<Rightarrow> u32 set" where
  "children s p = {q \<in> set (live_tasks s). p_pptr (ts s q) = p}"

definition all_tasks :: "'a kstate_scheme \<Rightarrow> u32 set" where
  "all_tasks s = set (task s) - {0}"

text \<open>
  The tree is well formed: every task has another task for its parent, and the child links of each
  task run once through exactly the tasks of which it is the parent.
\<close>

definition tree_ok :: "'a kstate_scheme \<Rightarrow> bool" where
  "tree_ok s \<longleftrightarrow>
     (\<forall>q\<in>set (live_tasks s). p_pptr (ts s q) \<in> all_tasks s \<and> p_pptr (ts s q) \<noteq> q) \<and>
     (\<forall>p\<in>all_tasks s. \<exists>qs. sibs (ts s) 0 (p_cptr (ts s p)) qs \<and> distinct qs \<and> set qs = children s p)"

lemma sibs_cong:
  "(\<And>q. q \<in> set qs \<Longrightarrow> p_ysptr (h q) = p_ysptr (g q) \<and> p_osptr (h q) = p_osptr (g q)) \<Longrightarrow>
   sibs h y p qs = sibs g y p qs"
  by (induction qs arbitrary: y p) auto

lemma sibs_start: "sibs h y p qs \<Longrightarrow> p = (if qs = [] then 0 else hd qs)"
  by (cases qs) auto

lemma sibs_nonzero: "sibs h y p qs \<Longrightarrow> 0 \<notin> set qs"
  by (induction qs arbitrary: y p) auto

text \<open>The list without its first task, or with another younger sibling in front.\<close>

lemma sibs_new_front:
  assumes "sibs h y p qs" "distinct qs"
    "\<And>q. q \<in> set qs \<Longrightarrow> p_osptr (g q) = p_osptr (h q)"
    "\<And>q. q \<in> set (tl qs) \<Longrightarrow> p_ysptr (g q) = p_ysptr (h q)"
    "qs \<noteq> [] \<Longrightarrow> p_ysptr (g (hd qs)) = y'"
  shows "sibs g y' p qs"
proof (cases qs)
  case (Cons q r)
  then show ?thesis
    using assms sibs_cong[of r h g q "p_osptr (h q)"] by auto
qed (use assms in auto)

text \<open>The same by position in the list.\<close>

definition nth0 :: "u32 list \<Rightarrow> nat \<Rightarrow> u32" where
  "nth0 qs i = (if i < length qs then qs ! i else 0)"

lemma nth0_simps [simp]:
  "nth0 [] i = 0" "nth0 (q # qs) 0 = q" "nth0 (q # qs) (Suc i) = nth0 qs i"
  by (simp_all add: nth0_def)

lemma sibs_nth:
  "sibs h y p qs \<longleftrightarrow> p = nth0 qs 0 \<and> 0 \<notin> set qs \<and>
     (\<forall>i<length qs. p_ysptr (h (qs ! i)) = nth0 (y # qs) i \<and> p_osptr (h (qs ! i)) = nth0 qs (Suc i))"
proof (induction qs arbitrary: y p)
  case (Cons q qs)
  show ?case unfolding sibs.simps Cons.IH
    by (auto simp: less_Suc_eq_0_disj all_conj_distrib)
qed auto

lemma live_in_all: "tasks_ok s \<Longrightarrow> set (live_tasks s) \<subseteq> all_tasks s"
  by (auto simp: set_live_tasks all_tasks_def tasks_ok_def)

lemma children_live: "q \<in> children s p \<Longrightarrow> q \<in> set (live_tasks s) \<and> q \<noteq> 0"
  by (auto simp: children_def set_live_tasks)

subsection \<open>The audit finds nothing to complain about\<close>

lemma sibs_member:
  assumes "sibs h 0 p qs" "distinct qs" "q \<in> set qs"
  shows "p_osptr (h q) = 0 \<or>
      p_osptr (h q) \<in> set qs \<and> p_osptr (h q) \<noteq> q \<and> p_ysptr (h (p_osptr (h q))) = q"
    and "p_ysptr (h q) = 0 \<or>
      p_ysptr (h q) \<in> set qs \<and> p_ysptr (h q) \<noteq> q \<and> p_osptr (h (p_ysptr (h q))) = q"
proof -
  obtain i where i: "i < length qs" "q = qs ! i" using assms(3) by (auto simp: in_set_conv_nth)
  note s = assms(1)[unfolded sibs_nth, THEN conjunct2, THEN conjunct2, rule_format]
  show "p_osptr (h q) = 0 \<or>
      p_osptr (h q) \<in> set qs \<and> p_osptr (h q) \<noteq> q \<and> p_ysptr (h (p_osptr (h q))) = q"
    using s[OF i(1)] s[of "Suc i"] i assms(2) by (auto simp: nth0_def nth_eq_iff_index_eq)
  show "p_ysptr (h q) = 0 \<or>
      p_ysptr (h q) \<in> set qs \<and> p_ysptr (h q) \<noteq> q \<and> p_osptr (h (p_ysptr (h q))) = q"
    using s[OF i(1)] s[of "i - 1"] i assms(2)
    by (cases i) (auto simp: nth0_def nth_eq_iff_index_eq)
qed

lemma audit_task_clean:
  assumes ok: "tasks_ok s" and tree: "tree_ok s" and p: "p \<in> set (live_tasks s)"
  shows "audit_task s p = []"
proof -
  have good: "\<not> bad_task_ptr s q" if "q = 0 \<or> q \<in> all_tasks s" for q
    using that ok by (auto simp: bad_task_ptr_def all_tasks_def tasks_ok_def)
  have pp: "p_pptr (ts s p) \<in> all_tasks s" "p_pptr (ts s p) \<noteq> p"
    using tree p by (auto simp: tree_ok_def)
  then obtain qs where qs: "sibs (ts s) 0 (p_cptr (ts s (p_pptr (ts s p)))) qs" "distinct qs"
      "set qs = children s (p_pptr (ts s p))"
    using tree by (auto simp: tree_ok_def)
  have "p \<in> set qs" using p qs(3) by (simp add: children_def)
  note sib = sibs_member[OF qs(1,2) this]
  have in_all: "q \<in> all_tasks s" "p_pptr (ts s q) = r" if "q \<in> children s r" for q r
    using that live_in_all[OF ok] by (auto simp: children_def)
  have "p \<in> all_tasks s" using p live_in_all[OF ok] by blast
  then obtain cs where cs: "sibs (ts s) 0 (p_cptr (ts s p)) cs" "set cs = children s p"
    using tree unfolding tree_ok_def by blast
  have c: "p_cptr (ts s p) = 0 \<or> p_cptr (ts s p) \<in> children s p \<and>
      p_ysptr (ts s (p_cptr (ts s p))) = 0"
    using cs by (cases cs) auto
  have notself: "p \<notin> children s p" using pp(2) by (simp add: children_def)
  have "p \<noteq> 0" using p by (simp add: set_live_tasks)
  let ?o = "p_osptr (ts s p)" and ?y = "p_ysptr (ts s p)" and ?c = "p_cptr (ts s p)"
  have o: "?o = 0 \<or> ?o \<in> all_tasks s \<and> ?o \<noteq> p \<and> p_ysptr (ts s ?o) = p \<and> p_pptr (ts s ?o) = p_pptr (ts s p)"
    using sib(1) qs(3) in_all by metis
  have y: "?y = 0 \<or> ?y \<in> all_tasks s \<and> ?y \<noteq> p \<and> p_osptr (ts s ?y) = p \<and> p_pptr (ts s ?y) = p_pptr (ts s p)"
    using sib(2) qs(3) in_all by metis
  have c': "?c = 0 \<or> ?c \<in> all_tasks s \<and> ?c \<noteq> p \<and> p_pptr (ts s ?c) = p \<and> p_ysptr (ts s ?c) = 0"
    using c notself in_all by metis
  have "\<not> bad_task_ptr s ?o" "\<not> bad_task_ptr s ?y" "\<not> bad_task_ptr s ?c" "\<not> bad_task_ptr s (p_pptr (ts s p))"
    using good o y c' pp(1) by metis+
  moreover have "?o \<noteq> p" "?y \<noteq> p" "?c \<noteq> p" using o y c' \<open>p \<noteq> 0\<close> by auto
  ultimately show ?thesis
    using pp(2) o y c' unfolding audit_task_def Let_def
    by (cases "?o = 0"; cases "?y = 0"; cases "?c = 0"; simp)
qed

text \<open>In a well formed tree, \<open>audit_ptree\<close> prints no warning.\<close>

lemma audit_ptree_silent:
  assumes "tasks_ok s" "tree_ok s"
  shows "audit_ptree s = []"
proof -
  have "audit_task s (task s ! i) = []" if "i \<in> {1..<NR_TASKS}" "task s ! i \<noteq> 0" for i
    using that by (intro audit_task_clean[OF assms]) (auto simp: set_live_tasks)
  then show ?thesis by (auto simp: audit_ptree_def)
qed

text \<open>Only the links matter to the invariant.\<close>

definition links :: "task_struct \<Rightarrow> u32 \<times> u32 \<times> u32 \<times> u32" where
  "links t = (p_pptr t, p_cptr t, p_ysptr t, p_osptr t)"

lemma tree_ok_cong:
  assumes "\<And>p. links (ts s p) = links (ts t p)" "task s = task t"
  shows "tree_ok s = tree_ok t"
proof -
  have l: "p_pptr (ts s p) = p_pptr (ts t p)" "p_cptr (ts s p) = p_cptr (ts t p)"
    "p_ysptr (ts s p) = p_ysptr (ts t p)" "p_osptr (ts s p) = p_osptr (ts t p)" for p
    using assms(1)[of p] by (simp_all add: links_def)
  have "live_tasks s = live_tasks t" by (simp add: live_tasks_def assms(2))
  moreover have "sibs (ts s) y p qs = sibs (ts t) y p qs" for y p qs
    by (rule sibs_cong) (simp add: l)
  ultimately show ?thesis by (simp add: tree_ok_def children_def all_tasks_def l assms(2))
qed

lemma live_tasks_update:
  assumes "length (task s) = NR_TASKS" "1 \<le> i" "i < NR_TASKS"
  shows "set (live_tasks (s\<lparr>task := (task s)[i := p]\<rparr>)) \<subseteq> insert p (set (live_tasks s))"
    and "p \<noteq> 0 \<Longrightarrow> task s ! i = 0 \<Longrightarrow>
      set (live_tasks (s\<lparr>task := (task s)[i := p]\<rparr>)) = insert p (set (live_tasks s))"
  using assms by (auto simp: set_live_tasks nth_list_update)

subsection \<open>A new child\<close>

lemma link_child_keeps_tree:
  assumes ok: "tasks_ok s" and tree: "tree_ok s" and i: "1 \<le> i" "i < NR_TASKS" "task s ! i = 0"
    and p: "p \<noteq> 0" "p \<notin> set (task s)"
  shows "tree_ok (link_child p (s\<lparr>task := (task s)[i := p]\<rparr>))"
proof -
  let ?c = "current s"
  have c: "?c \<in> all_tasks s" using ok by (auto simp: tasks_ok_def all_tasks_def)
  have pc: "p \<noteq> ?c" "p \<notin> all_tasks s" using c p by (auto simp: all_tasks_def)
  obtain cs where cs: "sibs (ts s) 0 (p_cptr (ts s ?c)) cs" "distinct cs" "set cs = children s ?c"
    using tree c unfolding tree_ok_def by blast
  define s' where "s' = link_child p (s\<lparr>task := (task s)[i := p]\<rparr>)"
  have first: "p_cptr (ts s ?c) = 0 \<and> cs = [] \<or> p_cptr (ts s ?c) = hd cs \<and> cs \<noteq> [] \<and> hd cs \<noteq> 0"
    using cs(1) by (cases cs) auto
  have sub: "children s q \<subseteq> all_tasks s" for q
    using live_in_all[OF ok] by (auto simp: children_def)
  have pcs: "p \<notin> set cs" using sub pc(2) cs(3) by blast
  then have hdp: "cs \<noteq> [] \<Longrightarrow> hd cs \<noteq> p" by auto
  have h: "p_pptr (ts s' q) = (if q = p then ?c else p_pptr (ts s q))"
    "p_cptr (ts s' q) = (if q = ?c then p else if q = p then 0 else p_cptr (ts s q))"
    "p_ysptr (ts s' q) = (if q = p then 0 else if cs \<noteq> [] \<and> q = hd cs then p else p_ysptr (ts s q))"
    "p_osptr (ts s' q) = (if q = p then p_cptr (ts s ?c) else p_osptr (ts s q))" for q
    using first pc(1) hdp
    by (cases "cs = []"; simp add: s'_def link_child_def Let_def cur_def)+
  have task': "task s' = (task s)[i := p]" by (simp add: s'_def link_child_def Let_def)
  have live: "set (live_tasks s') = insert p (set (live_tasks s))"
    using live_tasks_update(2)[OF _ i(1,2) p(1) i(3)] ok
    by (simp add: set_live_tasks task' tasks_ok_def)
  have all: "all_tasks s' = insert p (all_tasks s)"
    using ok i p by (auto simp: all_tasks_def task' tasks_ok_def in_set_conv_nth nth_list_update)
      (metis i(3) nth_list_update nth_list_update_neq)+
  have notlive: "p \<notin> set (live_tasks s)" using live_in_all[OF ok] pc(2) by blast
  have kids: "children s' q = (if q = ?c then insert p (children s q) else children s q - {p})" for q
    using notlive by (auto simp: children_def live h(1))
  have "\<exists>qs. sibs (ts s') 0 (p_cptr (ts s' q)) qs \<and> distinct qs \<and> set qs = children s' q"
    if q: "q \<in> all_tasks s'" for q
  proof -
    consider "q = p" | "q = ?c" | "q \<in> all_tasks s" "q \<noteq> ?c" "q \<noteq> p" using q all c by blast
    then show ?thesis
    proof cases
      case 1
      have "children s p = {}" using tree pc(2) by (auto simp: tree_ok_def children_def)
      then show ?thesis using 1 pc(1) by (intro exI[of _ "[]"]) (simp add: h kids)
    next
      case 2
      have "sibs (ts s') p (p_cptr (ts s ?c)) cs"
        using cs(1,2)
      proof (rule sibs_new_front)
        fix q assume "q \<in> set cs"
        then show "p_osptr (ts s' q) = p_osptr (ts s q)" using pcs by (auto simp: h)
      next
        fix q assume "q \<in> set (tl cs)"
        then show "p_ysptr (ts s' q) = p_ysptr (ts s q)" using pcs cs(2) by (cases cs) (auto simp: h)
      next
        assume "cs \<noteq> []"
        then show "p_ysptr (ts s' (hd cs)) = p" using hdp by (simp add: h)
      qed
      then show ?thesis using 2 p(1) pc(1) pcs cs(2,3)
        by (intro exI[of _ "p # cs"]) (simp add: h kids)
    next
      case 3
      obtain qs where qs: "sibs (ts s) 0 (p_cptr (ts s q)) qs" "distinct qs" "set qs = children s q"
        using tree 3(1) unfolding tree_ok_def by blast
      have "x \<noteq> p \<and> (cs \<noteq> [] \<longrightarrow> x \<noteq> hd cs)" if "x \<in> set qs" for x
      proof -
        have "x \<in> children s q" using that qs(3) by simp
        moreover have "hd cs \<in> children s ?c" if "cs \<noteq> []" using list.set_sel(1)[OF that] cs(3) by simp
        moreover have "p \<notin> children s q" using sub pc(2) by blast
        ultimately show ?thesis using 3(2) unfolding children_def by auto
      qed
      then have "sibs (ts s') 0 (p_cptr (ts s q)) qs"
        using qs(1) by (subst sibs_cong[where g = "ts s"]) (auto simp: h)
      moreover have "p \<notin> children s q" using sub pc(2) by blast
      ultimately show ?thesis using 3 qs by (intro exI[of _ qs]) (simp add: h kids)
    qed
  qed
  moreover have "p_pptr (ts s' q) \<in> all_tasks s' \<and> p_pptr (ts s' q) \<noteq> q" if "q \<in> set (live_tasks s')" for q
    using that tree c pc(1) by (auto simp: live all h tree_ok_def)
  ultimately show ?thesis unfolding s'_def[symmetric] by (simp add: tree_ok_def)
qed

subsection \<open>A task leaves the tree\<close>

text \<open>Taking \<open>p\<close> out of a list of siblings.\<close>

lemma sibs_remove_front:
  assumes s: "sibs h y c (p # bs)" and d: "distinct (p # bs)"
    and g: "\<And>q. q \<in> set bs \<Longrightarrow> p_osptr (g q) = p_osptr (h q)"
      "\<And>q. q \<in> set bs \<Longrightarrow> p_ysptr (g q) = (if q = p_osptr (h p) then y' else p_ysptr (h q))"
  shows "sibs g y' (p_osptr (h p)) bs"
proof (cases bs)
  case (Cons b r)
  have b: "p_osptr (h p) = b" "b \<noteq> 0" "sibs h b (p_osptr (h b)) r" using s Cons by auto
  have "b \<notin> set r" using d Cons by simp
  then have "sibs g b (p_osptr (h b)) r"
    using b(1,3) g Cons by (subst sibs_cong[where g = h]) auto
  then show ?thesis using b g[of b] Cons by simp
qed (use s in simp)

lemma sibs_remove:
  assumes s: "sibs h y c (as @ p # bs)" and d: "distinct (as @ p # bs)" and ne: "as \<noteq> []"
    and g: "\<And>q. q \<in> set as \<union> set bs \<Longrightarrow>
        p_osptr (g q) = (if q = last as then p_osptr (h p) else p_osptr (h q))"
      "\<And>q. q \<in> set as \<union> set bs \<Longrightarrow>
        p_ysptr (g q) = (if q = p_osptr (h p) then last as else p_ysptr (h q))"
  shows "sibs g y c (as @ bs)"
  using assms
proof (induction as arbitrary: y c)
  case (Cons a as)
  have ac: "c = a" "a \<noteq> 0" "p_ysptr (h a) = y" "sibs h a (p_osptr (h a)) (as @ p # bs)"
    using Cons.prems(1) by auto
  have da: "a \<noteq> p" "a \<notin> set bs" "a \<notin> set as" "distinct (p # bs)" "p \<notin> set as" using Cons.prems(2) by auto
  have nz: "a \<noteq> p_osptr (h p)"
  proof -
    have "p_osptr (h p) = nth0 bs 0"
      using Cons.prems(1) unfolding sibs_nth
      by (auto simp: nth_append nth0_def dest: spec[of _ "Suc (length as)"])
    then show ?thesis using da(2) ac(2) by (auto simp: nth0_def)
  qed
  have ya: "p_ysptr (g a) = y" using Cons.prems(5)[of a] nz ac(3) by simp
  show ?case
  proof (cases "as = []")
    case True
    have "sibs g a (p_osptr (h p)) bs"
      using ac(4) True da(4) Cons.prems(4,5) da(2) by (intro sibs_remove_front[of h a _ p bs]) auto
    then show ?thesis using ac da True ya Cons.prems(4)[of a] by simp
  next
    case False
    have "last as \<noteq> a" using False da(3) by auto
    then have "sibs g a (p_osptr (h a)) (as @ bs)"
      using Cons.IH[OF ac(4) _ False] Cons.prems(2,4,5) False by auto
    then show ?thesis using ac ya Cons.prems(4)[of a] \<open>last as \<noteq> a\<close> False by simp
  qed
qed simp


lemma unlink_keeps_tree:
  assumes ok: "tasks_ok s" and tree: "tree_ok s" and i: "1 \<le> i" "i < NR_TASKS" "task s ! i = p"
    and p: "p \<noteq> 0" "p_cptr (ts s p) = 0"
  shows "tree_ok (unlink_task p (s\<lparr>task := (task s)[i := 0]\<rparr>))"
proof -
  let ?par = "p_pptr (ts s p)"
  have pl: "p \<in> set (live_tasks s)" using i p by (auto simp: set_live_tasks)
  have par: "?par \<in> all_tasks s" "?par \<noteq> p" using tree pl by (auto simp: tree_ok_def)
  obtain qs where qs: "sibs (ts s) 0 (p_cptr (ts s ?par)) qs" "distinct qs" "set qs = children s ?par"
    using tree par unfolding tree_ok_def by blast
  have "p \<in> set qs" using pl qs(3) by (simp add: children_def)
  then obtain as bs where ab: "qs = as @ p # bs" by (meson split_list)
  have nos: "children s p = {}"
  proof -
    have "p \<in> all_tasks s" using pl live_in_all[OF ok] by blast
    then obtain r where "sibs (ts s) 0 0 r" "set r = children s p"
      using tree p(2) unfolding tree_ok_def by metis
    then show ?thesis by (cases r) auto
  qed
  have idx: "(\<forall>j<length qs. p_ysptr (ts s (qs ! j)) = nth0 (0 # qs) j \<and> p_osptr (ts s (qs ! j)) = nth0 qs (Suc j))"
    and nz: "0 \<notin> set qs"
    using qs(1) unfolding sibs_nth by blast+
  have yp: "p_ysptr (ts s p) = (if as = [] then 0 else last as)"
    using idx[rule_format, of "length as"] unfolding ab
    by (cases as rule: rev_cases) (simp_all add: nth0_def nth_append)
  have op: "p_osptr (ts s p) = nth0 bs 0"
    using idx[rule_format, of "length as"] unfolding ab by (simp add: nth0_def nth_append)
  have opn: "p_osptr (ts s p) \<noteq> p" "p_osptr (ts s p) = 0 \<or> p_osptr (ts s p) \<in> set bs"
    "p_osptr (ts s p) \<noteq> p_ysptr (ts s p) \<or> p_osptr (ts s p) = 0"
    using op qs(2) nz p(1) yp unfolding ab by (cases bs; auto simp: nth0_def split: if_splits)+
  have ypn: "p_ysptr (ts s p) \<noteq> p" using yp qs(2) p(1) unfolding ab by auto
  define s' where "s' = unlink_task p (s\<lparr>task := (task s)[i := 0]\<rparr>)"
  have lastn: "as \<noteq> [] \<Longrightarrow> last as \<noteq> 0" using nz unfolding ab by (metis Un_iff last_in_set set_append)
  have h: "p_pptr (ts s' q) = p_pptr (ts s q)"
    "p_cptr (ts s' q) = (if q = ?par \<and> as = [] then p_osptr (ts s p) else p_cptr (ts s q))"
    "q \<noteq> 0 \<Longrightarrow> p_ysptr (ts s' q) = (if q = p_osptr (ts s p) then p_ysptr (ts s p) else p_ysptr (ts s q))"
    "p_osptr (ts s' q) = (if as \<noteq> [] \<and> q = last as then p_osptr (ts s p) else p_osptr (ts s q))" for q
    using opn(1) ypn lastn yp
    by (cases "as = []"; cases "p_osptr (ts s p) = 0"; simp add: s'_def unlink_task_def Let_def)+
  have task': "task s' = (task s)[i := 0]" by (simp add: s'_def unlink_task_def Let_def)
  have at: "task s' ! j = (if j = i then 0 else task s ! j)" if "j < NR_TASKS" for j
    using that ok i by (simp add: task' tasks_ok_def nth_list_update)
  have inj: "j = i" if "j < NR_TASKS" "task s ! j = p" for j
    using live_tasks_inj[OF ok that(1) i(2)] that i(3) p(1) by simp
  have live: "set (live_tasks s') = set (live_tasks s) - {p}"
    using at inj i(3) by (fastforce simp: set_live_tasks split: if_splits)
  have all: "all_tasks s' = all_tasks s - {p}"
  proof -
    have "length (task s) = NR_TASKS" "length (task s') = NR_TASKS" using ok by (simp_all add: task' tasks_ok_def)
    then show ?thesis
      using at inj i(3) by (fastforce simp: all_tasks_def in_set_conv_nth split: if_splits)
  qed
  have kids: "children s' q = children s q - {p}" for q
    by (auto simp: children_def live h(1))
  have hy: "p_ysptr (ts s' q) = (if q = p_osptr (ts s p) then p_ysptr (ts s p) else p_ysptr (ts s q))"
    if "q \<in> set as \<union> set bs" for q
  proof (rule h(3))
    show "q \<noteq> 0" using that nz unfolding ab by auto
  qed
  have sp: "p_pptr (ts s x) = ?par" if "x \<in> set qs" for x using that qs(3) by (simp add: children_def)
  have "\<exists>rs. sibs (ts s') 0 (p_cptr (ts s' q)) rs \<and> distinct rs \<and> set rs = children s' q"
    if q: "q \<in> all_tasks s'" for q
  proof (cases "q = ?par")
    case True
    have "sibs (ts s') 0 (p_cptr (ts s' ?par)) (as @ bs)"
    proof (cases "as = []")
      case True
      have "sibs (ts s') 0 (p_osptr (ts s p)) bs"
      proof (rule sibs_remove_front[of "ts s" 0 "p_cptr (ts s ?par)" p])
        show "sibs (ts s) 0 (p_cptr (ts s ?par)) (p # bs)" "distinct (p # bs)"
          using qs(1,2) True unfolding ab by simp_all
        fix q assume "q \<in> set bs"
        then show "p_ysptr (ts s' q) = (if q = p_osptr (ts s p) then 0 else p_ysptr (ts s q))"
          using hy[of q] yp True by simp
      qed (simp add: h(4) True)
      then show ?thesis using True by (simp add: h(2))
    next
      case False
      have "sibs (ts s') 0 (p_cptr (ts s ?par)) (as @ bs)"
      proof (rule sibs_remove[of "ts s" 0 "p_cptr (ts s ?par)" as p])
        show "sibs (ts s) 0 (p_cptr (ts s ?par)) (as @ p # bs)" "distinct (as @ p # bs)"
          using qs(1,2) unfolding ab by simp_all
        fix q assume "q \<in> set as \<union> set bs"
        then show "p_ysptr (ts s' q) = (if q = p_osptr (ts s p) then last as else p_ysptr (ts s q))"
          using hy[of q] yp False by simp
      qed (simp_all add: h(4) False)
      then show ?thesis using False by (simp add: h(2))
    qed
    moreover have "distinct (as @ bs)" "set (as @ bs) = children s' ?par"
      using qs(2) qs(3)[symmetric] unfolding ab kids by auto
    ultimately show ?thesis using True by blast
  next
    case False
    have "q \<in> all_tasks s" using q all by blast
    then obtain rs where rs: "sibs (ts s) 0 (p_cptr (ts s q)) rs" "distinct rs" "set rs = children s q"
      using tree unfolding tree_ok_def by blast
    have no: "x \<noteq> 0 \<and> x \<notin> set qs" if "x \<in> set rs" for x
      using that rs(3) sp[of x] False sibs_nonzero[OF rs(1)] by (auto simp: children_def)
    have "p_osptr (ts s p) = 0 \<or> p_osptr (ts s p) \<in> set qs" "as \<noteq> [] \<Longrightarrow> last as \<in> set qs"
      using opn(2) unfolding ab by auto
    then have "sibs (ts s') 0 (p_cptr (ts s q)) rs"
      using rs(1) no by (subst sibs_cong[where g = "ts s"]) (auto simp: h)
    moreover have "p \<notin> children s q" using False by (simp add: children_def)
    then have "children s' q = children s q" unfolding kids by simp
    ultimately show ?thesis using rs False by (intro exI[of _ rs]) (simp add: h(2))
  qed
  moreover have "p_pptr (ts s' q) \<in> all_tasks s' \<and> p_pptr (ts s' q) \<noteq> q" if "q \<in> set (live_tasks s')" for q
    using that tree nos by (auto simp: live all h(1) tree_ok_def children_def)
  ultimately show ?thesis unfolding s'_def[symmetric] by (simp add: tree_ok_def)
qed

end
