(* ===== verification/Process_Exit.thy ===== *)
theory Process_Exit
  imports Signals Process_Tree
begin

section \<open>Sending signals, ending and waiting for processes\<close>

text \<open>
  \<^verbatim>\<open>kernel/exit.c\<close>. The loops over \<^verbatim>\<open>task[]\<close> in \<open>session_of_pgrp\<close>, \<open>kill_pg\<close>, \<open>kill_proc\<close>, \<open>sys_kill\<close> and
  \<open>has_stopped_jobs\<close> do not test for empty slots: they read through the NULL pointer of such a slot,
  so \<open>ts s 0\<close>, and so does the model. \<open>do_exit\<close> calls the file system: closing a file and giving back
  an inode are its arguments \<open>close_fd\<close> and \<open>iput\<close>.
\<close>

unbundle bit_operations_syntax

subsection \<open>Sending a signal\<close>

definition post_signal :: "nat \<Rightarrow> u32 \<Rightarrow> 'a kstate_scheme \<Rightarrow> 'a kstate_scheme" where
  "post_signal sig p s =
    (let s = (if sig = SIGKILL \<or> sig = SIGCONT
              then upd_task p (\<lambda>t. t\<lparr>state := (if state t = TASK_STOPPED then TASK_RUNNING else state t),
                     exit_code := 0,
                     signal := signal t AND NOT (bit1 (SIGSTOP - 1) OR bit1 (SIGTSTP - 1) OR
                                                 bit1 (SIGTTIN - 1) OR bit1 (SIGTTOU - 1))\<rparr>) s
              else s)
     in if sa_handler (sigaction (ts s p) (sig - 1)) = 1 then s
        else
          let s = (if SIGSTOP \<le> sig \<and> sig \<le> SIGTTOU
                   then upd_task p (\<lambda>t. t\<lparr>signal := signal t AND NOT (bit1 (SIGCONT - 1))\<rparr>) s else s)
          in upd_task p (\<lambda>t. t\<lparr>signal := signal t OR bit1 (sig - 1)\<rparr>) s)"

text \<open>A number that is no signal makes the code read outside the array \<open>sigaction\<close>.\<close>

definition send_sig :: "int \<Rightarrow> u32 \<Rightarrow> bool \<Rightarrow> 'a kstate_scheme \<Rightarrow> ('a kstate_scheme, int) outcome" where
  "send_sig sig p priv s =
    (if p = 0 then Done (- EINVAL) s
     else if \<not> priv \<and> euid (cur s) \<noteq> euid (ts s p) \<and> \<not> suser s then Done (- EPERM) s
     else if sig < 1 \<or> sig > 32 then Undefined ''sigaction[sig-1]''
     else Done 0 (post_signal (nat sig) p s))"

definition session_of_pgrp :: "u32 \<Rightarrow> 'a kstate_scheme \<Rightarrow> int" where
  "session_of_pgrp grp s =
    (case find (\<lambda>i. pgrp (ts s (task s ! i)) = grp) slot_order of
       Some i \<Rightarrow> sint (session (ts s (task s ! i)))
     | None \<Rightarrow> - 1)"

definition kill_pg_step ::
  "u32 \<Rightarrow> int \<Rightarrow> bool \<Rightarrow> nat \<Rightarrow> int \<times> nat \<Rightarrow> 'a kstate_scheme \<Rightarrow> ('a kstate_scheme, int \<times> nat) outcome" where
  "kill_pg_step grp sig priv i v s =
    (case v of (retval, found) \<Rightarrow>
       if pgrp (ts s (task s ! i)) = grp
       then and_then (send_sig sig (task s ! i) priv s) (\<lambda>err.
              Done (if err \<noteq> 0 then (err, found) else (retval, found + 1)))
       else Done (retval, found) s)"

definition kill_pg :: "u32 \<Rightarrow> int \<Rightarrow> bool \<Rightarrow> 'a kstate_scheme \<Rightarrow> ('a kstate_scheme, int) outcome" where
  "kill_pg grp sig priv s =
    (if sig < 1 \<or> sig > 32 \<or> sint grp \<le> 0 then Done (- EINVAL) s
     else and_then (fold_outcome (kill_pg_step grp sig priv) slot_order (- ESRCH, 0) s)
            (\<lambda>(retval, found). Done (if found \<noteq> 0 then 0 else retval)))"

definition kill_proc :: "u32 \<Rightarrow> int \<Rightarrow> bool \<Rightarrow> 'a kstate_scheme \<Rightarrow> ('a kstate_scheme, int) outcome" where
  "kill_proc proc sig priv s =
    (if sig < 1 \<or> sig > 32 then Done (- EINVAL) s
     else case find (\<lambda>i. pid (ts s (task s ! i)) = proc) slot_order of
       Some i \<Rightarrow> send_sig sig (task s ! i) priv s
     | None \<Rightarrow> Done (- ESRCH) s)"

definition sys_kill :: "u32 \<Rightarrow> int \<Rightarrow> 'a kstate_scheme \<Rightarrow> ('a kstate_scheme, int) outcome" where
  "sys_kill proc sig s =
    (if proc = 0 then kill_pg (pid (cur s)) sig False s
     else if proc = - 1
     then fold_outcome (\<lambda>i retval s. and_then (send_sig sig (task s ! i) False s) (\<lambda>err.
            Done (if err \<noteq> 0 then err else retval))) slot_order 0 s
     else if sint proc < 0 then kill_pg (- proc) sig False s
     else kill_proc proc sig False s)"

subsection \<open>Orphaned process groups\<close>

definition is_orphaned_pgrp :: "u32 \<Rightarrow> 'a kstate_scheme \<Rightarrow> bool" where
  "is_orphaned_pgrp grp s \<longleftrightarrow>
    (\<forall>i\<in>set slot_order. let p = task s ! i; t = ts s p; father = ts s (p_pptr t) in
       p = 0 \<or> pgrp t \<noteq> grp \<or> state t = TASK_ZOMBIE \<or> pid father = 1 \<or>
       \<not> (pgrp father \<noteq> grp \<and> session father = session t))"

definition has_stopped_jobs :: "u32 \<Rightarrow> 'a kstate_scheme \<Rightarrow> bool" where
  "has_stopped_jobs grp s \<longleftrightarrow>
    (\<exists>i\<in>set slot_order. pgrp (ts s (task s ! i)) = grp \<and> state (ts s (task s ! i)) = TASK_STOPPED)"

text \<open>SIGHUP and SIGCONT for a process group that is orphaned and has stopped jobs.\<close>

definition hup_if_orphaned ::
  "bool \<Rightarrow> u32 \<Rightarrow> 'a kstate_scheme \<Rightarrow> ('a kstate_scheme, unit) outcome" where
  "hup_if_orphaned outside grp s =
    (if outside \<and> is_orphaned_pgrp grp s \<and> has_stopped_jobs grp s
     then and_then (kill_pg grp (int SIGHUP) True s) (\<lambda>_ s.
          and_then (kill_pg grp (int SIGCONT) True s) (\<lambda>_. Done ()))
     else Done () s)"

subsection \<open>Ending a process\<close>

text \<open>\<open>release\<close>; the last argument of the result is left out, it sleeps in \<open>schedule\<close>.\<close>

definition release ::
  "('a kstate_scheme \<Rightarrow> 'a kstate_scheme) \<Rightarrow> u32 \<Rightarrow> 'a kstate_scheme \<Rightarrow> ('a kstate_scheme, unit) outcome" where
  "release resume p s =
    (if p = 0 \<or> p = current s then Done () s
     else case find (\<lambda>i. task s ! i = p) [1..<NR_TASKS] of
       None \<Rightarrow> Panics ''trying to release non-existent task''
     | Some i \<Rightarrow>
         and_then (free_page p (unlink_task p (s\<lparr>task := (task s)[i := 0]\<rparr>))) (\<lambda>_. reschedule resume))"

text \<open>
  The loop over the children of the exiting process: they become children of \<^verbatim>\<open>task[1]\<close>. The pointer
  of its first child is followed without a test.
\<close>

definition adopt_one :: "u32 \<Rightarrow> 'a kstate_scheme \<Rightarrow> 'a kstate_scheme" where
  "adopt_one p s =
    (let init = task s ! 1;
         s = upd_task p (\<lambda>t. t\<lparr>p_pptr := init\<rparr>) s
     in if state (ts s p) = TASK_ZOMBIE
        then upd_task init (\<lambda>t. t\<lparr>signal := signal t OR bit1 (SIGCHLD - 1)\<rparr>) s else s)"

definition adopt_last :: "u32 \<Rightarrow> 'a kstate_scheme \<Rightarrow> 'a kstate_scheme" where
  "adopt_last p s =
    (let init = task s ! 1;
         s = upd_task p (\<lambda>t. t\<lparr>p_osptr := p_cptr (ts s init)\<rparr>) s;
         s = upd_task (p_cptr (ts s init)) (\<lambda>t. t\<lparr>p_ysptr := p\<rparr>) s;
         s = upd_task init (\<lambda>t. t\<lparr>p_cptr := p_cptr (cur s)\<rparr>) s
     in upd_cur (\<lambda>t. t\<lparr>p_cptr := 0\<rparr>) s)"

partial_function (option) adopt_children ::
  "u32 \<Rightarrow> 'a kstate_scheme \<Rightarrow> ('a kstate_scheme, unit) outcome option" where
  "adopt_children p s =
    (let s = adopt_one p s
     in case hup_if_orphaned (pgrp (ts s p) \<noteq> pgrp (cur s) \<and> session (ts s p) = session (cur s))
               (pgrp (ts s p)) s of
          Done _ s \<Rightarrow>
            if p_osptr (ts s p) \<noteq> 0 then adopt_children (p_osptr (ts s p)) s
            else Some (Done () (adopt_last p s))
        | Exits c s \<Rightarrow> Some (Exits c s)
        | Panics m \<Rightarrow> Some (Panics m)
        | Undefined m \<Rightarrow> Some (Undefined m)
        | Diverges \<Rightarrow> Some Diverges)"

text \<open>\<^verbatim>\<open>TTY_TABLE\<close>: the index in \<^verbatim>\<open>tty_table\<close> of a terminal number; 0 is the console in front.\<close>

definition TTY_TABLE :: "nat \<Rightarrow> 'a kstate_scheme \<Rightarrow> nat" where
  "TTY_TABLE nr s = (if nr \<noteq> 0 then if nr < 64 then nr - 1 else nr else fg_console s)"

definition leave_session :: "'a kstate_scheme \<Rightarrow> ('a kstate_scheme, unit) outcome" where
  "leave_session s =
    (if leader (cur s) = 0 then Done () s
     else
       and_then
        (if 0 \<le> sint (tty (cur s))
         then
           let n = TTY_TABLE (unat (tty (cur s))) s in
           and_then (if 0 < sint (tty_pgrp s n) then kill_pg (tty_pgrp s n) (int SIGHUP) True s
                     else Done 0 s)
             (\<lambda>_ s. Done () (s\<lparr>tty_pgrp := (tty_pgrp s)(n := 0), tty_session := (tty_session s)(n := 0)\<rparr>))
         else Done () s)
        (\<lambda>_ s. Done ()
           (fold (\<lambda>i s. if session (ts s (task s ! i)) = session (cur s)
                        then upd_task (task s ! i) (\<lambda>t. t\<lparr>tty := - 1\<rparr>) s else s) slot_order s)))"

text \<open>Everything of \<open>do_exit\<close> before the audit and the final call of \<open>schedule\<close>.\<close>

definition exit_teardown ::
  "(nat \<Rightarrow> 'a kstate_scheme \<Rightarrow> ('a kstate_scheme, unit) outcome) \<Rightarrow>
   (u32 \<Rightarrow> 'a kstate_scheme \<Rightarrow> ('a kstate_scheme, unit) outcome) \<Rightarrow> int \<Rightarrow>
   'a kstate_scheme \<Rightarrow> ('a kstate_scheme, unit) outcome" where
  "exit_teardown close_fd iput code s =
    and_then (free_page_tables (get_base (ldt (cur s) 1)) (get_limit (ldt (cur s) 1)) s) (\<lambda>_ s.
    and_then (free_page_tables (get_base (ldt (cur s) 2)) (get_limit (ldt (cur s) 2)) s) (\<lambda>_ s.
    and_then (fold_outcome (\<lambda>i _ s. if filp (cur s) i \<noteq> 0 then close_fd i s else Done () s)
                [0..<NR_OPEN] () s) (\<lambda>_ s.
    and_then (iput (pwd (cur s)) s) (\<lambda>_ s. let s = upd_cur (\<lambda>t. t\<lparr>pwd := 0\<rparr>) s in
    and_then (iput (root (cur s)) s) (\<lambda>_ s. let s = upd_cur (\<lambda>t. t\<lparr>root := 0\<rparr>) s in
    and_then (iput (executable (cur s)) s) (\<lambda>_ s. let s = upd_cur (\<lambda>t. t\<lparr>executable := 0\<rparr>) s in
    and_then (iput (library (cur s)) s) (\<lambda>_ s. let s = upd_cur (\<lambda>t. t\<lparr>library := 0\<rparr>) s in
    Done () (upd_cur (\<lambda>t. t\<lparr>state := TASK_ZOMBIE, exit_code := of_int code\<rparr>) s))))))))"

definition exit_family :: "'a kstate_scheme \<Rightarrow> ('a kstate_scheme, unit) outcome" where
  "exit_family s =
    and_then
     (hup_if_orphaned
       (pgrp (ts s (p_pptr (cur s))) \<noteq> pgrp (cur s) \<and> session (ts s (p_pptr (cur s))) = session (cur s))
       (pgrp (cur s)) s) (\<lambda>_ s.
    let s = upd_task (p_pptr (cur s)) (\<lambda>t. t\<lparr>signal := signal t OR bit1 (SIGCHLD - 1)\<rparr>) s in
    and_then
     (if p_cptr (cur s) \<noteq> 0
      then (case adopt_children (p_cptr (cur s)) s of None \<Rightarrow> Diverges | Some r \<Rightarrow> r)
      else Done () s) (\<lambda>_ s.
    and_then (leave_session s) (\<lambda>_ s.
    Done () (if last_task_used_math s = current s then s\<lparr>last_task_used_math := 0\<rparr> else s))))"

definition do_exit ::
  "(nat \<Rightarrow> 'a kstate_scheme \<Rightarrow> ('a kstate_scheme, unit) outcome) \<Rightarrow>
   (u32 \<Rightarrow> 'a kstate_scheme \<Rightarrow> ('a kstate_scheme, unit) outcome) \<Rightarrow> int \<Rightarrow>
   'a kstate_scheme \<Rightarrow> ('a kstate_scheme, unit) outcome" where
  "do_exit close_fd iput code s =
    and_then (exit_teardown close_fd iput code s) (\<lambda>_ s.
    and_then (exit_family s) (\<lambda>_. reschedule id))"

definition sys_exit ::
  "(nat \<Rightarrow> 'a kstate_scheme \<Rightarrow> ('a kstate_scheme, unit) outcome) \<Rightarrow>
   (u32 \<Rightarrow> 'a kstate_scheme \<Rightarrow> ('a kstate_scheme, unit) outcome) \<Rightarrow> u32 \<Rightarrow>
   'a kstate_scheme \<Rightarrow> ('a kstate_scheme, unit) outcome" where
  "sys_exit close_fd iput error_code =
    do_exit close_fd iput (uint (push_bit 8 (error_code AND 0xff)))"

subsection \<open>Waiting for a child\<close>

abbreviation (input) WNOHANG :: u32 where "WNOHANG \<equiv> 1"
abbreviation (input) WUNTRACED :: u32 where "WUNTRACED \<equiv> 2"

definition wait_matches :: "u32 \<Rightarrow> u32 \<Rightarrow> task_struct \<Rightarrow> bool" where
  "wait_matches proc my_pgrp t \<longleftrightarrow>
     (if 0 < sint proc then pid t = proc
      else if proc = 0 then pgrp t = my_pgrp
      else if proc \<noteq> - 1 then pgrp t = - proc
      else True)"

datatype wait_found = Found_Stopped u32 | Found_Zombie u32 | Found_None bool

text \<open>The scan of the children from \<open>p\<close> on; \<open>flag\<close> says whether one that matches is still running.\<close>

partial_function (option) wait_scan ::
  "u32 \<Rightarrow> u32 \<Rightarrow> bool \<Rightarrow> u32 \<Rightarrow> 'a kstate_scheme \<Rightarrow> wait_found option" where
  "wait_scan proc options flag p s =
    (if p = 0 then Some (Found_None flag)
     else
       let t = ts s p in
       if \<not> wait_matches proc (pgrp (cur s)) t then wait_scan proc options flag (p_osptr t) s
       else if state t = TASK_STOPPED
       then if options AND WUNTRACED = 0 \<or> exit_code t = 0 then wait_scan proc options flag (p_osptr t) s
            else Some (Found_Stopped p)
       else if state t = TASK_ZOMBIE then Some (Found_Zombie p)
       else wait_scan proc options True (p_osptr t) s)"

text \<open>
  \<open>waitpid_loop\<close> is the code from \<^verbatim>\<open>repeat:\<close> on. \<open>None\<close> is a loop that never ends: a list of siblings that
  runs in a circle, or a wait that nothing ever ends.
\<close>

partial_function (option) waitpid_loop ::
  "('a kstate_scheme \<Rightarrow> 'a kstate_scheme) \<Rightarrow> u32 \<Rightarrow> u32 \<Rightarrow> u32 \<Rightarrow> 'a kstate_scheme \<Rightarrow>
   ('a kstate_scheme, int) outcome option" where
  "waitpid_loop resume proc stat_addr options s =
    (case wait_scan proc options False (p_cptr (cur s)) s of
       None \<Rightarrow> None
     | Some (Found_Stopped p) \<Rightarrow>
         (let s = put_fs_long (push_bit 8 (exit_code (ts s p)) OR 0x7f) stat_addr s;
              s = upd_task p (\<lambda>t. t\<lparr>exit_code := 0\<rparr>) s
          in Some (Done (sint (pid (ts s p))) s))
     | Some (Found_Zombie p) \<Rightarrow>
         (let s = upd_cur (\<lambda>t. t\<lparr>cutime := cutime t + utime (ts s p), cstime := cstime t + stime (ts s p)\<rparr>) s;
              flag = sint (pid (ts s p));
              s = put_fs_long (exit_code (ts s p)) stat_addr s
          in Some (and_then (release resume p s) (\<lambda>_. Done flag)))
     | Some (Found_None flag) \<Rightarrow>
         if \<not> flag then Some (Done (- ECHILD) s)
         else if options AND WNOHANG \<noteq> 0 then Some (Done 0 s)
         else
          (let oldblocked = blocked (cur s);
               s = upd_cur (\<lambda>t. t\<lparr>state := TASK_INTERRUPTIBLE,
                                  blocked := blocked t AND NOT (bit1 (SIGCHLD - 1))\<rparr>) s
           in case schedule s of
                None \<Rightarrow> None
              | Some s \<Rightarrow>
                  (let s = upd_cur (\<lambda>t. t\<lparr>blocked := oldblocked\<rparr>) (resume s)
                   in if signal (cur s) AND NOT (blocked (cur s) OR bit1 (SIGCHLD - 1)) \<noteq> 0
                      then Some (Done (- ERESTARTSYS) s)
                      else waitpid_loop resume proc stat_addr options s)))"

definition sys_waitpid ::
  "('a kstate_scheme \<Rightarrow> 'a kstate_scheme) \<Rightarrow> u32 \<Rightarrow> u32 \<Rightarrow> u32 \<Rightarrow> 'a kstate_scheme \<Rightarrow>
   ('a kstate_scheme, int) outcome" where
  "sys_waitpid resume proc stat_addr options s =
    and_then (verify_area stat_addr 4 s) (\<lambda>_ s.
      case waitpid_loop resume proc stat_addr options s of None \<Rightarrow> Diverges | Some r \<Rightarrow> r)"

subsection \<open>Permissions\<close>

lemma post_signal_sel [simp, frame_rules]:
  "task (post_signal sig p s) = task s" "current (post_signal sig p s) = current s"
  "q \<noteq> p \<Longrightarrow> ts (post_signal sig p s) q = ts s q"
  "euid (ts (post_signal sig p s) q) = euid (ts s q)"
  "links (ts (post_signal sig p s) q) = links (ts s q)"
  "pid (ts (post_signal sig p s) q) = pid (ts s q)"
  by (simp_all add: post_signal_def Let_def links_def)

text \<open>The tasks of other users are as in \<open>s\<close>.\<close>

definition others_untouched :: "'a kstate_scheme \<Rightarrow> 'a kstate_scheme \<Rightarrow> bool" where
  "others_untouched s u \<longleftrightarrow> task u = task s \<and> current u = current s \<and>
     (\<forall>p. euid (ts u p) = euid (ts s p)) \<and> (\<forall>p. euid (ts s p) \<noteq> euid (cur s) \<longrightarrow> ts u p = ts s p)"

lemma send_sig_others:
  assumes "send_sig sig p False u = Done r u'" "\<not> suser s" "others_untouched s u"
  shows "others_untouched s u'"
proof (cases "u' = u")
  case False
  then have e: "euid (cur u) = euid (ts u p) \<or> suser u" and u': "u' = post_signal (nat sig) p u"
    using assms(1) by (auto simp: send_sig_def split: if_splits)
  have "euid (ts s p) = euid (cur s)"
    using e assms(2,3) by (auto simp: others_untouched_def suser_def cur_def)
  then show ?thesis
    using assms(3) unfolding others_untouched_def u' by (metis post_signal_sel(1-4))
qed (use assms in simp)

lemma kill_pg_others:
  assumes "kill_pg grp sig False s = Done r s'" "\<not> suser s"
  shows "others_untouched s s'"
proof (cases "s' = s")
  case False
  then obtain v where "fold_outcome (kill_pg_step grp sig False) slot_order (- ESRCH, 0) s = Done v s'"
    using assms(1) by (auto simp: kill_pg_def and_then_Done_iff split: if_splits)
  then show ?thesis
  proof (rule fold_outcome_invariant)
    show "others_untouched s s" by (simp add: others_untouched_def)
    show "others_untouched s t'"
      if "kill_pg_step grp sig False i b t = Done b' t'" "others_untouched s t" for i b t b' t'
      using that send_sig_others[OF _ assms(2) that(2)]
      by (auto simp: kill_pg_step_def and_then_Done_iff split: if_splits prod.splits)
  qed
qed (simp add: others_untouched_def)

text \<open>
  C2. Permissions: whatever process, group or -1 it names and whatever the signal, \<open>sys_kill\<close> by a
  process that is not the super-user leaves every task with another effective user id as it was.
\<close>

theorem kill_respects_other_users:
  assumes "sys_kill proc sig s = Done r s'" "\<not> suser s" "euid (ts s p) \<noteq> euid (cur s)"
  shows "ts s' p = ts s p"
proof -
  have refl: "others_untouched s s" by (simp add: others_untouched_def)
  consider "proc = 0 \<or> proc \<noteq> - 1 \<and> sint proc < 0" | "proc = - 1" | "proc \<noteq> 0" "proc \<noteq> - 1" "\<not> sint proc < 0"
    by blast
  then have "others_untouched s s'"
  proof cases
    case 1
    then show ?thesis using assms(1,2) by (auto simp: sys_kill_def split: if_splits intro: kill_pg_others)
  next
    case 2
    then have "fold_outcome (\<lambda>i retval s. and_then (send_sig sig (task s ! i) False s) (\<lambda>err.
            Done (if err \<noteq> 0 then err else retval))) slot_order 0 s = Done r s'"
      using assms(1) by (simp add: sys_kill_def)
    then show ?thesis
      by (rule fold_outcome_invariant)
        (auto simp: refl and_then_Done_iff intro: send_sig_others[OF _ assms(2)])
  next
    case 3
    then show ?thesis using assms(1) refl
      by (auto simp: sys_kill_def kill_proc_def split: if_splits option.splits
          intro: send_sig_others[OF _ assms(2)])
  qed
  then show ?thesis using assms(3) by (simp add: others_untouched_def)
qed

text \<open>User 1000 signals its own task 0x3000; a task of user 0 cannot be reached.\<close>

definition demo_users :: kstate where
  "demo_users = demo_kernel\<lparr>ts := (\<lambda>p. if p = 0x1000 then demo_task\<lparr>pid := 0\<rparr>
     else if p = 0x3000 then demo_task\<lparr>pid := 2, euid := 1000\<rparr> else demo_task\<lparr>euid := 1000\<rparr>)\<rparr>"

theorem kill_respects_other_users_witness:
  "\<exists>s'. sys_kill 2 15 demo_users = Done 0 s' \<and> ts s' 0x1000 = ts demo_users 0x1000"
proof -
  have "find (\<lambda>i. pid (ts demo_users (task demo_users ! i)) = 2) slot_order = Some 2"
    unfolding slot_order_list by (simp add: demo_users_def demo_kernel_def demo_task_def)
  then have "\<exists>s'. sys_kill 2 15 demo_users = Done 0 s'"
    by (simp add: sys_kill_def kill_proc_def send_sig_def demo_users_def demo_kernel_def demo_task_def cur_def)
  moreover have "\<not> suser demo_users" "euid (ts demo_users 0x1000) \<noteq> euid (cur demo_users)"
    by (simp_all add: suser_def cur_def demo_users_def demo_kernel_def demo_task_def)
  ultimately show ?thesis using kill_respects_other_users by blast
qed

subsection \<open>The process tree when a process ends\<close>

text \<open>Signals change no links, no table and no \<open>current\<close>.\<close>

definition same_tree :: "'a kstate_scheme \<Rightarrow> 'a kstate_scheme \<Rightarrow> bool" where
  "same_tree s t \<longleftrightarrow> task t = task s \<and> current t = current s \<and>
     (\<forall>p. links (ts t p) = links (ts s p))"

lemma same_tree_refl [simp]: "same_tree s s" by (simp add: same_tree_def)

lemma same_tree_trans: "same_tree s t \<Longrightarrow> same_tree t u \<Longrightarrow> same_tree s u"
  by (simp add: same_tree_def)

lemma same_tree_upd:
  "(\<And>t. links (f t) = links t) \<Longrightarrow> same_tree s (upd_task p f s)"
  "(\<And>t. links (f t) = links t) \<Longrightarrow> same_tree s (upd_cur f s)"
  by (simp_all add: same_tree_def cur_def)

lemma same_tree_ok: "same_tree s t \<Longrightarrow> tree_ok t = tree_ok s" "same_tree s t \<Longrightarrow> tasks_ok t = tasks_ok s"
  by (auto simp: same_tree_def tasks_ok_def intro!: tree_ok_cong)

lemma same_tree_fields:
  assumes "same_tree s t"
  shows "p_pptr (ts t p) = p_pptr (ts s p)" "p_cptr (ts t p) = p_cptr (ts s p)"
    "p_ysptr (ts t p) = p_ysptr (ts s p)" "p_osptr (ts t p) = p_osptr (ts s p)"
    "task t = task s" "current t = current s" "p_cptr (cur t) = p_cptr (cur s)"
  using assms by (simp_all add: same_tree_def links_def cur_def)

text \<open>With a signal number in range, \<open>kill_pg\<close> always returns, and changes no link.\<close>

lemma send_sig_ok:
  "1 \<le> sig \<Longrightarrow> sig \<le> 32 \<Longrightarrow> \<exists>r s'. send_sig sig p priv s = Done r s' \<and> same_tree s s'"
  by (auto simp: send_sig_def same_tree_def)

lemma fold_outcome_total:
  assumes "\<And>x b s. x \<in> set xs \<Longrightarrow> \<exists>b' s'. f x b s = Done b' s' \<and> R s s'"
    "\<And>s. R s s" "\<And>s t u. R s t \<Longrightarrow> R t u \<Longrightarrow> R s u"
  shows "\<exists>b' s'. fold_outcome f xs b s = Done b' s' \<and> R s s'"
  using assms(1)
proof (induction xs arbitrary: b s)
  case (Cons x xs)
  obtain b1 s1 where 1: "f x b s = Done b1 s1" "R s s1" using Cons.prems[of x] by fastforce
  obtain b2 s2 where 2: "fold_outcome f xs b1 s1 = Done b2 s2" "R s1 s2"
    using Cons.IH[of b1 s1] Cons.prems by fastforce
  show ?case using 1 2 assms(3)[OF 1(2) 2(2)] by simp
qed (use assms(2) in simp)

lemma kill_pg_ok:
  assumes "1 \<le> sig" "sig \<le> 32"
  shows "\<exists>r s'. kill_pg grp sig priv s = Done r s' \<and> same_tree s s'"
proof -
  have "\<exists>b' u'. kill_pg_step grp sig priv i b u = Done b' u' \<and> same_tree u u'" for i b u
    using send_sig_ok[OF assms, of "task u ! i" priv u] by (auto simp: kill_pg_step_def split: prod.splits)
  then obtain b' s' where "fold_outcome (kill_pg_step grp sig priv) slot_order (- ESRCH, 0) s = Done b' s'"
      "same_tree s s'"
    using fold_outcome_total[of slot_order "kill_pg_step grp sig priv" same_tree "(- ESRCH, 0)" s] same_tree_trans
    by fastforce
  then show ?thesis by (cases b') (auto simp: kill_pg_def)
qed

lemma hup_if_orphaned_ok: "\<exists>s'. hup_if_orphaned outside grp s = Done () s' \<and> same_tree s s'"
proof -
  obtain r1 s1 where 1: "kill_pg grp (int SIGHUP) True s = Done r1 s1" "same_tree s s1"
    using kill_pg_ok[of "int SIGHUP" grp True s] by auto
  obtain r2 s2 where 2: "kill_pg grp (int SIGCONT) True s1 = Done r2 s2" "same_tree s1 s2"
    using kill_pg_ok[of "int SIGCONT" grp True s1] by auto
  show ?thesis using 1 2 same_tree_trans[OF 1(2) 2(2)] by (simp add: hup_if_orphaned_def)
qed

lemma leave_session_ok: "\<exists>s'. leave_session s = Done () s' \<and> same_tree s s'"
proof -
  let ?f = "\<lambda>i s. if session (ts s (task s ! i)) = session (cur s)
      then upd_task (task s ! i) (\<lambda>t. t\<lparr>tty := - 1\<rparr>) s else s"
  have f: "same_tree u (fold ?f xs u)" for xs and u :: "'a kstate_scheme"
  proof (induction xs arbitrary: u)
    case (Cons x xs)
    have "same_tree u (?f x u)" using same_tree_upd(1)[of "\<lambda>t. t\<lparr>tty := - 1\<rparr>" u] by (simp add: links_def)
    then show ?case using Cons[of "?f x u"] same_tree_trans by auto
  qed simp
  let ?n = "TTY_TABLE (unat (tty (cur s))) s"
  obtain r s1 where 1: "(if 0 < sint (tty_pgrp s ?n) then kill_pg (tty_pgrp s ?n) (int SIGHUP) True s
      else Done 0 s) = Done r s1" "same_tree s s1"
    using kill_pg_ok[of "int SIGHUP" "tty_pgrp s ?n" True s]
    by (cases "0 < sint (tty_pgrp s ?n)") auto
  let ?t = "s1\<lparr>tty_pgrp := (tty_pgrp s1)(?n := 0), tty_session := (tty_session s1)(?n := 0)\<rparr>"
  have "same_tree s1 ?t" by (simp add: same_tree_def)
  note t = same_tree_trans[OF 1(2) this]
  show ?thesis
    using same_tree_trans[OF t f[of _ slot_order]] f[of s slot_order] 1
    by (auto simp: leave_session_def Let_def)
qed

text \<open>Joining two lists of siblings.\<close>

lemma sibs_join:
  assumes "sibs h y p qs" "qs \<noteq> []" "sibs h 0 r rs" "rs \<noteq> []" "distinct (qs @ rs)"
    and "\<And>q. q \<in> set qs \<union> set rs \<Longrightarrow> p_osptr (g q) = (if q = last qs then r else p_osptr (h q))"
    and "\<And>q. q \<in> set qs \<union> set rs \<Longrightarrow> p_ysptr (g q) = (if q = r then last qs else p_ysptr (h q))"
  shows "sibs g y p (qs @ rs)"
  using assms
proof (induction qs arbitrary: y p)
  case (Cons a qs)
  have r: "r = hd rs" "r \<in> set rs" using Cons.prems(3,4) by (cases rs; auto)+
  have a: "p = a" "a \<noteq> 0" "p_ysptr (h a) = y" "sibs h a (p_osptr (h a)) qs" "a \<noteq> r" "a \<notin> set rs"
    using Cons.prems(1,5) r(2) by auto
  have ya: "p_ysptr (g a) = y" using Cons.prems(7)[of a] a by simp
  show ?case
  proof (cases "qs = []")
    case True
    have "sibs g a r rs"
    proof (rule sibs_new_front[OF Cons.prems(3)])
      show "distinct rs" using Cons.prems(5) by simp
      show "p_osptr (g q) = p_osptr (h q)" if "q \<in> set rs" for q
        using Cons.prems(6)[of q] that True a(6) by auto
      show "p_ysptr (g q) = p_ysptr (h q)" if "q \<in> set (tl rs)" for q
        using Cons.prems(7)[of q] that r(1) Cons.prems(4,5) by (cases rs) auto
      show "p_ysptr (g (hd rs)) = a" using Cons.prems(7)[of r] r True by simp
    qed
    then show ?thesis using a ya Cons.prems(6)[of a] True by simp
  next
    case False
    have l: "last qs \<noteq> a" using False Cons.prems(5) by auto
    have "sibs g a (p_osptr (h a)) (qs @ rs)"
      using Cons.IH[OF a(4) False Cons.prems(3,4)] Cons.prems(5-7) False by auto
    then show ?thesis using a ya Cons.prems(6)[of a] l False by simp
  qed
qed simp

lemma adopt_one_sel:
  "task (adopt_one p s) = task s" "current (adopt_one p s) = current s"
  "p_pptr (ts (adopt_one p s) q) = (if q = p then task s ! 1 else p_pptr (ts s q))"
  "p_cptr (ts (adopt_one p s) q) = p_cptr (ts s q)"
  "p_ysptr (ts (adopt_one p s) q) = p_ysptr (ts s q)"
  "p_osptr (ts (adopt_one p s) q) = p_osptr (ts s q)"
  by (simp_all add: adopt_one_def Let_def)

text \<open>The loop over the children \<open>qs\<close> ends, and has this effect on the links.\<close>

lemma adopt_children_links:
  assumes "sibs (ts s) y p qs" "qs \<noteq> []" "distinct qs"
    and "current s \<noteq> task s ! 1" "current s \<notin> set qs" "task s ! 1 \<notin> set qs"
    and "p_cptr (ts s (task s ! 1)) = r" "r \<notin> set qs" "last qs \<noteq> task s ! 1"
  shows "\<exists>s'. adopt_children p s = Some (Done () s') \<and> task s' = task s \<and> current s' = current s \<and>
    (\<forall>q. p_pptr (ts s' q) = (if q \<in> set qs then task s ! 1 else p_pptr (ts s q)) \<and>
      p_cptr (ts s' q) = (if q = current s then 0
        else if q = task s ! 1 then p_cptr (ts s (current s)) else p_cptr (ts s q)) \<and>
      p_ysptr (ts s' q) = (if q = r then last qs else p_ysptr (ts s q)) \<and>
      p_osptr (ts s' q) = (if q = last qs then r else p_osptr (ts s q)))"
  using assms
proof (induction qs arbitrary: y p s)
  case (Cons x qs)
  have x: "x = p" "p \<noteq> 0" "sibs (ts s) p (p_osptr (ts s p)) qs" using Cons.prems(1) by auto
  let ?s1 = "adopt_one p s"
  obtain s2 where h: "hup_if_orphaned (pgrp (ts ?s1 p) \<noteq> pgrp (cur ?s1) \<and> session (ts ?s1 p) = session (cur ?s1))
      (pgrp (ts ?s1 p)) ?s1 = Done () s2" and st: "same_tree ?s1 s2"
    using hup_if_orphaned_ok by blast
  note f = same_tree_fields[OF st] adopt_one_sel
  have step: "adopt_children p s = (if p_osptr (ts s p) \<noteq> 0 then adopt_children (p_osptr (ts s p)) s2
      else Some (Done () (adopt_last p s2)))"
    by (subst adopt_children.simps) (simp add: Let_def h f)
  show ?case
  proof (cases "qs = []")
    case True
    then have "p_osptr (ts s p) = 0" using x(3) by simp
    moreover have "r \<noteq> p" "p \<noteq> current s" "p \<noteq> task s ! 1" using Cons.prems(5,6,8) x(1) by auto
    ultimately show ?thesis
      unfolding step using True x(1) Cons.prems(4,7)
      by (auto simp: adopt_last_def Let_def f cur_def)
  next
    case False
    then have "p_osptr (ts s p) \<noteq> 0" using x(3) by (cases qs) auto
    moreover have sb: "sibs (ts s2) p (p_osptr (ts s p)) qs"
      using x(3) by (subst sibs_cong[where g = "ts s"]) (simp_all add: f)
    have "\<exists>s'. adopt_children (p_osptr (ts s p)) s2 = Some (Done () s') \<and> task s' = task s2 \<and>
      current s' = current s2 \<and>
      (\<forall>q. p_pptr (ts s' q) = (if q \<in> set qs then task s2 ! 1 else p_pptr (ts s2 q)) \<and>
        p_cptr (ts s' q) = (if q = current s2 then 0
          else if q = task s2 ! 1 then p_cptr (ts s2 (current s2)) else p_cptr (ts s2 q)) \<and>
        p_ysptr (ts s' q) = (if q = r then last qs else p_ysptr (ts s2 q)) \<and>
        p_osptr (ts s' q) = (if q = last qs then r else p_osptr (ts s2 q)))"
      by (rule Cons.IH[OF sb False]) (use Cons.prems(3-9) False in \<open>simp_all add: f\<close>)
    then obtain s' where s': "adopt_children (p_osptr (ts s p)) s2 = Some (Done () s')" "task s' = task s2"
      "current s' = current s2"
      "p_pptr (ts s' q) = (if q \<in> set qs then task s2 ! 1 else p_pptr (ts s2 q))"
      "p_cptr (ts s' q) = (if q = current s2 then 0
          else if q = task s2 ! 1 then p_cptr (ts s2 (current s2)) else p_cptr (ts s2 q))"
      "p_ysptr (ts s' q) = (if q = r then last qs else p_ysptr (ts s2 q))"
      "p_osptr (ts s' q) = (if q = last qs then r else p_osptr (ts s2 q))" for q
      by blast
    ultimately show ?thesis
      unfolding step using x(1) False by (intro exI[of _ s']) (simp add: f)
  qed
qed simp

text \<open>The children of the exiting task \<open>c\<close> are put in front of the children of init.\<close>

lemma tree_after_adoption:
  assumes ok: "tasks_ok s" and tree: "tree_ok s"
    and c: "current s \<in> set (live_tasks s)" "p_pptr (ts s (task s ! 1)) \<noteq> current s"
    and ini: "task s ! 1 \<noteq> 0" "current s \<noteq> task s ! 1" "p_cptr (ts s (task s ! 1)) \<noteq> 0"
    and kids: "sibs (ts s) 0 (p_cptr (ts s (current s))) qs" "distinct qs" "set qs = children s (current s)"
      "qs \<noteq> []"
    and eff: "task s' = task s" "current s' = current s"
      "\<And>q. p_pptr (ts s' q) = (if q \<in> set qs then task s ! 1 else p_pptr (ts s q))"
      "\<And>q. p_cptr (ts s' q) = (if q = current s then 0
          else if q = task s ! 1 then p_cptr (ts s (current s)) else p_cptr (ts s q))"
      "\<And>q. p_ysptr (ts s' q) = (if q = p_cptr (ts s (task s ! 1)) then last qs else p_ysptr (ts s q))"
      "\<And>q. p_osptr (ts s' q) = (if q = last qs then p_cptr (ts s (task s ! 1)) else p_osptr (ts s q))"
  shows "tree_ok s'"
proof -
  let ?c = "current s" and ?i = "task s ! 1"
  let ?r = "p_cptr (ts s ?i)"
  have il: "?i \<in> set (live_tasks s)" using ini(1) by (auto simp: set_live_tasks)
  have ia: "?i \<in> all_tasks s" using live_in_all[OF ok] il by blast
  obtain rs where rs: "sibs (ts s) 0 ?r rs" "distinct rs" "set rs = children s ?i"
    using tree ia unfolding tree_ok_def by blast
  have rne: "rs \<noteq> []" "?r \<in> set rs" using rs(1) ini(3) by (cases rs; auto)+
  have par: "p_pptr (ts s x) = ?c" if "x \<in> set qs" for x using that kids(3) by (simp add: children_def)
  have parr: "p_pptr (ts s x) = ?i" if "x \<in> set rs" for x using that rs(3) by (simp add: children_def)
  have disj: "distinct (qs @ rs)" using kids(2) rs(2) par parr ini(2) by (auto dest: par parr)
  have lq: "last qs \<in> set qs" using kids(4) by simp
  have live: "live_tasks s' = live_tasks s" by (simp add: live_tasks_def eff(1))
  have all: "all_tasks s' = all_tasks s" by (simp add: all_tasks_def eff(1))
  have ch: "children s' q = (if q = ?i then set qs \<union> children s ?i else if q = ?c then {} else children s q)" for q
    using ini(2) kids(3) by (auto simp: children_def live eff(3))
  have "\<exists>xs. sibs (ts s') 0 (p_cptr (ts s' q)) xs \<and> distinct xs \<and> set xs = children s' q"
    if q: "q \<in> all_tasks s" for q
  proof -
    consider "q = ?c" | "q = ?i" | "q \<noteq> ?c" "q \<noteq> ?i" by blast
    then show ?thesis
    proof cases
      case 1
      then show ?thesis using ini(2) by (intro exI[of _ "[]"]) (simp add: eff(4) ch)
    next
      case 2
      have "sibs (ts s') 0 (p_cptr (ts s ?c)) (qs @ rs)"
        by (rule sibs_join[OF kids(1,4) rs(1) rne(1) disj]) (simp_all add: eff)
      then show ?thesis using 2 ini(2) disj rs(3) by (intro exI[of _ "qs @ rs"]) (simp add: eff(4) ch)
    next
      case 3
      obtain xs where xs: "sibs (ts s) 0 (p_cptr (ts s q)) xs" "distinct xs" "set xs = children s q"
        using tree q unfolding tree_ok_def by blast
      have no: "x \<noteq> ?r \<and> x \<noteq> last qs" if "x \<in> set xs" for x
        using that xs(3) 3 par[OF lq] parr[OF rne(2)] by (auto simp: children_def)
      then have "sibs (ts s') 0 (p_cptr (ts s q)) xs"
        using xs(1) by (subst sibs_cong[where g = "ts s"]) (auto simp: eff)
      then show ?thesis using 3 xs by (intro exI[of _ xs]) (simp add: eff(4) ch)
    qed
  qed
  moreover have "p_pptr (ts s' q) \<in> all_tasks s \<and> p_pptr (ts s' q) \<noteq> q" if "q \<in> set (live_tasks s)" for q
    using that tree ia c(2) par by (auto simp: eff(3) tree_ok_def)
  ultimately show ?thesis by (simp add: tree_ok_def live all)
qed

text \<open>
  C5. A process that ends leaves a well formed tree. In a well formed tree where init has a child and is
  not itself a child of the process, the second half of \<open>do_exit\<close> always returns: its loop over the
  children ends. Then the process has no children, its former children are init's, the tree is well
  formed and the audit prints no warning. (If init had no child, the code would write through NULL.)
\<close>

theorem exit_keeps_tree:
  assumes "tasks_ok s" "tree_ok s" "current s \<in> set (live_tasks s)"
    "task s ! 1 \<noteq> 0" "current s \<noteq> task s ! 1" "p_cptr (ts s (task s ! 1)) \<noteq> 0"
    "p_pptr (ts s (task s ! 1)) \<noteq> current s"
  shows "\<exists>s'. exit_family s = Done () s' \<and> tasks_ok s' \<and> tree_ok s' \<and> audit_ptree s' = [] \<and>
    children s' (current s) = {} \<and>
    children s' (task s ! 1) = children s (task s ! 1) \<union> children s (current s)"
proof -
  let ?grp = "pgrp (cur s)" and ?out = "pgrp (ts s (p_pptr (cur s))) \<noteq> pgrp (cur s) \<and>
      session (ts s (p_pptr (cur s))) = session (cur s)"
  obtain s1 where 1: "hup_if_orphaned ?out ?grp s = Done () s1" "same_tree s s1"
    using hup_if_orphaned_ok by blast
  define s2 where "s2 = upd_task (p_pptr (cur s1)) (\<lambda>t. t\<lparr>signal := signal t OR bit1 (SIGCHLD - 1)\<rparr>) s1"
  have st2: "same_tree s s2"
    unfolding s2_def by (rule same_tree_trans[OF 1(2) same_tree_upd(1)]) (simp add: links_def)
  note f = same_tree_fields[OF st2]
  have ok2: "tasks_ok s2" "tree_ok s2" using assms(1,2) same_tree_ok[OF st2] by simp_all
  have ch2: "children s2 q = children s q" "live_tasks s2 = live_tasks s" for q
    by (simp_all add: children_def live_tasks_def f)
  have ca: "current s2 \<in> all_tasks s2" using assms(1,3) live_in_all[OF assms(1)]
    by (auto simp: all_tasks_def f)
  obtain qs where qs: "sibs (ts s2) 0 (p_cptr (ts s2 (current s2))) qs" "distinct qs"
      "set qs = children s2 (current s2)"
    using ok2(2) ca unfolding tree_ok_def by blast
  let ?m = "if p_cptr (cur s2) \<noteq> 0
      then (case adopt_children (p_cptr (cur s2)) s2 of None \<Rightarrow> Diverges | Some r \<Rightarrow> r) else Done () s2"
  have ne: "current s \<noteq> task s ! 1" by (rule assms(5))
  have "\<exists>s3. ?m = Done () s3 \<and> tasks_ok s3 \<and> tree_ok s3 \<and> children s3 (current s) = {} \<and>
      children s3 (task s ! 1) = children s (task s ! 1) \<union> children s (current s)"
  proof (cases "qs = []")
    case True
    then have "?m = Done () s2" "children s (current s) = {}"
      using qs(1,3) ch2(1)[of "current s"] by (simp_all add: cur_def f)
    then show ?thesis using ok2 ch2(1) by (intro exI[of _ s2]) simp
  next
    case False
    have sub: "q \<in> set qs \<Longrightarrow> p_pptr (ts s2 q) = current s2" for q using qs(3) by (simp add: children_def)
    have pp: "p_pptr (ts s2 (current s2)) \<noteq> current s2"
      using ok2(2) assms(3) ch2(2) by (auto simp: tree_ok_def f)
    have a: "current s2 \<notin> set qs" "task s2 ! 1 \<notin> set qs" "current s2 \<noteq> task s2 ! 1"
      using sub pp assms(5,7) by (auto simp: f)
    let ?r = "p_cptr (ts s2 (task s2 ! 1))"
    have ia: "task s2 ! 1 \<in> all_tasks s2"
      using assms(1,4) by (auto simp: all_tasks_def f tasks_ok_def)
    then obtain rs where "sibs (ts s2) 0 ?r rs" "set rs = children s2 (task s2 ! 1)"
      using ok2(2) unfolding tree_ok_def by blast
    then have "?r \<in> children s2 (task s2 ! 1)"
      using assms(6) by (cases rs) (auto simp: f)
    then have r: "?r \<notin> set qs" using sub a(3) by (auto simp: children_def)
    have "last qs \<noteq> task s2 ! 1" using a(2) False by (metis last_in_set)
    from adopt_children_links[OF qs(1) False qs(2) a(3,1,2) refl r this]
    obtain s3 where s3: "adopt_children (p_cptr (cur s2)) s2 = Some (Done () s3)" "task s3 = task s2"
        "current s3 = current s2"
        "p_pptr (ts s3 q) = (if q \<in> set qs then task s2 ! 1 else p_pptr (ts s2 q))"
        "p_cptr (ts s3 q) = (if q = current s2 then 0
          else if q = task s2 ! 1 then p_cptr (ts s2 (current s2)) else p_cptr (ts s2 q))"
        "p_ysptr (ts s3 q) = (if q = ?r then last qs else p_ysptr (ts s2 q))"
        "p_osptr (ts s3 q) = (if q = last qs then ?r else p_osptr (ts s2 q))" for q
      unfolding cur_def by blast
    have "tree_ok s3"
      using assms(3-7) ch2(2)
      by (intro tree_after_adoption[OF ok2 _ _ _ _ _ qs False s3(2-7)])
        (simp_all add: f)
    moreover have "tasks_ok s3" using ok2(1) s3(2,3) by (simp add: tasks_ok_def)
    moreover have "children s3 q = (if q = task s ! 1 then children s (task s ! 1) \<union> children s (current s)
        else if q = current s then {} else children s q)" for q
      using ne qs(3) ch2 unfolding children_def s3(4) live_tasks_def s3(2)
      by (auto simp: f)
    moreover have "?m = Done () s3"
      using s3(1) False qs(1) by (cases qs) (simp_all add: cur_def)
    ultimately show ?thesis using ne by (intro exI[of _ s3]) simp
  qed
  then obtain s3 where s3: "?m = Done () s3" "tasks_ok s3" "tree_ok s3" "children s3 (current s) = {}"
      "children s3 (task s ! 1) = children s (task s ! 1) \<union> children s (current s)" by blast
  obtain s4 where s4: "leave_session s3 = Done () s4" "same_tree s3 s4" using leave_session_ok by blast
  define s5 where "s5 = (if last_task_used_math s4 = current s4 then s4\<lparr>last_task_used_math := 0\<rparr> else s4)"
  have st: "same_tree s3 s5" using s4(2) by (simp add: s5_def same_tree_def)
  have "exit_family s = Done () s5"
    unfolding exit_family_def 1(1) and_then.simps Let_def s2_def[symmetric] s3(1) s4(1) s5_def by (rule refl)
  moreover have "tasks_ok s5" "tree_ok s5" using s3(2,3) same_tree_ok[OF st] by simp_all
  moreover have "children s5 q = children s3 q" for q
    by (simp add: children_def live_tasks_def same_tree_fields[OF st])
  ultimately show ?thesis using s3(4,5) audit_ptree_silent by (intro exI[of _ s5]) simp
qed

text \<open>
  C6. \<open>release\<close> of a task without children: its slot is free and it is out of the tree, which is still
  well formed, before \<open>schedule\<close> runs.
\<close>

theorem release_keeps_tree:
  assumes "tasks_ok s" "tree_ok s" "p \<noteq> 0" "p \<noteq> current s" "p_cptr (ts s p) = 0"
    and "release resume p s = Done () s'"
  shows "\<exists>u. reschedule resume u = Done () s' \<and> p \<notin> set (task u) \<and> tasks_ok u \<and> tree_ok u \<and>
    audit_ptree u = []"
proof -
  obtain i where f: "find (\<lambda>i. task s ! i = p) [1..<NR_TASKS] = Some i"
    using assms(3,4,6) by (auto simp: release_def split: option.splits)
  then have i: "1 \<le> i" "i < NR_TASKS" "task s ! i = p" by (auto simp: find_Some_iff)
  let ?t = "unlink_task p (s\<lparr>task := (task s)[i := 0]\<rparr>)"
  obtain u where u: "free_page p ?t = Done () u" "reschedule resume u = Done () s'"
    using assms(3,4,6) f by (auto simp: release_def and_then_Done_iff)
  note k = keeps_fields[OF rest_free_page u(1)]
  have tree: "tree_ok ?t" by (rule unlink_keeps_tree[OF assms(1,2) i assms(3,5)])
  have task: "task ?t = (task s)[i := 0]" "current ?t = current s" by (simp_all add: unlink_task_def Let_def)
  have notin: "p \<notin> set (task ?t)"
    using assms(1,3) i live_tasks_inj[OF assms(1) _ i(2)]
    by (auto simp: task in_set_conv_nth nth_list_update tasks_ok_def)
  obtain j where j: "j < NR_TASKS" "task s ! j = current s"
    using assms(1) by (auto simp: tasks_ok_def in_set_conv_nth)
  have "j \<noteq> i" using j(2) i(3) assms(4) by blast
  then have "(task s)[i := 0] ! j = current s" "j < length ((task s)[i := 0])"
    using j assms(1) by (simp_all add: tasks_ok_def)
  then have "current s \<in> set ((task s)[i := 0])" by (metis nth_mem)
  moreover have at: "(task s)[i := 0] ! j = (if j = i then 0 else task s ! j)" if "j < NR_TASKS" for j
    using that assms(1) by (simp add: tasks_ok_def nth_list_update)
  ultimately have ok: "tasks_ok ?t"
    using assms(1) i(1) live_tasks_inj[OF assms(1)] by (simp add: tasks_ok_def task at)
  have tree_u: "tree_ok u" using tree tree_ok_cong[of u ?t] by (simp add: k)
  moreover have "tasks_ok u" using ok by (simp add: tasks_ok_def k)
  ultimately show ?thesis using u(2) notin audit_ptree_silent by (intro exI[of _ u]) (simp add: k)
qed

subsection \<open>Waiting\<close>

text \<open>
  Which children a call of \<open>waitpid\<close> is about: one of them if its argument is positive, the caller's own
  process group if it is 0, any child if it is -1, and another process group, negated, otherwise.
\<close>

definition asked_for :: "int \<Rightarrow> u32 \<Rightarrow> task_struct \<Rightarrow> bool" where
  "asked_for n g t \<longleftrightarrow>
    (if n = 0 then pgrp t = g else uint (pid t) = n \<or> n = - 1 \<or> (n < - 1 \<and> uint (pgrp t) = - n))"

lemma wait_matches_iff: "wait_matches proc g t \<longleftrightarrow> asked_for (sint proc) g t"
proof -
  have s: "sint proc = uint proc - (if uint proc < 2 ^ 31 then 0 else 2 ^ 32)" "uint proc < 2 ^ 32"
    "0 \<le> uint proc" "0 \<le> uint (pid t)" "0 \<le> uint (pgrp t)"
    using uint_lt2p[of proc] by (simp_all add: sint_uint_cases)
  have n: "uint (- proc) = - sint proc" if "sint proc < 0"
    using that s uint_lt2p[of "- proc"] by (simp add: uint_word_ariths zmod_zminus1_eq_if split: if_splits)
  have m1: "(proc = - 1) = (uint proc = 2 ^ 32 - 1)"
    using word_uint_eq_iff[of proc "- 1"] by (simp add: unsigned_minus_1_eq_mask mask_eq_exp_minus_1)
  have eq: "(proc = 0) = (uint proc = 0)"
    "(pid t = proc) = (uint (pid t) = uint proc)" "(pgrp t = - proc) = (uint (pgrp t) = uint (- proc))"
    by (auto simp: word_uint_eq_iff)
  consider "sint proc > 0" | "sint proc = 0" | "sint proc = - 1" | "sint proc < - 1" by linarith
  then show ?thesis
    using s(1,2) n by (cases; auto simp: wait_matches_def asked_for_def eq m1 split: if_splits; insert s(3,4); linarith)
qed

text \<open>What \<open>sys_waitpid\<close> is to find in the list of children.\<close>

definition reportable :: "u32 \<Rightarrow> u32 \<Rightarrow> 'a kstate_scheme \<Rightarrow> u32 \<Rightarrow> bool" where
  "reportable proc options s p \<longleftrightarrow> asked_for (sint proc) (pgrp (cur s)) (ts s p) \<and>
     (state (ts s p) = TASK_ZOMBIE \<or>
      state (ts s p) = TASK_STOPPED \<and> options AND WUNTRACED \<noteq> 0 \<and> exit_code (ts s p) \<noteq> 0)"

definition still_running :: "u32 \<Rightarrow> 'a kstate_scheme \<Rightarrow> u32 \<Rightarrow> bool" where
  "still_running proc s p \<longleftrightarrow> asked_for (sint proc) (pgrp (cur s)) (ts s p) \<and>
     state (ts s p) \<noteq> TASK_ZOMBIE \<and> state (ts s p) \<noteq> TASK_STOPPED"

text \<open>
  C7. The scan of \<open>sys_waitpid\<close> over a well formed list of children ends, and finds the youngest child
  that matches and is a zombie, or stopped and not yet reported if the caller asked for those; if there
  is none it tells whether a matching child is still running.
\<close>

theorem waitpid_finds_child:
  assumes "sibs (ts s) y p qs"
  shows "wait_scan proc options flag p s =
    Some (case find (reportable proc options s) qs of
      Some q \<Rightarrow> if state (ts s q) = TASK_ZOMBIE then Found_Zombie q else Found_Stopped q
    | None \<Rightarrow> Found_None (flag \<or> (\<exists>q\<in>set qs. still_running proc s q)))"
  using assms
proof (induction qs arbitrary: y p flag)
  case Nil
  then show ?case by (subst wait_scan.simps) simp
next
  case (Cons q qs)
  then have q: "p = q" "q \<noteq> 0" "sibs (ts s) q (p_osptr (ts s q)) qs" by auto
  have "wait_scan proc options flag p s =
      (if reportable proc options s q
       then Some (if state (ts s q) = TASK_ZOMBIE then Found_Zombie q else Found_Stopped q)
       else wait_scan proc options (flag \<or> still_running proc s q) (p_osptr (ts s q)) s)"
    using q(1,2) by (subst wait_scan.simps) (auto simp: Let_def reportable_def still_running_def wait_matches_iff)
  then show ?case using Cons.IH[OF q(3)] by (cases "find (reportable proc options s) qs") auto
qed


subsection \<open>Examples\<close>

text \<open>Task 0x1000 is the parent of init at 0x2000, which is the parent of a zombie at 0x3000.\<close>

definition demo_family :: kstate where
  "demo_family = demo_kernel\<lparr>current := 0x3000, ts := (\<lambda>p.
     if p = 0x1000 then demo_task\<lparr>pid := 0, p_cptr := 0x2000\<rparr>
     else if p = 0x2000 then demo_task\<lparr>p_pptr := 0x1000, p_cptr := 0x3000\<rparr>
     else demo_task\<lparr>pid := 2, p_pptr := 0x2000, state := TASK_ZOMBIE\<rparr>)\<rparr>"

lemma demo_family_ok:
  "tasks_ok (demo_family\<lparr>current := 0x3000\<rparr>)" "set (live_tasks (demo_family\<lparr>current := c\<rparr>)) = {0x2000, 0x3000}"
  "tasks_ok (demo_family\<lparr>current := 0x2000\<rparr>)" "all_tasks (demo_family\<lparr>current := c\<rparr>) = {0x1000, 0x2000, 0x3000}"
proof -
  have t: "task (demo_family\<lparr>current := c\<rparr>) = [0x1000, 0x2000, 0x3000] @ replicate 61 0" for c
    by (simp add: demo_family_def demo_kernel_def)
  show "tasks_ok (demo_family\<lparr>current := 0x3000\<rparr>)" "tasks_ok (demo_family\<lparr>current := 0x2000\<rparr>)"
    using tasks_ok_prefix(1)[of "demo_family\<lparr>current := 0x3000\<rparr>" "[0x1000, 0x2000, 0x3000]"]
      tasks_ok_prefix(1)[of "demo_family\<lparr>current := 0x2000\<rparr>" "[0x1000, 0x2000, 0x3000]"] t by simp_all
  have "set (live_tasks (demo_family\<lparr>current := 0x2000\<rparr>)) = {0x2000, 0x3000}"
    using tasks_ok_prefix(2)[of "demo_family\<lparr>current := 0x2000\<rparr>" "[0x1000, 0x2000, 0x3000]"] t by simp
  then show "set (live_tasks (demo_family\<lparr>current := c\<rparr>)) = {0x2000, 0x3000}" by (simp add: live_tasks_def)
  show "all_tasks (demo_family\<lparr>current := c\<rparr>) = {0x1000, 0x2000, 0x3000}"
    using t[of c] by (auto simp: all_tasks_def)
qed

lemma demo_family_tree: "tree_ok (demo_family\<lparr>current := c\<rparr>)"
proof -
  let ?s = "demo_family\<lparr>current := c\<rparr>"
  have ch: "children ?s 0x1000 = {0x2000}" "children ?s 0x2000 = {0x3000}" "children ?s 0x3000 = {}"
    by (auto simp: children_def demo_family_ok(2)) (simp_all add: demo_family_def demo_task_def)
  have "sibs (ts ?s) 0 (p_cptr (ts ?s 0x1000)) [0x2000]" "sibs (ts ?s) 0 (p_cptr (ts ?s 0x2000)) [0x3000]"
    "sibs (ts ?s) 0 (p_cptr (ts ?s 0x3000)) []"
    by (simp_all add: demo_family_def demo_task_def)
  then have "\<exists>qs. sibs (ts ?s) 0 (p_cptr (ts ?s p)) qs \<and> distinct qs \<and> set qs = children ?s p"
    if "p \<in> {0x1000, 0x2000, 0x3000}" for p
    using that ch by fastforce
  moreover have "p_pptr (ts ?s 0x2000) = 0x1000" "p_pptr (ts ?s 0x3000) = 0x2000"
    by (simp_all add: demo_family_def demo_task_def)
  ultimately show ?thesis by (simp add: tree_ok_def demo_family_ok(2,4))
qed

lemma demo_family_current: "demo_family\<lparr>current := 0x3000\<rparr> = demo_family"
  by (simp add: demo_family_def)

theorem exit_keeps_tree_witness:
  "\<exists>s'. exit_family demo_family = Done () s' \<and> audit_ptree s' = [] \<and> children s' 0x3000 = {}"
proof -
  have "task demo_family ! 1 = 0x2000" "current demo_family = 0x3000"
      "p_cptr (ts demo_family 0x2000) = 0x3000" "p_pptr (ts demo_family 0x2000) = 0x1000"
    by (simp_all add: demo_family_def demo_kernel_def demo_task_def)
  then show ?thesis
    using exit_keeps_tree[of demo_family] demo_family_ok(1) demo_family_ok(2)[of "0x3000"]
      demo_family_tree[of "0x3000"]
    by (auto simp: demo_family_current)
qed

theorem release_keeps_tree_witness:
  "\<exists>s' u. release id 0x3000 (demo_family\<lparr>current := 0x2000\<rparr>) = Done () s' \<and> tree_ok u \<and> 0x3000 \<notin> set (task u) \<and>
     reschedule id u = Done () s'"
proof -
  let ?s = "demo_family\<lparr>current := 0x2000\<rparr>"
  have t: "task ?s ! 1 = 0x2000" "task ?s ! 2 = 0x3000"
    by (simp_all add: demo_family_def demo_kernel_def)
  have f: "find (\<lambda>i. task ?s ! i = 0x3000) [1..<NR_TASKS] = Some 2"
  proof -
    have "[1..<NR_TASKS] = 1 # 2 # [3..<NR_TASKS]" by code_simp
    then show ?thesis using t unfolding \<open>[1..<NR_TASKS] = 1 # 2 # [3..<NR_TASKS]\<close> by simp
  qed
  let ?u = "unlink_task 0x3000 (?s\<lparr>task := (task ?s)[2 := 0]\<rparr>)"
  have tu: "task ?u = [0x1000, 0x2000] @ replicate 62 0" "current ?u = 0x2000"
    by (simp_all add: unlink_task_def Let_def)
      (simp_all add: demo_family_def demo_kernel_def eval_nat_numeral)
  then have "tasks_ok ?u" using tasks_ok_prefix(1)[of ?u "[0x1000, 0x2000]"] by simp
  moreover have "priority (ts ?u p) = 15" for p
    by (simp add: unlink_task_def Let_def) (simp add: demo_family_def demo_task_def)
  then have "\<forall>p\<in>set (live_tasks ?u). 0 < sint (priority (ts ?u p))" by simp
  ultimately obtain s' where "schedule ?u = Some s'" by (rule schedule_result)
  moreover have "free_page 0x3000 ?u = Done () ?u" by (simp add: free_page_def)
  ultimately have r: "release id 0x3000 ?s = Done () s'"
    unfolding release_def f option.case by (simp add: reschedule_def)
  have "p_cptr (ts ?s 0x3000) = 0" "0x3000 \<noteq> current ?s" by (simp_all add: demo_family_def demo_task_def)
  from release_keeps_tree[OF demo_family_ok(3) demo_family_tree _ this(2,1) r]
  show ?thesis using r by auto
qed

theorem waitpid_finds_child_witness:
  "wait_scan (- 1) 0 False 0x3000 demo_family = Some (Found_Zombie 0x3000)"
proof -
  have "sibs (ts demo_family) 0 0x3000 [0x3000]" by (simp add: demo_family_def demo_task_def)
  from waitpid_finds_child[OF this, of "- 1" 0 False] show ?thesis
    by (simp add: reportable_def asked_for_def) (simp add: demo_family_def demo_task_def)
qed

end
