(* ===== verification/Fork.thy ===== *)
theory Fork
  imports Process_Exit Memory_Props
begin

section \<open>Creating a process\<close>

text \<open>
  \<^verbatim>\<open>kernel/fork.c\<close>: \<open>find_empty_process\<close>, \<open>copy_mem\<close> and \<open>copy_process\<close>, which \<open>sys_fork\<close> in
  \<^verbatim>\<open>kernel/sys_call.s\<close> calls one after the other (\<open>verify_area\<close> is in \<open>User_Access\<close>). The registers that the
  system call has left on the kernel stack are the record \<open>fork_regs\<close>; the state of the coprocessor,
  which is saved into the new task, is left out.
\<close>

unbundle bit_operations_syntax

subsection \<open>A new process number and a free slot\<close>

definition pid_in_use :: "'a kstate_scheme \<Rightarrow> u32 \<Rightarrow> bool" where
  "pid_in_use s n \<longleftrightarrow>
    (\<exists>i\<in>{0..<NR_TASKS}. task s ! i \<noteq> 0 \<and> (pid (ts s (task s ! i)) = n \<or> pgrp (ts s (task s ! i)) = n))"

definition next_pid :: "u32 \<Rightarrow> u32" where
  "next_pid n = (if sint (n + 1) < 0 then 1 else n + 1)"

text \<open>The code from \<^verbatim>\<open>repeat:\<close> on, up to the second loop.\<close>

partial_function (option) find_pid :: "'a kstate_scheme \<Rightarrow> 'a kstate_scheme option" where
  "find_pid s =
    (let s = s\<lparr>last_pid := next_pid (last_pid s)\<rparr>
     in if pid_in_use s (last_pid s) then find_pid s else Some s)"

definition find_empty_process :: "'a kstate_scheme \<Rightarrow> ('a kstate_scheme, int) outcome" where
  "find_empty_process s =
    (case find_pid s of
       None \<Rightarrow> Diverges
     | Some s \<Rightarrow>
         (case find (\<lambda>i. task s ! i = 0) [1..<NR_TASKS] of
            Some i \<Rightarrow> Done (int i) s
          | None \<Rightarrow> Done (- EAGAIN) s))"

subsection \<open>Copying the process\<close>

definition copy_mem :: "nat \<Rightarrow> u32 \<Rightarrow> 'a kstate_scheme \<Rightarrow> ('a kstate_scheme, int) outcome" where
  "copy_mem nr p s =
    (let code_limit = get_limit (ldt (cur s) 1);
         data_limit = get_limit (ldt (cur s) 2);
         old_code_base = get_base (ldt (cur s) 1);
         old_data_base = get_base (ldt (cur s) 2)
     in if old_data_base \<noteq> old_code_base then Panics ''We don't support separate I&D''
        else if data_limit < code_limit then Panics ''Bad data_limit''
        else
          let new_base = of_nat nr * TASK_SIZE;
              s = upd_task p (\<lambda>t. t\<lparr>start_code := new_base,
                    ldt := (ldt t)(1 := set_base (ldt t 1) new_base, 2 := set_base (ldt t 2) new_base)\<rparr>) s
          in and_then (copy_page_tables old_data_base new_base data_limit s) (\<lambda>r s.
               if r \<noteq> 0
               then and_then (free_page_tables new_base data_limit s) (\<lambda>_. Done (- ENOMEM))
               else Done 0 s))"

record fork_regs =
  rg_ebp :: u32
  rg_edi :: u32
  rg_esi :: u32
  rg_gs :: u32
  rg_ebx :: u32
  rg_ecx :: u32
  rg_edx :: u32
  rg_fs :: u32
  rg_es :: u32
  rg_ds :: u32
  rg_eip :: u32
  rg_cs :: u32
  rg_eflags :: u32
  rg_esp :: u32
  rg_ss :: u32

definition child_tss :: "nat \<Rightarrow> u32 \<Rightarrow> fork_regs \<Rightarrow> tss_struct \<Rightarrow> tss_struct" where
  "child_tss nr p r t =
    t\<lparr>tss_back_link := 0, tss_esp0 := 4096 + p, tss_ss0 := 0x10, tss_eip := rg_eip r,
      tss_eflags := rg_eflags r, tss_eax := 0, tss_ecx := rg_ecx r, tss_edx := rg_edx r,
      tss_ebx := rg_ebx r, tss_esp := rg_esp r, tss_ebp := rg_ebp r, tss_esi := rg_esi r,
      tss_edi := rg_edi r, tss_es := rg_es r AND 0xffff, tss_cs := rg_cs r AND 0xffff,
      tss_ss := rg_ss r AND 0xffff, tss_ds := rg_ds r AND 0xffff, tss_fs := rg_fs r AND 0xffff,
      tss_gs := rg_gs r AND 0xffff, tss_ldt := push_bit 4 (of_nat nr) + 40,
      tss_trace_bitmap := 0x80000000\<rparr>"

definition child_task :: "nat \<Rightarrow> u32 \<Rightarrow> fork_regs \<Rightarrow> 'a kstate_scheme \<Rightarrow> task_struct" where
  "child_task nr p r s =
    (cur s)\<lparr>state := TASK_UNINTERRUPTIBLE, pid := last_pid s, counter := priority (cur s),
      signal := 0, alarm := 0, leader := 0, utime := 0, stime := 0, cutime := 0, cstime := 0,
      start_time := jiffies s, tss := child_tss nr p r (tss (cur s))\<rparr>"

text \<open>One more user of every open file and of the four inodes of the task.\<close>

definition incr :: "u32 \<Rightarrow> (u32 \<Rightarrow> u16) \<Rightarrow> u32 \<Rightarrow> u16" where
  "incr p c = (if p \<noteq> 0 then c(p := c p + 1) else c)"

definition share_files :: "u32 \<Rightarrow> 'a kstate_scheme \<Rightarrow> 'a kstate_scheme" where
  "share_files p s =
    (let s = fold (\<lambda>i s. s\<lparr>f_count := incr (filp (ts s p) i) (f_count s)\<rparr>) [0..<NR_OPEN] s;
         s = s\<lparr>i_count := incr (pwd (cur s)) (i_count s)\<rparr>;
         s = s\<lparr>i_count := incr (root (cur s)) (i_count s)\<rparr>;
         s = s\<lparr>i_count := incr (executable (cur s)) (i_count s)\<rparr>
     in s\<lparr>i_count := incr (library (cur s)) (i_count s)\<rparr>)"

definition copy_process ::
  "nat \<Rightarrow> fork_regs \<Rightarrow> 'a kstate_scheme \<Rightarrow> ('a kstate_scheme, int) outcome" where
  "copy_process nr r s =
    and_then (get_free_page s) (\<lambda>p s.
      if p = 0 then Done (- EAGAIN) s
      else
        let s = s\<lparr>task := (task s)[nr := p]\<rparr>;
            s = upd_task p (\<lambda>_. child_task nr p r s) s
        in and_then (copy_mem nr p s) (\<lambda>failed s.
             if failed \<noteq> 0
             then and_then (free_page p (s\<lparr>task := (task s)[nr := 0]\<rparr>)) (\<lambda>_. Done (- EAGAIN))
             else
               let s = share_files p s;
                   s = s\<lparr>gdt_tss := (gdt_tss s)(nr := p), gdt_ldt := (gdt_ldt s)(nr := p)\<rparr>;
                   s = link_child p s;
                   s = upd_task p (\<lambda>t. t\<lparr>state := TASK_RUNNING\<rparr>) s
               in Done (sint (last_pid s)) s))"

definition sys_fork :: "fork_regs \<Rightarrow> 'a kstate_scheme \<Rightarrow> ('a kstate_scheme, int) outcome" where
  "sys_fork r s =
    and_then (find_empty_process s) (\<lambda>nr s. if nr < 0 then Done nr s else copy_process (nat nr) r s)"

subsection \<open>Process numbers are fresh\<close>

lemma pid_in_use_last_pid [simp]: "pid_in_use (s\<lparr>last_pid := n\<rparr>) = pid_in_use s"
  by (simp add: pid_in_use_def fun_eq_iff)

lemma next_pid_sint:
  assumes "0 \<le> sint n"
  shows "sint (next_pid n) = 1 + sint n mod (2 ^ 31 - 1)"
proof (cases "sint n = 2 ^ 31 - 1")
  case True
  then have "n = 0x7fffffff" by (intro signed_word_eqI) simp
  then show ?thesis using True by (simp add: next_pid_def)
next
  case False
  then have "sint n < 2 ^ 31 - 1" using sint_lt[of n] by simp
  moreover from this assms have "sint (n + 1) = sint n + 1" using sint_add_small[of n 1] by simp
  ultimately show ?thesis using assms by (simp add: next_pid_def)
qed

lemma next_pid_iter:
  assumes "0 \<le> sint n"
  shows "sint ((next_pid ^^ Suc k) n) = 1 + (sint n + int k) mod (2 ^ 31 - 1)"
proof (induction k)
  case 0
  show ?case using next_pid_sint[OF assms] by simp
next
  case (Suc k)
  have "sint (next_pid ((next_pid ^^ Suc k) n)) = 1 + (1 + (sint n + int k) mod (2 ^ 31 - 1)) mod (2 ^ 31 - 1)"
    using next_pid_sint[of "(next_pid ^^ Suc k) n"] unfolding Suc by simp
  also have "\<dots> = 1 + (sint n + int (Suc k)) mod (2 ^ 31 - 1)"
    by (simp add: mod_simps) (simp add: algebra_simps)
  finally show ?case by simp
qed

lemma next_pid_inj:
  assumes "0 \<le> sint n"
  shows "inj_on (\<lambda>k. (next_pid ^^ Suc k) n) {..<129}"
proof (rule inj_onI)
  fix i j :: nat assume "i \<in> {..<129}" "j \<in> {..<129}" "(next_pid ^^ Suc i) n = (next_pid ^^ Suc j) n"
  then have "(sint n + int i) mod (2 ^ 31 - 1) = (sint n + int j) mod (2 ^ 31 - 1)" and ij: "i < 129" "j < 129"
    using next_pid_iter[OF assms, of i] next_pid_iter[OF assms, of j] by simp_all
  then have "(2 ^ 31 - 1) dvd (int i - int j)" by (simp add: mod_eq_dvd_iff)
  then show "i = j"
    using ij zdvd_imp_le[of "2 ^ 31 - 1" "int i - int j"] zdvd_imp_le[of "2 ^ 31 - 1" "int j - int i"]
    by (cases "int i - int j" "0 :: int" rule: linorder_cases) (auto simp: dvd_diff_commute)
qed

lemma used_pids_card: "card {n. pid_in_use s n} \<le> 128 \<and> finite {n. pid_in_use s n}"
proof -
  let ?A = "(\<lambda>i. pid (ts s (task s ! i))) ` {0..<NR_TASKS} \<union> (\<lambda>i. pgrp (ts s (task s ! i))) ` {0..<NR_TASKS}"
  have sub: "{n. pid_in_use s n} \<subseteq> ?A" by (auto simp: pid_in_use_def)
  have fin: "finite ?A" by simp
  have "card ?A \<le> 64 + 64"
    using card_Un_le[of "(\<lambda>i. pid (ts s (task s ! i))) ` {0..<NR_TASKS}" "(\<lambda>i. pgrp (ts s (task s ! i))) ` {0..<NR_TASKS}"]
      card_image_le[of "{0..<NR_TASKS}" "\<lambda>i. pid (ts s (task s ! i))"]
      card_image_le[of "{0..<NR_TASKS}" "\<lambda>i. pgrp (ts s (task s ! i))"] by simp
  then show ?thesis using card_mono[OF fin sub] finite_subset[OF sub fin] by simp
qed

lemma free_pid_ahead:
  assumes "0 \<le> sint n"
  shows "\<exists>k\<le>128. \<not> pid_in_use s ((next_pid ^^ Suc k) n)"
proof (rule ccontr)
  assume "\<not> ?thesis"
  then have "(\<lambda>k. (next_pid ^^ Suc k) n) ` {..<129} \<subseteq> {n. pid_in_use s n}" by auto
  then have "card ((\<lambda>k. (next_pid ^^ Suc k) n) ` {..<129}) \<le> 128"
    using used_pids_card[of s] card_mono by (meson le_trans)
  then show False using card_image[OF next_pid_inj[OF assms]] by simp
qed

lemma find_pid_returns:
  "\<not> pid_in_use s ((next_pid ^^ Suc k) (last_pid s)) \<Longrightarrow>
   \<exists>j\<le>k. find_pid s = Some (s\<lparr>last_pid := (next_pid ^^ Suc j) (last_pid s)\<rparr>) \<and>
     \<not> pid_in_use s ((next_pid ^^ Suc j) (last_pid s)) \<and> (\<forall>i<j. pid_in_use s ((next_pid ^^ Suc i) (last_pid s)))"
proof (induction k arbitrary: s)
  case 0
  then show ?case by (subst find_pid.simps) (auto simp: Let_def intro!: exI[of _ 0])
next
  case (Suc k)
  let ?s = "s\<lparr>last_pid := next_pid (last_pid s)\<rparr>"
  show ?case
  proof (cases "pid_in_use s (next_pid (last_pid s))")
    case False
    then show ?thesis by (subst find_pid.simps) (auto simp: Let_def intro!: exI[of _ 0])
  next
    case True
    have shift: "(next_pid ^^ Suc j) (next_pid n) = (next_pid ^^ Suc (Suc j)) n" for j n
      by (simp add: funpow_swap1)
    have "\<not> pid_in_use ?s ((next_pid ^^ Suc k) (last_pid ?s))"
      using Suc.prems shift[of k] by simp
    from Suc.IH[OF this] obtain j where j: "j \<le> k"
      "find_pid ?s = Some (?s\<lparr>last_pid := (next_pid ^^ Suc j) (next_pid (last_pid s))\<rparr>)"
      "\<not> pid_in_use s ((next_pid ^^ Suc j) (next_pid (last_pid s)))"
      "\<forall>i<j. pid_in_use s ((next_pid ^^ Suc i) (next_pid (last_pid s)))"
      by auto
    have "pid_in_use s ((next_pid ^^ Suc i) (last_pid s))" if "i < Suc j" for i
      using that True j(4) unfolding shift by (cases i) simp_all
    moreover have "find_pid s = find_pid ?s" using True by (subst find_pid.simps) simp
    ultimately show ?thesis using j unfolding shift by (intro exI[of _ "Suc j"]) simp
  qed
qed

lemma free_slot_found:
  "case find (\<lambda>i. task s ! i = 0) [1..<NR_TASKS] of
     Some i \<Rightarrow> (\<exists>i\<in>{1..<NR_TASKS}. task s ! i = 0) \<and> i \<in> {1..<NR_TASKS} \<and> task s ! i = 0
   | None \<Rightarrow> \<not> (\<exists>i\<in>{1..<NR_TASKS}. task s ! i = 0)"
proof (cases "find (\<lambda>i. task s ! i = 0) [1..<NR_TASKS]")
  case None
  moreover from this have "\<forall>i\<in>set [1..<NR_TASKS]. task s ! i \<noteq> 0"
    by (simp add: find_None_iff)
  ultimately show ?thesis by (simp only: option.case) auto
next
  case (Some i)
  then have "i \<in> set [1..<NR_TASKS]" "task s ! i = 0"
    by (auto simp: find_Some_iff simp del: upt_eq_Cons_conv intro: nth_mem)
  then show ?thesis using Some by auto
qed

text \<open>
  C4. \<open>find_empty_process\<close> always returns, from a \<open>last_pid\<close> that is not negative: its \<^verbatim>\<open>goto repeat\<close> is taken \<open>k\<close> times,
  once for each number behind \<open>last_pid\<close> that is in use, and at most 128 times. The new \<open>last_pid\<close>, the first number
  that is free, is positive and neither the number nor the process group of any task, also after the numbers have
  wrapped around; the result is an empty slot other than slot 0, or -EAGAIN if there is none.
\<close>

theorem find_empty_process_fresh:
  assumes "0 \<le> sint (last_pid s)"
  shows "\<exists>r k n. k \<le> 128 \<and> n = (next_pid ^^ Suc k) (last_pid s) \<and>
    (\<forall>j<k. pid_in_use s ((next_pid ^^ Suc j) (last_pid s))) \<and>
    find_empty_process s = Done r (s\<lparr>last_pid := n\<rparr>) \<and> 0 < sint n \<and>
    (\<forall>i\<in>{0..<NR_TASKS}. task s ! i \<noteq> 0 \<longrightarrow> pid (ts s (task s ! i)) \<noteq> n \<and> pgrp (ts s (task s ! i)) \<noteq> n) \<and>
    (if \<exists>i\<in>{1..<NR_TASKS}. task s ! i = 0
     then \<exists>i\<in>{1..<NR_TASKS}. r = int i \<and> task s ! i = 0 else r = - EAGAIN)"
proof -
  obtain k where k: "k \<le> 128" "\<not> pid_in_use s ((next_pid ^^ Suc k) (last_pid s))"
    using free_pid_ahead[OF assms] by blast
  obtain j where j: "find_pid s = Some (s\<lparr>last_pid := (next_pid ^^ Suc j) (last_pid s)\<rparr>)"
      "\<not> pid_in_use s ((next_pid ^^ Suc j) (last_pid s))" "j \<le> 128"
      "\<forall>i<j. pid_in_use s ((next_pid ^^ Suc i) (last_pid s))"
    using find_pid_returns[OF k(2)] le_trans[OF _ k(1)] by blast
  define n where "n = (next_pid ^^ Suc j) (last_pid s)"
  have "0 < sint n" unfolding n_def next_pid_iter[OF assms] by (simp add: add_pos_nonneg)
  moreover have "(case find (\<lambda>i. task s ! i = 0) [1..<NR_TASKS] of
        Some i \<Rightarrow> (\<exists>i\<in>{1..<NR_TASKS}. task s ! i = 0) \<and> i \<in> {1..<NR_TASKS} \<and> task s ! i = 0
      | None \<Rightarrow> \<not> (\<exists>i\<in>{1..<NR_TASKS}. task s ! i = 0))"
    using free_slot_found[of s] .
  moreover have "\<forall>i\<in>{0..<NR_TASKS}. task s ! i \<noteq> 0 \<longrightarrow>
      pid (ts s (task s ! i)) \<noteq> n \<and> pgrp (ts s (task s ! i)) \<noteq> n"
    using j(2) unfolding n_def[symmetric] pid_in_use_def by blast
  moreover have "\<exists>r. find_empty_process s = Done r (s\<lparr>last_pid := n\<rparr>) \<and>
      (if \<exists>i\<in>{1..<NR_TASKS}. task s ! i = 0 then \<exists>i\<in>{1..<NR_TASKS}. r = int i \<and> task s ! i = 0 else r = - EAGAIN)"
    using j(1) calculation(2) unfolding n_def[symmetric] find_empty_process_def
    by (cases "find (\<lambda>i. task s ! i = 0) [1..<NR_TASKS]") auto
  ultimately show ?thesis using j(3,4) unfolding n_def by blast
qed

subsection \<open>What the child gets\<close>

lemma get_set_base [simp]: "get_base (set_base d b) = b"
proof (rule bit_word_eqI)
  have m: "(0xffff :: u32) = mask 16" "(0xff :: u32) = mask 8" "(0x00ffff00 :: u32) = push_bit 8 (mask 16)"
    "(0xff000000 :: u32) = push_bit 24 (mask 8)"
    by (simp_all add: mask_eq_exp_minus_1 push_bit_eq_mult)
  fix n assume "n < LENGTH(32)"
  then consider "n < 16" | "16 \<le> n" "n < 24" | "24 \<le> n" "n < 32" by fastforce
  then show "bit (get_base (set_base d b)) n = bit b n"
    unfolding get_base_def set_base_def m
    by (cases; simp add: bit_or_iff bit_and_iff bit_push_bit_iff bit_drop_bit_eq bit_mask_iff; linarith)
qed

lemma link_child_sel [simp]:
  "task (link_child p s) = task s" "current (link_child p s) = current s"
  "f_count (link_child p s) = f_count s" "i_count (link_child p s) = i_count s"
  "last_pid (link_child p s) = last_pid s"
  by (simp_all add: link_child_def Let_def upd_task_def upd_cur_def)

lemma share_files_sel [simp]:
  "ts (share_files p s) = ts s" "task (share_files p s) = task s" "current (share_files p s) = current s"
  "last_pid (share_files p s) = last_pid s"
proof -
  define f where "f = (\<lambda>i (s :: 'a kstate_scheme). s\<lparr>f_count := incr (filp (ts s p) i) (f_count s)\<rparr>)"
  have f: "ts (fold f xs s) = ts s \<and> task (fold f xs s) = task s \<and> current (fold f xs s) = current s \<and>
      last_pid (fold f xs s) = last_pid s" for xs s
    by (induction xs arbitrary: s) (auto simp: f_def)
  then show "ts (share_files p s) = ts s" "task (share_files p s) = task s"
    "current (share_files p s) = current s" "last_pid (share_files p s) = last_pid s"
    by (simp_all add: share_files_def Let_def f_def[symmetric])
qed












theorem find_empty_process_fresh_witness:
  "\<exists>r n. find_empty_process demo_kernel = Done r (demo_kernel\<lparr>last_pid := n\<rparr>) \<and> 0 < sint n"
proof -
  have "0 \<le> sint (last_pid demo_kernel)" by (simp add: demo_kernel_def)
  from find_empty_process_fresh[OF this] show ?thesis by blast
qed


lemma pmem_clear_page [simp]: "pmem s = (\<lambda>_. 0) \<Longrightarrow> pmem (clear_page p s) = (\<lambda>_. 0)"
  by (auto simp: clear_page_def)


end
