(* ===== verification/Sys_Calls.thy ===== *)
theory Sys_Calls
  imports Process_Exit
begin

section \<open>Identity, groups, limits and the time of day\<close>

text \<open>
  \<^verbatim>\<open>kernel/sys.c\<close>. User and group numbers are 16 bits wide in the task structure and arrive as \<open>int\<close>:
  a comparison is made on the 32-bit value, an assignment truncates it. \<open>nodename\<close> is the one field
  of the static \<open>thisname\<close> that changes; the others are the constants of \<^verbatim>\<open>include/linux/config.h\<close>.
  A negative \<open>resource\<close> makes \<open>sys_getrlimit\<close> and \<open>sys_setrlimit\<close> leave the array: \<open>Undefined\<close>.
\<close>

unbundle bit_operations_syntax

subsection \<open>System calls that are not there\<close>

definition sys_ftime :: int where "sys_ftime = - ENOSYS"
definition sys_break :: int where "sys_break = - ENOSYS"
definition sys_ptrace :: int where "sys_ptrace = - ENOSYS"
definition sys_stty :: int where "sys_stty = - ENOSYS"
definition sys_gtty :: int where "sys_gtty = - ENOSYS"
definition sys_rename :: int where "sys_rename = - ENOSYS"
definition sys_prof :: int where "sys_prof = - ENOSYS"
definition sys_acct :: int where "sys_acct = - ENOSYS"
definition sys_phys :: int where "sys_phys = - ENOSYS"
definition sys_lock :: int where "sys_lock = - ENOSYS"
definition sys_mpx :: int where "sys_mpx = - ENOSYS"
definition sys_ulimit :: int where "sys_ulimit = - ENOSYS"

subsection \<open>User and group numbers\<close>

definition sys_setregid :: "u32 \<Rightarrow> u32 \<Rightarrow> 'a kstate_scheme \<Rightarrow> int \<times> 'a kstate_scheme" where
  "sys_setregid rgid egid0 s =
    (if 0 < sint rgid \<and> \<not> (ucast (gid (cur s)) = rgid \<or> suser s) then (- EPERM, s)
     else
       let s = (if 0 < sint rgid then upd_cur (\<lambda>t. t\<lparr>gid := ucast rgid\<rparr>) s else s)
       in if 0 < sint egid0
          then if ucast (gid (cur s)) = egid0 \<or> ucast (egid (cur s)) = egid0 \<or> suser s
            then (0, upd_cur (\<lambda>t. t\<lparr>egid := ucast egid0, sgid := ucast egid0\<rparr>) s)
            else (- EPERM, s)
          else (0, s))"

definition sys_setgid :: "u32 \<Rightarrow> 'a kstate_scheme \<Rightarrow> int \<times> 'a kstate_scheme" where
  "sys_setgid gid0 s =
    (if suser s then (0, upd_cur (\<lambda>t. t\<lparr>sgid := ucast gid0, egid := ucast gid0, gid := ucast gid0\<rparr>) s)
     else if gid0 = ucast (gid (cur s)) \<or> gid0 = ucast (sgid (cur s))
     then (0, upd_cur (\<lambda>t. t\<lparr>egid := ucast gid0\<rparr>) s)
     else (- EPERM, s))"

definition sys_setreuid :: "u32 \<Rightarrow> u32 \<Rightarrow> 'a kstate_scheme \<Rightarrow> int \<times> 'a kstate_scheme" where
  "sys_setreuid ruid euid0 s =
    (let old_ruid = uid (cur s) in
     if 0 < sint ruid \<and> \<not> (ucast (euid (cur s)) = ruid \<or> ucast old_ruid = ruid \<or> suser s) then (- EPERM, s)
     else
       let s = (if 0 < sint ruid then upd_cur (\<lambda>t. t\<lparr>uid := ucast ruid\<rparr>) s else s)
       in if 0 < sint euid0
          then if ucast old_ruid = euid0 \<or> ucast (euid (cur s)) = euid0 \<or> suser s
            then (0, upd_cur (\<lambda>t. t\<lparr>euid := ucast euid0, suid := ucast euid0\<rparr>) s)
            else (- EPERM, upd_cur (\<lambda>t. t\<lparr>uid := old_ruid\<rparr>) s)
          else (0, s))"

definition sys_setuid :: "u32 \<Rightarrow> 'a kstate_scheme \<Rightarrow> int \<times> 'a kstate_scheme" where
  "sys_setuid uid0 s =
    (if suser s then (0, upd_cur (\<lambda>t. t\<lparr>suid := ucast uid0, euid := ucast uid0, uid := ucast uid0\<rparr>) s)
     else if uid0 = ucast (uid (cur s)) \<or> uid0 = ucast (suid (cur s))
     then (0, upd_cur (\<lambda>t. t\<lparr>euid := ucast uid0\<rparr>) s)
     else (- EPERM, s))"

subsection \<open>Time\<close>

definition CURRENT_TIME :: "'a kstate_scheme \<Rightarrow> u32" where
  "CURRENT_TIME s = startup_time s + (jiffies s + jiffies_offset s) div 100"

definition CT_TO_SECS :: "u32 \<Rightarrow> u32" where
  "CT_TO_SECS x = x div 100"

definition CT_TO_USECS :: "u32 \<Rightarrow> u32" where
  "CT_TO_USECS x = x mod 100 * 1000000 div 100"

definition sys_time :: "u32 \<Rightarrow> 'a kstate_scheme \<Rightarrow> ('a kstate_scheme, int) outcome" where
  "sys_time tloc s =
    (let i = CURRENT_TIME s in
     if tloc \<noteq> 0
     then and_then (verify_area tloc 4 s) (\<lambda>_ s. Done (sint i) (put_fs_long i tloc s))
     else Done (sint i) s)"

definition sys_stime :: "u32 \<Rightarrow> 'a kstate_scheme \<Rightarrow> int \<times> 'a kstate_scheme" where
  "sys_stime tptr s =
    (if \<not> suser s then (- EPERM, s)
     else (0, s\<lparr>startup_time := get_fs_long tptr s - jiffies s div 100, jiffies_offset := 0\<rparr>))"

definition sys_times :: "u32 \<Rightarrow> 'a kstate_scheme \<Rightarrow> ('a kstate_scheme, int) outcome" where
  "sys_times tbuf s =
    and_then
     (if tbuf \<noteq> 0
      then and_then (verify_area tbuf 16 s) (\<lambda>_ s. Done ()
        (put_fs_long (cstime (cur s)) (tbuf + 12) (put_fs_long (cutime (cur s)) (tbuf + 8)
          (put_fs_long (stime (cur s)) (tbuf + 4) (put_fs_long (utime (cur s)) tbuf s)))))
      else Done () s)
     (\<lambda>_ s. Done (sint (jiffies s)) s)"

definition sys_gettimeofday :: "u32 \<Rightarrow> u32 \<Rightarrow> 'a kstate_scheme \<Rightarrow> ('a kstate_scheme, int) outcome" where
  "sys_gettimeofday tv tz s =
    and_then
     (if tv \<noteq> 0
      then and_then (verify_area tv 8 s) (\<lambda>_ s. Done ()
        (put_fs_long (CT_TO_USECS (jiffies s + jiffies_offset s)) (tv + 4)
          (put_fs_long (startup_time s + CT_TO_SECS (jiffies s + jiffies_offset s)) tv s)))
      else Done () s) (\<lambda>_ s.
    and_then
     (if tz \<noteq> 0
      then and_then (verify_area tz 8 s) (\<lambda>_ s. Done ()
        (put_fs_long (tz_dsttime s) (tz + 4) (put_fs_long (tz_minuteswest s) tz s)))
      else Done () s) (\<lambda>_ s.
    Done 0 s))"

definition adjust_clock :: "'a kstate_scheme \<Rightarrow> 'a kstate_scheme" where
  "adjust_clock s = s\<lparr>startup_time := startup_time s + tz_minuteswest s * 60\<rparr>"

definition sys_settimeofday :: "u32 \<Rightarrow> u32 \<Rightarrow> 'a kstate_scheme \<Rightarrow> int \<times> 'a kstate_scheme" where
  "sys_settimeofday tv tz s =
    (if \<not> suser s then (- EPERM, s)
     else
       let s = (if tz \<noteq> 0 then
                 (let s = s\<lparr>tz_minuteswest := get_fs_long tz s, tz_dsttime := get_fs_long (tz + 4) s\<rparr>
                  in if firsttime s
                     then (let s = s\<lparr>firsttime := False\<rparr> in if tv = 0 then adjust_clock s else s)
                     else s)
                else s);
           s = (if tv \<noteq> 0 then
                 (let sec = get_fs_long tv s; usec = get_fs_long (tv + 4) s
                  in s\<lparr>startup_time := sec - jiffies s div 100,
                       jiffies_offset := word_of_int (sint (usec * 100) sdiv 1000000) - jiffies s mod 100\<rparr>)
                else s)
       in (0, s))"

subsection \<open>Memory, process groups and sessions\<close>

definition sys_brk :: "u32 \<Rightarrow> 'a kstate_scheme \<Rightarrow> int \<times> 'a kstate_scheme" where
  "sys_brk end_data_seg s =
    (let s = (if end_data_seg \<ge> end_code (cur s) \<and> end_data_seg < start_stack (cur s) - 16384
              then upd_cur (\<lambda>t. t\<lparr>brk := end_data_seg\<rparr>) s else s)
     in (sint (brk (cur s)), s))"

definition sys_setpgid :: "u32 \<Rightarrow> u32 \<Rightarrow> 'a kstate_scheme \<Rightarrow> int \<times> 'a kstate_scheme" where
  "sys_setpgid pid0 pgid0 s =
    (let pid1 = (if pid0 = 0 then pid (cur s) else pid0);
         pgid = (if pgid0 = 0 then pid (cur s) else pgid0)
     in if sint pgid < 0 then (- EINVAL, s)
        else
         (case find (\<lambda>i. task s ! i \<noteq> 0 \<and> pid (ts s (task s ! i)) = pid1 \<and>
                      (p_pptr (ts s (task s ! i)) = current s \<or> task s ! i = current s)) [0..<NR_TASKS] of
            None \<Rightarrow> (- ESRCH, s)
          | Some i \<Rightarrow>
              let p = task s ! i in
              if leader (ts s p) \<noteq> 0 then (- EPERM, s)
              else if session (ts s p) \<noteq> session (cur s) \<or>
                      (pgid \<noteq> pid1 \<and> session_of_pgrp pgid s \<noteq> sint (session (cur s))) then (- EPERM, s)
              else (0, upd_task p (\<lambda>t. t\<lparr>pgrp := pgid\<rparr>) s)))"

definition sys_getpgrp :: "'a kstate_scheme \<Rightarrow> int" where
  "sys_getpgrp s = sint (pgrp (cur s))"

definition sys_setsid :: "'a kstate_scheme \<Rightarrow> int \<times> 'a kstate_scheme" where
  "sys_setsid s =
    (if leader (cur s) \<noteq> 0 \<and> \<not> suser s then (- EPERM, s)
     else
       let s = upd_cur (\<lambda>t. t\<lparr>leader := 1, pgrp := pid t, session := pid t, tty := - 1\<rparr>) s
       in (sint (pgrp (cur s)), s))"

subsection \<open>Supplementary groups\<close>

text \<open>The loop of \<open>sys_getgroups\<close>, \<open>n\<close> cells to go; \<open>p\<close> is \<open>grouplist\<close>.\<close>

primrec get_groups_loop ::
  "nat \<Rightarrow> int \<Rightarrow> u32 \<Rightarrow> 'a kstate_scheme \<Rightarrow> int \<times> 'a kstate_scheme" where
  "get_groups_loop 0 gidsetsize p s = (int NGROUPS, s)"
| "get_groups_loop (Suc n) gidsetsize p s =
    (let i = NGROUPS - Suc n in
     if groups (cur s) i = NOGROUP then (int i, s)
     else if gidsetsize \<noteq> 0
     then if int i \<ge> gidsetsize then (- EINVAL, s)
       else get_groups_loop n gidsetsize (p + 2) (put_fs_word (ucast (groups (cur s) i)) p s)
     else get_groups_loop n gidsetsize (p + 2) s)"

definition sys_getgroups :: "u32 \<Rightarrow> u32 \<Rightarrow> 'a kstate_scheme \<Rightarrow> ('a kstate_scheme, int) outcome" where
  "sys_getgroups gidsetsize grouplist s =
    and_then (if gidsetsize \<noteq> 0 then verify_area grouplist (2 * gidsetsize) s else Done () s) (\<lambda>_ s.
      case get_groups_loop NGROUPS (sint gidsetsize) grouplist s of (r, s) \<Rightarrow> Done r s)"

definition sys_setgroups :: "u32 \<Rightarrow> u32 \<Rightarrow> 'a kstate_scheme \<Rightarrow> int \<times> 'a kstate_scheme" where
  "sys_setgroups gidsetsize grouplist s =
    (if \<not> suser s then (- EPERM, s)
     else if sint gidsetsize > int NGROUPS then (- EINVAL, s)
     else
       let n = nat (sint gidsetsize);
           s = fold (\<lambda>i s. upd_cur (\<lambda>t. t\<lparr>groups :=
                 (groups t)(i := ucast (get_fs_word (grouplist + 2 * of_nat i) s))\<rparr>) s) [0..<n] s
       in (0, if n < NGROUPS then upd_cur (\<lambda>t. t\<lparr>groups := (groups t)(n := NOGROUP)\<rparr>) s else s))"

fun in_groups :: "u16 \<Rightarrow> u32 list \<Rightarrow> bool" where
  "in_groups grp [] = False"
| "in_groups grp (g # gs) = (if g = NOGROUP then False else if g = ucast grp then True else in_groups grp gs)"

definition in_group_p :: "u16 \<Rightarrow> 'a kstate_scheme \<Rightarrow> bool" where
  "in_group_p grp s =
    (if grp = egid (cur s) then True else in_groups grp (map (groups (cur s)) [0..<NGROUPS]))"

subsection \<open>The name of the system\<close>

text \<open>A field of \<open>struct utsname\<close>: the characters, padded with zero bytes to 9.\<close>

definition uts_field :: "string \<Rightarrow> u8 list" where
  "uts_field cs = map of_char cs @ replicate (9 - length cs) 0"

definition thisname :: "'a kstate_scheme \<Rightarrow> u8 list" where
  "thisname s = uts_field ''Linux'' @ map (nodename s) [0..<9] @
     uts_field ''0'' @ uts_field ''0.12'' @ uts_field ''i386''"

definition sys_uname :: "u32 \<Rightarrow> 'a kstate_scheme \<Rightarrow> ('a kstate_scheme, int) outcome" where
  "sys_uname name s =
    (if name = 0 then Done (- ERROR) s
     else and_then (verify_area name 45 s) (\<lambda>_ s.
       Done 0 (fold (\<lambda>i s. put_fs_byte (thisname s ! i) (of_nat i + name) s) [0..<45] s)))"

text \<open>
  The loop of \<open>sys_sethostname\<close>: \<open>n\<close> characters to go, \<open>i\<close> done. The result is the value of \<open>i\<close> at the end.
\<close>

primrec host_loop :: "nat \<Rightarrow> nat \<Rightarrow> u32 \<Rightarrow> 'a kstate_scheme \<Rightarrow> nat \<times> 'a kstate_scheme" where
  "host_loop 0 i name s = (i, s)"
| "host_loop (Suc n) i name s =
    (let c = get_fs_byte (name + of_nat i) s; s = s\<lparr>nodename := (nodename s)(i := c)\<rparr>
     in if c = 0 then (i, s) else host_loop n (Suc i) name s)"

definition sys_sethostname :: "u32 \<Rightarrow> u32 \<Rightarrow> 'a kstate_scheme \<Rightarrow> int \<times> 'a kstate_scheme" where
  "sys_sethostname name len s =
    (if \<not> suser s then (- EPERM, s)
     else if sint len > 8 then (- EINVAL, s)
     else
       case host_loop (nat (sint len)) 0 name s of (i, s) \<Rightarrow>
         (0, if nodename s i \<noteq> 0 then s\<lparr>nodename := (nodename s)((if i > 8 then 8 else i) := 0)\<rparr> else s))"

subsection \<open>Limits and resource usage\<close>

definition sys_getrlimit :: "u32 \<Rightarrow> u32 \<Rightarrow> 'a kstate_scheme \<Rightarrow> ('a kstate_scheme, int) outcome" where
  "sys_getrlimit resource rl s =
    (if sint resource \<ge> RLIM_NLIMITS then Done (- EINVAL) s
     else and_then (verify_area rl 8 s) (\<lambda>_ s.
       if sint resource < 0 then Undefined ''rlim[resource] out of bounds''
       else
         let s = put_fs_long (rlim_cur (rlim (cur s) (unat resource))) rl s
         in Done 0 (put_fs_long (rlim_max (rlim (cur s) (unat resource))) (rl + 4) s)))"

definition sys_setrlimit :: "u32 \<Rightarrow> u32 \<Rightarrow> 'a kstate_scheme \<Rightarrow> ('a kstate_scheme, int) outcome" where
  "sys_setrlimit resource rl s =
    (if sint resource \<ge> RLIM_NLIMITS then Done (- EINVAL) s
     else if sint resource < 0 then Undefined ''rlim[resource] out of bounds''
     else
       let old = rlim (cur s) (unat resource);
           new = \<lparr>rlim_cur = get_fs_long rl s, rlim_max = get_fs_long (rl + 4) s\<rparr>
       in if (sint (rlim_cur new) > sint (rlim_max old) \<or> sint (rlim_max new) > sint (rlim_max old)) \<and> \<not> suser s
          then Done (- EPERM) s
          else Done 0 (upd_cur (\<lambda>t. t\<lparr>rlim := (rlim t)(unat resource := new)\<rparr>) s))"

text \<open>\<open>struct rusage\<close> is 18 longs; the first four are filled in.\<close>

definition sys_getrusage :: "u32 \<Rightarrow> u32 \<Rightarrow> 'a kstate_scheme \<Rightarrow> ('a kstate_scheme, int) outcome" where
  "sys_getrusage who ru s =
    (if who \<noteq> 0 \<and> who \<noteq> - 1 then Done (- EINVAL) s
     else and_then (verify_area ru 72 s) (\<lambda>_ s.
       let (u, v) = (if who = 0 then (utime (cur s), stime (cur s)) else (cutime (cur s), cstime (cur s)));
           r = [CT_TO_SECS u, CT_TO_USECS u, CT_TO_SECS v, CT_TO_USECS v] @ replicate 14 0
       in Done 0 (put_fs_longs r ru s)))"

definition sys_umask :: "u32 \<Rightarrow> 'a kstate_scheme \<Rightarrow> int \<times> 'a kstate_scheme" where
  "sys_umask mask0 s = (int (unat (umask (cur s))), upd_cur (\<lambda>t. t\<lparr>umask := ucast (mask0 AND 0x1ff)\<rparr>) s)"

subsection \<open>An unprivileged process keeps to its own user and group numbers\<close>

datatype id_call = Setreuid u32 u32 | Setregid u32 u32 | Setuid u32 | Setgid u32

fun do_id_call :: "id_call \<Rightarrow> 'a kstate_scheme \<Rightarrow> 'a kstate_scheme" where
  "do_id_call (Setreuid r e) s = snd (sys_setreuid r e s)"
| "do_id_call (Setregid r e) s = snd (sys_setregid r e s)"
| "do_id_call (Setuid u) s = snd (sys_setuid u s)"
| "do_id_call (Setgid g) s = snd (sys_setgid g s)"

definition uids :: "'a kstate_scheme \<Rightarrow> u16 set" where
  "uids s = {uid (cur s), euid (cur s), suid (cur s)}"

definition gids :: "'a kstate_scheme \<Rightarrow> u16 set" where
  "gids s = {gid (cur s), egid (cur s), sgid (cur s)}"

lemma ucast_u16_inj [simp]: "(ucast (x :: u16) :: u32) = ucast y \<longleftrightarrow> x = y"
  by (metis ucast_u16_u32)

lemma do_id_call_confined:
  assumes "euid (cur s) \<noteq> 0"
  shows "uids (do_id_call c s) \<subseteq> uids s \<and> gids (do_id_call c s) \<subseteq> gids s \<and>
    current (do_id_call c s) = current s \<and> (\<forall>p. p \<noteq> current s \<longrightarrow> ts (do_id_call c s) p = ts s p)"
  using assms
  by (cases c)
    (auto simp: uids_def gids_def sys_setreuid_def sys_setregid_def sys_setuid_def sys_setgid_def suser_def Let_def)

text \<open>
  C10. A process none of whose three user numbers is 0 cannot leave them: after any sequence of
  \<open>setreuid\<close>, \<open>setregid\<close>, \<open>setuid\<close> and \<open>setgid\<close>, with any arguments, its real, effective and saved user
  numbers are among the three it had, its group numbers among its three group numbers, and no other
  task has changed. A program that was started by the superuser and has set all three to one user
  cannot come back.
\<close>

theorem unprivileged_ids_confined:
  assumes "0 \<notin> uids s"
  shows "uids (fold do_id_call cs s) \<subseteq> uids s \<and> gids (fold do_id_call cs s) \<subseteq> gids s \<and>
    (\<forall>p. p \<noteq> current s \<longrightarrow> ts (fold do_id_call cs s) p = ts s p)"
  using assms
proof (induction cs arbitrary: s)
  case (Cons c cs)
  have "euid (cur s) \<noteq> 0" using Cons.prems by (auto simp: uids_def)
  note c = do_id_call_confined[OF this, of c]
  then have "0 \<notin> uids (do_id_call c s)" using Cons.prems by blast
  from Cons.IH[OF this] show ?case using c by auto
qed simp

subsection \<open>Supplementary groups\<close>

lemma in_groups_iff: "in_groups g gs \<longleftrightarrow> ucast g \<in> set (takeWhile (\<lambda>x. x \<noteq> NOGROUP) gs)"
  by (induction g gs rule: in_groups.induct) auto

lemma ucast_u16_not_NOGROUP [simp]: "ucast (w :: u16) \<noteq> (- 1 :: u32)"
proof
  assume h: "ucast w = (- 1 :: u32)"
  have "bit (ucast w :: u32) 31" unfolding h by simp
  then show False by (auto simp: bit_ucast_iff dest: bit_imp_le_length)
qed

lemma set_groups_fold:
  defines "f \<equiv> \<lambda>l i (s :: 'a kstate_scheme). upd_cur (\<lambda>t. t\<lparr>groups :=
      (groups t)(i := ucast (get_fs_word (l + 2 * of_nat i) s))\<rparr>) s"
  shows "cur (fold (f l) [0..<n] s) =
      (cur s)\<lparr>groups := (\<lambda>i. if i < n then ucast (get_fs_word (l + 2 * of_nat i) s) else groups (cur s) i)\<rparr> \<and>
    get_fs_word a (fold (f l) [0..<n] s) = get_fs_word a s"
proof (induction n arbitrary: a)
  case (Suc n)
  then show ?case by (auto simp: f_def get_fs_word_def fun_eq_iff less_Suc_eq)
qed (simp add: get_fs_word_def)

lemma takeWhile_groups:
  assumes "\<And>i. i < n \<Longrightarrow> f i \<noteq> x" "n < m \<Longrightarrow> f n = x" "n \<le> m"
  shows "takeWhile (\<lambda>y. y \<noteq> x) (map f [0..<m]) = map f [0..<n]"
proof -
  have "[0..<m] = [0..<n] @ [n..<m]" using assms(3) by (metis le0 le_Suc_ex upt_add_eq_append)
  moreover have "takeWhile (\<lambda>y. y \<noteq> x) (map f [n..<m]) = []"
    using assms(2) by (cases "n < m") (simp_all add: upt_rec)
  ultimately show ?thesis using assms(1) by (simp add: takeWhile_append)
qed

text \<open>
  After the superuser has set \<open>n\<close> supplementary groups, \<open>in_group_p\<close> answers yes exactly for the
  effective group and the \<open>n\<close> numbers that stood in the list, also for the full table of 32, which has
  no end marker; more than 32 groups, or an unprivileged caller, get an error and change nothing.
\<close>

theorem setgroups_in_group_p:
  "if suser s \<and> n \<le> NGROUPS
   then fst (sys_setgroups (of_nat n) l s) = 0 \<and>
     (in_group_p g (snd (sys_setgroups (of_nat n) l s)) =
        (g = egid (cur s) \<or> (\<exists>i<n. g = get_fs_word (l + 2 * of_nat i) s)))
   else n < 2 ^ 31 \<longrightarrow> snd (sys_setgroups (of_nat n) l s) = s \<and> fst (sys_setgroups (of_nat n) l s) < 0"
proof (cases "suser s \<and> n \<le> NGROUPS")
  case True
  then have n: "sint (of_nat n :: u32) = int n"
    using sint_small[of "of_nat n"] by (simp add: unat_of_nat)
  define s1 where "s1 = fold (\<lambda>i s. upd_cur (\<lambda>t. t\<lparr>groups :=
      (groups t)(i := ucast (get_fs_word (l + 2 * of_nat i) s))\<rparr>) s) [0..<n] s"
  define s2 where "s2 = (if n < NGROUPS then upd_cur (\<lambda>t. t\<lparr>groups := (groups t)(n := NOGROUP)\<rparr>) s1 else s1)"
  have r: "sys_setgroups (of_nat n) l s = (0, s2)"
    using True by (simp add: sys_setgroups_def n Let_def s1_def s2_def)
  have c: "cur s1 = (cur s)\<lparr>groups := (\<lambda>i. if i < n then ucast (get_fs_word (l + 2 * of_nat i) s)
      else groups (cur s) i)\<rparr>"
    using set_groups_fold[of l n s] by (simp add: s1_def)
  have "takeWhile (\<lambda>x. x \<noteq> NOGROUP) (map (groups (cur s2)) [0..<NGROUPS]) = map (groups (cur s2)) [0..<n]"
    by (rule takeWhile_groups) (use True c in \<open>auto simp: s2_def\<close>)
  moreover have "groups (cur s2) i = ucast (get_fs_word (l + 2 * of_nat i) s)" if "i < n" for i
    using that c by (simp add: s2_def)
  ultimately have "in_groups g (map (groups (cur s2)) [0..<NGROUPS]) =
      (\<exists>i<n. (ucast g :: u32) = ucast (get_fs_word (l + 2 * of_nat i) s))"
    by (auto simp: in_groups_iff image_iff)
  also have "\<dots> = (\<exists>i<n. g = get_fs_word (l + 2 * of_nat i) s)"
    by (metis ucast_u16_u32)
  finally show ?thesis using True c r by (simp add: in_group_p_def s2_def)
next
  case False
  then show ?thesis
    using sint_small[of "of_nat n"] by (auto simp: sys_setgroups_def unat_of_nat)
qed

subsection \<open>The host name\<close>

lemma host_loop_props:
  "i + n \<le> 8 \<Longrightarrow> host_loop n i name s = (k, t) \<Longrightarrow>
     k \<le> i + n \<and> i \<le> k \<and> (\<forall>j. j < i \<or> 8 \<le> j \<longrightarrow> nodename t j = nodename s j) \<and>
     (\<forall>j. i \<le> j \<and> j < k \<longrightarrow> nodename t j = get_fs_byte (name + of_nat j) s \<and> nodename t j \<noteq> 0) \<and>
     (k < i + n \<longrightarrow> nodename t k = 0 \<and> get_fs_byte (name + of_nat k) s = 0)"
proof (induction n arbitrary: i s)
  case (Suc n)
  define c where "c = get_fs_byte (name + of_nat i) s"
  define s1 where "s1 = s\<lparr>nodename := (nodename s)(i := c)\<rparr>"
  have b: "get_fs_byte a s1 = get_fs_byte a s" for a by (simp add: s1_def get_fs_byte_def)
  show ?case
  proof (cases "c = 0")
    case True
    then show ?thesis using Suc.prems by (auto simp: c_def Let_def)
  next
    case False
    then have h: "host_loop n (Suc i) name s1 = (k, t)"
      using Suc.prems(2) by (simp add: c_def s1_def Let_def)
    have "Suc i + n \<le> 8" using Suc.prems(1) by simp
    note IH = Suc.IH[OF this h]
    then have i: "nodename t i = c" by (simp add: s1_def)
    have "k \<le> i + Suc n" "i \<le> k" "k < i + Suc n \<longrightarrow> nodename t k = 0 \<and> get_fs_byte (name + of_nat k) s = 0"
      using IH b by simp_all
    moreover have "nodename t j = nodename s j" if "j < i \<or> 8 \<le> j" for j
    proof -
      have "j \<noteq> i" "j < Suc i \<or> 8 \<le> j" using that Suc.prems(1) by auto
      then show ?thesis using IH by (auto simp: s1_def)
    qed
    moreover have "nodename t j = get_fs_byte (name + of_nat j) s \<and> nodename t j \<noteq> 0" if "i \<le> j" "j < k" for j
    proof (cases "j = i")
      case True
      then show ?thesis using i False by (simp add: c_def)
    next
      case j: False
      then have "Suc i \<le> j" using that(1) by simp
      then show ?thesis using IH b that(2) by metis
    qed
    ultimately show ?thesis by blast
  qed
qed auto

text \<open>
  \<open>sys_sethostname\<close> never writes beyond the nine bytes of the name, whatever length it is given,
  and when it succeeds the name is terminated and is the caller's string, cut at its first zero byte
  or at its length.
\<close>

theorem sethostname_bounds:
  "(\<forall>i>8. nodename (snd (sys_sethostname name len s)) i = nodename s i) \<and>
   (fst (sys_sethostname name len s) = 0 \<longrightarrow>
     (\<exists>k\<le>8. nodename (snd (sys_sethostname name len s)) k = 0 \<and>
       (\<forall>i<k. nodename (snd (sys_sethostname name len s)) i = get_fs_byte (name + of_nat i) s \<and>
              get_fs_byte (name + of_nat i) s \<noteq> 0) \<and>
       (k = nat (sint len) \<or> k < nat (sint len) \<and> get_fs_byte (name + of_nat k) s = 0)))"
proof (cases "suser s \<and> sint len \<le> 8")
  case False
  then show ?thesis by (auto simp: sys_sethostname_def)
next
  case True
  obtain k t where h: "host_loop (nat (sint len)) 0 name s = (k, t)" by fastforce
  have "0 + nat (sint len) \<le> 8" using True by linarith
  note p = host_loop_props[OF this h]
  then have k: "k \<le> 8" "k \<le> nat (sint len)" using True by auto
  define t' where "t' = (if nodename t k \<noteq> 0 then t\<lparr>nodename := (nodename t)(k := 0)\<rparr> else t)"
  have r: "sys_sethostname name len s = (0, t')" using True h k by (simp add: sys_sethostname_def t'_def)
  have "nodename t' k = 0" "\<And>i. i \<noteq> k \<Longrightarrow> nodename t' i = nodename t i" by (simp_all add: t'_def)
  then show ?thesis using p k unfolding r by (auto intro!: exI[of _ k])
qed

subsection \<open>The time of day\<close>

text \<open>
  Setting the time of day and reading it back before the next tick: the seconds are exact and the
  microseconds are those that were set, cut to a multiple of one tick (10000). The result is
  independent of how long the machine has been running, up to the last second before the tick
  counter wraps around.
\<close>

theorem settimeofday_gettimeofday:
  assumes su: "suser s" and tv: "tv \<noteq> 0" "tv2 \<noteq> 0" and u: "unat (get_fs_long (tv + 4) s) < 1000000"
    and j: "unat (jiffies s) < 2 ^ 32 - 100"
    and s1: "s1 = snd (sys_settimeofday tv 0 s)" and v: "verify_area tv2 8 s1 = Done () s2"
  shows "\<exists>s3. sys_gettimeofday tv2 0 s1 = Done 0 s3 \<and> get_fs_long tv2 s3 = get_fs_long tv s \<and>
    unat (get_fs_long (tv2 + 4) s3) = unat (get_fs_long (tv + 4) s) div 10000 * 10000"
proof -
  define us where "us = unat (get_fs_long (tv + 4) s)"
  define J where "J = unat (jiffies s)"
  have "unat (get_fs_long (tv + 4) s * 100) = us * 100"
    using u by (simp add: us_def unat_word_ariths)
  then have "sint (get_fs_long (tv + 4) s * 100) = int (us * 100)"
    using u sint_small[of "get_fs_long (tv + 4) s * 100"] by (simp add: us_def)
  then have "sint (get_fs_long (tv + 4) s * 100) sdiv 1000000 = int (us div 10000)"
    by (simp add: sdiv_nonneg zdiv_int)
  then have off: "jiffies_offset s1 = of_nat (us div 10000) - jiffies s mod 100"
      and st: "startup_time s1 = get_fs_long tv s - jiffies s div 100" "jiffies s1 = jiffies s"
    using su tv s1 by (simp_all add: sys_settimeofday_def Let_def)
  define x where "x = jiffies s1 + jiffies_offset s1"
  have jm: "jiffies s = of_nat J" by (simp add: J_def)
  have "x = of_nat (100 * (J div 100) + us div 10000)"
  proof -
    have "jiffies s mod 100 = of_nat (J mod 100)" by (simp add: J_def unat_mod word_unat_eq_iff unat_of_nat)
    then have "x = of_nat J + of_nat (us div 10000) - of_nat (J mod 100)" by (simp add: x_def off st(2) jm)
    moreover have "(of_nat J :: u32) = of_nat (100 * (J div 100)) + of_nat (J mod 100)"
      by (metis mult_div_mod_eq of_nat_add)
    ultimately show ?thesis by simp
  qed
  moreover have small: "us div 10000 < 100" "100 * (J div 100) + us div 10000 < 2 ^ 32"
    using u j by (auto simp: us_def J_def)
  ultimately have ux: "unat x = 100 * (J div 100) + us div 10000"
    by (simp del: of_nat_add of_nat_mult add: unat_of_nat)
  have "unat (x div 100) = J div 100" using ux small by (simp add: unat_div)
  then have secs: "CT_TO_SECS x = jiffies s div 100"
    by (simp add: CT_TO_SECS_def J_def word_unat_eq_iff unat_div)
  have "unat (x mod 100) = us div 10000" using ux small by (simp add: unat_mod)
  then have "unat (CT_TO_USECS x) = us div 10000 * 10000"
    using small by (simp add: CT_TO_USECS_def unat_div unat_word_ariths)
  moreover have ts2: "jiffies s2 = jiffies s1" "jiffies_offset s2 = jiffies_offset s1"
      "startup_time s2 = startup_time s1"
    using verify_area_fields[OF v] by simp_all
  moreover have "words_apart tv2 (tv2 + 4)" by (simp add: words_apart_def)
  moreover have "jiffies s + jiffies_offset s1 = x" by (simp add: x_def st)
  ultimately show ?thesis
    using v tv secs st by (simp add: sys_gettimeofday_def us_def[symmetric] get_put_fs_long_apart)
qed

subsection \<open>The properties at work\<close>

theorem unprivileged_ids_confined_witness:
  "uids (fold do_id_call [Setuid 0, Setreuid 5 0, Setreuid 6 5]
     (demo_kernel\<lparr>ts := (\<lambda>_. demo_task\<lparr>uid := 5, euid := 6, suid := 6\<rparr>)\<rparr>)) \<subseteq> {5, 6}"
proof -
  define s where "s = demo_kernel\<lparr>ts := (\<lambda>_. demo_task\<lparr>uid := 5, euid := 6, suid := 6\<rparr>)\<rparr>"
  have u: "uids s = {5, 6}" by (auto simp: s_def uids_def cur_def)
  then have "0 \<notin> uids s" by simp
  from unprivileged_ids_confined[OF this, of "[Setuid 0, Setreuid 5 0, Setreuid 6 5]"]
  show ?thesis unfolding s_def[symmetric] u by blast
qed

theorem setgroups_in_group_p_witness:
  "in_group_p 0 (snd (sys_setgroups 3 0x100 demo_kernel))"
proof -
  have "suser demo_kernel" "get_fs_word a demo_kernel = 0" "egid (cur demo_kernel) = 0" for a
    by (simp_all add: suser_def cur_def demo_kernel_def demo_task_def get_fs_word_def)
  then show ?thesis using setgroups_in_group_p[of demo_kernel 3 "0x100" 0]
    by simp
qed

text \<open>A caller with the name \<^verbatim>\<open>ab\<close> at address 0x100, and one with the time 7 s, 123456 us.\<close>

theorem sethostname_bounds_witness:
  "\<exists>k\<le>8. nodename (snd (sys_sethostname 0x100 2 (demo_kernel\<lparr>fs_mem := (\<lambda>a. 97)\<rparr>))) k = 0"
proof -
  have "fst (sys_sethostname 0x100 2 (demo_kernel\<lparr>fs_mem := (\<lambda>a. 97)\<rparr>)) = 0"
    by (simp add: sys_sethostname_def suser_def cur_def eval_nat_numeral Let_def get_fs_byte_def
        demo_kernel_def demo_task_def)
  then show ?thesis using sethostname_bounds[of "0x100" 2 "demo_kernel\<lparr>fs_mem := (\<lambda>a. 97)\<rparr>"] by blast
qed

theorem settimeofday_gettimeofday_witness:
  "\<exists>s3. sys_gettimeofday 0x200 0 (snd (sys_settimeofday 0x100 0
       (put_fs_long 123456 0x104 (put_fs_long 7 0x100 demo_kernel)))) = Done 0 s3 \<and>
     get_fs_long 0x200 s3 = 7 \<and> unat (get_fs_long 0x204 s3) = 120000"
proof -
  define s where "s = put_fs_long 123456 0x104 (put_fs_long 7 0x100 demo_kernel)"
  have g: "get_fs_long 0x100 s = 7" "get_fs_long 0x104 s = 123456"
    by (simp_all add: s_def get_put_fs_long_apart words_apart_def)
  have s: "suser s" "jiffies s = 1000" "pmem s = (\<lambda>_. 0)" "cur s = demo_task"
    by (simp_all add: s_def suser_def cur_def demo_kernel_def demo_task_def put_fs_long_def)
  define s1 where "s1 = snd (sys_settimeofday 0x100 0 s)"
  have "pmem s1 = (\<lambda>_. 0)" "cur s1 = demo_task"
    using s by (simp_all add: s1_def sys_settimeofday_def Let_def cur_def)
  then have "verify_area 0x200 8 s1 = Done () s1"
    by (simp add: verify_area_def verify_pages.simps[of 0] verify_pages.simps[of "0x1000"]
        write_verify_def get_base_def demo_task_def Let_def)
  from settimeofday_gettimeofday[OF s(1) _ _ _ _ s1_def this] g s(2)
  show ?thesis unfolding s_def[symmetric] s1_def by simp
qed

end
