(* ===== verification/Fs_State.thy ===== *)
theory Fs_State
  imports Process_Exit
begin

section \<open>The state of the file system\<close>

text \<open>
  \<^verbatim>\<open>include/linux/fs.h\<close>, \<^verbatim>\<open>kernel/blk_drv/blk.h\<close> and the globals of \<^verbatim>\<open>fs\<close> and \<^verbatim>\<open>kernel/blk_drv\<close>. The tables of
  buffer heads, inodes, files and requests are arrays: entry \<open>k\<close> is the pointer \<open>k + 1\<close>, and 0 is NULL.
  Entry 0 of a store is what the code reads and writes through a NULL pointer. The reference counts
  of inodes and files, which \<open>fork\<close> and \<open>exit\<close> change too, are the maps \<open>i_count\<close> and \<open>f_count\<close> of
  \<open>kstate\<close>. The data block that belongs to a buffer head is its field \<open>b_data\<close>.

  What is not the code's own, and what other processes do while a process sleeps, is the argument \<open>e\<close>
  of type \<open>fs_env\<close>: what has happened to the state when \<open>sleep_on\<close>, \<open>interruptible_sleep_on\<close> or \<open>schedule\<close>
  return, the strategy routine of each block device (a function pointer in \<^verbatim>\<open>blk_dev\<close>), the disk-change
  line of the floppy controller, the terminal driver, the value that a port gives, and how deep calls of \<open>getblk\<close> can nest before the kernel stack is full.
\<close>

unbundle bit_operations_syntax

abbreviation (input) NR_INODE :: nat where "NR_INODE \<equiv> 64"
abbreviation (input) NR_FILE :: nat where "NR_FILE \<equiv> 64"
abbreviation (input) NR_SUPER :: nat where "NR_SUPER \<equiv> 8"
abbreviation (input) NR_HASH :: u32 where "NR_HASH \<equiv> 307"
abbreviation (input) NR_REQUEST :: nat where "NR_REQUEST \<equiv> 32"
abbreviation (input) NR_BLK_DEV :: u32 where "NR_BLK_DEV \<equiv> 7"
abbreviation (input) I_MAP_SLOTS :: nat where "I_MAP_SLOTS \<equiv> 8"
abbreviation (input) Z_MAP_SLOTS :: nat where "Z_MAP_SLOTS \<equiv> 8"
abbreviation (input) SUPER_MAGIC :: u16 where "SUPER_MAGIC \<equiv> 0x137F"
abbreviation (input) ROOT_INO :: u32 where "ROOT_INO \<equiv> 1"
abbreviation (input) READ :: u32 where "READ \<equiv> 0"
abbreviation (input) WRITE :: u32 where "WRITE \<equiv> 1"
abbreviation (input) READA :: u32 where "READA \<equiv> 2"
abbreviation (input) WRITEA :: u32 where "WRITEA \<equiv> 3"
abbreviation (input) INODES_PER_BLOCK :: nat where "INODES_PER_BLOCK \<equiv> 32"

definition MAJOR :: "u32 \<Rightarrow> u32" where "MAJOR a = drop_bit 8 a"
definition MINOR :: "u32 \<Rightarrow> u32" where "MINOR a = a AND 0xff"

record buffer_head =
  b_data :: "nat \<Rightarrow> u8"
  b_blocknr :: u32
  b_dev :: u16
  b_uptodate :: u8
  b_dirt :: u8
  b_count :: u8
  b_lock :: u8
  b_wait :: u32
  b_prev :: nat
  b_next :: nat
  b_prev_free :: nat
  b_next_free :: nat

record m_inode =
  i_mode :: u16
  i_uid :: u16
  i_size :: u32
  i_mtime :: u32
  i_gid :: u8
  i_nlinks :: u8
  i_zone :: "nat \<Rightarrow> u16"
  i_wait :: u32
  i_wait2 :: u32
  i_atime :: u32
  i_ctime :: u32
  i_dev :: u16
  i_num :: u16
  i_lock :: u8
  i_dirt :: u8
  i_pipe :: u8
  i_mount :: u8
  i_seek :: u8
  i_update :: u8

record file_t =
  f_mode :: u16
  f_flags :: u16
  f_inode :: u32
  f_pos :: u32

record super_block_t =
  s_ninodes :: u16
  s_nzones :: u16
  s_imap_blocks :: u16
  s_zmap_blocks :: u16
  s_firstdatazone :: u16
  s_log_zone_size :: u16
  s_max_size :: u32
  s_magic :: u16
  s_imap :: "nat \<Rightarrow> nat"
  s_zmap :: "nat \<Rightarrow> nat"
  s_dev :: u16
  s_isup :: u32
  s_imount :: u32
  s_time :: u32
  s_wait :: u32
  s_lock :: u8
  s_rd_only :: u8
  s_dirt :: u8

text \<open>Where the data of a request go: the block of a buffer head, or a page of memory.\<close>

datatype io_buffer = Data_Of nat | Page_At u32

record request_t =
  rq_dev :: u32
  rq_cmd :: u32
  rq_errors :: u32
  rq_sector :: u32
  rq_nr_sectors :: u32
  rq_buffer :: io_buffer
  rq_waiting :: u32
  rq_bh :: nat
  rq_next :: nat

text \<open>\<^verbatim>\<open>struct termios\<close> of \<^verbatim>\<open>include/termios.h\<close>.\<close>

record termios_t =
  c_iflag :: u32
  c_oflag :: u32
  c_cflag :: u32
  c_lflag :: u32
  c_line :: u8
  c_cc :: "nat \<Rightarrow> u8"

record fs_state = kstate +
  tty_termios :: "nat \<Rightarrow> termios_t"
  bufs :: "nat \<Rightarrow> buffer_head"
  nr_buffers :: nat
  hash_table :: "nat \<Rightarrow> nat"
  free_list :: nat
  buffer_wait :: u32
  inode_table :: "u32 \<Rightarrow> m_inode"
  last_inode :: nat
  file_table :: "u32 \<Rightarrow> file_t"
  super_block :: "nat \<Rightarrow> super_block_t"
  ROOT_DEV :: u32
  request :: "nat \<Rightarrow> request_t"
  wait_for_request :: u32
  has_request_fn :: "nat \<Rightarrow> bool"
  current_request :: "nat \<Rightarrow> nat"
  blk_size :: "nat \<Rightarrow> (nat \<Rightarrow> u32) option"
  rd_start :: u32
  rd_length :: u32

datatype wait_channel =
    On_Buffer nat
  | On_Buffer_Queue
  | On_Inode u32
  | On_Inode2 u32
  | On_Super nat
  | On_Request

record fs_env =
  sleep_on :: "wait_channel \<Rightarrow> fs_state \<Rightarrow> fs_state"
  interruptible_sleep_on :: "wait_channel \<Rightarrow> fs_state \<Rightarrow> fs_state"
  resume_after :: "fs_state \<Rightarrow> fs_state"
  request_fn :: "nat \<Rightarrow> fs_state \<Rightarrow> (fs_state, unit) outcome"
  floppy_change :: "u32 \<Rightarrow> fs_state \<Rightarrow> bool \<times> fs_state"
  tty_read :: "u32 \<Rightarrow> u32 \<Rightarrow> int \<Rightarrow> fs_state \<Rightarrow> (fs_state, int) outcome"
  tty_write :: "u32 \<Rightarrow> u32 \<Rightarrow> int \<Rightarrow> fs_state \<Rightarrow> (fs_state, int) outcome"
  tty_ioctl :: "u32 \<Rightarrow> u32 \<Rightarrow> u32 \<Rightarrow> fs_state \<Rightarrow> (fs_state, int) outcome"
  inb :: "u16 \<Rightarrow> fs_state \<Rightarrow> u8"
  nesting :: nat

type_synonym 'a fs_out = "(fs_state, 'a) outcome"

subsection \<open>Writing through pointers\<close>

definition upd_buf :: "nat \<Rightarrow> (buffer_head \<Rightarrow> buffer_head) \<Rightarrow> fs_state \<Rightarrow> fs_state" where
  "upd_buf b f s = s\<lparr>bufs := (bufs s)(b := f (bufs s b))\<rparr>"

definition upd_inode :: "u32 \<Rightarrow> (m_inode \<Rightarrow> m_inode) \<Rightarrow> fs_state \<Rightarrow> fs_state" where
  "upd_inode p f s = s\<lparr>inode_table := (inode_table s)(p := f (inode_table s p))\<rparr>"

definition upd_file :: "u32 \<Rightarrow> (file_t \<Rightarrow> file_t) \<Rightarrow> fs_state \<Rightarrow> fs_state" where
  "upd_file p f s = s\<lparr>file_table := (file_table s)(p := f (file_table s p))\<rparr>"

definition upd_super :: "nat \<Rightarrow> (super_block_t \<Rightarrow> super_block_t) \<Rightarrow> fs_state \<Rightarrow> fs_state" where
  "upd_super i f s = s\<lparr>super_block := (super_block s)(i := f (super_block s i))\<rparr>"

definition upd_request :: "nat \<Rightarrow> (request_t \<Rightarrow> request_t) \<Rightarrow> fs_state \<Rightarrow> fs_state" where
  "upd_request r f s = s\<lparr>request := (request s)(r := f (request s r))\<rparr>"

definition set_i_count :: "u32 \<Rightarrow> u16 \<Rightarrow> fs_state \<Rightarrow> fs_state" where
  "set_i_count p n s = s\<lparr>i_count := (i_count s)(p := n)\<rparr>"

definition set_f_count :: "u32 \<Rightarrow> u16 \<Rightarrow> fs_state \<Rightarrow> fs_state" where
  "set_f_count p n s = s\<lparr>f_count := (f_count s)(p := n)\<rparr>"

text \<open>The pointers to the entries of the tables, in the order of the array.\<close>

definition buf_ptrs :: "fs_state \<Rightarrow> nat list" where
  "buf_ptrs s = [1..<nr_buffers s + 1]"

definition inode_ptr :: "nat \<Rightarrow> u32" where
  "inode_ptr k = of_nat (k + 1)"

definition inode_ptrs :: "u32 list" where
  "inode_ptrs = map inode_ptr [0..<NR_INODE]"

definition file_ptrs :: "u32 list" where
  "file_ptrs = map inode_ptr [0..<NR_FILE]"

subsection \<open>Numbers in a block\<close>

text \<open>The \<open>short\<close> and the \<open>long\<close> at a byte offset of a block, as the processor stores them.\<close>

definition get_le16 :: "(nat \<Rightarrow> u8) \<Rightarrow> nat \<Rightarrow> u16" where
  "get_le16 d off = ucast (d off) OR push_bit 8 (ucast (d (off + 1)))"

definition put_le16 :: "nat \<Rightarrow> u16 \<Rightarrow> (nat \<Rightarrow> u8) \<Rightarrow> nat \<Rightarrow> u8" where
  "put_le16 off v d = d(off := ucast v, off + 1 := ucast (drop_bit 8 v))"

definition get_le32 :: "(nat \<Rightarrow> u8) \<Rightarrow> nat \<Rightarrow> u32" where
  "get_le32 d off = ucast (get_le16 d off) OR push_bit 16 (ucast (get_le16 d (off + 2)))"

definition put_le32 :: "nat \<Rightarrow> u32 \<Rightarrow> (nat \<Rightarrow> u8) \<Rightarrow> nat \<Rightarrow> u8" where
  "put_le32 off v d = put_le16 (off + 2) (ucast (drop_bit 16 v)) (put_le16 off (ucast v) d)"

lemma get_put_le16 [simp]: "get_le16 (put_le16 off v d) off = v"
proof (rule bit_word_eqI)
  fix n assume "n < LENGTH(16)"
  then have "n < 8 \<or> 8 \<le> n \<and> n < 16" by auto
  then show "bit (get_le16 (put_le16 off v d) off) n = bit v n"
    by (auto simp: get_le16_def put_le16_def bit_or_iff bit_push_bit_iff bit_ucast_iff bit_drop_bit_eq)
qed

lemma get_put_le16_apart: "off + 1 < off' \<or> off' + 1 < off \<Longrightarrow> get_le16 (put_le16 off' v d) off = get_le16 d off"
  by (auto simp: get_le16_def put_le16_def)

lemma get_put_le32 [simp]: "get_le32 (put_le32 off v d) off = v"
proof (rule bit_word_eqI)
  fix n assume n: "n < LENGTH(32)"
  have "get_le16 (put_le32 off v d) off = ucast v" "get_le16 (put_le32 off v d) (off + 2) = ucast (drop_bit 16 v)"
    by (simp_all add: put_le32_def get_put_le16_apart)
  moreover have "n < 16 \<or> 16 \<le> n \<and> n < 32" using n by auto
  ultimately show "bit (get_le32 (put_le32 off v d) off) n = bit v n"
    by (auto simp: get_le32_def bit_or_iff bit_push_bit_iff bit_ucast_iff bit_drop_bit_eq)
qed

subsection \<open>What the updates leave alone\<close>

lemma upd_buf_sel [simp]:
  "bufs (upd_buf b f s) = (bufs s)(b := f (bufs s b))" "nr_buffers (upd_buf b f s) = nr_buffers s"
  "hash_table (upd_buf b f s) = hash_table s" "free_list (upd_buf b f s) = free_list s"
  "buffer_wait (upd_buf b f s) = buffer_wait s" "inode_table (upd_buf b f s) = inode_table s"
  "super_block (upd_buf b f s) = super_block s" "i_count (upd_buf b f s) = i_count s"
  "cur (upd_buf b f s) = cur s" "ts (upd_buf b f s) = ts s" "current (upd_buf b f s) = current s"
  "request (upd_buf b f s) = request s" "current_request (upd_buf b f s) = current_request s"
  "has_request_fn (upd_buf b f s) = has_request_fn s" "file_table (upd_buf b f s) = file_table s"
  "f_count (upd_buf b f s) = f_count s" "fs_mem (upd_buf b f s) = fs_mem s"
  "jiffies (upd_buf b f s) = jiffies s" "startup_time (upd_buf b f s) = startup_time s"
  "jiffies_offset (upd_buf b f s) = jiffies_offset s" "last_inode (upd_buf b f s) = last_inode s"
  by (simp_all add: upd_buf_def cur_def)

lemma upd_inode_sel [simp]:
  "inode_table (upd_inode p g s) = (inode_table s)(p := g (inode_table s p))"
  "bufs (upd_inode p g s) = bufs s" "nr_buffers (upd_inode p g s) = nr_buffers s"
  "hash_table (upd_inode p g s) = hash_table s" "free_list (upd_inode p g s) = free_list s"
  "super_block (upd_inode p g s) = super_block s" "i_count (upd_inode p g s) = i_count s"
  "cur (upd_inode p g s) = cur s" "ts (upd_inode p g s) = ts s" "current (upd_inode p g s) = current s"
  "file_table (upd_inode p g s) = file_table s" "f_count (upd_inode p g s) = f_count s"
  "fs_mem (upd_inode p g s) = fs_mem s" "pmem (upd_inode p g s) = pmem s"
  "jiffies (upd_inode p g s) = jiffies s" "last_inode (upd_inode p g s) = last_inode s"
  by (simp_all add: upd_inode_def cur_def)

subsection \<open>A small file system state\<close>

text \<open>
  Three buffers in a ring: 1 and 2 hold blocks 5 and 6 of \<^verbatim>\<open>/dev/hda1\<close> (0x301), 3 is unused; no other table is
  in use. The witnesses of the properties start from it.
\<close>

definition demo_buf :: "u16 \<Rightarrow> u32 \<Rightarrow> nat \<Rightarrow> nat \<Rightarrow> buffer_head" where
  "demo_buf dev block prev next =
    \<lparr>b_data = (\<lambda>_. 0), b_blocknr = block, b_dev = dev, b_uptodate = (if dev = 0 then 0 else 1), b_dirt = 0,
     b_count = 0, b_lock = 0, b_wait = 0, b_prev = 0, b_next = 0, b_prev_free = prev, b_next_free = next\<rparr>"

definition demo_inode :: m_inode where
  "demo_inode =
    \<lparr>i_mode = 0, i_uid = 0, i_size = 0, i_mtime = 0, i_gid = 0, i_nlinks = 0, i_zone = (\<lambda>_. 0), i_wait = 0,
     i_wait2 = 0, i_atime = 0, i_ctime = 0, i_dev = 0, i_num = 0, i_lock = 0, i_dirt = 0, i_pipe = 0,
     i_mount = 0, i_seek = 0, i_update = 0\<rparr>"

definition demo_super :: super_block_t where
  "demo_super =
    \<lparr>s_ninodes = 0, s_nzones = 0, s_imap_blocks = 0, s_zmap_blocks = 0, s_firstdatazone = 0,
     s_log_zone_size = 0, s_max_size = 0, s_magic = 0, s_imap = (\<lambda>_. 0), s_zmap = (\<lambda>_. 0), s_dev = 0,
     s_isup = 0, s_imount = 0, s_time = 0, s_wait = 0, s_lock = 0, s_rd_only = 0, s_dirt = 0\<rparr>"

definition demo_request :: "u32 \<Rightarrow> nat \<Rightarrow> nat \<Rightarrow> request_t" where
  "demo_request sector bh next =
    \<lparr>rq_dev = 0x301, rq_cmd = READ, rq_errors = 0, rq_sector = sector, rq_nr_sectors = 2,
     rq_buffer = Data_Of bh, rq_waiting = 0, rq_bh = bh, rq_next = next\<rparr>"

definition demo_fs :: fs_state where
  "demo_fs = kstate.extend demo_kernel (fs_state.fields
     (\<lambda>_. \<lparr>c_iflag = 0, c_oflag = 0, c_cflag = 0, c_lflag = 0, c_line = 0, c_cc = (\<lambda>_. 0)\<rparr>)
     (\<lambda>b. if b = 1 then demo_buf 0x301 5 3 2 else if b = 2 then demo_buf 0x301 6 1 3
          else if b = 3 then demo_buf 0 0 2 1 else demo_buf 0 0 0 0)
     3 (\<lambda>k. if k = 158 then 1 else if k = 161 then 2 else 0) 1 0 (\<lambda>_. demo_inode) 0
     (\<lambda>_. \<lparr>f_mode = 0, f_flags = 0, f_inode = 0, f_pos = 0\<rparr>) (\<lambda>_. demo_super) 0x301
     (\<lambda>_. (demo_request 0 0 0)\<lparr>rq_dev := - 1\<rparr>) 0 (\<lambda>k. k = 3) (\<lambda>_. 0) (\<lambda>_. None) 0 0)"

definition demo_env :: fs_env where
  "demo_env =
    \<lparr>sleep_on = (\<lambda>_ s. s), interruptible_sleep_on = (\<lambda>_ s. s), resume_after = (\<lambda>s. s),
     request_fn = (\<lambda>_. Done ()), floppy_change = (\<lambda>_ s. (False, s)), tty_read = (\<lambda>_ _ _. Done 0),
     tty_write = (\<lambda>_ _ n. Done n), tty_ioctl = (\<lambda>_ _ _. Done 0), inb = (\<lambda>_ _. 0), nesting = 3\<rparr>"

lemma demo_fs_sel [simp]:
  "nr_buffers demo_fs = 3" "free_list demo_fs = 1" "inode_table demo_fs = (\<lambda>_. demo_inode)"
  "bufs demo_fs = (\<lambda>b. if b = 1 then demo_buf 0x301 5 3 2 else if b = 2 then demo_buf 0x301 6 1 3
          else if b = 3 then demo_buf 0 0 2 1 else demo_buf 0 0 0 0)"
  "hash_table demo_fs = (\<lambda>k. if k = 158 then 1 else if k = 161 then 2 else 0)"
  "current_request demo_fs = (\<lambda>_. 0)" "current demo_fs = 0x2000" "cur demo_fs = demo_task"
  "i_count demo_fs = (\<lambda>_. 0)" "f_count demo_fs = (\<lambda>_. 0)" "fs_mem demo_fs = (\<lambda>_. 0)" "pmem demo_fs = (\<lambda>_. 0)"
  by (simp_all add: demo_fs_def demo_kernel_def kstate.defs fs_state.defs cur_def)

end
