(* ===== verification/Linked_Lists.thy ===== *)
theory Linked_Lists
  imports Kernel_Prelude
begin

section \<open>Lists that live in pointer fields\<close>

text \<open>
  The kernel strings its objects together through fields of the objects themselves. \<open>nx\<close> and \<open>pv\<close> are
  the fields as functions of the object, 0 is NULL. A \<open>path\<close> is a list that ends in NULL (the request
  queue of a device), a \<open>chain\<close> is one with back pointers (a hash queue of the buffer cache), a \<open>ring\<close> is a
  circular list with back pointers (the free list of the buffer cache). Each predicate takes the list of the
  objects in order, so that what an operation does to the pointers is a function on lists.
\<close>

subsection \<open>Lists that end in NULL\<close>

primrec path_to :: "('a::zero \<Rightarrow> 'a) \<Rightarrow> 'a \<Rightarrow> 'a list \<Rightarrow> bool" where
  "path_to nx h [] \<longleftrightarrow> h = 0"
| "path_to nx h (x # xs) \<longleftrightarrow> h = x \<and> x \<noteq> 0 \<and> path_to nx (nx x) xs"

lemma path_to_cong: "(\<And>x. x \<in> set xs \<Longrightarrow> nx x = nx' x) \<Longrightarrow> path_to nx h xs = path_to nx' h xs"
  by (induction xs arbitrary: h) auto

lemma path_to_unique: "path_to nx h xs \<Longrightarrow> path_to nx h ys \<Longrightarrow> xs = ys"
proof (induction xs arbitrary: h ys)
  case Nil
  then show ?case by (cases ys) auto
next
  case (Cons x xs)
  then show ?case by (cases ys) auto
qed

lemma path_to_nonzero: "path_to nx h xs \<Longrightarrow> 0 \<notin> set xs"
  by (induction xs arbitrary: h) auto

lemma path_to_first: "path_to nx h xs \<Longrightarrow> h = (case xs of [] \<Rightarrow> 0 | x # _ \<Rightarrow> x)"
  by (cases xs) auto

text \<open>Taking an object out: what comes before it points past it.\<close>

lemma path_to_remove:
  assumes "path_to nx h (xs @ b # ys)" "distinct (xs @ b # ys)"
    and "\<And>x. x \<in> set (xs @ ys) \<Longrightarrow> nx' x = (if xs \<noteq> [] \<and> x = last xs then nx b else nx x)"
  shows "path_to nx' (if xs = [] then nx b else h) (xs @ ys)"
  using assms
proof (induction xs arbitrary: h)
  case Nil
  have "nx' x = nx x" if "x \<in> set ys" for x
    using Nil.prems(3)[of x] that by simp
  then have "path_to nx' (nx b) ys = path_to nx (nx b) ys" by (rule path_to_cong)
  then show ?case using Nil.prems(1) by simp
next
  case (Cons x xs)
  have "path_to nx' (if xs = [] then nx b else nx x) (xs @ ys)"
    using Cons.prems by (intro Cons.IH) auto
  then show ?case using Cons.prems by (cases xs) auto
qed

text \<open>Putting an object in after another.\<close>

lemma path_to_insert:
  assumes "path_to nx h (xs @ a # ys)" "distinct (xs @ a # ys)" "b \<notin> set (xs @ a # ys)" "b \<noteq> 0"
    and "nx' a = b" "nx' b = nx a" "\<And>x. x \<noteq> a \<Longrightarrow> x \<noteq> b \<Longrightarrow> nx' x = nx x"
  shows "path_to nx' h (xs @ a # b # ys)"
  using assms
proof (induction xs arbitrary: h)
  case Nil
  then have "path_to nx' (nx a) ys = path_to nx (nx a) ys"
    by (intro path_to_cong) (metis append_Nil distinct.simps(2) list.set_intros(2))
  then show ?case using Nil by simp
qed auto

subsection \<open>Lists with back pointers\<close>

text \<open>\<open>p\<close> is what the back pointer of the first object holds.\<close>

primrec prevs :: "(nat \<Rightarrow> nat) \<Rightarrow> nat \<Rightarrow> nat list \<Rightarrow> bool" where
  "prevs pv p [] \<longleftrightarrow> True"
| "prevs pv p (x # xs) \<longleftrightarrow> pv x = p \<and> prevs pv x xs"

definition chain :: "(nat \<Rightarrow> nat) \<Rightarrow> (nat \<Rightarrow> nat) \<Rightarrow> nat \<Rightarrow> nat list \<Rightarrow> bool" where
  "chain nx pv h xs \<longleftrightarrow> path_to nx h xs \<and> prevs pv 0 xs \<and> distinct xs"

lemma prevs_cong: "(\<And>x. x \<in> set xs \<Longrightarrow> pv x = pv' x) \<Longrightarrow> prevs pv p xs = prevs pv' p xs"
  by (induction xs arbitrary: p) auto

lemma prevs_append: "prevs pv p (xs @ ys) \<longleftrightarrow> prevs pv p xs \<and> prevs pv (last (p # xs)) ys"
  by (induction xs arbitrary: p) auto

lemma prevs_remove:
  assumes "prevs pv p (xs @ b # ys)" "distinct (xs @ b # ys)" "0 \<notin> set (xs @ b # ys)"
    and "\<And>x. x \<in> set (xs @ ys) \<Longrightarrow> pv' x = (if ys \<noteq> [] \<and> x = hd ys then pv b else pv x)"
  shows "prevs pv' p (xs @ ys)"
proof -
  have 1: "prevs pv p xs" "pv b = last (p # xs)" "prevs pv b ys"
    using assms(1) by (auto simp: prevs_append)
  have "pv x = pv' x" if "x \<in> set xs" for x
  proof -
    have "x \<notin> set ys" using assms(2) that by auto
    then show ?thesis using assms(4)[of x] that by (cases ys) auto
  qed
  then have "prevs pv' p xs" using 1 by (subst prevs_cong[of _ pv' pv]) auto
  moreover have "prevs pv' (last (p # xs)) ys"
  proof (cases ys)
    case (Cons y zs)
    have "pv x = pv' x" if "x \<in> set zs" for x
    proof -
      have "x \<noteq> y" using assms(2) that Cons by auto
      then show ?thesis using assms(4)[of x] Cons that by simp
    qed
    then have "prevs pv' y zs" using 1 Cons by (subst prevs_cong[of _ pv' pv]) auto
    then show ?thesis using assms(2-4) Cons 1 by simp
  qed simp
  ultimately show ?thesis by (simp add: prevs_append)
qed

lemma chain_remove:
  assumes "chain nx pv h (xs @ b # ys)"
    and "\<And>x. x \<in> set (xs @ ys) \<Longrightarrow> nx' x = (if xs \<noteq> [] \<and> x = last xs then nx b else nx x)"
    and "\<And>x. x \<in> set (xs @ ys) \<Longrightarrow> pv' x = (if ys \<noteq> [] \<and> x = hd ys then pv b else pv x)"
  shows "chain nx' pv' (if xs = [] then nx b else h) (xs @ ys)"
proof -
  have c: "path_to nx h (xs @ b # ys)" "prevs pv 0 (xs @ b # ys)" "distinct (xs @ b # ys)"
    using assms(1) by (simp_all add: chain_def)
  have "prevs pv' 0 (xs @ ys)"
    by (rule prevs_remove[OF c(2,3) path_to_nonzero[OF c(1)]]) (use assms(3) in blast)
  moreover have "path_to nx' (if xs = [] then nx b else h) (xs @ ys)"
    by (rule path_to_remove[OF c(1,3)]) (use assms(2) in blast)
  ultimately show ?thesis using c(3) by (simp add: chain_def)
qed

lemma chain_cong:
  "(\<And>x. x \<in> set xs \<Longrightarrow> nx x = nx' x \<and> pv x = pv' x) \<Longrightarrow> chain nx pv h xs = chain nx' pv' h xs"
  by (simp add: chain_def path_to_cong[of xs nx nx'] prevs_cong[of xs pv pv'])

text \<open>The pointers of an object in a chain.\<close>

lemma chain_at:
  assumes "chain nx pv h (xs @ b # ys)"
  shows "nx b = (case ys of [] \<Rightarrow> 0 | y # _ \<Rightarrow> y)" "pv b = (if xs = [] then 0 else last xs)" "h = b \<longleftrightarrow> xs = []"
    "b \<noteq> 0" "0 \<notin> set (xs @ ys)" "b \<notin> set (xs @ ys)"
proof -
  have "path_to nx h (xs @ b # ys) \<Longrightarrow> nx b = (case ys of [] \<Rightarrow> 0 | y # _ \<Rightarrow> y)" for h
    by (induction xs arbitrary: h) (auto dest: path_to_first)
  then show "nx b = (case ys of [] \<Rightarrow> 0 | y # _ \<Rightarrow> y)" using assms by (auto simp: chain_def)
  show "pv b = (if xs = [] then 0 else last xs)" using assms by (auto simp: chain_def prevs_append)
  show "h = b \<longleftrightarrow> xs = []" using assms by (cases xs) (auto simp: chain_def)
  have "0 \<notin> set (xs @ b # ys)" using assms path_to_nonzero unfolding chain_def by blast
  then show "b \<noteq> 0" "0 \<notin> set (xs @ ys)" by auto
  show "b \<notin> set (xs @ ys)" using assms by (auto simp: chain_def)
qed

text \<open>Putting an object in front.\<close>

lemma chain_push:
  assumes "chain nx pv h xs" "b \<notin> set xs" "b \<noteq> 0" "nx' b = h" "pv' b = 0" "h \<noteq> 0 \<Longrightarrow> pv' h = b"
    and "\<And>x. x \<in> set xs \<Longrightarrow> nx' x = nx x" "\<And>x. x \<in> set xs \<Longrightarrow> x \<noteq> h \<Longrightarrow> pv' x = pv x"
  shows "chain nx' pv' b (b # xs)"
proof -
  have c: "path_to nx h xs" "prevs pv 0 xs" "distinct xs" "0 \<notin> set xs"
    using assms(1) path_to_nonzero by (auto simp: chain_def)
  have "path_to nx' h xs" using c(1) assms(7) by (subst path_to_cong[of _ nx' nx]) auto
  moreover have "prevs pv' b xs"
  proof (cases xs)
    case (Cons y ys)
    have "pv' x = pv x" if "x \<in> set ys" for x
      using assms(8)[of x] c Cons that by auto
    then have "prevs pv' y ys" using c(2) Cons by (subst prevs_cong[of _ pv' pv]) auto
    then show ?thesis using assms(6) c Cons by simp
  qed simp
  ultimately show ?thesis using assms(2-5) c(3) by (simp add: chain_def)
qed

subsection \<open>Circular lists with back pointers\<close>

text \<open>\<open>seg nx pv a xs b\<close>: from \<open>a\<close> through \<open>xs\<close> to \<open>b\<close>, and back.\<close>

primrec seg :: "(nat \<Rightarrow> nat) \<Rightarrow> (nat \<Rightarrow> nat) \<Rightarrow> nat \<Rightarrow> nat list \<Rightarrow> nat \<Rightarrow> bool" where
  "seg nx pv a [] b \<longleftrightarrow> nx a = b \<and> pv b = a"
| "seg nx pv a (x # xs) b \<longleftrightarrow> nx a = x \<and> pv x = a \<and> seg nx pv x xs b"

fun ring :: "(nat \<Rightarrow> nat) \<Rightarrow> (nat \<Rightarrow> nat) \<Rightarrow> nat list \<Rightarrow> bool" where
  "ring nx pv [] \<longleftrightarrow> False"
| "ring nx pv (x # xs) \<longleftrightarrow> seg nx pv x xs x"

lemma seg_append: "seg nx pv a (xs @ y # ys) b \<longleftrightarrow> seg nx pv a xs y \<and> seg nx pv y ys b"
  by (induction xs arbitrary: a) auto

lemma seg_cong:
  assumes "\<And>x. x \<in> set (a # xs) \<Longrightarrow> nx x = nx' x" "\<And>x. x \<in> set (xs @ [b]) \<Longrightarrow> pv x = pv' x"
  shows "seg nx pv a xs b = seg nx' pv' a xs b"
  using assms by (induction xs arbitrary: a) auto

text \<open>A ring can be read from any of its objects.\<close>

lemma ring_rotate: "ring nx pv (xs @ ys) \<longleftrightarrow> ring nx pv (ys @ xs)"
  by (cases xs; cases ys) (auto simp: seg_append)

text \<open>Taking an object out of a ring, and putting one in before the first.\<close>

lemma ring_remove:
  assumes "ring nx pv (b # zs)" "distinct (b # zs)" "zs \<noteq> []"
    and "\<And>x. x \<noteq> b \<Longrightarrow> nx' x = (if x = pv b then nx b else nx x)"
    and "\<And>x. x \<noteq> b \<Longrightarrow> pv' x = (if x = nx b then pv b else pv x)"
  shows "ring nx' pv' zs" "nx b = hd zs" "pv b = last zs"
proof -
  obtain z ys where z: "zs = z # ys" using assms(3) by (cases zs) auto
  have s: "nx b = z" "pv z = b" "seg nx pv z ys b" using assms(1) z by auto
  show h: "nx b = hd zs" using s z by simp
  show "pv b = last zs" using s(3) z by (cases ys rule: rev_cases) (auto simp: seg_append)
  show "ring nx' pv' zs"
  proof (cases ys rule: rev_cases)
    case Nil
    then show ?thesis using assms(2,4,5) s z by simp
  next
    case (snoc us u)
    have u: "pv b = u" "nx u = b" "seg nx pv z us u" using s(3) snoc by (auto simp: seg_append)
    have "seg nx' pv' z us u"
      using u(3)
    proof (rule seg_cong[THEN iffD1, rotated -1])
      fix x assume "x \<in> set (z # us)"
      then have "x \<noteq> b" "x \<noteq> u" using assms(2) z snoc by auto
      then show "nx x = nx' x" using assms(4)[of x] u(1) by simp
    next
      fix x assume "x \<in> set (us @ [u])"
      then have "x \<noteq> b" "x \<noteq> z" using assms(2) z snoc by auto
      then show "pv x = pv' x" using assms(5)[of x] s(1) by simp
    qed
    moreover have "nx' u = z" "pv' z = u" using assms(2,4,5) z snoc s(1) u(1) by auto
    ultimately show ?thesis using z snoc by (auto simp: seg_append)
  qed
qed

lemma ring_insert:
  assumes "ring nx pv (h # zs)" "distinct (b # h # zs)"
    and "nx' b = h" "pv' b = pv h" "pv' h = b" "nx' (pv h) = b"
    and "\<And>x. x \<noteq> b \<Longrightarrow> x \<noteq> pv h \<Longrightarrow> nx' x = nx x" "\<And>x. x \<noteq> b \<Longrightarrow> x \<noteq> h \<Longrightarrow> pv' x = pv x"
  shows "ring nx' pv' (h # zs @ [b])"
proof (cases zs rule: rev_cases)
  case Nil
  then show ?thesis using assms by auto
next
  case (snoc us u)
  have u: "pv h = u" "nx u = h" "seg nx pv h us u" using assms(1) snoc by (auto simp: seg_append)
  have "seg nx' pv' h us u"
    using u(3)
  proof (rule seg_cong[THEN iffD1, rotated -1])
    fix x assume "x \<in> set (h # us)"
    then have "x \<noteq> b" "x \<noteq> u" using assms(2) snoc by auto
    then show "nx x = nx' x" using assms(7)[of x] u(1) by simp
  next
    fix x assume "x \<in> set (us @ [u])"
    then have "x \<noteq> b" "x \<noteq> h" using assms(2) snoc by auto
    then show "pv x = pv' x" using assms(8)[of x] by simp
  qed
  then show ?thesis using assms(3-6) u(1) snoc by (simp add: seg_append)
qed

end
