(* ===== verification/Block_Requests.thy ===== *)
theory Block_Requests
  imports Fs_State Linked_Lists "HOL-Library.Product_Lexorder"
begin

section \<open>Requests to block devices\<close>

text \<open>
  \<^verbatim>\<open>kernel/blk_drv/ll_rw_blk.c\<close>, the inline functions of \<^verbatim>\<open>kernel/blk_drv/blk.h\<close> and the RAM disk
  (\<^verbatim>\<open>kernel/blk_drv/ramdisk.c\<close>): the queue of each device, kept in elevator order, and the one device
  whose strategy routine does its work at once. The strategy routine of a device is \<open>request_fn e\<close>.
\<close>

unbundle bit_operations_syntax

subsection \<open>Locking a buffer\<close>

definition wait_on_buffer :: "fs_env \<Rightarrow> nat \<Rightarrow> fs_state \<Rightarrow> unit fs_out" where
  "wait_on_buffer e bh = await (\<lambda>s. b_lock (bufs s bh) \<noteq> 0) (sleep_on e (On_Buffer bh))"

definition lock_buffer :: "fs_env \<Rightarrow> nat \<Rightarrow> fs_state \<Rightarrow> unit fs_out" where
  "lock_buffer e bh s =
    and_then (wait_on_buffer e bh s) (\<lambda>_ s. Done () (upd_buf bh (\<lambda>h. h\<lparr>b_lock := 1\<rparr>) s))"

definition unlock_buffer :: "nat \<Rightarrow> fs_state \<Rightarrow> fs_state" where
  "unlock_buffer bh s =
    (let s = upd_buf bh (\<lambda>h. h\<lparr>b_lock := 0\<rparr>) s in wake_up (b_wait (bufs s bh)) s)"

subsection \<open>The queue of a device\<close>

text \<open>\<^verbatim>\<open>IN_ORDER\<close>: reads before writes, then by device and sector.\<close>

definition IN_ORDER :: "request_t \<Rightarrow> request_t \<Rightarrow> bool" where
  "IN_ORDER s1 s2 \<longleftrightarrow>
    sint (rq_cmd s1) < sint (rq_cmd s2) \<or> rq_cmd s1 = rq_cmd s2 \<and>
    (sint (rq_dev s1) < sint (rq_dev s2) \<or> (rq_dev s1 = rq_dev s2 \<and> rq_sector s1 < rq_sector s2))"

text \<open>The loop of \<open>add_request\<close> that looks for the entry to insert after.\<close>

definition find_place :: "nat \<Rightarrow> nat \<Rightarrow> fs_state \<Rightarrow> nat fs_out" where
  "find_place req = loop (\<lambda>tmp s.
     let r = request s in
     if rq_next (r tmp) = 0 then Done (Leave tmp) s
     else if rq_bh (r req) = 0
     then if rq_bh (r (rq_next (r tmp))) \<noteq> 0 then Done (Leave tmp) s else Done (Again (rq_next (r tmp))) s
     else if (IN_ORDER (r tmp) (r req) \<or> \<not> IN_ORDER (r tmp) (r (rq_next (r tmp)))) \<and>
             IN_ORDER (r req) (r (rq_next (r tmp)))
     then Done (Leave tmp) s
     else Done (Again (rq_next (r tmp))) s)"

definition add_request :: "fs_env \<Rightarrow> nat \<Rightarrow> nat \<Rightarrow> fs_state \<Rightarrow> unit fs_out" where
  "add_request e major req s =
    (let s = upd_request req (\<lambda>r. r\<lparr>rq_next := 0\<rparr>) s;
         s = (if rq_bh (request s req) \<noteq> 0
              then upd_buf (rq_bh (request s req)) (\<lambda>h. h\<lparr>b_dirt := 0\<rparr>) s else s);
         tmp = current_request s major
     in if tmp = 0
        then request_fn e major (s\<lparr>current_request := (current_request s)(major := req)\<rparr>)
        else and_then (find_place req tmp s) (\<lambda>tmp s.
          let s = upd_request req (\<lambda>r. r\<lparr>rq_next := rq_next (request s tmp)\<rparr>) s
          in Done () (upd_request tmp (\<lambda>r. r\<lparr>rq_next := req\<rparr>) s)))"

text \<open>\<^verbatim>\<open>while (--req >= request) if (req->dev<0) break;\<close> from entry \<open>n\<close> down; the result is a pointer.\<close>

definition free_request :: "nat \<Rightarrow> fs_state \<Rightarrow> nat option" where
  "free_request n s = find (\<lambda>p. sint (rq_dev (request s p)) < 0) (rev [1..<n + 1])"

definition make_request :: "fs_env \<Rightarrow> nat \<Rightarrow> u32 \<Rightarrow> nat \<Rightarrow> fs_state \<Rightarrow> unit fs_out" where
  "make_request e major rw bh s =
    (let rw_ahead = (rw = READA \<or> rw = WRITEA);
         rw1 = (if rw_ahead then (if rw = READA then READ else WRITE) else rw)
     in if rw_ahead \<and> b_lock (bufs s bh) \<noteq> 0 then Done () s
        else if rw1 \<noteq> READ \<and> rw1 \<noteq> WRITE then Panics ''Bad block dev command, must be R/W/RA/WA''
        else
          and_then (lock_buffer e bh s) (\<lambda>_ s.
            if rw1 = WRITE \<and> b_dirt (bufs s bh) = 0 \<or> rw1 = READ \<and> b_uptodate (bufs s bh) \<noteq> 0
            then Done () (unlock_buffer bh s)
            else
              loop (\<lambda>_ s.
                case free_request (if rw1 = READ then NR_REQUEST else NR_REQUEST * 2 div 3) s of
                  None \<Rightarrow>
                    if rw_ahead then Done (Leave ()) (unlock_buffer bh s)
                    else Done (Again ()) (sleep_on e On_Request s)
                | Some req \<Rightarrow>
                    let s = upd_request req (\<lambda>_.
                          \<lparr>rq_dev = ucast (b_dev (bufs s bh)), rq_cmd = rw1, rq_errors = 0,
                           rq_sector = push_bit 1 (b_blocknr (bufs s bh)), rq_nr_sectors = 2,
                           rq_buffer = Data_Of bh, rq_waiting = 0, rq_bh = bh, rq_next = 0\<rparr>) s
                    in and_then (add_request e major req s) (\<lambda>_. Done (Leave ()))) () s))"

definition ll_rw_page :: "fs_env \<Rightarrow> u32 \<Rightarrow> u32 \<Rightarrow> u32 \<Rightarrow> u32 \<Rightarrow> fs_state \<Rightarrow> unit fs_out" where
  "ll_rw_page e rw dev page buffer s =
    (let major = MAJOR dev in
     if major \<ge> NR_BLK_DEV \<or> \<not> has_request_fn s (unat major) then Done () s
     else if rw \<noteq> READ \<and> rw \<noteq> WRITE then Panics ''Bad block dev command, must be R/W''
     else
       loop (\<lambda>_ s.
         case free_request NR_REQUEST s of
           None \<Rightarrow> Done (Again ()) (sleep_on e On_Request s)
         | Some req \<Rightarrow>
             let s = upd_request req (\<lambda>_.
                   \<lparr>rq_dev = dev, rq_cmd = rw, rq_errors = 0, rq_sector = push_bit 3 page,
                    rq_nr_sectors = 8, rq_buffer = Page_At buffer, rq_waiting = current s, rq_bh = 0,
                    rq_next = 0\<rparr>) s;
                 s = upd_cur (\<lambda>t. t\<lparr>state := TASK_UNINTERRUPTIBLE\<rparr>) s
             in and_then (add_request e (unat major) req s) (\<lambda>_ s.
                and_then (reschedule (resume_after e) s) (\<lambda>_. Done (Leave ())))) () s)"

definition ll_rw_block :: "fs_env \<Rightarrow> u32 \<Rightarrow> nat \<Rightarrow> fs_state \<Rightarrow> unit fs_out" where
  "ll_rw_block e rw bh s =
    (let major = MAJOR (ucast (b_dev (bufs s bh))) in
     if major \<ge> NR_BLK_DEV \<or> \<not> has_request_fn s (unat major) then Done () s
     else make_request e (unat major) rw bh s)"

definition blk_dev_init :: "fs_state \<Rightarrow> fs_state" where
  "blk_dev_init s =
    fold (\<lambda>i. upd_request (i + 1) (\<lambda>r. r\<lparr>rq_dev := - 1, rq_next := 0\<rparr>)) [0..<NR_REQUEST] s"

subsection \<open>The end of a request\<close>

text \<open>
  \<open>end_request\<close> is compiled into each driver; \<open>off\<close> is its \<^verbatim>\<open>DEVICE_OFF\<close>, which is empty but for the floppy.
\<close>

definition end_request :: "(u32 \<Rightarrow> fs_state \<Rightarrow> fs_state) \<Rightarrow> nat \<Rightarrow> u8 \<Rightarrow> fs_state \<Rightarrow> fs_state" where
  "end_request off major uptodate s =
    (let c = current_request s major;
         s = off (rq_dev (request s c)) s;
         s = (if rq_bh (request s c) \<noteq> 0
              then unlock_buffer (rq_bh (request s c))
                     (upd_buf (rq_bh (request s c)) (\<lambda>h. h\<lparr>b_uptodate := uptodate\<rparr>) s)
              else s);
         s = wake_up (rq_waiting (request s c)) s;
         s = wake_up (wait_for_request s) s;
         s = upd_request c (\<lambda>r. r\<lparr>rq_dev := - 1\<rparr>) s
     in s\<lparr>current_request := (current_request s)(major := rq_next (request s c))\<rparr>)"

subsection \<open>The RAM disk\<close>

text \<open>A byte of physical memory, which the model keeps in words.\<close>

definition load_byte :: "u32 \<Rightarrow> 'a mm_state_scheme \<Rightarrow> u8" where
  "load_byte a s = ucast (drop_bit (8 * unat (a AND 3)) (pmem s (a AND NOT 3)))"

definition store_byte :: "u32 \<Rightarrow> u8 \<Rightarrow> 'a mm_state_scheme \<Rightarrow> 'a mm_state_scheme" where
  "store_byte a v s =
    (let k = 8 * unat (a AND 3); w = a AND NOT 3
     in write_long w ((pmem s w AND NOT (push_bit k 0xff)) OR push_bit k (ucast v)) s)"

text \<open>\<^verbatim>\<open>memcpy\<close> between memory and the buffer of a request, \<open>n\<close> bytes.\<close>

definition buffer_byte :: "io_buffer \<Rightarrow> nat \<Rightarrow> fs_state \<Rightarrow> u8" where
  "buffer_byte b i s =
    (case b of Data_Of h \<Rightarrow> b_data (bufs s h) i | Page_At p \<Rightarrow> load_byte (p + of_nat i) s)"

definition set_buffer_byte :: "io_buffer \<Rightarrow> nat \<Rightarrow> u8 \<Rightarrow> fs_state \<Rightarrow> fs_state" where
  "set_buffer_byte b i v s =
    (case b of Data_Of h \<Rightarrow> upd_buf h (\<lambda>h. h\<lparr>b_data := (b_data h)(i := v)\<rparr>) s
     | Page_At p \<Rightarrow> store_byte (p + of_nat i) v s)"

definition do_rd_request :: "fs_state \<Rightarrow> unit fs_out" where
  "do_rd_request = loop (\<lambda>_ s.
     let c = current_request s 1; r = request s c in
     if c = 0 then Done (Leave ()) s
     else if MAJOR (rq_dev r) \<noteq> 1 then Panics ''ramdisk: request list destroyed''
     else if rq_bh r \<noteq> 0 \<and> b_lock (bufs s (rq_bh r)) = 0 then Panics ''ramdisk: block not locked''
     else
       let addr = rd_start s + push_bit 9 (rq_sector r);
           len = push_bit 9 (rq_nr_sectors r)
       in if MINOR (rq_dev r) \<noteq> 1 \<or> addr + len > rd_start s + rd_length s
          then Done (Again ()) (end_request (\<lambda>_ s. s) 1 0 s)
          else if rq_cmd r = WRITE
          then Done (Again ()) (end_request (\<lambda>_ s. s) 1 1
                 (fold (\<lambda>i s. store_byte (addr + of_nat i) (buffer_byte (rq_buffer r) i s) s) [0..<unat len] s))
          else if rq_cmd r = READ
          then Done (Again ()) (end_request (\<lambda>_ s. s) 1 1
                 (fold (\<lambda>i s. set_buffer_byte (rq_buffer r) i (load_byte (addr + of_nat i) s) s) [0..<unat len] s))
          else Panics ''unknown ramdisk-command'') ()"

definition rd_init :: "u32 \<Rightarrow> u32 \<Rightarrow> fs_state \<Rightarrow> u32 \<times> fs_state" where
  "rd_init mem_start len s =
    (let s = s\<lparr>has_request_fn := (has_request_fn s)(1 := True), rd_start := mem_start, rd_length := len\<rparr>
     in (len, fold (\<lambda>i. store_byte (mem_start + of_nat i) 0) [0..<nat (sint len)] s))"

subsection \<open>The order of requests\<close>

text \<open>
  \<open>IN_ORDER\<close> is a linear order on what it looks at: command, device and first sector. \<^verbatim>\<open>cmd\<close> and \<^verbatim>\<open>dev\<close> are
  \<open>int\<close>s, the sector is unsigned.
\<close>

datatype request_key = Key (the_key: "int \<times> int \<times> nat")

instantiation request_key :: linorder
begin

definition less_eq_request_key :: "request_key \<Rightarrow> request_key \<Rightarrow> bool" where
  "less_eq_request_key a b \<longleftrightarrow> the_key a \<le> the_key b"

definition less_request_key :: "request_key \<Rightarrow> request_key \<Rightarrow> bool" where
  "less_request_key a b \<longleftrightarrow> the_key a < the_key b"

instance
  by standard (auto simp: less_eq_request_key_def less_request_key_def request_key.expand)

end

definition rq_key :: "request_t \<Rightarrow> request_key" where
  "rq_key r = Key (sint (rq_cmd r), sint (rq_dev r), unat (rq_sector r))"

lemma IN_ORDER_key: "IN_ORDER r1 r2 \<longleftrightarrow> rq_key r1 < rq_key r2"
  by (auto simp: IN_ORDER_def rq_key_def less_request_key_def word_less_nat_alt dest: signed_word_eqI)

subsection \<open>The elevator\<close>

text \<open>
  Whether \<open>req\<close> belongs between the neighbours \<open>tmp\<close> and \<open>n\<close>, and the queue after \<open>req\<close> has been put into
  the queue \<open>tmp # ns\<close>, whose first request is under way.
\<close>

definition belongs_between :: "(nat \<Rightarrow> request_t) \<Rightarrow> nat \<Rightarrow> nat \<Rightarrow> nat \<Rightarrow> bool" where
  "belongs_between r req tmp n \<longleftrightarrow>
    (if rq_bh (r req) = 0 then rq_bh (r n) \<noteq> 0
     else (rq_key (r tmp) < rq_key (r req) \<or> \<not> rq_key (r tmp) < rq_key (r n)) \<and> rq_key (r req) < rq_key (r n))"

fun elevator :: "(nat \<Rightarrow> request_t) \<Rightarrow> nat \<Rightarrow> nat \<Rightarrow> nat list \<Rightarrow> nat list" where
  "elevator r req tmp [] = [tmp, req]"
| "elevator r req tmp (n # ns) =
    (if belongs_between r req tmp n then tmp # req # n # ns else tmp # elevator r req n ns)"

lemma elevator_cong:
  "(\<And>p. rq_bh (r p) = rq_bh (r' p) \<and> rq_key (r p) = rq_key (r' p)) \<Longrightarrow> elevator r req tmp ns = elevator r' req tmp ns"
  by (induction ns arbitrary: tmp) (simp_all add: belongs_between_def)

lemma set_elevator [simp]: "set (elevator r req tmp ns) = insert req (set (tmp # ns))"
  by (induction ns arbitrary: tmp) auto

lemma find_place_elevator:
  assumes "path_to (\<lambda>p. rq_next (request s p)) tmp (tmp # ns)"
  shows "\<exists>xs a ys. find_place req tmp s = Done a s \<and> tmp # ns = xs @ a # ys \<and>
    elevator (request s) req tmp ns = xs @ a # req # ys"
  using assms
proof (induction ns arbitrary: tmp)
  case Nil
  then show ?case
    by (intro exI[of _ "[]"] exI[of _ tmp]) (simp add: find_place_def loop_unfold Let_def)
next
  case (Cons n ns)
  let ?r = "request s"
  have n: "rq_next (?r tmp) = n" "n \<noteq> 0" using Cons.prems by auto
  have step: "find_place req tmp s =
      (if belongs_between ?r req tmp n then Done tmp s else find_place req n s)"
    using n unfolding find_place_def
    by (subst loop_unfold) (simp add: Let_def belongs_between_def IN_ORDER_key)
  show ?case
  proof (cases "belongs_between ?r req tmp n")
    case True
    then have "find_place req tmp s = Done tmp s \<and> tmp # n # ns = [] @ tmp # n # ns \<and>
        elevator ?r req tmp (n # ns) = [] @ tmp # req # n # ns"
      using step by simp
    then show ?thesis by blast
  next
    case False
    obtain xs a ys where f: "find_place req n s = Done a s" "n # ns = xs @ a # ys"
        "elevator ?r req n ns = xs @ a # req # ys"
      using Cons.IH[of n] Cons.prems by auto
    have "elevator ?r req tmp (n # ns) = tmp # elevator ?r req n ns" using False by simp
    moreover have "find_place req tmp s = Done a s" using False f(1) step by simp
    ultimately have "find_place req tmp s = Done a s \<and> tmp # n # ns = (tmp # xs) @ a # ys \<and>
        elevator ?r req tmp (n # ns) = (tmp # xs) @ a # req # ys"
      by (simp only: f append_Cons simp_thms)
    then show ?thesis by blast
  qed
qed

text \<open>The queue of a device.\<close>

definition queue_is :: "fs_state \<Rightarrow> nat \<Rightarrow> nat list \<Rightarrow> bool" where
  "queue_is s major q \<longleftrightarrow> path_to (\<lambda>p. rq_next (request s p)) (current_request s major) q \<and> distinct q"

lemma queue_is_unique: "queue_is s major q \<Longrightarrow> queue_is s major q' \<Longrightarrow> q = q'"
  by (auto simp: queue_is_def dest: path_to_unique)

lemma upd_request_sel [simp]:
  "request (upd_request p f s) = (request s)(p := f (request s p))"
  "current_request (upd_request p f s) = current_request s" "bufs (upd_request p f s) = bufs s"
  "request (upd_buf b g s) = request s" "current_request (upd_buf b g s) = current_request s"
  by (simp_all add: upd_request_def upd_buf_def)

lemma add_request_elevator:
  assumes "queue_is s major (t # rs)" "req \<notin> set (t # rs)" "req \<noteq> 0"
  shows "\<exists>s'. add_request e major req s = Done () s' \<and> queue_is s' major (elevator (request s) req t rs) \<and>
    current_request s' = current_request s \<and>
    (\<forall>p. p \<notin> insert req (set (t # rs)) \<longrightarrow> request s' p = request s p) \<and>
    (\<forall>p. (request s' p)\<lparr>rq_next := 0\<rparr> = (request s p)\<lparr>rq_next := 0\<rparr>)"
proof -
  let ?s1 = "upd_request req (\<lambda>r. r\<lparr>rq_next := 0\<rparr>) s"
  define s2 where "s2 = (if rq_bh (request ?s1 req) \<noteq> 0
      then upd_buf (rq_bh (request ?s1 req)) (\<lambda>h. h\<lparr>b_dirt := 0\<rparr>) ?s1 else ?s1)"
  have r2: "request s2 = (request s)(req := (request s req)\<lparr>rq_next := 0\<rparr>)" "current_request s2 = current_request s"
    by (simp_all add: s2_def)
  have t: "current_request s major = t" "t \<noteq> 0" and d: "distinct (t # rs)"
    using assms(1) by (auto simp: queue_is_def)
  have p2: "path_to (\<lambda>p. rq_next (request s2 p)) t (t # rs)"
    using assms(1,2) t unfolding queue_is_def
    by (subst path_to_cong[of _ _ "\<lambda>p. rq_next (request s p)"]) (auto simp: r2)
  obtain xs a ys where f: "find_place req t s2 = Done a s2" "t # rs = xs @ a # ys"
      "elevator (request s2) req t rs = xs @ a # req # ys"
    using find_place_elevator[OF p2] by blast
  have el: "elevator (request s2) req t rs = elevator (request s) req t rs"
    by (rule elevator_cong) (simp add: r2 rq_key_def)
  define s3 where "s3 = upd_request a (\<lambda>r. r\<lparr>rq_next := req\<rparr>)
      (upd_request req (\<lambda>r. r\<lparr>rq_next := rq_next (request s2 a)\<rparr>) s2)"
  have ne: "a \<noteq> req" using assms(2) f(2) by auto
  have r3: "request s3 = (request s2)(req := (request s2 req)\<lparr>rq_next := rq_next (request s2 a)\<rparr>,
      a := (request s2 a)\<lparr>rq_next := req\<rparr>)" "current_request s3 = current_request s"
    using ne by (simp_all add: s3_def r2)
  have "add_request e major req s = Done () s3"
    unfolding add_request_def Let_def s2_def[symmetric] by (simp add: r2 t f(1) s3_def)
  moreover have "path_to (\<lambda>p. rq_next (request s3 p)) t (xs @ a # req # ys)"
    by (rule path_to_insert[where nx = "\<lambda>p. rq_next (request s2 p)"])
      (use p2 f(2) d assms(2,3) ne in \<open>auto simp: r3\<close>)
  then have "queue_is s3 major (elevator (request s) req t rs)"
    using f d assms(2) t el by (auto simp: queue_is_def r3 dest: arg_cong[of _ _ distinct])
  ultimately show ?thesis
    using f(2) by (intro exI[of _ s3]) (auto simp: r3 r2)
qed


text \<open>A queue runs through the disk once for every place where the order goes down.\<close>

fun descents :: "'a::linorder list \<Rightarrow> nat" where
  "descents (x # y # zs) = (if x < y then 0 else 1) + descents (y # zs)"
| "descents _ = 0"

fun elevator_keys :: "'a::linorder \<Rightarrow> 'a \<Rightarrow> 'a list \<Rightarrow> 'a list" where
  "elevator_keys k a [] = [a, k]"
| "elevator_keys k a (n # ns) =
    (if (a < k \<or> \<not> a < n) \<and> k < n then a # k # n # ns else a # elevator_keys k n ns)"

lemma elevator_keys_hd: "\<exists>xs. elevator_keys k a ns = a # xs"
  by (cases ns) auto

lemma descents_Cons_elevator:
  "descents (a # elevator_keys k n ns) = (if a < n then 0 else 1) + descents (elevator_keys k n ns)"
  using elevator_keys_hd[of k n ns] by auto

lemma elevator_keys_ascending:
  "descents (a # ns) = 0 \<Longrightarrow> a < k \<Longrightarrow> k \<notin> set ns \<Longrightarrow> descents (elevator_keys k a ns) = 0"
  by (induction ns arbitrary: a) (auto simp: descents_Cons_elevator split: if_splits)

lemma elevator_keys_below:
  "descents (a # ns) = 0 \<Longrightarrow> k < a \<Longrightarrow> descents (elevator_keys k a ns) = 1"
  by (induction ns arbitrary: a) (auto simp: descents_Cons_elevator split: if_splits)

lemma elevator_keys_one_sweep:
  "descents (a # ns) \<le> 1 \<Longrightarrow> k \<notin> set (a # ns) \<Longrightarrow> descents (elevator_keys k a ns) \<le> 1"
proof (induction ns arbitrary: a)
  case (Cons n ns)
  consider "a < n" "a < k" "k < n" | "a < n" "\<not> (a < k \<and> k < n)" | "\<not> a < n" "k < n" | "\<not> a < n" "n < k"
    using Cons.prems(2) by (cases "a < n"; cases "k < n"; cases "n < k") auto
  then show ?case
  proof cases
    case 4
    then show ?thesis using Cons.prems elevator_keys_ascending[of n ns k]
      by (auto simp: descents_Cons_elevator split: if_splits)
  qed (use Cons in \<open>auto simp: descents_Cons_elevator split: if_splits\<close>)
qed simp

lemma map_elevator:
  assumes "\<forall>p \<in> set (req # tmp # ns). rq_bh (r p) \<noteq> 0"
  shows "map (\<lambda>p. rq_key (r p)) (elevator r req tmp ns) =
    elevator_keys (rq_key (r req)) (rq_key (r tmp)) (map (\<lambda>p. rq_key (r p)) ns)"
  using assms by (induction ns arbitrary: tmp) (auto simp: belongs_between_def)

text \<open>Two reads wait at the first hard disk, at the sectors 10 and 30; one for sector 20 is to be put in.\<close>

definition demo_queue :: fs_state where
  "demo_queue = demo_fs\<lparr>current_request := (\<lambda>_. 1), request := (\<lambda>p. if p = 1 then demo_request 10 1 2
     else if p = 2 then demo_request 30 2 0 else demo_request 20 3 0)\<rparr>"

lemma demo_queue_is: "queue_is demo_queue 3 [1, 2]"
  by (simp add: queue_is_def demo_queue_def demo_request_def)

text \<open>
  C19. The queue of a busy device after \<open>add_request\<close>: the code's walk over the linked list ends, and the new
  list is what \<open>elevator\<close> makes of the old one. Nothing else in the requests changes, the request under way
  stays under way. A request of the buffer cache goes where it continues the sweep over the disk, a request
  of the pager (no buffer head) in front of the first buffer request.
\<close>

theorem add_request_refines_elevator:
  assumes "queue_is s major (t # rs)" "req \<notin> set (t # rs)" "req \<noteq> 0"
  shows "\<exists>s'. add_request e major req s = Done () s' \<and> queue_is s' major (elevator (request s) req t rs) \<and>
    current_request s' = current_request s \<and>
    (\<forall>p. p \<notin> insert req (set (t # rs)) \<longrightarrow> request s' p = request s p) \<and>
    (\<forall>p. (request s' p)\<lparr>rq_next := 0\<rparr> = (request s p)\<lparr>rq_next := 0\<rparr>)"
  by (rule add_request_elevator[OF assms])

theorem add_request_refines_elevator_witness:
  "\<exists>s'. add_request demo_env 3 3 demo_queue = Done () s' \<and> queue_is s' 3 [1, 3, 2]"
proof -
  have "elevator (request demo_queue) 3 1 [2] = [1, 3, 2]"
    by (simp add: demo_queue_def demo_request_def belongs_between_def rq_key_def less_request_key_def)
  then show ?thesis
    using add_request_refines_elevator[OF demo_queue_is, of 3 demo_env] by auto
qed

text \<open>
  C20. The elevator never adds a sweep: if the buffer requests waiting at a device go over the disk in at most
  one ascending run up and one more from the bottom, and a request for another place comes in, they
  still do.
\<close>

theorem elevator_one_sweep:
  assumes "queue_is s major q" "q \<noteq> []" "req \<notin> set q" "req \<noteq> 0" "\<forall>p \<in> set (req # q). rq_bh (request s p) \<noteq> 0"
    and "rq_key (request s req) \<notin> (\<lambda>p. rq_key (request s p)) ` set q"
    and "descents (map (\<lambda>p. rq_key (request s p)) q) \<le> 1"
  shows "\<exists>s' q'. add_request e major req s = Done () s' \<and> queue_is s' major q' \<and> set q' = insert req (set q) \<and>
    descents (map (\<lambda>p. rq_key (request s' p)) q') \<le> 1"
proof -
  obtain t rs where q: "q = t # rs" using assms(2) by (cases q) auto
  obtain s' where s': "add_request e major req s = Done () s'" "queue_is s' major (elevator (request s) req t rs)"
      "\<And>p. (request s' p)\<lparr>rq_next := 0\<rparr> = (request s p)\<lparr>rq_next := 0\<rparr>"
    using add_request_elevator[of s major t rs req e] assms(1,3,4) q by auto
  have "rq_key (request s' p) = rq_key (request s p)" for p
    using arg_cong[OF s'(3)[of p], of rq_key] by (simp add: rq_key_def)
  then have "descents (map (\<lambda>p. rq_key (request s' p)) (elevator (request s) req t rs)) \<le> 1"
    using elevator_keys_one_sweep[of "rq_key (request s t)" "map (\<lambda>p. rq_key (request s p)) rs" "rq_key (request s req)"]
      map_elevator[of req t rs "request s"] assms(5-7) q by simp
  then show ?thesis using s'(1,2) q by (intro exI[of _ s'] exI[of _ "elevator (request s) req t rs"]) simp
qed

theorem elevator_one_sweep_witness:
  "\<exists>s' q'. add_request demo_env 3 3 demo_queue = Done () s' \<and> queue_is s' 3 q' \<and> set q' = {1, 2, 3} \<and>
    descents (map (\<lambda>p. rq_key (request s' p)) q') \<le> 1"
proof -
  have "\<forall>p \<in> set [3, 1, 2]. rq_bh (request demo_queue p) \<noteq> 0"
    "rq_key (request demo_queue 3) \<notin> (\<lambda>p. rq_key (request demo_queue p)) ` set [1, 2]"
    "descents (map (\<lambda>p. rq_key (request demo_queue p)) [1, 2]) \<le> 1"
    by (simp_all add: demo_queue_def demo_request_def rq_key_def less_request_key_def)
  then show ?thesis
    using elevator_one_sweep[OF demo_queue_is, of 3 demo_env] by (auto simp: insert_commute)
qed

end
