(* ===== verification/Buffer_Cache.thy ===== *)
theory Buffer_Cache
  imports Block_Requests
begin

section \<open>The buffer cache\<close>

text \<open>
  \<^verbatim>\<open>fs/buffer.c\<close>, with \<open>wait_on_inode\<close>, \<open>sync_inodes\<close>, \<open>invalidate_inodes\<close>, \<open>write_inode\<close> of \<^verbatim>\<open>fs/inode.c\<close> and
  \<open>get_super\<close>, \<open>put_super\<close> of \<^verbatim>\<open>fs/super.c\<close>, which the cache calls: \<open>getblk\<close> may have to write back a
  device, which writes back inodes, which needs blocks from \<open>getblk\<close>. The nesting of these calls is
  bounded by the kernel stack: the argument \<open>n\<close> of \<open>getblk_nested\<close>.
\<close>

unbundle bit_operations_syntax

subsection \<open>Inodes and super blocks that the cache needs\<close>

definition wait_on_inode :: "fs_env \<Rightarrow> u32 \<Rightarrow> fs_state \<Rightarrow> unit fs_out" where
  "wait_on_inode e p = await (\<lambda>s. i_lock (inode_table s p) \<noteq> 0) (sleep_on e (On_Inode p))"

definition lock_inode :: "fs_env \<Rightarrow> u32 \<Rightarrow> fs_state \<Rightarrow> unit fs_out" where
  "lock_inode e p s =
    and_then (await (\<lambda>s. i_lock (inode_table s p) \<noteq> 0) (sleep_on e (On_Inode p)) s)
      (\<lambda>_ s. Done () (upd_inode p (\<lambda>i. i\<lparr>i_lock := 1\<rparr>) s))"

definition unlock_inode :: "u32 \<Rightarrow> fs_state \<Rightarrow> fs_state" where
  "unlock_inode p s =
    (let s = upd_inode p (\<lambda>i. i\<lparr>i_lock := 0\<rparr>) s in wake_up (i_wait (inode_table s p)) s)"

definition wait_on_super :: "fs_env \<Rightarrow> nat \<Rightarrow> fs_state \<Rightarrow> unit fs_out" where
  "wait_on_super e i = await (\<lambda>s. s_lock (super_block s i) \<noteq> 0) (sleep_on e (On_Super i))"

definition lock_super :: "fs_env \<Rightarrow> nat \<Rightarrow> fs_state \<Rightarrow> unit fs_out" where
  "lock_super e i s =
    and_then (await (\<lambda>s. s_lock (super_block s i) \<noteq> 0) (sleep_on e (On_Super i)) s)
      (\<lambda>_ s. Done () (upd_super i (\<lambda>b. b\<lparr>s_lock := 1\<rparr>) s))"

definition free_super :: "nat \<Rightarrow> fs_state \<Rightarrow> fs_state" where
  "free_super i s =
    (let s = upd_super i (\<lambda>b. b\<lparr>s_lock := 0\<rparr>) s in wake_up (s_wait (super_block s i)) s)"

definition get_super :: "fs_env \<Rightarrow> u32 \<Rightarrow> fs_state \<Rightarrow> nat option fs_out" where
  "get_super e dev s =
    (if dev = 0 then Done None s
     else loop (\<lambda>i s.
       if i \<ge> NR_SUPER then Done (Leave None) s
       else if ucast (s_dev (super_block s i)) = dev
       then and_then (wait_on_super e i s) (\<lambda>_ s.
              if ucast (s_dev (super_block s i)) = dev then Done (Leave (Some i)) s else Done (Again 0) s)
       else Done (Again (Suc i)) s) 0 s)"

subsection \<open>Releasing a buffer\<close>

definition brelse :: "fs_env \<Rightarrow> nat \<Rightarrow> fs_state \<Rightarrow> unit fs_out" where
  "brelse e buf s =
    (if buf = 0 then Done () s
     else and_then (wait_on_buffer e buf s) (\<lambda>_ s.
       let c = b_count (bufs s buf); s = upd_buf buf (\<lambda>h. h\<lparr>b_count := b_count h - 1\<rparr>) s
       in if c = 0 then Panics ''Trying to free free buffer''
          else Done () (wake_up (buffer_wait s) s)))"

subsection \<open>The hash queues and the free list\<close>

definition hashfn :: "u32 \<Rightarrow> u32 \<Rightarrow> nat" where
  "hashfn dev block = unat ((dev XOR block) mod NR_HASH)"

definition buf_hash :: "nat \<Rightarrow> fs_state \<Rightarrow> nat" where
  "buf_hash bh s = hashfn (ucast (b_dev (bufs s bh))) (b_blocknr (bufs s bh))"

definition remove_from_queues :: "nat \<Rightarrow> fs_state \<Rightarrow> unit fs_out" where
  "remove_from_queues bh s =
    (let h = bufs s bh;
         s = (if b_next h \<noteq> 0 then upd_buf (b_next h) (\<lambda>x. x\<lparr>b_prev := b_prev h\<rparr>) s else s);
         h = bufs s bh;
         s = (if b_prev h \<noteq> 0 then upd_buf (b_prev h) (\<lambda>x. x\<lparr>b_next := b_next h\<rparr>) s else s);
         h = bufs s bh; k = buf_hash bh s;
         s = (if hash_table s k = bh then s\<lparr>hash_table := (hash_table s)(k := b_next h)\<rparr> else s)
     in if b_prev_free h = 0 \<or> b_next_free h = 0 then Panics ''Free block list corrupted''
        else
          let s = upd_buf (b_prev_free h) (\<lambda>x. x\<lparr>b_next_free := b_next_free h\<rparr>) s;
              h = bufs s bh;
              s = upd_buf (b_next_free h) (\<lambda>x. x\<lparr>b_prev_free := b_prev_free h\<rparr>) s
          in Done () (if free_list s = bh then s\<lparr>free_list := b_next_free (bufs s bh)\<rparr> else s))"

definition insert_into_queues :: "nat \<Rightarrow> fs_state \<Rightarrow> fs_state" where
  "insert_into_queues bh s =
    (let s = upd_buf bh (\<lambda>x. x\<lparr>b_next_free := free_list s\<rparr>) s;
         s = upd_buf bh (\<lambda>x. x\<lparr>b_prev_free := b_prev_free (bufs s (free_list s))\<rparr>) s;
         s = upd_buf (b_prev_free (bufs s (free_list s))) (\<lambda>x. x\<lparr>b_next_free := bh\<rparr>) s;
         s = upd_buf (free_list s) (\<lambda>x. x\<lparr>b_prev_free := bh\<rparr>) s;
         s = upd_buf bh (\<lambda>x. x\<lparr>b_prev := 0, b_next := 0\<rparr>) s
     in if b_dev (bufs s bh) = 0 then s
        else
          let k = buf_hash bh s;
              s = upd_buf bh (\<lambda>x. x\<lparr>b_next := hash_table s k\<rparr>) s;
              s = s\<lparr>hash_table := (hash_table s)(k := bh)\<rparr>
          in upd_buf (b_next (bufs s bh)) (\<lambda>x. x\<lparr>b_prev := bh\<rparr>) s)"

text \<open>A chain that is a cycle without the block is searched for ever.\<close>

definition is_block :: "u32 \<Rightarrow> u32 \<Rightarrow> buffer_head \<Rightarrow> bool" where
  "is_block dev block h \<longleftrightarrow> ucast (b_dev h) = dev \<and> b_blocknr h = block"

definition find_buffer :: "u32 \<Rightarrow> u32 \<Rightarrow> fs_state \<Rightarrow> nat fs_out" where
  "find_buffer dev block s =
    loop (\<lambda>tmp s.
      if tmp = 0 then Done (Leave 0) s
      else if is_block dev block (bufs s tmp) then Done (Leave tmp) s
      else Done (Again (b_next (bufs s tmp))) s) (hash_table s (hashfn dev block)) s"

definition get_hash_table :: "fs_env \<Rightarrow> u32 \<Rightarrow> u32 \<Rightarrow> fs_state \<Rightarrow> nat fs_out" where
  "get_hash_table e dev block =
    loop (\<lambda>_ s. and_then (find_buffer dev block s) (\<lambda>bh s.
      if bh = 0 then Done (Leave 0) s
      else
        and_then (wait_on_buffer e bh (upd_buf bh (\<lambda>h. h\<lparr>b_count := b_count h + 1\<rparr>) s)) (\<lambda>_ s.
          if is_block dev block (bufs s bh) then Done (Leave bh) s
          else Done (Again ()) (upd_buf bh (\<lambda>h. h\<lparr>b_count := b_count h - 1\<rparr>) s)))) ()"

subsection \<open>Writing back\<close>

text \<open>\<open>write_inode\<close> on top of a \<open>bread\<close>: the 32 bytes that start an inode are those of the disk inode.\<close>

definition d_inode_bytes :: "m_inode \<Rightarrow> nat \<Rightarrow> (nat \<Rightarrow> u8) \<Rightarrow> nat \<Rightarrow> u8" where
  "d_inode_bytes i off d =
    fold (\<lambda>k. put_le16 (off + 14 + 2 * k) (i_zone i k)) [0..<9]
      ((put_le32 (off + 8) (i_mtime i) (put_le32 (off + 4) (i_size i)
         (put_le16 (off + 2) (i_uid i) (put_le16 off (i_mode i) d))))
       (off + 12 := i_gid i, off + 13 := i_nlinks i))"

definition inode_block :: "u32 \<Rightarrow> nat \<Rightarrow> fs_state \<Rightarrow> u32" where
  "inode_block p sb s =
    2 + ucast (s_imap_blocks (super_block s sb)) + ucast (s_zmap_blocks (super_block s sb)) +
      (ucast (i_num (inode_table s p)) - 1) div 32"

definition inode_slot :: "u32 \<Rightarrow> fs_state \<Rightarrow> nat" where
  "inode_slot p s = unat ((ucast (i_num (inode_table s p)) - 1 :: u32) mod 32)"

definition write_inode_with ::
  "(u32 \<Rightarrow> u32 \<Rightarrow> fs_state \<Rightarrow> nat fs_out) \<Rightarrow> fs_env \<Rightarrow> u32 \<Rightarrow> fs_state \<Rightarrow> unit fs_out" where
  "write_inode_with read_blk e p s =
    and_then (lock_inode e p s) (\<lambda>_ s.
      if i_dirt (inode_table s p) = 0 \<or> i_dev (inode_table s p) = 0 then Done () (unlock_inode p s)
      else
        and_then (get_super e (ucast (i_dev (inode_table s p))) s) (\<lambda>sb s.
          case sb of
            None \<Rightarrow> Panics ''trying to write inode without device''
          | Some sb \<Rightarrow>
              and_then (read_blk (ucast (i_dev (inode_table s p))) (inode_block p sb s) s) (\<lambda>bh s.
                if bh = 0 then Panics ''unable to read i-node block''
                else
                  let i = inode_table s p;
                      s = upd_buf bh (\<lambda>h. h\<lparr>b_data := d_inode_bytes i (32 * inode_slot p s) (b_data h),
                                            b_dirt := 1\<rparr>) s;
                      s = upd_inode p (\<lambda>i. i\<lparr>i_dirt := 0\<rparr>) s
                  in and_then (brelse e bh s) (\<lambda>_ s. Done () (unlock_inode p s)))))"

definition for_each :: "'x list \<Rightarrow> ('x \<Rightarrow> fs_state \<Rightarrow> unit fs_out) \<Rightarrow> fs_state \<Rightarrow> unit fs_out" where
  "for_each xs f s = fold_outcome (\<lambda>x _ s. f x s) xs () s"

definition sync_inodes_with ::
  "(u32 \<Rightarrow> u32 \<Rightarrow> fs_state \<Rightarrow> nat fs_out) \<Rightarrow> fs_env \<Rightarrow> fs_state \<Rightarrow> unit fs_out" where
  "sync_inodes_with read_blk e =
    for_each inode_ptrs (\<lambda>p s. and_then (wait_on_inode e p s) (\<lambda>_ s.
      if i_dirt (inode_table s p) \<noteq> 0 \<and> i_pipe (inode_table s p) = 0
      then write_inode_with read_blk e p s else Done () s))"

text \<open>The loop that \<open>sync_dev\<close> makes before and after it writes the inodes.\<close>

definition write_buffers :: "fs_env \<Rightarrow> u32 \<Rightarrow> fs_state \<Rightarrow> unit fs_out" where
  "write_buffers e dev s =
    for_each (buf_ptrs s) (\<lambda>bh s.
      if ucast (b_dev (bufs s bh)) \<noteq> dev then Done () s
      else and_then (wait_on_buffer e bh s) (\<lambda>_ s.
        if ucast (b_dev (bufs s bh)) = dev \<and> b_dirt (bufs s bh) \<noteq> 0
        then ll_rw_block e WRITE bh s else Done () s)) s"

definition sync_dev_with ::
  "(u32 \<Rightarrow> u32 \<Rightarrow> fs_state \<Rightarrow> nat fs_out) \<Rightarrow> fs_env \<Rightarrow> u32 \<Rightarrow> fs_state \<Rightarrow> int fs_out" where
  "sync_dev_with read_blk e dev s =
    and_then (write_buffers e dev s) (\<lambda>_ s.
    and_then (sync_inodes_with read_blk e s) (\<lambda>_ s.
    and_then (write_buffers e dev s) (\<lambda>_.
    Done 0)))"

subsection \<open>Getting and reading a block\<close>

definition BADNESS :: "buffer_head \<Rightarrow> nat" where
  "BADNESS h = 2 * unat (b_dirt h) + unat (b_lock h)"

text \<open>The scan of the free list: the first clean, unlocked buffer that nobody uses, or the least bad.\<close>

definition scan_free :: "fs_state \<Rightarrow> nat fs_out" where
  "scan_free s =
    loop (\<lambda>(tmp, bh) s.
      let better = b_count (bufs s tmp) = 0 \<and> (bh = 0 \<or> BADNESS (bufs s tmp) < BADNESS (bufs s bh));
          bh = (if better then tmp else bh)
      in if better \<and> BADNESS (bufs s tmp) = 0 then Done (Leave bh) s
         else if b_next_free (bufs s tmp) \<noteq> free_list s then Done (Again (b_next_free (bufs s tmp), bh)) s
         else Done (Leave bh) s) (free_list s, 0) s"

definition take_buffer :: "u32 \<Rightarrow> u32 \<Rightarrow> nat \<Rightarrow> fs_state \<Rightarrow> nat fs_out" where
  "take_buffer dev block bh s =
    and_then (remove_from_queues bh (upd_buf bh (\<lambda>h. h\<lparr>b_count := 1, b_dirt := 0, b_uptodate := 0\<rparr>) s))
      (\<lambda>_ s. Done bh (insert_into_queues bh (upd_buf bh (\<lambda>h. h\<lparr>b_dev := ucast dev, b_blocknr := block\<rparr>) s)))"

text \<open>The loop that writes back the device of a dirty buffer; \<open>False\<close> if the buffer is in use again.\<close>

definition clean_buffer ::
  "(u32 \<Rightarrow> fs_state \<Rightarrow> int fs_out) \<Rightarrow> fs_env \<Rightarrow> nat \<Rightarrow> fs_state \<Rightarrow> bool fs_out" where
  "clean_buffer sync e bh =
    loop (\<lambda>_ s.
      if b_dirt (bufs s bh) = 0 then Done (Leave True) s
      else
        and_then (sync (ucast (b_dev (bufs s bh))) s) (\<lambda>_ s.
        and_then (wait_on_buffer e bh s) (\<lambda>_ s.
          if b_count (bufs s bh) \<noteq> 0 then Done (Leave False) s else Done (Again ()) s))) ()"

definition getblk_with ::
  "(u32 \<Rightarrow> fs_state \<Rightarrow> int fs_out) \<Rightarrow> fs_env \<Rightarrow> u32 \<Rightarrow> u32 \<Rightarrow> fs_state \<Rightarrow> nat fs_out" where
  "getblk_with sync e dev block =
    loop (\<lambda>_ s.
      and_then (get_hash_table e dev block s) (\<lambda>bh s.
        if bh \<noteq> 0 then Done (Leave bh) s
        else
          and_then (scan_free s) (\<lambda>bh s.
            if bh = 0 then Done (Again ()) (sleep_on e On_Buffer_Queue s)
            else
              and_then (wait_on_buffer e bh s) (\<lambda>_ s.
                if b_count (bufs s bh) \<noteq> 0 then Done (Again ()) s
                else
                  and_then (clean_buffer sync e bh s) (\<lambda>clean s.
                    if \<not> clean then Done (Again ()) s
                    else
                      and_then (find_buffer dev block s) (\<lambda>found s.
                        if found \<noteq> 0 then Done (Again ()) s
                        else and_then (take_buffer dev block bh s) (\<lambda>bh. Done (Leave bh)))))))) ()"

definition bread_with ::
  "(u32 \<Rightarrow> u32 \<Rightarrow> fs_state \<Rightarrow> nat fs_out) \<Rightarrow> fs_env \<Rightarrow> u32 \<Rightarrow> u32 \<Rightarrow> fs_state \<Rightarrow> nat fs_out" where
  "bread_with get_blk e dev block s =
    and_then (get_blk dev block s) (\<lambda>bh s.
      if bh = 0 then Panics ''bread: getblk returned NULL''
      else if b_uptodate (bufs s bh) \<noteq> 0 then Done bh s
      else
        and_then (ll_rw_block e READ bh s) (\<lambda>_ s.
        and_then (wait_on_buffer e bh s) (\<lambda>_ s.
          if b_uptodate (bufs s bh) \<noteq> 0 then Done bh s
          else and_then (brelse e bh s) (\<lambda>_. Done 0))))"

text \<open>Calls of \<open>getblk\<close> inside \<open>getblk\<close>, at most \<open>n\<close> deep.\<close>

primrec getblk_nested :: "nat \<Rightarrow> fs_env \<Rightarrow> u32 \<Rightarrow> u32 \<Rightarrow> fs_state \<Rightarrow> nat fs_out" where
  "getblk_nested 0 e dev block s = Undefined ''kernel stack overflow''"
| "getblk_nested (Suc n) e dev block s =
    getblk_with (sync_dev_with (bread_with (getblk_nested n e) e) e) e dev block s"

definition getblk :: "fs_env \<Rightarrow> u32 \<Rightarrow> u32 \<Rightarrow> fs_state \<Rightarrow> nat fs_out" where
  "getblk e = getblk_nested (nesting e) e"

definition bread :: "fs_env \<Rightarrow> u32 \<Rightarrow> u32 \<Rightarrow> fs_state \<Rightarrow> nat fs_out" where
  "bread e = bread_with (getblk e) e"

definition write_inode :: "fs_env \<Rightarrow> u32 \<Rightarrow> fs_state \<Rightarrow> unit fs_out" where
  "write_inode e = write_inode_with (bread e) e"

definition sync_inodes :: "fs_env \<Rightarrow> fs_state \<Rightarrow> unit fs_out" where
  "sync_inodes e = sync_inodes_with (bread e) e"

definition sync_dev :: "fs_env \<Rightarrow> u32 \<Rightarrow> fs_state \<Rightarrow> int fs_out" where
  "sync_dev e = sync_dev_with (bread e) e"

definition sys_sync :: "fs_env \<Rightarrow> fs_state \<Rightarrow> int fs_out" where
  "sys_sync e s =
    and_then (sync_inodes e s) (\<lambda>_ s.
    and_then (for_each (buf_ptrs s) (\<lambda>bh s. and_then (wait_on_buffer e bh s) (\<lambda>_ s.
        if b_dirt (bufs s bh) \<noteq> 0 then ll_rw_block e WRITE bh s else Done () s)) s) (\<lambda>_.
    Done 0))"

subsection \<open>Reading several blocks\<close>

text \<open>\<^verbatim>\<open>COPYBLK\<close> to a place in memory.\<close>

definition COPYBLK :: "nat \<Rightarrow> u32 \<Rightarrow> fs_state \<Rightarrow> fs_state" where
  "COPYBLK bh addr s =
    fold (\<lambda>i s. write_long (addr + 4 * of_nat i) (get_le32 (b_data (bufs s bh)) (4 * i)) s) [0..<256] s"

definition bread_page :: "fs_env \<Rightarrow> u32 \<Rightarrow> u32 \<Rightarrow> (nat \<Rightarrow> u32) \<Rightarrow> fs_state \<Rightarrow> unit fs_out" where
  "bread_page e address dev b s =
    and_then (fold_outcome (\<lambda>i bh s.
        if b i \<noteq> 0
        then and_then (getblk e dev (b i) s) (\<lambda>h s.
          and_then (if h \<noteq> 0 \<and> b_uptodate (bufs s h) = 0 then ll_rw_block e READ h s else Done () s)
            (\<lambda>_. Done (bh(i := h))))
        else Done (bh(i := 0)) s) [0..<4] (\<lambda>_. 0) s) (\<lambda>bh s.
    for_each [0..<4] (\<lambda>i s.
        if bh i \<noteq> 0
        then and_then (wait_on_buffer e (bh i) s) (\<lambda>_ s.
          brelse e (bh i)
            (if b_uptodate (bufs s (bh i)) \<noteq> 0 then COPYBLK (bh i) (address + 1024 * of_nat i) s else s))
        else Done () s) s)"

text \<open>The blocks to read ahead are the list \<open>rest\<close>; it is the first block that is requested again.\<close>

definition breada :: "fs_env \<Rightarrow> u32 \<Rightarrow> u32 \<Rightarrow> u32 list \<Rightarrow> fs_state \<Rightarrow> nat fs_out" where
  "breada e dev first ahead s =
    and_then (getblk e dev first s) (\<lambda>bh s.
      if bh = 0 then Panics ''bread: getblk returned NULL''
      else
        and_then (if b_uptodate (bufs s bh) = 0 then ll_rw_block e READ bh s else Done () s) (\<lambda>_ s.
        and_then (for_each ahead (\<lambda>blk s. and_then (getblk e dev blk s) (\<lambda>tmp s.
            if tmp \<noteq> 0
            then and_then (if b_uptodate (bufs s tmp) = 0 then ll_rw_block e READA bh s else Done () s)
                   (\<lambda>_ s. Done () (upd_buf tmp (\<lambda>h. h\<lparr>b_count := b_count h - 1\<rparr>) s))
            else Done () s)) s) (\<lambda>_ s.
        and_then (wait_on_buffer e bh s) (\<lambda>_ s.
          if b_uptodate (bufs s bh) \<noteq> 0 then Done bh s
          else and_then (brelse e bh s) (\<lambda>_. Done 0)))))"

subsection \<open>A changed disk\<close>

definition invalidate_inodes :: "fs_env \<Rightarrow> u32 \<Rightarrow> fs_state \<Rightarrow> unit fs_out" where
  "invalidate_inodes e dev =
    for_each inode_ptrs (\<lambda>p s. and_then (wait_on_inode e p s) (\<lambda>_ s.
      Done () (if ucast (i_dev (inode_table s p)) = dev
               then upd_inode p (\<lambda>i. i\<lparr>i_dirt := 0, i_dev := 0\<rparr>) s else s)))"

definition invalidate_buffers :: "fs_env \<Rightarrow> u32 \<Rightarrow> fs_state \<Rightarrow> unit fs_out" where
  "invalidate_buffers e dev s =
    for_each (buf_ptrs s) (\<lambda>bh s.
      if ucast (b_dev (bufs s bh)) \<noteq> dev then Done () s
      else and_then (wait_on_buffer e bh s) (\<lambda>_ s.
        Done () (if ucast (b_dev (bufs s bh)) = dev
                 then upd_buf bh (\<lambda>h. h\<lparr>b_dirt := 0, b_uptodate := 0\<rparr>) s else s))) s"

definition put_super :: "fs_env \<Rightarrow> u32 \<Rightarrow> fs_state \<Rightarrow> unit fs_out" where
  "put_super e dev s =
    (if dev = ROOT_DEV s then Done () s
     else
       and_then (get_super e dev s) (\<lambda>sb s.
         case sb of
           None \<Rightarrow> Done () s
         | Some i \<Rightarrow>
             if s_imount (super_block s i) \<noteq> 0 then Done () s
             else
               and_then (lock_super e i s) (\<lambda>_ s.
               let s = upd_super i (\<lambda>b. b\<lparr>s_dev := 0\<rparr>) s
               in and_then (for_each [0..<I_MAP_SLOTS] (\<lambda>k s. brelse e (s_imap (super_block s i) k) s) s) (\<lambda>_ s.
                  and_then (for_each [0..<Z_MAP_SLOTS] (\<lambda>k s. brelse e (s_zmap (super_block s i) k) s) s) (\<lambda>_ s.
                  Done () (free_super i s))))))"

definition check_disk_change :: "fs_env \<Rightarrow> u32 \<Rightarrow> fs_state \<Rightarrow> unit fs_out" where
  "check_disk_change e dev s =
    (if MAJOR dev \<noteq> 2 then Done () s
     else
       case floppy_change e (dev AND 3) s of (changed, s) \<Rightarrow>
         if \<not> changed then Done () s
         else
           and_then (for_each [0..<NR_SUPER] (\<lambda>i s.
               if ucast (s_dev (super_block s i)) = dev
               then put_super e (ucast (s_dev (super_block s i))) s else Done () s) s) (\<lambda>_ s.
           and_then (invalidate_inodes e dev s) (\<lambda>_ s.
           invalidate_buffers e dev s)))"

subsection \<open>Setting up the cache\<close>

text \<open>
  \<open>buffer_init\<close>: heads grow up from \<open>start_buffer\<close> (an address), blocks down from the end of the buffer
  memory, jumping over the video memory and the BIOS, until they meet. A head takes 36 bytes.
\<close>

definition buffer_init :: "u32 \<Rightarrow> u32 \<Rightarrow> fs_state \<Rightarrow> unit fs_out" where
  "buffer_init start_buffer buffer_end s =
    loop (\<lambda>(b, h) s.
      let b = b - 1024 in
      if b \<ge> start_buffer + 36 * of_nat h
      then
        let s = upd_buf h (\<lambda>x. x\<lparr>b_dev := 0, b_dirt := 0, b_count := 0, b_lock := 0, b_uptodate := 0,
                  b_wait := 0, b_next := 0, b_prev := 0, b_prev_free := h - 1, b_next_free := h + 1\<rparr>) s;
            s = s\<lparr>nr_buffers := nr_buffers s + 1\<rparr>
        in Done (Again (if b = 0x100000 then 0xA0000 else b, h + 1)) s
      else
        let h = h - 1;
            s = s\<lparr>free_list := 1\<rparr>;
            s = upd_buf 1 (\<lambda>x. x\<lparr>b_prev_free := h\<rparr>) s;
            s = upd_buf h (\<lambda>x. x\<lparr>b_next_free := 1\<rparr>) s
        in Done (Leave ()) (s\<lparr>hash_table := (\<lambda>i. if i < 307 then 0 else hash_table s i)\<rparr>))
      (if buffer_end = 0x100000 then 640 * 1024 else buffer_end, 1) s"

subsection \<open>The invariant of the cache\<close>

text \<open>
  \<open>cache_is s q fl\<close>: \<open>q k\<close> are the buffers in hash queue \<open>k\<close> in order, \<open>fl\<close> is the free list. Every buffer is on
  the free list, in use or not; a buffer that holds a block (its device is not 0) is in the hash queue of that
  block and no other buffer holds the same block.
\<close>

abbreviation nx_hash :: "fs_state \<Rightarrow> nat \<Rightarrow> nat" where "nx_hash s \<equiv> \<lambda>b. b_next (bufs s b)"
abbreviation pv_hash :: "fs_state \<Rightarrow> nat \<Rightarrow> nat" where "pv_hash s \<equiv> \<lambda>b. b_prev (bufs s b)"
abbreviation nx_free :: "fs_state \<Rightarrow> nat \<Rightarrow> nat" where "nx_free s \<equiv> \<lambda>b. b_next_free (bufs s b)"
abbreviation pv_free :: "fs_state \<Rightarrow> nat \<Rightarrow> nat" where "pv_free s \<equiv> \<lambda>b. b_prev_free (bufs s b)"

definition block_of :: "fs_state \<Rightarrow> nat \<Rightarrow> u16 \<times> u32" where
  "block_of s b = (b_dev (bufs s b), b_blocknr (bufs s b))"

definition hash_queues :: "fs_state \<Rightarrow> (nat \<Rightarrow> nat list) \<Rightarrow> bool" where
  "hash_queues s q \<longleftrightarrow>
    (\<forall>k<307. chain (nx_hash s) (pv_hash s) (hash_table s k) (q k)) \<and>
    (\<forall>k<307. \<forall>b. b \<in> set (q k) \<longleftrightarrow> b \<in> set (buf_ptrs s) \<and> b_dev (bufs s b) \<noteq> 0 \<and> buf_hash b s = k) \<and>
    (\<forall>b \<in> set (buf_ptrs s). b_dev (bufs s b) = 0 \<longrightarrow> b_next (bufs s b) = 0 \<and> b_prev (bufs s b) = 0)"

definition free_ring :: "fs_state \<Rightarrow> nat list \<Rightarrow> bool" where
  "free_ring s fl \<longleftrightarrow> ring (nx_free s) (pv_free s) fl \<and> distinct fl \<and> set fl = set (buf_ptrs s) \<and> free_list s = hd fl"

definition cache_is :: "fs_state \<Rightarrow> (nat \<Rightarrow> nat list) \<Rightarrow> nat list \<Rightarrow> bool" where
  "cache_is s q fl \<longleftrightarrow> hash_queues s q \<and> free_ring s fl \<and>
    inj_on (block_of s) {b \<in> set (buf_ptrs s). b_dev (bufs s b) \<noteq> 0}"

lemma set_buf_ptrs [simp]: "set (buf_ptrs s) = {1..nr_buffers s}"
  by (auto simp: buf_ptrs_def)

lemma hashfn_less [simp]: "hashfn dev block < 307"
  by (simp add: hashfn_def unat_mod)

lemma buf_hash_less [simp]: "buf_hash b s < 307"
  by (simp add: buf_hash_def)

subsection \<open>Looking a block up\<close>

lemma find_buffer_chain:
  assumes "path_to (nx_hash s) h bs"
  shows "loop (\<lambda>tmp s. if tmp = 0 then Done (Leave 0) s
      else if is_block dev block (bufs s tmp) then Done (Leave tmp) s
      else Done (Again (b_next (bufs s tmp))) s) h s =
    Done (case find (\<lambda>b. is_block dev block (bufs s b)) bs of None \<Rightarrow> 0 | Some b \<Rightarrow> b) s"
  using assms
proof (induction bs arbitrary: h)
  case Nil
  then show ?case by (subst loop_unfold) simp
next
  case (Cons b bs)
  then show ?case by (subst loop_unfold) simp
qed

lemma is_block_hash:
  "is_block dev block (bufs s b) \<Longrightarrow> buf_hash b s = hashfn dev block"
  by (auto simp: is_block_def buf_hash_def)

lemma is_block_of: "is_block dev block (bufs s b) \<Longrightarrow> block_of s b = (ucast dev, block)"
  by (auto simp: is_block_def block_of_def)

text \<open>
  C17. Looking a block up in a well-formed cache ends and finds exactly what is there: the one buffer that holds
  block \<open>block\<close> of device \<open>dev\<close>, or NULL if there is none. The state is unchanged.
\<close>

theorem find_buffer_correct:
  assumes "cache_is s q fl" "dev \<noteq> 0"
  shows "\<exists>b. find_buffer dev block s = Done b s \<and>
    (if b = 0 then \<not> (\<exists>c \<in> set (buf_ptrs s). is_block dev block (bufs s c))
     else b \<in> set (buf_ptrs s) \<and> is_block dev block (bufs s b) \<and>
       (\<forall>c \<in> set (buf_ptrs s). is_block dev block (bufs s c) \<longrightarrow> c = b))"
proof -
  let ?k = "hashfn dev block" and ?P = "\<lambda>b. is_block dev block (bufs s b)"
  have q: "path_to (nx_hash s) (hash_table s ?k) (q ?k)"
      "\<And>b. b \<in> set (q ?k) \<longleftrightarrow> b \<in> set (buf_ptrs s) \<and> b_dev (bufs s b) \<noteq> 0 \<and> buf_hash b s = ?k"
    using assms(1) by (auto simp: cache_is_def hash_queues_def chain_def)
  have dev: "b_dev (bufs s c) \<noteq> 0" if "?P c" for c
    using that assms(2) by (auto simp: is_block_def)
  have here: "c \<in> set (q ?k)" if "c \<in> set (buf_ptrs s)" "?P c" for c
    using that dev q(2) is_block_hash by blast
  have one: "c = b" if "c \<in> set (buf_ptrs s)" "?P c" "b \<in> set (buf_ptrs s)" "?P b" for b c
    using assms(1) that dev is_block_of[of dev block s] unfolding cache_is_def
    by (intro inj_onD[where f = "block_of s" and A = "{b \<in> set (buf_ptrs s). b_dev (bufs s b) \<noteq> 0}"]) auto
  show ?thesis
  proof (cases "find ?P (q ?k)")
    case None
    then have "\<not> (\<exists>c \<in> set (buf_ptrs s). ?P c)" using here unfolding find_None_iff by blast
    then show ?thesis using None find_buffer_chain[OF q(1), of dev block]
      by (auto simp: find_buffer_def)
  next
    case (Some b)
    then have "b \<in> set (q ?k)" "?P b" by (auto simp: find_Some_iff)
    moreover from this have "b \<in> set (buf_ptrs s)" "b \<noteq> 0" using q(2) path_to_nonzero[OF q(1)] by auto
    ultimately show ?thesis using Some find_buffer_chain[OF q(1), of dev block] one
      by (intro exI[of _ b]) (auto simp: find_buffer_def)
  qed
qed


subsection \<open>Taking a buffer for another block\<close>

text \<open>What \<open>remove_from_queues\<close> and \<open>insert_into_queues\<close> do to the pointers.\<close>

lemma remove_from_queues_links:
  assumes "b_next (bufs s b) \<noteq> b" "b_prev (bufs s b) \<noteq> b"
    and "b_prev_free (bufs s b) \<noteq> 0" "b_next_free (bufs s b) \<noteq> 0"
    and "b_prev_free (bufs s b) \<noteq> b" "b_next_free (bufs s b) \<noteq> b"
  shows "\<exists>t. remove_from_queues b s = Done () t \<and>
    bufs t = (\<lambda>x. (bufs s x)
      \<lparr>b_next := if b_prev (bufs s b) \<noteq> 0 \<and> x = b_prev (bufs s b) then b_next (bufs s b) else b_next (bufs s x),
       b_prev := if b_next (bufs s b) \<noteq> 0 \<and> x = b_next (bufs s b) then b_prev (bufs s b) else b_prev (bufs s x),
       b_next_free := if x = b_prev_free (bufs s b) then b_next_free (bufs s b) else b_next_free (bufs s x),
       b_prev_free := if x = b_next_free (bufs s b) then b_prev_free (bufs s b) else b_prev_free (bufs s x)\<rparr>) \<and>
    hash_table t = (if hash_table s (buf_hash b s) = b
      then (hash_table s)(buf_hash b s := b_next (bufs s b)) else hash_table s) \<and>
    free_list t = (if free_list s = b then b_next_free (bufs s b) else free_list s) \<and> nr_buffers t = nr_buffers s"
proof -
  let ?h = "bufs s b"
  define s1 where "s1 = (if b_next ?h \<noteq> 0 then upd_buf (b_next ?h) (\<lambda>x. x\<lparr>b_prev := b_prev ?h\<rparr>) s else s)"
  have b1: "bufs s1 = (\<lambda>x. if b_next ?h \<noteq> 0 \<and> x = b_next ?h then (bufs s x)\<lparr>b_prev := b_prev ?h\<rparr> else bufs s x)"
    and f1: "hash_table s1 = hash_table s" "free_list s1 = free_list s" "nr_buffers s1 = nr_buffers s"
    by (auto simp: s1_def fun_eq_iff)
  have h1: "bufs s1 b = ?h" using assms by (simp add: b1)
  define s2 where "s2 = (if b_prev ?h \<noteq> 0 then upd_buf (b_prev ?h) (\<lambda>x. x\<lparr>b_next := b_next ?h\<rparr>) s1 else s1)"
  have b2: "bufs s2 = (\<lambda>x. if b_prev ?h \<noteq> 0 \<and> x = b_prev ?h then (bufs s1 x)\<lparr>b_next := b_next ?h\<rparr> else bufs s1 x)"
    and f2: "hash_table s2 = hash_table s" "free_list s2 = free_list s" "nr_buffers s2 = nr_buffers s"
    by (auto simp: s2_def fun_eq_iff f1)
  have h2: "bufs s2 b = ?h" using assms by (simp add: b2 h1)
  have k: "buf_hash b s2 = buf_hash b s" by (simp add: buf_hash_def h2)
  define s3 where "s3 = (if hash_table s2 (buf_hash b s2) = b
      then s2\<lparr>hash_table := (hash_table s2)(buf_hash b s2 := b_next ?h)\<rparr> else s2)"
  have f3: "bufs s3 = bufs s2" "free_list s3 = free_list s" "nr_buffers s3 = nr_buffers s"
    "hash_table s3 = (if hash_table s (buf_hash b s) = b
      then (hash_table s)(buf_hash b s := b_next ?h) else hash_table s)"
    by (auto simp: s3_def f2 k)
  define s4 where "s4 = upd_buf (b_prev_free ?h) (\<lambda>x. x\<lparr>b_next_free := b_next_free ?h\<rparr>) s3"
  have h4: "bufs s4 b = ?h" using assms by (simp add: s4_def f3 h2)
  define s5 where "s5 = upd_buf (b_next_free ?h) (\<lambda>x. x\<lparr>b_prev_free := b_prev_free ?h\<rparr>) s4"
  have h5: "bufs s5 b = ?h" using assms by (simp add: s5_def h4)
  have "remove_from_queues b s = Done () (if free_list s5 = b then s5\<lparr>free_list := b_next_free ?h\<rparr> else s5)"
    unfolding remove_from_queues_def Let_def s1_def[symmetric] h1 s2_def[symmetric] h2 s3_def[symmetric]
    using assms(3,4) by (simp add: f3 h2 h4 h5 flip: s4_def s5_def)
  moreover have "bufs s5 x = (bufs s x)
      \<lparr>b_next := if b_prev ?h \<noteq> 0 \<and> x = b_prev ?h then b_next ?h else b_next (bufs s x),
       b_prev := if b_next ?h \<noteq> 0 \<and> x = b_next ?h then b_prev ?h else b_prev (bufs s x),
       b_next_free := if x = b_prev_free ?h then b_next_free ?h else b_next_free (bufs s x),
       b_prev_free := if x = b_next_free ?h then b_prev_free ?h else b_prev_free (bufs s x)\<rparr>" for x
    by (rule buffer_head.equality) (simp_all add: s5_def s4_def f3 b2 b1)
  moreover have "hash_table s5 = hash_table s3" "free_list s5 = free_list s" "nr_buffers s5 = nr_buffers s"
    by (simp_all add: s5_def s4_def f3)
  ultimately show ?thesis using f3(4) by auto
qed

lemma insert_into_queues_links:
  assumes "b_dev (bufs s b) \<noteq> 0" "free_list s \<noteq> b" "b_prev_free (bufs s (free_list s)) \<noteq> b"
    and "hash_table s (buf_hash b s) \<noteq> b"
  defines "pf \<equiv> b_prev_free (bufs s (free_list s))" and "h \<equiv> hash_table s (buf_hash b s)"
  shows "bufs (insert_into_queues b s) = (\<lambda>x. (bufs s x)
      \<lparr>b_next := if x = b then h else b_next (bufs s x),
       b_prev := if x = h then b else if x = b then 0 else b_prev (bufs s x),
       b_next_free := if x = b then free_list s else if x = pf then b else b_next_free (bufs s x),
       b_prev_free := if x = b then pf else if x = free_list s then b else b_prev_free (bufs s x)\<rparr>)"
    "hash_table (insert_into_queues b s) = (hash_table s)(buf_hash b s := b)"
    "free_list (insert_into_queues b s) = free_list s" "nr_buffers (insert_into_queues b s) = nr_buffers s"
proof -
  define s1 where "s1 = upd_buf b (\<lambda>x. x\<lparr>b_next_free := free_list s\<rparr>) s"
  define s2 where "s2 = upd_buf b (\<lambda>x. x\<lparr>b_prev_free := b_prev_free (bufs s1 (free_list s1))\<rparr>) s1"
  define s3 where "s3 = upd_buf (b_prev_free (bufs s2 (free_list s2))) (\<lambda>x. x\<lparr>b_next_free := b\<rparr>) s2"
  define s4 where "s4 = upd_buf (free_list s3) (\<lambda>x. x\<lparr>b_prev_free := b\<rparr>) s3"
  define s5 where "s5 = upd_buf b (\<lambda>x. x\<lparr>b_prev := 0, b_next := 0\<rparr>) s4"
  define s6 where "s6 = upd_buf b (\<lambda>x. x\<lparr>b_next := hash_table s5 (buf_hash b s5)\<rparr>) s5"
  have f: "free_list s1 = free_list s" "free_list s2 = free_list s" "free_list s3 = free_list s" "free_list s4 = free_list s"
    "free_list s5 = free_list s" "hash_table s5 = hash_table s" "hash_table s6 = hash_table s" "free_list s6 = free_list s"
    "nr_buffers s6 = nr_buffers s"
    by (simp_all add: s1_def s2_def s3_def s4_def s5_def s6_def)
  have p: "b_prev_free (bufs s1 (free_list s)) = pf" "b_prev_free (bufs s2 (free_list s)) = pf"
    using assms(2) by (simp_all add: s1_def s2_def pf_def)
  have id: "b_dev (bufs s5 x) = b_dev (bufs s x)" "b_blocknr (bufs s5 x) = b_blocknr (bufs s x)" for x
    by (simp_all add: s1_def s2_def s3_def s4_def s5_def)
  then have k: "buf_hash b s5 = buf_hash b s" by (simp add: buf_hash_def)
  define t where "t = upd_buf (b_next (bufs s6 b)) (\<lambda>x. x\<lparr>b_prev := b\<rparr>)
      (s6\<lparr>hash_table := (hash_table s6)(buf_hash b s5 := b)\<rparr>)"
  have nb: "b_next (bufs s6 b) = h" by (simp add: s6_def h_def f k)
  have t: "insert_into_queues b s = t"
    unfolding insert_into_queues_def Let_def t_def
    unfolding s1_def[symmetric] s2_def[symmetric] s3_def[symmetric] s4_def[symmetric] s5_def[symmetric]
      s6_def[symmetric]
    using assms(1) id by (simp flip: s6_def)
  show "hash_table (insert_into_queues b s) = (hash_table s)(buf_hash b s := b)"
    "free_list (insert_into_queues b s) = free_list s" "nr_buffers (insert_into_queues b s) = nr_buffers s"
    unfolding t by (simp_all add: t_def f k)
  have b1: "bufs s1 = (\<lambda>x. if x = b then (bufs s x)\<lparr>b_next_free := free_list s\<rparr> else bufs s x)"
    and b2: "bufs s2 = (\<lambda>x. if x = b then (bufs s1 x)\<lparr>b_prev_free := pf\<rparr> else bufs s1 x)"
    and b3: "bufs s3 = (\<lambda>x. if x = pf then (bufs s2 x)\<lparr>b_next_free := b\<rparr> else bufs s2 x)"
    and b4: "bufs s4 = (\<lambda>x. if x = free_list s then (bufs s3 x)\<lparr>b_prev_free := b\<rparr> else bufs s3 x)"
    and b5: "bufs s5 = (\<lambda>x. if x = b then (bufs s4 x)\<lparr>b_prev := 0, b_next := 0\<rparr> else bufs s4 x)"
    and b6: "bufs s6 = (\<lambda>x. if x = b then (bufs s5 x)\<lparr>b_next := h\<rparr> else bufs s5 x)"
    and bt: "bufs t = (\<lambda>x. if x = h then (bufs s6 x)\<lparr>b_prev := b\<rparr> else bufs s6 x)"
    unfolding s1_def s2_def[unfolded f p] s3_def[unfolded f p] s4_def[unfolded f] s5_def s6_def[unfolded f k h_def[symmetric]]
      t_def[unfolded nb]
    by (simp_all add: fun_eq_iff)
  have "bufs t x = (bufs s x)
      \<lparr>b_next := if x = b then h else b_next (bufs s x),
       b_prev := if x = h then b else if x = b then 0 else b_prev (bufs s x),
       b_next_free := if x = b then free_list s else if x = pf then b else b_next_free (bufs s x),
       b_prev_free := if x = b then pf else if x = free_list s then b else b_prev_free (bufs s x)\<rparr>" for x
    using assms(2-4)
    by (intro buffer_head.equality) (simp_all add: bt b6 b5 b4 b3 b2 b1 flip: h_def pf_def)
  then show "bufs (insert_into_queues b s) = (\<lambda>x. (bufs s x)
      \<lparr>b_next := if x = b then h else b_next (bufs s x),
       b_prev := if x = h then b else if x = b then 0 else b_prev (bufs s x),
       b_next_free := if x = b then free_list s else if x = pf then b else b_next_free (bufs s x),
       b_prev_free := if x = b then pf else if x = free_list s then b else b_prev_free (bufs s x)\<rparr>)"
    unfolding t by (rule ext)
qed

lemma cache_is_upd_buf:
  assumes "\<And>x. b_dev (f x) = b_dev x \<and> b_blocknr (f x) = b_blocknr x \<and> b_next (f x) = b_next x \<and> b_prev (f x) = b_prev x \<and>
    b_next_free (f x) = b_next_free x \<and> b_prev_free (f x) = b_prev_free x"
  shows "cache_is (upd_buf b f s) q fl \<longleftrightarrow> cache_is s q fl"
proof -
  have e: "b_next (bufs (upd_buf b f s) x) = b_next (bufs s x)" "b_prev (bufs (upd_buf b f s) x) = b_prev (bufs s x)"
    "b_next_free (bufs (upd_buf b f s) x) = b_next_free (bufs s x)"
    "b_prev_free (bufs (upd_buf b f s) x) = b_prev_free (bufs s x)"
    "b_dev (bufs (upd_buf b f s) x) = b_dev (bufs s x)" "b_blocknr (bufs (upd_buf b f s) x) = b_blocknr (bufs s x)" for x
    using assms by simp_all
  have e2: "block_of (upd_buf b f s) = block_of s" "buf_ptrs (upd_buf b f s) = buf_ptrs s"
    by (rule ext, simp only: block_of_def e) (simp only: buf_ptrs_def upd_buf_sel(2))
  show ?thesis
    by (simp only: cache_is_def hash_queues_def free_ring_def e e2 buf_hash_def upd_buf_sel(3,4))
qed

lemma ring_not_first_two:
  assumes "ring nx pv (b # zs)" "distinct (b # zs)" "zs \<noteq> []"
  shows "nx b \<in> set zs" "pv b \<in> set zs"
  using ring_remove(2,3)[OF assms, of "\<lambda>x. if x = pv b then nx b else nx x" "\<lambda>x. if x = nx b then pv b else pv x"] assms(3)
  by auto

lemma free_ring_split:
  assumes "free_ring s fl" "b \<in> set (buf_ptrs s)" "2 \<le> nr_buffers s"
  obtains xs ys where "fl = xs @ b # ys" "ys @ xs \<noteq> []" "distinct (b # ys @ xs)"
    "ring (nx_free s) (pv_free s) (b # ys @ xs)" "remove1 b fl = xs @ ys" "set (ys @ xs) \<subseteq> set (buf_ptrs s) - {b}"
proof -
  have fl: "ring (nx_free s) (pv_free s) fl" "distinct fl" "set fl = set (buf_ptrs s)"
    using assms(1) by (simp_all add: free_ring_def)
  then obtain xs ys where x: "fl = xs @ b # ys" using assms(2) split_list[of b fl] by auto
  have "card (set fl) = nr_buffers s" using fl(3) by simp
  then have "length fl \<ge> 2" using fl(2) assms(3) by (simp add: distinct_card)
  then have ne: "ys @ xs \<noteq> []" using x by auto
  have "ring (nx_free s) (pv_free s) (b # ys @ xs)" using fl(1) ring_rotate[of _ _ xs "b # ys"] x by simp
  moreover have "remove1 b fl = xs @ ys" using x fl(2) by (simp add: remove1_append)
  moreover have "set (ys @ xs) = set fl - {b}" using x fl(2) by auto
  then have "set (ys @ xs) \<subseteq> set (buf_ptrs s) - {b}" using fl(3) by simp
  ultimately show thesis using that[OF x ne] fl(2) x by auto
qed

text \<open>A buffer that holds a block, in its hash queue.\<close>

lemma hash_queue_split:
  assumes "hash_queues s q" "b \<in> set (buf_ptrs s)" "b_dev (bufs s b) \<noteq> 0"
  obtains xs ys where "q (buf_hash b s) = xs @ b # ys"
    "chain (nx_hash s) (pv_hash s) (hash_table s (buf_hash b s)) (xs @ b # ys)" "remove1 b (xs @ b # ys) = xs @ ys"
proof -
  have "b \<in> set (q (buf_hash b s))" "chain (nx_hash s) (pv_hash s) (hash_table s (buf_hash b s)) (q (buf_hash b s))"
    using assms by (auto simp: hash_queues_def)
  then obtain xs ys where "q (buf_hash b s) = xs @ b # ys" "chain (nx_hash s) (pv_hash s) (hash_table s (buf_hash b s)) (xs @ b # ys)"
    by (metis split_list)
  then show thesis using that by (auto simp: chain_def remove1_append)
qed

text \<open>What the queues leave alone.\<close>

definition same_contents :: "buffer_head \<Rightarrow> buffer_head \<Rightarrow> bool" where
  "same_contents h h' \<longleftrightarrow> b_data h = b_data h' \<and> b_uptodate h = b_uptodate h' \<and> b_dirt h = b_dirt h' \<and>
    b_count h = b_count h' \<and> b_lock h = b_lock h' \<and> b_wait h = b_wait h'"

lemma remove_from_queues_cache:
  assumes "cache_is s q fl" "b \<in> set (buf_ptrs s)" "2 \<le> nr_buffers s"
  shows "\<exists>t. remove_from_queues b s = Done () t \<and>
    (\<forall>k<307. chain (nx_hash t) (pv_hash t) (hash_table t k) (remove1 b (q k))) \<and>
    ring (nx_free t) (pv_free t) (remove1 b fl) \<and> free_list t = hd (remove1 b fl) \<and> nr_buffers t = nr_buffers s \<and>
    (\<forall>x. block_of t x = block_of s x \<and> same_contents (bufs t x) (bufs s x)) \<and>
    (\<forall>x \<in> set (buf_ptrs s). b_dev (bufs s x) = 0 \<longrightarrow> b_next (bufs t x) = 0 \<and> b_prev (bufs t x) = 0)"
proof -
  let ?h = "bufs s b" and ?k = "buf_hash b s"
  have hq: "hash_queues s q" and fr: "free_ring s fl" using assms(1) by (simp_all add: cache_is_def)
  obtain xs ys where f: "fl = xs @ b # ys" "ys @ xs \<noteq> []" "distinct (b # ys @ xs)"
      "ring (nx_free s) (pv_free s) (b # ys @ xs)" "remove1 b fl = xs @ ys" "set (ys @ xs) \<subseteq> set (buf_ptrs s) - {b}"
    using free_ring_split[OF fr assms(2,3)] by blast
  have fb: "b_prev_free ?h \<noteq> 0" "b_next_free ?h \<noteq> 0" "b_prev_free ?h \<noteq> b" "b_next_free ?h \<noteq> b"
    using ring_not_first_two[OF f(4,3,2)] f(6) by auto
  have hb: "if b_dev ?h = 0 then b_next ?h = 0 \<and> b_prev ?h = 0 \<and> hash_table s ?k \<noteq> b
    else \<exists>as bs. q ?k = as @ b # bs \<and> chain (nx_hash s) (pv_hash s) (hash_table s ?k) (as @ b # bs) \<and>
      remove1 b (q ?k) = as @ bs"
  proof (cases "b_dev ?h = 0")
    case True
    have "b \<notin> set (q ?k)" "chain (nx_hash s) (pv_hash s) (hash_table s ?k) (q ?k)"
      using hq True by (auto simp: hash_queues_def)
    then have "hash_table s ?k \<noteq> b" using assms(2) by (cases "q ?k") (auto simp: chain_def)
    then show ?thesis using True hq assms(2) by (auto simp: hash_queues_def)
  next
    case False
    then show ?thesis using hash_queue_split[OF hq assms(2)] by metis
  qed
  have nb: "b_next ?h \<noteq> b" "b_prev ?h \<noteq> b"
  proof -
    have "b_next ?h \<noteq> b \<and> b_prev ?h \<noteq> b"
    proof (cases "b_dev ?h = 0")
      case True
      then show ?thesis using hb assms(2) by auto
    next
      case False
      then obtain as bs where "chain (nx_hash s) (pv_hash s) (hash_table s ?k) (as @ b # bs)" using hb by auto
      from chain_at[OF this] show ?thesis by (cases as rule: rev_cases; cases bs) auto
    qed
    then show "b_next ?h \<noteq> b" "b_prev ?h \<noteq> b" by auto
  qed
  obtain t where t: "remove_from_queues b s = Done () t"
    "bufs t = (\<lambda>x. (bufs s x)
      \<lparr>b_next := if b_prev ?h \<noteq> 0 \<and> x = b_prev ?h then b_next ?h else b_next (bufs s x),
       b_prev := if b_next ?h \<noteq> 0 \<and> x = b_next ?h then b_prev ?h else b_prev (bufs s x),
       b_next_free := if x = b_prev_free ?h then b_next_free ?h else b_next_free (bufs s x),
       b_prev_free := if x = b_next_free ?h then b_prev_free ?h else b_prev_free (bufs s x)\<rparr>)"
    "hash_table t = (if hash_table s ?k = b then (hash_table s)(?k := b_next ?h) else hash_table s)"
    "free_list t = (if free_list s = b then b_next_free ?h else free_list s)" "nr_buffers t = nr_buffers s"
    using remove_from_queues_links[OF nb fb] by blast
  have nbrs: "b_next ?h = 0 \<or> b_next ?h \<in> set (q ?k)" "b_prev ?h = 0 \<or> b_prev ?h \<in> set (q ?k)"
    "b_dev ?h = 0 \<Longrightarrow> b_next ?h = 0 \<and> b_prev ?h = 0"
  proof -
    have "(b_next ?h = 0 \<or> b_next ?h \<in> set (q ?k)) \<and> (b_prev ?h = 0 \<or> b_prev ?h \<in> set (q ?k))"
    proof (cases "b_dev ?h = 0")
      case False
      then obtain as bs where "chain (nx_hash s) (pv_hash s) (hash_table s ?k) (as @ b # bs)" "q ?k = as @ b # bs"
        using hb by auto
      from chain_at[OF this(1)] this(2) show ?thesis by (cases as rule: rev_cases; cases bs) auto
    qed (use hb in simp)
    then show "b_next ?h = 0 \<or> b_next ?h \<in> set (q ?k)" "b_prev ?h = 0 \<or> b_prev ?h \<in> set (q ?k)" by auto
  qed (use hb in simp)
  have in_q: "x \<in> set (q ?k) \<Longrightarrow> b_dev (bufs s x) \<noteq> 0 \<and> buf_hash x s = ?k" for x
    using hq by (auto simp: hash_queues_def)
  have away: "nx_hash t x = nx_hash s x \<and> pv_hash t x = pv_hash s x"
      if "x \<in> set (q k)" "k < 307" "b_dev ?h = 0 \<or> k \<noteq> ?k" for x k
  proof -
    have "x \<in> set (buf_ptrs s)" "buf_hash x s = k" using hq that(1,2) by (auto simp: hash_queues_def)
    then show ?thesis using nbrs in_q[of x] that(3) by (auto simp: t(2))
  qed
  have unused: "nx_hash t x = nx_hash s x \<and> pv_hash t x = pv_hash s x"
      if "x \<in> set (buf_ptrs s)" "b_dev (bufs s x) = 0" for x
    using nbrs in_q[of x] that by (auto simp: t(2))
  have r: "ring (nx_free t) (pv_free t) (ys @ xs)"
    by (rule ring_remove(1)[OF f(4,3,2)]) (simp_all add: t(2))
  have "free_list t = hd (xs @ ys)"
    using t(4) fr f ring_remove(2)[OF f(4,3,2), of "nx_free t" "pv_free t"]
    by (cases xs) (auto simp: free_ring_def t(2))
  moreover have "chain (nx_hash t) (pv_hash t) (hash_table t k) (remove1 b (q k))" if k: "k < 307" for k
  proof (cases "b_dev ?h = 0 \<or> k \<noteq> ?k")
    case True
    have c: "chain (nx_hash s) (pv_hash s) (hash_table s k) (q k)" using hq k by (auto simp: hash_queues_def)
    have "b \<notin> set (q k)" using hq k True by (auto simp: hash_queues_def)
    moreover have "hash_table t k = hash_table s k" using True hb by (auto simp: t(3))
    moreover have "nx_hash t x = nx_hash s x \<and> pv_hash t x = pv_hash s x" if "x \<in> set (q k)" for x
      using away that True k by auto
    then have "chain (nx_hash t) (pv_hash t) (hash_table s k) (q k)"
      using c chain_cong[of "q k" "nx_hash t" "nx_hash s" "pv_hash t" "pv_hash s"] by simp
    ultimately show ?thesis by (simp add: remove1_idem)
  next
    case False
    then obtain as bs where c: "chain (nx_hash s) (pv_hash s) (hash_table s ?k) (as @ b # bs)" "remove1 b (q ?k) = as @ bs"
      using hb by auto
    note at = chain_at[OF c(1)]
    have "chain (nx_hash t) (pv_hash t) (if as = [] then b_next ?h else hash_table s ?k) (as @ bs)"
      by (rule chain_remove[OF c(1)]) (use at in \<open>auto simp: t(2) split: list.splits if_splits\<close>)
    then show ?thesis using False c(2) at(3) by (cases "as = []") (simp_all add: t(3))
  qed
  moreover have "b_next (bufs t x) = 0 \<and> b_prev (bufs t x) = 0" if "x \<in> set (buf_ptrs s)" "b_dev (bufs s x) = 0" for x
    using unused[OF that] that hq by (auto simp: hash_queues_def)
  ultimately show ?thesis
    using t(1,5) r ring_rotate[of _ _ xs ys] f(5) by (intro exI[of _ t]) (auto simp: t(2) block_of_def same_contents_def)
qed

lemma ucast_u32_u16: "(dev :: u32) < 65536 \<Longrightarrow> ucast (ucast dev :: u16) = dev"
  by (rule word_unat_eq_iff[THEN iffD2]) (simp add: unsigned_ucast_eq unsigned_take_bit_eq take_bit_nat_eq_self word_less_nat_alt)

lemma is_block_iff:
  "dev < 65536 \<Longrightarrow> is_block dev block h \<longleftrightarrow> b_dev h = ucast dev \<and> b_blocknr h = block"
  using ucast_u32_u16 by (auto simp: is_block_def)

lemma ring_prev_first: "ring nx pv (h # zs) \<Longrightarrow> pv h = last (h # zs)"
  by (cases zs rule: rev_cases) (auto simp: seg_append)

lemma free_ring_fields:
  assumes "cache_is s q fl"
  shows "distinct fl" "set fl = set (buf_ptrs s)"
  using assms by (simp_all add: cache_is_def free_ring_def)

text \<open>
  C16. Taking a buffer for another block keeps the cache well-formed: the buffer leaves its old hash queue for
  the front of the queue of its new block and goes to the end of the free list, and no other buffer is
  disturbed. This is what the last lines of \<open>getblk\<close> do, when no buffer holds the block.
\<close>

theorem take_buffer_keeps_cache:
  assumes "cache_is s q fl" "b \<in> set (buf_ptrs s)" "2 \<le> nr_buffers s" "0 < dev" "dev < 65536"
    and "\<forall>c \<in> set (buf_ptrs s). \<not> is_block dev block (bufs s c)"
  shows "\<exists>t. take_buffer dev block b s = Done b t \<and>
    cache_is t (\<lambda>k. if k = hashfn dev block then b # remove1 b (q k) else remove1 b (q k)) (remove1 b fl @ [b]) \<and>
    is_block dev block (bufs t b) \<and> b_count (bufs t b) = 1 \<and> b_dirt (bufs t b) = 0 \<and> b_uptodate (bufs t b) = 0 \<and>
    (\<forall>c. c \<noteq> b \<longrightarrow> block_of t c = block_of s c \<and> b_count (bufs t c) = b_count (bufs s c) \<and>
      b_dirt (bufs t c) = b_dirt (bufs s c) \<and> b_uptodate (bufs t c) = b_uptodate (bufs s c)) \<and>
    (\<forall>c. b_data (bufs t c) = b_data (bufs s c) \<and> b_lock (bufs t c) = b_lock (bufs s c))"
proof -
  let ?s0 = "upd_buf b (\<lambda>h. h\<lparr>b_count := 1, b_dirt := 0, b_uptodate := 0\<rparr>) s"
  let ?k = "hashfn dev block" and ?fl = "remove1 b fl"
  have c0: "cache_is ?s0 q fl" using assms(1) by (subst cache_is_upd_buf) simp_all
  have p0: "buf_ptrs ?s0 = buf_ptrs s" "nr_buffers ?s0 = nr_buffers s" by (simp_all add: buf_ptrs_def)
  have e0: "block_of ?s0 x = block_of s x" for x by (simp add: block_of_def)
  obtain u where u: "remove_from_queues b ?s0 = Done () u"
    "\<And>k. k < 307 \<Longrightarrow> chain (nx_hash u) (pv_hash u) (hash_table u k) (remove1 b (q k))"
    "ring (nx_free u) (pv_free u) ?fl" "free_list u = hd ?fl" "nr_buffers u = nr_buffers s"
    "\<And>x. block_of u x = block_of s x" "\<And>x. same_contents (bufs u x) (bufs ?s0 x)"
    "\<And>x. x \<in> set (buf_ptrs s) \<Longrightarrow> b_dev (bufs ?s0 x) = 0 \<Longrightarrow> b_next (bufs u x) = 0 \<and> b_prev (bufs u x) = 0"
    using remove_from_queues_cache[OF c0, of b] assms(2,3) e0
    unfolding p0 e0 by blast
  have u7: "x \<in> set (buf_ptrs s) \<Longrightarrow> b_dev (bufs s x) = 0 \<Longrightarrow> b_next (bufs u x) = 0 \<and> b_prev (bufs u x) = 0" for x
    using u(8)[of x] by (cases "x = b") (simp_all del: set_buf_ptrs)
  define v where "v = upd_buf b (\<lambda>h. h\<lparr>b_dev := ucast dev, b_blocknr := block\<rparr>) u"
  have vf: "nx_hash v = nx_hash u" "pv_hash v = pv_hash u" "nx_free v = nx_free u" "pv_free v = pv_free u"
    "hash_table v = hash_table u" "free_list v = free_list u" "nr_buffers v = nr_buffers s"
    by (auto simp: v_def fun_eq_iff u(5))
  have vp: "nx_hash v x = nx_hash u x" "pv_hash v x = pv_hash u x" "nx_free v x = nx_free u x" "pv_free v x = pv_free u x" for x
    by (simp_all add: v_def)
  have dev: "ucast dev \<noteq> (0 :: u16)" using ucast_u32_u16[OF assms(5)] assms(4) by auto
  have vb: "b_dev (bufs v b) = ucast dev" "b_blocknr (bufs v b) = block" by (simp_all add: v_def)
  have kv: "buf_hash b v = ?k" using vb ucast_u32_u16[OF assms(5)] by (simp add: buf_hash_def)
  have fl: "distinct fl" "set fl = set (buf_ptrs s)" using free_ring_fields[OF assms(1)] .
  obtain h zs where z: "?fl = h # zs"
    using u(3) by (cases ?fl) auto
  have zb: "b \<notin> set ?fl" "distinct ?fl" using fl(1) by (simp_all add: set_remove1_eq)
  have h: "free_list v = h" "h \<noteq> b" "pv_free v h = last (h # zs)" "last (h # zs) \<noteq> b"
    using ring_prev_first[of "nx_free v" "pv_free v" h zs] u(3,4) z zb(1) last_in_set[of "h # zs"] by (auto simp: vf)
  have qk: "b \<notin> set (remove1 b (q k))" if "k < 307" for k
    using c0 that by (auto simp: cache_is_def hash_queues_def chain_def set_remove1_eq)
  have hk: "hash_table v ?k = 0 \<or> hash_table v ?k \<in> set (remove1 b (q ?k))"
    using u(2)[of ?k] by (cases "remove1 b (q ?k)") (auto simp: chain_def vf)
  then have hb: "hash_table v ?k \<noteq> b" using qk[of ?k] assms(2) by auto
  define t where "t = insert_into_queues b v"
  have "take_buffer dev block b s = Done b t"
    by (simp add: take_buffer_def u(1) t_def v_def)
  note ins = insert_into_queues_links[of v b, unfolded kv h(1,3) vb(1), OF dev h(2,4) hb, folded t_def]
  have q2: "b \<in> set (q k) \<longleftrightarrow> b \<in> set (buf_ptrs s) \<and> b_dev (bufs s b) \<noteq> 0 \<and> buf_hash b s = k" if "k < 307" for k b
    using assms(1) that by (simp add: cache_is_def hash_queues_def)
  have blk: "block_of t x = (if x = b then (ucast dev, block) else block_of s x)" for x
    using u(6)[of x] by (simp add: block_of_def ins(1) v_def)
  have dv: "b_dev (bufs t x) = (if x = b then ucast dev else b_dev (bufs s x))"
    "buf_hash x t = (if x = b then ?k else buf_hash x s)" for x
    using blk[of x] ucast_u32_u16[OF assms(5)] by (auto simp: block_of_def buf_hash_def split: if_splits)
  have other: "nx_hash t x = nx_hash v x" if "x \<noteq> b" for x using that by (simp add: ins(1))
  have chains: "chain (nx_hash t) (pv_hash t) (hash_table t k)
      (if k = ?k then b # remove1 b (q k) else remove1 b (q k))" if k: "k < 307" for k
  proof (cases "k = ?k")
    case True
    have "chain (nx_hash t) (pv_hash t) b (b # remove1 b (q ?k))"
      by (rule chain_push[OF u(2)[of ?k]]) (use qk[of ?k] hb assms(2) in \<open>auto simp: ins(1) vf(5) vp\<close>)
    then show ?thesis using True by (simp add: ins(2))
  next
    case False
    have "nx_hash t x = nx_hash u x \<and> pv_hash t x = pv_hash u x" if x: "x \<in> set (remove1 b (q k))" for x
    proof -
      have "x \<noteq> b" "buf_hash x s = k" using x qk[OF k] q2[OF k, of x] by (auto dest: notin_set_remove1[rotated])
      moreover from this have "x \<noteq> hash_table v ?k"
        using hk x q2[of k x] q2[of ?k x] k False by (auto dest: notin_set_remove1[rotated])
      ultimately show ?thesis by (simp add: ins(1) vp)
    qed
    then have "chain (nx_hash t) (pv_hash t) (hash_table u k) (remove1 b (q k))"
      using u(2)[OF k] by (subst chain_cong[of _ _ "nx_hash u" _ "pv_hash u"]) auto
    then show ?thesis using False by (simp add: ins(2) vf)
  qed
  have unused: "b_next (bufs t x) = 0 \<and> b_prev (bufs t x) = 0" if "x \<in> set (buf_ptrs s)" "b_dev (bufs t x) = 0" for x
  proof -
    have x: "x \<noteq> b" "b_dev (bufs s x) = 0" using that(2) dv(1)[of x] dev by (auto split: if_splits)
    moreover have "x \<noteq> hash_table v ?k"
      using hk q2[of ?k x] x that(1) by (auto dest: notin_set_remove1[rotated])
    ultimately show ?thesis using u7[OF that(1)] by (simp add: ins(1) vp)
  qed
  have members: "x \<in> set (if k = ?k then b # remove1 b (q k) else remove1 b (q k)) \<longleftrightarrow>
      x \<in> set (buf_ptrs s) \<and> b_dev (bufs t x) \<noteq> 0 \<and> buf_hash x t = k" if k: "k < 307" for k x
    using q2[OF k, of x] qk[OF k] assms(2) dev by (cases "x = b") (auto simp: dv simp del: set_buf_ptrs)
  have nb: "nr_buffers t = nr_buffers s" "buf_ptrs t = buf_ptrs s" by (simp_all add: ins(4) vf(7) buf_ptrs_def)
  have "ring (nx_free t) (pv_free t) (h # zs @ [b])"
  proof (rule ring_insert[of "nx_free u" "pv_free u"])
    show "ring (nx_free u) (pv_free u) (h # zs)" using u(3) z by simp
    show "distinct (b # h # zs)" using zb z by simp
  qed (use h in \<open>auto simp: ins(1) vp\<close>)
  moreover have "set (h # zs) = set (buf_ptrs s) - {b}" using set_remove1_eq[OF fl(1), of b] unfolding z fl(2) .
  then have "set (h # zs @ [b]) = set (buf_ptrs s)" using assms(2) by (auto simp del: set_buf_ptrs)
  moreover have "distinct (h # zs @ [b])" using zb z by simp
  ultimately have ring: "free_ring t (?fl @ [b])"
    unfolding free_ring_def nb z by (simp add: ins(3) h(1) del: set_buf_ptrs)
  have "inj_on (block_of t) {x \<in> set (buf_ptrs t). b_dev (bufs t x) \<noteq> 0}"
  proof (rule inj_onI)
    fix x y assume xy: "x \<in> {x \<in> set (buf_ptrs t). b_dev (bufs t x) \<noteq> 0}" "y \<in> {x \<in> set (buf_ptrs t). b_dev (bufs t x) \<noteq> 0}"
      "block_of t x = block_of t y"
    have new: "block_of s c \<noteq> (ucast dev, block)" if "c \<in> set (buf_ptrs s)" for c
      using bspec[OF assms(6) that] is_block_iff[OF assms(5)] by (simp add: block_of_def)
    have old: "inj_on (block_of s) {x \<in> set (buf_ptrs s). b_dev (bufs s x) \<noteq> 0}"
      using assms(1) by (simp add: cache_is_def)
    have ptrs: "x \<in> set (buf_ptrs s)" "y \<in> set (buf_ptrs s)" using xy nb(2) by auto
    show "x = y"
    proof (cases "x = b \<or> y = b")
      case True
      then show ?thesis using new[OF ptrs(1)] new[OF ptrs(2)] xy(3) unfolding blk by (metis (full_types))
    next
      case False
      then have "block_of s x = block_of s y" "b_dev (bufs s x) \<noteq> 0" "b_dev (bufs s y) \<noteq> 0"
        using xy by (simp_all add: blk dv(1))
      then show ?thesis using inj_onD[OF old, of x y] ptrs by simp
    qed
  qed
  then have "cache_is t (\<lambda>k. if k = ?k then b # remove1 b (q k) else remove1 b (q k)) (?fl @ [b])"
    unfolding cache_is_def hash_queues_def nb using chains members unused ring by blast
  moreover have "take_buffer dev block b s = Done b t"
    by (simp add: take_buffer_def u(1) t_def v_def)
  moreover have "is_block dev block (bufs t b)" using blk[of b] is_block_iff[OF assms(5)] by (simp add: block_of_def)
  moreover have "same_contents (bufs t x) (bufs u x)" for x
    by (simp add: same_contents_def ins(1) v_def)
  then have "same_contents (bufs t x) (bufs ?s0 x)" for x
    using u(7)[of x] unfolding same_contents_def by metis
  then have "b_count (bufs t x) = (if x = b then 1 else b_count (bufs s x)) \<and>
      b_dirt (bufs t x) = (if x = b then 0 else b_dirt (bufs s x)) \<and>
      b_uptodate (bufs t x) = (if x = b then 0 else b_uptodate (bufs s x)) \<and>
      b_data (bufs t x) = b_data (bufs s x) \<and> b_lock (bufs t x) = b_lock (bufs s x)" for x
    unfolding same_contents_def by (cases "x = b") simp_all
  ultimately show ?thesis
    using blk by (intro exI[of _ t]) simp
qed

subsection \<open>The cache in small\<close>

lemma demo_cache: "cache_is demo_fs (\<lambda>k. if k = 158 then [1] else if k = 161 then [2] else []) [1, 2, 3]"
proof -
  have k: "hashfn 0x301 5 = 158" "hashfn 0x301 6 = 161" by (simp_all add: hashfn_def)
  have p: "{Suc 0..3} = {1, 2, 3}" by auto
  show ?thesis
    by (auto simp: cache_is_def hash_queues_def free_ring_def chain_def p demo_buf_def buf_hash_def k block_of_def
        inj_on_def split: if_splits)
qed

lemma demo_not_cached: "\<forall>c \<in> set (buf_ptrs demo_fs). \<not> is_block 0x301 7 (bufs demo_fs c)"
  by (auto simp: is_block_def demo_buf_def split: if_splits)

theorem find_buffer_correct_witness:
  "\<exists>b. find_buffer 0x301 6 demo_fs = Done b demo_fs \<and> b = 2"
proof -
  have "is_block 0x301 6 (bufs demo_fs 2)" "2 \<in> set (buf_ptrs demo_fs)"
    by (simp_all add: is_block_def demo_buf_def)
  moreover have ne: "(0x301 :: u32) \<noteq> 0" by simp
  obtain b where "find_buffer 0x301 6 demo_fs = Done b demo_fs"
    "if b = 0 then \<not> (\<exists>c \<in> set (buf_ptrs demo_fs). is_block 0x301 6 (bufs demo_fs c))
     else b \<in> set (buf_ptrs demo_fs) \<and> is_block 0x301 6 (bufs demo_fs b) \<and>
       (\<forall>c \<in> set (buf_ptrs demo_fs). is_block 0x301 6 (bufs demo_fs c) \<longrightarrow> c = b)"
    using find_buffer_correct[OF demo_cache ne, of 6] by blast
  ultimately have "find_buffer 0x301 6 demo_fs = Done b demo_fs \<and> b = 2" by metis
  then show ?thesis by blast
qed

theorem take_buffer_keeps_cache_witness:
  "\<exists>t. take_buffer 0x301 7 1 demo_fs = Done 1 t \<and>
    cache_is t (\<lambda>k. if k = 160 then [1] else if k = 161 then [2] else []) [2, 3, 1]"
proof -
  have e: "(\<lambda>k. if k = hashfn 0x301 7 then (1 :: nat) # remove1 1 (if k = 158 then [1] else if k = 161 then [2] else [])
      else remove1 1 (if k = 158 then [1] else if k = 161 then [2] else [])) =
    (\<lambda>k. if k = 160 then [1] else if k = 161 then [2] else [])" "remove1 1 [1, 2, 3] @ [1] = [2, 3, 1 :: nat]"
    by (auto simp: hashfn_def fun_eq_iff)
  show ?thesis
    using take_buffer_keeps_cache[OF demo_cache, of 1 "0x301" 7, unfolded e] demo_not_cached by auto
qed

subsection \<open>The block that getblk gives\<close>

lemma block_of_links [simp]:
  "block_of (upd_buf b (\<lambda>x. x\<lparr>b_next_free := n\<rparr>) s) c = block_of s c"
  "block_of (upd_buf b (\<lambda>x. x\<lparr>b_prev_free := n\<rparr>) s) c = block_of s c"
  "block_of (upd_buf b (\<lambda>x. x\<lparr>b_prev := n, b_next := m\<rparr>) s) c = block_of s c"
  "block_of (upd_buf b (\<lambda>x. x\<lparr>b_next := n\<rparr>) s) c = block_of s c"
  "block_of (upd_buf b (\<lambda>x. x\<lparr>b_prev := n\<rparr>) s) c = block_of s c"
  "block_of (s\<lparr>hash_table := h\<rparr>) c = block_of s c"
  by (simp_all add: block_of_def)

lemma block_of_insert: "block_of (insert_into_queues b s) c = block_of s c"
  by (simp add: insert_into_queues_def Let_def del: upd_buf_sel(1))

lemma take_buffer_block:
  assumes "take_buffer dev block b s = Done c t" "dev < 65536"
  shows "c = b \<and> is_block dev block (bufs t b)"
proof -
  obtain u where "c = b" "t = insert_into_queues b (upd_buf b (\<lambda>h. h\<lparr>b_dev := ucast dev, b_blocknr := block\<rparr>) u)"
    using assms(1) by (auto simp: take_buffer_def and_then_Done_iff)
  then have "block_of t b = (ucast dev, block)" by (simp add: block_of_insert) (simp add: block_of_def)
  then show ?thesis using \<open>c = b\<close> assms(2) by (simp add: is_block_iff block_of_def)
qed

lemma get_hash_table_block:
  assumes "get_hash_table e dev block s = Done b t" "b \<noteq> 0"
  shows "is_block dev block (bufs t b)"
proof -
  have "b \<noteq> 0 \<longrightarrow> is_block dev block (bufs t b)"
    using assms(1) unfolding get_hash_table_def
    by (rule loop_invariant[where P = "\<lambda>_ _. True"]) (auto simp: and_then_Done_iff split: if_splits)
  then show ?thesis using assms(2) by simp
qed

lemma getblk_with_block:
  assumes "getblk_with sync e dev block s = Done b t" "dev < 65536"
  shows "b \<noteq> 0 \<and> is_block dev block (bufs t b)"
  using assms(1) unfolding getblk_with_def
  by (rule loop_invariant[where P = "\<lambda>_ _. True"])
    (auto simp: and_then_Done_iff get_hash_table_block dest: take_buffer_block[OF _ assms(2)] split: if_splits)

text \<open>
  C18. \<open>getblk\<close> never gives the wrong buffer: whatever other processes have done to the cache each time it slept,
  and whatever writing back has done, the buffer it returns is a buffer (not NULL) that holds the block asked for
  at that moment. \<open>bread\<close> returns either NULL or a buffer whose contents are valid.
\<close>

theorem getblk_gives_block:
  assumes "dev < 65536"
  shows "(getblk e dev block s = Done b t \<longrightarrow> b \<noteq> 0 \<and> is_block dev block (bufs t b)) \<and>
    (bread e dev block s = Done b t \<longrightarrow> b \<noteq> 0 \<longrightarrow> b_uptodate (bufs t b) \<noteq> 0)"
proof (intro conjI impI)
  assume "getblk e dev block s = Done b t"
  then have "b \<noteq> 0 \<and> is_block dev block (bufs t b)"
    using getblk_with_block[OF _ assms] by (cases "nesting e") (auto simp: getblk_def)
  then show "b \<noteq> 0" "is_block dev block (bufs t b)" by simp_all
next
  assume "bread e dev block s = Done b t" "b \<noteq> 0"
  then show "b_uptodate (bufs t b) \<noteq> 0"
    by (auto simp: bread_def bread_with_def and_then_Done_iff split: if_splits)
qed

lemma demo_bread: "\<exists>t. getblk demo_env 0x301 5 demo_fs = Done 1 t \<and> bread demo_env 0x301 5 demo_fs = Done 1 t"
proof -
  have n: "nesting demo_env = Suc 2" by (simp add: demo_env_def)
  have f: "find_buffer 0x301 5 demo_fs = Done 1 demo_fs"
    unfolding find_buffer_def by (subst loop_unfold) (simp add: hashfn_def demo_buf_def is_block_def)
  have "get_hash_table demo_env 0x301 5 demo_fs = Done 1 (upd_buf 1 (\<lambda>h. h\<lparr>b_count := b_count h + 1\<rparr>) demo_fs)"
    unfolding get_hash_table_def
    by (subst loop_unfold) (simp add: f wait_on_buffer_def demo_buf_def is_block_def)
  then have "getblk demo_env 0x301 5 demo_fs = Done 1 (upd_buf 1 (\<lambda>h. h\<lparr>b_count := b_count h + 1\<rparr>) demo_fs)"
    unfolding getblk_def n getblk_nested.simps getblk_with_def by (subst loop_unfold) simp
  then show ?thesis by (simp add: bread_def bread_with_def demo_buf_def)
qed

theorem getblk_gives_block_witness:
  "\<exists>t. getblk demo_env 0x301 5 demo_fs = Done 1 t \<and> is_block 0x301 5 (bufs t 1) \<and> b_uptodate (bufs t 1) \<noteq> 0"
proof -
  obtain t where "getblk demo_env 0x301 5 demo_fs = Done 1 t" "bread demo_env 0x301 5 demo_fs = Done 1 t"
    using demo_bread by blast
  then show ?thesis
    using getblk_gives_block[where dev = "0x301" and e = demo_env and block = 5 and s = demo_fs and b = 1 and t = t] by simp
qed

end
