(* ===== verification/Inodes.thy ===== *)
theory Inodes
  imports Buffer_Cache Memory_Props Sys_Calls
begin

section \<open>Bitmaps, inodes and the blocks of a file\<close>

text \<open>
  \<^verbatim>\<open>fs/bitmap.c\<close>, \<^verbatim>\<open>fs/truncate.c\<close> and the rest of \<^verbatim>\<open>fs/inode.c\<close>: allocation of blocks and inodes, the map
  from the blocks of a file to the blocks of its device, and the inode table. A set bit of a bitmap is a
  block or an inode in use; bit \<open>j\<close> of the zone bitmap is block \<open>j + s_firstdatazone - 1\<close>.
\<close>

unbundle bit_operations_syntax

subsection \<open>Bits of a block\<close>

definition block_bit :: "(nat \<Rightarrow> u8) \<Rightarrow> nat \<Rightarrow> bool" where
  "block_bit d nr = bit (d (nr div 8)) (nr mod 8)"

text \<open>\<open>set_bit\<close> gives the old bit, \<open>clear_bit\<close> whether it was already clear.\<close>

definition set_bit_in :: "nat \<Rightarrow> nat \<Rightarrow> fs_state \<Rightarrow> bool \<times> fs_state" where
  "set_bit_in nr bh s =
    (block_bit (b_data (bufs s bh)) nr,
     upd_buf bh (\<lambda>h. h\<lparr>b_data := (b_data h)(nr div 8 := Bit_Operations.set_bit (nr mod 8) (b_data h (nr div 8)))\<rparr>) s)"

definition clear_bit_in :: "nat \<Rightarrow> nat \<Rightarrow> fs_state \<Rightarrow> bool \<times> fs_state" where
  "clear_bit_in nr bh s =
    (\<not> block_bit (b_data (bufs s bh)) nr,
     upd_buf bh (\<lambda>h. h\<lparr>b_data := (b_data h)(nr div 8 := unset_bit (nr mod 8) (b_data h (nr div 8)))\<rparr>) s)"

text \<open>\<open>find_first_zero\<close>: 8192 when all bits are set.\<close>

definition find_first_zero :: "(nat \<Rightarrow> u8) \<Rightarrow> nat" where
  "find_first_zero d = (case find (\<lambda>j. \<not> block_bit d j) [0..<8192] of Some j \<Rightarrow> j | None \<Rightarrow> 8192)"

definition clear_block :: "nat \<Rightarrow> fs_state \<Rightarrow> fs_state" where
  "clear_block bh s = upd_buf bh (\<lambda>h. h\<lparr>b_data := (\<lambda>i. if i < 1024 then 0 else b_data h i)\<rparr>) s"

text \<open>
  The search over the eight bitmap blocks: the number of the bitmap block, its buffer and the bit.
  As in the code, \<open>bh\<close> and \<open>j\<close> are what the last iteration has left when nothing is found, and \<open>i\<close> is 8.
\<close>

fun search_map :: "(nat \<Rightarrow> nat) \<Rightarrow> fs_state \<Rightarrow> nat list \<Rightarrow> nat \<times> nat \<Rightarrow> nat \<times> nat \<times> nat" where
  "search_map m s [] (bh, j) = (8, bh, j)"
| "search_map m s (i # is) (bh, j) =
    (let bh = m i in
     if bh \<noteq> 0
     then let j = find_first_zero (b_data (bufs s bh))
          in if j < 8192 then (i, bh, j) else search_map m s is (bh, j)
     else search_map m s is (bh, j))"

subsection \<open>Blocks\<close>

definition free_block :: "fs_env \<Rightarrow> u32 \<Rightarrow> u32 \<Rightarrow> fs_state \<Rightarrow> int fs_out" where
  "free_block e dev block s =
    and_then (get_super e dev s) (\<lambda>sb s.
      case sb of
        None \<Rightarrow> Panics ''trying to free block on nonexistent device''
      | Some sb \<Rightarrow>
          if sint block < int (unat (s_firstdatazone (super_block s sb))) \<or>
             sint block \<ge> int (unat (s_nzones (super_block s sb)))
          then Panics ''trying to free block not in datazone''
          else
            and_then (get_hash_table e dev block s) (\<lambda>bh s.
            and_then
             (if bh \<noteq> 0
              then if b_count (bufs s bh) > 1
                then and_then (brelse e bh s) (\<lambda>_. Done False)
                else
                  let s = upd_buf bh (\<lambda>h. h\<lparr>b_dirt := 0, b_uptodate := 0\<rparr>) s
                  in if b_count (bufs s bh) \<noteq> 0
                     then and_then (brelse e bh s) (\<lambda>_. Done True) else Done True s
              else Done True s) (\<lambda>go_on s.
              if \<not> go_on then Done 0 s
              else
                let nr = nat (sint block - (int (unat (s_firstdatazone (super_block s sb))) - 1));
                    bh = s_zmap (super_block s sb) (nr div 8192);
                    (_, s) = clear_bit_in (nr mod 8192) bh s
                in Done 1 (upd_buf bh (\<lambda>h. h\<lparr>b_dirt := 1\<rparr>) s))))"

definition new_block :: "fs_env \<Rightarrow> u32 \<Rightarrow> fs_state \<Rightarrow> int fs_out" where
  "new_block e dev s =
    and_then (get_super e dev s) (\<lambda>sb s.
      case sb of
        None \<Rightarrow> Panics ''trying to get new block from nonexistant device''
      | Some sb \<Rightarrow>
          case search_map (s_zmap (super_block s sb)) s [0..<8] (0, 8192) of (i, bh, j) \<Rightarrow>
            if i \<ge> 8 \<or> bh = 0 \<or> j \<ge> 8192 then Done 0 s
            else
              case set_bit_in j bh s of (was_set, s) \<Rightarrow>
                if was_set then Panics ''new_block: bit already set''
                else
                  let s = upd_buf bh (\<lambda>h. h\<lparr>b_dirt := 1\<rparr>) s;
                      blk = int (j + i * 8192 + unat (s_firstdatazone (super_block s sb))) - 1
                  in if blk \<ge> int (unat (s_nzones (super_block s sb))) then Done 0 s
                     else
                       and_then (getblk e dev (word_of_int blk) s) (\<lambda>bh s.
                         if bh = 0 then Panics ''new_block: cannot get block''
                         else if b_count (bufs s bh) \<noteq> 1 then Panics ''new block: count is != 1''
                         else
                           let s = clear_block bh s;
                               s = upd_buf bh (\<lambda>h. h\<lparr>b_uptodate := 1, b_dirt := 1\<rparr>) s
                           in and_then (brelse e bh s) (\<lambda>_. Done blk)))"

subsection \<open>Freeing the blocks of a file\<close>

text \<open>
  One block of numbers: \<open>free\<close> frees what each number stands for. The numbers are read from the
  buffer \<open>bh\<close> as the loop goes.
\<close>

definition free_numbers ::
  "(u32 \<Rightarrow> fs_state \<Rightarrow> int fs_out) \<Rightarrow> nat \<Rightarrow> fs_state \<Rightarrow> bool fs_out" where
  "free_numbers free bh s =
    fold_outcome (\<lambda>i busy s.
      let p = get_le16 (b_data (bufs s bh)) (2 * i) in
      if p = 0 then Done busy s
      else and_then (free (ucast p) s) (\<lambda>r s.
        if r \<noteq> 0
        then Done busy (upd_buf bh (\<lambda>h. h\<lparr>b_data := put_le16 (2 * i) 0 (b_data h), b_dirt := 1\<rparr>) s)
        else Done True s)) [0..<512] False s"

definition free_ind :: "fs_env \<Rightarrow> u32 \<Rightarrow> u32 \<Rightarrow> fs_state \<Rightarrow> int fs_out" where
  "free_ind e dev block s =
    (if block = 0 then Done 1 s
     else
       and_then (bread e dev block s) (\<lambda>bh s.
       and_then
         (if bh \<noteq> 0
          then and_then (free_numbers (free_block e dev) bh s) (\<lambda>busy s.
                 and_then (brelse e bh s) (\<lambda>_. Done busy))
          else Done False s) (\<lambda>busy s.
         if busy then Done 0 s else free_block e dev block s)))"

definition free_dind :: "fs_env \<Rightarrow> u32 \<Rightarrow> u32 \<Rightarrow> fs_state \<Rightarrow> int fs_out" where
  "free_dind e dev block s =
    (if block = 0 then Done 1 s
     else
       and_then (bread e dev block s) (\<lambda>bh s.
       and_then
         (if bh \<noteq> 0
          then and_then (free_numbers (free_ind e dev) bh s) (\<lambda>busy s.
                 and_then (brelse e bh s) (\<lambda>_. Done busy))
          else Done False s) (\<lambda>busy s.
         if busy then Done 0 s else free_block e dev block s)))"

definition S_IFMT :: "u16 \<Rightarrow> u16" where "S_IFMT m = m AND 0xf000"
definition S_ISREG :: "u16 \<Rightarrow> bool" where "S_ISREG m \<longleftrightarrow> S_IFMT m = 0x8000"
definition S_ISDIR :: "u16 \<Rightarrow> bool" where "S_ISDIR m \<longleftrightarrow> S_IFMT m = 0x4000"
definition S_ISCHR :: "u16 \<Rightarrow> bool" where "S_ISCHR m \<longleftrightarrow> S_IFMT m = 0x2000"
definition S_ISBLK :: "u16 \<Rightarrow> bool" where "S_ISBLK m \<longleftrightarrow> S_IFMT m = 0x6000"
definition S_ISFIFO :: "u16 \<Rightarrow> bool" where "S_ISFIFO m \<longleftrightarrow> S_IFMT m = 0x1000"
definition S_ISLNK :: "u16 \<Rightarrow> bool" where "S_ISLNK m \<longleftrightarrow> S_IFMT m = 0xa000"

definition set_zone :: "u32 \<Rightarrow> nat \<Rightarrow> u16 \<Rightarrow> fs_state \<Rightarrow> fs_state" where
  "set_zone p k v = upd_inode p (\<lambda>i. i\<lparr>i_zone := (i_zone i)(k := v)\<rparr>)"

text \<open>Free zone \<open>k\<close> with \<open>free\<close>, and clear it if that succeeds; the result is whether it was busy.\<close>

definition free_zone ::
  "(u32 \<Rightarrow> fs_state \<Rightarrow> int fs_out) \<Rightarrow> u32 \<Rightarrow> nat \<Rightarrow> bool \<Rightarrow> fs_state \<Rightarrow> bool fs_out" where
  "free_zone free p k busy s =
    and_then (free (ucast (i_zone (inode_table s p) k)) s) (\<lambda>r s.
      if r \<noteq> 0 then Done busy (set_zone p k 0 s) else Done True s)"

definition truncate :: "fs_env \<Rightarrow> u32 \<Rightarrow> fs_state \<Rightarrow> unit fs_out" where
  "truncate e p s =
    (let m = i_mode (inode_table s p) in
     if \<not> (S_ISREG m \<or> S_ISDIR m \<or> S_ISLNK m) then Done () s
     else
       and_then (loop (\<lambda>_ s.
         let dev = ucast (i_dev (inode_table s p)) in
         and_then (fold_outcome (\<lambda>k busy s.
             if i_zone (inode_table s p) k \<noteq> 0 then free_zone (free_block e dev) p k busy s
             else Done busy s) [0..<7] False s) (\<lambda>busy s.
         and_then (free_zone (free_ind e dev) p 7 busy s) (\<lambda>busy s.
         and_then (free_zone (free_dind e dev) p 8 busy s) (\<lambda>busy s.
           let s = upd_inode p (\<lambda>i. i\<lparr>i_dirt := 1\<rparr>) s in
           if busy
           then and_then (reschedule (resume_after e) (upd_cur (\<lambda>t. t\<lparr>counter := 0\<rparr>) s)) (\<lambda>_. Done (Again ()))
           else Done (Leave ()) s)))) () s) (\<lambda>_ s.
       let now = CURRENT_TIME s
       in Done () (upd_inode p (\<lambda>i. i\<lparr>i_size := 0, i_ctime := now, i_mtime := now\<rparr>) s)))"

subsection \<open>Inodes of a device\<close>

text \<open>\<^verbatim>\<open>memset(inode,0,sizeof(*inode))\<close>.\<close>

definition zero_inode :: m_inode where
  "zero_inode =
    \<lparr>i_mode = 0, i_uid = 0, i_size = 0, i_mtime = 0, i_gid = 0, i_nlinks = 0, i_zone = (\<lambda>_. 0), i_wait = 0,
     i_wait2 = 0, i_atime = 0, i_ctime = 0, i_dev = 0, i_num = 0, i_lock = 0, i_dirt = 0, i_pipe = 0,
     i_mount = 0, i_seek = 0, i_update = 0\<rparr>"

definition clear_inode :: "u32 \<Rightarrow> fs_state \<Rightarrow> fs_state" where
  "clear_inode p s = set_i_count p 0 (upd_inode p (\<lambda>_. zero_inode) s)"

definition free_inode :: "fs_env \<Rightarrow> u32 \<Rightarrow> fs_state \<Rightarrow> unit fs_out" where
  "free_inode e p s =
    (if p = 0 then Done () s
     else if i_dev (inode_table s p) = 0 then Done () (clear_inode p s)
     else if i_count s p > 1 then Panics ''free_inode''
     else if i_nlinks (inode_table s p) \<noteq> 0 then Panics ''trying to free inode with links''
     else
       and_then (get_super e (ucast (i_dev (inode_table s p))) s) (\<lambda>sb s.
         case sb of
           None \<Rightarrow> Panics ''trying to free inode on nonexistent device''
         | Some sb \<Rightarrow>
             let num = i_num (inode_table s p); bh = s_imap (super_block s sb) (unat num div 8192) in
             if num < 1 \<or> num > s_ninodes (super_block s sb)
             then Panics ''trying to free inode 0 or nonexistant inode''
             else if bh = 0 then Panics ''nonexistent imap in superblock''
             else
               case clear_bit_in (unat num mod 8192) bh s of (_, s) \<Rightarrow>
                 Done () (clear_inode p (upd_buf bh (\<lambda>h. h\<lparr>b_dirt := 1\<rparr>) s))))"

text \<open>The body of the \<open>do\<close> loop of \<open>get_empty_inode\<close>: the clock scan; 0 if every inode is in use.\<close>

primrec scan_inodes :: "nat \<Rightarrow> u32 \<Rightarrow> fs_state \<Rightarrow> u32 \<times> fs_state" where
  "scan_inodes 0 p s = (p, s)"
| "scan_inodes (Suc n) p s =
    (let k = (if last_inode s + 1 \<ge> NR_INODE then 0 else last_inode s + 1);
         s = s\<lparr>last_inode := k\<rparr>; q = inode_ptr k
     in if i_count s q = 0
        then if i_dirt (inode_table s q) = 0 \<and> i_lock (inode_table s q) = 0 then (q, s)
             else scan_inodes n q s
        else scan_inodes n p s)"

definition get_empty_inode :: "fs_env \<Rightarrow> fs_state \<Rightarrow> u32 fs_out" where
  "get_empty_inode e s =
    and_then (loop (\<lambda>_ s.
      case scan_inodes NR_INODE 0 s of (p, s) \<Rightarrow>
        if p = 0 then Panics ''No free inodes in mem''
        else
          and_then (wait_on_inode e p s) (\<lambda>_ s.
          and_then (loop (\<lambda>_ s.
              if i_dirt (inode_table s p) = 0 then Done (Leave ()) s
              else and_then (write_inode e p s) (\<lambda>_ s.
                   and_then (wait_on_inode e p s) (\<lambda>_. Done (Again ())))) () s) (\<lambda>_ s.
            if i_count s p \<noteq> 0 then Done (Again ()) s else Done (Leave p) s))) () s) (\<lambda>p s.
    Done p (set_i_count p 1 (upd_inode p (\<lambda>_. zero_inode) s)))"

text \<open>The loop of \<open>iput\<close> from \<^verbatim>\<open>repeat:\<close> on.\<close>

definition iput_last :: "fs_env \<Rightarrow> u32 \<Rightarrow> fs_state \<Rightarrow> unit fs_out" where
  "iput_last e p =
    loop (\<lambda>_ s.
      if i_count s p > 1 then Done (Leave ()) (set_i_count p (i_count s p - 1) s)
      else if i_nlinks (inode_table s p) = 0
      then and_then (truncate e p s) (\<lambda>_ s. and_then (free_inode e p s) (\<lambda>_. Done (Leave ())))
      else if i_dirt (inode_table s p) \<noteq> 0
      then and_then (write_inode e p s) (\<lambda>_ s. and_then (wait_on_inode e p s) (\<lambda>_. Done (Again ())))
      else Done (Leave ()) (set_i_count p (i_count s p - 1) s)) ()"

definition iput :: "fs_env \<Rightarrow> u32 \<Rightarrow> fs_state \<Rightarrow> unit fs_out" where
  "iput e p s =
    (if p = 0 then Done () s
     else
       and_then (wait_on_inode e p s) (\<lambda>_ s.
         if i_count s p = 0 then Panics ''iput: trying to free free inode''
         else if i_pipe (inode_table s p) \<noteq> 0
         then
           let s = wake_up (i_wait (inode_table s p)) s;
               s = wake_up (i_wait2 (inode_table s p)) s;
               s = set_i_count p (i_count s p - 1) s
           in if i_count s p \<noteq> 0 then Done () s
              else
                and_then (free_page (i_size (inode_table s p)) s) (\<lambda>_ s.
                  Done () (upd_inode p (\<lambda>i. i\<lparr>i_dirt := 0, i_pipe := 0\<rparr>) (set_i_count p 0 s)))
         else if i_dev (inode_table s p) = 0 then Done () (set_i_count p (i_count s p - 1) s)
         else
           and_then
             (if S_ISBLK (i_mode (inode_table s p))
              then and_then (sync_dev e (ucast (i_zone (inode_table s p) 0)) s) (\<lambda>_ s. wait_on_inode e p s)
              else Done () s) (\<lambda>_ s.
             iput_last e p s)))"

definition new_inode :: "fs_env \<Rightarrow> u32 \<Rightarrow> fs_state \<Rightarrow> u32 fs_out" where
  "new_inode e dev s =
    and_then (get_empty_inode e s) (\<lambda>p s.
      if p = 0 then Done 0 s
      else
        and_then (get_super e dev s) (\<lambda>sb s.
          case sb of
            None \<Rightarrow> Panics ''new_inode with unknown device''
          | Some sb \<Rightarrow>
              case search_map (s_imap (super_block s sb)) s [0..<8] (0, 8192) of (i, bh, j) \<Rightarrow>
                if bh = 0 \<or> j \<ge> 8192 \<or> j + i * 8192 > unat (s_ninodes (super_block s sb))
                then and_then (iput e p s) (\<lambda>_. Done 0)
                else
                  case set_bit_in j bh s of (was_set, s) \<Rightarrow>
                    if was_set then Panics ''new_inode: bit already set''
                    else
                      let s = upd_buf bh (\<lambda>h. h\<lparr>b_dirt := 1\<rparr>) s;
                          now = CURRENT_TIME s; t = cur s
                      in Done p (upd_inode p (\<lambda>x. x\<lparr>i_nlinks := 1, i_dev := ucast dev, i_uid := euid t,
                            i_gid := ucast (egid t), i_dirt := 1, i_num := of_nat (j + i * 8192),
                            i_ctime := now, i_atime := now, i_mtime := now\<rparr>) (set_i_count p 1 s))))"

definition get_pipe_inode :: "fs_env \<Rightarrow> fs_state \<Rightarrow> u32 fs_out" where
  "get_pipe_inode e s =
    and_then (get_empty_inode e s) (\<lambda>p s.
      if p = 0 then Done 0 s
      else
        and_then (get_free_page s) (\<lambda>page s.
          let s = upd_inode p (\<lambda>i. i\<lparr>i_size := page\<rparr>) s in
          if page = 0 then Done 0 (set_i_count p 0 s)
          else Done p (upd_inode p (\<lambda>i. i\<lparr>i_zone := (i_zone i)(1 := 0, 0 := 0), i_pipe := 1\<rparr>)
                        (set_i_count p 2 s))))"

definition d_inode_of :: "(nat \<Rightarrow> u8) \<Rightarrow> nat \<Rightarrow> m_inode \<Rightarrow> m_inode" where
  "d_inode_of d off i =
    i\<lparr>i_mode := get_le16 d off, i_uid := get_le16 d (off + 2), i_size := get_le32 d (off + 4),
      i_mtime := get_le32 d (off + 8), i_gid := d (off + 12), i_nlinks := d (off + 13),
      i_zone := (\<lambda>k. if k < 9 then get_le16 d (off + 14 + 2 * k) else i_zone i k)\<rparr>"

definition read_inode :: "fs_env \<Rightarrow> u32 \<Rightarrow> fs_state \<Rightarrow> unit fs_out" where
  "read_inode e p s =
    and_then (lock_inode e p s) (\<lambda>_ s.
    and_then (get_super e (ucast (i_dev (inode_table s p))) s) (\<lambda>sb s.
      case sb of
        None \<Rightarrow> Panics ''trying to read inode without dev''
      | Some sb \<Rightarrow>
          and_then (bread e (ucast (i_dev (inode_table s p))) (inode_block p sb s) s) (\<lambda>bh s.
            if bh = 0 then Panics ''unable to read i-node block''
            else
              let s = upd_inode p (d_inode_of (b_data (bufs s bh)) (32 * inode_slot p s)) s
              in and_then (brelse e bh s) (\<lambda>_ s.
                let i = inode_table s p; z = ucast (i_zone i 0) :: u32;
                    s = (if S_ISBLK (i_mode i)
                         then upd_inode p (\<lambda>i. i\<lparr>i_size :=
                                (case blk_size s (unat (MAJOR z)) of
                                   Some sizes \<Rightarrow> 1024 * sizes (unat (MINOR z)) | None \<Rightarrow> 0x7fffffff)\<rparr>) s
                         else s)
                in Done () (unlock_inode p s)))))"

text \<open>
  The search of \<open>iget\<close> over the table; the local variables are \<open>dev\<close>, \<open>nr\<close> and the number of the inode
  looked at. \<open>None\<close> is the end of the table, with the \<open>dev\<close> and \<open>nr\<close> that are wanted then.
\<close>

definition iget_search ::
  "fs_env \<Rightarrow> u32 \<Rightarrow> u32 \<Rightarrow> u32 \<Rightarrow> fs_state \<Rightarrow> (u32 option \<times> u32 \<times> u32) fs_out" where
  "iget_search e spare dev nr =
    loop (\<lambda>(dev, nr, k) s.
      let p = inode_ptr k;
          other = (\<lambda>s. ucast (i_dev (inode_table s p)) \<noteq> dev \<or> ucast (i_num (inode_table s p)) \<noteq> nr)
      in if k \<ge> NR_INODE then Done (Leave (None, dev, nr)) s
         else if other s then Done (Again (dev, nr, k + 1)) s
         else
           and_then (wait_on_inode e p s) (\<lambda>_ s.
             if other s then Done (Again (dev, nr, 0)) s
             else
               let s = set_i_count p (i_count s p + 1) s in
               if i_mount (inode_table s p) \<noteq> 0
               then
                 case find (\<lambda>i. s_imount (super_block s i) = p) [0..<NR_SUPER] of
                   None \<Rightarrow> and_then (iput e spare s) (\<lambda>_. Done (Leave (Some p, dev, nr)))
                 | Some i \<Rightarrow>
                     and_then (iput e p s) (\<lambda>_ s.
                       Done (Again (ucast (s_dev (super_block s i)), ROOT_INO, 0)) s)
               else and_then (iput e spare s) (\<lambda>_. Done (Leave (Some p, dev, nr))))) (dev, nr, 0)"

definition iget :: "fs_env \<Rightarrow> u32 \<Rightarrow> u32 \<Rightarrow> fs_state \<Rightarrow> u32 fs_out" where
  "iget e dev nr s =
    (if dev = 0 then Panics ''iget with dev==0''
     else
       and_then (get_empty_inode e s) (\<lambda>spare s.
       and_then (iget_search e spare dev nr s) (\<lambda>(r, dev, nr) s.
         case r of
           Some p \<Rightarrow> Done p s
         | None \<Rightarrow>
             if spare = 0 then Done 0 s
             else and_then (read_inode e spare (upd_inode spare (\<lambda>i. i\<lparr>i_dev := ucast dev, i_num := ucast nr\<rparr>) s))
                    (\<lambda>_. Done spare))))"

subsection \<open>The blocks of a file\<close>

text \<open>A zone of the inode that is created when it is 0 and \<open>create\<close> is set.\<close>

definition zone_or_new :: "fs_env \<Rightarrow> u32 \<Rightarrow> nat \<Rightarrow> bool \<Rightarrow> fs_state \<Rightarrow> unit fs_out" where
  "zone_or_new e p k create s =
    (if create \<and> i_zone (inode_table s p) k = 0
     then and_then (new_block e (ucast (i_dev (inode_table s p))) s) (\<lambda>z s.
       let s = set_zone p k (word_of_int z) s in
       if i_zone (inode_table s p) k \<noteq> 0
       then let now = CURRENT_TIME s in Done () (upd_inode p (\<lambda>i. i\<lparr>i_ctime := now, i_dirt := 1\<rparr>) s)
       else Done () s)
     else Done () s)"

text \<open>Entry \<open>k\<close> of the block of numbers \<open>zone\<close>, created likewise.\<close>

definition entry_or_new ::
  "fs_env \<Rightarrow> u32 \<Rightarrow> u32 \<Rightarrow> nat \<Rightarrow> bool \<Rightarrow> fs_state \<Rightarrow> int fs_out" where
  "entry_or_new e dev zone k create s =
    and_then (bread e dev zone s) (\<lambda>bh s.
      if bh = 0 then Done 0 s
      else
        and_then
          (let i = int (unat (get_le16 (b_data (bufs s bh)) (2 * k))) in
           if create \<and> i = 0
           then and_then (new_block e dev s) (\<lambda>i s.
             Done i (if i \<noteq> 0
               then upd_buf bh (\<lambda>h. h\<lparr>b_data := put_le16 (2 * k) (word_of_int i) (b_data h), b_dirt := 1\<rparr>) s else s))
           else Done i s) (\<lambda>i s.
        and_then (brelse e bh s) (\<lambda>_. Done i)))"

definition bmap_create :: "fs_env \<Rightarrow> u32 \<Rightarrow> u32 \<Rightarrow> bool \<Rightarrow> fs_state \<Rightarrow> int fs_out" where
  "bmap_create e p block create s =
    (if sint block < 0 then Panics ''_bmap: block<0''
     else if sint block \<ge> 7 + 512 + 512 * 512 then Panics ''_bmap: block>big''
     else
       let b = unat block; zone = (\<lambda>k s. i_zone (inode_table s p) k);
           dev = (\<lambda>s. ucast (i_dev (inode_table s p))) in
       if b < 7
       then and_then (zone_or_new e p b create s) (\<lambda>_ s. Done (int (unat (zone b s))) s)
       else if b - 7 < 512
       then
         and_then (zone_or_new e p 7 create s) (\<lambda>_ s.
           if zone 7 s = 0 then Done 0 s
           else entry_or_new e (dev s) (ucast (zone 7 s)) (b - 7) create s)
       else
         and_then (zone_or_new e p 8 create s) (\<lambda>_ s.
           if zone 8 s = 0 then Done 0 s
           else
             and_then (entry_or_new e (dev s) (ucast (zone 8 s)) ((b - 7 - 512) div 512) create s) (\<lambda>i s.
               if i = 0 then Done 0 s
               else entry_or_new e (dev s) (word_of_int i) ((b - 7 - 512) mod 512) create s)))"

definition bmap :: "fs_env \<Rightarrow> u32 \<Rightarrow> u32 \<Rightarrow> fs_state \<Rightarrow> int fs_out" where
  "bmap e p block = bmap_create e p block False"

definition create_block :: "fs_env \<Rightarrow> u32 \<Rightarrow> u32 \<Rightarrow> fs_state \<Rightarrow> int fs_out" where
  "create_block e p block = bmap_create e p block True"

subsection \<open>Inodes on disk\<close>

lemma le16_bytes: "ucast (ucast v :: u8) OR push_bit 8 (ucast (ucast (drop_bit 8 v) :: u8)) = (v :: u16)"
  using get_put_le16[of 0 v undefined] by (simp add: get_le16_def put_le16_def)

lemma le32_words: "ucast (ucast v :: u16) OR push_bit 16 (ucast (ucast (drop_bit 16 v) :: u16)) = (v :: u32)"
proof (rule bit_word_eqI)
  fix n assume "n < LENGTH(32)"
  then have "n < 16 \<or> 16 \<le> n \<and> n < 32" by auto
  then show "bit (ucast (ucast v :: u16) OR push_bit 16 (ucast (ucast (drop_bit 16 v) :: u16)) :: u32) n = bit v n"
    by (auto simp: bit_or_iff bit_push_bit_iff bit_ucast_iff bit_drop_bit_eq)
qed

lemma get_le16_at: "get_le16 d off = v \<longleftrightarrow> ucast (d off) OR push_bit 8 (ucast (d (off + 1))) = v"
  by (simp add: get_le16_def)

text \<open>
  What \<open>write_inode\<close> puts into the inode block, \<open>read_inode\<close> gets out again: all the fields of an inode that
  live on disk come back, for every slot of the block, and the other inodes of the block are untouched.
\<close>

theorem inode_disk_roundtrip:
  "d_inode_of (d_inode_bytes i off d) off j =
     j\<lparr>i_mode := i_mode i, i_uid := i_uid i, i_size := i_size i, i_mtime := i_mtime i, i_gid := i_gid i,
       i_nlinks := i_nlinks i, i_zone := (\<lambda>k. if k < 9 then i_zone i k else i_zone j k)\<rparr> \<and>
   (a < off \<or> off + 32 \<le> a \<longrightarrow> d_inode_bytes i off d a = d a)"
proof -
  have u: "[0..<9] = [0, 1, 2, 3, 4, 5, 6, 7, 8 :: nat]" by (simp add: upt_conv_Cons)
  have z: "get_le16 (d_inode_bytes i off d) (off + 14 + 2 * k) = i_zone i k" if "k < 9" for k
  proof -
    have "k \<in> {0, 1, 2, 3, 4, 5, 6, 7, 8}" using that by auto
    then show ?thesis
      by (elim insertE emptyE) (simp_all add: d_inode_bytes_def u get_le16_def put_le16_def le16_bytes)
  qed
  show ?thesis
    by (simp add: d_inode_of_def z cong: if_cong)
      (simp add: d_inode_bytes_def u get_le16_def get_le32_def put_le16_def put_le32_def le16_bytes le32_words)
qed

theorem inode_disk_roundtrip_witness:
  "i_size (d_inode_of (d_inode_bytes (demo_inode\<lparr>i_size := 1991\<rparr>) 32 (\<lambda>_. 7)) 32 demo_inode) = 1991 \<and>
   d_inode_bytes (demo_inode\<lparr>i_size := 1991\<rparr>) 32 (\<lambda>_. 7) 31 = 7"
  using inode_disk_roundtrip[of "demo_inode\<lparr>i_size := 1991\<rparr>" 32 "\<lambda>_. 7" demo_inode 31] by simp

subsection \<open>The lowest free block\<close>

lemma find_first_zero_spec:
  "find_first_zero d < 8192 \<Longrightarrow> \<not> block_bit d (find_first_zero d)"
  "j < find_first_zero d \<Longrightarrow> j < 8192 \<Longrightarrow> block_bit d j"
  unfolding find_first_zero_def by (auto split: option.splits simp: find_Some_iff find_None_iff)

text \<open>The bits of the bitmap whose blocks are \<open>m 0\<close>, \<open>m 1\<close>, ...; a bit in a missing block cannot be had.\<close>

definition map_bit :: "(nat \<Rightarrow> nat) \<Rightarrow> fs_state \<Rightarrow> nat \<Rightarrow> bool" where
  "map_bit m s n \<longleftrightarrow> (m (n div 8192) \<noteq> 0 \<longrightarrow> block_bit (b_data (bufs s (m (n div 8192)))) (n mod 8192))"

lemma search_map_spec:
  assumes "search_map m s is acc = (i, bh, j)" "sorted is" "\<forall>k \<in> set is. k < 8"
  shows "(i = 8 \<and> (\<forall>k \<in> set is. \<forall>n < 8192. map_bit m s (n + k * 8192))) \<or>
    (i \<in> set is \<and> bh = m i \<and> bh \<noteq> 0 \<and> j < 8192 \<and> \<not> block_bit (b_data (bufs s bh)) j \<and>
     (\<forall>k \<in> set is. \<forall>n < 8192. n + k * 8192 < j + i * 8192 \<longrightarrow> map_bit m s (n + k * 8192)))"
  using assms
proof (induction m s "is" acc rule: search_map.induct)
  case (2 m s k "is" bh0 j0)
  let ?z = "find_first_zero (b_data (bufs s (m k)))"
  have at: "map_bit m s (n + k * 8192) \<longleftrightarrow> (m k \<noteq> 0 \<longrightarrow> block_bit (b_data (bufs s (m k))) n)" if "n < 8192" for n
    using that by (simp add: map_bit_def)
  show ?case
  proof (cases "m k \<noteq> 0 \<and> ?z < 8192")
    case True
    then have r: "i = k" "bh = m k" "j = ?z" using "2.prems"(1) by (auto simp: Let_def)
    have "map_bit m s (n + l * 8192)" if "l \<in> set (k # is)" "n < 8192" "n + l * 8192 < ?z + k * 8192" for l n
    proof -
      have "k \<le> l" using "2.prems"(2) that(1) by auto
      moreover have "\<not> k < l"
      proof
        assume "k < l"
        then have "k * 8192 + 8192 \<le> l * 8192" by simp
        then show False using that(3) True by simp
      qed
      ultimately have "l = k" by simp
      then show ?thesis using at[OF that(2)] find_first_zero_spec(2) that by simp
    qed
    then show ?thesis using True r find_first_zero_spec(1) by auto
  next
    case False
    have all: "map_bit m s (n + k * 8192)" if "n < 8192" for n
      using at[OF that] find_first_zero_spec(2)[of n "b_data (bufs s (m k))"] that False by auto
    have "search_map m s is (m k, if m k = 0 then j0 else ?z) = (i, bh, j)"
      using "2.prems"(1) False by (auto simp: Let_def)
    moreover have "sorted is" "\<forall>k \<in> set is. k < 8" using "2.prems" by auto
    ultimately have "(i = 8 \<and> (\<forall>k \<in> set is. \<forall>n < 8192. map_bit m s (n + k * 8192))) \<or>
      (i \<in> set is \<and> bh = m i \<and> bh \<noteq> 0 \<and> j < 8192 \<and> \<not> block_bit (b_data (bufs s bh)) j \<and>
       (\<forall>k \<in> set is. \<forall>n < 8192. n + k * 8192 < j + i * 8192 \<longrightarrow> map_bit m s (n + k * 8192)))"
      using "2.IH" False by (cases "m k = 0") (simp_all add: Let_def)
    then show ?thesis using all by auto
  qed
qed auto

text \<open>
  C27. A block that \<open>new_block\<close> gives out was free, and it is the lowest-numbered free one: its bit in the zone
  bitmap was clear when the super block had been found, the bits of all lower blocks were set, and it lies
  inside the file system.
\<close>

theorem new_block_lowest_free:
  assumes "new_block e dev s = Done b t" "b \<noteq> 0"
  shows "\<exists>sb s1 n. get_super e dev s = Done (Some sb) s1 \<and> n < 8 * 8192 \<and>
    b = int n + int (unat (s_firstdatazone (super_block s1 sb))) - 1 \<and>
    b < int (unat (s_nzones (super_block s1 sb))) \<and>
    \<not> map_bit (s_zmap (super_block s1 sb)) s1 n \<and> (\<forall>k < n. map_bit (s_zmap (super_block s1 sb)) s1 k)"
proof -
  obtain sb s1 where g: "get_super e dev s = Done (Some sb) s1"
    using assms(1) by (auto simp: new_block_def and_then_Done_iff split: option.splits)
  obtain i bh j where m: "search_map (s_zmap (super_block s1 sb)) s1 [0..<8] (0, 8192) = (i, bh, j)"
    by (metis prod_cases3)
  have b: "i < 8" "j < 8192" "b = int (j + i * 8192 + unat (s_firstdatazone (super_block s1 sb))) - 1"
      "b < int (unat (s_nzones (super_block s1 sb)))"
    using assms unfolding new_block_def g and_then.simps option.case m prod.case set_bit_in_def Let_def
    by (auto simp: and_then_Done_iff upd_buf_def split: if_splits)
  let ?m = "s_zmap (super_block s1 sb)"
  have s: "bh = ?m i" "bh \<noteq> 0" "\<not> block_bit (b_data (bufs s1 bh)) j"
    "\<And>k n. k < 8 \<Longrightarrow> n < 8192 \<Longrightarrow> n + k * 8192 < j + i * 8192 \<Longrightarrow> map_bit ?m s1 (n + k * 8192)"
    using search_map_spec[OF m] b(1) by auto
  have "\<not> map_bit ?m s1 (j + i * 8192)" using s b(2) by (simp add: map_bit_def)
  moreover have "map_bit ?m s1 k" if "k < j + i * 8192" for k
    using s(4)[of "k div 8192" "k mod 8192"] that b(1,2) by simp
  ultimately show ?thesis using g b by (intro exI[of _ sb] exI[of _ s1] exI[of _ "j + i * 8192"]) auto
qed


text \<open>
  A device with one bitmap block, buffer 1, whose bits 0 and 1 are set; its data start at block 20, and an old
  block 21 is in buffer 2.
\<close>

definition demo_zones :: fs_state where
  "demo_zones = demo_fs\<lparr>super_block := (\<lambda>i. demo_super\<lparr>s_dev := 0x301, s_nzones := 100, s_firstdatazone := 20,
     s_zmap := (\<lambda>k. if k = 0 then 1 else 0)\<rparr>),
     bufs := (\<lambda>b. if b = 1 then (demo_buf 0x301 5 3 2)\<lparr>b_count := 1, b_data := (\<lambda>a. if a = 0 then 3 else 0)\<rparr>
       else demo_buf 0x301 21 1 3), hash_table := (\<lambda>k. if k = 174 then 2 else 0)\<rparr>"

lemma find_upt_Suc: "a < b \<Longrightarrow> find P [a..<b] = (if P a then Some a else find P [Suc a..<b])"
  by (subst upt_conv_Cons) simp_all

lemma demo_first_zero: "find_first_zero (\<lambda>a. if a = 0 then 3 else 0) = 2"
proof -
  have "find (\<lambda>j. \<not> block_bit (\<lambda>a. if a = 0 then 3 else 0) j) [0..<8192] = Some 2"
    by (subst find_upt_Suc, simp, subst find_upt_Suc, simp, subst find_upt_Suc, simp) (simp add: block_bit_def numeral_2_eq_2)
  then show ?thesis by (simp add: find_first_zero_def)
qed

lemma demo_new_block: "\<exists>t. new_block demo_env 0x301 demo_zones = Done 21 t"
proof -
  let ?s = demo_zones
  have sup: "get_super demo_env 0x301 ?s = Done (Some 0) ?s"
    unfolding get_super_def by (simp, subst loop_unfold) (simp add: demo_zones_def wait_on_super_def demo_super_def)
  have "[0..<8] = 0 # [1..<8 :: nat]" by (simp add: upt_conv_Cons)
  then have m: "search_map (s_zmap (super_block ?s 0)) ?s [0..<8] (0, 8192) = (0, 1, 2)"
    by (simp add: demo_zones_def demo_first_zero Let_def)
  have free: "\<not> block_bit (b_data (bufs ?s 1)) 2" by (simp add: demo_zones_def block_bit_def)
  define s1 where "s1 = upd_buf 1 (\<lambda>h. h\<lparr>b_dirt := 1\<rparr>) (snd (set_bit_in 2 1 ?s))"
  have s1: "bufs s1 2 = demo_buf 0x301 21 1 3" "hash_table s1 = (\<lambda>k. if k = 174 then 2 else 0)"
    by (simp_all add: s1_def set_bit_in_def demo_zones_def)
  have h: "hashfn 0x301 21 = 174" by (simp add: hashfn_def)
  have find: "find_buffer 0x301 21 s1 = Done 2 s1"
    unfolding find_buffer_def by (subst loop_unfold) (simp add: h s1 demo_buf_def is_block_def)
  define s2 where "s2 = upd_buf 2 (\<lambda>h. h\<lparr>b_count := b_count h + 1\<rparr>) s1"
  have s2: "bufs s2 2 = (demo_buf 0x301 21 1 3)\<lparr>b_count := 1\<rparr>" by (simp add: s2_def s1 demo_buf_def)
  have hash: "get_hash_table demo_env 0x301 21 s1 = Done 2 s2"
    unfolding get_hash_table_def
    by (subst loop_unfold) (simp add: find wait_on_buffer_def s2 demo_buf_def is_block_def flip: s2_def)
  have n: "nesting demo_env = Suc 2" by (simp add: demo_env_def)
  have "getblk demo_env 0x301 21 s1 = Done 2 s2"
    unfolding getblk_def n getblk_nested.simps getblk_with_def
    by (subst loop_unfold) (simp add: hash)
  moreover have sb: "set_bit_in 2 1 ?s = (False, snd (set_bit_in 2 1 ?s))" using free by (simp add: set_bit_in_def)
  moreover have f: "s_firstdatazone (super_block s1 0) = 20" "s_nzones (super_block s1 0) = 100"
    by (simp_all add: s1_def set_bit_in_def demo_zones_def)
  ultimately show ?thesis
    unfolding new_block_def sup and_then.simps option.case m prod.case
    by (subst sb, unfold prod.case Let_def s1_def[symmetric])
      (simp add: f s2 clear_block_def brelse_def wait_on_buffer_def demo_buf_def)
qed

theorem new_block_lowest_free_witness:
  "\<exists>t sb s1. new_block demo_env 0x301 demo_zones = Done 21 t \<and> get_super demo_env 0x301 demo_zones = Done (Some sb) s1 \<and>
    unat (s_firstdatazone (super_block s1 sb)) \<le> 22"
proof -
  obtain t where t: "new_block demo_env 0x301 demo_zones = Done 21 t" using demo_new_block by blast
  obtain sb s1 n where "get_super demo_env 0x301 demo_zones = Done (Some sb) s1"
    "21 = int n + int (unat (s_firstdatazone (super_block s1 sb))) - 1"
    using new_block_lowest_free[OF t] by auto
  moreover from this have "unat (s_firstdatazone (super_block s1 sb)) \<le> 22" by linarith
  ultimately show ?thesis using t by blast
qed

end
