(* ===== verification/Bounded_Queue.thy ===== *)
theory Bounded_Queue
  imports Kernel_Prelude
begin

section \<open>The contract of a bounded queue\<close>

text \<open>
  A pipe and the buffers of a terminal are queues of bytes in a ring of fixed size. A \<open>put\<close> appends what it is
  given, a \<open>get\<close> takes from the front; what each operation carries is \<open>payload\<close>, how much it takes is \<open>amount\<close>, and
  \<open>may_put\<close>, \<open>may_get\<close> say when the code calls it. What readers and writers may conclude from the contract, in
  whatever order they come, is proved here once.
\<close>

datatype ('p, 'g) queue_op = Put 'p | Get 'g

text \<open>A run of operations: what went in, what came out, and the last state; \<open>None\<close> if an operation was not allowed.\<close>

fun queue_run ::
  "('p \<Rightarrow> 's \<Rightarrow> 's) \<Rightarrow> ('p \<Rightarrow> 's \<Rightarrow> 'a list) \<Rightarrow> ('p \<Rightarrow> 's \<Rightarrow> bool) \<Rightarrow> ('g \<Rightarrow> 's \<Rightarrow> 's) \<Rightarrow> ('g \<Rightarrow> nat) \<Rightarrow>
   ('g \<Rightarrow> 's \<Rightarrow> bool) \<Rightarrow> ('s \<Rightarrow> 'a list) \<Rightarrow> ('p, 'g) queue_op list \<Rightarrow> 's \<Rightarrow> ('a list \<times> 'a list \<times> 's) option" where
  "queue_run put payload may_put get amount may_get contents [] s = Some ([], [], s)"
| "queue_run put payload may_put get amount may_get contents (Put p # ops) s =
    (if may_put p s
     then map_option (\<lambda>(i, out, t). (payload p s @ i, out, t))
            (queue_run put payload may_put get amount may_get contents ops (put p s))
     else None)"
| "queue_run put payload may_put get amount may_get contents (Get g # ops) s =
    (if may_get g s
     then map_option (\<lambda>(i, out, t). (i, take (amount g) (contents s) @ out, t))
            (queue_run put payload may_put get amount may_get contents ops (get g s))
     else None)"

locale bounded_queue =
  fixes put :: "'p \<Rightarrow> 's \<Rightarrow> 's" and payload :: "'p \<Rightarrow> 's \<Rightarrow> 'a list" and may_put :: "'p \<Rightarrow> 's \<Rightarrow> bool"
    and get :: "'g \<Rightarrow> 's \<Rightarrow> 's" and amount :: "'g \<Rightarrow> nat" and may_get :: "'g \<Rightarrow> 's \<Rightarrow> bool"
    and contents :: "'s \<Rightarrow> 'a list" and ok :: "'s \<Rightarrow> bool" and capacity :: nat
  assumes put_contents: "ok s \<Longrightarrow> may_put p s \<Longrightarrow> contents (put p s) = contents s @ payload p s \<and> ok (put p s)"
    and get_contents: "ok s \<Longrightarrow> may_get g s \<Longrightarrow> contents (get g s) = drop (amount g) (contents s) \<and> ok (get g s)"
    and bounded: "ok s \<Longrightarrow> length (contents s) \<le> capacity"
begin

text \<open>First in, first out, for every interleaving; and the queue never holds more than it can.\<close>

lemma fifo:
  assumes "ok s" "queue_run put payload may_put get amount may_get contents ops s = Some (i, out, t)"
  shows "out @ contents t = contents s @ i \<and> ok t \<and> length (contents t) \<le> capacity"
  using assms
proof (induction ops arbitrary: s i out)
  case Nil
  then show ?case using bounded by auto
next
  case (Cons x ops)
  show ?case
  proof (cases x)
    case (Put p)
    then obtain i' where "may_put p s" "i = payload p s @ i'"
        "queue_run put payload may_put get amount may_get contents ops (put p s) = Some (i', out, t)"
      using Cons.prems(2) by (auto split: if_splits)
    then show ?thesis using Cons.IH[of "put p s" i' out] put_contents[OF Cons.prems(1)] by simp
  next
    case (Get g)
    then obtain out' where "may_get g s" "out = take (amount g) (contents s) @ out'"
        "queue_run put payload may_put get amount may_get contents ops (get g s) = Some (i, out', t)"
      using Cons.prems(2) by (auto split: if_splits)
    then show ?thesis
      using Cons.IH[of "get g s" i out'] get_contents[OF Cons.prems(1)]
      by simp
  qed
qed

end

end
