(* ===== verification/Files.thy ===== *)
theory Files
  imports Inodes Bounded_Queue
begin

section \<open>Reading and writing\<close>

text \<open>
  \<^verbatim>\<open>fs/read_write.c\<close> and what it calls: regular files (\<^verbatim>\<open>fs/file_dev.c\<close>), block devices (\<^verbatim>\<open>fs/block_dev.c\<close>),
  pipes (\<^verbatim>\<open>fs/pipe.c\<close>) and character devices (\<^verbatim>\<open>fs/char_dev.c\<close>); then \<^verbatim>\<open>fs/fcntl.c\<close> without \<open>sys_dup2\<close>, and
  \<^verbatim>\<open>fs/ioctl.c\<close>. A file position is a signed \<open>long\<close>: it is a word, read with \<open>sint\<close>.
\<close>

unbundle bit_operations_syntax

abbreviation (input) O_NONBLOCK :: u16 where "O_NONBLOCK \<equiv> 0x800"
abbreviation (input) O_APPEND :: u16 where "O_APPEND \<equiv> 0x400"
abbreviation (input) O_TRUNC :: u16 where "O_TRUNC \<equiv> 0x200"
abbreviation (input) O_EXCL :: u16 where "O_EXCL \<equiv> 0x80"
abbreviation (input) O_CREAT :: u16 where "O_CREAT \<equiv> 0x40"
abbreviation (input) O_ACCMODE :: u16 where "O_ACCMODE \<equiv> 3"

text \<open>\<open>n\<close> bytes to and from the user's memory, one after the other.\<close>

definition put_fs_bytes :: "(nat \<Rightarrow> u8) \<Rightarrow> nat \<Rightarrow> u32 \<Rightarrow> fs_state \<Rightarrow> fs_state" where
  "put_fs_bytes f n buf s = fold (\<lambda>i. put_fs_byte (f i) (buf + of_nat i)) [0..<n] s"

definition bytes_from_user :: "nat \<Rightarrow> nat \<Rightarrow> nat \<Rightarrow> u32 \<Rightarrow> fs_state \<Rightarrow> fs_state" where
  "bytes_from_user bh off n buf s =
    fold (\<lambda>i s. upd_buf bh (\<lambda>h. h\<lparr>b_data := (b_data h)(off + i := get_fs_byte (buf + of_nat i) s)\<rparr>) s) [0..<n] s"

subsection \<open>Regular files\<close>

text \<open>The local variable of the loop is \<open>left\<close>; \<open>buf\<close> has advanced by \<open>count - left\<close>.\<close>

definition file_read :: "fs_env \<Rightarrow> u32 \<Rightarrow> u32 \<Rightarrow> u32 \<Rightarrow> int \<Rightarrow> fs_state \<Rightarrow> int fs_out" where
  "file_read e p fl buf count s =
    (if count \<le> 0 then Done 0 s
     else
       and_then (loop (\<lambda>left s.
         if left = 0 then Done (Leave left) s
         else
           let pos = sint (f_pos (file_table s fl)) in
           and_then (bmap e p (word_of_int (pos sdiv 1024)) s) (\<lambda>nr s.
           and_then (if nr \<noteq> 0 then bread e (ucast (i_dev (inode_table s p))) (word_of_int nr) s else Done 0 s)
             (\<lambda>bh s.
             if nr \<noteq> 0 \<and> bh = 0 then Done (Leave left) s
             else
               let pos = sint (f_pos (file_table s fl));
                   nr = pos smod 1024; chars = min (1024 - nr) left;
                   s = upd_file fl (\<lambda>f. f\<lparr>f_pos := f_pos f + word_of_int chars\<rparr>) s;
                   left' = left - chars; at = buf + word_of_int (count - left)
               in if bh \<noteq> 0
                  then if nr < 0 then Undefined ''read before the start of a block''
                    else and_then (brelse e bh
                           (put_fs_bytes (\<lambda>i. b_data (bufs s bh) (nat nr + i)) (nat chars) at s))
                           (\<lambda>_. Done (Again left'))
                  else Done (Again left') (put_fs_bytes (\<lambda>_. 0) (nat chars) at s)))) count s) (\<lambda>left s.
       let s = upd_inode p (\<lambda>i. i\<lparr>i_atime := CURRENT_TIME s\<rparr>) s
       in Done (if count - left \<noteq> 0 then count - left else - ERROR) s))"

definition file_write :: "fs_env \<Rightarrow> u32 \<Rightarrow> u32 \<Rightarrow> u32 \<Rightarrow> int \<Rightarrow> fs_state \<Rightarrow> int fs_out" where
  "file_write e p fl buf count s =
    (let append = (f_flags (file_table s fl) AND O_APPEND \<noteq> 0);
         pos = (if append then i_size (inode_table s p) else f_pos (file_table s fl)) in
     and_then (loop (\<lambda>(pos, i) s.
       if \<not> i < count then Done (Leave (pos, i)) s
       else
         and_then (create_block e p (word_of_int (sint pos sdiv 1024)) s) (\<lambda>block s.
           if block = 0 then Done (Leave (pos, i)) s
           else
             and_then (bread e (ucast (i_dev (inode_table s p))) (word_of_int block) s) (\<lambda>bh s.
               if bh = 0 then Done (Leave (pos, i)) s
               else
                 let off = sint pos smod 1024; c = min (1024 - off) (count - i);
                     s = upd_buf bh (\<lambda>h. h\<lparr>b_dirt := 1\<rparr>) s;
                     pos = pos + word_of_int c;
                     s = (if pos > i_size (inode_table s p)
                          then upd_inode p (\<lambda>x. x\<lparr>i_size := pos, i_dirt := 1\<rparr>) s else s)
                 in if off < 0 then Undefined ''write before the start of a block''
                    else and_then (brelse e bh (bytes_from_user bh (nat off) (nat c) (buf + word_of_int i) s))
                           (\<lambda>_. Done (Again (pos, i + c)))))) (pos, 0) s) (\<lambda>(pos, i) s.
     let s = upd_inode p (\<lambda>x. x\<lparr>i_mtime := CURRENT_TIME s\<rparr>) s;
         s = (if f_flags (file_table s fl) AND O_APPEND = 0
              then upd_inode p (\<lambda>x. x\<lparr>i_ctime := CURRENT_TIME s\<rparr>) (upd_file fl (\<lambda>f. f\<lparr>f_pos := pos\<rparr>) s)
              else s)
     in Done (if i \<noteq> 0 then i else - 1) s))"

subsection \<open>Block devices\<close>

definition dev_size :: "u32 \<Rightarrow> fs_state \<Rightarrow> int" where
  "dev_size dev s =
    (case blk_size s (unat (MAJOR dev)) of
       Some sizes \<Rightarrow> sint (sizes (unat (MINOR dev))) | None \<Rightarrow> 0x7fffffff)"

text \<open>
  The loops have the local variables \<open>block\<close>, \<open>offset\<close>, \<open>count\<close> and the bytes done; the position is that of
  the open file \<open>fl\<close>, to which the callers pass a pointer.
\<close>

definition block_write :: "fs_env \<Rightarrow> u32 \<Rightarrow> u32 \<Rightarrow> u32 \<Rightarrow> int \<Rightarrow> fs_state \<Rightarrow> int fs_out" where
  "block_write e dev fl buf count s =
    (let pos = f_pos (file_table s fl); sz = dev_size dev s in
     loop (\<lambda>(block, offset, count, written) s.
       let quit = (if written \<noteq> 0 then written else - EIO) in
       if \<not> 0 < count then Done (Leave written) s
       else if block \<ge> sz then Done (Leave quit) s
       else
         let chars = min (1024 - offset) count in
         and_then (if chars = 1024 then getblk e dev (word_of_int block) s
                   else breada e dev (word_of_int block) [word_of_int (block + 1), word_of_int (block + 2)] s)
           (\<lambda>bh s.
           if bh = 0 then Done (Leave quit) s
           else
             let s = upd_file fl (\<lambda>f. f\<lparr>f_pos := f_pos f + word_of_int chars\<rparr>) s;
                 s = bytes_from_user bh (nat offset) (nat chars) (buf + word_of_int written) s;
                 s = upd_buf bh (\<lambda>h. h\<lparr>b_dirt := 1\<rparr>) s
             in and_then (brelse e bh s) (\<lambda>_. Done (Again (block + 1, 0, count - chars, written + chars)))))
       (sint pos div 1024, int (unat (pos AND 0x3ff)), count, 0) s)"

definition block_read :: "fs_env \<Rightarrow> u32 \<Rightarrow> u32 \<Rightarrow> u32 \<Rightarrow> int \<Rightarrow> fs_state \<Rightarrow> int fs_out" where
  "block_read e dev fl buf count s =
    (let pos = f_pos (file_table s fl); sz = dev_size dev s in
     loop (\<lambda>(block, offset, count, got) s.
       let quit = (if got \<noteq> 0 then got else - EIO) in
       if \<not> 0 < count then Done (Leave got) s
       else if block \<ge> sz then Done (Leave quit) s
       else
         let chars = min (1024 - offset) count in
         and_then (breada e dev (word_of_int block) [word_of_int (block + 1), word_of_int (block + 2)] s) (\<lambda>bh s.
           if bh = 0 then Done (Leave quit) s
           else
             let s = upd_file fl (\<lambda>f. f\<lparr>f_pos := f_pos f + word_of_int chars\<rparr>) s;
                 s = put_fs_bytes (\<lambda>i. b_data (bufs s bh) (nat offset + i)) (nat chars) (buf + word_of_int got) s
             in and_then (brelse e bh s) (\<lambda>_. Done (Again (block + 1, 0, count - chars, got + chars)))))
       (int (unat (drop_bit 10 pos)), int (unat (pos AND 0x3ff)), count, 0) s)"

subsection \<open>Pipes\<close>

text \<open>A pipe is a page of memory at \<open>i_size\<close> with head and tail in the first two zone numbers.\<close>

definition PIPE_HEAD :: "m_inode \<Rightarrow> u16" where "PIPE_HEAD i = i_zone i 0"
definition PIPE_TAIL :: "m_inode \<Rightarrow> u16" where "PIPE_TAIL i = i_zone i 1"

definition PIPE_SIZE :: "m_inode \<Rightarrow> nat" where
  "PIPE_SIZE i = unat ((PIPE_HEAD i - PIPE_TAIL i) AND 0xfff)"

text \<open>
  The inner loops wait until there is something to read, or room to write; \<open>Inl\<close> is a \<^verbatim>\<open>return\<close>.
\<close>

definition pipe_wait_data :: "fs_env \<Rightarrow> u32 \<Rightarrow> int \<Rightarrow> fs_state \<Rightarrow> (int + nat) fs_out" where
  "pipe_wait_data e p got =
    loop (\<lambda>_ s.
      let sz = PIPE_SIZE (inode_table s p) in
      if sz \<noteq> 0 then Done (Leave (Inr sz)) s
      else
        let s = wake_up (i_wait2 (inode_table s p)) s in
        if i_count s p \<noteq> 2 then Done (Leave (Inl got)) s
        else if signal (cur s) AND NOT (blocked (cur s)) \<noteq> 0
        then Done (Leave (Inl (if got \<noteq> 0 then got else - ERESTARTSYS))) s
        else Done (Again ()) (interruptible_sleep_on e (On_Inode p) s)) ()"

definition pipe_out :: "u32 \<Rightarrow> nat \<Rightarrow> u32 \<Rightarrow> fs_state \<Rightarrow> fs_state" where
  "pipe_out p chars buf s =
    (let tail = unat (PIPE_TAIL (inode_table s p)); page = i_size (inode_table s p);
         s = set_zone p 1 ((PIPE_TAIL (inode_table s p) + of_nat chars) AND 0xfff) s
     in put_fs_bytes (\<lambda>i. load_byte (page + of_nat (tail + i)) s) chars buf s)"

definition read_pipe :: "fs_env \<Rightarrow> u32 \<Rightarrow> u32 \<Rightarrow> int \<Rightarrow> fs_state \<Rightarrow> int fs_out" where
  "read_pipe e p buf count =
    loop (\<lambda>(count, got) s.
      if \<not> 0 < count then Done (Leave got) (wake_up (i_wait2 (inode_table s p)) s)
      else
        and_then (pipe_wait_data e p got s) (\<lambda>r s.
          case r of
            Inl ret \<Rightarrow> Done (Leave ret) s
          | Inr sz \<Rightarrow>
              let chars = min (min (4096 - int (unat (PIPE_TAIL (inode_table s p)))) count) (int sz)
              in Done (Again (count - chars, got + chars)) (pipe_out p (nat chars) (buf + word_of_int got) s)))
      (count, 0)"

definition pipe_wait_room :: "fs_env \<Rightarrow> u32 \<Rightarrow> int \<Rightarrow> fs_state \<Rightarrow> (int + nat) fs_out" where
  "pipe_wait_room e p written =
    loop (\<lambda>_ s.
      let sz = 4095 - PIPE_SIZE (inode_table s p) in
      if sz \<noteq> 0 then Done (Leave (Inr sz)) s
      else
        let s = wake_up (i_wait (inode_table s p)) s in
        if i_count s p \<noteq> 2
        then Done (Leave (Inl (if written \<noteq> 0 then written else - 1)))
               (upd_cur (\<lambda>t. t\<lparr>signal := signal t OR bit1 (SIGPIPE - 1)\<rparr>) s)
        else Done (Again ()) (sleep_on e (On_Inode2 p) s)) ()"

definition pipe_in :: "u32 \<Rightarrow> nat \<Rightarrow> u32 \<Rightarrow> fs_state \<Rightarrow> fs_state" where
  "pipe_in p chars buf s =
    (let head = unat (PIPE_HEAD (inode_table s p)); page = i_size (inode_table s p);
         s = set_zone p 0 ((PIPE_HEAD (inode_table s p) + of_nat chars) AND 0xfff) s
     in fold (\<lambda>i s. store_byte (page + of_nat (head + i)) (get_fs_byte (buf + of_nat i) s) s) [0..<chars] s)"

definition write_pipe :: "fs_env \<Rightarrow> u32 \<Rightarrow> u32 \<Rightarrow> int \<Rightarrow> fs_state \<Rightarrow> int fs_out" where
  "write_pipe e p buf count =
    loop (\<lambda>(count, written) s.
      if \<not> 0 < count then Done (Leave written) (wake_up (i_wait (inode_table s p)) s)
      else
        and_then (pipe_wait_room e p written s) (\<lambda>r s.
          case r of
            Inl ret \<Rightarrow> Done (Leave ret) s
          | Inr sz \<Rightarrow>
              let chars = min (min (4096 - int (unat (PIPE_HEAD (inode_table s p)))) count) (int sz)
              in Done (Again (count - chars, written + chars)) (pipe_in p (nat chars) (buf + word_of_int written) s)))
      (count, 0)"

definition set_filp :: "nat \<Rightarrow> u32 \<Rightarrow> fs_state \<Rightarrow> fs_state" where
  "set_filp fd f = upd_cur (\<lambda>t. t\<lparr>filp := (filp t)(fd := f)\<rparr>)"

text \<open>The first two free entries of the file table, and the first two free descriptors, in order.\<close>

definition free_files :: "fs_state \<Rightarrow> u32 list" where
  "free_files s = filter (\<lambda>f. f_count s f = 0) file_ptrs"

definition free_fds :: "fs_state \<Rightarrow> nat list" where
  "free_fds s = filter (\<lambda>i. filp (cur s) i = 0) [0..<NR_OPEN]"

definition sys_pipe :: "fs_env \<Rightarrow> u32 \<Rightarrow> fs_state \<Rightarrow> int fs_out" where
  "sys_pipe e fildes s =
    (case free_files s of
       f0 # f1 # _ \<Rightarrow>
         let s = set_f_count f1 (f_count s f1 + 1) (set_f_count f0 (f_count s f0 + 1) s) in
         (case free_fds s of
            fd0 # fd1 # _ \<Rightarrow>
              let s = set_filp fd1 f1 (set_filp fd0 f0 s) in
              and_then (get_pipe_inode e s) (\<lambda>p s.
                if p = 0
                then Done (- 1) (set_f_count f0 0 (set_f_count f1 0 (set_filp fd0 0 (set_filp fd1 0 s))))
                else
                  let s = upd_file f0 (\<lambda>f. f\<lparr>f_inode := p, f_pos := 0, f_mode := 1\<rparr>) s;
                      s = upd_file f1 (\<lambda>f. f\<lparr>f_inode := p, f_pos := 0, f_mode := 2\<rparr>) s
                  in Done 0 (put_fs_long (of_nat fd1) (fildes + 4) (put_fs_long (of_nat fd0) fildes s)))
          | [fd0] \<Rightarrow> Done (- 1) (set_f_count f0 0 (set_f_count f1 0 (set_filp fd0 0 (set_filp fd0 f0 s))))
          | [] \<Rightarrow> Done (- 1) (set_f_count f0 0 (set_f_count f1 0 s)))
     | [f0] \<Rightarrow> Done (- 1) (set_f_count f0 0 (set_f_count f0 (f_count s f0 + 1) s))
     | [] \<Rightarrow> Done (- 1) s)"

definition pipe_ioctl :: "u32 \<Rightarrow> u32 \<Rightarrow> u32 \<Rightarrow> fs_state \<Rightarrow> int fs_out" where
  "pipe_ioctl pino cmd arg s =
    (if cmd = 0x541B
     then and_then (verify_area arg 4 s) (\<lambda>_ s.
       Done 0 (put_fs_long (of_nat (PIPE_SIZE (inode_table s pino))) arg s))
     else Done (- EINVAL) s)"

subsection \<open>Character devices\<close>

text \<open>The position is that of the open file \<open>filp\<close>.\<close>

definition rw_ttyx :: "fs_env \<Rightarrow> u32 \<Rightarrow> u32 \<Rightarrow> u32 \<Rightarrow> int \<Rightarrow> u32 \<Rightarrow> fs_state \<Rightarrow> int fs_out" where
  "rw_ttyx e rw minor buf count fl s =
    (if rw = READ then tty_read e minor buf count s else tty_write e minor buf count s)"

definition rw_tty :: "fs_env \<Rightarrow> u32 \<Rightarrow> u32 \<Rightarrow> u32 \<Rightarrow> int \<Rightarrow> u32 \<Rightarrow> fs_state \<Rightarrow> int fs_out" where
  "rw_tty e rw minor buf count fl s =
    (if sint (tty (cur s)) < 0 then Done (- EPERM) s
     else rw_ttyx e rw (tty (cur s)) buf count fl s)"

definition rw_ram :: int where "rw_ram = - EIO"
definition rw_mem :: int where "rw_mem = - EIO"
definition rw_kmem :: int where "rw_kmem = - EIO"

definition rw_port :: "fs_env \<Rightarrow> u32 \<Rightarrow> u32 \<Rightarrow> int \<Rightarrow> u32 \<Rightarrow> fs_state \<Rightarrow> int fs_out" where
  "rw_port e rw buf count fl s =
    (let pos = sint (f_pos (file_table s fl)) in
     loop (\<lambda>(count, i, at) s.
       if 0 < count \<and> i < 65536
       then Done (Again (count - 1, i + 1, at + 1))
              (if rw = READ then put_fs_byte (inb e (word_of_int i) s) at s
               else s\<lparr>io_log := io_log s @ [Outb (get_fs_byte at s) (word_of_int i)]\<rparr>)
       else Done (Leave (i - pos)) (upd_file fl (\<lambda>f. f\<lparr>f_pos := f_pos f + word_of_int (i - pos)\<rparr>) s))
       (count, pos, buf) s)"

definition rw_memory :: "fs_env \<Rightarrow> u32 \<Rightarrow> u32 \<Rightarrow> u32 \<Rightarrow> int \<Rightarrow> u32 \<Rightarrow> fs_state \<Rightarrow> int fs_out" where
  "rw_memory e rw minor buf count fl s =
    (if minor = 0 then Done rw_ram s
     else if minor = 1 then Done rw_mem s
     else if minor = 2 then Done rw_kmem s
     else if minor = 3 then Done (if rw = READ then 0 else count) s
     else if minor = 4 then rw_port e rw buf count fl s
     else Done (- EIO) s)"

definition rw_char :: "fs_env \<Rightarrow> u32 \<Rightarrow> u32 \<Rightarrow> u32 \<Rightarrow> int \<Rightarrow> u32 \<Rightarrow> fs_state \<Rightarrow> int fs_out" where
  "rw_char e rw dev buf count fl s =
    (if MAJOR dev \<ge> 8 then Done (- ENODEV) s
     else if MAJOR dev = 1 then rw_memory e rw (MINOR dev) buf count fl s
     else if MAJOR dev = 4 then rw_ttyx e rw (MINOR dev) buf count fl s
     else if MAJOR dev = 5 then rw_tty e rw (MINOR dev) buf count fl s
     else Done (- ENODEV) s)"

subsection \<open>The system calls\<close>

definition sys_lseek :: "u32 \<Rightarrow> u32 \<Rightarrow> u32 \<Rightarrow> fs_state \<Rightarrow> int \<times> fs_state" where
  "sys_lseek fd offset origin s =
    (if fd \<ge> of_nat NR_OPEN then (- EBADF, s)
     else
       let file = filp (cur s) (unat fd); p = f_inode (file_table s file);
           major = MAJOR (ucast (i_dev (inode_table s p))) in
       if file = 0 \<or> p = 0 \<or> \<not> (1 \<le> major \<and> major \<le> 3) then (- EBADF, s)
       else if i_pipe (inode_table s p) \<noteq> 0 then (- ESPIPE, s)
       else
         let new = (if origin = 0 then Some offset
                    else if origin = 1 then Some (f_pos (file_table s file) + offset)
                    else if origin = 2 then Some (i_size (inode_table s p) + offset) else None)
         in case new of
              None \<Rightarrow> (- EINVAL, s)
            | Some pos \<Rightarrow>
                if sint pos < 0 then (- EINVAL, s)
                else (sint pos, upd_file file (\<lambda>f. f\<lparr>f_pos := pos\<rparr>) s))"

definition sys_read :: "fs_env \<Rightarrow> u32 \<Rightarrow> u32 \<Rightarrow> int \<Rightarrow> fs_state \<Rightarrow> int fs_out" where
  "sys_read e fd buf count s =
    (if fd \<ge> of_nat NR_OPEN \<or> count < 0 \<or> filp (cur s) (unat fd) = 0 then Done (- EINVAL) s
     else if count = 0 then Done 0 s
     else
       let file = filp (cur s) (unat fd) in
       and_then (verify_area buf (word_of_int count) s) (\<lambda>_ s.
         let p = f_inode (file_table s file); i = inode_table s p in
         if i_pipe i \<noteq> 0
         then if bit (f_mode (file_table s file)) 0 then read_pipe e p buf count s else Done (- EIO) s
         else if S_ISCHR (i_mode i) then rw_char e READ (ucast (i_zone i 0)) buf count file s
         else if S_ISBLK (i_mode i) then block_read e (ucast (i_zone i 0)) file buf count s
         else if S_ISDIR (i_mode i) \<or> S_ISREG (i_mode i)
         then
           let pos = f_pos (file_table s file);
               n = (if word_of_int count + pos > i_size i then sint (i_size i - pos) else count)
           in if n \<le> 0 then Done 0 s else file_read e p file buf n s
         else Done (- EINVAL) s))"

definition sys_write :: "fs_env \<Rightarrow> u32 \<Rightarrow> u32 \<Rightarrow> int \<Rightarrow> fs_state \<Rightarrow> int fs_out" where
  "sys_write e fd buf count s =
    (if fd \<ge> of_nat NR_OPEN \<or> count < 0 \<or> filp (cur s) (unat fd) = 0 then Done (- EINVAL) s
     else if count = 0 then Done 0 s
     else
       let file = filp (cur s) (unat fd); p = f_inode (file_table s file); i = inode_table s p in
       if i_pipe i \<noteq> 0
       then if bit (f_mode (file_table s file)) 1 then write_pipe e p buf count s else Done (- EIO) s
       else if S_ISCHR (i_mode i) then rw_char e WRITE (ucast (i_zone i 0)) buf count file s
       else if S_ISBLK (i_mode i) then block_write e (ucast (i_zone i 0)) file buf count s
       else if S_ISREG (i_mode i) then file_write e p file buf count s
       else Done (- EINVAL) s)"

subsection \<open>Descriptors\<close>

definition dupfd :: "u32 \<Rightarrow> u32 \<Rightarrow> fs_state \<Rightarrow> int \<times> fs_state" where
  "dupfd fd arg s =
    (if fd \<ge> of_nat NR_OPEN \<or> filp (cur s) (unat fd) = 0 then (- EBADF, s)
     else if arg \<ge> of_nat NR_OPEN then (- EINVAL, s)
     else
       case find (\<lambda>i. filp (cur s) i = 0) [unat arg..<NR_OPEN] of
         None \<Rightarrow> (- EMFILE, s)
       | Some i \<Rightarrow>
           let s = upd_cur (\<lambda>t. t\<lparr>close_on_exec := close_on_exec t AND NOT (bit1 i)\<rparr>) s;
               f = filp (cur s) (unat fd);
               s = set_filp i f s
           in (int i, set_f_count f (f_count s f + 1) s))"

definition sys_dup :: "u32 \<Rightarrow> fs_state \<Rightarrow> int \<times> fs_state" where
  "sys_dup fildes = dupfd fildes 0"

definition sys_fcntl :: "u32 \<Rightarrow> u32 \<Rightarrow> u32 \<Rightarrow> fs_state \<Rightarrow> int \<times> fs_state" where
  "sys_fcntl fd cmd arg s =
    (if fd \<ge> of_nat NR_OPEN \<or> filp (cur s) (unat fd) = 0 then (- EBADF, s)
     else
       let f = filp (cur s) (unat fd) in
       if cmd = 0 then dupfd fd arg s
       else if cmd = 1 then (if bit (close_on_exec (cur s)) (unat fd) then 1 else 0, s)
       else if cmd = 2
       then (0, upd_cur (\<lambda>t. t\<lparr>close_on_exec :=
              (if bit arg 0 then close_on_exec t OR bit1 (unat fd)
               else close_on_exec t AND NOT (bit1 (unat fd)))\<rparr>) s)
       else if cmd = 3 then (int (unat (f_flags (file_table s f))), s)
       else if cmd = 4
       then (0, upd_file f (\<lambda>x. x\<lparr>f_flags :=
              (f_flags x AND NOT (O_APPEND OR O_NONBLOCK)) OR (ucast arg AND (O_APPEND OR O_NONBLOCK))\<rparr>) s)
       else (- 1, s))"

definition sys_ioctl :: "fs_env \<Rightarrow> u32 \<Rightarrow> u32 \<Rightarrow> u32 \<Rightarrow> fs_state \<Rightarrow> int fs_out" where
  "sys_ioctl e fd cmd arg s =
    (if fd \<ge> of_nat NR_OPEN \<or> filp (cur s) (unat fd) = 0 then Done (- EBADF) s
     else
       let f = file_table s (filp (cur s) (unat fd)); i = inode_table s (f_inode f);
           dev = ucast (i_zone i 0)
       in if i_pipe i \<noteq> 0
          then if bit (f_mode f) 0 then pipe_ioctl (f_inode f) cmd arg s else Done (- EBADF) s
          else if \<not> S_ISCHR (i_mode i) \<and> \<not> S_ISBLK (i_mode i) then Done (- EINVAL) s
          else if MAJOR dev \<ge> 8 then Done (- ENODEV) s
          else if MAJOR dev = 4 \<or> MAJOR dev = 5 then tty_ioctl e dev cmd arg s
          else Done (- ENOTTY) s)"

subsection \<open>Bytes of memory\<close>

lemma byte_of_word:
  fixes x m :: u32 and v :: u8
  assumes "j \<le> 3" "k \<le> 3" and m: "\<And>n. bit m n \<longleftrightarrow> n < 8"
  shows "ucast (drop_bit (8 * j) ((x AND NOT (push_bit (8 * k) m)) OR push_bit (8 * k) (ucast v))) =
    (if j = k then v else ucast (drop_bit (8 * j) x))"
proof (rule bit_word_eqI)
  fix n assume n: "n < LENGTH(8)"
  then have "8 * j + n < 32" using assms by simp
  moreover have "8 * k \<le> 8 * j + n \<and> 8 * j + n - 8 * k < 8 \<longleftrightarrow> j = k"
    using n by (auto simp: less_diff_conv2)
  ultimately show "bit (ucast (drop_bit (8 * j) ((x AND NOT (push_bit (8 * k) m)) OR push_bit (8 * k) (ucast v))) :: u8) n =
      bit (if j = k then v else ucast (drop_bit (8 * j) x)) n"
    using n by (auto simp: bit_ucast_iff bit_drop_bit_eq bit_or_iff bit_and_iff bit_not_iff bit_push_bit_iff m
        dest: bit_imp_le_length)
qed

lemma load_store_byte:
  "load_byte a (store_byte b v s) = (if a = b then v else load_byte a s)"
proof -
  have k: "unat (c AND 3 :: u32) \<le> 3" for c
    using word_and_le1[of c 3] by (simp add: word_le_nat_alt)
  have split: "a = b \<longleftrightarrow> a AND NOT 3 = b AND NOT 3 \<and> unat (a AND 3) = unat (b AND 3)"
  proof
    assume "a AND NOT 3 = b AND NOT 3 \<and> unat (a AND 3) = unat (b AND 3)"
    moreover have "c = (c AND NOT m) OR (c AND m)" for c m :: u32
      by (rule bit_word_eqI) (auto simp: bit_or_iff bit_and_iff bit_not_iff)
    from this[of _ 3] have "c = (c AND NOT 3) OR (c AND 3)" for c :: u32 .
    ultimately show "a = b" by (metis word_unat_eq_iff)
  qed simp
  have ff: "bit (0xff :: u32) n \<longleftrightarrow> n < 8" for n
    using bit_mask_iff[of 8 n, where 'a = u32] by (auto simp: mask_eq_exp_minus_1)
  have p: "pmem (write_long w x s) = (pmem s)(w := x)" for w x by (simp add: write_long_def)
  show ?thesis
  proof (cases "a AND NOT 3 = b AND NOT 3")
    case True
    then show ?thesis
      using byte_of_word[OF k k ff, of a "pmem s (b AND NOT 3)" b v]
      unfolding split load_byte_def store_byte_def Let_def p by (simp only: fun_upd_same simp_thms if_True)
  next
    case False
    then show ?thesis
      unfolding split load_byte_def store_byte_def Let_def p
      by (simp only: fun_upd_other simp_thms if_False not_False_eq_True)
  qed
qed

lemma load_byte_cong: "pmem s = pmem t \<Longrightarrow> load_byte a s = load_byte a t"
  by (simp add: load_byte_def)

lemma store_byte_sel [simp]:
  "inode_table (store_byte b v s) = inode_table s" "fs_mem (store_byte b v s) = fs_mem s"
  "i_count (store_byte b v s) = i_count s"
  by (simp_all add: store_byte_def write_long_def Let_def)

subsection \<open>A pipe is a queue of bytes\<close>

definition pipe_contents :: "u32 \<Rightarrow> fs_state \<Rightarrow> u8 list" where
  "pipe_contents p s =
    (let i = inode_table s p
     in map (\<lambda>k. load_byte (i_size i + of_nat ((unat (PIPE_TAIL i) + k) mod 4096)) s) [0..<PIPE_SIZE i])"

definition pipe_ok :: "u32 \<Rightarrow> fs_state \<Rightarrow> bool" where
  "pipe_ok p s \<longleftrightarrow> unat (PIPE_HEAD (inode_table s p)) < 4096 \<and> unat (PIPE_TAIL (inode_table s p)) < 4096"

lemma unat_and_fff: "unat (w AND 0xfff :: u16) = unat w mod 4096"
proof -
  have "w AND 0xfff = take_bit 12 w" by (simp add: take_bit_eq_mask mask_eq_exp_minus_1)
  then show ?thesis by (simp add: unsigned_take_bit_eq take_bit_eq_mod unat_mod)
qed

lemma PIPE_SIZE_mod: "PIPE_SIZE i = (unat (PIPE_HEAD i) + 65536 - unat (PIPE_TAIL i)) mod 4096"
proof -
  have "unat (h - t) = (unat h + 65536 - unat t) mod 65536" for h t :: u16
    using unsigned_less[of t, where 'a = nat] unsigned_less[of h, where 'a = nat]
    by (auto simp: unat_sub_if_size word_size le_mod_geq)
  then show ?thesis by (simp add: PIPE_SIZE_def unat_and_fff mod_mod_cancel)
qed

lemma length_pipe_contents [simp]: "length (pipe_contents p s) = PIPE_SIZE (inode_table s p)"
  by (simp add: pipe_contents_def Let_def)

lemma PIPE_SIZE_less: "PIPE_SIZE i < 4096"
  by (simp add: PIPE_SIZE_mod)

text \<open>The bytes at \<open>buf\<close> in the memory of the process.\<close>

definition user_bytes :: "u32 \<Rightarrow> nat \<Rightarrow> fs_state \<Rightarrow> u8 list" where
  "user_bytes buf n s = map (\<lambda>k. fs_mem s (buf + of_nat k)) [0..<n]"

lemma set_zone_sel [simp]:
  "inode_table (set_zone p k v s) = (inode_table s)(p := (inode_table s p)\<lparr>i_zone := (i_zone (inode_table s p))(k := v)\<rparr>)"
  "pmem (set_zone p k v s) = pmem s" "fs_mem (set_zone p k v s) = fs_mem s" "i_count (set_zone p k v s) = i_count s"
  by (simp_all add: set_zone_def)

lemma of_nat_u32_eq: "i < 2 ^ 32 \<Longrightarrow> j < 2 ^ 32 \<Longrightarrow> (of_nat i :: u32) = of_nat j \<longleftrightarrow> i = j"
  by (simp add: word_of_nat_eq_iff take_bit_nat_eq_self)

lemma store_bytes:
  "n \<le> 4096 \<Longrightarrow> h + n \<le> 4096 \<Longrightarrow>
   load_byte a (fold (\<lambda>i s. store_byte (page + of_nat (h + i)) (get_fs_byte (buf + of_nat i) s) s) [0..<n] s) =
   (if \<exists>i<n. a = page + of_nat (h + i) then fs_mem s (buf + of_nat (unat (a - page) - h)) else load_byte a s) \<and>
   (\<lambda>t. inode_table t = inode_table s \<and> fs_mem t = fs_mem s \<and> i_count t = i_count s)
     (fold (\<lambda>i s. store_byte (page + of_nat (h + i)) (get_fs_byte (buf + of_nat i) s) s) [0..<n] s)"
proof (induction n)
  case (Suc n)
  have inj: "of_nat n = (of_nat i :: u32) \<Longrightarrow> i < n \<Longrightarrow> False" for i
    using Suc.prems by (subst (asm) of_nat_u32_eq) auto
  have u: "unat (page + of_nat (h + n) - page) = h + n"
    using Suc.prems by (simp add: unsigned_of_nat take_bit_nat_eq_self del: of_nat_add)
  show ?case using Suc u
    by (auto simp: load_store_byte get_fs_byte_def less_Suc_eq dest: inj)
qed simp

lemma mod_add_back:
  assumes "(b :: nat) < 4096"
  shows "(b + (a + 65536 - b) mod 4096) mod 4096 = a mod 4096"
proof -
  have "(b + (a + 65536 - b) mod 4096) mod 4096 = (b + (a + 65536 - b)) mod 4096" by (rule mod_add_right_eq)
  also have "b + (a + 65536 - b) = a + 16 * 4096" using assms by simp
  finally show ?thesis by (simp only: mod_mult_self1)
qed

lemma mod_add_cancel:
  assumes "((t :: nat) + x) mod m = (t + y) mod m" "x < m" "y < m"
  shows "x = y"
  using assms
proof (induction x y rule: linorder_wlog)
  case (le x y)
  then have "m dvd t + y - (t + x)" using mod_eq_dvd_iff_nat[of "t + x" "t + y" m] by simp
  then have "m dvd y - x" by simp
  then show ?case using le by (auto dest: dvd_imp_le)
qed simp

lemma head_is: "pipe_ok p s \<Longrightarrow>
    (unat (PIPE_TAIL (inode_table s p)) + PIPE_SIZE (inode_table s p)) mod 4096 = unat (PIPE_HEAD (inode_table s p))"
  using mod_add_back[of "unat (PIPE_TAIL (inode_table s p))" "unat (PIPE_HEAD (inode_table s p))"]
  by (simp add: pipe_ok_def PIPE_SIZE_mod)

lemma unat_add_fff: "unat h < 4096 \<Longrightarrow> n \<le> 4096 \<Longrightarrow> unat ((h + of_nat n) AND 0xfff :: u16) = (unat h + n) mod 4096"
  by (simp add: unat_and_fff unat_word_ariths unsigned_of_nat take_bit_nat_eq_self mod_mod_cancel)

text \<open>Putting bytes into the ring appends them to the queue.\<close>

lemma pipe_in_contents:
  assumes "pipe_ok p s" "PIPE_SIZE (inode_table s p) + n \<le> 4095" "unat (PIPE_HEAD (inode_table s p)) + n \<le> 4096"
  shows "pipe_contents p (pipe_in p n buf s) = pipe_contents p s @ user_bytes buf n s \<and> pipe_ok p (pipe_in p n buf s)"
    (is "?c \<and> ?o")
proof -
  let ?i = "inode_table s p" and ?t = "pipe_in p n buf s"
  let ?h = "unat (PIPE_HEAD ?i)" and ?tl = "unat (PIPE_TAIL ?i)" and ?sz = "PIPE_SIZE ?i"
  define u where "u = set_zone p 0 ((PIPE_HEAD ?i + of_nat n) AND 0xfff) s"
  have t: "?t = fold (\<lambda>i s. store_byte (i_size ?i + of_nat (?h + i)) (get_fs_byte (buf + of_nat i) s) s) [0..<n] u"
    by (simp add: pipe_in_def Let_def u_def)
  have lt: "?h < 4096" "?tl < 4096" using assms(1) by (simp_all add: pipe_ok_def)
  have u: "inode_table u p = ?i\<lparr>i_zone := (i_zone ?i)(0 := (PIPE_HEAD ?i + of_nat n) AND 0xfff)\<rparr>"
    "fs_mem u = fs_mem s" "pmem u = pmem s"
    by (simp_all add: u_def)
  have st: "load_byte a ?t = (if \<exists>i<n. a = i_size ?i + of_nat (?h + i)
        then fs_mem s (buf + of_nat (unat (a - i_size ?i) - ?h)) else load_byte a s)"
      "inode_table ?t = inode_table u" for a
    using store_bytes[of n ?h a "i_size ?i" buf u] assms(3) load_byte_cong[OF u(3)] unfolding t
    by (auto simp: u(2))
  have hd: "unat (PIPE_HEAD (inode_table ?t p)) = (?h + n) mod 4096" "PIPE_TAIL (inode_table ?t p) = PIPE_TAIL ?i"
    "i_size (inode_table ?t p) = i_size ?i"
    using unat_add_fff[OF lt(1)] assms(3) unfolding st(2) u by (simp_all add: PIPE_HEAD_def PIPE_TAIL_def)
  have "?o" using hd(1,2) lt by (simp add: pipe_ok_def)
  have sz: "PIPE_SIZE (inode_table ?t p) = ?sz + n"
  proof (rule mod_add_cancel[where t = ?tl and m = 4096])
    show "(?tl + PIPE_SIZE (inode_table ?t p)) mod 4096 = (?tl + (?sz + n)) mod 4096"
      using head_is[OF \<open>?o\<close>] head_is[OF assms(1)] unfolding hd(1,2) by (metis mod_add_left_eq add.assoc)
  qed (use assms(2) PIPE_SIZE_less in auto)
  have byte: "load_byte (i_size ?i + of_nat ((?tl + k) mod 4096)) ?t =
      (if k < ?sz then load_byte (i_size ?i + of_nat ((?tl + k) mod 4096)) s else fs_mem s (buf + of_nat (k - ?sz)))"
    if k: "k < ?sz + n" for k
  proof (cases "k < ?sz")
    case True
    have "(?tl + k) mod 4096 \<noteq> ?h + i" if "i < n" for i
    proof
      assume e: "(?tl + k) mod 4096 = ?h + i"
      have "(?tl + (?sz + i)) mod 4096 = (?h + i) mod 4096"
        using head_is[OF assms(1)] by (metis mod_add_left_eq add.assoc)
      then have "(?tl + k) mod 4096 = (?tl + (?sz + i)) mod 4096" using e by (metis mod_mod_trivial)
      then have "k = ?sz + i" by (rule mod_add_cancel) (use True that assms(2) in auto)
      then show False using True by simp
    qed
    then have "\<not> (\<exists>i<n. i_size ?i + of_nat ((?tl + k) mod 4096) = i_size ?i + of_nat (?h + i))"
      using lt assms(3) by (auto simp del: of_nat_add simp: of_nat_u32_eq)
    then show ?thesis using True unfolding st(1) by (simp only: if_False if_True)
  next
    case False
    define i where "i = k - ?sz"
    have i: "k = ?sz + i" "i < n" using False k by (auto simp: i_def)
    have "(?tl + k) mod 4096 = (?h + i) mod 4096"
      using head_is[OF assms(1)] unfolding i(1) by (metis mod_add_left_eq add.assoc)
    then have e: "(?tl + k) mod 4096 = ?h + i" using i assms(3) by simp
    have "unat (i_size ?i + of_nat (?h + i) - i_size ?i) - ?h = i"
      using i assms(3) by (simp add: unsigned_of_nat take_bit_nat_eq_self del: of_nat_add)
    then show ?thesis using False i e unfolding e st(1) by (auto simp del: of_nat_add)
  qed
  have ?c
  proof (rule nth_equalityI)
    show "length (pipe_contents p ?t) = length (pipe_contents p s @ user_bytes buf n s)"
      by (simp add: sz user_bytes_def)
  next
    fix k assume "k < length (pipe_contents p ?t)"
    then have k: "k < ?sz + n" by (simp add: sz)
    then show "pipe_contents p ?t ! k = (pipe_contents p s @ user_bytes buf n s) ! k"
      using byte[OF k] by (auto simp: nth_append pipe_contents_def Let_def sz hd user_bytes_def)
  qed
  then show ?thesis using \<open>?o\<close> by blast
qed


text \<open>Writing to user memory, as a function of the old memory.\<close>

lemma put_fs_bytes_mem:
  "n \<le> 2 ^ 32 \<Longrightarrow> fs_mem (put_fs_bytes f n buf s) a = (if unat (a - buf) < n then f (unat (a - buf)) else fs_mem s a)"
proof (induction n)
  case (Suc n)
  have "a = buf + of_nat n \<longleftrightarrow> a - buf = of_nat n" by (auto simp: algebra_simps)
  also have "\<dots> \<longleftrightarrow> unat (a - buf) = n"
    using Suc.prems by (simp add: word_unat_eq_iff unsigned_of_nat take_bit_nat_eq_self)
  finally have "a = buf + of_nat n \<longleftrightarrow> unat (a - buf) = n" .
  then show ?case using Suc by (auto simp: put_fs_bytes_def put_fs_byte_def less_Suc_eq)
qed (simp add: put_fs_bytes_def)

lemma put_fs_bytes_sel [simp]:
  "inode_table (put_fs_bytes f n buf s) = inode_table s" "pmem (put_fs_bytes f n buf s) = pmem s"
  "i_count (put_fs_bytes f n buf s) = i_count s" "bufs (put_fs_bytes f n buf s) = bufs s"
  unfolding put_fs_bytes_def by (induction n) (simp_all add: put_fs_byte_def)

text \<open>Taking bytes out of the ring takes them off the front of the queue and gives them to the process.\<close>

lemma pipe_out_contents:
  assumes "pipe_ok p s" "n \<le> PIPE_SIZE (inode_table s p)" "unat (PIPE_TAIL (inode_table s p)) + n \<le> 4096"
  shows "pipe_contents p (pipe_out p n buf s) = drop n (pipe_contents p s) \<and> pipe_ok p (pipe_out p n buf s) \<and>
    fs_mem (pipe_out p n buf s) =
      (\<lambda>a. if unat (a - buf) < n then pipe_contents p s ! unat (a - buf) else fs_mem s a)"
proof -
  let ?i = "inode_table s p" and ?t = "pipe_out p n buf s"
  let ?h = "unat (PIPE_HEAD ?i)" and ?tl = "unat (PIPE_TAIL ?i)" and ?sz = "PIPE_SIZE ?i"
  have lt: "?h < 4096" "?tl < 4096" using assms(1) by (simp_all add: pipe_ok_def)
  define u where "u = set_zone p 1 ((PIPE_TAIL ?i + of_nat n) AND 0xfff) s"
  have t: "?t = put_fs_bytes (\<lambda>i. load_byte (i_size ?i + of_nat (?tl + i)) u) n buf u"
    by (simp add: pipe_out_def Let_def u_def)
  have ld: "load_byte a u = load_byte a s" "load_byte a ?t = load_byte a s" for a
    by (rule load_byte_cong, simp add: u_def t)+
  have i: "inode_table ?t p = ?i\<lparr>i_zone := (i_zone ?i)(1 := (PIPE_TAIL ?i + of_nat n) AND 0xfff)\<rparr>"
    by (simp add: t u_def)
  have hd: "unat (PIPE_TAIL (inode_table ?t p)) = (?tl + n) mod 4096" "PIPE_HEAD (inode_table ?t p) = PIPE_HEAD ?i"
    "i_size (inode_table ?t p) = i_size ?i"
    using unat_add_fff[OF lt(2)] assms(3) unfolding i by (simp_all add: PIPE_HEAD_def PIPE_TAIL_def)
  have ok: "pipe_ok p ?t" using hd(1,2) lt by (simp add: pipe_ok_def)
  have sz: "PIPE_SIZE (inode_table ?t p) = ?sz - n"
  proof (rule mod_add_cancel[where t = "?tl + n" and m = 4096])
    show "(?tl + n + PIPE_SIZE (inode_table ?t p)) mod 4096 = (?tl + n + (?sz - n)) mod 4096"
      using head_is[OF ok] head_is[OF assms(1)] assms(2) unfolding hd(1,2) by (simp add: mod_add_left_eq)
  qed (use PIPE_SIZE_less[of ?i] PIPE_SIZE_less[of "inode_table ?t p"] in auto)
  have "pipe_contents p ?t = drop n (pipe_contents p s)"
  proof (rule nth_equalityI)
    fix k assume "k < length (pipe_contents p ?t)"
    then have "n + k < ?sz" "k < ?sz - n" by (simp_all add: sz)
    moreover have "((?tl + n) mod 4096 + k) mod 4096 = (?tl + (n + k)) mod 4096"
      by (simp add: mod_add_left_eq add.assoc)
    ultimately show "pipe_contents p ?t ! k = drop n (pipe_contents p s) ! k"
      by (simp add: pipe_contents_def Let_def sz hd ld)
  qed (simp add: sz)
  moreover have "pipe_contents p s ! k = load_byte (i_size ?i + of_nat (?tl + k)) u" if "k < n" for k
    using that assms(2,3) by (simp add: pipe_contents_def Let_def ld del: of_nat_add)
  then have "fs_mem ?t = (\<lambda>a. if unat (a - buf) < n then pipe_contents p s ! unat (a - buf) else fs_mem s a)"
    unfolding t using assms(3) by (auto simp: put_fs_bytes_mem u_def)
  ultimately show ?thesis using ok by blast
qed

lemma unat_diff_less:
  assumes "g + n \<le> 2 ^ 32"
  shows "unat (w - of_nat g :: u32) < n \<longleftrightarrow> g \<le> unat w \<and> unat w < g + n"
    "g \<le> unat w \<Longrightarrow> unat (w - of_nat g :: u32) = unat w - g"
proof -
  have w: "unat w < 2 ^ 32" using unsigned_less[of w, where 'a = nat] by simp
  show e: "unat (w - of_nat g :: u32) = unat w - g" if "g \<le> unat w"
  proof -
    have "unat (of_nat g :: u32) = g" using that w by (simp add: unsigned_of_nat take_bit_nat_eq_self)
    then show ?thesis using that by (simp add: unat_sub_if_size)
  qed
  show "unat (w - of_nat g :: u32) < n \<longleftrightarrow> g \<le> unat w \<and> unat w < g + n"
  proof (cases "g \<le> unat w")
    case True
    then show ?thesis using e by auto
  next
    case False
    show ?thesis
    proof (cases "g < 2 ^ 32")
      case True
      then have "unat (of_nat g :: u32) = g" by (simp add: unsigned_of_nat take_bit_nat_eq_self)
      then have "unat (w - of_nat g) = unat w + 2 ^ 32 - g" using False by (simp add: unat_sub_if_size word_size)
      then show ?thesis using False assms by simp
    next
      case False
      then have "n = 0" "g = 2 ^ 32" using assms by auto
      then show ?thesis by simp
    qed
  qed
qed

lemma wake_up_fs_sel [simp]:
  "inode_table (wake_up q s) = inode_table s" "fs_mem (wake_up q s) = fs_mem s" "i_count (wake_up q s) = i_count s"
  "pmem (wake_up q s) = pmem s" "bufs (wake_up q s) = bufs s"
  by (simp_all add: wake_up_def upd_task_def)

lemma pipe_wake_up [simp]: "pipe_contents p (wake_up q s) = pipe_contents p s" "pipe_ok p (wake_up q s) = pipe_ok p s"
  by (simp_all add: pipe_contents_def pipe_ok_def Let_def load_byte_def)

lemma pipe_wait_data_now:
  "PIPE_SIZE (inode_table s p) \<noteq> 0 \<Longrightarrow> pipe_wait_data e p got s = Done (Inr (PIPE_SIZE (inode_table s p))) s"
  "PIPE_SIZE (inode_table s p) = 0 \<Longrightarrow> i_count s p \<noteq> 2 \<Longrightarrow>
    pipe_wait_data e p got s = Done (Inl got) (wake_up (i_wait2 (inode_table s p)) s)"
  unfolding pipe_wait_data_def by (subst loop_unfold, simp add: Let_def)+

lemma pipe_wait_room_now:
  "PIPE_SIZE (inode_table s p) \<noteq> 4095 \<Longrightarrow>
    pipe_wait_room e p got s = Done (Inr (4095 - PIPE_SIZE (inode_table s p))) s"
  unfolding pipe_wait_room_def using PIPE_SIZE_less[of "inode_table s p"]
  by (subst loop_unfold) (auto simp: Let_def)

lemma pipe_out_i_count [simp]: "i_count (pipe_out p n buf s) = i_count s"
  by (simp add: pipe_out_def Let_def)

lemma int_min: "k \<le> 4096 \<Longrightarrow> min (min (4096 - int k) (int c)) (int z) = int (min (min (4096 - k) c) z)"
  by linarith

lemma read_pipe_loop:
  assumes "pipe_ok p s" "c + g < 2 ^ 31" "c \<le> length (pipe_contents p s) \<or> i_count s p \<noteq> 2"
  shows "\<exists>t. loop (\<lambda>(count, got) s.
      if \<not> 0 < count then Done (Leave got) (wake_up (i_wait2 (inode_table s p)) s)
      else
        and_then (pipe_wait_data e p got s) (\<lambda>r s.
          case r of
            Inl ret \<Rightarrow> Done (Leave ret) s
          | Inr sz \<Rightarrow>
              let chars = min (min (4096 - int (unat (PIPE_TAIL (inode_table s p)))) count) (int sz)
              in Done (Again (count - chars, got + chars)) (pipe_out p (nat chars) (buf + word_of_int got) s)))
      (int c, int g) s = Done (int (g + min c (length (pipe_contents p s)))) t \<and>
    pipe_contents p t = drop c (pipe_contents p s) \<and> pipe_ok p t \<and>
    fs_mem t = (\<lambda>a. if g \<le> unat (a - buf) \<and> unat (a - buf) < g + min c (length (pipe_contents p s))
      then pipe_contents p s ! (unat (a - buf) - g) else fs_mem s a)"
  using assms
proof (induction c arbitrary: g s rule: less_induct)
  case (less c)
  let ?i = "inode_table s p" and ?q = "pipe_contents p s"
  let ?sz = "PIPE_SIZE ?i" and ?tl = "unat (PIPE_TAIL ?i)"
  consider "c = 0" | "c > 0" "?sz = 0" | "c > 0" "?sz > 0" by auto
  then show ?case
  proof cases
    case 1
    then show ?thesis using less.prems by (subst loop_unfold) (auto simp: fun_eq_iff)
  next
    case 2
    then have "?q = []" by (simp flip: length_0_conv)
    then show ?thesis using 2 less.prems
      by (subst loop_unfold) (auto simp: fun_eq_iff pipe_wait_data_now(2))
  next
    case 3
    define n where "n = min (min (4096 - ?tl) c) ?sz"
    have tl: "?tl < 4096" using less.prems(1) by (simp add: pipe_ok_def)
    have n: "n \<le> c" "n \<le> ?sz" "?tl + n \<le> 4096" "0 < n" using tl 3 by (auto simp: n_def)
    have int_n: "min (min (4096 - int ?tl) (int c)) (int ?sz) = int n" using int_min[OF less_imp_le[OF tl]] unfolding n_def .
    define u where "u = pipe_out p n (buf + of_nat g) s"
    note out = pipe_out_contents[OF less.prems(1) n(2,3), of "buf + of_nat g", folded u_def]
    have sub: "c - n < c" "pipe_ok p u" "c - n + (g + n) < 2 ^ 31"
      "c - n \<le> length (pipe_contents p u) \<or> i_count u p \<noteq> 2"
      using n 3 out less.prems(2,3) by (auto simp: u_def)
    obtain t where t: "loop (\<lambda>(count, got) s.
      if \<not> 0 < count then Done (Leave got) (wake_up (i_wait2 (inode_table s p)) s)
      else
        and_then (pipe_wait_data e p got s) (\<lambda>r s.
          case r of
            Inl ret \<Rightarrow> Done (Leave ret) s
          | Inr sz \<Rightarrow>
              let chars = min (min (4096 - int (unat (PIPE_TAIL (inode_table s p)))) count) (int sz)
              in Done (Again (count - chars, got + chars)) (pipe_out p (nat chars) (buf + word_of_int got) s)))
      (int (c - n), int (g + n)) u = Done (int (g + n + min (c - n) (length (pipe_contents p u)))) t"
      "pipe_contents p t = drop (c - n) (pipe_contents p u)" "pipe_ok p t"
      "fs_mem t = (\<lambda>a. if g + n \<le> unat (a - buf) \<and> unat (a - buf) < g + n + min (c - n) (length (pipe_contents p u))
        then pipe_contents p u ! (unat (a - buf) - (g + n)) else fs_mem u a)"
      using less.IH[OF sub] by blast
    have m: "n + min (c - n) (length (pipe_contents p u)) = min c (length ?q)" using n out by auto
    have "pipe_contents p t = drop c ?q" using t(2) out n by simp
    moreover have "fs_mem t = (\<lambda>a. if g \<le> unat (a - buf) \<and> unat (a - buf) < g + min c (length ?q)
        then ?q ! (unat (a - buf) - g) else fs_mem s a)"
    proof
      fix a
      let ?w = "unat (a - buf)"
      have u: "unat (a - (buf + of_nat g)) < n \<longleftrightarrow> g \<le> ?w \<and> ?w < g + n"
        "g \<le> ?w \<Longrightarrow> unat (a - (buf + of_nat g)) = ?w - g"
        using unat_diff_less[of g n "a - buf"] n less.prems(2) by (simp_all add: algebra_simps)
      show "fs_mem t a = (if g \<le> ?w \<and> ?w < g + min c (length ?q) then ?q ! (?w - g) else fs_mem s a)"
        unfolding t(4) using out n m u by auto
    qed
    moreover have "int (g + n + min (c - n) (length (pipe_contents p u))) = int (g + min c (length ?q))"
      using m by simp
    ultimately show ?thesis
      using t(1,3) 3 int_n n(1)
      by (subst loop_unfold) (simp add: pipe_wait_data_now(1) Let_def flip: u_def)
  qed
qed

lemma store_bytes_sel:
  fixes s :: fs_state
  shows "fs_mem (fold (\<lambda>i s. store_byte (a i) (b i s) s) xs s) = fs_mem s"
  "i_count (fold (\<lambda>i s. store_byte (a i) (b i s) s) xs s) = i_count s"
  by (induction xs arbitrary: s) simp_all

lemma store_bytes_table:
  fixes s :: fs_state
  shows "inode_table (fold (\<lambda>i s. store_byte (a i) (b i s) s) xs s) = inode_table s"
  by (induction xs arbitrary: s) simp_all

lemma pipe_in_sel [simp]: "fs_mem (pipe_in p n buf s) = fs_mem s" "i_count (pipe_in p n buf s) = i_count s"
  unfolding pipe_in_def Let_def store_bytes_sel by simp_all

lemma user_bytes_append: "user_bytes b (n + m) s = user_bytes b n s @ user_bytes (b + of_nat n) m s"
  by (induction m) (simp_all add: user_bytes_def add.assoc)

lemma user_bytes_cong: "fs_mem s = fs_mem t \<Longrightarrow> user_bytes b n s = user_bytes b n t"
  by (simp add: user_bytes_def)

lemma write_pipe_loop:
  assumes "pipe_ok p s" "c + g < 2 ^ 31" "length (pipe_contents p s) + c \<le> 4095"
  shows "\<exists>t. loop (\<lambda>(count, written) s.
      if \<not> 0 < count then Done (Leave written) (wake_up (i_wait (inode_table s p)) s)
      else
        and_then (pipe_wait_room e p written s) (\<lambda>r s.
          case r of
            Inl ret \<Rightarrow> Done (Leave ret) s
          | Inr sz \<Rightarrow>
              let chars = min (min (4096 - int (unat (PIPE_HEAD (inode_table s p)))) count) (int sz)
              in Done (Again (count - chars, written + chars)) (pipe_in p (nat chars) (buf + word_of_int written) s)))
      (int c, int g) s = Done (int (g + c)) t \<and>
    pipe_contents p t = pipe_contents p s @ user_bytes (buf + of_nat g) c s \<and> pipe_ok p t \<and> fs_mem t = fs_mem s \<and>
    i_count t = i_count s"
  using assms
proof (induction c arbitrary: g s rule: less_induct)
  case (less c)
  let ?i = "inode_table s p" and ?q = "pipe_contents p s"
  let ?sz = "PIPE_SIZE ?i" and ?hd = "unat (PIPE_HEAD ?i)"
  show ?case
  proof (cases "c = 0")
    case True
    then show ?thesis using less.prems by (subst loop_unfold) (auto simp: user_bytes_def)
  next
    case False
    define n where "n = min (min (4096 - ?hd) c) (4095 - ?sz)"
    have hd: "?hd < 4096" using less.prems(1) by (simp add: pipe_ok_def)
    have n: "n \<le> c" "?sz + n \<le> 4095" "?hd + n \<le> 4096" "0 < n" using hd False less.prems(3) by (auto simp: n_def)
    have int_n: "min (min (4096 - int ?hd) (int c)) (int (4095 - ?sz)) = int n"
      using int_min[OF less_imp_le[OF hd]] unfolding n_def .
    define u where "u = pipe_in p n (buf + of_nat g) s"
    note ins = pipe_in_contents[OF less.prems(1) n(2,3), of "buf + of_nat g", folded u_def]
    have fu: "fs_mem u = fs_mem s" "i_count u = i_count s" by (simp_all add: u_def)
    have sub: "c - n < c" "pipe_ok p u" "c - n + (g + n) < 2 ^ 31" "length (pipe_contents p u) + (c - n) \<le> 4095"
      using n False ins less.prems(2,3) by (auto simp: user_bytes_def)
    obtain t where t: "loop (\<lambda>(count, written) s.
      if \<not> 0 < count then Done (Leave written) (wake_up (i_wait (inode_table s p)) s)
      else
        and_then (pipe_wait_room e p written s) (\<lambda>r s.
          case r of
            Inl ret \<Rightarrow> Done (Leave ret) s
          | Inr sz \<Rightarrow>
              let chars = min (min (4096 - int (unat (PIPE_HEAD (inode_table s p)))) count) (int sz)
              in Done (Again (count - chars, written + chars)) (pipe_in p (nat chars) (buf + word_of_int written) s)))
      (int (c - n), int (g + n)) u = Done (int (g + n + (c - n))) t"
      "pipe_contents p t = pipe_contents p u @ user_bytes (buf + of_nat (g + n)) (c - n) u" "pipe_ok p t"
      "fs_mem t = fs_mem u" "i_count t = i_count u"
      using less.IH[OF sub] by blast
    have "pipe_contents p t = ?q @ user_bytes (buf + of_nat g) c s"
      using t(2) ins user_bytes_append[of "buf + of_nat g" n "c - n" s] n(1) user_bytes_cong[OF fu(1)]
      by (simp add: add.assoc)
    then show ?thesis
      using t(1,3,4,5) fu False int_n n(1,2,4)
      by (subst loop_unfold) (simp add: pipe_wait_room_now Let_def flip: u_def)
  qed
qed

text \<open>
  C21. \<open>write_pipe\<close> appends: with room for all of its \<open>c\<close> bytes it returns at once with \<open>c\<close>, and the queue of the
  pipe has the bytes at \<open>buf\<close> behind what it held, wherever the ring wraps around. This is so even
  if nobody has the pipe open for reading.
\<close>

theorem write_pipe_appends:
  assumes "pipe_ok p s" "length (pipe_contents p s) + c \<le> 4095"
  shows "\<exists>t. write_pipe e p buf (int c) s = Done (int c) t \<and>
    pipe_contents p t = pipe_contents p s @ user_bytes buf c s \<and> pipe_ok p t \<and> fs_mem t = fs_mem s"
  using write_pipe_loop[of p s c 0 e buf] assms unfolding write_pipe_def by auto

text \<open>
  C22. \<open>read_pipe\<close> takes from the front: if the pipe holds the \<open>c\<close> bytes asked for, or if the other end is closed
  (the inode's count is not 2), it returns without sleeping with as many bytes as there are, up to \<open>c\<close>; they
  are the first bytes of the queue, they are at \<open>buf\<close> afterwards, the rest of the process's memory is
  unchanged. In particular an empty pipe without a writer gives 0, the end of the file.
\<close>

theorem read_pipe_takes_front:
  assumes "pipe_ok p s" "c < 2 ^ 31" "c \<le> length (pipe_contents p s) \<or> i_count s p \<noteq> 2"
  shows "\<exists>t. read_pipe e p buf (int c) s = Done (int (min c (length (pipe_contents p s)))) t \<and>
    pipe_contents p t = drop c (pipe_contents p s) \<and> pipe_ok p t \<and>
    user_bytes buf (min c (length (pipe_contents p s))) t = take c (pipe_contents p s) \<and>
    (\<forall>a. min c (length (pipe_contents p s)) \<le> unat (a - buf) \<longrightarrow> fs_mem t a = fs_mem s a)"
proof -
  let ?q = "pipe_contents p s"
  obtain t where t: "read_pipe e p buf (int c) s = Done (int (min c (length ?q))) t"
    "pipe_contents p t = drop c ?q" "pipe_ok p t"
    "fs_mem t = (\<lambda>a. if unat (a - buf) < min c (length ?q) then ?q ! unat (a - buf) else fs_mem s a)"
    using read_pipe_loop[of p s c 0 e buf] assms unfolding read_pipe_def diff_zero by auto
  have "fs_mem t (buf + of_nat k) = ?q ! k" if "k < min c (length ?q)" for k
    using that assms(2) unfolding t(4) by (simp add: unsigned_of_nat take_bit_nat_eq_self)
  then have "user_bytes buf (min c (length ?q)) t = take c ?q"
    by (intro nth_equalityI) (simp_all add: user_bytes_def)
  then show ?thesis using t by auto
qed

text \<open>The pipe provides the contract of a bounded queue.\<close>

interpretation pq: bounded_queue
    "\<lambda>(n, buf) s. pipe_in p n buf s" "\<lambda>(n, buf) s. user_bytes buf n s"
    "\<lambda>(n, buf) s. PIPE_SIZE (inode_table s p) + n \<le> 4095 \<and> unat (PIPE_HEAD (inode_table s p)) + n \<le> 4096"
    "\<lambda>(n, buf) s. pipe_out p n buf s" "fst"
    "\<lambda>(n, buf) s. n \<le> PIPE_SIZE (inode_table s p) \<and> unat (PIPE_TAIL (inode_table s p)) + n \<le> 4096"
    "pipe_contents p" "pipe_ok p" 4095
  by unfold_locales (use pipe_in_contents pipe_out_contents PIPE_SIZE_less in \<open>fastforce simp: less_eq_Suc_le\<close>)+


text \<open>
  C23. A pipe is a first-in first-out queue under every interleaving of its readers' and writers' copying steps: what
  has come out, followed by what is still in it, is what was in it at first, followed by what has gone in; and it
  never holds more than 4095 bytes.
\<close>

theorem pipe_is_fifo:
  assumes "pipe_ok p s"
    and "queue_run (\<lambda>(n, buf). pipe_in p n buf) (\<lambda>(n, buf). user_bytes buf n)
      (\<lambda>(n, buf) s. PIPE_SIZE (inode_table s p) + n \<le> 4095 \<and> unat (PIPE_HEAD (inode_table s p)) + n \<le> 4096)
      (\<lambda>(n, buf). pipe_out p n buf) fst
      (\<lambda>(n, buf) s. n \<le> PIPE_SIZE (inode_table s p) \<and> unat (PIPE_TAIL (inode_table s p)) + n \<le> 4096)
      (pipe_contents p) ops s = Some (i, out, t)"
  shows "out @ pipe_contents p t = pipe_contents p s @ i \<and> length (pipe_contents p t) \<le> 4095"
  using pq.fifo[OF assms(1), of ops i out t] assms(2) by (simp add: case_prod_unfold)

text \<open>A pipe whose four bytes lie across the end of its page.\<close>

definition demo_pipe :: fs_state where
  "demo_pipe = demo_fs\<lparr>inode_table := (\<lambda>_. demo_inode\<lparr>i_size := 0x400000, i_pipe := 1,
     i_zone := (\<lambda>k. if k = 0 then 2 else 4094)\<rparr>)\<rparr>"

lemma demo_pipe_ok: "pipe_ok 5 demo_pipe" "length (pipe_contents 5 demo_pipe) = 4"
  by (simp_all add: demo_pipe_def pipe_ok_def PIPE_HEAD_def PIPE_TAIL_def PIPE_SIZE_mod)

theorem write_pipe_appends_witness:
  "\<exists>t. write_pipe demo_env 5 0x100 3 demo_pipe = Done 3 t \<and>
    pipe_contents 5 t = pipe_contents 5 demo_pipe @ user_bytes 0x100 3 demo_pipe"
  using write_pipe_appends[OF demo_pipe_ok(1), of 3 demo_env "0x100"] demo_pipe_ok(2) by auto

theorem read_pipe_takes_front_witness:
  "\<exists>t. read_pipe demo_env 5 0x100 9 demo_pipe = Done 4 t \<and> pipe_contents 5 t = [] \<and>
    user_bytes 0x100 4 t = pipe_contents 5 demo_pipe"
proof -
  have "i_count demo_pipe 5 \<noteq> 2" by (simp add: demo_pipe_def)
  then show ?thesis
    using read_pipe_takes_front[OF demo_pipe_ok(1), of 9 demo_env "0x100"] demo_pipe_ok(2) by auto
qed

theorem pipe_is_fifo_witness:
  "\<exists>i out t. length i = 2 \<and> length out = 1 \<and> out @ pipe_contents 5 t = pipe_contents 5 demo_pipe @ i"
proof -
  let ?t = "pipe_out 5 1 0x200 (pipe_in 5 2 0x100 demo_pipe)"
  let ?c = "take 1 (pipe_contents 5 (pipe_in 5 2 0x100 demo_pipe))"
  have ok: "PIPE_SIZE (inode_table demo_pipe 5) = 4" "unat (PIPE_HEAD (inode_table demo_pipe 5)) = 2"
    by (simp_all add: demo_pipe_def PIPE_HEAD_def PIPE_TAIL_def PIPE_SIZE_mod)
  have in_ok: "pipe_contents 5 (pipe_in 5 2 0x100 demo_pipe) = pipe_contents 5 demo_pipe @ user_bytes 0x100 2 demo_pipe"
    using pipe_in_contents[OF demo_pipe_ok(1), of 2 "0x100"] ok by simp
  have "PIPE_SIZE (inode_table (pipe_in 5 2 0x100 demo_pipe) 5) = 6"
    using arg_cong[OF in_ok, of length] ok(1) by (simp add: user_bytes_def)
  moreover have "unat (PIPE_TAIL (inode_table (pipe_in 5 2 0x100 demo_pipe) 5)) = 4094"
    by (simp add: pipe_in_def Let_def store_bytes_table demo_pipe_def PIPE_TAIL_def)
  ultimately have "queue_run (\<lambda>(n, buf). pipe_in 5 n buf) (\<lambda>(n, buf). user_bytes buf n)
      (\<lambda>(n, buf) s. PIPE_SIZE (inode_table s 5) + n \<le> 4095 \<and> unat (PIPE_HEAD (inode_table s 5)) + n \<le> 4096)
      (\<lambda>(n, buf). pipe_out 5 n buf) fst
      (\<lambda>(n, buf) s. n \<le> PIPE_SIZE (inode_table s 5) \<and> unat (PIPE_TAIL (inode_table s 5)) + n \<le> 4096)
      (pipe_contents 5) [Put (2, 0x100), Get (1, 0x200)] demo_pipe = Some (user_bytes 0x100 2 demo_pipe, ?c, ?t)"
    using ok by simp
  from pipe_is_fifo[OF demo_pipe_ok(1) this] show ?thesis
    using in_ok demo_pipe_ok(2)
    by (intro exI[of _ "user_bytes 0x100 2 demo_pipe"] exI[of _ ?c] exI[of _ ?t]) (simp add: user_bytes_def)
qed

subsection \<open>Descriptors and positions\<close>

lemma set_filp_cur [simp]:
  "cur (set_filp k f s) = (cur s)\<lparr>filp := (filp (cur s))(k := f)\<rparr>" "f_count (set_filp k f s) = f_count s"
  by (simp_all add: set_filp_def upd_cur_def upd_task_def cur_def)

lemma find_upt_iff:
  "find P [a..<b] = (if \<exists>k. a \<le> k \<and> k < b \<and> P k then Some (LEAST k. a \<le> k \<and> P k) else None)"
proof (cases "find P [a..<b]")
  case None
  then show ?thesis by (auto simp: find_None_iff)
next
  case (Some k)
  then obtain i where i: "i < b - a" "P (a + i)" "k = a + i" "\<forall>j < i. \<not> P (a + j)"
    by (auto simp: find_Some_iff)
  have "(LEAST k. a \<le> k \<and> P k) = a + i"
  proof (rule Least_equality)
    fix y assume "a \<le> y \<and> P y"
    then show "a + i \<le> y" using i(4)[rule_format, of "y - a"] by (cases "y - a < i") auto
  qed (use i in simp)
  moreover have "\<exists>k. a \<le> k \<and> k < b \<and> P k" using i(1,2) by (intro exI[of _ "a + i"]) simp
  ultimately show ?thesis using Some i(3) by simp
qed

text \<open>
  \<open>dup\<close> and \<open>fcntl(F_DUPFD)\<close>: the new descriptor is the lowest free one that is not below \<open>arg\<close>. It shares the
  open file of \<open>fd\<close>, whose count goes up by one, and it is not closed on exec. With a bad descriptor, a bad
  argument or no free descriptor the call fails with its error number and changes nothing.
\<close>

theorem dupfd_lowest:
  assumes "dupfd fd arg s = (r, t)"
  shows "if 20 \<le> fd \<or> filp (cur s) (unat fd) = 0 then r = - EBADF \<and> t = s
    else if 20 \<le> arg then r = - EINVAL \<and> t = s
    else if \<forall>k \<in> {unat arg..<20}. filp (cur s) k \<noteq> 0 then r = - EMFILE \<and> t = s
    else \<exists>k < 20. r = int k \<and> unat arg \<le> k \<and> filp (cur s) k = 0 \<and> (\<forall>j \<in> {unat arg..<k}. filp (cur s) j \<noteq> 0) \<and>
      filp (cur t) = (filp (cur s))(k := filp (cur s) (unat fd)) \<and>
      f_count t = (f_count s)(filp (cur s) (unat fd) := f_count s (filp (cur s) (unat fd)) + 1) \<and>
      \<not> bit (close_on_exec (cur t)) k"
proof (cases "20 \<le> fd \<or> filp (cur s) (unat fd) = 0 \<or> 20 \<le> arg \<or> (\<forall>k \<in> {unat arg..<20}. filp (cur s) k \<noteq> 0)")
  case True
  then show ?thesis using assms by (auto simp: dupfd_def find_upt_iff split: if_splits)
next
  case False
  let ?P = "\<lambda>k. unat arg \<le> k \<and> filp (cur s) k = 0" and ?f = "filp (cur s) (unat fd)"
  define k where "k = (LEAST k. ?P k)"
  from False obtain l where l: "l < 20" "?P l" by auto
  have k: "?P k" "k \<le> l" unfolding k_def using LeastI[of ?P l, OF l(2)] Least_le[of ?P l, OF l(2)] by simp_all
  have below: "\<not> ?P j" if "j < k" for j using that not_less_Least unfolding k_def by blast
  define u where "u = upd_cur (\<lambda>t. t\<lparr>close_on_exec := close_on_exec t AND NOT (bit1 k)\<rparr>) s"
  have u: "filp (cur u) = filp (cur s)" "\<not> bit (close_on_exec (cur u)) k" "f_count u = f_count s"
    using k(2) l(1) by (simp_all add: u_def upd_cur_def upd_task_def cur_def bit_and_iff bit_not_iff)
  have "find (\<lambda>i. filp (cur s) i = 0) [unat arg..<20] = Some k"
    using l by (auto simp: find_upt_iff k_def)
  then have "r = int k" "t = set_f_count ?f (f_count u ?f + 1) (set_filp k ?f u)"
    using assms False by (simp_all add: dupfd_def Let_def u flip: u_def)
  then have "filp (cur t) = (filp (cur s))(k := ?f)" "f_count t = (f_count s)(?f := f_count s ?f + 1)"
    "\<not> bit (close_on_exec (cur t)) k"
    using u by (simp_all add: set_f_count_def cur_def set_filp_def upd_cur_def upd_task_def)
  then show ?thesis using False k l below \<open>r = int k\<close> by auto
qed

theorem dupfd_lowest_witness:
  "\<exists>t. dupfd 3 1 (demo_fs\<lparr>ts := (\<lambda>_. demo_task\<lparr>filp := (\<lambda>k. if k = 2 then 0 else 9)\<rparr>)\<rparr>) = (2, t) \<and> f_count t 9 = 1"
proof -
  let ?s = "demo_fs\<lparr>ts := (\<lambda>_. demo_task\<lparr>filp := (\<lambda>k. if k = 2 then 0 else 9)\<rparr>)\<rparr>"
  obtain r t where d: "dupfd 3 1 ?s = (r, t)" by fastforce
  have f: "filp (cur ?s) = (\<lambda>k. if k = 2 then 0 else 9)" by (simp add: cur_def)
  have n: "\<not> (20 \<le> (3 :: u32) \<or> filp (cur ?s) (unat (3 :: u32)) = 0)" "\<not> (20 :: u32) \<le> 1"
    by (simp_all add: f word_le_nat_alt)
  have n2: "\<not> (\<forall>k \<in> {unat (1 :: u32)..<20}. filp (cur ?s) k \<noteq> 0)"
    by (auto simp: f intro!: bexI[of _ 2])
  have "\<exists>k. r = int k \<and> filp (cur ?s) k = 0 \<and> f_count t 9 = 1"
    using dupfd_lowest[OF d] unfolding if_not_P[OF n(1)] if_not_P[OF n(2)] if_not_P[OF n2] by (auto simp: f split: if_splits)
  then show ?thesis using d by (auto simp: f split: if_splits)
qed

text \<open>
  \<open>lseek\<close> never leaves a negative position behind: on success the result is the new position of the open file,
  counted from the start, the old position or the end of the file as \<open>origin\<close> says, and nothing else has changed;
  on every error the state is as before.
\<close>

theorem lseek_result:
  assumes "sys_lseek fd offset origin s = (r, t)"
  defines "f \<equiv> filp (cur s) (unat fd)"
  shows "(r < 0 \<longrightarrow> t = s \<and> r \<in> {- EBADF, - ESPIPE, - EINVAL}) \<and>
    (0 \<le> r \<longrightarrow> fd < 20 \<and> f \<noteq> 0 \<and> t = upd_file f (\<lambda>x. x\<lparr>f_pos := word_of_int r\<rparr>) s \<and>
       word_of_int r = offset +
         (if origin = 0 then 0 else if origin = 1 then f_pos (file_table s f)
          else i_size (inode_table s (f_inode (file_table s f)))))"
proof -
  have w: "word_of_int (sint w) = w" for w :: u32 by simp
  show ?thesis
    using assms(1) unfolding sys_lseek_def f_def
    by (auto simp: Let_def not_le split: if_splits option.splits)
qed

theorem lseek_result_witness:
  "sys_lseek 3 (- 5) 1 (demo_fs\<lparr>ts := (\<lambda>_. demo_task\<lparr>filp := (\<lambda>_. 9)\<rparr>)\<rparr>) =
     (- EBADF, demo_fs\<lparr>ts := (\<lambda>_. demo_task\<lparr>filp := (\<lambda>_. 9)\<rparr>)\<rparr>)"
proof -
  obtain r t where d: "sys_lseek 3 (- 5) 1 (demo_fs\<lparr>ts := (\<lambda>_. demo_task\<lparr>filp := (\<lambda>_. 9)\<rparr>)\<rparr>) = (r, t)"
    by fastforce
  moreover from this have "r = - EBADF"
    by (auto simp: sys_lseek_def Let_def cur_def MAJOR_def demo_inode_def split: if_splits option.splits)
  ultimately show ?thesis using lseek_result[OF d] by simp
qed

end
