(* ===== verification/Namei.thy ===== *)
theory Namei
  imports Files
begin

section \<open>Names\<close>

text \<open>
  \<^verbatim>\<open>fs/namei.c\<close>: permissions, directory entries, path names and the system calls that work on names. A
  name is read byte by byte through \<open>fs\<close>: it stands in user memory or, while a symbolic link is
  followed, in the buffer of the link (\<open>fs\<close> then addresses kernel memory, and links met on the way are
  not followed), or it is the name of an interpreter in an array of \<open>do_execve\<close>, a list that ends in zeroes. A directory entry is its byte offset in its block: the inode number, then 14 bytes.

  A \<^verbatim>\<open>repe cmpsb\<close> of length 0 leaves the flags alone: \<open>match\<close> is then taken to succeed. Where
  \<open>find_entry\<close> and \<open>add_entry\<close> go on after a missing block they compare with the data pointer read
  through NULL, which lies below every buffer: the comparison holds.
\<close>

unbundle bit_operations_syntax

abbreviation (input) NAME_LEN :: nat where "NAME_LEN \<equiv> 14"
abbreviation (input) DIR_ENTRIES_PER_BLOCK :: nat where "DIR_ENTRIES_PER_BLOCK \<equiv> 64"
abbreviation (input) MAY_EXEC :: u32 where "MAY_EXEC \<equiv> 1"
abbreviation (input) MAY_WRITE :: u32 where "MAY_WRITE \<equiv> 2"
abbreviation (input) I_REGULAR :: u16 where "I_REGULAR \<equiv> 0x8000"
abbreviation (input) I_DIRECTORY :: u16 where "I_DIRECTORY \<equiv> 0x4000"
abbreviation (input) S_IFLNK :: u16 where "S_IFLNK \<equiv> 0xa000"
abbreviation (input) S_ISVTX :: u16 where "S_ISVTX \<equiv> 0x200"
abbreviation (input) SLASH :: u8 where "SLASH \<equiv> 0x2f"
abbreviation (input) DOT :: u8 where "DOT \<equiv> 0x2e"

subsection \<open>Permissions\<close>

definition permission :: "u32 \<Rightarrow> u32 \<Rightarrow> fs_state \<Rightarrow> bool" where
  "permission p perm s =
    (let i = inode_table s p; mode = ucast (i_mode i) :: u32 in
     if i_dev i \<noteq> 0 \<and> i_nlinks i = 0 then False
     else
       let mode = (if euid (cur s) = i_uid i then drop_bit 6 mode
                   else if in_group_p (ucast (i_gid i)) s then drop_bit 3 mode
                   else mode)
       in mode AND perm AND 7 = perm \<or> suser s)"

definition ACC_MODE :: "u16 \<Rightarrow> u32" where
  "ACC_MODE x = (let k = x AND O_ACCMODE in if k = 0 then 4 else if k = 1 then 2 else if k = 2 then 6 else - 1)"

subsection \<open>Path names\<close>

datatype path = User u32 | In_Buffer nat nat | In_Kernel "u8 list"

fun path_byte :: "path \<Rightarrow> nat \<Rightarrow> fs_state \<Rightarrow> u8" where
  "path_byte (User a) i s = get_fs_byte (a + of_nat i) s"
| "path_byte (In_Buffer bh off) i s = b_data (bufs s bh) (off + i)"
| "path_byte (In_Kernel cs) i s = (if i < length cs then cs ! i else 0)"

fun path_from :: "path \<Rightarrow> nat \<Rightarrow> path" where
  "path_from (User a) i = User (a + of_nat i)"
| "path_from (In_Buffer bh off) i = In_Buffer bh (off + i)"
| "path_from (In_Kernel cs) i = In_Kernel (drop i cs)"

text \<open>The length of the component at the start of a path, and the character that ends it.\<close>

definition component :: "path \<Rightarrow> fs_state \<Rightarrow> (nat \<times> u8) fs_out" where
  "component path =
    loop (\<lambda>n s. let c = path_byte path n s in
      if c \<noteq> 0 \<and> c \<noteq> SLASH then Done (Again (n + 1)) s else Done (Leave (n, c)) s) 0"

text \<open>Where the last component starts, and how long it is.\<close>

definition last_component :: "path \<Rightarrow> fs_state \<Rightarrow> (nat \<times> nat) fs_out" where
  "last_component path =
    loop (\<lambda>(n, base) s. let c = path_byte path n s in
      if c = 0 then Done (Leave (base, n - base)) s
      else Done (Again (n + 1, if c = SLASH then n + 1 else base)) s) (0, 0)"

subsection \<open>Directory entries\<close>

definition de_inode :: "nat \<Rightarrow> nat \<Rightarrow> fs_state \<Rightarrow> u16" where
  "de_inode bh de s = get_le16 (b_data (bufs s bh)) de"

definition set_de_inode :: "nat \<Rightarrow> nat \<Rightarrow> u16 \<Rightarrow> fs_state \<Rightarrow> fs_state" where
  "set_de_inode bh de v = upd_buf bh (\<lambda>h. h\<lparr>b_data := put_le16 de v (b_data h)\<rparr>)"

definition de_name :: "nat \<Rightarrow> nat \<Rightarrow> nat \<Rightarrow> fs_state \<Rightarrow> u8" where
  "de_name bh de i s = b_data (bufs s bh) (de + 2 + i)"

definition mark_dirty :: "nat \<Rightarrow> fs_state \<Rightarrow> fs_state" where
  "mark_dirty bh = upd_buf bh (\<lambda>h. h\<lparr>b_dirt := 1\<rparr>)"

definition match :: "nat \<Rightarrow> path \<Rightarrow> nat \<Rightarrow> nat \<Rightarrow> fs_state \<Rightarrow> bool" where
  "match len name bh de s =
    (if de_inode bh de s = 0 \<or> len > NAME_LEN then False
     else if len = 0 \<and> de_name bh de 0 s = DOT \<and> de_name bh de 1 s = 0 then True
     else if len < NAME_LEN \<and> de_name bh de len s \<noteq> 0 then False
     else \<forall>i\<in>set [0..<len]. path_byte name i s = de_name bh de i s)"

text \<open>The next block of a directory when \<open>de\<close> has left the block \<open>bh\<close>; \<open>None\<close> if there is no such block.\<close>

definition next_dir_block ::
  "(u32 \<Rightarrow> fs_state \<Rightarrow> int fs_out) \<Rightarrow> fs_env \<Rightarrow> u32 \<Rightarrow> nat \<Rightarrow> nat \<Rightarrow> nat \<Rightarrow> fs_state \<Rightarrow> (nat \<times> nat) option fs_out" where
  "next_dir_block blk e dir i bh de s =
    (if bh = 0 \<or> de \<ge> 1024
     then
       and_then (brelse e bh s) (\<lambda>_ s.
       and_then (blk (of_nat (i div DIR_ENTRIES_PER_BLOCK)) s) (\<lambda>block s.
         if block = 0 then Done None s
         else and_then (bread e (ucast (i_dev (inode_table s dir))) (word_of_int block) s) (\<lambda>bh.
           Done (if bh = 0 then None else Some (bh, 0)))))
     else Done (Some (bh, de)) s)"

text \<open>
  The first part of \<open>find_entry\<close>: \<^verbatim>\<open>..\<close> in the root of the process, and \<^verbatim>\<open>..\<close> across a mount point, which
  changes the directory.
\<close>

definition cross_mount :: "fs_env \<Rightarrow> u32 \<Rightarrow> path \<Rightarrow> nat \<Rightarrow> fs_state \<Rightarrow> (u32 \<times> nat) fs_out" where
  "cross_mount e dir name namelen s =
    (if namelen = 2 \<and> path_byte name 0 s = DOT \<and> path_byte name 1 s = DOT
     then
       if dir = root (cur s) then Done (dir, 1) s
       else if i_num (inode_table s dir) = ucast ROOT_INO
       then
         and_then (get_super e (ucast (i_dev (inode_table s dir))) s) (\<lambda>sb s.
           case sb of
             None \<Rightarrow> Undefined ''find_entry: no super block''
           | Some i \<Rightarrow>
               if s_imount (super_block s i) \<noteq> 0
               then and_then (iput e dir s) (\<lambda>_ s.
                 let p = s_imount (super_block s i) in Done (p, namelen) (set_i_count p (i_count s p + 1) s))
               else Done (dir, namelen) s)
       else Done (dir, namelen) s
     else Done (dir, namelen) s)"

text \<open>The result: the directory, the buffer of the entry (0 if there is none) and its offset.\<close>

definition find_entry :: "fs_env \<Rightarrow> u32 \<Rightarrow> path \<Rightarrow> nat \<Rightarrow> fs_state \<Rightarrow> (u32 \<times> nat \<times> nat) fs_out" where
  "find_entry e dir name namelen s =
    (let namelen = min namelen NAME_LEN;
         entries = unat (i_size (inode_table s dir) div 16)
     in and_then (cross_mount e dir name namelen s) (\<lambda>(dir, namelen) s.
          if i_zone (inode_table s dir) 0 = 0 then Done (dir, 0, 0) s
          else
            and_then (bread e (ucast (i_dev (inode_table s dir))) (ucast (i_zone (inode_table s dir) 0)) s) (\<lambda>bh s.
              if bh = 0 then Done (dir, 0, 0) s
              else
                loop (\<lambda>(i, bh, de) s.
                  if \<not> i < entries then and_then (brelse e bh s) (\<lambda>_. Done (Leave (dir, 0, 0)))
                  else
                    and_then (next_dir_block (bmap e dir) e dir i bh de s) (\<lambda>r s.
                      case r of
                        None \<Rightarrow> Done (Again (i + DIR_ENTRIES_PER_BLOCK, 0, de)) s
                      | Some (bh, de) \<Rightarrow>
                          if match namelen name bh de s then Done (Leave (dir, bh, de)) s
                          else Done (Again (i + 1, bh, de + 16)) s)) (0, bh, 0) s)))"

definition add_entry :: "fs_env \<Rightarrow> u32 \<Rightarrow> path \<Rightarrow> nat \<Rightarrow> fs_state \<Rightarrow> (nat \<times> nat) fs_out" where
  "add_entry e dir name namelen s =
    (let namelen = min namelen NAME_LEN in
     if namelen = 0 \<or> i_zone (inode_table s dir) 0 = 0 then Done (0, 0) s
     else
       and_then (bread e (ucast (i_dev (inode_table s dir))) (ucast (i_zone (inode_table s dir) 0)) s) (\<lambda>bh s.
         if bh = 0 then Done (0, 0) s
         else
           loop (\<lambda>(i, bh, de) s.
             if bh = 0 \<or> de \<ge> 1024
             then
               and_then (brelse e bh s) (\<lambda>_ s.
               and_then (create_block e dir (of_nat (i div DIR_ENTRIES_PER_BLOCK)) s) (\<lambda>block s.
                 if block = 0 then Done (Leave (0, 0)) s
                 else and_then (bread e (ucast (i_dev (inode_table s dir))) (word_of_int block) s) (\<lambda>bh.
                   Done (if bh = 0 then Again (i + DIR_ENTRIES_PER_BLOCK, 0, de) else Again (i, bh, 0)))))
             else
               let s = (if of_nat i * 16 \<ge> i_size (inode_table s dir)
                        then
                          let s = set_de_inode bh de 0 s; now = CURRENT_TIME s
                          in upd_inode dir (\<lambda>x. x\<lparr>i_size := (of_nat i + 1) * 16, i_dirt := 1, i_ctime := now\<rparr>) s
                        else s)
               in if de_inode bh de s = 0
                  then
                    let now = CURRENT_TIME s;
                        s = upd_inode dir (\<lambda>x. x\<lparr>i_mtime := now\<rparr>) s;
                        s = fold (\<lambda>k s. upd_buf bh (\<lambda>h. h\<lparr>b_data := (b_data h)(de + 2 + k :=
                              (if k < namelen then path_byte name k s else 0))\<rparr>) s) [0..<NAME_LEN] s
                    in Done (Leave (bh, de)) (mark_dirty bh s)
                  else Done (Again (i + 1, bh, de + 16)) s) (0, bh, 0) s))"

subsection \<open>Walking a path\<close>

text \<open>
  \<open>follow_link\<close> is the code with \<open>fs\<close> on user memory, when \<open>walk\<close> is \<open>_namei\<close> on the buffer of the link, or on
  kernel memory, when it is \<open>None\<close>.
\<close>

definition follow_link_with ::
  "(path \<Rightarrow> u32 \<Rightarrow> fs_state \<Rightarrow> u32 fs_out) option \<Rightarrow> fs_env \<Rightarrow> u32 \<Rightarrow> u32 \<Rightarrow> fs_state \<Rightarrow> u32 fs_out" where
  "follow_link_with walk e dir inode s =
    (let (dir, s) = (if dir = 0
           then let r = root (cur s) in (r, set_i_count r (i_count s r + 1) s) else (dir, s))
     in if inode = 0 then and_then (iput e dir s) (\<lambda>_. Done 0)
        else if \<not> S_ISLNK (i_mode (inode_table s inode)) then and_then (iput e dir s) (\<lambda>_. Done inode)
        else
          let fail = (\<lambda>s. and_then (iput e dir s) (\<lambda>_ s. and_then (iput e inode s) (\<lambda>_. Done 0))) in
          case walk of
            None \<Rightarrow> fail s
          | Some nm \<Rightarrow>
              if i_zone (inode_table s inode) 0 = 0 then fail s
              else
                and_then (bread e (ucast (i_dev (inode_table s inode))) (ucast (i_zone (inode_table s inode) 0)) s)
                  (\<lambda>bh s.
                  if bh = 0 then fail s
                  else
                    and_then (iput e inode s) (\<lambda>_ s.
                    and_then (nm (In_Buffer bh 0) dir s) (\<lambda>r s.
                    and_then (brelse e bh s) (\<lambda>_. Done r)))))"

definition get_dir_with ::
  "(u32 \<Rightarrow> u32 \<Rightarrow> fs_state \<Rightarrow> u32 fs_out) \<Rightarrow> fs_env \<Rightarrow> path \<Rightarrow> u32 \<Rightarrow> fs_state \<Rightarrow> u32 fs_out" where
  "get_dir_with follow e path inode s =
    (let (inode, s) = (if inode = 0
           then let p = pwd (cur s) in (p, set_i_count p (i_count s p + 1) s) else (inode, s))
     in and_then
          (if path_byte path 0 s = SLASH
           then and_then (iput e inode s) (\<lambda>_ s.
             let r = root (cur s) in Done (r, path_from path 1) (set_i_count r (i_count s r + 1) s))
           else Done (inode, path) s)
        (\<lambda>(inode, path).
          loop (\<lambda>(inode, path) s.
            if \<not> S_ISDIR (i_mode (inode_table s inode)) \<or> \<not> permission inode MAY_EXEC s
            then and_then (iput e inode s) (\<lambda>_. Done (Leave 0))
            else
              and_then (component path s) (\<lambda>(namelen, c) s.
                if c = 0 then Done (Leave inode) s
                else
                  and_then (find_entry e inode path namelen s) (\<lambda>(inode, bh, de) s.
                    if bh = 0 then and_then (iput e inode s) (\<lambda>_. Done (Leave 0))
                    else
                      let inr = de_inode bh de s in
                      and_then (brelse e bh s) (\<lambda>_ s.
                      and_then (iget e (ucast (i_dev (inode_table s inode))) (ucast inr) s) (\<lambda>p s.
                        if p = 0 then and_then (iput e inode s) (\<lambda>_. Done (Leave 0))
                        else
                          and_then (follow inode p s) (\<lambda>p.
                            Done (if p = 0 then Leave 0 else Again (p, path_from path (namelen + 1)))))))))
          (inode, path)))"

text \<open>The directory (0 if the walk failed), the start of the last component and its length.\<close>

definition dir_namei_with ::
  "(u32 \<Rightarrow> u32 \<Rightarrow> fs_state \<Rightarrow> u32 fs_out) \<Rightarrow> fs_env \<Rightarrow> path \<Rightarrow> u32 \<Rightarrow> fs_state \<Rightarrow> (u32 \<times> path \<times> nat) fs_out" where
  "dir_namei_with follow e path base s =
    and_then (get_dir_with follow e path base s) (\<lambda>dir s.
      if dir = 0 then Done (0, path, 0) s
      else and_then (last_component path s) (\<lambda>(start, n). Done (dir, path_from path start, n)))"

definition namei_with ::
  "(u32 \<Rightarrow> u32 \<Rightarrow> fs_state \<Rightarrow> u32 fs_out) \<Rightarrow> fs_env \<Rightarrow> path \<Rightarrow> u32 \<Rightarrow> bool \<Rightarrow> fs_state \<Rightarrow> u32 fs_out" where
  "namei_with follow e path base follow_links s =
    and_then (dir_namei_with follow e path base s) (\<lambda>(base, name, namelen) s.
      if base = 0 then Done 0 s
      else if namelen = 0 then Done base s
      else
        and_then (find_entry e base name namelen s) (\<lambda>(base, bh, de) s.
          if bh = 0 then and_then (iput e base s) (\<lambda>_. Done 0)
          else
            let inr = de_inode bh de s in
            and_then (brelse e bh s) (\<lambda>_ s.
            and_then (iget e (ucast (i_dev (inode_table s base))) (ucast inr) s) (\<lambda>p s.
              if p = 0 then and_then (iput e base s) (\<lambda>_. Done 0)
              else
                and_then (if follow_links then follow base p s
                          else and_then (iput e base s) (\<lambda>_. Done p)) (\<lambda>p s.
                let now = CURRENT_TIME s
                in Done p (upd_inode p (\<lambda>i. i\<lparr>i_atime := now, i_dirt := 1\<rparr>) s))))))"

definition follow_link :: "fs_env \<Rightarrow> u32 \<Rightarrow> u32 \<Rightarrow> fs_state \<Rightarrow> u32 fs_out" where
  "follow_link e =
    follow_link_with (Some (\<lambda>path base. namei_with (follow_link_with None e) e path base False)) e"

definition get_dir :: "fs_env \<Rightarrow> path \<Rightarrow> u32 \<Rightarrow> fs_state \<Rightarrow> u32 fs_out" where
  "get_dir e = get_dir_with (follow_link e) e"

definition dir_namei :: "fs_env \<Rightarrow> u32 \<Rightarrow> fs_state \<Rightarrow> (u32 \<times> path \<times> nat) fs_out" where
  "dir_namei e pathname = dir_namei_with (follow_link e) e (User pathname) 0"

definition lnamei :: "fs_env \<Rightarrow> u32 \<Rightarrow> fs_state \<Rightarrow> u32 fs_out" where
  "lnamei e pathname = namei_with (follow_link e) e (User pathname) 0 False"

definition namei :: "fs_env \<Rightarrow> u32 \<Rightarrow> fs_state \<Rightarrow> u32 fs_out" where
  "namei e pathname = namei_with (follow_link e) e (User pathname) 0 True"

subsection \<open>Releasing what a call holds\<close>

datatype held = I u32 | B nat

definition release_one :: "fs_env \<Rightarrow> held \<Rightarrow> fs_state \<Rightarrow> unit fs_out" where
  "release_one e h = (case h of I p \<Rightarrow> iput e p | B b \<Rightarrow> brelse e b)"

text \<open>Give back inodes and buffers in the order given, and return.\<close>

definition put_all :: "fs_env \<Rightarrow> held list \<Rightarrow> 'r \<Rightarrow> fs_state \<Rightarrow> 'r fs_out" where
  "put_all e hs r s = and_then (for_each hs (release_one e) s) (\<lambda>_. Done r)"

definition dec_nlinks :: "u32 \<Rightarrow> fs_state \<Rightarrow> fs_state" where
  "dec_nlinks p = upd_inode p (\<lambda>i. i\<lparr>i_nlinks := i_nlinks i - 1\<rparr>)"

subsection \<open>Opening and creating\<close>

definition open_namei :: "fs_env \<Rightarrow> u32 \<Rightarrow> u16 \<Rightarrow> u16 \<Rightarrow> fs_state \<Rightarrow> (int \<times> u32) fs_out" where
  "open_namei e pathname flag mode s =
    (let flag = (if flag AND O_TRUNC \<noteq> 0 \<and> flag AND O_ACCMODE = 0 then flag OR 1 else flag);
         mode = (mode AND (0x1ff AND NOT (umask (cur s)))) OR I_REGULAR
     in and_then (dir_namei e pathname s) (\<lambda>(dir, basename, namelen) s.
          if dir = 0 then Done (- ENOENT, 0) s
          else if namelen = 0
          then if flag AND (O_ACCMODE OR O_CREAT OR O_TRUNC) = 0 then Done (0, dir) s
               else put_all e [I dir] (- EISDIR, 0) s
          else
            and_then (find_entry e dir basename namelen s) (\<lambda>(dir, bh, de) s.
              if bh = 0
              then
                if flag AND O_CREAT = 0 then put_all e [I dir] (- ENOENT, 0) s
                else if \<not> permission dir MAY_WRITE s then put_all e [I dir] (- EACCES, 0) s
                else
                  and_then (new_inode e (ucast (i_dev (inode_table s dir))) s) (\<lambda>p s.
                    if p = 0 then put_all e [I dir] (- ENOSPC, 0) s
                    else
                      let uid = euid (cur s);
                          s = upd_inode p (\<lambda>i. i\<lparr>i_uid := uid, i_mode := mode, i_dirt := 1\<rparr>) s
                      in and_then (add_entry e dir basename namelen s) (\<lambda>(bh, de) s.
                           if bh = 0 then put_all e [I p, I dir] (- ENOSPC, 0) (dec_nlinks p s)
                           else
                             let s = mark_dirty bh (set_de_inode bh de (i_num (inode_table s p)) s)
                             in put_all e [B bh, I dir] (0, p) s))
              else
                let inr = de_inode bh de s; dev = ucast (i_dev (inode_table s dir)) in
                and_then (brelse e bh s) (\<lambda>_ s.
                  if flag AND O_EXCL \<noteq> 0 then put_all e [I dir] (- EEXIST, 0) s
                  else
                    and_then (iget e dev (ucast inr) s) (\<lambda>p s.
                    and_then (follow_link e dir p s) (\<lambda>p s.
                      if p = 0 then Done (- EACCES, 0) s
                      else if S_ISDIR (i_mode (inode_table s p)) \<and> flag AND O_ACCMODE \<noteq> 0 \<or>
                              \<not> permission p (ACC_MODE flag) s
                      then put_all e [I p] (- EPERM, 0) s
                      else
                        let now = CURRENT_TIME s; s = upd_inode p (\<lambda>i. i\<lparr>i_atime := now\<rparr>) s
                        in and_then (if flag AND O_TRUNC \<noteq> 0 then truncate e p s else Done () s)
                             (\<lambda>_. Done (0, p))))))))"

definition sys_mknod :: "fs_env \<Rightarrow> u32 \<Rightarrow> u32 \<Rightarrow> u32 \<Rightarrow> fs_state \<Rightarrow> int fs_out" where
  "sys_mknod e filename mode dev s =
    (if \<not> suser s then Done (- EPERM) s
     else
       and_then (dir_namei e filename s) (\<lambda>(dir, basename, namelen) s.
         if dir = 0 then Done (- ENOENT) s
         else if namelen = 0 then put_all e [I dir] (- ENOENT) s
         else if \<not> permission dir MAY_WRITE s then put_all e [I dir] (- EPERM) s
         else
           and_then (find_entry e dir basename namelen s) (\<lambda>(dir, bh, de) s.
             if bh \<noteq> 0 then put_all e [B bh, I dir] (- EEXIST) s
             else
               and_then (new_inode e (ucast (i_dev (inode_table s dir))) s) (\<lambda>p s.
                 if p = 0 then put_all e [I dir] (- ENOSPC) s
                 else
                   let m = ucast mode; now = CURRENT_TIME s;
                       s = upd_inode p (\<lambda>i. i\<lparr>i_mode := m\<rparr>) s;
                       s = (if S_ISBLK m \<or> S_ISCHR m then set_zone p 0 (ucast dev) s else s);
                       s = upd_inode p (\<lambda>i. i\<lparr>i_mtime := now, i_atime := now, i_dirt := 1\<rparr>) s
                   in and_then (add_entry e dir basename namelen s) (\<lambda>(bh, de) s.
                        if bh = 0
                        then and_then (iput e dir s) (\<lambda>_ s.
                          put_all e [I p] (- ENOSPC) (upd_inode p (\<lambda>i. i\<lparr>i_nlinks := 0\<rparr>) s))
                        else
                          let s = mark_dirty bh (set_de_inode bh de (i_num (inode_table s p)) s)
                          in put_all e [I dir, I p, B bh] 0 s)))))"

text \<open>The two first entries of a new directory.\<close>

definition dot_entries :: "u16 \<Rightarrow> u16 \<Rightarrow> (nat \<Rightarrow> u8) \<Rightarrow> nat \<Rightarrow> u8" where
  "dot_entries self parent d =
    (put_le16 16 parent ((put_le16 0 self d)(2 := DOT, 3 := 0)))(18 := DOT, 19 := DOT, 20 := 0)"

definition sys_mkdir :: "fs_env \<Rightarrow> u32 \<Rightarrow> u32 \<Rightarrow> fs_state \<Rightarrow> int fs_out" where
  "sys_mkdir e pathname mode s =
    and_then (dir_namei e pathname s) (\<lambda>(dir, basename, namelen) s.
      if dir = 0 then Done (- ENOENT) s
      else if namelen = 0 then put_all e [I dir] (- ENOENT) s
      else if \<not> permission dir MAY_WRITE s then put_all e [I dir] (- EPERM) s
      else
        and_then (find_entry e dir basename namelen s) (\<lambda>(dir, bh, de) s.
          if bh \<noteq> 0 then put_all e [B bh, I dir] (- EEXIST) s
          else
            and_then (new_inode e (ucast (i_dev (inode_table s dir))) s) (\<lambda>p s.
              if p = 0 then put_all e [I dir] (- ENOSPC) s
              else
                let now = CURRENT_TIME s;
                    s = upd_inode p (\<lambda>i. i\<lparr>i_size := 32, i_dirt := 1, i_atime := now, i_mtime := now\<rparr>) s
                in and_then (new_block e (ucast (i_dev (inode_table s p))) s) (\<lambda>z s.
                  let s = set_zone p 0 (word_of_int z) s in
                  if i_zone (inode_table s p) 0 = 0
                  then and_then (iput e dir s) (\<lambda>_ s. put_all e [I p] (- ENOSPC) (dec_nlinks p s))
                  else
                    let s = upd_inode p (\<lambda>i. i\<lparr>i_dirt := 1\<rparr>) s in
                    and_then (bread e (ucast (i_dev (inode_table s p))) (ucast (i_zone (inode_table s p) 0)) s)
                      (\<lambda>db s.
                      if db = 0
                      then and_then (iput e dir s) (\<lambda>_ s. put_all e [I p] (- ERROR) (dec_nlinks p s))
                      else
                        let self = i_num (inode_table s p); parent = i_num (inode_table s dir);
                            s = upd_buf db (\<lambda>h. h\<lparr>b_data := dot_entries self parent (b_data h), b_dirt := 1\<rparr>)
                                  (upd_inode p (\<lambda>i. i\<lparr>i_nlinks := 2\<rparr>) s)
                        in and_then (brelse e db s) (\<lambda>_ s.
                          let m = I_DIRECTORY OR (ucast mode AND 0x1ff AND NOT (umask (cur s)));
                              s = upd_inode p (\<lambda>i. i\<lparr>i_mode := m, i_dirt := 1\<rparr>) s
                          in and_then (add_entry e dir basename namelen s) (\<lambda>(bh, de) s.
                            if bh = 0
                            then and_then (iput e dir s) (\<lambda>_ s.
                              put_all e [I p] (- ENOSPC) (upd_inode p (\<lambda>i. i\<lparr>i_nlinks := 0\<rparr>) s))
                            else
                              let s = mark_dirty bh (set_de_inode bh de (i_num (inode_table s p)) s);
                                  s = upd_inode dir (\<lambda>i. i\<lparr>i_nlinks := i_nlinks i + 1, i_dirt := 1\<rparr>) s
                              in put_all e [I dir, I p, B bh] 0 s)))))))"

subsection \<open>Removing\<close>

definition empty_dir :: "fs_env \<Rightarrow> u32 \<Rightarrow> fs_state \<Rightarrow> bool fs_out" where
  "empty_dir e p s =
    (let len = unat (i_size (inode_table s p) div 16) in
     if len < 2 \<or> i_zone (inode_table s p) 0 = 0 then Done False s
     else
       and_then (bread e (ucast (i_dev (inode_table s p))) (ucast (i_zone (inode_table s p) 0)) s) (\<lambda>bh s.
         if bh = 0 then Done False s
         else if de_inode bh 0 s \<noteq> i_num (inode_table s p) \<or> de_inode bh 16 s = 0 \<or>
                 \<not> (de_name bh 0 0 s = DOT \<and> de_name bh 0 1 s = 0) \<or>
                 \<not> (de_name bh 16 0 s = DOT \<and> de_name bh 16 1 s = DOT \<and> de_name bh 16 2 s = 0)
         then Done False s
         else
           loop (\<lambda>(nr, bh, de) s.
             if \<not> nr < len then and_then (brelse e bh s) (\<lambda>_. Done (Leave True))
             else
               let look = (\<lambda>bh de s.
                     if de_inode bh de s \<noteq> 0 then and_then (brelse e bh s) (\<lambda>_. Done (Leave False))
                     else Done (Again (nr + 1, bh, de + 16)) s)
               in if de \<ge> 1024
                  then
                    and_then (brelse e bh s) (\<lambda>_ s.
                    and_then (bmap e p (of_nat (nr div DIR_ENTRIES_PER_BLOCK)) s) (\<lambda>block s.
                      if block = 0 then Done (Again (nr + DIR_ENTRIES_PER_BLOCK, bh, de)) s
                      else
                        and_then (bread e (ucast (i_dev (inode_table s p))) (word_of_int block) s) (\<lambda>bh s.
                          if bh = 0 then Done (Leave False) s else look bh 0 s)))
                  else look bh de s) (2, bh, 32) s))"

definition sys_rmdir :: "fs_env \<Rightarrow> u32 \<Rightarrow> fs_state \<Rightarrow> int fs_out" where
  "sys_rmdir e name s =
    and_then (dir_namei e name s) (\<lambda>(dir, basename, namelen) s.
      if dir = 0 then Done (- ENOENT) s
      else if namelen = 0 then put_all e [I dir] (- ENOENT) s
      else if \<not> permission dir MAY_WRITE s then put_all e [I dir] (- EPERM) s
      else
        and_then (find_entry e dir basename namelen s) (\<lambda>(dir, bh, de) s.
          if bh = 0 then put_all e [I dir] (- ENOENT) s
          else
            and_then (iget e (ucast (i_dev (inode_table s dir))) (ucast (de_inode bh de s)) s) (\<lambda>p s.
              if p = 0 then put_all e [I dir, B bh] (- EPERM) s
              else if i_mode (inode_table s dir) AND S_ISVTX \<noteq> 0 \<and> euid (cur s) \<noteq> 0 \<and>
                      i_uid (inode_table s p) \<noteq> euid (cur s)
              then put_all e [I dir, I p, B bh] (- EPERM) s
              else if i_dev (inode_table s p) \<noteq> i_dev (inode_table s dir) \<or> i_count s p > 1
              then put_all e [I dir, I p, B bh] (- EPERM) s
              else if p = dir then put_all e [I p, I dir, B bh] (- EPERM) s
              else if \<not> S_ISDIR (i_mode (inode_table s p)) then put_all e [I p, I dir, B bh] (- ENOTDIR) s
              else
                and_then (empty_dir e p s) (\<lambda>ok s.
                  if \<not> ok then put_all e [I p, I dir, B bh] (- ENOTEMPTY) s
                  else
                    and_then (brelse e bh (mark_dirty bh (set_de_inode bh de 0 s))) (\<lambda>_ s.
                      let now = CURRENT_TIME s;
                          s = upd_inode p (\<lambda>i. i\<lparr>i_nlinks := 0, i_dirt := 1\<rparr>) s;
                          s = upd_inode dir (\<lambda>i. i\<lparr>i_nlinks := i_nlinks i - 1, i_mtime := now, i_ctime := now,
                                i_dirt := 1\<rparr>) s
                      in put_all e [I dir, I p] 0 s)))))"

definition sys_unlink :: "fs_env \<Rightarrow> u32 \<Rightarrow> fs_state \<Rightarrow> int fs_out" where
  "sys_unlink e name s =
    and_then (dir_namei e name s) (\<lambda>(dir, basename, namelen) s.
      if dir = 0 then Done (- ENOENT) s
      else if namelen = 0 then put_all e [I dir] (- ENOENT) s
      else if \<not> permission dir MAY_WRITE s then put_all e [I dir] (- EPERM) s
      else
        and_then (find_entry e dir basename namelen s) (\<lambda>(dir, bh, de) s.
          if bh = 0 then put_all e [I dir] (- ENOENT) s
          else
            and_then (iget e (ucast (i_dev (inode_table s dir))) (ucast (de_inode bh de s)) s) (\<lambda>p s.
              if p = 0 then put_all e [I dir, B bh] (- ENOENT) s
              else if i_mode (inode_table s dir) AND S_ISVTX \<noteq> 0 \<and> \<not> suser s \<and>
                      euid (cur s) \<noteq> i_uid (inode_table s p) \<and> euid (cur s) \<noteq> i_uid (inode_table s dir)
              then put_all e [I dir, I p, B bh] (- EPERM) s
              else if S_ISDIR (i_mode (inode_table s p)) then put_all e [I p, I dir, B bh] (- EPERM) s
              else
                let s = (if i_nlinks (inode_table s p) = 0 then upd_inode p (\<lambda>i. i\<lparr>i_nlinks := 1\<rparr>) s else s)
                in and_then (brelse e bh (mark_dirty bh (set_de_inode bh de 0 s))) (\<lambda>_ s.
                     let now = CURRENT_TIME s;
                         s = upd_inode p (\<lambda>i. i\<lparr>i_nlinks := i_nlinks i - 1, i_dirt := 1, i_ctime := now\<rparr>) s
                     in put_all e [I p, I dir] 0 s))))"

subsection \<open>Links\<close>

text \<open>The name that a symbolic link holds: at most 1023 bytes, up to the first 0; the result is its length.\<close>

definition copy_link_name :: "nat \<Rightarrow> u32 \<Rightarrow> fs_state \<Rightarrow> nat fs_out" where
  "copy_link_name bh oldname =
    loop (\<lambda>i s.
      let c = get_fs_byte (oldname + of_nat i) s in
      if i < 1023 \<and> c \<noteq> 0
      then Done (Again (i + 1)) (upd_buf bh (\<lambda>h. h\<lparr>b_data := (b_data h)(i := c)\<rparr>) s)
      else Done (Leave i) (upd_buf bh (\<lambda>h. h\<lparr>b_data := (b_data h)(i := 0), b_dirt := 1\<rparr>) s)) 0"

definition sys_symlink :: "fs_env \<Rightarrow> u32 \<Rightarrow> u32 \<Rightarrow> fs_state \<Rightarrow> int fs_out" where
  "sys_symlink e oldname newname s =
    and_then (dir_namei e newname s) (\<lambda>(dir, basename, namelen) s.
      if dir = 0 then Done (- EACCES) s
      else if namelen = 0 then put_all e [I dir] (- EPERM) s
      else if \<not> permission dir MAY_WRITE s then put_all e [I dir] (- EACCES) s
      else
        and_then (new_inode e (ucast (i_dev (inode_table s dir))) s) (\<lambda>p s.
          if p = 0 then put_all e [I dir] (- ENOSPC) s
          else
            let m = S_IFLNK OR (0x1ff AND NOT (umask (cur s)));
                s = upd_inode p (\<lambda>i. i\<lparr>i_mode := m, i_dirt := 1\<rparr>) s
            in and_then (new_block e (ucast (i_dev (inode_table s p))) s) (\<lambda>z s.
              let s = set_zone p 0 (word_of_int z) s in
              if i_zone (inode_table s p) 0 = 0
              then and_then (iput e dir s) (\<lambda>_ s. put_all e [I p] (- ENOSPC) (dec_nlinks p s))
              else
                let s = upd_inode p (\<lambda>i. i\<lparr>i_dirt := 1\<rparr>) s in
                and_then (bread e (ucast (i_dev (inode_table s p))) (ucast (i_zone (inode_table s p) 0)) s)
                  (\<lambda>nb s.
                  if nb = 0
                  then and_then (iput e dir s) (\<lambda>_ s. put_all e [I p] (- ERROR) (dec_nlinks p s))
                  else
                    and_then (copy_link_name nb oldname s) (\<lambda>i s.
                    and_then (brelse e nb s) (\<lambda>_ s.
                    let s = upd_inode p (\<lambda>x. x\<lparr>i_size := of_nat i, i_dirt := 1\<rparr>) s in
                    and_then (find_entry e dir basename namelen s) (\<lambda>(dir, bh, de) s.
                      if bh \<noteq> 0 then put_all e [I p, B bh, I dir] (- EEXIST) (dec_nlinks p s)
                      else
                        and_then (add_entry e dir basename namelen s) (\<lambda>(bh, de) s.
                          if bh = 0 then put_all e [I p, I dir] (- ENOSPC) (dec_nlinks p s)
                          else
                            let s = mark_dirty bh (set_de_inode bh de (i_num (inode_table s p)) s)
                            in put_all e [B bh, I dir, I p] 0 s))))))))"

definition sys_link :: "fs_env \<Rightarrow> u32 \<Rightarrow> u32 \<Rightarrow> fs_state \<Rightarrow> int fs_out" where
  "sys_link e oldname newname s =
    and_then (namei e oldname s) (\<lambda>old s.
      if old = 0 then Done (- ENOENT) s
      else if S_ISDIR (i_mode (inode_table s old)) then put_all e [I old] (- EPERM) s
      else
        and_then (dir_namei e newname s) (\<lambda>(dir, basename, namelen) s.
          if dir = 0 then put_all e [I old] (- EACCES) s
          else if namelen = 0 then put_all e [I old, I dir] (- EPERM) s
          else if i_dev (inode_table s dir) \<noteq> i_dev (inode_table s old) then put_all e [I dir, I old] (- EXDEV) s
          else if \<not> permission dir MAY_WRITE s then put_all e [I dir, I old] (- EACCES) s
          else
            and_then (find_entry e dir basename namelen s) (\<lambda>(dir, bh, de) s.
              if bh \<noteq> 0 then put_all e [B bh, I dir, I old] (- EEXIST) s
              else
                and_then (add_entry e dir basename namelen s) (\<lambda>(bh, de) s.
                  if bh = 0 then put_all e [I dir, I old] (- ENOSPC) s
                  else
                    let s = mark_dirty bh (set_de_inode bh de (i_num (inode_table s old)) s)
                    in and_then (put_all e [B bh, I dir] () s) (\<lambda>_ s.
                      let now = CURRENT_TIME s;
                          s = upd_inode old (\<lambda>i. i\<lparr>i_nlinks := i_nlinks i + 1, i_ctime := now, i_dirt := 1\<rparr>) s
                      in put_all e [I old] 0 s)))))"

subsection \<open>Who may do what\<close>

text \<open>The three bits that count for a process: those of the owner, of the group, or of the others.\<close>

datatype access_class = Owner | Group | Others

definition access_class :: "fs_state \<Rightarrow> m_inode \<Rightarrow> access_class" where
  "access_class s i =
    (if euid (cur s) = i_uid i then Owner else if in_group_p (ucast (i_gid i)) s then Group else Others)"

text \<open>The \<open>k\<close>-th right of a class: 0 is execution (search, for a directory), 1 writing, 2 reading.\<close>

primrec class_may :: "access_class \<Rightarrow> u16 \<Rightarrow> nat \<Rightarrow> bool" where
  "class_may Owner m k = bit m (6 + k)"
| "class_may Group m k = bit m (3 + k)"
| "class_may Others m k = bit m k"

lemma bit_7: "bit (7 :: u32) k \<longleftrightarrow> k < 3"
  using bit_mask_iff[of 3 k, where 'a = u32] by (auto simp: mask_eq_exp_minus_1)

lemma and_7_covers: "(mode :: u32) AND perm AND 7 = perm \<longleftrightarrow> perm \<le> 7 \<and> (\<forall>k \<in> {0, 1, 2}. bit perm k \<longrightarrow> bit mode k)"
proof -
  have le: "perm \<le> 7 \<longleftrightarrow> perm = perm AND 7"
  proof
    assume "perm \<le> 7"
    then have "take_bit 3 perm = perm"
      by (simp add: word_unat_eq_iff unsigned_take_bit_eq take_bit_nat_eq_self word_le_nat_alt)
    then show "perm = perm AND 7" by (simp add: take_bit_eq_mask mask_eq_exp_minus_1)
  next
    assume "perm = perm AND 7"
    then show "perm \<le> 7" using word_and_le1[of perm 7] by simp
  qed
  have ext: "a = b \<longleftrightarrow> (\<forall>k. bit a k \<longleftrightarrow> bit b k)" for a b :: u32 by (auto intro: bit_word_eqI)
  have "mode AND perm AND 7 = perm \<longleftrightarrow> (\<forall>k. bit mode k \<and> bit perm k \<and> k < 3 \<longleftrightarrow> bit perm k)"
    unfolding ext bit_and_iff bit_7 by blast
  also have "\<dots> \<longleftrightarrow> (\<forall>k. bit perm k \<longrightarrow> k < 3) \<and> (\<forall>k \<in> {0, 1, 2}. bit perm k \<longrightarrow> bit mode k)"
  proof -
    have "k < 3 \<longleftrightarrow> k \<in> {0, 1, 2}" for k :: nat by auto
    then show ?thesis by metis
  qed
  also have "(\<forall>k. bit perm k \<longrightarrow> k < 3) \<longleftrightarrow> perm = perm AND 7"
    unfolding ext bit_and_iff bit_7 by blast
  finally show ?thesis using le by blast
qed

text \<open>
  C28. \<open>permission\<close> grants a set of rights exactly when the file has not been removed, and the process is the
  super-user or its class - owner, else group, else others - has every right asked for. An owner is
  judged by the owner's bits even where the others may more. (\<open>perm\<close> is a mask of the three rights.)
\<close>

theorem permission_iff:
  assumes "perm \<le> 7"
  shows "permission p perm s \<longleftrightarrow>
    (i_dev (inode_table s p) = 0 \<or> i_nlinks (inode_table s p) \<noteq> 0) \<and>
    (suser s \<or> (\<forall>k \<in> {0, 1, 2}. bit perm k \<longrightarrow>
       class_may (access_class s (inode_table s p)) (i_mode (inode_table s p)) k))"
proof -
  have b: "bit (drop_bit n (ucast (m :: u16) :: u32)) k \<longleftrightarrow> bit m (n + k)" if "n + k < 16" for n m k
    using that by (simp add: bit_drop_bit_eq bit_ucast_iff)
  let ?i = "inode_table s p"
  define mode where "mode = (if euid (cur s) = i_uid ?i then drop_bit 6 (ucast (i_mode ?i) :: u32)
    else if in_group_p (ucast (i_gid ?i)) s then drop_bit 3 (ucast (i_mode ?i)) else ucast (i_mode ?i))"
  have "bit mode k = class_may (access_class s ?i) (i_mode ?i) k" if "k \<in> {0, 1, 2}" for k
    using that b[of 6 k] b[of 3 k] b[of 0 k] by (auto simp: mode_def access_class_def)
  then have "mode AND perm AND 7 = perm \<longleftrightarrow>
      (\<forall>k \<in> {0, 1, 2}. bit perm k \<longrightarrow> class_may (access_class s ?i) (i_mode ?i) k)"
    using assms by (simp add: and_7_covers)
  then show ?thesis
    unfolding permission_def Let_def mode_def[symmetric] by auto
qed

theorem permission_iff_witness:
  "\<not> permission 1 6 (demo_fs\<lparr>inode_table := (\<lambda>_. demo_inode\<lparr>i_mode := 0x8047, i_uid := 7\<rparr>),
     ts := (\<lambda>_. demo_task\<lparr>euid := 7\<rparr>)\<rparr>)"
  using permission_iff[of 6 1 "demo_fs\<lparr>inode_table := (\<lambda>_. demo_inode\<lparr>i_mode := 0x8047, i_uid := 7\<rparr>),
     ts := (\<lambda>_. demo_task\<lparr>euid := 7\<rparr>)\<rparr>"]
  by (simp add: access_class_def cur_def suser_def)

subsection \<open>Names in a directory\<close>

text \<open>The name of a directory entry: its characters up to the first 0, at most 14.\<close>

definition entry_name :: "nat \<Rightarrow> nat \<Rightarrow> fs_state \<Rightarrow> u8 list" where
  "entry_name bh de s = takeWhile (\<lambda>c. c \<noteq> 0) (map (\<lambda>i. de_name bh de i s) [0..<NAME_LEN])"

lemma takeWhile_eq_iff:
  "\<forall>c \<in> set xs. P c \<Longrightarrow> takeWhile P ys = xs \<longleftrightarrow>
    length xs \<le> length ys \<and> take (length xs) ys = xs \<and> (length xs < length ys \<longrightarrow> \<not> P (ys ! length xs))"
proof (induction xs arbitrary: ys)
  case Nil
  then show ?case by (cases ys) auto
next
  case (Cons x xs)
  then show ?case by (cases ys) auto
qed

text \<open>
  C29. \<open>match\<close> compares names: for a component of \<open>len > 0\<close> characters, none of them 0, it is true exactly if the
  entry is in use and the entry's name is that component - so never for a component longer than 14
  characters, and never for a proper prefix.
\<close>

theorem match_iff_same_name:
  assumes "0 < len" "\<forall>i < len. path_byte name i s \<noteq> 0"
  shows "match len name bh de s \<longleftrightarrow>
    de_inode bh de s \<noteq> 0 \<and> entry_name bh de s = map (\<lambda>i. path_byte name i s) [0..<len]"
proof -
  let ?n = "map (\<lambda>i. path_byte name i s) [0..<len]" and ?e = "map (\<lambda>i. de_name bh de i s) [0..<NAME_LEN]"
  have "entry_name bh de s = ?n \<longleftrightarrow> len \<le> 14 \<and> take len ?e = ?n \<and> (len < 14 \<longrightarrow> de_name bh de len s = 0)"
    unfolding entry_name_def using assms(2) by (subst takeWhile_eq_iff) auto
  moreover have "len \<le> 14 \<and> take len ?e = ?n \<longleftrightarrow> len \<le> 14 \<and> (\<forall>i < len. path_byte name i s = de_name bh de i s)"
    by (auto simp: list_eq_iff_nth_eq)
  ultimately show ?thesis using assms(1) by (auto simp: match_def)
qed

definition demo_dir :: fs_state where
  "demo_dir = demo_fs\<lparr>bufs := (\<lambda>b. (demo_buf 0x301 5 3 2)\<lparr>b_data := (\<lambda>a. [1, 0, 0x61, 0x62, 0] ! min a 4)\<rparr>),
     fs_mem := (\<lambda>a. if a = 0x100 then 0x61 else 0x62)\<rparr>"

theorem match_iff_same_name_witness:
  "match 2 (User 0x100) 1 0 demo_dir"
proof -
  have "entry_name 1 0 demo_dir = [0x61, 0x62]"
  proof -
    have "[0..<14] = [0, 1, 2, 3, 4, 5, 6, 7, 8, 9, 10, 11, 12, 13 :: nat]" by (simp add: upt_conv_Cons)
    then show ?thesis by (simp add: entry_name_def de_name_def demo_dir_def)
  qed
  moreover have "\<forall>i < 2. path_byte (User 0x100) i demo_dir \<noteq> 0"
    by (auto simp: demo_dir_def get_fs_byte_def)
  moreover have "map (\<lambda>i. path_byte (User 0x100) i demo_dir) [0..<2] = [0x61, 0x62]"
    by (simp add: demo_dir_def get_fs_byte_def upt_conv_Cons)
  moreover have "de_inode 1 0 demo_dir \<noteq> 0"
    by (simp add: de_inode_def get_le16_def demo_dir_def)
  ultimately show ?thesis
    using match_iff_same_name[of 2 "User 0x100" demo_dir 1 0] by simp
qed

end
