(* ===== verification/Fs_Calls.thy ===== *)
theory Fs_Calls
  imports Namei
begin

section \<open>Opening, closing, mounting and asking\<close>

text \<open>
  \<^verbatim>\<open>fs/open.c\<close>, \<^verbatim>\<open>fs/stat.c\<close>, the system calls of \<^verbatim>\<open>fs/super.c\<close> and \<open>sys_dup2\<close> of \<^verbatim>\<open>fs/fcntl.c\<close>. The prompt for
  the root floppy (\<open>wait_for_keypress\<close>) and the counts of free blocks and inodes that \<open>mount_root\<close> prints
  are left out; the counting itself changes nothing.
\<close>

unbundle bit_operations_syntax

abbreviation (input) O_NOCTTY :: u16 where "O_NOCTTY \<equiv> 0x100"
abbreviation (input) ICANON :: u32 where "ICANON \<equiv> 2"

subsection \<open>Attributes\<close>

definition sys_ustat :: int where "sys_ustat = - ENOSYS"

definition sys_utime :: "fs_env \<Rightarrow> u32 \<Rightarrow> u32 \<Rightarrow> fs_state \<Rightarrow> int fs_out" where
  "sys_utime e filename tms s =
    and_then (namei e filename s) (\<lambda>p s.
      if p = 0 then Done (- ENOENT) s
      else
        let (actime, modtime) = (if tms \<noteq> 0 then (get_fs_long tms s, get_fs_long (tms + 4) s)
              else (CURRENT_TIME s, CURRENT_TIME s));
            s = upd_inode p (\<lambda>i. i\<lparr>i_atime := actime, i_mtime := modtime, i_dirt := 1\<rparr>) s
        in and_then (iput e p s) (\<lambda>_. Done 0))"

text \<open>\<open>uid\<close> and \<open>gid\<close> of the inode are read after it has been put.\<close>

definition sys_access :: "fs_env \<Rightarrow> u32 \<Rightarrow> u32 \<Rightarrow> fs_state \<Rightarrow> int fs_out" where
  "sys_access e filename mode s =
    (let mode = mode AND 7 in
     and_then (namei e filename s) (\<lambda>p s.
       if p = 0 then Done (- EACCES) s
       else
         let m = ucast (i_mode (inode_table s p)) AND 0x1ff in
         and_then (iput e p s) (\<lambda>_ s.
           let res = (if uid (cur s) = i_uid (inode_table s p) then drop_bit 6 m
                      else if gid (cur s) = ucast (i_gid (inode_table s p)) then drop_bit 6 m
                      else m)
           in if res AND 7 AND mode = mode then Done 0 s
              else if uid (cur s) = 0 \<and> (\<not> bit mode 0 \<or> m AND 0x49 \<noteq> 0) then Done 0 s
              else Done (- EACCES) s)))"

definition sys_chdir :: "fs_env \<Rightarrow> u32 \<Rightarrow> fs_state \<Rightarrow> int fs_out" where
  "sys_chdir e filename s =
    and_then (namei e filename s) (\<lambda>p s.
      if p = 0 then Done (- ENOENT) s
      else if \<not> S_ISDIR (i_mode (inode_table s p)) then put_all e [I p] (- ENOTDIR) s
      else and_then (iput e (pwd (cur s)) s) (\<lambda>_ s. Done 0 (upd_cur (\<lambda>t. t\<lparr>pwd := p\<rparr>) s)))"

definition sys_chroot :: "fs_env \<Rightarrow> u32 \<Rightarrow> fs_state \<Rightarrow> int fs_out" where
  "sys_chroot e filename s =
    and_then (namei e filename s) (\<lambda>p s.
      if p = 0 then Done (- ENOENT) s
      else if \<not> S_ISDIR (i_mode (inode_table s p)) then put_all e [I p] (- ENOTDIR) s
      else and_then (iput e (root (cur s)) s) (\<lambda>_ s. Done 0 (upd_cur (\<lambda>t. t\<lparr>root := p\<rparr>) s)))"

definition sys_chmod :: "fs_env \<Rightarrow> u32 \<Rightarrow> u32 \<Rightarrow> fs_state \<Rightarrow> int fs_out" where
  "sys_chmod e filename mode s =
    and_then (namei e filename s) (\<lambda>p s.
      if p = 0 then Done (- ENOENT) s
      else if euid (cur s) \<noteq> i_uid (inode_table s p) \<and> \<not> suser s then put_all e [I p] (- EACCES) s
      else put_all e [I p] 0
             (upd_inode p (\<lambda>i. i\<lparr>i_mode := (ucast mode AND 0xfff) OR (i_mode i AND NOT 0xfff), i_dirt := 1\<rparr>) s))"

definition sys_chown :: "fs_env \<Rightarrow> u32 \<Rightarrow> u32 \<Rightarrow> u32 \<Rightarrow> fs_state \<Rightarrow> int fs_out" where
  "sys_chown e filename uid0 gid0 s =
    and_then (namei e filename s) (\<lambda>p s.
      if p = 0 then Done (- ENOENT) s
      else if \<not> suser s then put_all e [I p] (- EACCES) s
      else put_all e [I p] 0
             (upd_inode p (\<lambda>i. i\<lparr>i_uid := ucast uid0, i_gid := ucast gid0, i_dirt := 1\<rparr>) s))"

subsection \<open>Opening and closing\<close>

definition upd_termios :: "nat \<Rightarrow> (termios_t \<Rightarrow> termios_t) \<Rightarrow> fs_state \<Rightarrow> fs_state" where
  "upd_termios k f s = s\<lparr>tty_termios := (tty_termios s)(k := f (tty_termios s k))\<rparr>"

text \<open>The result is whether the device may not be opened.\<close>

definition check_char_dev :: "u32 \<Rightarrow> u32 \<Rightarrow> u16 \<Rightarrow> fs_state \<Rightarrow> bool \<times> fs_state" where
  "check_char_dev p dev flag s =
    (if MAJOR dev = 4 \<or> MAJOR dev = 5
     then
       let minor = (if MAJOR dev = 5 then tty (cur s) else MINOR dev) in
       if sint minor < 0 then (True, s)
       else if minor AND 0xc0 = 0x80 \<and> i_count s p > 1 then (True, s)
       else
         let k = TTY_TABLE (unat minor) s;
             s = (if flag AND O_NOCTTY = 0 \<and> leader (cur s) \<noteq> 0 \<and> sint (tty (cur s)) < 0 \<and> tty_session s k = 0
                  then
                    let s = upd_cur (\<lambda>t. t\<lparr>tty := minor\<rparr>) s
                    in s\<lparr>tty_session := (tty_session s)(k := session (cur s)),
                         tty_pgrp := (tty_pgrp s)(k := pgrp (cur s))\<rparr>
                  else s);
             s = (if flag AND O_NONBLOCK \<noteq> 0
                  then upd_termios (TTY_TABLE (unat minor) s)
                         (\<lambda>t. t\<lparr>c_cc := (c_cc t)(6 := 0, 5 := 0), c_lflag := c_lflag t AND NOT ICANON\<rparr>) s
                  else s)
         in (False, s)
     else (False, s))"

definition sys_open :: "fs_env \<Rightarrow> u32 \<Rightarrow> u32 \<Rightarrow> u32 \<Rightarrow> fs_state \<Rightarrow> int fs_out" where
  "sys_open e filename flag mode s =
    (let mode = mode AND (0x1ff AND NOT (ucast (umask (cur s)))) in
     case find (\<lambda>fd. filp (cur s) fd = 0) [0..<NR_OPEN] of
       None \<Rightarrow> Done (- EINVAL) s
     | Some fd \<Rightarrow>
         let s = upd_cur (\<lambda>t. t\<lparr>close_on_exec := close_on_exec t AND NOT (bit1 fd)\<rparr>) s in
         case find (\<lambda>f. f_count s f = 0) file_ptrs of
           None \<Rightarrow> Done (- EINVAL) s
         | Some f \<Rightarrow>
             let s = set_f_count f (f_count s f + 1) (set_filp fd f s) in
             and_then (open_namei e filename (ucast flag) (ucast mode) s) (\<lambda>(i, p) s.
               if i < 0 then Done i (set_f_count f 0 (set_filp fd 0 s))
               else
                 let (bad, s) = (if S_ISCHR (i_mode (inode_table s p))
                       then check_char_dev p (ucast (i_zone (inode_table s p) 0)) (ucast flag) s
                       else (False, s))
                 in if bad
                    then and_then (iput e p s) (\<lambda>_ s. Done (- EAGAIN) (set_f_count f 0 (set_filp fd 0 s)))
                    else
                      and_then (if S_ISBLK (i_mode (inode_table s p))
                                then check_disk_change e (ucast (i_zone (inode_table s p) 0)) s else Done () s)
                        (\<lambda>_ s.
                        let m = i_mode (inode_table s p);
                            s = upd_file f (\<lambda>x. x\<lparr>f_mode := m, f_flags := ucast flag, f_inode := p, f_pos := 0\<rparr>) s
                        in Done (int fd) (set_f_count f 1 s))))"

definition sys_creat :: "fs_env \<Rightarrow> u32 \<Rightarrow> u32 \<Rightarrow> fs_state \<Rightarrow> int fs_out" where
  "sys_creat e pathname mode = sys_open e pathname (0x40 OR 0x200) mode"

definition sys_close :: "fs_env \<Rightarrow> u32 \<Rightarrow> fs_state \<Rightarrow> int fs_out" where
  "sys_close e fd s =
    (if fd \<ge> of_nat NR_OPEN then Done (- EINVAL) s
     else
       let s = upd_cur (\<lambda>t. t\<lparr>close_on_exec := close_on_exec t AND NOT (bit1 (unat fd))\<rparr>) s;
           f = filp (cur s) (unat fd)
       in if f = 0 then Done (- EINVAL) s
          else
            let s = set_filp (unat fd) 0 s in
            if f_count s f = 0 then Panics ''Close: file count is 0''
            else
              let s = set_f_count f (f_count s f - 1) s in
              if f_count s f \<noteq> 0 then Done 0 s
              else and_then (iput e (f_inode (file_table s f)) s) (\<lambda>_. Done 0))"

definition sys_dup2 :: "fs_env \<Rightarrow> u32 \<Rightarrow> u32 \<Rightarrow> fs_state \<Rightarrow> int fs_out" where
  "sys_dup2 e oldfd newfd s =
    and_then (sys_close e newfd s) (\<lambda>_ s. case dupfd oldfd newfd s of (r, s) \<Rightarrow> Done r s)"

subsection \<open>Asking about files\<close>

text \<open>
  \<^verbatim>\<open>struct stat\<close> as the compiler lays it out on the i386: \<open>short\<close>s at 0, 2, 4, a byte at 6, \<open>short\<close>s at 8, 10,
  12, then \<open>long\<close>s from 16 on; 32 bytes. The padding is whatever stood on the stack: \<open>junk\<close>.
\<close>

definition stat_bytes :: "(nat \<Rightarrow> u8) \<Rightarrow> m_inode \<Rightarrow> nat \<Rightarrow> u8" where
  "stat_bytes junk i =
    put_le32 28 (i_ctime i) (put_le32 24 (i_mtime i) (put_le32 20 (i_atime i) (put_le32 16 (i_size i)
      (put_le16 12 (i_zone i 0) (put_le16 10 (ucast (i_gid i)) (put_le16 8 (i_uid i)
        ((put_le16 4 (i_mode i) (put_le16 2 (i_num i) (put_le16 0 (i_dev i) junk)))(6 := i_nlinks i))))))))"

definition cp_stat :: "(nat \<Rightarrow> u8) \<Rightarrow> u32 \<Rightarrow> u32 \<Rightarrow> fs_state \<Rightarrow> unit fs_out" where
  "cp_stat junk p statbuf s =
    and_then (verify_area statbuf 32 s) (\<lambda>_ s.
      Done () (put_fs_bytes (stat_bytes junk (inode_table s p)) 32 statbuf s))"

definition sys_stat :: "(nat \<Rightarrow> u8) \<Rightarrow> fs_env \<Rightarrow> u32 \<Rightarrow> u32 \<Rightarrow> fs_state \<Rightarrow> int fs_out" where
  "sys_stat junk e filename statbuf s =
    and_then (namei e filename s) (\<lambda>p s.
      if p = 0 then Done (- ENOENT) s
      else and_then (cp_stat junk p statbuf s) (\<lambda>_. put_all e [I p] 0))"

definition sys_lstat :: "(nat \<Rightarrow> u8) \<Rightarrow> fs_env \<Rightarrow> u32 \<Rightarrow> u32 \<Rightarrow> fs_state \<Rightarrow> int fs_out" where
  "sys_lstat junk e filename statbuf s =
    and_then (lnamei e filename s) (\<lambda>p s.
      if p = 0 then Done (- ENOENT) s
      else and_then (cp_stat junk p statbuf s) (\<lambda>_. put_all e [I p] 0))"

definition sys_fstat :: "(nat \<Rightarrow> u8) \<Rightarrow> u32 \<Rightarrow> u32 \<Rightarrow> fs_state \<Rightarrow> int fs_out" where
  "sys_fstat junk fd statbuf s =
    (if fd \<ge> of_nat NR_OPEN then Done (- EBADF) s
     else
       let f = filp (cur s) (unat fd); p = f_inode (file_table s f) in
       if f = 0 \<or> p = 0 then Done (- EBADF) s
       else and_then (cp_stat junk p statbuf s) (\<lambda>_. Done 0))"

definition sys_readlink :: "fs_env \<Rightarrow> u32 \<Rightarrow> u32 \<Rightarrow> int \<Rightarrow> fs_state \<Rightarrow> int fs_out" where
  "sys_readlink e pathname buf bufsiz s =
    (if bufsiz \<le> 0 then Done (- EBADF) s
     else
       let bufsiz = min bufsiz 1023 in
       and_then (verify_area buf (word_of_int bufsiz) s) (\<lambda>_ s.
       and_then (lnamei e pathname s) (\<lambda>p s.
         if p = 0 then Done (- ENOENT) s
         else
           and_then (if i_zone (inode_table s p) 0 \<noteq> 0
                     then bread e (ucast (i_dev (inode_table s p))) (ucast (i_zone (inode_table s p) 0)) s
                     else Done 0 s) (\<lambda>bh s.
           and_then (iput e p s) (\<lambda>_ s.
             if bh = 0 then Done 0 s
             else
               let n = length (takeWhile (\<lambda>i. b_data (bufs s bh) i \<noteq> 0) [0..<nat bufsiz]);
                   s = put_fs_bytes (b_data (bufs s bh)) n buf s
               in and_then (brelse e bh s) (\<lambda>_. Done (int n)))))))"

subsection \<open>File systems\<close>

definition d_super_of :: "(nat \<Rightarrow> u8) \<Rightarrow> super_block_t \<Rightarrow> super_block_t" where
  "d_super_of d b =
    b\<lparr>s_ninodes := get_le16 d 0, s_nzones := get_le16 d 2, s_imap_blocks := get_le16 d 4,
      s_zmap_blocks := get_le16 d 6, s_firstdatazone := get_le16 d 8, s_log_zone_size := get_le16 d 10,
      s_max_size := get_le32 d 12, s_magic := get_le16 d 16\<rparr>"

text \<open>
  Reading \<open>n\<close> bitmap blocks into the slots from 0 on; the result is the number of the next block. A bitmap of
  more than eight blocks runs out of the array: \<open>Undefined\<close>.
\<close>

definition read_maps ::
  "fs_env \<Rightarrow> u32 \<Rightarrow> (nat \<Rightarrow> nat \<Rightarrow> fs_state \<Rightarrow> fs_state) \<Rightarrow> nat \<Rightarrow> nat \<Rightarrow> fs_state \<Rightarrow> nat fs_out" where
  "read_maps e dev store n block =
    loop (\<lambda>(i, block) s.
      if \<not> i < n then Done (Leave block) s
      else if i \<ge> 8 then Undefined ''bitmap slots out of bounds''
      else
        and_then (bread e dev (of_nat block) s) (\<lambda>bh s.
          let s = store i bh s in
          if bh \<noteq> 0 then Done (Again (i + 1, block + 1)) s else Done (Leave block) s)) (0, block)"

definition set_imap :: "nat \<Rightarrow> nat \<Rightarrow> nat \<Rightarrow> fs_state \<Rightarrow> fs_state" where
  "set_imap k i bh = upd_super k (\<lambda>b. b\<lparr>s_imap := (s_imap b)(i := bh)\<rparr>)"

definition set_zmap :: "nat \<Rightarrow> nat \<Rightarrow> nat \<Rightarrow> fs_state \<Rightarrow> fs_state" where
  "set_zmap k i bh = upd_super k (\<lambda>b. b\<lparr>s_zmap := (s_zmap b)(i := bh)\<rparr>)"

definition read_super :: "fs_env \<Rightarrow> u32 \<Rightarrow> fs_state \<Rightarrow> nat option fs_out" where
  "read_super e dev s =
    (if dev = 0 then Done None s
     else
       and_then (check_disk_change e dev s) (\<lambda>_ s.
       and_then (get_super e dev s) (\<lambda>sb s.
         case sb of
           Some k \<Rightarrow> Done (Some k) s
         | None \<Rightarrow>
             case find (\<lambda>k. s_dev (super_block s k) = 0) [0..<NR_SUPER] of
               None \<Rightarrow> Done None s
             | Some k \<Rightarrow>
                 let fail = (\<lambda>s. Done None (free_super k (upd_super k (\<lambda>b. b\<lparr>s_dev := 0\<rparr>) s)));
                     s = upd_super k (\<lambda>b. b\<lparr>s_dev := ucast dev, s_isup := 0, s_imount := 0, s_time := 0,
                           s_rd_only := 0, s_dirt := 0\<rparr>) s
                 in and_then (lock_super e k s) (\<lambda>_ s.
                    and_then (bread e dev 1 s) (\<lambda>bh s.
                      if bh = 0 then fail s
                      else
                        let s = upd_super k (d_super_of (b_data (bufs s bh))) s in
                        and_then (brelse e bh s) (\<lambda>_ s.
                          if s_magic (super_block s k) \<noteq> SUPER_MAGIC then fail s
                          else
                            let s = upd_super k (\<lambda>b. b\<lparr>s_imap := (\<lambda>i. if i < I_MAP_SLOTS then 0 else s_imap b i),
                                  s_zmap := (\<lambda>i. if i < Z_MAP_SLOTS then 0 else s_zmap b i)\<rparr>) s
                            in and_then (read_maps e dev (set_imap k) (unat (s_imap_blocks (super_block s k))) 2 s)
                                 (\<lambda>block s.
                               and_then (read_maps e dev (set_zmap k) (unat (s_zmap_blocks (super_block s k))) block s)
                                 (\<lambda>block s.
                                 let b = super_block s k in
                                 if block \<noteq> 2 + unat (s_imap_blocks b) + unat (s_zmap_blocks b)
                                 then
                                   and_then (for_each [0..<I_MAP_SLOTS] (\<lambda>i s. brelse e (s_imap (super_block s k) i) s) s)
                                     (\<lambda>_ s.
                                   and_then (for_each [0..<Z_MAP_SLOTS] (\<lambda>i s. brelse e (s_zmap (super_block s k) i) s) s)
                                     (\<lambda>_ s. fail s))
                                 else
                                   let first = (\<lambda>h. h\<lparr>b_data := (b_data h)(0 := b_data h 0 OR 1)\<rparr>);
                                       s = upd_buf (s_imap (super_block s k) 0) first s;
                                       s = upd_buf (s_zmap (super_block s k) 0) first s
                                   in Done (Some k) (free_super k s)))))))))"

definition sys_umount :: "fs_env \<Rightarrow> u32 \<Rightarrow> fs_state \<Rightarrow> int fs_out" where
  "sys_umount e dev_name s =
    and_then (namei e dev_name s) (\<lambda>p s.
      if p = 0 then Done (- ENOENT) s
      else
        let dev = ucast (i_zone (inode_table s p) 0) in
        if \<not> S_ISBLK (i_mode (inode_table s p)) then put_all e [I p] (- ENOTBLK) s
        else
          and_then (iput e p s) (\<lambda>_ s.
            if dev = ROOT_DEV s then Done (- EBUSY) s
            else
              and_then (get_super e dev s) (\<lambda>sb s.
                case sb of
                  None \<Rightarrow> Done (- ENOENT) s
                | Some k \<Rightarrow>
                    if s_imount (super_block s k) = 0 then Done (- ENOENT) s
                    else if \<exists>q\<in>set inode_ptrs. ucast (i_dev (inode_table s q)) = dev \<and> i_count s q \<noteq> 0
                    then Done (- EBUSY) s
                    else
                      let s = upd_inode (s_imount (super_block s k)) (\<lambda>i. i\<lparr>i_mount := 0\<rparr>) s in
                      and_then (iput e (s_imount (super_block s k)) s) (\<lambda>_ s.
                      let s = upd_super k (\<lambda>b. b\<lparr>s_imount := 0\<rparr>) s in
                      and_then (iput e (s_isup (super_block s k)) s) (\<lambda>_ s.
                      let s = upd_super k (\<lambda>b. b\<lparr>s_isup := 0\<rparr>) s in
                      and_then (put_super e dev s) (\<lambda>_ s.
                      and_then (sync_dev e dev s) (\<lambda>_. Done 0)))))))"

definition sys_mount :: "fs_env \<Rightarrow> u32 \<Rightarrow> u32 \<Rightarrow> fs_state \<Rightarrow> int fs_out" where
  "sys_mount e dev_name dir_name s =
    and_then (namei e dev_name s) (\<lambda>dp s.
      if dp = 0 then Done (- ENOENT) s
      else
        let dev = ucast (i_zone (inode_table s dp) 0) in
        if \<not> S_ISBLK (i_mode (inode_table s dp)) then put_all e [I dp] (- EPERM) s
        else
          and_then (iput e dp s) (\<lambda>_ s.
          and_then (namei e dir_name s) (\<lambda>p s.
            if p = 0 then Done (- ENOENT) s
            else if i_count s p \<noteq> 1 \<or> i_num (inode_table s p) = ucast ROOT_INO then put_all e [I p] (- EBUSY) s
            else if \<not> S_ISDIR (i_mode (inode_table s p)) then put_all e [I p] (- EPERM) s
            else
              and_then (read_super e dev s) (\<lambda>sb s.
                case sb of
                  None \<Rightarrow> put_all e [I p] (- EBUSY) s
                | Some k \<Rightarrow>
                    if s_imount (super_block s k) \<noteq> 0 then put_all e [I p] (- EBUSY) s
                    else if i_mount (inode_table s p) \<noteq> 0 then put_all e [I p] (- EPERM) s
                    else Done 0 (upd_inode p (\<lambda>i. i\<lparr>i_mount := 1, i_dirt := 1\<rparr>)
                           (upd_super k (\<lambda>b. b\<lparr>s_imount := p\<rparr>) s))))))"

definition mount_root :: "fs_env \<Rightarrow> fs_state \<Rightarrow> unit fs_out" where
  "mount_root e s =
    (let s = fold (\<lambda>f. set_f_count f 0) file_ptrs s;
         s = fold (\<lambda>k. upd_super k (\<lambda>b. b\<lparr>s_dev := 0, s_lock := 0, s_wait := 0\<rparr>)) [0..<NR_SUPER] s
     in and_then (read_super e (ROOT_DEV s) s) (\<lambda>sb s.
          case sb of
            None \<Rightarrow> Panics ''Unable to mount root''
          | Some k \<Rightarrow>
              and_then (iget e (ROOT_DEV s) ROOT_INO s) (\<lambda>mi s.
                if mi = 0 then Panics ''Unable to read root i-node''
                else
                  let s = set_i_count mi (i_count s mi + 3) s;
                      s = upd_super k (\<lambda>b. b\<lparr>s_imount := mi, s_isup := mi\<rparr>) s
                  in Done () (upd_cur (\<lambda>t. t\<lparr>pwd := mi, root := mi\<rparr>) s))))"

end
