(* ===== verification/Wait_Queue.thy ===== *)
theory Wait_Queue
  imports Scheduler Linked_Lists
begin

section \<open>Wait queues\<close>

text \<open>
  \<open>sleep_on\<close>, \<open>interruptible_sleep_on\<close> and their common body \<^verbatim>\<open>__sleep_on\<close> of \<^verbatim>\<open>kernel/sched.c\<close>, seen from one wait queue: the
  variable \<^verbatim>\<open>*p\<close> is \<open>wq_head\<close>, the local variable \<open>tmp\<close> of a process inside \<^verbatim>\<open>__sleep_on\<close> is \<open>wq_tmp\<close> of that process.
  There is no other list: each sleeper remembers on its kernel stack who slept before it. The body is cut at
  its call of \<open>schedule\<close>: \<open>sleep_on_begin\<close> runs up to it, \<open>sleep_on_resume\<close> is what a process does each time \<open>schedule\<close>
  returns to it. In between, the other processes make their steps.
\<close>

unbundle bit_operations_syntax

record wq_state = kstate +
  wq_head :: u32
  wq_tmp :: "u32 \<Rightarrow> u32"
  wq_inside :: "u32 set"

definition sleep_on_begin :: "u32 \<Rightarrow> wq_state \<Rightarrow> (wq_state, unit) outcome" where
  "sleep_on_begin st s =
    (if current s = task s ! 0 then Panics ''task[0] trying to sleep''
     else
       let p = current s;
           s = s\<lparr>wq_tmp := (wq_tmp s)(p := wq_head s), wq_head := p, wq_inside := insert p (wq_inside s)\<rparr>
       in Done () (upd_cur (\<lambda>t. t\<lparr>state := st\<rparr>) s))"

definition sleep_on_resume :: "wq_state \<Rightarrow> wq_state" where
  "sleep_on_resume s =
    (let p = current s in
     if wq_head s \<noteq> 0 \<and> wq_head s \<noteq> p
     then upd_cur (\<lambda>t. t\<lparr>state := TASK_UNINTERRUPTIBLE\<rparr>) (upd_task (wq_head s) (\<lambda>t. t\<lparr>state := TASK_RUNNING\<rparr>) s)
     else
       let s = s\<lparr>wq_head := wq_tmp s p, wq_inside := wq_inside s - {p}\<rparr>
       in if wq_head s \<noteq> 0 then upd_task (wq_head s) (\<lambda>t. t\<lparr>state := TASK_RUNNING\<rparr>) s else s)"

subsection \<open>The steps\<close>

text \<open>
  A process inside \<^verbatim>\<open>__sleep_on\<close> that is runnable and gets the processor; and, with that, all that can happen to
  the queue: a process goes to sleep, another process runs, somebody wakes the queue up, a signal makes an
  interruptible sleeper runnable (in \<open>schedule\<close>).
\<close>

inductive resume_step :: "wq_state \<Rightarrow> wq_state \<Rightarrow> bool" where
  "p \<in> wq_inside s \<Longrightarrow> state (ts s p) = TASK_RUNNING \<Longrightarrow> resume_step s (sleep_on_resume (s\<lparr>current := p\<rparr>))"

inductive wq_step :: "wq_state \<Rightarrow> wq_state \<Rightarrow> bool" where
  Sleep: "current s \<notin> wq_inside s \<Longrightarrow> current s \<noteq> 0 \<Longrightarrow> st \<in> {TASK_INTERRUPTIBLE, TASK_UNINTERRUPTIBLE} \<Longrightarrow>
    sleep_on_begin st s = Done () t \<Longrightarrow> wq_step s t"
| Switch: "p \<notin> wq_inside s \<Longrightarrow> wq_step s (s\<lparr>current := p\<rparr>)"
| Resume: "resume_step s t \<Longrightarrow> wq_step s t"
| Wake: "wq_step s (wake_up (wq_head s) s)"
| Signal: "state (ts s p) = TASK_INTERRUPTIBLE \<Longrightarrow> wq_step s (upd_task p (\<lambda>t. t\<lparr>state := TASK_RUNNING\<rparr>) s)"

inductive_cases resume_stepE: "resume_step s t"
inductive_simps resume_step_iff: "resume_step s t"

text \<open>The sleepers in the order in which they would be woken: the queue that their \<open>tmp\<close>s form.\<close>

definition wq_is :: "wq_state \<Rightarrow> u32 list \<Rightarrow> bool" where
  "wq_is s xs \<longleftrightarrow> path_to (wq_tmp s) (wq_head s) xs \<and> distinct xs \<and> set xs = wq_inside s"

lemma wq_fields [simp]:
  "wq_head (upd_task p f s) = wq_head s" "wq_tmp (upd_task p f s) = wq_tmp s" "wq_inside (upd_task p f s) = wq_inside s"
  "wq_head (upd_cur f s) = wq_head s" "wq_tmp (upd_cur f s) = wq_tmp s" "wq_inside (upd_cur f s) = wq_inside s"
  "wq_head (wake_up p s) = wq_head s" "wq_tmp (wake_up p s) = wq_tmp s" "wq_inside (wake_up p s) = wq_inside s"
  by (simp_all add: upd_task_def upd_cur_def wake_up_def)

lemma wq_is_cong:
  "wq_head s = wq_head t \<Longrightarrow> wq_tmp s = wq_tmp t \<Longrightarrow> wq_inside s = wq_inside t \<Longrightarrow> wq_is s xs = wq_is t xs"
  by (simp add: wq_is_def)

text \<open>What a resumed process does: the head of the queue leaves it and wakes the next; any other wakes the head.\<close>

lemma sleep_on_resume_head:
  assumes "wq_is s (p # xs)"
  shows "wq_is (sleep_on_resume (s\<lparr>current := p\<rparr>)) xs"
    "xs \<noteq> [] \<Longrightarrow> state (ts (sleep_on_resume (s\<lparr>current := p\<rparr>)) (hd xs)) = TASK_RUNNING"
proof -
  have s: "wq_head s = p" "p \<noteq> 0" "path_to (wq_tmp s) (wq_tmp s p) xs" "distinct (p # xs)" "set (p # xs) = wq_inside s"
    using assms by (auto simp: wq_is_def)
  show "wq_is (sleep_on_resume (s\<lparr>current := p\<rparr>)) xs"
    using s by (auto simp: sleep_on_resume_def Let_def wq_is_def)
  show "state (ts (sleep_on_resume (s\<lparr>current := p\<rparr>)) (hd xs)) = TASK_RUNNING" if "xs \<noteq> []"
    using s that by (cases xs) (auto simp: sleep_on_resume_def Let_def upd_task_def)
qed

lemma sleep_on_resume_other:
  assumes "wq_is s (h # xs)" "p \<in> set xs"
  shows "wq_is (sleep_on_resume (s\<lparr>current := p\<rparr>)) (h # xs)"
    "state (ts (sleep_on_resume (s\<lparr>current := p\<rparr>)) q) =
      (if q = p then TASK_UNINTERRUPTIBLE else if q = h then TASK_RUNNING else state (ts s q))"
proof -
  have s: "wq_head s = h" "h \<noteq> 0" "h \<noteq> p" using assms by (auto simp: wq_is_def)
  show "wq_is (sleep_on_resume (s\<lparr>current := p\<rparr>)) (h # xs)"
    using assms(1) s by (simp add: sleep_on_resume_def wq_is_def)
  show "state (ts (sleep_on_resume (s\<lparr>current := p\<rparr>)) q) =
      (if q = p then TASK_UNINTERRUPTIBLE else if q = h then TASK_RUNNING else state (ts s q))"
    using s by (simp add: sleep_on_resume_def upd_cur_def upd_task_def)
qed

text \<open>
  C30. The sleepers always form one queue: whatever happens - going to sleep, waking up, signals, the order in
  which the scheduler lets the sleepers run - following \<open>tmp\<close> from \<^verbatim>\<open>*p\<close> visits every process inside \<^verbatim>\<open>__sleep_on\<close>
  exactly once and ends in NULL. Nobody is lost.
\<close>

theorem wait_queue_invariant:
  assumes "wq_step s t" "wq_is s xs"
  shows "\<exists>ys. wq_is t ys"
  using assms(1)
proof (cases rule: wq_step.cases)
  case (Sleep st)
  have t: "t = upd_cur (\<lambda>t. t\<lparr>state := st\<rparr>)
      (s\<lparr>wq_tmp := (wq_tmp s)(current s := wq_head s), wq_head := current s, wq_inside := insert (current s) (wq_inside s)\<rparr>)"
    using Sleep(4) by (auto simp: sleep_on_begin_def Let_def split: if_splits)
  have x: "path_to (wq_tmp s) (wq_head s) xs" "distinct xs" "set xs = wq_inside s"
    using assms(2) by (auto simp: wq_is_def)
  then have "path_to ((wq_tmp s)(current s := wq_head s)) (wq_head s) xs"
    using Sleep(1) by (subst path_to_cong[of xs _ "wq_tmp s"]) auto
  then have "wq_is t (current s # xs)"
    using x Sleep(1,2) by (simp add: wq_is_def t)
  then show ?thesis by blast
next
  case Resume
  then obtain p where p: "p \<in> wq_inside s" "t = sleep_on_resume (s\<lparr>current := p\<rparr>)" by (auto elim: resume_stepE)
  then have "p \<in> set xs" using assms(2) by (simp add: wq_is_def)
  then obtain h zs where "xs = h # zs" "p = h \<or> p \<in> set zs" by (cases xs) auto
  then show ?thesis
    using sleep_on_resume_head(1) sleep_on_resume_other(1) assms(2) unfolding p(2) by blast
qed (use assms(2) in \<open>auto simp: wq_is_def\<close>)

subsection \<open>Waking everybody\<close>

text \<open>
  \<open>drains s\<close>: however the scheduler chooses among the runnable sleepers, after finitely many steps of theirs the
  queue is empty.
\<close>

inductive drains :: "wq_state \<Rightarrow> bool" where
  empty_queue: "wq_inside s = {} \<Longrightarrow> drains s"
| go_on: "\<exists>t. resume_step s t \<Longrightarrow> (\<And>t. resume_step s t \<Longrightarrow> drains t) \<Longrightarrow> drains s"

definition runnable_inside :: "wq_state \<Rightarrow> u32 set" where
  "runnable_inside s = {p \<in> wq_inside s. state (ts s p) = TASK_RUNNING}"

lemma drains_if_head_runs:
  assumes "wq_is s xs" "xs \<noteq> [] \<Longrightarrow> state (ts s (hd xs)) = TASK_RUNNING"
  shows "drains s"
  using assms
proof (induction xs arbitrary: s)
  case Nil
  then show ?case by (auto simp: wq_is_def intro: empty_queue)
next
  case (Cons h xs)
  have "drains s" if "wq_is s (h # xs)" "state (ts s h) = TASK_RUNNING" for s
    using that
  proof (induction "card (runnable_inside s)" arbitrary: s rule: less_induct)
    case less
    have ins: "set (h # xs) = wq_inside s" using less.prems(1) by (simp add: wq_is_def)
    show ?case
    proof (rule go_on)
      show "\<exists>t. resume_step s t"
        using less.prems(2) ins by (auto simp: resume_step_iff)
    next
      fix t assume "resume_step s t"
      then obtain p where p: "p \<in> wq_inside s" "state (ts s p) = TASK_RUNNING" "t = sleep_on_resume (s\<lparr>current := p\<rparr>)"
        by (auto elim: resume_stepE)
      show "drains t"
      proof (cases "p = h")
        case True
        then show ?thesis
          using Cons.IH[of t] sleep_on_resume_head[OF less.prems(1)] p(3) by simp
      next
        case False
        then have px: "p \<in> set xs" using p(1) ins by auto
        note other = sleep_on_resume_other[OF less.prems(1) px, folded p(3)]
        have h: "state (ts t h) = TASK_RUNNING" using other(2)[of h] False by simp
        have "wq_inside t = wq_inside s" using other(1) ins by (simp add: wq_is_def)
        then have "runnable_inside t = runnable_inside s - {p}"
          using other(2) less.prems(2) by (auto simp: runnable_inside_def split: if_splits)
        moreover have "p \<in> runnable_inside s" using p by (simp add: runnable_inside_def)
        moreover have "finite (runnable_inside s)"
          using ins by (auto simp: runnable_inside_def intro: finite_subset[of _ "set (h # xs)"])
        ultimately have "card (runnable_inside t) < card (runnable_inside s)"
          by (metis card_Diff1_less)
        then show ?thesis using less.hyps other(1) h by blast
      qed
    qed
  qed
  then show ?case using Cons.prems by simp
qed

text \<open>
  C31. \<open>wake_up\<close> wakes everybody, though it touches only the process at the head: after it, the processes inside
  \<^verbatim>\<open>__sleep_on\<close> of this queue all leave it, in whatever order the scheduler runs those that are runnable - as long
  as nobody else goes to sleep there. A process that is run before its turn wakes the head and waits again.
\<close>

theorem wake_up_drains:
  assumes "wq_is s xs"
  shows "drains (wake_up (wq_head s) s)"
proof (rule drains_if_head_runs)
  show "wq_is (wake_up (wq_head s) s) xs" using assms by (simp add: wq_is_def)
  show "state (ts (wake_up (wq_head s) s) (hd xs)) = TASK_RUNNING" if "xs \<noteq> []"
    using assms that by (cases xs) (auto simp: wq_is_def wake_up_def upd_task_def)
qed

subsection \<open>Two sleepers\<close>

text \<open>Task 0x2000 went to sleep first, then task 0x3000, both uninterruptibly.\<close>

definition demo_wq :: wq_state where
  "demo_wq = kstate.extend (demo_kernel\<lparr>ts := (\<lambda>_. demo_task\<lparr>state := TASK_UNINTERRUPTIBLE\<rparr>), current := 0x1000\<rparr>)
     (wq_state.fields 0x3000 (\<lambda>p. if p = 0x3000 then 0x2000 else 0) {0x2000, 0x3000})"

lemma demo_wq_is: "wq_is demo_wq [0x3000, 0x2000]"
  by (auto simp: wq_is_def demo_wq_def kstate.defs wq_state.defs)

theorem wait_queue_invariant_witness:
  "\<exists>ys. wq_is (wake_up (wq_head demo_wq) demo_wq) ys"
  by (rule wait_queue_invariant[OF wq_step.Wake demo_wq_is])

theorem wake_up_drains_witness: "drains (wake_up 0x3000 demo_wq)"
proof -
  have "wq_head demo_wq = 0x3000" using demo_wq_is by (simp add: wq_is_def)
  then show ?thesis using wake_up_drains[OF demo_wq_is] by simp
qed

end
