(* ===== verification/Fpu_Arith.thy ===== *)
theory Fpu_Arith
  imports Task_State Complex_Main
begin

section \<open>Temporary reals\<close>

text \<open>
  \<^verbatim>\<open>kernel/math/add.c\<close>, \<^verbatim>\<open>mul.c\<close>, \<^verbatim>\<open>div.c\<close>, \<^verbatim>\<open>compare.c\<close> and \<^verbatim>\<open>convert.c\<close>: the arithmetic of the
  coprocessor emulator. The inline assembly works on several 32-bit words with the carry flag between
  them; here each instruction is a function of the words and of the flag it reads, and gives the words
  and the flag it leaves. The exception flags are set in the \<open>i387_struct\<close> of the running task, which
  the functions take and return.
\<close>

unbundle bit_operations_syntax

subsection \<open>Instructions on several words\<close>

text \<open>\<^verbatim>\<open>addl\<close>, \<^verbatim>\<open>adcl\<close>, \<^verbatim>\<open>subl\<close>, \<^verbatim>\<open>sbbl\<close>: the result and the carry (borrow).\<close>

definition addc :: "u32 \<Rightarrow> u32 \<Rightarrow> bool \<Rightarrow> u32 \<times> bool" where
  "addc x y c = (x + y + of_bool c, 2 ^ 32 \<le> unat x + unat y + of_bool c)"

definition subb :: "u32 \<Rightarrow> u32 \<Rightarrow> bool \<Rightarrow> u32 \<times> bool" where
  "subb x y c = (x - y - of_bool c, unat x < unat y + of_bool c)"

text \<open>\<^verbatim>\<open>mull\<close>: the low and the high word of the product.\<close>

definition mull :: "u32 \<Rightarrow> u32 \<Rightarrow> u32 \<times> u32" where
  "mull x y = (x * y, of_nat (unat x * unat y div 2 ^ 32))"

text \<open>\<^verbatim>\<open>shrdl n,hi,lo\<close>; the processor uses the count modulo 32.\<close>

definition shrd :: "nat \<Rightarrow> u32 \<Rightarrow> u32 \<Rightarrow> u32" where
  "shrd n hi lo = (if n = 0 then lo else drop_bit n lo OR push_bit (32 - n) hi)"

text \<open>Two words, the low one first, as a 64-bit number, and four words as a 128-bit number.\<close>

type_synonym quad = "u32 \<times> u32 \<times> u32 \<times> u32"

definition val2 :: "u32 \<Rightarrow> u32 \<Rightarrow> nat" where
  "val2 lo hi = unat lo + 2 ^ 32 * unat hi"

fun qval :: "quad \<Rightarrow> nat" where
  "qval (w0, w1, w2, w3) = val2 w0 w1 + 2 ^ 64 * val2 w2 w3"

text \<open>\<^verbatim>\<open>addl a,c ; adcl b,d\<close> on the pairs \<open>(a, b)\<close> and \<open>(c, d)\<close>.\<close>

definition add2 :: "u32 \<Rightarrow> u32 \<Rightarrow> u32 \<Rightarrow> u32 \<Rightarrow> u32 \<times> u32" where
  "add2 a b c d = (case addc c a False of (lo, cf) \<Rightarrow> (lo, fst (addc d b cf)))"

text \<open>\<^verbatim>\<open>notl lo ; notl hi ; addl $1,lo ; adcl $0,hi\<close>.\<close>

definition NEGINT :: "u32 \<Rightarrow> u32 \<Rightarrow> u32 \<times> u32" where
  "NEGINT lo hi = add2 1 0 (NOT lo) (NOT hi)"

lemma unat_u32_less: "unat (x :: u32) < 2 ^ 32"
  using unsigned_less[of x, where 'a = nat] by simp

text \<open>The carry is worth \<open>2 ^ 32\<close> of what the next word counts.\<close>

lemma addc_val:
  assumes "addc x y c = (r, d)"
  shows "unat r + 2 ^ 32 * of_bool d = unat x + unat y + of_bool c"
proof -
  have "unat x < 2 ^ 32" "unat y < 2 ^ 32" by (fact unat_u32_less)+
  moreover have "r = x + y + of_bool c" "d = (2 ^ 32 \<le> unat x + unat y + of_bool c)"
    using assms by (simp_all add: addc_def)
  moreover have "unat (x + y + of_bool c) = (unat x + unat y + of_bool c) mod 2 ^ 32"
    by (cases c) (simp_all add: unat_word_ariths mod_simps)
  ultimately show ?thesis by (cases d; cases c) (auto simp: mod_if)
qed

lemma subb_val:
  assumes "subb x y c = (r, d)"
  shows "uint r = uint x - uint y - of_bool c + 2 ^ 32 * of_bool d"
proof -
  define a b where "a = unat x" and "b = unat y"
  have u: "uint x = int a" "uint y = int b" by (simp_all add: a_def b_def)
  have b: "a < 2 ^ 32" "b < 2 ^ 32" unfolding a_def b_def by (fact unat_u32_less)+
  have r: "r = x - y - of_bool c" "d = (a < b + of_bool c)"
    using assms by (simp_all add: subb_def a_def b_def)
  have "uint r = (int a - int b - of_bool c) mod 2 ^ 32"
    unfolding r by (cases c) (simp_all add: uint_word_ariths mod_simps u)
  also have "\<dots> = (int a - int b - of_bool c + 2 ^ 32 * of_bool d) mod 2 ^ 32" by simp
  also have "\<dots> = int a - int b - of_bool c + 2 ^ 32 * of_bool d"
    using b r(2) by (intro mod_pos_pos_trivial) (cases c; cases d; simp)+
  finally show ?thesis unfolding u .
qed

lemma val2_less: "val2 a b < 2 ^ 64"
  using unat_u32_less[of a] unat_u32_less[of b] by (simp add: val2_def)

lemma add2_val: "(case add2 a b c d of (lo, hi) \<Rightarrow> val2 lo hi) = (val2 a b + val2 c d) mod 2 ^ 64"
proof -
  obtain lo cf where 1: "addc c a False = (lo, cf)" by fastforce
  obtain hi cf' where 2: "addc d b cf = (hi, cf')" by fastforce
  have "val2 lo hi + 2 ^ 64 * of_bool cf' = val2 a b + val2 c d"
    using addc_val[OF 1] addc_val[OF 2] by (simp add: val2_def)
  moreover have "add2 a b c d = (lo, hi)" by (simp add: add2_def 1 2)
  ultimately show ?thesis using val2_less[of lo hi]
    by (metis case_prod_conv mod_less mod_mult_self2)
qed


subsection \<open>Temporary reals and the exception flags\<close>

text \<open>
  \<^verbatim>\<open>temp_real\<close> of \<^verbatim>\<open>include/linux/math_emu.h\<close>: a 64-bit mantissa with its leading bit, and a 15-bit exponent,
  biased by 16383, below the sign. C's \<^verbatim>\<open>x < 0\<close> on a \<^verbatim>\<open>long\<close> or a \<^verbatim>\<open>short\<close> is \<open>sint x < 0\<close>.
\<close>

record temp_real =
  tr_a :: u32
  tr_b :: u32
  tr_exp :: u16

record temp_int =
  ti_a :: u32
  ti_b :: u32
  ti_sign :: u16

definition set_DE :: "i387_struct \<Rightarrow> i387_struct" where "set_DE f = f\<lparr>swd := swd f OR 2\<rparr>"
definition set_ZE :: "i387_struct \<Rightarrow> i387_struct" where "set_ZE f = f\<lparr>swd := swd f OR 4\<rparr>"
definition set_OE :: "i387_struct \<Rightarrow> i387_struct" where "set_OE f = f\<lparr>swd := swd f OR 8\<rparr>"
definition set_UE :: "i387_struct \<Rightarrow> i387_struct" where "set_UE f = f\<lparr>swd := swd f OR 16\<rparr>"
definition set_PE :: "i387_struct \<Rightarrow> i387_struct" where "set_PE f = f\<lparr>swd := swd f OR 32\<rparr>"
definition set_C0 :: "i387_struct \<Rightarrow> i387_struct" where "set_C0 f = f\<lparr>swd := swd f OR 0x0100\<rparr>"
definition set_C3 :: "i387_struct \<Rightarrow> i387_struct" where "set_C3 f = f\<lparr>swd := swd f OR 0x4000\<rparr>"
definition clear_Cx :: "i387_struct \<Rightarrow> i387_struct" where "clear_Cx f = f\<lparr>swd := swd f AND NOT 0x4500\<rparr>"

abbreviation (input) ROUND_NEAREST :: u32 where "ROUND_NEAREST \<equiv> 0"
abbreviation (input) ROUND_DOWN :: u32 where "ROUND_DOWN \<equiv> 1"
abbreviation (input) ROUND_UP :: u32 where "ROUND_UP \<equiv> 2"
abbreviation (input) ROUND_0 :: u32 where "ROUND_0 \<equiv> 3"

definition ROUNDING :: "i387_struct \<Rightarrow> u32" where
  "ROUNDING f = drop_bit 10 (cwd f) AND 3"

subsection \<open>Addition\<close>

definition signify :: "temp_real \<Rightarrow> temp_real" where
  "signify r =
    (let e = tr_exp r + 2;
         lo = shrd 2 (tr_b r) (tr_a r); hi = drop_bit 2 (tr_b r);
         (lo, hi) = (if sint e < 0 then NEGINT lo hi else (lo, hi))
     in \<lparr>tr_a = lo, tr_b = hi, tr_exp = e AND 0x7fff\<rparr>)"

text \<open>
  \<^verbatim>\<open>while (b >= 0) { exponent--; ... }\<close>, the doubling of the mantissa until its leading bit is set. On a
  zero mantissa the code would loop for ever; none of its callers gets here with one, and the function
  stops there.
\<close>

lemma sint_neg_bit: "sint (w :: u32) < 0 \<longleftrightarrow> bit w 31" "sint (e :: u16) < 0 \<longleftrightarrow> bit e 15"
  using bit_last_iff[of w] bit_last_iff[of e] by simp_all

lemma sint_neg_unat: "sint (w :: u32) < 0 \<longleftrightarrow> 2 ^ 31 \<le> unat w"
proof -
  define n where "n = unat w"
  have "uint w = int n" "n < 2 ^ 32" by (simp add: n_def, simp only: n_def unat_u32_less)
  then show ?thesis unfolding n_def[symmetric] sint_uint_cases by (cases "n < 2 ^ 31") simp_all
qed

lemma sint_neg_val2: "sint hi < 0 \<longleftrightarrow> 2 ^ 63 \<le> val2 lo hi"
  using unat_u32_less[of lo] by (auto simp: sint_neg_unat val2_def)

lemma val2_eq_0: "val2 lo hi = 0 \<longleftrightarrow> lo = 0 \<and> hi = 0"
  by (auto simp: val2_def unat_eq_zero)

lemma double_val2:
  assumes "\<not> sint hi < 0" "add2 lo hi lo hi = (lo', hi')"
  shows "val2 lo' hi' = 2 * val2 lo hi"
  using add2_val[of lo hi lo hi] assms by (simp add: sint_neg_val2[of hi lo])

function norm_left :: "u32 \<Rightarrow> u32 \<Rightarrow> u16 \<Rightarrow> u32 \<times> u32 \<times> u16" where
  "norm_left lo hi e =
    (if sint hi < 0 \<or> lo = 0 \<and> hi = 0 then (lo, hi, e)
     else norm_left (fst (add2 lo hi lo hi)) (snd (add2 lo hi lo hi)) (e - 1))"
  by auto
termination
proof (relation "measure (\<lambda>(lo, hi, e). 2 ^ 64 - val2 lo hi)")
  fix lo hi :: u32 and e :: u16 assume h: "\<not> (sint hi < 0 \<or> lo = 0 \<and> hi = 0)"
  obtain lo' hi' where d: "add2 lo hi lo hi = (lo', hi')" by fastforce
  have "val2 lo hi > 0" using h val2_eq_0[of lo hi] by blast
  then have "val2 lo hi < val2 lo' hi'" "val2 lo' hi' < 2 ^ 64"
    using double_val2[OF _ d] h val2_less[of lo' hi'] by auto
  then show "((fst (add2 lo hi lo hi), snd (add2 lo hi lo hi), e - 1), lo, hi, e)
      \<in> measure (\<lambda>(lo, hi, e). 2 ^ 64 - val2 lo hi)"
    by (simp add: d)
qed simp

declare norm_left.simps [simp del]

definition unsignify :: "temp_real \<Rightarrow> temp_real" where
  "unsignify r =
    (if tr_a r = 0 \<and> tr_b r = 0 then r\<lparr>tr_exp := 0\<rparr>
     else
       let e = tr_exp r AND 0x7fff;
           (lo, hi, e) = (if sint (tr_b r) < 0
                          then (case NEGINT (tr_a r) (tr_b r) of (lo, hi) \<Rightarrow> (lo, hi, e OR 0x8000))
                          else (tr_a r, tr_b r, e));
           (lo, hi, e) = norm_left lo hi e
       in \<lparr>tr_a = lo, tr_b = hi, tr_exp = e\<rparr>)"

text \<open>The part of \<open>fadd\<close> behind the comparison of the exponents; \<open>n\<close> is the variable \<open>shift\<close>.\<close>

definition add_aligned :: "temp_real \<Rightarrow> temp_real \<Rightarrow> nat \<Rightarrow> temp_real" where
  "add_aligned a b n =
    (let (lo, hi, n) = (if n \<ge> 32 then (tr_b b, 0, n - 32) else (tr_a b, tr_b b, n));
         b = signify (b\<lparr>tr_a := shrd n hi lo, tr_b := drop_bit n hi\<rparr>);
         a = signify a;
         (lo, hi) = add2 (tr_a a) (tr_b a) (tr_a b) (tr_b b)
     in unsignify (a\<lparr>tr_a := lo, tr_b := hi\<rparr>))"

definition fadd :: "temp_real \<Rightarrow> temp_real \<Rightarrow> temp_real" where
  "fadd src1 src2 =
    (let x1 = unat (tr_exp src1 AND 0x7fff); x2 = unat (tr_exp src2 AND 0x7fff);
         (a, b, n) = (if x1 > x2 then (src1, src2, x1 - x2) else (src2, src1, x2 - x1))
     in if n \<ge> 64 then a else add_aligned a b n)"

subsection \<open>Multiplication\<close>

text \<open>\<open>shift\<close> of \<^verbatim>\<open>mul.c\<close> and \<open>shift_left\<close> of \<^verbatim>\<open>div.c\<close> are the same four instructions.\<close>

fun shift_left :: "quad \<Rightarrow> quad" where
  "shift_left (w0, w1, w2, w3) =
    (case addc w0 w0 False of (w0, c) \<Rightarrow>
     case addc w1 w1 c of (w1, c) \<Rightarrow>
     case addc w2 w2 c of (w2, c) \<Rightarrow> (w0, w1, w2, fst (addc w3 w3 c)))"

fun add_at_1 :: "u32 \<times> u32 \<Rightarrow> quad \<Rightarrow> quad" where
  "add_at_1 (lo, hi) (c0, c1, c2, c3) =
    (case addc c1 lo False of (c1, cf) \<Rightarrow>
     case addc c2 hi cf of (c2, cf) \<Rightarrow> (c0, c1, c2, fst (addc c3 0 cf)))"

definition mul64 :: "temp_real \<Rightarrow> temp_real \<Rightarrow> quad" where
  "mul64 a b =
    (case mull (tr_a a) (tr_a b) of (c0, c1) \<Rightarrow>
     case mull (tr_b a) (tr_b b) of (c2, c3) \<Rightarrow>
       add_at_1 (mull (tr_b a) (tr_a b)) (add_at_1 (mull (tr_a a) (tr_b b)) (c0, c1, c2, c3)))"

text \<open>\<^verbatim>\<open>while (i && tmp[3] >= 0) { i--; shift(tmp); }\<close>\<close>

fun shift_up :: "nat \<Rightarrow> quad \<Rightarrow> nat \<times> quad" where
  "shift_up 0 q = (0, q)"
| "shift_up (Suc i) (w0, w1, w2, w3) =
    (if sint w3 < 0 then (Suc i, w0, w1, w2, w3) else shift_up i (shift_left (w0, w1, w2, w3)))"

text \<open>When the exponent overflows the code returns without a result: \<open>old\<close> is what it leaves in place.\<close>

definition fmul ::
  "temp_real \<Rightarrow> temp_real \<Rightarrow> temp_real \<Rightarrow> i387_struct \<Rightarrow> temp_real \<times> i387_struct" where
  "fmul src1 src2 old f =
    (let sg = (tr_exp src1 XOR tr_exp src2) AND 0x8000;
         i = int (unat (tr_exp src1 AND 0x7fff)) + int (unat (tr_exp src2 AND 0x7fff)) - 16383 + 1
     in if i < 0 then (\<lparr>tr_a = 0, tr_b = 0, tr_exp = sg\<rparr>, f)
        else if i > 0x7fff then (old, set_OE f)
        else
          let q = mul64 src1 src2;
              (i, _, _, t2, t3) = (if q \<noteq> (0, 0, 0, 0) then shift_up (nat i) q else (0, q))
          in (\<lparr>tr_a = t2, tr_b = t3, tr_exp = of_nat i OR sg\<rparr>, f))"

subsection \<open>Division\<close>

fun shift_right :: "quad \<Rightarrow> quad" where
  "shift_right (w0, w1, w2, w3) = (shrd 1 w1 w0, shrd 1 w2 w1, shrd 1 w3 w2, drop_bit 1 w3)"

text \<open>\<open>b - a\<close> and whether there was no borrow.\<close>

fun try_sub :: "quad \<Rightarrow> quad \<Rightarrow> bool \<times> quad" where
  "try_sub (a0, a1, a2, a3) (b0, b1, b2, b3) =
    (case subb b0 a0 False of (b0, c) \<Rightarrow>
     case subb b1 a1 c of (b1, c) \<Rightarrow>
     case subb b2 a2 c of (b2, c) \<Rightarrow>
     case subb b3 a3 c of (b3, c) \<Rightarrow> (\<not> c, b0, b1, b2, b3))"

text \<open>One turn of the loop of \<open>div64\<close>; turn \<open>i\<close> finds bit \<open>63 - i\<close> of the two high words of the result.\<close>

fun div_turn :: "nat \<Rightarrow> quad \<times> quad \<times> u32 \<times> u32 \<Rightarrow> quad \<times> quad \<times> u32 \<times> u32" where
  "div_turn i (a, b, c2, c3) =
    (let m = bit1 (31 - i mod 32); (ok, t) = try_sub b a in
     if ok then (if i < 32 then (t, shift_right b, c2, c3 OR m) else (t, shift_right b, c2 OR m, c3))
     else (a, shift_right b, c2, c3))"

definition div64 :: "quad \<Rightarrow> quad \<Rightarrow> u32 \<times> u32" where
  "div64 a b = snd (snd (fold div_turn [0..<64] (a, b, 0, 0)))"

lemma shift_left_val:
  assumes "\<not> sint w3 < 0"
  shows "qval (shift_left (w0, w1, w2, w3)) = 2 * qval (w0, w1, w2, w3)"
proof -
  obtain v0 c0 where 0: "addc w0 w0 False = (v0, c0)" by fastforce
  obtain v1 c1 where 1: "addc w1 w1 c0 = (v1, c1)" by fastforce
  obtain v2 c2 where 2: "addc w2 w2 c1 = (v2, c2)" by fastforce
  obtain v3 c3 where 3: "addc w3 w3 c2 = (v3, c3)" by fastforce
  note v = addc_val[OF 0] addc_val[OF 1] addc_val[OF 2] addc_val[OF 3]
  have "unat w3 < 2 ^ 31" using assms by (simp add: sint_neg_unat)
  then have "\<not> c3" using v(4) by (cases c2; cases c3) auto
  then show ?thesis using v by (simp add: 0 1 2 3 val2_def)
qed

lemma qval_less: "qval q < 2 ^ 128"
proof (cases q)
  case (fields w0 w1 w2 w3)
  then show ?thesis using val2_less[of w0 w1] val2_less[of w2 w3] by simp
qed

text \<open>\<^verbatim>\<open>while (b[3] >= 0) { i++; shift_left(b); }\<close>; \<open>fdiv\<close> gets here with a divisor that is not zero.\<close>

function div_norm :: "int \<Rightarrow> quad \<Rightarrow> int \<times> quad" where
  "div_norm i (b0, b1, b2, b3) =
    (if sint b3 < 0 \<or> qval (b0, b1, b2, b3) = 0 then (i, b0, b1, b2, b3)
     else div_norm (i + 1) (shift_left (b0, b1, b2, b3)))"
  by pat_completeness auto
termination
proof (relation "measure (\<lambda>(i, q). 2 ^ 128 - qval q)")
  fix i and b0 b1 b2 b3 :: u32 assume h: "\<not> (sint b3 < 0 \<or> qval (b0, b1, b2, b3) = 0)"
  have "qval (shift_left (b0, b1, b2, b3)) = 2 * qval (b0, b1, b2, b3)" using h by (intro shift_left_val) blast
  moreover have "qval (shift_left (b0, b1, b2, b3)) < 2 ^ 128" by (fact qval_less)
  ultimately show "((i + 1, shift_left (b0, b1, b2, b3)), i, b0, b1, b2, b3) \<in> measure (\<lambda>(i, q). 2 ^ 128 - qval q)"
    using h by (simp del: shift_left.simps qval.simps) (rule diff_less_mono2; simp del: qval.simps)
qed simp

declare div_norm.simps [simp del]

text \<open>Without a divisor, and when the exponent overflows, the code returns without a result.\<close>

definition fdiv ::
  "temp_real \<Rightarrow> temp_real \<Rightarrow> temp_real \<Rightarrow> i387_struct \<Rightarrow> temp_real \<times> i387_struct" where
  "fdiv src1 src2 old f =
    (let sg = (tr_exp src1 XOR tr_exp src2) AND 0x8000 in
     if tr_a src2 = 0 \<and> tr_b src2 = 0 then (old, set_ZE f)
     else
       let i = int (unat (tr_exp src1 AND 0x7fff)) - int (unat (tr_exp src2 AND 0x7fff)) + 16383 in
       if i < 0 then (\<lparr>tr_a = 0, tr_b = 0, tr_exp = sg\<rparr>, set_UE f)
       else
         let (i, b) = div_norm i (0, 0, tr_a src2, tr_b src2);
             (t2, t3) = div64 (0, 0, tr_a src1, tr_b src1) b;
             (i, t0, t1, t2, t3) = (if t2 \<noteq> 0 \<or> t3 \<noteq> 0 then shift_up (nat i) (0, 0, t2, t3) else (0, 0, 0, t2, t3));
             f = (if (t2 \<noteq> 0 \<or> t3 \<noteq> 0) \<and> \<not> sint t3 < 0 then set_DE f else f)
         in if i > 0x7fff then (old, set_OE f)
            else (\<lparr>tr_a = t2, tr_b = t3, tr_exp = of_nat i OR sg\<rparr>, if t0 \<noteq> 0 \<or> t1 \<noteq> 0 then set_PE f else f))"

subsection \<open>Comparison\<close>

fun norm_exp :: "nat \<Rightarrow> u32 \<Rightarrow> u32 \<Rightarrow> nat \<times> u32 \<times> u32" where
  "norm_exp 0 lo hi = (0, lo, hi)"
| "norm_exp (Suc i) lo hi =
    (if sint hi < 0 then (Suc i, lo, hi) else norm_exp i (fst (add2 lo hi lo hi)) (snd (add2 lo hi lo hi)))"

definition normalize :: "temp_real \<Rightarrow> temp_real" where
  "normalize a =
    (if tr_a a = 0 \<and> tr_b a = 0 then a\<lparr>tr_exp := 0\<rparr>
     else case norm_exp (unat (tr_exp a AND 0x7fff)) (tr_a a) (tr_b a) of (i, lo, hi) \<Rightarrow>
       \<lparr>tr_a = lo, tr_b = hi, tr_exp = of_nat i OR (tr_exp a AND 0x8000)\<rparr>)"

definition ftst :: "temp_real \<Rightarrow> i387_struct \<Rightarrow> i387_struct" where
  "ftst a f =
    (let f = clear_Cx f; b = normalize a
     in if tr_a b \<noteq> 0 \<or> tr_b b \<noteq> 0 \<or> tr_exp b \<noteq> 0
        then if sint (tr_exp b) < 0 then set_C0 f else f
        else set_C3 f)"

definition fcom :: "temp_real \<Rightarrow> temp_real \<Rightarrow> i387_struct \<Rightarrow> i387_struct" where
  "fcom src1 src2 = ftst (fadd (src1\<lparr>tr_exp := tr_exp src1 XOR 0x8000\<rparr>) src2)"

definition fucom :: "temp_real \<Rightarrow> temp_real \<Rightarrow> i387_struct \<Rightarrow> i387_struct" where
  "fucom src1 src2 = fcom src1 src2"

subsection \<open>Conversion\<close>

text \<open>A \<^verbatim>\<open>short_real\<close> is one word, a \<^verbatim>\<open>long_real\<close> two, the low one first.\<close>

definition short_to_temp :: "u32 \<Rightarrow> temp_real" where
  "short_to_temp a =
    (if a AND 0x7fffffff = 0 then \<lparr>tr_a = 0, tr_b = 0, tr_exp = (if a \<noteq> 0 then 0x8000 else 0)\<rparr>
     else
       let e = ucast ((drop_bit 23 a AND 0xff) - 127 + 16383);
           e = (if sint a < 0 then e OR 0x8000 else e)
       in \<lparr>tr_a = 0, tr_b = push_bit 8 a OR 0x80000000, tr_exp = e\<rparr>)"

definition long_to_temp :: "u32 \<times> u32 \<Rightarrow> temp_real" where
  "long_to_temp ab =
    (let (a, b) = ab in
     if a = 0 \<and> b AND 0x7fffffff = 0 then \<lparr>tr_a = 0, tr_b = 0, tr_exp = (if b \<noteq> 0 then 0x8000 else 0)\<rparr>
     else
       let e = ucast ((drop_bit 20 b AND 0x7ff) - 1023 + 16383);
           e = (if sint b < 0 then e OR 0x8000 else e)
       in \<lparr>tr_a = push_bit 11 a, tr_b = 0x80000000 OR push_bit 11 b OR drop_bit 21 a, tr_exp = e\<rparr>)"

definition temp_to_short :: "temp_real \<Rightarrow> i387_struct \<Rightarrow> u32" where
  "temp_to_short a f =
    (if tr_exp a AND 0x7fff = 0 then (if tr_exp a \<noteq> 0 then 0x80000000 else 0)
     else
       let b = push_bit 23 (scast (tr_exp a) - 16383 + 127) AND 0x7f800000;
           b = (if sint (tr_exp a) < 0 then b OR 0x80000000 else b);
           b = b OR (drop_bit 8 (tr_b a) AND 0x007fffff)
       in if ROUNDING f = ROUND_NEAREST then (if tr_b a AND 0xff > 0x80 then b + 1 else b)
          else if ROUNDING f = ROUND_DOWN
          then (if tr_exp a AND 0x8000 \<noteq> 0 \<and> tr_b a AND 0xff \<noteq> 0 then b + 1 else b)
          else if ROUNDING f = ROUND_UP
          then (if tr_exp a AND 0x8000 = 0 \<and> tr_b a AND 0xff \<noteq> 0 then b + 1 else b)
          else b)"

definition temp_to_long :: "temp_real \<Rightarrow> i387_struct \<Rightarrow> u32 \<times> u32" where
  "temp_to_long a f =
    (if tr_exp a AND 0x7fff = 0 then (0, if tr_exp a \<noteq> 0 then 0x80000000 else 0)
     else
       let b = push_bit 20 ((0x7fff AND scast (tr_exp a)) - 16383 + 1023) AND 0x7ff00000;
           b = (if sint (tr_exp a) < 0 then b OR 0x80000000 else b);
           b = b OR (drop_bit 11 (tr_b a) AND 0x000fffff);
           lo = push_bit 21 (tr_b a);
           lo = lo OR (drop_bit 11 (tr_a a) AND 0x001fffff)
       in if ROUNDING f = ROUND_NEAREST then (if tr_a a AND 0x7ff > 0x400 then add2 1 0 lo b else (lo, b))
          else if ROUNDING f = ROUND_DOWN
          then (if tr_exp a AND 0x8000 \<noteq> 0 \<and> tr_b a AND 0xff \<noteq> 0 then add2 1 0 lo b else (lo, b))
          else if ROUNDING f = ROUND_UP
          then (if tr_exp a AND 0x8000 = 0 \<and> tr_b a AND 0xff \<noteq> 0 then add2 1 0 lo b else (lo, b))
          else (lo, b))"

text \<open>\<open>u\<close> is the variable \<open>underflow\<close>: the bits shifted out.\<close>

definition real_to_int :: "temp_real \<Rightarrow> i387_struct \<Rightarrow> temp_int \<times> i387_struct" where
  "real_to_int a f =
    (let n = 16383 + 63 - int (unat (tr_exp a AND 0x7fff));
         sg = (if sint (tr_exp a) < 0 then 1 else 0);
         zero = \<lparr>ti_a = 0, ti_b = 0, ti_sign = sg\<rparr>
     in if n < 0 then (zero, set_OE f)
        else if n \<ge> 96 then (zero, f)
        else
          let (u, lo, hi, n) = (if n < 32 then (0, tr_a a, tr_b a, nat n)
                                else if n < 64 then (tr_a a, tr_b a, 0, nat n - 32)
                                else (tr_b a, 0, 0, nat n - 64));
              u = shrd n lo u; lo = shrd n hi lo; hi = drop_bit n hi;
              (lo, hi) =
                (if ROUNDING f = ROUND_NEAREST
                 then (case addc u (0x7fffffff + (lo AND 1)) False of (_, c) \<Rightarrow>
                       case addc lo 0 c of (lo, c) \<Rightarrow> (lo, fst (addc hi 0 c)))
                 else if ROUNDING f = ROUND_UP then (if sg = 0 \<and> u \<noteq> 0 then add2 1 0 lo hi else (lo, hi))
                 else if ROUNDING f = ROUND_DOWN then (if sg \<noteq> 0 \<and> u \<noteq> 0 then add2 1 0 lo hi else (lo, hi))
                 else (lo, hi))
          in (\<lparr>ti_a = lo, ti_b = hi, ti_sign = sg\<rparr>, f))"

definition int_to_real :: "temp_int \<Rightarrow> temp_real" where
  "int_to_real a =
    (if ti_a a \<noteq> 0 \<or> ti_b a \<noteq> 0
     then case norm_left (ti_a a) (ti_b a) (16383 + 63 + (if ti_sign a \<noteq> 0 then 0x8000 else 0)) of
       (lo, hi, e) \<Rightarrow> \<lparr>tr_a = lo, tr_b = hi, tr_exp = e\<rparr>
     else \<lparr>tr_a = ti_a a, tr_b = ti_b a, tr_exp = 0\<rparr>)"

end
