(* ===== verification/Math_Emulator.thy ===== *)
theory Math_Emulator
  imports Fpu_Arith User_Access
begin

section \<open>The coprocessor emulator\<close>

text \<open>
  \<^verbatim>\<open>kernel/math/ea.c\<close>, \<^verbatim>\<open>get_put.c\<close> and \<^verbatim>\<open>math_emulate.c\<close>. The saved user registers, \<^verbatim>\<open>struct info\<close>, are a
  component of the state; the coprocessor's registers are those of the running task, \<^verbatim>\<open>current->tss.i387\<close>.
  \<^verbatim>\<open>math_abort\<close> does not return to its caller: it resets the instruction pointer, posts a signal and leaves
  the emulator, so a function that may abort gives \<open>None\<close>.
\<close>

unbundle bit_operations_syntax

record info =
  ORIG_EIP :: u32
  EAX :: u32
  EBX :: u32
  ECX :: u32
  EDX :: u32
  ESI :: u32
  EDI :: u32
  EBP :: u32
  ESP :: u32
  EIP :: u32
  CS :: u16

record emu_state = kstate +
  info :: info

definition upd_info :: "(info \<Rightarrow> info) \<Rightarrow> emu_state \<Rightarrow> emu_state" where
  "upd_info f s = s\<lparr>info := f (info s)\<rparr>"

definition I387 :: "emu_state \<Rightarrow> i387_struct" where
  "I387 s = tss_i387 (tss (cur s))"

definition upd_i387 :: "(i387_struct \<Rightarrow> i387_struct) \<Rightarrow> emu_state \<Rightarrow> emu_state" where
  "upd_i387 f = upd_cur (\<lambda>t. t\<lparr>tss := (tss t)\<lparr>tss_i387 := f (tss_i387 (tss t))\<rparr>\<rparr>)"

subsection \<open>The register stack\<close>

text \<open>\<^verbatim>\<open>__st\<close>: the register \<open>i\<close> places below the top; ten bytes each.\<close>

definition st_index :: "nat \<Rightarrow> i387_struct \<Rightarrow> nat" where
  "st_index i f = unat ((of_nat i + drop_bit 11 (swd f)) AND 7)"

definition bytes_long :: "(nat \<Rightarrow> u8) \<Rightarrow> nat \<Rightarrow> u32" where
  "bytes_long m k =
    ucast (m k) OR push_bit 8 (ucast (m (k + 1))) OR push_bit 16 (ucast (m (k + 2))) OR push_bit 24 (ucast (m (k + 3)))"

definition long_bytes_at :: "nat \<Rightarrow> u32 \<Rightarrow> (nat \<Rightarrow> u8) \<Rightarrow> nat \<Rightarrow> u8" where
  "long_bytes_at k v m =
    m(k := ucast v, k + 1 := ucast (drop_bit 8 v), k + 2 := ucast (drop_bit 16 v), k + 3 := ucast (drop_bit 24 v))"

definition get_st :: "nat \<Rightarrow> i387_struct \<Rightarrow> temp_real" where
  "get_st i f =
    (let k = 10 * st_index i f in
     \<lparr>tr_a = bytes_long (st_space f) k, tr_b = bytes_long (st_space f) (k + 4),
      tr_exp = ucast (st_space f (k + 8)) OR push_bit 8 (ucast (st_space f (k + 9)))\<rparr>)"

definition put_st :: "nat \<Rightarrow> temp_real \<Rightarrow> i387_struct \<Rightarrow> i387_struct" where
  "put_st i r f =
    (let k = 10 * st_index i f in
     f\<lparr>st_space := (long_bytes_at (k + 4) (tr_b r) (long_bytes_at k (tr_a r) (st_space f)))
        (k + 8 := ucast (tr_exp r), k + 9 := ucast (drop_bit 8 (tr_exp r)))\<rparr>)"

definition fpop :: "i387_struct \<Rightarrow> i387_struct" where
  "fpop f = f\<lparr>swd := ((swd f + 0x0800) AND 0x3800) OR (swd f AND 0xffffc7ff)\<rparr>"

definition fpush :: "i387_struct \<Rightarrow> i387_struct" where
  "fpush f = f\<lparr>swd := ((swd f + 0x3800) AND 0x3800) OR (swd f AND 0xffffc7ff)\<rparr>"

definition fxchg :: "nat \<Rightarrow> nat \<Rightarrow> i387_struct \<Rightarrow> i387_struct" where
  "fxchg i j f = put_st j (get_st i f) (put_st i (get_st j f) f)"

text \<open>\<^verbatim>\<open>ST(i).exponent ^= 0x8000\<close>\<close>

definition chs_real :: "temp_real \<Rightarrow> temp_real" where
  "chs_real r = r\<lparr>tr_exp := tr_exp r XOR 0x8000\<rparr>"

definition chs_st :: "nat \<Rightarrow> i387_struct \<Rightarrow> i387_struct" where
  "chs_st i f = put_st i (chs_real (get_st i f)) f"

text \<open>The constants, of five shorts each.\<close>

definition CONSTZ :: temp_real where "CONSTZ = \<lparr>tr_a = 0, tr_b = 0, tr_exp = 0\<rparr>"
definition CONST1 :: temp_real where "CONST1 = \<lparr>tr_a = 0, tr_b = 0x80000000, tr_exp = 0x3FFF\<rparr>"
definition CONSTPI :: temp_real where "CONSTPI = \<lparr>tr_a = 0x2168C235, tr_b = 0xC90FDAA2, tr_exp = 0x4000\<rparr>"
definition CONSTLN2 :: temp_real where "CONSTLN2 = \<lparr>tr_a = 0xD1CF79AC, tr_b = 0xB17217F7, tr_exp = 0x3FFE\<rparr>"
definition CONSTLG2 :: temp_real where "CONSTLG2 = \<lparr>tr_a = 0xFBCFF799, tr_b = 0x9A209A84, tr_exp = 0x3FFD\<rparr>"
definition CONSTL2E :: temp_real where "CONSTL2E = \<lparr>tr_a = 0x5C17F0BC, tr_b = 0xB8AA3B29, tr_exp = 0x3FFF\<rparr>"
definition CONSTL2T :: temp_real where "CONSTL2T = \<lparr>tr_a = 0xCD1B8AFE, tr_b = 0xD49A784B, tr_exp = 0x4000\<rparr>"

subsection \<open>Aborting\<close>

definition math_abort :: "u32 \<Rightarrow> emu_state \<Rightarrow> emu_state" where
  "math_abort sg s =
    upd_cur (\<lambda>t. t\<lparr>signal := signal t OR sg\<rparr>) (upd_info (\<lambda>r. r\<lparr>EIP := ORIG_EIP r\<rparr>) s)"

definition math_error :: "'a kstate_scheme \<Rightarrow> 'a kstate_scheme" where
  "math_error s =
    (if last_task_used_math s \<noteq> 0
     then upd_task (last_task_used_math s) (\<lambda>t. t\<lparr>signal := signal t OR bit1 (8 - 1)\<rparr>) s else s)"

subsection \<open>Effective addresses\<close>

fun REG :: "nat \<Rightarrow> info \<Rightarrow> u32" where
  "REG x r = [EAX r, ECX r, EDX r, EBX r, ESP r, EBP r, ESI r, EDI r] ! x"

text \<open>\<^verbatim>\<open>get_fs_byte((char *) EIP); EIP++\<close>, and the same for a long.\<close>

definition next_byte :: "emu_state \<Rightarrow> u8 \<times> emu_state" where
  "next_byte s = (get_fs_byte (EIP (info s)) s, upd_info (\<lambda>r. r\<lparr>EIP := EIP r + 1\<rparr>) s)"

definition next_long :: "emu_state \<Rightarrow> u32 \<times> emu_state" where
  "next_long s = (get_fs_long (EIP (info s)) s, upd_info (\<lambda>r. r\<lparr>EIP := EIP r + 4\<rparr>) s)"

definition set_operand :: "u32 \<Rightarrow> emu_state \<Rightarrow> emu_state" where
  "set_operand offset = upd_i387 (\<lambda>f. f\<lparr>foo := offset, fos := 0x17\<rparr>)"

definition sib :: "nat \<Rightarrow> emu_state \<Rightarrow> u32 \<times> emu_state" where
  "sib md s =
    (let (b, s) = next_byte s;
         ss = unat (drop_bit 6 b); index = unat (drop_bit 3 b AND 7); base = unat (b AND 7);
         offset = push_bit ss (if index = 4 then 0 else REG index (info s));
         offset = (if md \<noteq> 0 \<or> base \<noteq> 5 then offset + REG base (info s) else offset);
         (offset, s) =
           (if md = 1 then (case next_byte s of (d, s) \<Rightarrow> (offset + scast d, s))
            else if md = 2 \<or> base = 5 then (case next_long s of (d, s) \<Rightarrow> (offset + d, s))
            else (offset, s))
     in (offset, set_operand offset s))"

definition ea :: "u16 \<Rightarrow> emu_state \<Rightarrow> u32 option \<times> emu_state" where
  "ea code s =
    (let md = unat (drop_bit 6 code AND 3); rm = unat (code AND 7) in
     if rm = 4 \<and> md \<noteq> 3 then (case sib md s of (a, s) \<Rightarrow> (Some a, s))
     else if rm = 5 \<and> md = 0 then (case next_long s of (offset, s) \<Rightarrow> (Some offset, set_operand offset s))
     else if md = 3 then (None, math_abort (bit1 (4 - 1)) s)
     else
       let (offset, s) =
             (if md = 0 then (0, s)
              else if md = 1 then (case next_byte s of (d, s) \<Rightarrow> (scast d, s))
              else next_long s)
       in (Some (offset + REG rm (info s)), set_operand offset s))"

text \<open>An operation on the address, unless the emulator has been left.\<close>

definition with_ea ::
  "u16 \<Rightarrow> (u32 \<Rightarrow> emu_state \<Rightarrow> (emu_state, 'r option) outcome) \<Rightarrow> emu_state \<Rightarrow> (emu_state, 'r option) outcome" where
  "with_ea code k s = (case ea code s of (None, s) \<Rightarrow> Done None s | (Some addr, s) \<Rightarrow> k addr s)"

text \<open>Going on with what a routine gave, unless the emulator has been left.\<close>

definition go_on ::
  "(emu_state, 'a option) outcome \<Rightarrow> ('a \<Rightarrow> emu_state \<Rightarrow> (emu_state, 'r option) outcome) \<Rightarrow>
   (emu_state, 'r option) outcome" where
  "go_on m k = and_then m (\<lambda>r s. case r of None \<Rightarrow> Done None s | Some a \<Rightarrow> k a s)"

subsection \<open>Operands in memory: loads\<close>

definition get_short_real :: "u16 \<Rightarrow> emu_state \<Rightarrow> (emu_state, temp_real option) outcome" where
  "get_short_real code = with_ea code (\<lambda>addr s. Done (Some (short_to_temp (get_fs_long addr s))) s)"

definition get_long_real :: "u16 \<Rightarrow> emu_state \<Rightarrow> (emu_state, temp_real option) outcome" where
  "get_long_real code = with_ea code (\<lambda>addr s.
    Done (Some (long_to_temp (get_fs_long addr s, get_fs_long (addr + 4) s))) s)"

definition get_temp_real :: "u16 \<Rightarrow> emu_state \<Rightarrow> (emu_state, temp_real option) outcome" where
  "get_temp_real code = with_ea code (\<lambda>addr s.
    Done (Some \<lparr>tr_a = get_fs_long addr s, tr_b = get_fs_long (addr + 4) s, tr_exp = get_fs_word (addr + 8) s\<rparr>) s)"

text \<open>An integer of one word and its sign, as a \<open>temp_int\<close>.\<close>

definition int_operand :: "u32 \<Rightarrow> temp_int" where
  "int_operand a = \<lparr>ti_a = (if sint a < 0 then - a else a), ti_b = 0, ti_sign = (if sint a < 0 then 1 else 0)\<rparr>"

definition get_short_int :: "u16 \<Rightarrow> emu_state \<Rightarrow> (emu_state, temp_real option) outcome" where
  "get_short_int code = with_ea code (\<lambda>addr s.
    Done (Some (int_to_real (int_operand (scast (get_fs_word addr s))))) s)"

definition get_long_int :: "u16 \<Rightarrow> emu_state \<Rightarrow> (emu_state, temp_real option) outcome" where
  "get_long_int code = with_ea code (\<lambda>addr s. Done (Some (int_to_real (int_operand (get_fs_long addr s)))) s)"

definition get_longlong_int :: "u16 \<Rightarrow> emu_state \<Rightarrow> (emu_state, temp_real option) outcome" where
  "get_longlong_int code = with_ea code (\<lambda>addr s.
    let a = get_fs_long addr s; b = get_fs_long (addr + 4) s;
        (a', b') = (if sint b < 0 then NEGINT a b else (a, b))
    in Done (Some (int_to_real \<lparr>ti_a = a', ti_b = b', ti_sign = (if sint b < 0 then 1 else 0)\<rparr>)) s)"

definition MUL10 :: "u32 \<times> u32 \<Rightarrow> u32 \<times> u32" where
  "MUL10 v =
    (let (lo, hi) = v;
         (cx, bx) = add2 lo hi lo hi;
         (lo, hi) = add2 cx bx cx bx;
         (lo, hi) = add2 lo hi lo hi
     in add2 cx bx lo hi)"

definition ADD64 :: "u32 \<Rightarrow> u32 \<times> u32 \<Rightarrow> u32 \<times> u32" where
  "ADD64 val v = add2 val 0 (fst v) (snd v)"

text \<open>The loop of \<open>get_BCD\<close>: nine bytes of two digits, the highest address first.\<close>

definition bcd_byte :: "u8 \<Rightarrow> u32 \<times> u32 \<Rightarrow> u32 \<times> u32" where
  "bcd_byte c v = ADD64 (ucast (c AND 0xf)) (MUL10 (ADD64 (ucast (drop_bit 4 c)) (MUL10 v)))"

definition bcd_read :: "u32 \<Rightarrow> 'a kstate_scheme \<Rightarrow> temp_int" where
  "bcd_read addr s =
    (let (a, b) = fold (\<lambda>k. bcd_byte (get_fs_byte (addr + of_nat (8 - k)) s)) [0..<9] (0, 0)
     in \<lparr>ti_a = a, ti_b = b, ti_sign = 0x80 AND ucast (get_fs_byte (addr + 9) s)\<rparr>)"

definition get_BCD :: "u16 \<Rightarrow> emu_state \<Rightarrow> (emu_state, temp_real option) outcome" where
  "get_BCD code = with_ea code (\<lambda>addr s. Done (Some (int_to_real (bcd_read addr s))) s)"

subsection \<open>Operands in memory: stores\<close>

text \<open>The value stored is \<^verbatim>\<open>PST(0)\<close>, the top of the register stack.\<close>

definition put_short_real :: "u16 \<Rightarrow> emu_state \<Rightarrow> (emu_state, unit option) outcome" where
  "put_short_real code = with_ea code (\<lambda>addr s.
    and_then (verify_area addr 4 s) (\<lambda>_ s.
      Done (Some ()) (put_fs_long (temp_to_short (get_st 0 (I387 s)) (I387 s)) addr s)))"

definition put_long_real :: "u16 \<Rightarrow> emu_state \<Rightarrow> (emu_state, unit option) outcome" where
  "put_long_real code = with_ea code (\<lambda>addr s.
    and_then (verify_area addr 8 s) (\<lambda>_ s.
      case temp_to_long (get_st 0 (I387 s)) (I387 s) of
        (a, b) \<Rightarrow> Done (Some ()) (put_fs_long b (addr + 4) (put_fs_long a addr s))))"

definition put_temp_real :: "u16 \<Rightarrow> emu_state \<Rightarrow> (emu_state, unit option) outcome" where
  "put_temp_real code = with_ea code (\<lambda>addr s.
    and_then (verify_area addr 10 s) (\<lambda>_ s.
      let r = get_st 0 (I387 s)
      in Done (Some ()) (put_fs_word (tr_exp r) (addr + 8) (put_fs_long (tr_b r) (addr + 4) (put_fs_long (tr_a r) addr s)))))"

text \<open>\<open>real_to_int\<close> on the top of the stack; it may signal an overflow.\<close>

definition top_to_int :: "emu_state \<Rightarrow> temp_int \<times> emu_state" where
  "top_to_int s = (case real_to_int (get_st 0 (I387 s)) (I387 s) of (ti, f) \<Rightarrow> (ti, upd_i387 (\<lambda>_. f) s))"

definition put_short_int :: "u16 \<Rightarrow> emu_state \<Rightarrow> (emu_state, unit option) outcome" where
  "put_short_int code = with_ea code (\<lambda>addr s. case top_to_int s of (ti, s) \<Rightarrow>
    and_then (verify_area addr 2 s) (\<lambda>_ s.
      Done (Some ()) (put_fs_word (ucast (if ti_sign ti \<noteq> 0 then - ti_a ti else ti_a ti)) addr s)))"

definition put_long_int :: "u16 \<Rightarrow> emu_state \<Rightarrow> (emu_state, unit option) outcome" where
  "put_long_int code = with_ea code (\<lambda>addr s. case top_to_int s of (ti, s) \<Rightarrow>
    and_then (verify_area addr 4 s) (\<lambda>_ s.
      Done (Some ()) (put_fs_long (if ti_sign ti \<noteq> 0 then - ti_a ti else ti_a ti) addr s)))"

definition put_longlong_int :: "u16 \<Rightarrow> emu_state \<Rightarrow> (emu_state, unit option) outcome" where
  "put_longlong_int code = with_ea code (\<lambda>addr s. case top_to_int s of (ti, s) \<Rightarrow>
    and_then (verify_area addr 8 s) (\<lambda>_ s.
      let (a, b) = (if ti_sign ti \<noteq> 0 then NEGINT (ti_a ti) (ti_b ti) else (ti_a ti, ti_b ti))
      in Done (Some ()) (put_fs_long b (addr + 4) (put_fs_long a addr s))))"

text \<open>\<^verbatim>\<open>divl\<close> twice: the quotient's two words and the remainder.\<close>

definition DIV10 :: "u32 \<times> u32 \<Rightarrow> u32 \<times> u32 \<times> u32" where
  "DIV10 v =
    (let (lo, hi) = v; r = unat hi mod 10; x = r * 2 ^ 32 + unat lo
     in (of_nat (x div 10), hi div 10, of_nat (x mod 10)))"

text \<open>One turn of the loop of \<open>put_BCD\<close>: two digits.\<close>

definition bcd_digits :: "u32 \<times> u32 \<Rightarrow> u8 \<times> u32 \<times> u32" where
  "bcd_digits v =
    (let (lo, hi, r) = DIV10 v; c = ucast r; (lo, hi, r) = DIV10 (lo, hi)
     in (c + ucast (push_bit 4 r), lo, hi))"

fun bcd_write :: "nat \<Rightarrow> u32 \<times> u32 \<Rightarrow> u32 \<Rightarrow> 'a kstate_scheme \<Rightarrow> 'a kstate_scheme" where
  "bcd_write 0 v addr s = s"
| "bcd_write (Suc k) v addr s = (case bcd_digits v of (c, v) \<Rightarrow> bcd_write k v (addr + 1) (put_fs_byte c addr s))"

definition put_BCD :: "u16 \<Rightarrow> emu_state \<Rightarrow> (emu_state, unit option) outcome" where
  "put_BCD code = with_ea code (\<lambda>addr s.
    and_then (verify_area addr 10 s) (\<lambda>_ s.
      case top_to_int s of (ti, s) \<Rightarrow>
        Done (Some ()) (bcd_write 9 (ti_a ti, ti_b ti) addr
          (put_fs_byte (if ti_sign ti \<noteq> 0 then 0x80 else 0) (addr + 9) s))))"

subsection \<open>Instructions\<close>

definition abort_with :: "nat \<Rightarrow> emu_state \<Rightarrow> (emu_state, 'r option) outcome" where
  "abort_with sig s = Done None (math_abort (bit1 (sig - 1)) s)"

text \<open>An instruction that only works on the coprocessor's registers and always returns.\<close>

definition on_fpu :: "(i387_struct \<Rightarrow> i387_struct) \<Rightarrow> emu_state \<Rightarrow> (emu_state, unit option) outcome" where
  "on_fpu f s = Done (Some ()) (upd_i387 f s)"

definition push_real :: "temp_real \<Rightarrow> i387_struct \<Rightarrow> i387_struct" where
  "push_real r f = put_st 0 r (fpush f)"

definition fninit :: "i387_struct \<Rightarrow> i387_struct" where
  "fninit f = f\<lparr>cwd := 0x037f, swd := 0, twd := 0\<rparr>"

text \<open>The first \<^verbatim>\<open>switch\<close> of \<open>do_emu\<close>; \<open>None\<close> is to go on behind it.\<close>

definition emu_fixed :: "u16 \<Rightarrow> (emu_state \<Rightarrow> (emu_state, unit option) outcome) option" where
  "emu_fixed code =
    (if code = 0x1d0 then Some (on_fpu id)
     else if 0x1d1 \<le> code \<and> code \<le> 0x1d7 then Some (abort_with 4)
     else if code = 0x1e0 then Some (on_fpu (chs_st 0))
     else if code = 0x1e1 then Some (on_fpu (\<lambda>f. put_st 0 ((get_st 0 f)\<lparr>tr_exp := tr_exp (get_st 0 f) AND 0x7fff\<rparr>) f))
     else if code = 0x1e2 \<or> code = 0x1e3 then Some (abort_with 4)
     else if code = 0x1e4 then Some (on_fpu (\<lambda>f. ftst (get_st 0 f) f))
     else if code = 0x1e5 then Some (abort_with 4)
     else if code = 0x1e6 \<or> code = 0x1e7 then Some (abort_with 4)
     else if code = 0x1e8 then Some (on_fpu (push_real CONST1))
     else if code = 0x1e9 then Some (on_fpu (push_real CONSTL2T))
     else if code = 0x1ea then Some (on_fpu (push_real CONSTL2E))
     else if code = 0x1eb then Some (on_fpu (push_real CONSTPI))
     else if code = 0x1ec then Some (on_fpu (push_real CONSTLG2))
     else if code = 0x1ed then Some (on_fpu (push_real CONSTLN2))
     else if code = 0x1ee then Some (on_fpu (push_real CONSTZ))
     else if code = 0x1ef then Some (abort_with 4)
     else if 0x1f0 \<le> code \<and> code \<le> 0x1ff then Some (abort_with 4)
     else if code = 0x2e9 then Some (on_fpu (\<lambda>f. fpop (fpop (fucom (get_st 1 f) (get_st 0 f) f))))
     else if code = 0x3d0 \<or> code = 0x3d1 then Some (on_fpu id)
     else if code = 0x3e2 then Some (on_fpu (\<lambda>f. f\<lparr>swd := swd f AND 0x7f00\<rparr>))
     else if code = 0x3e3 then Some (on_fpu fninit)
     else if code = 0x3e4 then Some (on_fpu id)
     else if code = 0x6d9 then Some (on_fpu (\<lambda>f. fpop (fpop (fcom (get_st 1 f) (get_st 0 f) f))))
     else if code = 0x7e0
     then Some (\<lambda>s. Done (Some ()) (upd_info (\<lambda>r. r\<lparr>EAX := (EAX r AND 0xffff0000) OR (swd (I387 s) AND 0xffff)\<rparr>) s))
     else None)"

text \<open>
  \<open>op(PST(i),PST(j),&tmp); real_to_real(&tmp,&ST(k))\<close>, for the operations that set flags and may leave
  \<open>tmp\<close> as it was. The variable \<open>tmp\<close> of \<open>do_emu\<close> is not initialised: \<open>tmp\<close> is what the stack held.
\<close>

definition st_add :: "nat \<Rightarrow> nat \<Rightarrow> nat \<Rightarrow> i387_struct \<Rightarrow> i387_struct" where
  "st_add i j k f = put_st k (fadd (get_st i f) (get_st j f)) f"

definition st_mul :: "temp_real \<Rightarrow> nat \<Rightarrow> nat \<Rightarrow> nat \<Rightarrow> i387_struct \<Rightarrow> i387_struct" where
  "st_mul tmp i j k f = (case fmul (get_st i f) (get_st j f) tmp f of (r, f) \<Rightarrow> put_st k r f)"

definition st_div :: "temp_real \<Rightarrow> nat \<Rightarrow> nat \<Rightarrow> nat \<Rightarrow> i387_struct \<Rightarrow> i387_struct" where
  "st_div tmp i j k f = (case fdiv (get_st i f) (get_st j f) tmp f of (r, f) \<Rightarrow> put_st k r f)"

text \<open>\<open>real_to_real(&ST(j),&tmp); tmp.exponent ^= 0x8000; fadd(PST(i),&tmp,&tmp); real_to_real(&tmp,&ST(k))\<close>\<close>

definition st_sub :: "nat \<Rightarrow> nat \<Rightarrow> nat \<Rightarrow> i387_struct \<Rightarrow> i387_struct" where
  "st_sub i j k f = put_st k (fadd (get_st i f) (chs_real (get_st j f))) f"

text \<open>The second \<^verbatim>\<open>switch\<close>: instructions on a register \<open>i\<close>, by the upper bits of their code.\<close>

definition emu_register ::
  "temp_real \<Rightarrow> u16 \<Rightarrow> nat \<Rightarrow> (emu_state \<Rightarrow> (emu_state, unit option) outcome) option" where
  "emu_register tmp op i =
    (if op = 0x18 then Some (on_fpu (st_add 0 i 0))
     else if op = 0x19 then Some (on_fpu (st_mul tmp 0 i 0))
     else if op = 0x1a then Some (on_fpu (\<lambda>f. put_st 0 tmp (fcom (get_st i f) tmp f)))
     else if op = 0x1b then Some (on_fpu (\<lambda>f. fpop (put_st 0 tmp (fcom (get_st i f) tmp f))))
     else if op = 0x1c then Some (on_fpu (st_sub 0 i 0))
     else if op = 0x1d then Some (on_fpu (\<lambda>f. st_add 0 i 0 (chs_st 0 f)))
     else if op = 0x1e then Some (on_fpu (st_div tmp 0 i 0))
     else if op = 0x1f then Some (on_fpu (st_div tmp i 0 0))
     else if op = 0x38 then Some (on_fpu (\<lambda>f. let f = fpush f in put_st 0 (get_st (i + 1) f) f))
     else if op = 0x39 then Some (on_fpu (fxchg 0 i))
     else if op = 0x3b then Some (on_fpu (\<lambda>f. fpop (put_st i (get_st 0 f) f)))
     else if op = 0x98 then Some (on_fpu (st_add 0 i i))
     else if op = 0x99 then Some (on_fpu (st_mul tmp 0 i i))
     else if op = 0x9a then Some (on_fpu (\<lambda>f. fcom (get_st i f) (get_st 0 f) f))
     else if op = 0x9b then Some (on_fpu (\<lambda>f. fpop (fcom (get_st i f) (get_st 0 f) f)))
     else if op = 0x9c then Some (on_fpu (\<lambda>f. st_add 0 i i (chs_st i f)))
     else if op = 0x9d then Some (on_fpu (st_sub i 0 i))
     else if op = 0x9e then Some (on_fpu (st_div tmp 0 i i))
     else if op = 0x9f then Some (on_fpu (st_div tmp i 0 i))
     else if op = 0xb8 then Some (abort_with 4)
     else if op = 0xb9 then Some (on_fpu (fxchg 0 i))
     else if op = 0xba then Some (on_fpu (\<lambda>f. put_st i (get_st 0 f) f))
     else if op = 0xbb then Some (on_fpu (\<lambda>f. fpop (put_st i (get_st 0 f) f)))
     else if op = 0xbc then Some (on_fpu (\<lambda>f. fucom (get_st i f) (get_st 0 f) f))
     else if op = 0xbd then Some (on_fpu (\<lambda>f. fpop (fucom (get_st i f) (get_st 0 f) f)))
     else if op = 0xd8 then Some (on_fpu (\<lambda>f. fpop (st_add i 0 i f)))
     else if op = 0xd9 then Some (on_fpu (\<lambda>f. fpop (st_mul tmp i 0 i f)))
     else if op = 0xda then Some (on_fpu (\<lambda>f. fpop (fcom (get_st i f) (get_st 0 f) f)))
     else if op = 0xdc then Some (on_fpu (\<lambda>f. fpop (st_add 0 i i (chs_st i f))))
     else if op = 0xdd then Some (on_fpu (\<lambda>f. fpop (st_sub i 0 i f)))
     else if op = 0xde then Some (on_fpu (\<lambda>f. fpop (st_div tmp 0 i i f)))
     else if op = 0xdf then Some (on_fpu (\<lambda>f. fpop (st_div tmp i 0 i f)))
     else if op = 0xf8 then Some (abort_with 4)
     else if op = 0xf9 then Some (on_fpu (fxchg 0 i))
     else if op = 0xfa \<or> op = 0xfb then Some (on_fpu (\<lambda>f. fpop (put_st i (get_st 0 f) f)))
     else None)"

text \<open>\<^verbatim>\<open>((long *) & I387)[j]\<close>\<close>

definition i387_long :: "nat \<Rightarrow> i387_struct \<Rightarrow> u32" where
  "i387_long j f =
    (if j = 0 then cwd f else if j = 1 then swd f else if j = 2 then twd f else if j = 3 then fip f
     else if j = 4 then fcs f else if j = 5 then foo f else if j = 6 then fos f
     else bytes_long (st_space f) (4 * (j - 7)))"

definition set_i387_long :: "nat \<Rightarrow> u32 \<Rightarrow> i387_struct \<Rightarrow> i387_struct" where
  "set_i387_long j v f =
    (if j = 0 then f\<lparr>cwd := v\<rparr> else if j = 1 then f\<lparr>swd := v\<rparr> else if j = 2 then f\<lparr>twd := v\<rparr>
     else if j = 3 then f\<lparr>fip := v\<rparr> else if j = 4 then f\<lparr>fcs := v\<rparr> else if j = 5 then f\<lparr>foo := v\<rparr>
     else if j = 6 then f\<lparr>fos := v\<rparr>
     else f\<lparr>st_space := long_bytes_at (4 * (j - 7)) v (st_space f)\<rparr>)"

text \<open>The loops that load and store \<open>n\<close> longs of the coprocessor's state.\<close>

definition load_i387 :: "nat \<Rightarrow> u32 \<Rightarrow> emu_state \<Rightarrow> emu_state" where
  "load_i387 n addr s =
    fold (\<lambda>j s. upd_i387 (set_i387_long j (get_fs_long (addr + 4 * of_nat j) s)) s) [0..<n] s"

definition store_i387 :: "nat \<Rightarrow> u32 \<Rightarrow> emu_state \<Rightarrow> emu_state" where
  "store_i387 n addr s = fold (\<lambda>j s. put_fs_long (i387_long j (I387 s)) (addr + 4 * of_nat j) s) [0..<n] s"

definition pop_after :: "(emu_state, unit option) outcome \<Rightarrow> (emu_state, unit option) outcome" where
  "pop_after m = go_on m (\<lambda>_. on_fpu fpop)"

definition push_before :: "(emu_state \<Rightarrow> (emu_state, temp_real option) outcome) \<Rightarrow> emu_state \<Rightarrow> (emu_state, unit option) outcome" where
  "push_before get s = go_on (get (upd_i387 fpush s)) (\<lambda>r. on_fpu (put_st 0 r))"

text \<open>The third \<^verbatim>\<open>switch\<close>: instructions with an operand in memory that are not arithmetic.\<close>

definition emu_memory :: "u16 \<Rightarrow> u16 \<Rightarrow> (emu_state \<Rightarrow> (emu_state, unit option) outcome) option" where
  "emu_memory op code =
    (if op = 0x22 then Some (put_short_real code)
     else if op = 0x23 then Some (\<lambda>s. pop_after (put_short_real code s))
     else if op = 0x24 then Some (with_ea code (\<lambda>addr s. Done (Some ()) (load_i387 7 addr s)))
     else if op = 0x25
     then Some (with_ea code (\<lambda>addr s. on_fpu (\<lambda>f. f\<lparr>cwd := (cwd f AND 0xffff0000) OR ucast (get_fs_word addr s)\<rparr>) s))
     else if op = 0x26
     then Some (with_ea code (\<lambda>addr s. and_then (verify_area addr 28 s) (\<lambda>_ s. Done (Some ()) (store_i387 7 addr s))))
     else if op = 0x27
     then Some (with_ea code (\<lambda>addr s. and_then (verify_area addr 2 s) (\<lambda>_ s.
       Done (Some ()) (put_fs_word (ucast (cwd (I387 s))) addr s))))
     else if op = 0x62 then Some (put_long_int code)
     else if op = 0x63 then Some (\<lambda>s. pop_after (put_long_int code s))
     else if op = 0x65 then Some (push_before (get_temp_real code))
     else if op = 0x67 then Some (\<lambda>s. pop_after (put_temp_real code s))
     else if op = 0xa2 then Some (put_long_real code)
     else if op = 0xa3 then Some (\<lambda>s. pop_after (put_long_real code s))
     else if op = 0xa4 then Some (with_ea code (\<lambda>addr s. Done (Some ()) (load_i387 27 addr s)))
     else if op = 0xa6
     then Some (with_ea code (\<lambda>addr s. and_then (verify_area addr 108 s) (\<lambda>_ s.
       on_fpu fninit (store_i387 27 addr s))))
     else if op = 0xa7
     then Some (with_ea code (\<lambda>addr s. and_then (verify_area addr 2 s) (\<lambda>_ s.
       Done (Some ()) (put_fs_word (ucast (swd (I387 s))) addr s))))
     else if op = 0xe2 then Some (put_short_int code)
     else if op = 0xe3 then Some (\<lambda>s. pop_after (put_short_int code s))
     else if op = 0xe4 then Some (push_before (get_BCD code))
     else if op = 0xe5 then Some (push_before (get_longlong_int code))
     else if op = 0xe6 then Some (\<lambda>s. pop_after (put_BCD code s))
     else if op = 0xe7 then Some (\<lambda>s. pop_after (put_longlong_int code s))
     else None)"

text \<open>The fourth \<^verbatim>\<open>switch\<close> loads the operand of an arithmetic instruction; its last case is never reached.\<close>

definition emu_operand :: "temp_real \<Rightarrow> u16 \<Rightarrow> emu_state \<Rightarrow> (emu_state, temp_real option) outcome" where
  "emu_operand tmp code =
    (let fmt = drop_bit 9 code in
     if fmt = 0 then get_short_real code
     else if fmt = 1 then get_long_int code
     else if fmt = 2 then get_long_real code
     else if fmt = 4 then get_short_int code
     else (\<lambda>s. Done (Some tmp) s))"

text \<open>The last \<^verbatim>\<open>switch\<close> and what follows it.\<close>

definition emu_arith :: "u16 \<Rightarrow> temp_real \<Rightarrow> emu_state \<Rightarrow> (emu_state, unit option) outcome" where
  "emu_arith code tmp =
    (let op = drop_bit 3 code AND 0x27 in
     if op = 0 then on_fpu (\<lambda>f. put_st 0 (fadd tmp (get_st 0 f)) f)
     else if op = 1 then on_fpu (\<lambda>f. case fmul tmp (get_st 0 f) tmp f of (r, f) \<Rightarrow> put_st 0 r f)
     else if op = 2 then on_fpu (\<lambda>f. fcom tmp (get_st 0 f) f)
     else if op = 3 then on_fpu (\<lambda>f. fpop (fcom tmp (get_st 0 f) f))
     else if op = 4 then on_fpu (\<lambda>f. put_st 0 (fadd (chs_real tmp) (get_st 0 f)) f)
     else if op = 5 then on_fpu (\<lambda>f. let f = chs_st 0 f in put_st 0 (fadd tmp (get_st 0 f)) f)
     else if op = 6 then on_fpu (\<lambda>f. case fdiv (get_st 0 f) tmp tmp f of (r, f) \<Rightarrow> put_st 0 r f)
     else if op = 7 then on_fpu (\<lambda>f. case fdiv tmp (get_st 0 f) tmp f of (r, f) \<Rightarrow> put_st 0 r f)
     else if code AND 0x138 = 0x100 then on_fpu (push_real tmp)
     else abort_with 8)"

definition emu_switch :: "temp_real \<Rightarrow> u16 \<Rightarrow> emu_state \<Rightarrow> (emu_state, unit option) outcome" where
  "emu_switch tmp code s =
    (case emu_fixed code of Some f \<Rightarrow> f s
     | None \<Rightarrow> (case emu_register tmp (drop_bit 3 code) (unat (code AND 7)) of Some f \<Rightarrow> f s
     | None \<Rightarrow> (case emu_memory (drop_bit 3 code AND 0xe7) code of Some f \<Rightarrow> f s
     | None \<Rightarrow> go_on (emu_operand tmp code s) (emu_arith code))))"

definition bswapw :: "u16 \<Rightarrow> u16" where
  "bswapw x = drop_bit 8 x OR push_bit 8 x"

definition do_emu :: "temp_real \<Rightarrow> emu_state \<Rightarrow> (emu_state, unit option) outcome" where
  "do_emu tmp s =
    (let s = upd_i387 (\<lambda>f. if cwd f AND swd f AND 0x3f \<noteq> 0 then f\<lparr>swd := swd f OR 0x8000\<rparr>
                            else f\<lparr>swd := swd f AND 0x7fff\<rparr>) s;
         s = upd_info (\<lambda>r. r\<lparr>ORIG_EIP := EIP r\<rparr>) s
     in if CS (info s) \<noteq> 0x000F then Panics ''Math emulation needed in kernel''
        else
          let code = bswapw (get_fs_word (EIP (info s)) s) AND 0x7ff;
              s = upd_i387 (\<lambda>f. f\<lparr>fip := EIP (info s), fcs := ucast (CS (info s)) OR push_bit 16 (ucast code)\<rparr>) s;
              s = upd_info (\<lambda>r. r\<lparr>EIP := EIP r + 2\<rparr>) s
          in emu_switch tmp code s)"

definition math_emulate :: "temp_real \<Rightarrow> emu_state \<Rightarrow> (emu_state, unit option) outcome" where
  "math_emulate tmp s =
    do_emu tmp (if used_math (cur s) = 0 then upd_i387 fninit (upd_cur (\<lambda>t. t\<lparr>used_math := 1\<rparr>) s) else s)"

end
