(* ===== verification/Fpu_Props.thy ===== *)
theory Fpu_Props
  imports Fpu_Arith
begin

section \<open>The arithmetic of temporary reals is right\<close>

text \<open>
  What the routines of \<open>Fpu_Arith\<close> compute, as numbers: multiplication and division give the exact result
  cut off, addition and comparison are exact when no bit is shifted out, and the conversions lose nothing
  where nothing need be lost.
\<close>

unbundle bit_operations_syntax

subsection \<open>What the multiple-word routines compute\<close>

definition mant :: "temp_real \<Rightarrow> nat" where
  "mant r = val2 (tr_a r) (tr_b r)"

lemma mull_val: "mull x y = (l, h) \<Longrightarrow> val2 l h = unat x * unat y"
proof -
  assume "mull x y = (l, h)"
  then have l: "l = x * y" and h: "h = of_nat (unat x * unat y div 2 ^ 32)" by (simp_all add: mull_def)
  have "unat x * unat y < 2 ^ 32 * 2 ^ 32"
    using unat_u32_less[of x] unat_u32_less[of y] by (intro mult_strict_mono) simp_all
  then have "unat x * unat y div 2 ^ 32 < 2 ^ 32" by (simp add: less_mult_imp_div_less)
  then have "unat h = unat x * unat y div 2 ^ 32" unfolding h by (simp add: unat_of_nat)
  moreover have "unat l = unat x * unat y mod 2 ^ 32" unfolding l by (simp add: unat_word_ariths)
  ultimately show ?thesis unfolding val2_def by (metis mod_mult_div_eq)
qed

lemma add_at_1_val:
  assumes "qval (c0, c1, c2, c3) + 2 ^ 32 * val2 lo hi < 2 ^ 128"
  shows "qval (add_at_1 (lo, hi) (c0, c1, c2, c3)) = qval (c0, c1, c2, c3) + 2 ^ 32 * val2 lo hi"
proof -
  obtain v1 k1 where 1: "addc c1 lo False = (v1, k1)" by fastforce
  obtain v2 k2 where 2: "addc c2 hi k1 = (v2, k2)" by fastforce
  obtain v3 k3 where 3: "addc c3 0 k2 = (v3, k3)" by fastforce
  note v = addc_val[OF 1] addc_val[OF 2] addc_val[OF 3]
  have e: "qval (c0, v1, v2, v3) + 2 ^ 128 * of_bool k3 = qval (c0, c1, c2, c3) + 2 ^ 32 * val2 lo hi"
    using v by (simp add: val2_def)
  then have "\<not> k3" using assms by (cases k3) simp_all
  then show ?thesis using e by (simp add: 1 2 3)
qed

lemma mul64_val: "qval (mul64 a b) = mant a * mant b"
proof -
  obtain c0 c1 where p: "mull (tr_a a) (tr_a b) = (c0, c1)" by fastforce
  obtain c2 c3 where q: "mull (tr_b a) (tr_b b) = (c2, c3)" by fastforce
  obtain l h where m: "mull (tr_a a) (tr_b b) = (l, h)" by fastforce
  obtain l' h' where n: "mull (tr_b a) (tr_a b) = (l', h')" by fastforce
  note v = mull_val[OF p] mull_val[OF q] mull_val[OF m] mull_val[OF n]
  have prod: "mant a * mant b = qval (c0, c1, c2, c3) + 2 ^ 32 * val2 l h + 2 ^ 32 * val2 l' h'"
    by (simp add: mant_def val2_def[of "tr_a a"] val2_def[of "tr_a b"] v algebra_simps)
  have "mant a * mant b < 2 ^ 64 * 2 ^ 64"
    unfolding mant_def
    using val2_less[of "tr_a a" "tr_b a"] val2_less[of "tr_a b" "tr_b b"] by (intro mult_strict_mono) simp_all
  then have lt: "qval (c0, c1, c2, c3) + 2 ^ 32 * val2 l h + 2 ^ 32 * val2 l' h' < 2 ^ 128"
    using prod by simp
  obtain d0 d1 d2 d3 where d: "add_at_1 (l, h) (c0, c1, c2, c3) = (d0, d1, d2, d3)"
    by (metis prod_cases4)
  have "qval (d0, d1, d2, d3) = qval (c0, c1, c2, c3) + 2 ^ 32 * val2 l h"
    using add_at_1_val[of c0 c1 c2 c3 l h] lt unfolding d by linarith
  then show ?thesis
    using add_at_1_val[of d0 d1 d2 d3 l' h'] lt
    unfolding mul64_def p q m n prod.case d prod by linarith
qed

lemma sint_neg_qval: "sint w3 < 0 \<longleftrightarrow> 2 ^ 127 \<le> qval (w0, w1, w2, w3)"
  using val2_less[of w0 w1] by (auto simp: sint_neg_val2[of w3 w2])

lemma shift_up_val:
  assumes "shift_up i q = (j, p)"
  shows "j \<le> i \<and> qval p = 2 ^ (i - j) * qval q \<and> (j = 0 \<or> 2 ^ 127 \<le> qval p)"
  using assms
proof (induction i q arbitrary: rule: shift_up.induct)
  case (2 i w0 w1 w2 w3)
  show ?case
  proof (cases "sint w3 < 0")
    case True
    then show ?thesis using 2(2) sint_neg_qval[of w3 w0 w1 w2] by (auto simp del: qval.simps)
  next
    case False
    have "shift_up i (shift_left (w0, w1, w2, w3)) = (j, p)"
      using 2(2) False by (simp del: shift_left.simps)
    then have "j \<le> i \<and> qval p = 2 ^ (i - j) * qval (shift_left (w0, w1, w2, w3)) \<and> (j = 0 \<or> 2 ^ 127 \<le> qval p)"
      using 2(1)[OF False] by blast
    moreover from this have "qval p = 2 ^ (Suc i - j) * qval (w0, w1, w2, w3)"
      by (simp only: shift_left_val[OF False] Suc_diff_le power_Suc ac_simps)
    ultimately show ?thesis using le_SucI by blast
  qed
qed simp


text \<open>The sign and the 15 bits of the exponent.\<close>

lemma bit_16_masks:
  "bit (0x7fff :: u16) k \<longleftrightarrow> k < 15" "bit (0x8000 :: u16) k \<longleftrightarrow> k = 15"
proof -
  have m: "(0x7fff :: u16) = mask 15" "(0x8000 :: u16) = push_bit 15 1"
    by (simp_all add: mask_eq_exp_minus_1 push_bit_eq_mult)
  show "bit (0x7fff :: u16) k \<longleftrightarrow> k < 15" unfolding m by (auto simp: bit_mask_iff)
  show "bit (0x8000 :: u16) k \<longleftrightarrow> k = 15"
    unfolding m by (auto simp only: bit_push_bit_iff bit_1_iff) auto
qed

lemma bit_of_nat_15:
  assumes "n \<le> 0x7fff"
  shows "bit (of_nat n :: u16) k \<Longrightarrow> k < 15"
proof -
  have "take_bit 15 (of_nat n :: u16) = of_nat n"
    using assms by (simp add: take_bit_of_nat take_bit_nat_eq_self)
  then show "bit (of_nat n :: u16) k \<Longrightarrow> k < 15" by (metis bit_take_bit_iff)
qed

lemma exp_sign:
  assumes "n \<le> 0x7fff"
  shows "unat ((of_nat n OR (e AND 0x8000)) AND 0x7fff :: u16) = n"
    "(of_nat n OR (e AND 0x8000)) AND 0x8000 = (e AND 0x8000 :: u16)"
proof -
  note b = bit_or_iff bit_and_iff bit_16_masks
  have "(of_nat n OR (e AND 0x8000)) AND 0x7fff = (of_nat n :: u16)"
    by (rule bit_word_eqI) (use bit_of_nat_15[OF assms] in \<open>unfold b, auto\<close>)
  then show "unat ((of_nat n OR (e AND 0x8000)) AND 0x7fff :: u16) = n"
    using assms by (simp add: unat_of_nat)
  show "(of_nat n OR (e AND 0x8000)) AND 0x8000 = (e AND 0x8000 :: u16)"
    by (rule bit_word_eqI) (use bit_of_nat_15[OF assms] in \<open>unfold b, auto\<close>)
qed

text \<open>Exponent field, sign.\<close>

definition expo :: "temp_real \<Rightarrow> nat" where
  "expo r = unat (tr_exp r AND 0x7fff)"

definition negative :: "temp_real \<Rightarrow> bool" where
  "negative r \<longleftrightarrow> sint (tr_exp r) < 0"

lemma negative_iff: "negative z \<longleftrightarrow> bit (tr_exp z AND 0x8000) 15"
  by (simp add: negative_def sint_neg_bit bit_and_iff)

definition normal :: "temp_real \<Rightarrow> bool" where
  "normal r \<longleftrightarrow> 2 ^ 63 \<le> mant r"

text \<open>
  C37. The product of two normalised numbers whose biased exponents add up to at least 16383 and at most 49149, so that
  neither underflow nor overflow is near, is the exact product of their mantissas, cut off after 64 bits,
  with the exponent and the sign that go with it: the error is less than one unit in the last place.
\<close>

theorem fmul_truncates:
  assumes n: "normal x" "normal y"
    and e: "16383 \<le> expo x + expo y" "expo x + expo y \<le> 0x7fff + 16382"
  shows "\<exists>r. fmul x y old f = (r, f) \<and> normal r \<and> (negative r \<longleftrightarrow> negative x \<noteq> negative y) \<and>
    (if 2 ^ 127 \<le> mant x * mant y
     then mant r = mant x * mant y div 2 ^ 64 \<and> expo r + 16382 = expo x + expo y
     else mant r = mant x * mant y div 2 ^ 63 \<and> expo r + 16383 = expo x + expo y)"
proof -
  have lt: "mant x * mant y \<ge> 2 ^ 126"
    using n mult_mono[of "2 ^ 63" "mant x" "2 ^ 63" "mant y"] by (simp add: normal_def)
  obtain w0 w1 w2 w3 where q: "mul64 x y = (w0, w1, w2, w3)" by (metis prod_cases4)
  have qv: "qval (w0, w1, w2, w3) = mant x * mant y" using mul64_val[of x y] q by simp
  have nz: "(w0, w1, w2, w3) \<noteq> (0, 0, 0, 0)" using qv lt by (auto simp: val2_def)
  define i where "i = expo x + expo y - 16382"
  have i: "int (unat (tr_exp x AND 0x7fff)) + int (unat (tr_exp y AND 0x7fff)) - 16383 + 1 = int i"
    "0 < i" "i \<le> 0x7fff"
    using e unfolding i_def expo_def by linarith+
  define sg where "sg = (tr_exp x XOR tr_exp y) AND 0x8000"
  obtain j t0 t1 t2 t3 where s: "shift_up i (w0, w1, w2, w3) = (j, t0, t1, t2, t3)" by (metis prod_cases5)
  note sv = shift_up_val[OF s]
  define r where "r = \<lparr>tr_a = t2, tr_b = t3, tr_exp = of_nat j OR sg\<rparr>"
  have f: "fmul x y old f = (r, f)"
    unfolding fmul_def Let_def i(1) q sg_def[symmetric] r_def
    using i nz s by (simp del: shift_up.simps)
  have ex: "expo r = j" "tr_exp r AND 0x8000 = sg"
    using exp_sign[of j "tr_exp x XOR tr_exp y"] sv i(3) by (simp_all add: expo_def r_def sg_def)
  have sgn: "negative r \<longleftrightarrow> negative x \<noteq> negative y"
    unfolding negative_iff ex(2) by (simp add: sg_def bit_and_iff bit_xor_iff)
  have m: "mant r = qval (t0, t1, t2, t3) div 2 ^ 64"
    using val2_less[of t0 t1] by (simp add: mant_def r_def)
  show ?thesis
  proof (cases "2 ^ 127 \<le> mant x * mant y")
    case True
    then have "sint w3 < 0" using sint_neg_qval[of w3 w0 w1 w2] qv by simp
    then have "j = i \<and> (t0, t1, t2, t3) = (w0, w1, w2, w3)"
      using s i(2) by (cases i) simp_all
    then have "mant r = mant x * mant y div 2 ^ 64" "expo r + 16382 = expo x + expo y"
      using m qv ex(1) i(2) by (simp_all add: i_def)
    moreover have "2 ^ 63 \<le> mant x * mant y div 2 ^ 64"
      using div_le_mono[OF True, of "2 ^ 64"] by simp
    ultimately show ?thesis using f sgn True by (simp add: normal_def)
  next
    case False
    then have neg: "\<not> sint w3 < 0" using sint_neg_qval[of w3 w0 w1 w2] qv by simp
    obtain v0 v1 v2 v3 where v: "shift_left (w0, w1, w2, w3) = (v0, v1, v2, v3)" by (metis prod_cases4)
    have vq: "qval (v0, v1, v2, v3) = 2 * (mant x * mant y)"
      using shift_left_val[OF neg, of w0 w1 w2] qv v by simp
    then have "sint v3 < 0" using lt sint_neg_qval[of v3 v0 v1 v2] by (simp del: qval.simps)
    then have "j = i - 1 \<and> (t0, t1, t2, t3) = (v0, v1, v2, v3)"
      using s i(2) neg v by (cases i; cases "i - 1") (simp_all del: shift_left.simps)
    moreover have "mant r = mant x * mant y div 2 ^ 63"
      using calculation m vq by (simp add: div_mult2_eq[of _ 2 "2 ^ 63", simplified])
    moreover have "2 ^ 63 \<le> mant x * mant y div 2 ^ 63"
      using div_le_mono[OF lt, of "2 ^ 63"] by simp
    ultimately show ?thesis using f sgn ex False e i(2) by (auto simp: normal_def i_def)
  qed
qed

subsection \<open>Division is exact up to the last bit\<close>

lemma try_sub_val:
  assumes "try_sub a b = (ok, t)"
  shows "(ok \<longleftrightarrow> qval a \<le> qval b) \<and> (ok \<longrightarrow> qval t + qval a = qval b)"
proof -
  obtain a0 a1 a2 a3 where a: "a = (a0, a1, a2, a3)" by (metis prod_cases4)
  obtain b0 b1 b2 b3 where b: "b = (b0, b1, b2, b3)" by (metis prod_cases4)
  obtain t0 k0 where 0: "subb b0 a0 False = (t0, k0)" by fastforce
  obtain t1 k1 where 1: "subb b1 a1 k0 = (t1, k1)" by fastforce
  obtain t2 k2 where 2: "subb b2 a2 k1 = (t2, k2)" by fastforce
  obtain t3 k3 where 3: "subb b3 a3 k2 = (t3, k3)" by fastforce
  have r: "ok = (\<not> k3)" "t = (t0, t1, t2, t3)" using assms by (simp_all add: a b 0 1 2 3)
  have q: "int (qval (w0, w1, w2, w3)) = uint w0 + 2 ^ 32 * uint w1 + 2 ^ 64 * uint w2 + 2 ^ 96 * uint w3"
    for w0 w1 w2 w3 by (simp add: val2_def)
  have "int (qval t) = int (qval b) - int (qval a) + 2 ^ 128 * of_bool k3"
    unfolding a b r(2) q using subb_val[OF 0] subb_val[OF 1] subb_val[OF 2] subb_val[OF 3] by simp
  then show ?thesis using qval_less[of t] unfolding r(1) by (cases k3) auto
qed

lemma shrd_unat:
  assumes "n < 32"
  shows "unat (shrd n hi lo) = unat lo div 2 ^ n + 2 ^ (32 - n) * (unat hi mod 2 ^ n)"
proof (cases "n = 0")
  case False
  have "drop_bit n lo AND push_bit (32 - n) hi = 0"
    by (rule bit_word_eqI) (auto simp: bit_and_iff bit_drop_bit_eq bit_push_bit_iff dest: bit_imp_le_length)
  then have "shrd n hi lo = drop_bit n lo + push_bit (32 - n) hi"
    using False by (simp add: shrd_def disjunctive_add_eq_or)
  moreover have "unat (drop_bit n lo) = unat lo div 2 ^ n" by (simp only: unat_drop_bit_eq drop_bit_eq_div[where 'a = nat])
  moreover have "unat (push_bit (32 - n) hi) = 2 ^ (32 - n) * (unat hi mod 2 ^ n)"
    using mult_mod_right[of "2 ^ (32 - n)" "unat hi" "2 ^ n"] power_add[of "2::nat" "32 - n" n] assms
    by (simp only: unsigned_push_bit_eq) (simp add: push_bit_eq_mult take_bit_eq_mod mult.commute)
  moreover have "unat lo div 2 ^ n + 2 ^ (32 - n) * (unat hi mod 2 ^ n) < 2 ^ 32"
  proof -
    have p: "(2::nat) ^ 32 = 2 ^ (32 - n) * 2 ^ n" using assms by (simp flip: power_add)
    have "unat lo div 2 ^ n < 2 ^ (32 - n)" using unat_u32_less[of lo] unfolding p by (rule less_mult_imp_div_less)
    moreover have "2 ^ (32 - n) * Suc (unat hi mod 2 ^ n) \<le> 2 ^ (32 - n) * (2 ^ n :: nat)"
      by (intro mult_left_mono) (simp_all add: Suc_le_eq)
    ultimately show ?thesis unfolding p by simp
  qed
  ultimately show ?thesis by (simp add: unat_word_ariths)
qed (simp add: shrd_def)

lemma shrd1_val: "unat (shrd 1 hi lo) = unat lo div 2 + 2 ^ 31 * (unat hi mod 2)"
  using shrd_unat[of 1 hi lo] by simp

lemma shrd_val:
  assumes "n < 32"
  shows "val2 (shrd n hi lo) (drop_bit n hi) = val2 lo hi div 2 ^ n"
proof -
  have p: "(2::nat) ^ 32 = 2 ^ n * 2 ^ (32 - n)" using assms by (simp flip: power_add)
  have "unat (drop_bit n hi) = unat hi div 2 ^ n" by (simp only: unat_drop_bit_eq drop_bit_eq_div[where 'a = nat])
  then have "val2 (shrd n hi lo) (drop_bit n hi) =
      unat lo div 2 ^ n + 2 ^ (32 - n) * (unat hi mod 2 ^ n + 2 ^ n * (unat hi div 2 ^ n))"
    unfolding val2_def shrd_unat[OF assms] p by (simp only: algebra_simps)
  also have "\<dots> = (unat lo + 2 ^ n * (2 ^ (32 - n) * unat hi)) div 2 ^ n" by simp
  finally show ?thesis unfolding val2_def p by (simp only: mult.assoc)
qed

lemma shift_right_val: "qval (shift_right q) = qval q div 2"
proof -
  obtain w0 w1 w2 w3 where q: "q = (w0, w1, w2, w3)" by (metis prod_cases4)
  have 3: "unat (drop_bit 1 w3) = unat w3 div 2" by (simp only: unat_drop_bit_eq) (simp add: drop_bit_Suc)
  define n where "n = qval (shift_right q)"
  have n: "n = unat w0 div 2 + 2 ^ 31 * (unat w1 mod 2) + 2 ^ 32 * (unat w1 div 2 + 2 ^ 31 * (unat w2 mod 2)) +
      2 ^ 64 * (unat w2 div 2 + 2 ^ 31 * (unat w3 mod 2) + 2 ^ 32 * (unat w3 div 2))"
    unfolding n_def q shift_right.simps qval.simps val2_def shrd1_val 3 ..
  have w: "\<exists>h r. unat w = 2 * h + r \<and> unat w div 2 = h \<and> unat w mod 2 = r" for w :: u32 by simp
  obtain h0 r0 where 0: "unat w0 = 2 * h0 + r0" "unat w0 div 2 = h0" "unat w0 mod 2 = r0" using w by blast
  obtain h1 r1 where 1: "unat w1 = 2 * h1 + r1" "unat w1 div 2 = h1" "unat w1 mod 2 = r1" using w by blast
  obtain h2 r2 where 2: "unat w2 = 2 * h2 + r2" "unat w2 div 2 = h2" "unat w2 mod 2 = r2" using w by blast
  obtain h3 r3 where 3: "unat w3 = 2 * h3 + r3" "unat w3 div 2 = h3" "unat w3 mod 2 = r3" using w by blast
  have n': "n = h0 + 2 ^ 31 * r1 + 2 ^ 32 * (h1 + 2 ^ 31 * r2) + 2 ^ 64 * (h2 + 2 ^ 31 * r3 + 2 ^ 32 * h3)"
    unfolding n 0(2) 1(2,3) 2(2,3) 3(2,3) ..
  have "qval q = r0 + 2 * n"
    unfolding q qval.simps val2_def n' 0(1) 1(1) 2(1) 3(1) by simp
  moreover have "r0 < 2" using 0(3) by auto
  ultimately have "qval q div 2 = n" by simp
  then show ?thesis unfolding n_def[symmetric] by simp
qed

lemma or_bit1_val:
  assumes "k < 32" "2 ^ Suc k dvd unat c"
  shows "unat (c OR bit1 k) = unat c + 2 ^ k"
proof -
  obtain m where m: "unat c = 2 ^ Suc k * m" using assms(2) by blast
  have "\<not> bit (unat c) k" unfolding m bit_iff_odd by simp
  then have nb: "\<not> bit c k" by (simp add: bit_unsigned_iff)
  have "c AND bit1 k = 0" by (rule bit_word_eqI) (use nb in \<open>auto simp: bit_and_iff\<close>)
  then have "c OR bit1 k = c + bit1 k" by (simp add: disjunctive_add_eq_or)
  moreover have "unat (bit1 k) = 2 ^ k"
    using power_strict_increasing[OF assms(1), of "2 :: nat"]
    by (simp only: bit1_def unsigned_push_bit_eq) (simp add: push_bit_eq_mult take_bit_eq_mod)
  moreover have "unat c + 2 ^ k < 2 ^ 32"
  proof -
    have pow: "(2::nat) ^ 32 = 2 ^ Suc k * 2 ^ (31 - k)" using assms(1) by (simp flip: power_add)
    have "2 ^ Suc k * m < (2 ^ Suc k * 2 ^ (31 - k) :: nat)" using unat_u32_less[of c] unfolding m pow .
    then have "m < 2 ^ (31 - k)" by (simp only: mult_less_cancel1)
    then have "2 ^ Suc k * Suc m \<le> (2::nat) ^ 32"
      unfolding pow by (intro mult_left_mono) simp_all
    moreover have "2 ^ Suc k * m + 2 ^ k < (2 ^ Suc k * Suc m :: nat)" by simp
    ultimately show ?thesis unfolding m by linarith
  qed
  ultimately show ?thesis by (simp add: unat_word_ariths)
qed

text \<open>
  After \<open>i\<close> turns the divisor has been halved \<open>i\<close> times, the remainder is less than twice the divisor, and
  the bits found so far make the rest of the equation; the bits not yet found are clear.
\<close>

definition div_state :: "nat \<Rightarrow> nat \<Rightarrow> nat \<Rightarrow> quad \<times> quad \<times> u32 \<times> u32 \<Rightarrow> bool" where
  "div_state ma mb i st \<longleftrightarrow> (case st of (a, b, c2, c3) \<Rightarrow>
    qval b = mb * 2 ^ (64 - i) \<and> qval a < mb * 2 ^ (65 - i) \<and>
    ma * 2 ^ 64 = qval a + val2 c2 c3 * (2 * mb) \<and>
    (if i \<le> 32 then unat c2 = 0 \<and> 2 ^ (32 - i) dvd unat c3 else 2 ^ (64 - i) dvd unat c2))"

lemma div_turn_state:
  assumes "div_state ma mb i st" "i < 64"
  shows "div_state ma mb (Suc i) (div_turn i st)"
proof -
  obtain a b c2 c3 where st: "st = (a, b, c2, c3)" by (metis prod_cases4)
  obtain ok t where t: "try_sub b a = (ok, t)" by (cases "try_sub b a")
  note ts = try_sub_val[OF t]
  have s: "qval b = mb * 2 ^ (64 - i)" "qval a < mb * 2 ^ (65 - i)"
    "ma * 2 ^ 64 = qval a + val2 c2 c3 * (2 * mb)"
    "if i \<le> 32 then unat c2 = 0 \<and> 2 ^ (32 - i) dvd unat c3 else 2 ^ (64 - i) dvd unat c2"
    using assms(1) by (simp_all add: div_state_def st)
  define p where "p = mb * 2 ^ (63 - i)"
  have e: "64 - i = Suc (63 - i)" "65 - i = Suc (Suc (63 - i))" "64 - Suc i = 63 - i" "65 - Suc i = Suc (63 - i)"
    using assms(2) by simp_all
  have p: "qval b = 2 * p" "qval a < 4 * p" "qval (shift_right b) = p"
    using s(1,2) by (simp_all add: e p_def shift_right_val)
  define c2' c3' where "c2' = (if ok \<and> \<not> i < 32 then c2 OR bit1 (31 - i mod 32) else c2)"
    and "c3' = (if ok \<and> i < 32 then c3 OR bit1 (31 - i mod 32) else c3)"
  have r: "div_turn i st = (if ok then t else a, shift_right b, c2', c3')"
    by (simp add: st t c2'_def c3'_def)
  have c: "val2 c2' c3' = val2 c2 c3 + (if ok then 2 ^ (63 - i) else 0) \<and>
    (if Suc i \<le> 32 then unat c2' = 0 \<and> 2 ^ (32 - Suc i) dvd unat c3' else 2 ^ (64 - Suc i) dvd unat c2')"
  proof (cases "i < 32")
    case True
    then have d: "unat c2 = 0" "2 ^ Suc (31 - i) dvd unat c3" "32 - Suc i = 31 - i" "63 - i = 32 + (31 - i)"
      using s(4) True Suc_diff_le[of i 31] by simp_all
    have "(2::nat) ^ (31 - i) dvd unat c3" using d(2) by (rule dvd_trans[OF le_imp_power_dvd, rotated]) simp
    then show ?thesis
      using True d(1,3) or_bit1_val[OF _ d(2)] unfolding c2'_def c3'_def d(4) power_add by (auto simp: val2_def)
  next
    case False
    then have d: "2 ^ Suc (63 - i) dvd unat c2" "31 - i mod 32 = 63 - i" "63 - i < 32"
      using s(4) assms(2) unfolding e by (auto simp: mod_if e split: if_splits)
    have "(2::nat) ^ (63 - i) dvd unat c2" using d(1) by (rule dvd_trans[OF le_imp_power_dvd, rotated]) simp
    then show ?thesis
      using False or_bit1_val[OF d(3,1)] unfolding c2'_def c3'_def d(2) e by (auto simp: val2_def)
  qed
  have "qval (if ok then t else a) < 2 * p \<and> qval a = qval (if ok then t else a) + (if ok then 2 * p else 0)"
    using ts p by auto
  then show ?thesis
    using p(3) c s(3) unfolding div_state_def r prod.case e by (auto simp: p_def algebra_simps)
qed

lemma div64_val:
  assumes "2 ^ 63 \<le> val2 b2 b3"
  shows "(case div64 (0, 0, a2, a3) (0, 0, b2, b3) of (c2, c3) \<Rightarrow> val2 c2 c3) = val2 a2 a3 * 2 ^ 63 div val2 b2 b3"
proof -
  define ma mb where "ma = val2 a2 a3" and "mb = val2 b2 b3"
  define st where "st = (\<lambda>i. fold div_turn [0..<i] ((0, 0, a2, a3), (0, 0, b2, b3), 0, 0))"
  have "val2 0 0 = 0" by (simp add: val2_def)
  then have "div_state ma mb 0 (st 0)"
    using assms val2_less[of a2 a3] by (simp add: div_state_def st_def ma_def mb_def)
  then have "div_state ma mb i (st i)" if "i \<le> 64" for i
    using that by (induction i) (auto simp: st_def intro: div_turn_state)
  then have "div_state ma mb 64 (st 64)" by simp
  moreover obtain a b c2 c3 where s: "st 64 = (a, b, c2, c3)" by (metis prod_cases4)
  ultimately have i: "ma * 2 ^ 64 = qval a + val2 c2 c3 * (2 * mb)" "qval a < 2 * mb"
    by (simp_all add: div_state_def)
  have "mb > 0" using assms by (simp add: mb_def)
  then have "val2 c2 c3 = ma * 2 ^ 64 div (2 * mb)" unfolding i(1) using i(2) by simp
  also have "\<dots> = ma * 2 ^ 63 div mb" using div_mult_mult1[of 2 "ma * 2 ^ 63" mb] by (simp add: ac_simps)
  finally show ?thesis using s by (simp add: div64_def st_def ma_def mb_def)
qed

lemma div_norm_normal: "2 ^ 63 \<le> val2 b2 b3 \<Longrightarrow> div_norm i (b0, b1, b2, b3) = (i, b0, b1, b2, b3)"
  by (subst div_norm.simps) (simp add: sint_neg_val2[of b3 b2])

lemma shift_up_quotient:
  assumes "0 < i" "shift_up i (0, 0, t2, t3) = (j, s0, s1, s2, s3)" "val2 t2 t3 = q" "2 ^ 62 \<le> q"
  shows "(q \<ge> 2 ^ 63 \<longrightarrow> j = i \<and> (s0, s1, s2, s3) = (0, 0, t2, t3)) \<and>
      (q < 2 ^ 63 \<longrightarrow> j = i - 1 \<and> s0 = 0 \<and> s1 = 0 \<and> val2 s2 s3 = 2 * q)"
proof (cases "q \<ge> 2 ^ 63")
  case True
  then have "sint t3 < 0" using assms(3) sint_neg_val2[of t3 t2] by simp
  then show ?thesis using assms(2) assms(1) True by (cases i) simp_all
next
  case False
  then have neg: "\<not> sint t3 < 0" using assms(3) sint_neg_val2[of t3 t2] by simp
  obtain v2 c where c: "addc t2 t2 False = (v2, c)" by fastforce
  obtain v3 where v: "shift_left (0, 0, t2, t3) = (0, 0, v2, v3)"
    using that[of "fst (addc t3 t3 c)"] by (simp add: addc_def[of 0 0] c)
  have "qval (0, 0, v2, v3) = 2 * qval (0, 0, t2, t3)" using shift_left_val[OF neg, of 0 0 t2] unfolding v .
  then have vq: "val2 v2 v3 = 2 * q" using assms(3) by (simp add: val2_def[of 0 0])
  then have "sint v3 < 0" using sint_neg_val2[of v3 v2] assms(4) by simp
  then have "j = i - 1 \<and> (s0, s1, s2, s3) = (0, 0, v2, v3)"
    using assms(2) assms(1) neg v by (cases i; cases "i - 1") (simp_all del: shift_left.simps)
  then show ?thesis using vq False by simp
qed

text \<open>
  The quotient of two normalised numbers whose biased exponents differ so little that the quotient's, \<open>expo x + 16383 -
  expo y\<close>, is at least 1 and at most 32767, is the exact quotient of the mantissas cut off after 64 bits
  or, when the dividend's mantissa is the smaller one, after 63 bits; no exception is signalled.
\<close>

theorem fdiv_truncates:
  assumes n: "normal x" "normal y"
    and e: "expo y < expo x + 16383" "expo x + 16383 \<le> 0x7fff + expo y"
  shows "\<exists>r. fdiv x y old f = (r, f) \<and> normal r \<and> (negative r \<longleftrightarrow> negative x \<noteq> negative y) \<and>
    (if mant y \<le> mant x
     then mant r = mant x * 2 ^ 63 div mant y \<and> expo r + expo y = expo x + 16383
     else mant r = 2 * (mant x * 2 ^ 63 div mant y) \<and> expo r + expo y = expo x + 16382)"
proof -
  have nz: "\<not> (tr_a y = 0 \<and> tr_b y = 0)" using n(2) by (auto simp: normal_def mant_def val2_def)
  define q where "q = mant x * 2 ^ 63 div mant y"
  have my: "2 ^ 63 \<le> val2 (tr_a y) (tr_b y)" "2 ^ 63 \<le> mant x" "mant x < 2 ^ 64" "mant y < 2 ^ 64"
    using n val2_less[of "tr_a x" "tr_b x"] val2_less[of "tr_a y" "tr_b y"] by (simp_all add: normal_def mant_def)
  have "2 ^ 62 \<le> q"
  proof -
    have "2 ^ 62 * mant y \<le> 2 ^ 62 * 2 ^ 64" using my by (intro mult_left_mono) simp_all
    also have "\<dots> \<le> mant x * 2 ^ 63" using mult_right_mono[OF my(2), of "2 ^ 63"] by simp
    finally show ?thesis unfolding q_def using my n(2) by (subst less_eq_div_iff_mult_less_eq) (auto simp: normal_def)
  qed
  obtain t2 t3 where d: "div64 (0, 0, tr_a x, tr_b x) (0, 0, tr_a y, tr_b y) = (t2, t3)" by fastforce
  have t: "val2 t2 t3 = q" using div64_val[OF my(1), of "tr_a x" "tr_b x"] unfolding d q_def mant_def by simp
  have tz: "t2 \<noteq> 0 \<or> t3 \<noteq> 0" using t \<open>2 ^ 62 \<le> q\<close> by (auto simp: val2_def)
  define i where "i = expo x + 16383 - expo y"
  have i: "int (unat (tr_exp x AND 0x7fff)) - int (unat (tr_exp y AND 0x7fff)) + 16383 = int i"
    "0 < i" "i \<le> 0x7fff"
    using e unfolding i_def expo_def by linarith+
  define sg where "sg = (tr_exp x XOR tr_exp y) AND 0x8000"
  obtain j s0 s1 s2 s3 where s: "shift_up i (0, 0, t2, t3) = (j, s0, s1, s2, s3)" by (metis prod_cases5)
  note sv = shift_up_val[OF s]
  define r where "r = \<lparr>tr_a = s2, tr_b = s3, tr_exp = of_nat j OR sg\<rparr>"
  note ij = shift_up_quotient[OF i(2) s t \<open>2 ^ 62 \<le> q\<close>]
  have q63: "q \<ge> 2 ^ 63 \<longleftrightarrow> mant y \<le> mant x"
    unfolding q_def using my n(2) by (subst less_eq_div_iff_mult_less_eq) (auto simp: normal_def)
  have s01: "s0 = 0 \<and> s1 = 0 \<and> mant r = (if mant y \<le> mant x then q else 2 * q) \<and>
      j = (if mant y \<le> mant x then i else i - 1)"
    using ij t q63 by (cases "mant y \<le> mant x") (simp_all add: mant_def r_def)
  have nr: "normal r" using s01 q63 \<open>2 ^ 62 \<le> q\<close> by (simp add: normal_def split: if_splits)
  have f: "fdiv x y old f = (r, f)"
  proof -
    have "sint s3 < 0" using nr sint_neg_val2[of s3 s2] by (simp add: normal_def mant_def r_def)
    then show ?thesis
      unfolding fdiv_def Let_def i(1) div_norm_normal[OF my(1)] prod.case d sg_def[symmetric] r_def
        if_not_P[OF nz]
      using i tz s s01 sv by (simp del: shift_up.simps)
  qed
  have ex: "expo r = j" "tr_exp r AND 0x8000 = sg"
    using exp_sign[of j "tr_exp x XOR tr_exp y"] sv i(3) by (simp_all add: expo_def r_def sg_def)
  have sgn: "negative r \<longleftrightarrow> negative x \<noteq> negative y"
    unfolding negative_iff ex(2) by (simp add: sg_def bit_and_iff bit_xor_iff)
  show ?thesis
    using f nr sgn s01 ex(1) i(2) e unfolding q_def i_def by (intro exI[of _ r]) auto
qed

subsection \<open>When no bits are dropped, addition is exact\<close>

text \<open>A sign and an exponent put together.\<close>

definition enc :: "bool \<Rightarrow> nat \<Rightarrow> u16" where
  "enc s n = of_nat (n + (if s then 0x8000 else 0))"

lemma unat_enc: "n \<le> 0x7fff \<Longrightarrow> unat (enc s n) = n + (if s then 0x8000 else 0)"
  unfolding enc_def by (subst unat_of_nat) simp

lemma unat_and_7fff: "unat (w AND 0x7fff :: u16) = unat w mod 2 ^ 15"
proof -
  have "w AND 0x7fff = take_bit 15 w" by (simp add: take_bit_eq_mask mask_eq_exp_minus_1)
  then show ?thesis by (simp only: unsigned_take_bit_eq) (simp add: take_bit_eq_mod)
qed

lemma sint_neg_unat16: "sint (w :: u16) < 0 \<longleftrightarrow> 2 ^ 15 \<le> unat w"
proof -
  have "sint w < 0 \<longleftrightarrow> odd (unat w div 2 ^ 15)"
  proof -
    have "sint w < 0 \<longleftrightarrow> bit (unat w) 15" unfolding sint_neg_bit(2) by (simp add: bit_unsigned_iff)
    then show ?thesis by (simp only: bit_iff_odd)
  qed
  moreover have "unat w < 2 ^ 16" using unsigned_less[of w, where 'a = nat] by simp
  then have "unat w div 2 ^ 15 = (if 2 ^ 15 \<le> unat w then 1 else 0)" by (auto intro: div_nat_eqI)
  ultimately show ?thesis by simp
qed

lemma exp_enc: "tr_exp r = enc (negative r) (expo r)"
proof -
  have "unat (tr_exp r) < 2 ^ 16" using unsigned_less[of "tr_exp r", where 'a = nat] by simp
  then have "unat (tr_exp r) = unat (tr_exp r) mod 2 ^ 15 + (if 2 ^ 15 \<le> unat (tr_exp r) then 2 ^ 15 else 0)"
    by (cases "unat (tr_exp r) < 2 ^ 15") (simp_all add: mod_if[of "unat (tr_exp r)"])
  then have "unat (tr_exp r) = unat (enc (negative r) (expo r))"
    using unat_enc[of "expo r" "negative r"]
    unfolding expo_def negative_def unat_and_7fff sint_neg_unat16 by (cases "2 ^ 15 \<le> unat (tr_exp r)") simp_all
  then show ?thesis by (simp add: word_unat_eq_iff)
qed

lemma enc_fields:
  assumes "n \<le> 0x7fff"
  shows "unat (enc s n AND 0x7fff) = n" "sint (enc s n) < 0 \<longleftrightarrow> s" "enc s n AND 0x7fff = enc False n"
    "enc False n OR 0x8000 = enc True n"
proof -
  show 1: "unat (enc s n AND 0x7fff) = n"
    using unat_enc[OF assms, of s] assms by (cases s) (simp_all add: unat_and_7fff)
  show "sint (enc s n) < 0 \<longleftrightarrow> s" using unat_enc[OF assms, of s] assms by (simp add: sint_neg_unat16)
  show "enc s n AND 0x7fff = enc False n"
    using 1 unat_enc[OF assms, of False] by (simp add: word_unat_eq_iff)
  have "of_nat n AND (0x8000 :: u16) = 0"
    by (rule bit_word_eqI, unfold bit_and_iff bit_16_masks) (use bit_of_nat_15[OF assms] in auto)
  then have "of_nat n OR (0x8000 :: u16) = of_nat n + 0x8000" by (simp add: disjunctive_add_eq_or)
  then show "enc False n OR 0x8000 = enc True n" by (simp add: enc_def)
qed

lemma enc_minus: "k \<le> n \<Longrightarrow> enc s n - of_nat k = enc s (n - k)"
  by (simp add: enc_def of_nat_diff flip: of_nat_add)

lemma enc_plus: "enc s n + 2 = enc s (n + 2)"
  by (simp add: enc_def)

lemma norm_left_val:
  assumes "0 < val2 lo hi"
  shows "\<exists>k lo' hi'. norm_left lo hi e = (lo', hi', e - of_nat k) \<and> k < 64 \<and>
    val2 lo' hi' = 2 ^ k * val2 lo hi \<and> 2 ^ 63 \<le> val2 lo' hi'"
proof -
  have "\<exists>k lo' hi'. norm_left lo hi e = (lo', hi', e - of_nat k) \<and>
      val2 lo' hi' = 2 ^ k * val2 lo hi \<and> 2 ^ 63 \<le> val2 lo' hi'"
    using assms
  proof (induction lo hi e rule: norm_left.induct)
    case (1 lo hi e)
    show ?case
    proof (cases "sint hi < 0")
      case True
      then show ?thesis
        using sint_neg_val2[of hi lo] by (intro exI[of _ 0] exI[of _ lo] exI[of _ hi]) (simp add: norm_left.simps)
    next
      case False
      then have nz: "\<not> (sint hi < 0 \<or> lo = 0 \<and> hi = 0)" using 1(2) val2_eq_0[of lo hi] by auto
      obtain l h where d: "add2 lo hi lo hi = (l, h)" by fastforce
      have v: "val2 l h = 2 * val2 lo hi" using double_val2[OF False d] .
      obtain k lo' hi' where "norm_left l h (e - 1) = (lo', hi', e - 1 - of_nat k)"
          "val2 lo' hi' = 2 ^ k * val2 l h" "2 ^ 63 \<le> val2 lo' hi'"
        using 1(1)[OF nz] 1(2) v unfolding d fst_conv snd_conv by auto
      moreover have "norm_left lo hi e = norm_left l h (e - 1)"
        by (subst norm_left.simps) (simp only: if_not_P[OF nz] d fst_conv snd_conv)
      ultimately have "norm_left lo hi e = (lo', hi', e - of_nat (Suc k))"
        "val2 lo' hi' = 2 ^ Suc k * val2 lo hi" "2 ^ 63 \<le> val2 lo' hi'"
        using v by simp_all
      then show ?thesis by blast
    qed
  qed
  then obtain k lo' hi' where k: "norm_left lo hi e = (lo', hi', e - of_nat k)"
      "val2 lo' hi' = 2 ^ k * val2 lo hi" "2 ^ 63 \<le> val2 lo' hi'" by blast
  have "2 ^ k * 1 \<le> 2 ^ k * val2 lo hi" using assms by (intro mult_left_mono) simp_all
  then have "2 ^ k < (2::nat) ^ 64"
    using k(2) val2_less[of lo' hi'] by (metis mult.right_neutral order.strict_trans1)
  then have "k < 64" by (rule power_less_imp_less_exp[rotated]) simp
  then show ?thesis using k by blast
qed


text \<open>The number a temporary real stands for, and the one a mantissa with its sign stands for.\<close>

definition tr_val :: "temp_real \<Rightarrow> real" where
  "tr_val r = (if negative r then - 1 else 1) * real (mant r) * 2 powi (int (expo r) - 16383 - 63)"

definition signed64 :: "bool \<Rightarrow> nat \<Rightarrow> nat" where
  "signed64 s m = (if s then (2 ^ 64 - m) mod 2 ^ 64 else m)"

lemma NEGINT_val: "(case NEGINT lo hi of (lo, hi) \<Rightarrow> val2 lo hi) = (2 ^ 64 - val2 lo hi) mod 2 ^ 64"
proof -
  have n: "unat (NOT w) = 2 ^ 32 - 1 - unat w" for w :: u32
  proof -
    have u: "0 \<le> uint w" "uint w < 2 ^ 32" using uint_lt2p[of w] by simp_all
    have "uint (NOT w) = (- uint w - 1) mod 2 ^ 32"
      by (simp add: not_eq_complement uint_word_ariths mod_simps)
    also have "\<dots> = (- uint w - 1 + 2 ^ 32) mod 2 ^ 32" by (simp only: mod_add_self2)
    also have "\<dots> = 2 ^ 32 - 1 - uint w" using u by (subst mod_pos_pos_trivial) linarith+
    finally show ?thesis using unat_u32_less[of w] by (simp flip: of_nat_eq_iff[where 'a = int] add: of_nat_diff)
  qed
  have "val2 (NOT lo) (NOT hi) + val2 1 0 = 2 ^ 64 - val2 lo hi"
    using unat_u32_less[of lo] unat_u32_less[of hi] by (simp add: val2_def n)
  then show ?thesis using add2_val[of 1 0 "NOT lo" "NOT hi"] by (simp add: NEGINT_def add.commute)
qed

lemma signify_val:
  assumes "expo r \<le> 0x7ffd"
  shows "\<exists>lo hi. signify r = \<lparr>tr_a = lo, tr_b = hi, tr_exp = enc False (expo r + 2)\<rparr> \<and>
    val2 lo hi = signed64 (negative r) (mant r div 4)"
proof -
  have e: "tr_exp r + 2 = enc (negative r) (expo r + 2)" by (subst exp_enc) (rule enc_plus)
  have s: "sint (tr_exp r + 2) < 0 \<longleftrightarrow> negative r" "(tr_exp r + 2) AND 0x7fff = enc False (expo r + 2)"
    using assms unfolding e by (simp_all add: enc_fields)
  have v: "val2 (shrd 2 (tr_b r) (tr_a r)) (drop_bit 2 (tr_b r)) = mant r div 4"
    using shrd_val[of 2] by (simp add: mant_def)
  obtain l h where n: "NEGINT (shrd 2 (tr_b r) (tr_a r)) (drop_bit 2 (tr_b r)) = (l, h)" by fastforce
  then have "val2 l h = (2 ^ 64 - mant r div 4) mod 2 ^ 64"
    using NEGINT_val[of "shrd 2 (tr_b r) (tr_a r)" "drop_bit 2 (tr_b r)"] v by simp
  then show ?thesis
    using v n unfolding signify_def Let_def s by (cases "negative r") (simp_all add: signed64_def)
qed

text \<open>A sum of two signed 62-bit numbers, as \<open>unsignify\<close> reads it.\<close>

lemma unsignify_val:
  assumes v: "int (val2 (tr_a r) (tr_b r)) = i mod 2 ^ 64" and i: "\<bar>i\<bar> < 2 ^ 63"
    and e: "tr_exp r = enc False n" "63 \<le> n" "n \<le> 0x7fff"
  shows "tr_val (unsignify r) = of_int i * 2 powi (int n - 16383 - 63)"
proof -
  have res: "tr_val \<lparr>tr_a = lo', tr_b = hi', tr_exp = e'\<rparr> = (if s then - 1 else 1) * real m * 2 powi (int n - 16383 - 63)"
    if l: "norm_left lo hi (enc s n) = (lo', hi', e')" and m: "val2 lo hi = m" "0 < m"
    for lo hi s m lo' hi' e'
  proof -
    obtain k where k: "k < 64" "e' = enc s n - of_nat k" "val2 lo' hi' = 2 ^ k * m"
      using norm_left_val[of lo hi "enc s n"] l m by auto
    have "e' = enc s (n - k)" using k e(2) by (simp add: enc_minus)
    moreover have "n - k \<le> 0x7fff" using e(3) by simp
    ultimately have "expo \<lparr>tr_a = lo', tr_b = hi', tr_exp = e'\<rparr> = n - k"
      "negative \<lparr>tr_a = lo', tr_b = hi', tr_exp = e'\<rparr> = s" "mant \<lparr>tr_a = lo', tr_b = hi', tr_exp = e'\<rparr> = 2 ^ k * m"
      using enc_fields(1,2)[of "n - k" s] k(3) by (simp_all only: expo_def negative_def mant_def temp_real.simps)
    then have "tr_val \<lparr>tr_a = lo', tr_b = hi', tr_exp = e'\<rparr> =
        (if s then - 1 else 1) * real m * (2 ^ k * 2 powi (int (n - k) - 16383 - 63))"
      by (simp add: tr_val_def)
    also have "2 ^ k * 2 powi (int (n - k) - 16383 - 63) = (2 powi (int n - 16383 - 63) :: real)"
      using k(1) e(2) by (simp add: of_nat_diff power_int_add[symmetric] flip: power_int_of_nat)
    finally show ?thesis .
  qed
  have ee: "tr_exp r AND 0x7fff = enc False n" using e by (simp add: enc_fields)
  consider "i = 0" | "0 < i" | "i < 0" by linarith
  then show ?thesis
  proof cases
    case 1
    then have "tr_a r = 0 \<and> tr_b r = 0" using v val2_eq_0[of "tr_a r" "tr_b r"] by simp
    then show ?thesis using 1 by (simp add: unsignify_def tr_val_def mant_def val2_def)
  next
    case 2
    then have V: "val2 (tr_a r) (tr_b r) = nat i" "nat i < 2 ^ 63" using v i by (simp_all add: mod_pos_pos_trivial)
    then have nz: "\<not> (tr_a r = 0 \<and> tr_b r = 0)" "\<not> sint (tr_b r) < 0"
      using 2 val2_eq_0[of "tr_a r" "tr_b r"] sint_neg_val2[of "tr_b r" "tr_a r"] by auto
    obtain lo' hi' e' where l: "norm_left (tr_a r) (tr_b r) (enc False n) = (lo', hi', e')"
      by (metis prod_cases3)
    show ?thesis
      using res[OF l V(1)] 2 unfolding unsignify_def Let_def if_not_P[OF nz(1)] if_not_P[OF nz(2)] ee prod.case l by simp
  next
    case 3
    have "int (val2 (tr_a r) (tr_b r)) = (i + 2 ^ 64) mod 2 ^ 64" using v by simp
    also have "\<dots> = i + 2 ^ 64" using 3 i by (intro mod_pos_pos_trivial) auto
    finally have V: "int (val2 (tr_a r) (tr_b r)) = i + 2 ^ 64" .
    then have nz: "\<not> (tr_a r = 0 \<and> tr_b r = 0)" "sint (tr_b r) < 0"
      using 3 i val2_eq_0[of "tr_a r" "tr_b r"] sint_neg_val2[of "tr_b r" "tr_a r"] by auto
    obtain lo hi where ng: "NEGINT (tr_a r) (tr_b r) = (lo, hi)" by fastforce
    then have m: "val2 lo hi = nat (- i)"
    proof -
      obtain d where d: "i = - int d" using 3 by (metis minus_minus neg_int_cases)
      then have "d < 2 ^ 63" "0 < d" using i 3 by simp_all
      moreover from this have "int (val2 (tr_a r) (tr_b r)) = int (2 ^ 64 - d)"
        using V d by (simp add: of_nat_diff)
      then have "val2 (tr_a r) (tr_b r) = 2 ^ 64 - d" by (simp only: of_nat_eq_iff)
      ultimately have "val2 (tr_a r) (tr_b r) = 2 ^ 64 - nat (- i)" "0 < nat (- i)" "nat (- i) < 2 ^ 63"
        using d by simp_all
      then show ?thesis using NEGINT_val[of "tr_a r" "tr_b r"] unfolding ng by simp
    qed
    obtain lo' hi' e' where l: "norm_left lo hi (enc True n) = (lo', hi', e')" by (metis prod_cases3)
    show ?thesis
      using res[OF l m] 3
      unfolding unsignify_def Let_def if_not_P[OF nz(1)] if_P[OF nz(2)] ee ng prod.case enc_fields(4)[OF e(3)] l
      by simp
  qed
qed


lemma signed64_int: "m < 2 ^ 64 \<Longrightarrow> int (signed64 s m) = (if s then - int m else int m) mod 2 ^ 64"
  by (auto simp: signed64_def of_nat_mod of_nat_diff mod_pos_pos_trivial)

lemma add_aligned_val:
  assumes n: "n < 64" "expo b + n = expo a" and e: "61 \<le> expo a" "expo a \<le> 0x7ffd"
    and d: "4 dvd mant a" "2 ^ (n + 2) dvd mant b"
  shows "tr_val (add_aligned a b n) = tr_val a + tr_val b"
proof -
  obtain lo hi m where sh: "(if n \<ge> 32 then (tr_b b, 0, n - 32) else (tr_a b, tr_b b, n)) = (lo, hi, m)"
    by (metis prod_cases3)
  define b' where "b' = b\<lparr>tr_a := shrd m hi lo, tr_b := drop_bit m hi\<rparr>"
  have "val2 lo hi div 2 ^ m = mant b div 2 ^ n \<and> m < 32"
  proof (cases "n \<ge> 32")
    case True
    have "mant b div 2 ^ 32 = unat (tr_b b)" using unat_u32_less[of "tr_a b"] by (simp add: mant_def val2_def)
    moreover have "(2::nat) ^ n = 2 ^ 32 * 2 ^ (n - 32)" using True power_add[of "2 :: nat" 32 "n - 32"] by simp
    ultimately have "mant b div 2 ^ n = unat (tr_b b) div 2 ^ (n - 32)" by (simp only: div_mult2_eq)
    then show ?thesis using sh True n(1) by (auto simp: val2_def)
  next
    case False
    then show ?thesis using sh by (auto simp: mant_def)
  qed
  then have b': "mant b' = mant b div 2 ^ n" "expo b' = expo b" "negative b' = negative b"
    by (simp_all add: b'_def mant_def expo_def negative_def shrd_val)
  obtain B where B: "mant b = 2 ^ (n + 2) * B" using d(2) by blast
  obtain A where A: "mant a = 4 * A" using d(1) by blast
  have AB: "A < 2 ^ 62" "B < 2 ^ 62"
  proof -
    have "mant a < 2 ^ 64" "mant b < 2 ^ 64" by (simp_all only: mant_def val2_less)
    moreover have "4 * B \<le> mant b" unfolding B by (simp add: power_add)
    ultimately show "A < 2 ^ 62" "B < 2 ^ 62" using A by simp_all
  qed
  have B4: "mant b' div 4 = B" unfolding b'(1) B by (simp add: power_add)
  obtain l1 h1 where s1: "signify a = \<lparr>tr_a = l1, tr_b = h1, tr_exp = enc False (expo a + 2)\<rparr>"
      "val2 l1 h1 = signed64 (negative a) A"
    using signify_val[of a] e A by auto
  obtain l2 h2 e2 where s2: "signify b' = \<lparr>tr_a = l2, tr_b = h2, tr_exp = e2\<rparr>"
      "val2 l2 h2 = signed64 (negative b) B"
    using signify_val[of b'] e n(2) b' B4 by auto
  define i where "i = (if negative a then - int A else int A) + (if negative b then - int B else int B)"
  obtain l h where sum: "add2 l1 h1 l2 h2 = (l, h)" by fastforce
  have "int (val2 l h) = i mod 2 ^ 64"
    using add2_val[of l1 h1 l2 h2] AB unfolding sum s1 s2 i_def
    by (simp add: of_nat_mod signed64_int mod_simps)
  moreover have "\<bar>i\<bar> < 2 ^ 63" using AB by (auto simp: i_def)
  ultimately have "tr_val (add_aligned a b n) = of_int i * 2 powi (int (expo a + 2) - 16383 - 63)"
    unfolding add_aligned_def Let_def sh prod.case b'_def[symmetric] s1 s2 temp_real.simps sum
    using e by (intro unsignify_val) simp_all
  also have "\<dots> = tr_val a + tr_val b"
  proof -
    define c where "c = int (expo b) - 16383 - 63"
    have x: "int (expo a + 2) - 16383 - 63 = c + int n + 2" "int (expo a) - 16383 - 63 = c + int n"
      using n(2) by (simp_all add: c_def)
    have p: "2 powi (c + int n + 2) = (4 * (2 ^ n * 2 powi c) :: real)" "2 powi (c + int n) = (2 ^ n * 2 powi c :: real)"
      by (simp_all add: power_int_add)
    show ?thesis
      unfolding tr_val_def x c_def[symmetric] p A B i_def by (simp add: power_add algebra_simps)
  qed
  finally show ?thesis .
qed

text \<open>No bit of either mantissa is dropped when the two are aligned and shifted right by two.\<close>

definition aligned :: "temp_real \<Rightarrow> temp_real \<Rightarrow> bool" where
  "aligned x y \<longleftrightarrow>
    (if expo y \<le> expo x then 4 dvd mant x \<and> 2 ^ (expo x - expo y + 2) dvd mant y
     else 4 dvd mant y \<and> 2 ^ (expo y - expo x + 2) dvd mant x)"

lemma tr_val_0: "mant r = 0 \<Longrightarrow> tr_val r = 0"
  by (simp add: tr_val_def)

lemma dvd_mant_0:
  assumes "2 ^ (n + 2) dvd mant r" "64 \<le> n"
  shows "mant r = 0"
proof (rule ccontr)
  assume "mant r \<noteq> 0"
  then have "2 ^ (n + 2) \<le> mant r" using assms(1) by (simp add: dvd_imp_le)
  moreover have "(2::nat) ^ 64 \<le> 2 ^ (n + 2)" using assms(2) by (intro power_increasing) simp_all
  moreover have "mant r < 2 ^ 64" by (simp only: mant_def val2_less)
  ultimately show False by linarith
qed

lemma fadd_ordered:
  assumes "expo b + n = expo a" "4 dvd mant a" "2 ^ (n + 2) dvd mant b"
    and "61 \<le> expo a" "expo a \<le> 0x7ffd"
  shows "tr_val (if n \<ge> 64 then a else add_aligned a b n) = tr_val a + tr_val b"
  using assms by (auto simp: add_aligned_val tr_val_0[OF dvd_mant_0])

lemma fadd_val:
  assumes "aligned x y" "61 \<le> max (expo x) (expo y)" "max (expo x) (expo y) \<le> 0x7ffd"
  shows "tr_val (fadd x y) = tr_val x + tr_val y"
proof (cases "expo x > expo y")
  case True
  then show ?thesis
    using assms fadd_ordered[of y "expo x - expo y" x]
    by (simp add: aligned_def fadd_def Let_def max_def flip: expo_def split: if_splits)
next
  case False
  then have "tr_val (fadd x y) = tr_val y + tr_val x"
    using assms fadd_ordered[of x "expo y - expo x" y]
    by (cases "expo x = expo y") (simp_all add: aligned_def fadd_def Let_def max_def flip: expo_def)
  then show ?thesis by simp
qed

text \<open>
  The sum of two temporary reals is exact when no bit is dropped (which is so for any two numbers that
  came from 32-bit integers or from short reals of close magnitude), cancellation included; the exponent
  of the larger one must leave room for the shift and for normalising.
\<close>

theorem fadd_exact:
  assumes "aligned x y" "61 \<le> max (expo x) (expo y)" "max (expo x) (expo y) \<le> 0x7ffd"
  shows "tr_val (fadd x y) = tr_val x + tr_val y"
  using assms by (rule fadd_val)

subsection \<open>Comparison\<close>

lemma norm_exp_val:
  assumes "norm_exp i lo hi = (j, lo', hi')"
  shows "j \<le> i \<and> val2 lo' hi' = 2 ^ (i - j) * val2 lo hi"
  using assms
proof (induction i lo hi rule: norm_exp.induct)
  case (2 i lo hi)
  show ?case
  proof (cases "sint hi < 0")
    case False
    obtain l h where d: "add2 lo hi lo hi = (l, h)" by fastforce
    have "norm_exp i l h = (j, lo', hi')" using 2(2) False d by simp
    then have "j \<le> i \<and> val2 lo' hi' = 2 ^ (i - j) * val2 l h" using 2(1)[OF False] d by simp
    then show ?thesis using double_val2[OF False d] by (auto simp: Suc_diff_le)
  qed (use 2 in auto)
qed simp

lemma ftst_val:
  "ftst a f = f\<lparr>swd := (swd f AND NOT 0x4500) OR
     (if tr_val a < 0 then 0x0100 else if tr_val a = 0 then 0x4000 else 0)\<rparr>"
proof (cases "mant a = 0")
  case True
  then have "tr_a a = 0 \<and> tr_b a = 0" using val2_eq_0[of "tr_a a" "tr_b a"] by (simp add: mant_def)
  then show ?thesis
    using tr_val_0[OF True] by (simp add: ftst_def normalize_def set_C3_def clear_Cx_def Let_def)
next
  case False
  then have nz: "\<not> (tr_a a = 0 \<and> tr_b a = 0)" by (auto simp: mant_def val2_def)
  obtain i lo hi where n: "norm_exp (unat (tr_exp a AND 0x7fff)) (tr_a a) (tr_b a) = (i, lo, hi)"
    by (metis prod_cases3)
  have "val2 lo hi \<noteq> 0" "i \<le> 0x7fff"
    using norm_exp_val[OF n] False by (auto simp: mant_def unat_and_7fff)
  then have h: "lo \<noteq> 0 \<or> hi \<noteq> 0" "sint (of_nat i OR (tr_exp a AND 0x8000) :: u16) < 0 \<longleftrightarrow> negative a"
    using exp_sign(2)[of i "tr_exp a"] val2_eq_0[of lo hi] negative_iff[of a]
      negative_iff[of "\<lparr>tr_a = lo, tr_b = hi, tr_exp = of_nat i OR (tr_exp a AND 0x8000)\<rparr>"]
    by (simp_all add: negative_def)
  have "tr_val a \<noteq> 0" "tr_val a < 0 \<longleftrightarrow> negative a"
    using False by (auto simp: tr_val_def mult_less_0_iff not_less)
  then show ?thesis
    using h unfolding ftst_def normalize_def if_not_P[OF nz] n prod.case Let_def temp_real.simps
    by (auto simp: set_C0_def clear_Cx_def)
qed

text \<open>
  \<open>fcom\<close> sets C0 if the second operand is less than the first, C3 if they are equal and neither
  otherwise, and clears C2, when the larger biased exponent lies between 61 and 0x7ffd and the difference can be formed
  without dropping a bit.
\<close>

theorem fcom_exact:
  assumes "aligned x y" "61 \<le> max (expo x) (expo y)" "max (expo x) (expo y) \<le> 0x7ffd"
  shows "swd (fcom x y f) = (swd f AND NOT 0x4500) OR
    (if tr_val y < tr_val x then 0x0100 else if tr_val y = tr_val x then 0x4000 else 0)"
proof -
  define x' where "x' = x\<lparr>tr_exp := tr_exp x XOR 0x8000\<rparr>"
  have x': "expo x' = expo x" "mant x' = mant x" "negative x' = (\<not> negative x)"
  proof -
    have e: "tr_exp x' = tr_exp x XOR 0x8000" by (simp add: x'_def)
    have "tr_exp x' AND 0x7fff = tr_exp x AND 0x7fff"
      by (rule bit_word_eqI) (unfold e bit_and_iff bit_xor_iff bit_16_masks, auto)
    then show "expo x' = expo x" by (simp add: expo_def)
    show "negative x' = (\<not> negative x)"
      unfolding negative_def sint_neg_bit e bit_xor_iff bit_16_masks by simp
  qed (simp add: x'_def mant_def)
  have "aligned x' y" using assms(1) unfolding aligned_def x'(1,2) .
  moreover have "tr_val x' = - tr_val x" by (simp add: tr_val_def x')
  ultimately have "tr_val (fadd x' y) = tr_val y - tr_val x"
    using fadd_val[of x' y] assms(2,3) x'(1) by simp
  then show ?thesis unfolding fcom_def x'_def[symmetric] ftst_val by simp
qed

subsection \<open>Conversions there and back\<close>

lemma bit_32_masks:
  "bit (0x7fffffff :: u32) k \<longleftrightarrow> k < 31" "bit (0x80000000 :: u32) k \<longleftrightarrow> k = 31"
  "bit (0x7f800000 :: u32) k \<longleftrightarrow> 23 \<le> k \<and> k < 31" "bit (0x007fffff :: u32) k \<longleftrightarrow> k < 23"
  "bit (0xff :: u32) k \<longleftrightarrow> k < 8" "bit (0x7ff :: u32) k \<longleftrightarrow> k < 11"
  "bit (0x7ff00000 :: u32) k \<longleftrightarrow> 20 \<le> k \<and> k < 31" "bit (0x000fffff :: u32) k \<longleftrightarrow> k < 20"
  "bit (0x001fffff :: u32) k \<longleftrightarrow> k < 21"
proof -
  have m: "(0x7fffffff :: u32) = mask 31" "(0x80000000 :: u32) = push_bit 31 (mask 1)"
    "(0x7f800000 :: u32) = push_bit 23 (mask 8)" "(0x007fffff :: u32) = mask 23"
    "(0xff :: u32) = mask 8" "(0x7ff :: u32) = mask 11" "(0x7ff00000 :: u32) = push_bit 20 (mask 11)"
    "(0x000fffff :: u32) = mask 20" "(0x001fffff :: u32) = mask 21"
    by (simp_all add: mask_eq_exp_minus_1 push_bit_eq_mult)
  show "bit (0x7fffffff :: u32) k \<longleftrightarrow> k < 31" "bit (0x007fffff :: u32) k \<longleftrightarrow> k < 23"
    "bit (0xff :: u32) k \<longleftrightarrow> k < 8" "bit (0x7ff :: u32) k \<longleftrightarrow> k < 11" "bit (0x000fffff :: u32) k \<longleftrightarrow> k < 20"
    "bit (0x001fffff :: u32) k \<longleftrightarrow> k < 21"
    unfolding m by (auto simp: bit_mask_iff)
  show "bit (0x80000000 :: u32) k \<longleftrightarrow> k = 31" "bit (0x7f800000 :: u32) k \<longleftrightarrow> 23 \<le> k \<and> k < 31"
    "bit (0x7ff00000 :: u32) k \<longleftrightarrow> 20 \<le> k \<and> k < 31"
    unfolding m bit_push_bit_iff bit_mask_iff by auto
qed

lemmas bits32 = bit_and_iff bit_or_iff bit_push_bit_iff bit_drop_bit_eq bit_32_masks bit_take_bit_iff

text \<open>The exponent of a short real, rebiased and rebiased back.\<close>

lemma scast_enc:
  assumes "n \<le> 0x7fff"
  shows "take_bit 15 (scast (enc s n) :: u32) = of_nat n"
proof (rule bit_word_eqI)
  fix k assume k: "k < LENGTH(32)"
  have "take_bit 15 (enc s n) = of_nat n"
    using enc_fields(3)[OF assms, of s] by (simp add: take_bit_eq_mask mask_eq_exp_minus_1 enc_def)
  then have *: "bit (enc s n) j \<longleftrightarrow> bit (of_nat n :: u16) j" if "j < 15" for j
    using that by (metis bit_take_bit_iff)
  have "bit (of_nat n :: u16) j \<longleftrightarrow> bit n j" if "j < 16" for j
    using that by (simp add: bit_of_nat_iff)
  moreover have "bit n k \<Longrightarrow> k < 15"
  proof -
    have "take_bit 15 n = n" using assms by (simp add: take_bit_nat_eq_self)
    then show "bit n k \<Longrightarrow> k < 15" by (metis bit_take_bit_iff)
  qed
  ultimately show "bit (take_bit 15 (scast (enc s n) :: u32)) k \<longleftrightarrow> bit (of_nat n :: u32) k"
    using k * by (auto simp: bit_take_bit_iff bit_signed_iff bit_of_nat_iff)
qed


lemma take_bit_diff_word: "take_bit j (take_bit j x - take_bit j y) = take_bit j (x - y :: u32)"
  by (transfer fixing: j) (metis take_bit_diff take_bit_take_bit min.commute)

lemma rebias:
  assumes "w = of_nat q" "q + c \<le> 0x7fff" "q < 2 ^ j" "j \<le> 15"
  shows "take_bit j (scast (enc s (q + c)) - of_nat c :: u32) = w"
proof -
  have "take_bit j (scast (enc s (q + c)) - of_nat c :: u32) =
      take_bit j (take_bit j (take_bit 15 (scast (enc s (q + c)))) - take_bit j (of_nat c))"
  proof -
    have "take_bit j (take_bit 15 x) = take_bit j x" for x :: u32 using assms(4) by (simp add: min_def)
    then show ?thesis by (simp only: take_bit_diff_word)
  qed
  also have "\<dots> = take_bit j (of_nat (q + c) - of_nat c)"
    unfolding scast_enc[OF assms(2)] by (rule take_bit_diff_word)
  also have "\<dots> = w" using assms(1,3) by (simp add: take_bit_of_nat take_bit_nat_eq_self)
  finally show ?thesis .
qed

lemma set_sign:
  assumes "n \<le> 0x7fff"
  shows "(if s then of_nat n OR 0x8000 else of_nat n :: u16) = enc s n"
  using enc_fields(4)[OF assms] by (simp add: enc_def)

lemma no_magnitude: "a AND 0x7fffffff = (0 :: u32) \<longleftrightarrow> a = 0 \<or> a = 0x80000000"
proof
  assume h: "a AND 0x7fffffff = 0"
  have "\<not> bit a k" if "k < 31" for k
    using arg_cong[OF h, of "\<lambda>w. bit w k"] that by (simp only: bit_and_iff bit_32_masks) simp
  then have *: "bit a k \<longleftrightarrow> bit a 31 \<and> k = 31" if "k < 32" for k
    using that by (cases "k < 31") (auto simp: less_Suc_eq numeral_eq_Suc dest: order.antisym)
  have "a = (if bit a 31 then 0x80000000 else 0)"
  proof (rule bit_word_eqI)
    fix k assume "k < LENGTH(32)"
    then show "bit a k = bit (if bit a 31 then 0x80000000 else 0 :: u32) k"
      using *[of k] bit_32_masks(2)[of k] by (cases "bit a 31") simp_all
  qed
  then show "a = 0 \<or> a = 0x80000000" by metis
qed auto

text \<open>
  Every short real, the denormalised ones, infinities and NaNs included, comes back from its conversion
  to a temporary real, in every rounding mode.
\<close>

theorem short_real_roundtrip: "temp_to_short (short_to_temp a) f = a"
proof (cases "a AND 0x7fffffff = 0")
  case True
  then show ?thesis unfolding no_magnitude by (auto simp: temp_to_short_def short_to_temp_def)
next
  case False
  define w where "w = drop_bit 23 a AND 0xff"
  define q where "q = unat w"
  have "w = take_bit 8 (drop_bit 23 a)" by (simp add: w_def take_bit_eq_mask mask_eq_exp_minus_1)
  then have "q < 2 ^ 8" by (simp only: q_def unsigned_take_bit_eq take_bit_nat_less_exp)
  then have q: "w = of_nat q" "q < 2 ^ 8" "q + 16256 \<le> 0x7fff" by (simp_all add: q_def)
  define e where "e = enc (sint a < 0) (q + 16256)"
  have u: "ucast (w - 127 + 16383) = (of_nat (q + 16256) :: u16)"
  proof -
    have "w - 127 + 16383 = of_nat (q + 16256)" by (simp add: q(1))
    moreover have "take_bit 32 (q + 16256) = q + 16256" using q(3) by (simp add: take_bit_nat_eq_self)
    ultimately show ?thesis by (simp only: unsigned_of_nat len_of_numeral_defs) simp
  qed
  have t: "short_to_temp a = \<lparr>tr_a = 0, tr_b = push_bit 8 a OR 0x80000000, tr_exp = e\<rparr>"
    unfolding short_to_temp_def if_not_P[OF False] w_def[symmetric] Let_def u set_sign[OF q(3)] e_def ..
  have e: "e AND 0x7fff \<noteq> 0" "sint e < 0 \<longleftrightarrow> sint a < 0" "take_bit 8 (scast e - 16383 + 127 :: u32) = w"
    using rebias[OF q(1,3,2)] enc_fields(1,2)[OF q(3), of "sint a < 0"] by (auto simp: e_def)
  have r: "(push_bit 8 a OR 0x80000000) AND 0xff = 0"
    by (rule bit_word_eqI) (unfold bits32, auto)
  define E where "E = (scast e - 16383 + 127 :: u32)"
  have "bit E j \<longleftrightarrow> bit a (j + 23)" if "j < 8" for j
    using arg_cong[OF e(3), of "\<lambda>v. bit v j"] that
    unfolding E_def[symmetric] w_def bits32 by (simp add: add.commute)
  then have *: "bit E (k - 23) \<longleftrightarrow> bit a k" if "23 \<le> k" "k < 31" for k
    using that by (auto dest!: le_Suc_ex simp: add.commute)
  have "(if sint a < 0 then (push_bit 23 E AND 0x7f800000) OR 0x80000000 else push_bit 23 E AND 0x7f800000) OR
      (drop_bit 8 (push_bit 8 a OR 0x80000000) AND 0x007fffff) = a" (is "?l = a")
  proof (rule bit_word_eqI)
    fix k assume "k < LENGTH(32)"
    then have k: "k < 32" by simp
    have "bit ?l k \<longleftrightarrow> (if k < 23 then bit a k else if k < 31 then bit E (k - 23) else bit a 31)"
      unfolding sint_neg_bit
      by (cases "bit a 31"; simp only: if_True if_False; unfold bits32; use k in auto)
    then show "bit ?l k = bit a k" using *[of k] k by (auto simp: less_Suc_eq numeral_eq_Suc split: if_splits)
  qed
  then show ?thesis
    unfolding temp_to_short_def t temp_real.simps if_not_P[OF e(1)] e(2) Let_def E_def[symmetric] r by simp
qed


lemma field_bits:
  assumes "w = drop_bit n (b :: u32) AND (mask j)" "j \<le> 15"
  shows "unat w < 2 ^ j" "w = of_nat (unat w)"
proof -
  have "w = take_bit j (drop_bit n b)" using assms(1) by (simp add: take_bit_eq_mask)
  then show "unat w < 2 ^ j" by (simp only: unsigned_take_bit_eq take_bit_nat_less_exp)
qed simp

text \<open>
  Every long real comes back from its conversion to a temporary real when the rounding mode is to nearest
  or towards zero.
\<close>

theorem long_real_roundtrip:
  assumes "ROUNDING f = ROUND_NEAREST \<or> ROUNDING f = ROUND_0"
  shows "temp_to_long (long_to_temp ab) f = ab"
proof -
  obtain a b where ab: "ab = (a, b)" by fastforce
  show ?thesis
  proof (cases "a = 0 \<and> b AND 0x7fffffff = 0")
    case True
    then show ?thesis unfolding ab no_magnitude by (auto simp: temp_to_long_def long_to_temp_def)
  next
    case False
    define w where "w = drop_bit 20 b AND 0x7ff"
    define q where "q = unat w"
    have q: "q < 2 ^ 11" "w = of_nat q" "q + 15360 \<le> 0x7fff"
      using field_bits[of w 20 b 11] by (simp_all add: w_def q_def mask_eq_exp_minus_1)
    define e where "e = enc (sint b < 0) (q + 15360)"
    have u: "ucast (w - 1023 + 16383) = (of_nat (q + 15360) :: u16)"
    proof -
      have "w - 1023 + 16383 = of_nat (q + 15360)" by (simp add: q(2))
      moreover have "take_bit 32 (q + 15360) = q + 15360" using q(3) by (simp add: take_bit_nat_eq_self)
      ultimately show ?thesis by (simp only: unsigned_of_nat len_of_numeral_defs) simp
    qed
    define tb where "tb = 0x80000000 OR push_bit 11 b OR drop_bit 21 a"
    have t: "long_to_temp (a, b) = \<lparr>tr_a = push_bit 11 a, tr_b = tb, tr_exp = e\<rparr>"
      unfolding long_to_temp_def Let_def prod.case if_not_P[OF False] w_def[symmetric] u set_sign[OF q(3)] e_def tb_def ..
    have e: "e AND 0x7fff \<noteq> 0" "sint e < 0 \<longleftrightarrow> sint b < 0"
      using enc_fields(1,2)[OF q(3), of "sint b < 0"] by (auto simp: e_def)
    define E where "E = (0x7fff AND scast e) - 16383 + (1023 :: u32)"
    have "0x7fff AND scast e = take_bit 15 (scast e :: u32)" by (simp add: take_bit_eq_mask mask_eq_exp_minus_1 and.commute)
    then have Ew: "E = w" unfolding E_def e_def scast_enc[OF q(3)] q(2) by simp
    have E: "bit E (k - 20) \<longleftrightarrow> bit b k" if "20 \<le> k" "k < 31" for k
      using that unfolding Ew w_def bits32 by (auto dest!: le_Suc_ex simp: add.commute)
    have r: "push_bit 11 a AND 0x7ff = 0" by (rule bit_word_eqI) (unfold bits32, auto)
    have lo: "push_bit 21 tb OR (drop_bit 11 (push_bit 11 a) AND 0x001fffff) = a"
      by (rule bit_word_eqI) (unfold tb_def bits32, auto dest: bit_imp_le_length)
    have hi: "(if sint b < 0 then (push_bit 20 E AND 0x7ff00000) OR 0x80000000 else push_bit 20 E AND 0x7ff00000) OR
        (drop_bit 11 tb AND 0x000fffff) = b" (is "?l = b")
    proof (rule bit_word_eqI)
      fix k assume "k < LENGTH(32)"
      then have k: "k < 32" by simp
      have "bit ?l k \<longleftrightarrow> (if k < 20 then bit b k else if k < 31 then bit E (k - 20) else bit b 31)"
        unfolding sint_neg_bit
        by (cases "bit b 31"; simp only: if_True if_False; unfold tb_def bits32; use k in \<open>auto dest: bit_imp_le_length\<close>)
      then show "bit ?l k = bit b k" using E[of k] k by (auto simp: less_Suc_eq numeral_eq_Suc split: if_splits)
    qed
    show ?thesis
      using assms
      unfolding ab temp_to_long_def t temp_real.simps if_not_P[OF e(1)] e(2) Let_def E_def[symmetric] hi lo r
      by (elim disjE; simp)
  qed
qed

text \<open>
  When rounding down, \<open>temp_to_long\<close> looks at the low byte of the operand's high word, whose bits are kept, and not at the
  eleven bits that are dropped: a negative number that a long real represents exactly is changed.
\<close>

lemma temp_to_long_rounds_exact_value:
  assumes "ROUNDING f = ROUND_DOWN"
  shows "temp_to_long (long_to_temp (0x00200000, 0xbff00000)) f = (0x00200001, 0xbff00000)"
  using assms by (simp add: long_to_temp_def temp_to_long_def Let_def add2_def addc_def sint_neg_bit)

lemma val2_inject: "val2 a b = val2 c d \<Longrightarrow> a = c \<and> b = d"
proof -
  assume "val2 a b = val2 c d"
  then have e: "unat a + 2 ^ 32 * unat b = unat c + 2 ^ 32 * unat d" by (simp add: val2_def)
  then have "(unat a + 2 ^ 32 * unat b) mod 2 ^ 32 = (unat c + 2 ^ 32 * unat d) mod 2 ^ 32" by (rule arg_cong)
  then have "unat a = unat c" using unat_u32_less[of a] unat_u32_less[of c] by simp
  with e show ?thesis by (simp add: word_unat_eq_iff)
qed

lemma shrd_low_zero:
  assumes "n < 32" "2 ^ n dvd unat lo"
  shows "shrd n lo 0 = 0"
proof -
  have "unat (shrd n lo 0) = 0"
    unfolding shrd_unat[OF assms(1)] using assms(2) by simp
  then show ?thesis by (simp add: unat_eq_zero)
qed

text \<open>The words from which \<open>real_to_int\<close> shifts, when no bit that is set is shifted out.\<close>

lemma shift_out:
  assumes "k < 64" "val2 lo hi = 2 ^ k * m"
    and sh: "(if int k < 32 then (0, lo, hi, nat (int k)) else if int k < 64
      then (lo, hi, 0, nat (int k) - 32) else (hi, 0, 0, nat (int k) - 64)) = (u0, lo0, hi0, k0)"
  shows "k0 < 32" "shrd k0 lo0 u0 = 0" "val2 lo0 hi0 = 2 ^ k0 * m"
proof -
  have "k0 < 32 \<and> shrd k0 lo0 u0 = 0 \<and> val2 lo0 hi0 = 2 ^ k0 * m"
  proof (cases "k < 32")
    case True
    have "2 ^ k dvd unat lo + 2 ^ 32 * unat hi" using assms(2) by (simp only: val2_def dvd_triv_left)
    moreover have "2 ^ k dvd 2 ^ 32 * unat hi" using True by (intro dvd_mult2 le_imp_power_dvd) simp
    ultimately have "2 ^ k dvd unat lo" using dvd_add_left_iff by blast
    then show ?thesis using True sh assms(2) shrd_low_zero by auto
  next
    case False
    have p: "(2::nat) ^ k = 2 ^ 32 * 2 ^ (k - 32)" using False power_add[of "2::nat" 32 "k - 32"] by simp
    then have e: "unat lo + 2 ^ 32 * unat hi = 2 ^ 32 * (2 ^ (k - 32) * m)"
      using assms(2) by (simp only: val2_def mult.assoc)
    then have "(unat lo + 2 ^ 32 * unat hi) mod 2 ^ 32 = 0" by simp
    then have "unat lo = 0" using unat_u32_less[of lo] by simp
    then have "lo = 0" "unat hi = 2 ^ (k - 32) * m" using e by (simp_all add: unat_eq_zero)
    moreover have "u0 = lo" "lo0 = hi" "hi0 = 0" "k0 = k - 32" using sh False assms(1) by auto
    ultimately show ?thesis using shrd_low_zero[of "k - 32" hi] assms(1) by (simp add: val2_def)
  qed
  then show "k0 < 32" "shrd k0 lo0 u0 = 0" "val2 lo0 hi0 = 2 ^ k0 * m" by blast+
qed

text \<open>
  Every 64-bit integer with a sign, except zero, comes back from its conversion to a temporary real, in
  every rounding mode and without an exception.
\<close>

theorem temp_int_roundtrip:
  assumes nz: "ti_a i \<noteq> 0 \<or> ti_b i \<noteq> 0" and s: "ti_sign i = 0 \<or> ti_sign i = 1"
  shows "real_to_int (int_to_real i) f = (i, f)"
proof -
  define neg where "neg = (ti_sign i \<noteq> 0)"
  define m where "m = val2 (ti_a i) (ti_b i)"
  have "0 < m" using nz val2_eq_0[of "ti_a i" "ti_b i"] by (auto simp: m_def)
  have "16383 + 63 + (if ti_sign i \<noteq> 0 then 0x8000 else 0) = enc neg 16446" by (simp add: enc_def neg_def)
  then obtain k lo hi where n: "norm_left (ti_a i) (ti_b i) (16383 + 63 + (if ti_sign i \<noteq> 0 then 0x8000 else 0)) =
      (lo, hi, enc neg 16446 - of_nat k)" "k < 64" "val2 lo hi = 2 ^ k * m"
    using norm_left_val[of "ti_a i" "ti_b i" "enc neg 16446"] \<open>0 < m\<close> unfolding m_def by auto
  have e: "enc neg 16446 - of_nat k = enc neg (16446 - k)" using n(2) by (simp add: enc_minus)
  have t: "int_to_real i = \<lparr>tr_a = lo, tr_b = hi, tr_exp = enc neg (16446 - k)\<rparr>"
    unfolding int_to_real_def if_P[OF nz] n(1) prod.case e ..
  have f: "16383 + 63 - int (unat (enc neg (16446 - k) AND 0x7fff)) = int k" "sint (enc neg (16446 - k)) < 0 \<longleftrightarrow> neg"
    using enc_fields(1,2)[of "16446 - k" neg] n(2) by (simp_all add: of_nat_diff)
  obtain u0 lo0 hi0 k0 where sh: "(if int k < 32 then (0, lo, hi, nat (int k)) else if int k < 64
      then (lo, hi, 0, nat (int k) - 32) else (hi, 0, 0, nat (int k) - 64)) = (u0, lo0, hi0, k0)"
    by (metis prod_cases4)
  note k0 = shift_out[OF n(2,3) sh]
  have r: "shrd k0 hi0 lo0 = ti_a i" "drop_bit k0 hi0 = ti_b i"
    using val2_inject[of "shrd k0 hi0 lo0" "drop_bit k0 hi0" "ti_a i" "ti_b i"] shrd_val[OF k0(1), of hi0 lo0]
    unfolding k0(3) m_def by simp_all
  have c: "addc 0 x False = (x, False)" "addc x 0 False = (x, False)" for x
    using unat_u32_less[of x] by (simp_all add: addc_def)
  have g: "(if neg then 1 else 0) = ti_sign i" using s by (auto simp: neg_def)
  show ?thesis
    unfolding real_to_int_def t temp_real.simps f Let_def sh prod.case k0(2) r c g
    using n(2) by (cases i) simp
qed

end
