(* ===== verification/Emulator_Props.thy ===== *)
theory Emulator_Props
  imports Math_Emulator Fpu_Props
begin

section \<open>What the coprocessor emulator keeps\<close>

text \<open>
  No instruction reaches beyond the running task; the register stack behaves as a stack; packed decimal
  integers are written and read back; examples for the properties of this theory and of \<open>Fpu_Props\<close>.
\<close>

unbundle bit_operations_syntax

subsection \<open>What an instruction may change\<close>

text \<open>
  Apart from memory management, the user's memory and the user's registers an instruction changes only the
  pending signals and the coprocessor of the running task; \<open>aborted\<close> is what \<^verbatim>\<open>math_abort\<close> leaves.
\<close>

definition but_fpu :: "task_struct \<Rightarrow> task_struct" where
  "but_fpu t = t\<lparr>signal := 0, tss := (tss t)\<lparr>tss_i387 :=
     \<lparr>cwd = 0, swd = 0, twd = 0, fip = 0, fcs = 0, foo = 0, fos = 0, st_space = (\<lambda>_. 0)\<rparr>\<rparr>\<rparr>"

lemma but_fpu_used_math: "but_fpu (t\<lparr>used_math := v\<rparr>) = (but_fpu t)\<lparr>used_math := v\<rparr>"
  by (simp add: but_fpu_def)

definition stays :: "emu_state \<Rightarrow> emu_state \<Rightarrow> bool" where
  "stays s t \<longleftrightarrow> ORIG_EIP (info t) = ORIG_EIP (info s) \<and> current t = current s \<and> task t = task s \<and>
    (\<forall>p. p \<noteq> current s \<longrightarrow> ts t p = ts s p) \<and> but_fpu (cur t) = but_fpu (cur s)"

definition aborted :: "emu_state \<Rightarrow> bool" where
  "aborted t \<longleftrightarrow> EIP (info t) = ORIG_EIP (info t) \<and> (bit (signal (cur t)) 3 \<or> bit (signal (cur t)) 7)"

definition emu_ok :: "emu_state \<Rightarrow> (emu_state, 'r option) outcome \<Rightarrow> bool" where
  "emu_ok s m \<longleftrightarrow> (\<forall>r t. m = Done r t \<longrightarrow> stays s t \<and> (r = None \<longrightarrow> aborted t))"

lemma stays_refl [simp]: "stays s s"
  by (simp add: stays_def)

lemma stays_trans: "stays s t \<Longrightarrow> stays t u \<Longrightarrow> stays s u"
  by (simp add: stays_def)

lemma stays_upd_i387 [simp]: "stays s (upd_i387 f s)"
  by (simp add: stays_def upd_i387_def upd_cur_def upd_task_def cur_def but_fpu_def)

lemma stays_upd_info [simp]: "(\<And>r. ORIG_EIP (f r) = ORIG_EIP r) \<Longrightarrow> stays s (upd_info f s)"
  by (simp add: stays_def upd_info_def cur_def)

lemma stays_put_fs [simp]:
  "stays s (put_fs_byte b a s)" "stays s (put_fs_word w a s)" "stays s (put_fs_long l a s)"
  by (simp_all add: stays_def put_fs_byte_def put_fs_word_def put_fs_long_def cur_def)

lemma stays_next:
  "next_byte s = (b, t) \<Longrightarrow> stays s t" "next_long s = (l, t) \<Longrightarrow> stays s t"
  by (auto simp: next_byte_def next_long_def)

lemma stays_set_operand [simp]: "stays s (set_operand a s)"
  by (simp add: set_operand_def)

lemma math_abort_ok: "stays s (math_abort (bit1 k) s)" "k \<in> {3, 7} \<Longrightarrow> aborted (math_abort (bit1 k) s)"
  by (auto simp: stays_def aborted_def math_abort_def upd_cur_def upd_task_def upd_info_def cur_def but_fpu_def
      bit_or_iff)

lemma stays_verify_area: "verify_area addr n s = Done u t \<Longrightarrow> stays s (t :: emu_state)"
proof -
  assume v: "verify_area addr n s = Done u t"
  then have "rest t = rest s" by (rule keepsD[OF rest_verify_area])
  then have "info t = info s" by (cases s; cases t; simp)
  then show "stays s t" using verify_area_fields[OF v] by (simp add: stays_def)
qed

text \<open>The rules by which the routines are checked.\<close>

named_theorems emu_rules

lemma emu_ok_Done [emu_rules]: "stays s t \<Longrightarrow> emu_ok s (Done (Some a) t)"
  by (simp add: emu_ok_def)

lemma emu_ok_after: "emu_ok t m \<Longrightarrow> stays s t \<Longrightarrow> emu_ok s m"
  by (auto simp: emu_ok_def intro: stays_trans)

lemma emu_ok_go_on [emu_rules]:
  assumes "emu_ok s m" "\<And>a t. stays s t \<Longrightarrow> emu_ok t (k a t)"
  shows "emu_ok s (go_on m k)"
  unfolding emu_ok_def go_on_def and_then_Done_iff
proof (intro allI impI)
  fix r t
  assume "\<exists>a u. m = Done a u \<and> (case a of None \<Rightarrow> Done None u | Some a \<Rightarrow> k a u) = Done r t"
  then obtain a u where m: "m = Done a u" and k: "(case a of None \<Rightarrow> Done None u | Some a \<Rightarrow> k a u) = Done r t"
    by blast
  have u: "stays s u" "a = None \<longrightarrow> aborted u" using assms(1) m by (auto simp: emu_ok_def)
  show "stays s t \<and> (r = None \<longrightarrow> aborted t)"
  proof (cases a)
    case (Some b)
    then show ?thesis using assms(2)[OF u(1), of b] k stays_trans[OF u(1)] by (auto simp: emu_ok_def)
  qed (use u k in auto)
qed

lemma emu_ok_verify [emu_rules]:
  assumes "\<And>t. stays s t \<Longrightarrow> emu_ok t (k () t)"
  shows "emu_ok s (and_then (verify_area addr n s) k)"
  using assms stays_verify_area stays_trans by (fastforce simp: emu_ok_def and_then_Done_iff)

lemma emu_ok_on_fpu [emu_rules]: "emu_ok s (on_fpu f s)"
  by (simp add: on_fpu_def emu_ok_def)

lemma emu_ok_abort [emu_rules]: "sig \<in> {4, 8} \<Longrightarrow> emu_ok s (abort_with sig s)"
  using math_abort_ok[where k = "sig - 1"] by (auto simp: abort_with_def emu_ok_def)

lemma sib_ok: "sib md s = (a, t) \<Longrightarrow> stays s t"
  unfolding sib_def
  by (auto simp: Let_def split: prod.splits if_splits
      dest!: stays_next intro: stays_trans[OF _ stays_set_operand] stays_trans[OF stays_trans[OF _ _] stays_set_operand])

lemma ea_ok: "ea code s = (r, t) \<Longrightarrow> stays s t \<and> (r = None \<longrightarrow> aborted t)"
  unfolding ea_def using math_abort_ok[where s = s and k = 3]
  by (auto simp: Let_def split: prod.splits if_splits
      dest!: stays_next sib_ok intro: stays_trans[OF _ stays_set_operand])

lemma emu_ok_with_ea [emu_rules]:
  assumes "\<And>addr t. stays s t \<Longrightarrow> emu_ok t (k addr t)"
  shows "emu_ok s (with_ea code k s)"
proof -
  obtain r t where e: "ea code s = (r, t)" by fastforce
  show ?thesis
  proof (cases r)
    case None
    then show ?thesis using ea_ok[OF e] by (simp add: with_ea_def e emu_ok_def)
  next
    case (Some a)
    have "stays s t" using ea_ok[OF e] by blast
    then show ?thesis using emu_ok_after[OF assms] by (simp add: with_ea_def e Some)
  qed
qed


lemma stays_later:
  "stays s t \<Longrightarrow> stays s (put_fs_byte b a t)" "stays s t \<Longrightarrow> stays s (put_fs_word w a t)"
  "stays s t \<Longrightarrow> stays s (put_fs_long l a t)" "stays s t \<Longrightarrow> stays s (upd_i387 f t)"
  using stays_trans stays_put_fs stays_upd_i387 by blast+

lemma gets_ok [emu_rules]:
  "emu_ok s (get_short_real code s)" "emu_ok s (get_long_real code s)" "emu_ok s (get_temp_real code s)"
  "emu_ok s (get_short_int code s)" "emu_ok s (get_long_int code s)" "emu_ok s (get_longlong_int code s)"
  "emu_ok s (get_BCD code s)"
  by (auto simp: get_short_real_def get_long_real_def get_temp_real_def get_short_int_def get_long_int_def
      get_longlong_int_def get_BCD_def Let_def split: prod.splits intro!: emu_rules)

lemma top_to_int_stays: "top_to_int s = (ti, t) \<Longrightarrow> stays s t"
  by (auto simp: top_to_int_def split: prod.splits)

lemma emu_ok_top:
  assumes "\<And>ti t. stays s t \<Longrightarrow> emu_ok t (k ti t)"
  shows "emu_ok s (case top_to_int s of (ti, t) \<Rightarrow> k ti t)"
proof -
  obtain ti t where e: "top_to_int s = (ti, t)" by fastforce
  show ?thesis using emu_ok_after[OF assms] top_to_int_stays[OF e] by (simp add: e)
qed

lemma stays_bcd_write: "stays s (bcd_write k v addr s)"
proof (induction k v addr s rule: bcd_write.induct)
  case (2 k v addr s)
  then show ?case by (auto split: prod.split intro: stays_trans[OF stays_put_fs(1)])
qed simp

lemma puts_ok [emu_rules]:
  "emu_ok s (put_short_real code s)" "emu_ok s (put_long_real code s)" "emu_ok s (put_temp_real code s)"
  "emu_ok s (put_short_int code s)" "emu_ok s (put_long_int code s)" "emu_ok s (put_longlong_int code s)"
  "emu_ok s (put_BCD code s)"
  by (auto simp: put_short_real_def put_long_real_def put_temp_real_def put_short_int_def put_long_int_def
      put_longlong_int_def put_BCD_def Let_def split: prod.splits
      intro!: emu_rules emu_ok_top stays_later stays_trans[OF _ stays_bcd_write])

lemma stays_i387_loops: "stays s (load_i387 n addr s)" "stays s (store_i387 n addr s)"
  unfolding load_i387_def store_i387_def
  by (rule fold_invariant_rule, simp, erule stays_trans, rule stays_upd_i387)
    (rule fold_invariant_rule, simp, erule stays_trans, rule stays_put_fs)

lemma emu_fixed_ok: "emu_fixed code = Some f \<Longrightarrow> emu_ok s (f s)"
  unfolding emu_fixed_def by (auto split: if_splits intro!: emu_rules)

lemma emu_register_ok: "emu_register tmp op i = Some f \<Longrightarrow> emu_ok s (f s)"
  unfolding emu_register_def by (auto split: if_splits intro!: emu_rules)

lemma emu_memory_ok: "emu_memory op code = Some f \<Longrightarrow> emu_ok s (f s)"
  unfolding emu_memory_def pop_after_def push_before_def
  by (auto split: if_splits intro!: emu_rules stays_i387_loops emu_ok_after[OF emu_ok_on_fpu stays_i387_loops(2)]
      intro: emu_ok_after[OF _ stays_upd_i387])

lemma emu_operand_ok [emu_rules]: "emu_ok s (emu_operand tmp code s)"
  unfolding emu_operand_def Let_def by (auto intro!: emu_rules)

lemma emu_arith_ok [emu_rules]: "emu_ok s (emu_arith code tmp s)"
  unfolding emu_arith_def Let_def by (auto intro!: emu_rules)

lemma emu_switch_ok: "emu_ok s (emu_switch tmp code s)"
  unfolding emu_switch_def
  by (auto split: option.split intro: emu_fixed_ok emu_register_ok emu_memory_ok intro!: emu_rules)


text \<open>
  C36. Whatever the instruction, the emulator touches no task but the running one and of that one only the
  coprocessor, the pending signals and \<open>used_math\<close>. When it aborts, the instruction pointer is back at the
  instruction and SIGILL or SIGFPE is pending.
\<close>

theorem emulation_confined:
  assumes "math_emulate tmp s = Done r t"
  shows "current t = current s \<and> task t = task s \<and> (\<forall>p. p \<noteq> current s \<longrightarrow> ts t p = ts s p) \<and>
    but_fpu ((cur t)\<lparr>used_math := 0\<rparr>) = but_fpu ((cur s)\<lparr>used_math := 0\<rparr>) \<and>
    (r = None \<longrightarrow> EIP (info t) = EIP (info s) \<and> (bit (signal (cur t)) 3 \<or> bit (signal (cur t)) 7))"
proof -
  define s0 where "s0 = (if used_math (cur s) = 0 then upd_i387 fninit (upd_cur (\<lambda>t. t\<lparr>used_math := 1\<rparr>) s) else s)"
  define s1 where "s1 = upd_info (\<lambda>r. r\<lparr>ORIG_EIP := EIP r\<rparr>) (upd_i387 (\<lambda>f.
    if cwd f AND swd f AND 0x3f \<noteq> 0 then f\<lparr>swd := swd f OR 0x8000\<rparr> else f\<lparr>swd := swd f AND 0x7fff\<rparr>) s0)"
  have m: "do_emu tmp s0 = Done r t" using assms by (simp add: math_emulate_def s0_def)
  obtain code where s: "emu_switch tmp code (upd_info (\<lambda>r. r\<lparr>EIP := EIP r + 2\<rparr>) (upd_i387
      (\<lambda>f. f\<lparr>fip := EIP (info s1), fcs := ucast (CS (info s1)) OR push_bit 16 (ucast code)\<rparr>) s1)) = Done r t"
      (is "emu_switch _ _ ?s2 = _")
    using m unfolding do_emu_def Let_def s1_def[symmetric] by (auto split: if_splits)
  have "stays s1 ?s2" by (rule stays_trans[OF stays_upd_i387 stays_upd_info]) simp
  then have e: "stays s1 t \<and> (r = None \<longrightarrow> aborted t)"
    using emu_ok_after[OF emu_switch_ok] s unfolding emu_ok_def by blast
  have s0: "current s0 = current s" "task s0 = task s" "\<forall>p. p \<noteq> current s \<longrightarrow> ts s0 p = ts s p"
    "but_fpu ((cur s0)\<lparr>used_math := 0\<rparr>) = but_fpu ((cur s)\<lparr>used_math := 0\<rparr>)" "info s0 = info s"
    by (simp_all add: s0_def upd_i387_def upd_cur_def upd_task_def cur_def but_fpu_def)
  have "current s1 = current s0" "task s1 = task s0" "\<forall>p. p \<noteq> current s0 \<longrightarrow> ts s1 p = ts s0 p"
    "but_fpu ((cur s1)\<lparr>used_math := 0\<rparr>) = but_fpu ((cur s0)\<lparr>used_math := 0\<rparr>)" "ORIG_EIP (info s1) = EIP (info s0)"
    by (simp_all add: s1_def upd_info_def upd_i387_def upd_cur_def upd_task_def cur_def but_fpu_def)
  moreover have "but_fpu ((cur t)\<lparr>used_math := 0\<rparr>) = but_fpu ((cur s1)\<lparr>used_math := 0\<rparr>)"
    using e unfolding but_fpu_used_math by (simp add: stays_def)
  ultimately show ?thesis using e s0 by (simp add: stays_def aborted_def)
qed

text \<open>An instruction that is not implemented, at address 0 of the user's memory: \<^verbatim>\<open>fsin\<close>.\<close>

definition demo_emu :: emu_state where
  "demo_emu = kstate.extend (demo_kernel\<lparr>fs_mem := (\<lambda>a. if a = 0 then 0xd9 else 0xfe)\<rparr>)
    \<lparr>info = \<lparr>ORIG_EIP = 5, EAX = 0, EBX = 0, ECX = 0, EDX = 0, ESI = 0, EDI = 0, EBP = 0, ESP = 0,
      EIP = 0, CS = 0xf\<rparr>\<rparr>"

lemma upd_sel [simp]:
  "info (upd_i387 f s) = info s" "fs_mem (upd_i387 f s) = fs_mem s" "fs_mem (upd_info h s) = fs_mem s"
  "info (upd_info h s) = h (info s)" "info (upd_cur g s) = info s" "fs_mem (upd_cur g s) = fs_mem s"
  by (simp_all add: upd_i387_def upd_info_def upd_cur_def upd_task_def)

lemma get_fs_word_upd [simp]:
  "get_fs_word a (upd_i387 f s) = get_fs_word a s" "get_fs_word a (upd_info h s) = get_fs_word a s"
  "get_fs_word a (upd_cur g s) = get_fs_word a s"
  by (simp_all add: get_fs_word_def)

lemma emulated_fixed:
  assumes "CS (info s) = 0xf" "emu_fixed (bswapw (get_fs_word (EIP (info s)) s) AND 0x7ff) = Some f"
  shows "\<exists>u. math_emulate tmp s = f u"
proof -
  have "\<exists>u. do_emu tmp s0 = f u" if "info s0 = info s" "fs_mem s0 = fs_mem s" for s0
  proof -
    have "get_fs_word a s0 = get_fs_word a s" for a using that(2) by (simp add: get_fs_word_def)
    then show ?thesis using assms that(1) by (auto simp: do_emu_def Let_def emu_switch_def)
  qed
  then show ?thesis by (simp add: math_emulate_def)
qed

lemma demo_emu_sel: "info demo_emu = \<lparr>ORIG_EIP = 5, EAX = 0, EBX = 0, ECX = 0, EDX = 0, ESI = 0, EDI = 0, EBP = 0,
    ESP = 0, EIP = 0, CS = 0xf\<rparr>" "fs_mem demo_emu = (\<lambda>a. if a = 0 then 0xd9 else 0xfe)"
  by (simp_all add: demo_emu_def kstate.defs)

theorem emulation_confined_witness:
  "\<exists>t. math_emulate CONSTZ demo_emu = Done None t \<and> EIP (info t) = 0 \<and>
    (bit (signal (cur t)) 3 \<or> bit (signal (cur t)) 7)"
proof -
  have "bswapw (get_fs_word (EIP (info demo_emu)) demo_emu) AND 0x7ff = 0x1fe"
    by (simp add: bswapw_def get_fs_word_def demo_emu_sel)
  moreover have "emu_fixed 0x1fe = Some (abort_with 4)" by (simp add: emu_fixed_def)
  ultimately obtain u where "math_emulate CONSTZ demo_emu = abort_with 4 u"
    using emulated_fixed[of demo_emu "abort_with 4" CONSTZ] by (auto simp: demo_emu_sel)
  then obtain t where t: "math_emulate CONSTZ demo_emu = Done None t" by (simp add: abort_with_def)
  then show ?thesis using emulation_confined[OF t] by (auto simp: demo_emu_sel)
qed

subsection \<open>The register stack\<close>

definition top_of :: "i387_struct \<Rightarrow> nat" where
  "top_of f = unat (drop_bit 11 (swd f)) mod 8"

lemma unat_and_7: "unat (w AND 7 :: u32) = unat w mod 8"
proof -
  have "w AND 7 = take_bit 3 w" by (simp add: take_bit_eq_mask mask_eq_exp_minus_1)
  then show ?thesis by (simp only: unsigned_take_bit_eq) (simp add: take_bit_eq_mod)
qed

lemma st_index_top: "st_index i f = (i + top_of f) mod 8"
proof -
  have "unat (of_nat i + drop_bit 11 (swd f) :: u32) mod 8 = (i + unat (drop_bit 11 (swd f))) mod 8"
  proof -
    have "(n mod 2 ^ 32) mod 8 = n mod (8 :: nat)" for n by (rule mod_mod_cancel) simp
    then show ?thesis by (simp add: unat_word_ariths unat_of_nat mod_simps)
  qed
  then show ?thesis unfolding st_index_def unat_and_7 by (simp add: top_of_def mod_simps)
qed

lemma drop_field: "drop_bit 11 ((v AND (0x3800 :: u32)) OR (x AND 0xffffc7ff)) AND 7 = drop_bit 11 v AND 7"
proof -
  have "drop_bit 11 (0x3800 :: u32) = 7" "drop_bit 11 (0xffffc7ff :: u32) = 0x1ffff8" by simp_all
  then show ?thesis
    by (simp only: drop_bit_or drop_bit_and bit.conj_disj_distrib2 and.assoc) simp
qed

lemma top_of_field:
  assumes "swd g = ((swd f + of_nat (k * 2048)) AND 0x3800) OR (swd f AND 0xffffc7ff)"
  shows "top_of g = (top_of f + k) mod 8"
proof -
  define x where "x = unat (swd f)"
  have e: "unat (drop_bit 11 w) = unat w div 2048" for w :: u32
    by (simp only: unat_drop_bit_eq drop_bit_eq_div[where 'a = nat]) simp
  have "top_of g = unat (drop_bit 11 (swd g) AND 7)" by (simp only: top_of_def unat_and_7)
  also have "\<dots> = unat (swd f + of_nat (k * 2048)) div 2048 mod 8" by (simp only: assms drop_field unat_and_7 e)
  also have "unat (swd f + of_nat (k * 2048)) = (x + k * 2048) mod 2 ^ 32"
    by (simp add: x_def unat_word_ariths unat_of_nat mod_simps)
  also have "(x + k * 2048) mod 2 ^ 32 div 2048 mod 8 = (x + k * 2048) div 2048 mod 8"
    using mod_mult2_eq[of "x + k * 2048" 2048 "2 ^ 21"] by (simp add: mod_mod_cancel)
  also have "\<dots> = (x div 2048 + k) mod 8" by (simp add: add.commute)
  finally show ?thesis by (simp only: top_of_def e x_def mod_add_left_eq)
qed

lemma top_of_fpush: "top_of (fpush f) = (top_of f + 7) mod 8"
  by (rule top_of_field) (simp add: fpush_def)

lemma top_of_fpop: "top_of (fpop f) = (top_of f + 1) mod 8"
  by (rule top_of_field) (simp add: fpop_def)

lemma bytes_long_at:
  "bytes_long (long_bytes_at k v m) k = v"
  "k + 4 \<le> j \<or> j + 4 \<le> k \<Longrightarrow> bytes_long (long_bytes_at k v m) j = bytes_long m j"
  "j < k \<or> k + 4 \<le> j \<Longrightarrow> long_bytes_at k v m j = m j"
  using long_bytes[of v] by (auto simp: bytes_long_def long_bytes_at_def)

lemma bytes_long_upd:
  "j \<notin> {k, k + 1, k + 2, k + 3} \<Longrightarrow> bytes_long (m(j := v)) k = bytes_long m k"
  by (auto simp: bytes_long_def)

lemma word_bytes:
  "(ucast (ucast w :: u8) :: u16) OR push_bit 8 (ucast (ucast (drop_bit 8 w) :: u8)) = (w :: u16)" (is "?l = w")
proof (rule bit_word_eqI)
  fix n assume "n < LENGTH(16)"
  then consider "n < 8" | "8 \<le> n" "n < 16" by fastforce
  then show "bit ?l n = bit w n"
    by cases (auto simp: bit_or_iff bit_push_bit_iff bit_ucast_iff bit_drop_bit_eq)
qed

text \<open>The ten bytes of different registers do not overlap.\<close>

lemma get_put_st: "get_st i (put_st j r f) = (if st_index i f = st_index j f then r else get_st i f)"
proof -
  have idx: "st_index i (put_st j r f) = st_index i f" by (simp add: st_index_def put_st_def Let_def)
  define a b where "a = st_index i f" and "b = st_index j f"
  show ?thesis
  proof (cases "a = b")
    case True
    then show ?thesis
      unfolding get_st_def idx a_def[symmetric] Let_def
      by (simp add: put_st_def Let_def b_def[symmetric] a_def[symmetric] bytes_long_upd bytes_long_at word_bytes)
  next
    case False
    then have "10 * a + 10 \<le> 10 * b \<or> 10 * b + 10 \<le> 10 * a" by linarith
    then show ?thesis
      using False unfolding get_st_def idx a_def[symmetric] Let_def
      by (auto simp: put_st_def Let_def b_def[symmetric] a_def[symmetric] bytes_long_upd bytes_long_at)
  qed
qed

text \<open>
  C40. A load pushes: the number loaded is on top and every other register but the bottom one, which is lost,
  is found one place further down; a pop brings each register one place up again.
\<close>

theorem push_real_stack:
  "get_st 0 (push_real r f) = r \<and> (\<forall>i<7. get_st (i + 1) (push_real r f) = get_st i f) \<and>
   (\<forall>i. get_st i (fpop f) = get_st (i + 1) f)"
proof -
  have sp: "get_st i g = get_st j h" if "st_space g = st_space h" "st_index i g = st_index j h" for i j g h
    using that by (simp add: get_st_def Let_def)
  have m: "(i + 1 + (t + 7) mod 8) mod 8 = (i + t) mod 8" "(i + (t + 1) mod 8) mod 8 = (i + 1 + t) mod 8" for i t :: nat
  proof -
    have "i + 1 + (t + 7) = i + t + 8" by simp
    then show "(i + 1 + (t + 7) mod 8) mod 8 = (i + t) mod 8" by (metis mod_add_right_eq mod_add_self2)
    have "i + (t + 1) = i + 1 + t" by simp
    then show "(i + (t + 1) mod 8) mod 8 = (i + 1 + t) mod 8" by (metis mod_add_right_eq)
  qed
  have ne: "(i + 1 + t) mod 8 \<noteq> (0 + t) mod 8" if "i < 7" for i t :: nat
    using that mod_eq_dvd_iff_nat[of "0 + t" "i + 1 + t" 8] by (auto dest: dvd_imp_le)
  have "st_index (i + 1) (fpush f) = st_index i f" "st_index i (fpop f) = st_index (i + 1) f" for i
    unfolding st_index_top top_of_fpush top_of_fpop by (rule m)+
  moreover have "st_space (fpush f) = st_space f" "st_space (fpop f) = st_space f"
    by (simp_all add: fpush_def fpop_def)
  ultimately have *: "get_st (i + 1) (fpush f) = get_st i f" "get_st i (fpop f) = get_st (i + 1) f" for i
    using sp by blast+
  have "st_index (i + 1) (fpush f) \<noteq> st_index 0 (fpush f)" if "i < 7" for i
    using that unfolding st_index_top by (rule ne)
  then show ?thesis using * by (simp add: push_real_def get_put_st)
qed

subsection \<open>Decimal integers\<close>

fun val2_of :: "u32 \<times> u32 \<Rightarrow> nat" where
  "val2_of (a, b) = val2 a b"

lemma val2_of_inject: "val2_of v = val2 a b \<Longrightarrow> v = (a, b)"
  using val2_inject by (cases v) simp

lemma add2_val': "val2_of (add2 a b c d) = (val2 a b + val2 c d) mod 2 ^ 64"
  using add2_val[of a b c d] by (cases "add2 a b c d") simp

lemma MUL10_val: "val2_of (MUL10 v) = 10 * val2_of v mod 2 ^ 64"
proof -
  obtain lo hi where v: "v = (lo, hi)" by fastforce
  obtain c b where 1: "add2 lo hi lo hi = (c, b)" by fastforce
  obtain l1 h1 where 2: "add2 c b c b = (l1, h1)" by fastforce
  obtain l2 h2 where 3: "add2 l1 h1 l1 h1 = (l2, h2)" by fastforce
  have e: "val2 c b = 2 * val2 lo hi mod 2 ^ 64" "val2 l1 h1 = 4 * val2 lo hi mod 2 ^ 64"
    "val2 l2 h2 = 8 * val2 lo hi mod 2 ^ 64"
    using add2_val'[of lo hi lo hi] add2_val'[of c b c b] add2_val'[of l1 h1 l1 h1] 1 2 3
    by (simp_all add: mod_simps flip: mult_2)
  have "val2_of (MUL10 v) = (val2 c b + val2 l2 h2) mod 2 ^ 64" by (simp add: MUL10_def v 1 2 3 add2_val')
  then show ?thesis unfolding e v by (simp add: mod_simps)
qed

lemma ADD64_val: "val2_of (ADD64 n v) = (unat n + val2_of v) mod 2 ^ 64"
  by (cases v) (simp add: ADD64_def add2_val' val2_def[of n 0])

text \<open>Two decimal digits in a byte.\<close>

definition bcd_of :: "nat \<Rightarrow> u8" where
  "bcd_of n = of_nat (n mod 10 + 16 * (n div 10))"

lemma nibbles:
  assumes "n < 100"
  shows "unat (bcd_of n AND 0xf) = n mod 10" "unat (drop_bit 4 (bcd_of n)) = n div 10"
proof -
  have u: "unat (bcd_of n) = n mod 10 + 16 * (n div 10)"
  proof -
    have "n div 10 < 10" "n mod 10 < 10" using assms by (simp_all add: less_mult_imp_div_less)
    then have "n mod 10 + 16 * (n div 10) < 256" by linarith
    then show ?thesis unfolding bcd_of_def by (simp only: unat_of_nat len_of_numeral_defs) simp
  qed
  have "bcd_of n AND 0xf = take_bit 4 (bcd_of n)" by (simp add: take_bit_eq_mask mask_eq_exp_minus_1)
  then show "unat (bcd_of n AND 0xf) = n mod 10"
    by (simp only: unsigned_take_bit_eq u) (simp add: take_bit_eq_mod)
  show "unat (drop_bit 4 (bcd_of n)) = n div 10"
    by (simp only: unat_drop_bit_eq u) (simp add: drop_bit_eq_div)
qed

lemma bcd_byte_val:
  assumes "n < 100"
  shows "val2_of (bcd_byte (bcd_of n) v) = (100 * val2_of v + n) mod 2 ^ 64"
proof -
  have u: "unat (ucast (b :: u8) :: u32) = unat b" for b
    using unsigned_less[of b, where 'a = nat] by (simp add: unsigned_ucast_eq take_bit_nat_eq_self)
  have "val2_of (bcd_byte (bcd_of n) v) = (n mod 10 + 10 * (n div 10 + 10 * val2_of v)) mod 2 ^ 64"
    by (simp add: bcd_byte_def ADD64_val MUL10_val u nibbles[OF assms] mod_simps)
  also have "n mod 10 + 10 * (n div 10 + 10 * val2_of v) = 100 * val2_of v + n" by simp
  finally show ?thesis .
qed

lemma DIV10_val:
  "(case DIV10 (lo, hi) of (lo', hi', r) \<Rightarrow> val2 lo' hi' = val2 lo hi div 10 \<and> unat r = val2 lo hi mod 10)"
proof -
  define r where "r = unat hi mod 10"
  define x where "x = r * 2 ^ 32 + unat lo"
  have "r \<le> 9" by (simp add: r_def)
  then have "x < 10 * 2 ^ 32" using unat_u32_less[of lo] unfolding x_def by simp
  then have "x div 10 < 2 ^ 32" by simp
  then have u: "unat (of_nat (x div 10) :: u32) = x div 10" "unat (of_nat (x mod 10) :: u32) = x mod 10"
    by (simp_all add: unat_of_nat)
  have v: "val2 lo hi = 10 * (2 ^ 32 * (unat hi div 10)) + x"
  proof -
    obtain h k where h: "unat hi = 10 * h + k" "unat hi div 10 = h" "unat hi mod 10 = k"
      using mult_div_mod_eq[of 10 "unat hi"] by metis
    show ?thesis unfolding val2_def x_def r_def h(2,3) unfolding h(1) by simp
  qed
  have "DIV10 (lo, hi) = (of_nat (x div 10), hi div 10, of_nat (x mod 10))"
    by (simp add: DIV10_def Let_def x_def r_def)
  moreover define z where "z = 2 ^ 32 * (unat hi div 10)"
  have "val2 lo hi = 10 * z + x" unfolding v z_def ..
  then have "val2 lo hi div 10 = x div 10 + z" "val2 lo hi mod 10 = x mod 10" by simp_all
  ultimately show ?thesis by (simp add: val2_def[of "of_nat (x div 10)"] u unat_div z_def)
qed

lemma bcd_digits_val:
  assumes "bcd_digits v = (c, w)"
  shows "c = bcd_of (val2_of v mod 100) \<and> val2_of w = val2_of v div 100"
proof -
  obtain lo hi where v: "v = (lo, hi)" by fastforce
  obtain l1 h1 r1 where 1: "DIV10 (lo, hi) = (l1, h1, r1)" by (metis prod_cases3)
  obtain l2 h2 r2 where 2: "DIV10 (l1, h1) = (l2, h2, r2)" by (metis prod_cases3)
  define n where "n = val2 lo hi"
  have r: "val2 l1 h1 = n div 10" "unat r1 = n mod 10" "val2 l2 h2 = n div 10 div 10" "unat r2 = n div 10 mod 10"
    using DIV10_val[of lo hi] DIV10_val[of l1 h1] unfolding 1 2 n_def by auto
  have c: "c = ucast r1 + ucast (push_bit 4 r2)" "w = (l2, h2)"
    using assms by (simp_all add: bcd_digits_def v 1 2)
  have "n mod 10 < 10" "n div 10 mod 10 < 10" by simp_all
  moreover have "unat (push_bit 4 r2) = 16 * (n div 10 mod 10)"
    using \<open>n div 10 mod 10 < 10\<close>
    by (simp only: unsigned_push_bit_eq r(4)) (simp add: push_bit_eq_mult take_bit_nat_eq_self)
  ultimately have "unat c = n mod 10 + 16 * (n div 10 mod 10)"
    unfolding c(1) by (simp add: unat_word_ariths unsigned_ucast_eq r(2) take_bit_nat_eq_self)
  moreover have "c = of_nat m" if "unat c = m" for m using that by auto
  ultimately have "c = of_nat (n mod 10 + 16 * (n div 10 mod 10))" by blast
  moreover have "n mod 100 mod 10 = n mod 10" "n mod 100 div 10 = n div 10 mod 10"
    using mod_mult2_eq[of n 10 10] by (simp_all add: mod_mod_cancel)
  ultimately show ?thesis using c r by (simp add: v n_def[symmetric] bcd_of_def div_mult2_eq[symmetric])
qed


lemma bcd_write_mem:
  assumes "n \<le> 16"
  shows "fs_mem (bcd_write n v addr s) x =
    (if unat (x - addr) < n then bcd_of (val2_of v div 100 ^ unat (x - addr) mod 100) else fs_mem s x)"
  using assms
proof (induction n arbitrary: v addr s)
  case (Suc n)
  obtain c w where d: "bcd_digits v = (c, w)" by (cases "bcd_digits v")
  note cw = bcd_digits_val[OF d]
  have step: "unat (x - addr) = Suc (unat (x - (addr + 1)))" if "x \<noteq> addr"
  proof -
    have "x - addr \<noteq> 0" using that by simp
    then have "unat (x - addr - 1) = unat (x - addr) - 1" by (simp add: unat_minus_one)
    moreover have "0 < unat (x - addr)" using \<open>x - addr \<noteq> 0\<close> by (simp add: unat_gt_0)
    ultimately show ?thesis by (simp add: algebra_simps)
  qed
  show ?case
  proof (cases "x = addr")
    case True
    have "x - (addr + 1) = - 1" using True by simp
    then have "\<not> unat (x - (addr + 1)) < n" using Suc.prems by (simp add: unsigned_minus_1_eq_mask mask_eq_exp_minus_1)
    then show ?thesis using Suc.IH[of w "addr + 1" "put_fs_byte c addr s"] Suc.prems True cw
      by (simp add: d put_fs_byte_def)
  next
    case False
    then show ?thesis using Suc.IH[of w "addr + 1" "put_fs_byte c addr s"] Suc.prems cw
      by (simp add: d put_fs_byte_def step[OF False] div_mult2_eq)
  qed
qed simp

lemma bcd_fold:
  assumes "n \<le> 9"
    and "\<And>k. k < 9 \<Longrightarrow> m (addr + of_nat (8 - k)) = bcd_of (V div 100 ^ (8 - k) mod 100)"
  shows "val2_of (fold (\<lambda>k. bcd_byte (m (addr + of_nat (8 - k)))) [0..<n] (0, 0)) = V div 100 ^ (9 - n) mod 100 ^ n"
  using assms(1)
proof (induction n)
  case 0
  then show ?case by (simp add: val2_def)
next
  case (Suc n)
  define W where "W = V div 100 ^ (8 - n)"
  have "9 - n = Suc (8 - n)" using Suc.prems by simp
  then have p: "(100::nat) ^ (9 - n) = 100 ^ (8 - n) * 100" by (simp only: power_Suc2)
  have "(100::nat) ^ Suc n \<le> 100 ^ 9" using Suc.prems by (intro power_increasing) simp_all
  moreover have "W mod 100 ^ Suc n < 100 ^ Suc n" by simp
  moreover have "(100::nat) ^ 9 < 2 ^ 64" by simp
  ultimately have lt: "W mod 100 ^ Suc n < 2 ^ 64" by (meson order.strict_trans1 order.strict_trans less_le_trans)
  have "val2_of (fold (\<lambda>k. bcd_byte (m (addr + of_nat (8 - k)))) [0..<Suc n] (0, 0)) =
      (100 * (W div 100 mod 100 ^ n) + W mod 100) mod 2 ^ 64"
    using Suc assms(2)[of n] by (simp add: bcd_byte_val p div_mult2_eq W_def[symmetric])
  also have "100 * (W div 100 mod 100 ^ n) + W mod 100 = W mod 100 ^ Suc n"
    using mod_mult2_eq[of W 100 "100 ^ n"] by simp
  finally show ?case using lt Suc.prems by (simp add: W_def)
qed

text \<open>
  C39. The packed decimal digits \<open>put_BCD\<close> writes for an integer of up to 18 digits are read back by \<open>get_BCD\<close>
  as the same integer, wherever in the address space they stand.
\<close>

theorem bcd_roundtrip:
  assumes "val2 a b < 10 ^ 18"
  shows "bcd_read addr (bcd_write 9 (a, b) addr (put_fs_byte sg (addr + 9) s)) =
    \<lparr>ti_a = a, ti_b = b, ti_sign = 0x80 AND ucast sg\<rparr>"
proof -
  define u where "u = bcd_write 9 (a, b) addr (put_fs_byte sg (addr + 9) s)"
  have mem: "fs_mem u x = (if unat (x - addr) < 9 then bcd_of (val2 a b div 100 ^ unat (x - addr) mod 100)
      else fs_mem (put_fs_byte sg (addr + 9) s) x)" for x
    unfolding u_def using bcd_write_mem[of 9 "(a, b)" addr "put_fs_byte sg (addr + 9) s" x] by simp
  have sgn: "fs_mem u (addr + 9) = sg" by (simp add: mem put_fs_byte_def)
  have m: "fs_mem u (addr + of_nat (8 - k)) = bcd_of (val2 a b div 100 ^ (8 - k) mod 100)" for k
  proof -
    have "unat (of_nat (8 - k) :: u32) = 8 - k" by (simp add: unat_of_nat)
    moreover have "8 - k < 9" by simp
    ultimately show ?thesis by (simp only: mem add_diff_cancel_left' if_True)
  qed
  have "val2_of (fold (\<lambda>k. bcd_byte (fs_mem u (addr + of_nat (8 - k)))) [0..<9] (0, 0)) =
      val2 a b div 100 ^ (9 - 9) mod 100 ^ 9"
    by (rule bcd_fold[OF order_refl m])
  also have "\<dots> = val2 a b" using assms by simp
  finally have "val2_of (fold (\<lambda>k. bcd_byte (fs_mem u (addr + of_nat (8 - k)))) [0..<9] (0, 0)) = val2 a b" .
  then have "fold (\<lambda>k. bcd_byte (fs_mem u (addr + of_nat (8 - k)))) [0..<9] (0, 0) = (a, b)"
    by (rule val2_of_inject)
  then show ?thesis unfolding u_def[symmetric] by (simp only: bcd_read_def get_fs_byte_def sgn Let_def prod.case)
qed

theorem bcd_roundtrip_witness:
  "bcd_read 0x100 (bcd_write 9 (1992, 0) 0x100 (put_fs_byte 0x80 (0x100 + 9) demo_kernel)) =
    \<lparr>ti_a = 1992, ti_b = 0, ti_sign = 0x80\<rparr>"
proof -
  have "val2 1992 0 < 10 ^ 18" by (simp add: val2_def)
  note bcd_roundtrip[OF this, of "0x100" "0x80" demo_kernel]
  moreover have "0x80 AND ucast (0x80 :: u8) = (0x80 :: u16)" by simp
  ultimately show ?thesis by (simp only:)
qed

subsection \<open>Examples\<close>

text \<open>One and three.\<close>

definition real_1 :: temp_real where "real_1 = \<lparr>tr_a = 0, tr_b = 0x80000000, tr_exp = 0x3fff\<rparr>"
definition real_3 :: temp_real where "real_3 = \<lparr>tr_a = 0, tr_b = 0xc0000000, tr_exp = 0x4000\<rparr>"

definition demo_fpu :: i387_struct where
  "demo_fpu = \<lparr>cwd = 0x37f, swd = 0, twd = 0, fip = 0, fcs = 0, foo = 0, fos = 0, st_space = (\<lambda>_. 0)\<rparr>"

lemma demo_reals:
  "mant real_1 = 2 ^ 63" "mant real_3 = 3 * 2 ^ 62" "expo real_1 = 16383" "expo real_3 = 16384"
  "normal real_1" "normal real_3" "\<not> negative real_1" "\<not> negative real_3"
  by (simp_all add: real_1_def real_3_def mant_def expo_def normal_def negative_def val2_def)

theorem push_real_stack_witness:
  "get_st 0 (push_real real_3 demo_fpu) = real_3 \<and> get_st 1 (push_real real_3 demo_fpu) = get_st 0 demo_fpu"
  using push_real_stack[of real_3 demo_fpu] by (metis add_0 zero_less_numeral)

theorem fmul_truncates_witness:
  "\<exists>r. fmul real_3 real_3 CONSTZ demo_fpu = (r, demo_fpu) \<and> mant r = 9 * 2 ^ 60 \<and> expo r = 16386"
  using fmul_truncates[of real_3 real_3 CONSTZ demo_fpu] demo_reals by auto

theorem fdiv_truncates_witness:
  "\<exists>r. fdiv real_1 real_3 CONSTZ demo_fpu = (r, demo_fpu) \<and> expo r = 16381 \<and> \<not> negative r"
  using fdiv_truncates[of real_1 real_3 CONSTZ demo_fpu] demo_reals by auto

theorem fadd_exact_witness: "tr_val (fadd real_1 real_3) = tr_val real_1 + tr_val real_3"
proof -
  have "aligned real_1 real_3" by (simp add: aligned_def demo_reals)
  from fadd_exact[OF this] show ?thesis by (simp add: demo_reals)
qed

theorem fcom_exact_witness: "swd (fcom real_3 real_1 demo_fpu) = 0x0100"
proof -
  have a: "aligned real_3 real_1" by (simp add: aligned_def demo_reals)
  have "tr_val real_1 < tr_val real_3" by (simp add: tr_val_def demo_reals power_int_minus)
  then show ?thesis using fcom_exact[OF a, of demo_fpu] by (simp add: demo_reals) (simp add: demo_fpu_def)
qed

theorem long_real_roundtrip_witness: "temp_to_long (long_to_temp (1, 0x3ff00000)) demo_fpu = (1, 0x3ff00000)"
proof -
  have "ROUNDING demo_fpu = ROUND_NEAREST \<or> ROUNDING demo_fpu = ROUND_0" by (simp add: ROUNDING_def demo_fpu_def)
  then show ?thesis by (rule long_real_roundtrip)
qed

theorem temp_int_roundtrip_witness:
  "real_to_int (int_to_real \<lparr>ti_a = 5, ti_b = 0, ti_sign = 1\<rparr>) demo_fpu = (\<lparr>ti_a = 5, ti_b = 0, ti_sign = 1\<rparr>, demo_fpu)"
  by (rule temp_int_roundtrip) simp_all

end
