(* ===== verification/Tty_State.thy ===== *)
theory Tty_State
  imports Fs_State Bounded_Queue
begin

section \<open>Terminals and their queues\<close>

text \<open>
  \<^verbatim>\<open>include/linux/tty.h\<close>, \<^verbatim>\<open>include/ctype.h\<close> and the variables of \<^verbatim>\<open>tty_io.c\<close> and \<^verbatim>\<open>console.c\<close>. A \<open>struct tty_struct *\<close>
  is its index in \<^verbatim>\<open>tty_table\<close>; a \<open>struct tty_queue *\<close> is 1 + its index in \<^verbatim>\<open>tty_queues\<close>, 0 is NULL. The fields \<open>pgrp\<close>,
  \<open>session\<close> and \<open>termios\<close> of a terminal are the maps \<open>tty_pgrp\<close>, \<open>tty_session\<close> and \<open>tty_termios\<close> of the states that
  \<open>exit\<close> and \<open>open\<close> change too; the rest is \<open>tty_line\<close>. Video memory, which no page frame overlaps, is the byte
  store \<open>vmem\<close>.

  What other processes and the devices do is the argument \<open>e\<close> of type \<open>tty_env\<close>: the state in which a sleep or
  \<open>schedule\<close> returns, the value of a port, what stands in an uninitialised byte of the stack, and how deep the
  calls between a terminal's write routine and \<open>copy_to_cooked\<close> can nest before the kernel stack is full.
\<close>

unbundle bit_operations_syntax

abbreviation (input) MAX_CONSOLES :: nat where "MAX_CONSOLES \<equiv> 8"
abbreviation (input) NR_SERIALS :: nat where "NR_SERIALS \<equiv> 2"
abbreviation (input) NR_PTYS :: nat where "NR_PTYS \<equiv> 4"
abbreviation (input) QUEUES :: nat where "QUEUES \<equiv> 54"
abbreviation (input) TTY_BUF_SIZE :: u32 where "TTY_BUF_SIZE \<equiv> 1024"

abbreviation (input) VINTR :: nat where "VINTR \<equiv> 0"
abbreviation (input) VQUIT :: nat where "VQUIT \<equiv> 1"
abbreviation (input) VERASE :: nat where "VERASE \<equiv> 2"
abbreviation (input) VKILL :: nat where "VKILL \<equiv> 3"
abbreviation (input) VEOF :: nat where "VEOF \<equiv> 4"
abbreviation (input) VTIME :: nat where "VTIME \<equiv> 5"
abbreviation (input) VMIN :: nat where "VMIN \<equiv> 6"
abbreviation (input) VSTART :: nat where "VSTART \<equiv> 8"
abbreviation (input) VSTOP :: nat where "VSTOP \<equiv> 9"
abbreviation (input) VSUSP :: nat where "VSUSP \<equiv> 10"

abbreviation (input) INLCR :: u32 where "INLCR \<equiv> 0x40"
abbreviation (input) IGNCR :: u32 where "IGNCR \<equiv> 0x80"
abbreviation (input) ICRNL :: u32 where "ICRNL \<equiv> 0x100"
abbreviation (input) IUCLC :: u32 where "IUCLC \<equiv> 0x200"
abbreviation (input) IXON :: u32 where "IXON \<equiv> 0x400"
abbreviation (input) OPOST :: u32 where "OPOST \<equiv> 1"
abbreviation (input) OLCUC :: u32 where "OLCUC \<equiv> 2"
abbreviation (input) ONLCR :: u32 where "ONLCR \<equiv> 4"
abbreviation (input) OCRNL :: u32 where "OCRNL \<equiv> 8"
abbreviation (input) ONLRET :: u32 where "ONLRET \<equiv> 0x20"
abbreviation (input) CBAUD :: u32 where "CBAUD \<equiv> 0xf"
abbreviation (input) B2400 :: u32 where "B2400 \<equiv> 0xb"
abbreviation (input) B9600 :: u32 where "B9600 \<equiv> 0xd"
abbreviation (input) CS8 :: u32 where "CS8 \<equiv> 0x30"
abbreviation (input) ISIG :: u32 where "ISIG \<equiv> 1"
abbreviation (input) ICANON :: u32 where "ICANON \<equiv> 2"
abbreviation (input) ECHO :: u32 where "ECHO \<equiv> 8"
abbreviation (input) TOSTOP :: u32 where "TOSTOP \<equiv> 0x100"
abbreviation (input) ECHOCTL :: u32 where "ECHOCTL \<equiv> 0x200"
abbreviation (input) ECHOKE :: u32 where "ECHOKE \<equiv> 0x800"

subsection \<open>A queue\<close>

record tty_queue =
  q_data :: u32
  q_head :: u32
  q_tail :: u32
  q_proc_list :: u32
  q_buf :: "nat \<Rightarrow> u8"

definition INC :: "u32 \<Rightarrow> u32" where "INC a = (a + 1) AND (TTY_BUF_SIZE - 1)"
definition DEC :: "u32 \<Rightarrow> u32" where "DEC a = (a - 1) AND (TTY_BUF_SIZE - 1)"
definition EMPTY :: "tty_queue \<Rightarrow> bool" where "EMPTY q \<longleftrightarrow> q_head q = q_tail q"
definition LEFT :: "tty_queue \<Rightarrow> u32" where "LEFT q = (q_tail q - q_head q - 1) AND (TTY_BUF_SIZE - 1)"
definition LAST :: "tty_queue \<Rightarrow> u8" where "LAST q = q_buf q (unat ((TTY_BUF_SIZE - 1) AND (q_head q - 1)))"
definition FULL :: "tty_queue \<Rightarrow> bool" where "FULL q \<longleftrightarrow> LEFT q = 0"
definition CHARS :: "tty_queue \<Rightarrow> u32" where "CHARS q = (q_head q - q_tail q) AND (TTY_BUF_SIZE - 1)"

text \<open>\<^verbatim>\<open>GETCH\<close> and \<^verbatim>\<open>PUTCH\<close> on the queue itself, and dropping the last character, \<^verbatim>\<open>DEC(queue->head)\<close>.\<close>

definition next_char :: "tty_queue \<Rightarrow> u8" where
  "next_char q = q_buf q (unat (q_tail q))"

definition take_char :: "tty_queue \<Rightarrow> tty_queue" where
  "take_char q = q\<lparr>q_tail := INC (q_tail q)\<rparr>"

definition put_char :: "u8 \<Rightarrow> tty_queue \<Rightarrow> tty_queue" where
  "put_char c q = q\<lparr>q_buf := (q_buf q)(unat (q_head q) := c), q_head := INC (q_head q)\<rparr>"

definition drop_char :: "tty_queue \<Rightarrow> tty_queue" where
  "drop_char q = q\<lparr>q_head := DEC (q_head q)\<rparr>"

text \<open>The characters in the queue, oldest first, and the range of its indices.\<close>

definition chars :: "tty_queue \<Rightarrow> u8 list" where
  "chars q = map (\<lambda>i. q_buf q ((unat (q_tail q) + i) mod 1024)) [0..<unat (CHARS q)]"

definition queue_ok :: "tty_queue \<Rightarrow> bool" where
  "queue_ok q \<longleftrightarrow> q_head q < 1024 \<and> q_tail q < 1024"

lemma unat_and_3ff: "unat (w AND 0x3ff :: u32) = unat w mod 1024"
proof -
  have "w AND 0x3ff = take_bit 10 w" by (simp add: take_bit_eq_mask mask_eq_exp_minus_1)
  then show ?thesis by (simp add: unsigned_take_bit_eq take_bit_eq_mod unat_mod)
qed

lemma unat_sub_3ff:
  assumes "unat t \<le> 1024"
  shows "unat ((h - t :: u32) AND 0x3ff) = (unat h + 1024 - unat t) mod 1024"
proof (cases "unat t \<le> unat h")
  case True
  then have "unat h + 1024 - unat t = (unat h - unat t) + 1024" by simp
  then show ?thesis using True unfolding unat_and_3ff unat_sub_if' by (simp only: if_True mod_add_self2)
next
  case False
  have "unat h + 2 ^ LENGTH(32) - unat t = (unat h + 1024 - unat t) + 4194303 * 1024" using assms by simp
  then show ?thesis using False unfolding unat_and_3ff unat_sub_if'
    by (simp only: if_False mod_mult_self1)
qed

lemma unat_INC: "unat (INC a) = (unat a + 1) mod 1024"
proof -
  have "unat (a + 1) mod 1024 = (unat a + 1) mod 1024"
    unfolding unat_word_ariths(1) by (simp add: mod_mod_cancel)
  then show ?thesis by (simp add: INC_def unat_and_3ff)
qed

lemma unat_DEC: "unat (DEC a) = (unat a + 1023) mod 1024"
  using unat_sub_3ff[of 1 a] by (simp add: DEC_def add.commute)

lemma queue_ok_nat: "queue_ok q \<longleftrightarrow> unat (q_head q) < 1024 \<and> unat (q_tail q) < 1024"
  by (simp add: queue_ok_def word_less_nat_alt)

lemma unat_CHARS: "queue_ok q \<Longrightarrow> unat (CHARS q) = (unat (q_head q) + 1024 - unat (q_tail q)) mod 1024"
  using unat_sub_3ff[of "q_tail q" "q_head q"] by (simp add: CHARS_def queue_ok_nat)

lemma CHARS_less: "queue_ok q \<Longrightarrow> unat (CHARS q) < 1024"
  by (simp add: unat_CHARS)

lemma CHARS_unique:
  assumes "queue_ok q" "n < 1024" "unat (q_head q) = (unat (q_tail q) + n) mod 1024"
  shows "unat (CHARS q) = n"
proof -
  have t: "unat (q_tail q) < 1024" using assms(1) by (simp add: queue_ok_nat)
  have "unat (CHARS q) = ((unat (q_tail q) + n) mod 1024 + (1024 - unat (q_tail q))) mod 1024"
    using assms t by (simp add: unat_CHARS)
  also have "\<dots> = (n + 1024) mod 1024" using t by (simp only: mod_add_left_eq) simp
  finally show ?thesis using assms(2) by simp
qed

lemma head_at:
  assumes "queue_ok q"
  shows "unat (q_head q) = (unat (q_tail q) + unat (CHARS q)) mod 1024"
proof -
  have l: "unat (q_tail q) < 1024" "unat (q_head q) < 1024" using assms by (simp_all add: queue_ok_nat)
  have "(unat (q_tail q) + unat (CHARS q)) mod 1024 =
      (unat (q_tail q) + (unat (q_head q) + 1024 - unat (q_tail q))) mod 1024"
    using assms by (simp add: unat_CHARS mod_add_right_eq)
  also have "\<dots> = (unat (q_head q) + 1024) mod 1024" using l by simp
  finally show ?thesis using l by simp
qed

lemma LEFT_CHARS:
  assumes "queue_ok q"
  shows "unat (LEFT q) = 1023 - unat (CHARS q)"
proof -
  define h t where "h = unat (q_head q)" and "t = unat (q_tail q)"
  have l: "t < 1024" "h < 1024" using assms by (simp_all add: queue_ok_nat h_def t_def)
  have "unat (q_head q + 1) = h + 1" using l(2) by (simp add: unat_plus_if' h_def)
  moreover have "LEFT q = (q_tail q - (q_head q + 1)) AND 0x3ff" by (simp add: LEFT_def diff_diff_eq)
  ultimately have "unat (LEFT q) = (t + 1024 - (h + 1)) mod 1024"
    using unat_sub_3ff[of "q_head q + 1" "q_tail q"] l(2) by (simp only: t_def)
  moreover have "(t + 1024 - (h + 1)) mod 1024 = 1023 - (h + 1024 - t) mod 1024"
  proof (cases "t \<le> h")
    case True
    then have "(h + 1024 - t) mod 1024 = h - t" using l by (simp add: mod_if)
    moreover have "(t + 1024 - (h + 1)) mod 1024 = t + 1023 - h" using True l by (subst mod_less) auto
    ultimately show ?thesis using True by simp
  next
    case False
    then have "(h + 1024 - t) mod 1024 = h + 1024 - t" using l by simp
    moreover have "(t + 1024 - (h + 1)) mod 1024 = t - (h + 1)" using False l by (simp add: mod_if)
    ultimately show ?thesis using False l by simp
  qed
  ultimately show ?thesis using assms by (simp add: unat_CHARS h_def t_def)
qed

lemma FULL_CHARS: "queue_ok q \<Longrightarrow> FULL q \<longleftrightarrow> unat (CHARS q) = 1023"
  using LEFT_CHARS[of q] CHARS_less[of q] by (auto simp: FULL_def word_unat_eq_iff)

lemma EMPTY_CHARS: "queue_ok q \<Longrightarrow> EMPTY q \<longleftrightarrow> unat (CHARS q) = 0"
  using head_at[of q] by (auto simp: EMPTY_def CHARS_def queue_ok_nat word_unat_eq_iff unat_sub_3ff)

lemma length_chars [simp]: "length (chars q) = unat (CHARS q)"
  by (simp add: chars_def)

lemma chars_nth: "i < unat (CHARS q) \<Longrightarrow> chars q ! i = q_buf q ((unat (q_tail q) + i) mod 1024)"
  by (simp add: chars_def)

lemma EMPTY_chars: "queue_ok q \<Longrightarrow> EMPTY q \<longleftrightarrow> chars q = []"
  by (metis EMPTY_CHARS length_chars length_0_conv)

subsection \<open>The operations on the characters\<close>

lemma put_char_ok [simp]: "queue_ok q \<Longrightarrow> queue_ok (put_char c q)"
  by (simp add: queue_ok_nat put_char_def unat_INC)

lemma take_char_ok [simp]: "queue_ok q \<Longrightarrow> queue_ok (take_char q)"
  by (simp add: queue_ok_nat take_char_def unat_INC)

lemma drop_char_ok [simp]: "queue_ok q \<Longrightarrow> queue_ok (drop_char q)"
  by (simp add: queue_ok_nat drop_char_def unat_DEC)

lemma mod_slot_inj:
  assumes "i < 1024" "j < 1024" "(t + i) mod 1024 = (t + j) mod (1024::nat)"
  shows "i = j"
  using assms
proof (induction i j rule: linorder_wlog)
  case (le i j)
  then have "1024 dvd (t + j) - (t + i)" using mod_eq_dvd_iff_nat[of "t + i" "t + j" 1024] by simp
  then have "1024 dvd j - i" by simp
  then show ?case using le by (auto dest: dvd_imp_le)
qed simp

lemma chars_put_char:
  assumes "queue_ok q" "\<not> FULL q"
  shows "chars (put_char c q) = chars q @ [c]"
proof -
  define n t where "n = unat (CHARS q)" and "t = unat (q_tail q)"
  have n: "n < 1023" using CHARS_less[OF assms(1)] FULL_CHARS assms by (force simp: n_def)
  have h: "unat (q_head q) = (t + n) mod 1024" using head_at[OF assms(1)] by (simp add: n_def t_def)
  have "unat (q_head (put_char c q)) = (unat (q_tail (put_char c q)) + (n + 1)) mod 1024"
    using h by (simp add: put_char_def unat_INC t_def mod_simps)
  then have N: "unat (CHARS (put_char c q)) = n + 1"
    using CHARS_unique[of "put_char c q" "n + 1"] n assms(1) by simp
  show ?thesis
  proof (rule nth_equalityI)
    fix i assume "i < length (chars (put_char c q))"
    then have i: "i \<le> n" using N by simp
    have "chars (put_char c q) ! i = (if (t + i) mod 1024 = (t + n) mod 1024 then c else q_buf q ((t + i) mod 1024))"
      using i N h by (simp add: chars_nth put_char_def t_def)
    also have "\<dots> = (chars q @ [c]) ! i"
    proof (cases "i = n")
      case True
      then show ?thesis by (simp add: nth_append n_def)
    next
      case False
      then have "(t + i) mod 1024 \<noteq> (t + n) mod 1024" using mod_slot_inj[of i n t] i n by auto
      then show ?thesis using i False by (simp add: nth_append chars_nth n_def t_def)
    qed
    finally show "chars (put_char c q) ! i = (chars q @ [c]) ! i" .
  qed (simp add: N, simp add: n_def)
qed

lemma chars_take_char:
  assumes "queue_ok q" "\<not> EMPTY q"
  shows "chars q = next_char q # chars (take_char q)"
proof -
  define n t where "n = unat (CHARS q)" and "t = unat (q_tail q)"
  have n: "0 < n" "n < 1024" using CHARS_less[OF assms(1)] EMPTY_CHARS assms by (auto simp: n_def)
  have h: "unat (q_head q) = (t + n) mod 1024" using head_at[OF assms(1)] by (simp add: n_def t_def)
  have "unat (q_head (take_char q)) = (unat (q_tail (take_char q)) + (n - 1)) mod 1024"
  proof -
    obtain m where "n = Suc m" using n(1) by (cases n) auto
    then show ?thesis using h by (simp add: take_char_def unat_INC t_def mod_simps)
  qed
  then have N: "unat (CHARS (take_char q)) = n - 1"
    using CHARS_unique[of "take_char q" "n - 1"] n assms(1) by simp
  show ?thesis
  proof (rule nth_equalityI)
    show "length (chars q) = length (next_char q # chars (take_char q))"
      using n(1) by (simp add: N) (simp add: n_def)
    fix i assume "i < length (chars q)"
    then have i: "i < n" by (simp add: n_def)
    show "chars q ! i = (next_char q # chars (take_char q)) ! i"
    proof (cases i)
      case 0
      then show ?thesis using i assms(1) by (simp add: chars_nth n_def next_char_def queue_ok_nat)
    next
      case (Suc k)
      then show ?thesis using i N
        by (simp add: chars_nth n_def[symmetric] take_char_def unat_INC t_def mod_simps)
    qed
  qed
qed

lemma chars_drop_char:
  assumes "queue_ok q" "\<not> EMPTY q"
  shows "chars q = chars (drop_char q) @ [LAST q]"
proof -
  define n t where "n = unat (CHARS q)" and "t = unat (q_tail q)"
  have n: "0 < n" "n < 1024" using CHARS_less[OF assms(1)] EMPTY_CHARS assms by (auto simp: n_def)
  have h: "unat (q_head q) = (t + n) mod 1024" using head_at[OF assms(1)] by (simp add: n_def t_def)
  have d: "unat (DEC (q_head q)) = (t + (n - 1)) mod 1024"
  proof -
    have "unat (DEC (q_head q)) = (t + n + 1023) mod 1024" using h by (simp add: unat_DEC mod_simps)
    also have "t + n + 1023 = t + (n - 1) + 1024" using n by simp
    finally show ?thesis by simp
  qed
  then have N: "unat (CHARS (drop_char q)) = n - 1"
    using CHARS_unique[of "drop_char q" "n - 1"] n drop_char_ok[OF assms(1)] by (simp add: drop_char_def t_def)
  have l: "LAST q = q_buf q ((t + (n - 1)) mod 1024)"
    using d by (simp add: LAST_def DEC_def and.commute)
  show ?thesis
  proof (rule nth_equalityI)
    show "length (chars q) = length (chars (drop_char q) @ [LAST q])" using n by (simp add: N) (simp add: n_def)
    fix i assume "i < length (chars q)"
    then have i: "i < n" by (simp add: n_def)
    show "chars q ! i = (chars (drop_char q) @ [LAST q]) ! i"
    proof (cases "i = n - 1")
      case True
      then show ?thesis using i N l by (simp add: nth_append chars_nth n_def[symmetric] t_def)
    next
      case False
      then have "i < n - 1" using i by simp
      then show ?thesis using i N by (simp add: nth_append chars_nth n_def[symmetric] drop_char_def)
    qed
  qed
qed

text \<open>A terminal queue is a bounded queue of at most 1023 characters.\<close>

interpretation tq: bounded_queue
    put_char "\<lambda>c q. [c]" "\<lambda>c q. \<not> FULL q" "\<lambda>(_::unit). take_char" "\<lambda>_. 1" "\<lambda>_ q. \<not> EMPTY q" chars queue_ok 1023
proof unfold_locales
  fix q c assume "queue_ok q" "\<not> FULL q"
  then show "chars (put_char c q) = chars q @ [c] \<and> queue_ok (put_char c q)" by (simp add: chars_put_char)
next
  fix q g assume q: "queue_ok q" "\<not> EMPTY q"
  show "chars (take_char q) = drop 1 (chars q) \<and> queue_ok (take_char q)"
    using q by (subst chars_take_char[OF q]) simp
next
  fix q assume "queue_ok q"
  then show "length (chars q) \<le> 1023" using CHARS_less[of q] by simp
qed

text \<open>
  \<^verbatim>\<open>PUTCH\<close> on a full queue: head catches up with tail, and all 1023 characters in the queue are gone. The echo of
  \<open>copy_to_cooked\<close> does this to the write queue of a stopped terminal.
\<close>

lemma put_char_full:
  assumes "queue_ok q" "FULL q"
  shows "chars (put_char c q) = []"
proof -
  have "unat (CHARS q) = 1023" using assms FULL_CHARS by blast
  then have "unat (q_head (put_char c q)) = (unat (q_tail (put_char c q)) + 0) mod 1024"
    using head_at[OF assms(1)] by (simp add: put_char_def unat_INC mod_simps)
  then have "unat (CHARS (put_char c q)) = 0" using CHARS_unique[of "put_char c q" 0] assms(1) by simp
  then show ?thesis using length_chars[of "put_char c q"] by (simp del: length_chars)
qed

subsection \<open>Terminals, consoles and the state\<close>

text \<open>The function a terminal writes with.\<close>

datatype tty_writer = No_Writer | Con_Write | Rs_Write | Mpty_Write | Spty_Write

text \<open>\<open>t_pad\<close>: the two bytes behind the fields of the \<open>struct termios\<close> in the terminal.\<close>

record tty_line =
  t_pad :: "nat \<Rightarrow> u8"
  t_stopped :: bool
  t_write :: tty_writer
  t_read_q :: nat
  t_write_q :: nat
  t_secondary :: nat

datatype video_kind = VIDEO_TYPE_MDA | VIDEO_TYPE_CGA | VIDEO_TYPE_EGAM | VIDEO_TYPE_EGAC

record video_t =
  video_type :: video_kind
  video_num_columns :: u32
  video_mem_base :: u32
  video_mem_term :: u32
  video_size_row :: u32
  video_num_lines :: u32
  video_page :: u8
  video_port_reg :: u16
  video_port_val :: u16
  can_do_colour :: bool

text \<open>The states of the escape sequences; \<open>ESother\<close> is the value -1, which no case of the code names.\<close>

datatype escape_state =
    ESnormal | ESesc | ESsquare | ESgetpars | ESgotpars | ESfunckey | ESsetterm | ESsetgraph | ESother

text \<open>One virtual console, an entry of \<^verbatim>\<open>vc_cons\<close>. The table a \<open>char *\<close> points to is \<open>True\<close> for the graphics characters.\<close>

record vc_t =
  vc_video_erase_char :: u16
  vc_attr :: u8
  vc_def_attr :: u8
  vc_bold_attr :: u32
  vc_ques :: bool
  vc_state :: escape_state
  vc_restate :: escape_state
  vc_checkin :: u32
  vc_origin :: u32
  vc_scr_end :: u32
  vc_pos :: u32
  vc_x :: u32
  vc_y :: u32
  vc_top :: u32
  vc_bottom :: u32
  vc_npar :: nat
  vc_par :: "nat \<Rightarrow> u32"
  vc_video_mem_start :: u32
  vc_video_mem_end :: u32
  vc_saved_x :: u32
  vc_saved_y :: u32
  vc_iscolor :: bool
  vc_translate :: bool

record tty_state = fs_state +
  tty_lines :: "nat \<Rightarrow> tty_line"
  tty_queues :: "nat \<Rightarrow> tty_queue"
  table_list :: "nat \<Rightarrow> nat"
  cr_flag :: bool
  NR_CONSOLES :: nat
  video :: video_t
  vc_cons :: "nat \<Rightarrow> vc_t"
  vmem :: "u32 \<Rightarrow> u8"

record tty_env =
  te_sleep :: "nat \<Rightarrow> tty_state \<Rightarrow> tty_state"
  te_resume :: "tty_state \<Rightarrow> tty_state"
  te_inb :: "u16 \<Rightarrow> tty_state \<Rightarrow> u8"
  te_junk :: u8
  te_nesting :: nat

type_synonym 'a tty_out = "(tty_state, 'a) outcome"

definition upd_queue :: "nat \<Rightarrow> (tty_queue \<Rightarrow> tty_queue) \<Rightarrow> tty_state \<Rightarrow> tty_state" where
  "upd_queue q f s = s\<lparr>tty_queues := (tty_queues s)(q := f (tty_queues s q))\<rparr>"

definition upd_line :: "nat \<Rightarrow> (tty_line \<Rightarrow> tty_line) \<Rightarrow> tty_state \<Rightarrow> tty_state" where
  "upd_line k f s = s\<lparr>tty_lines := (tty_lines s)(k := f (tty_lines s k))\<rparr>"

definition outb :: "u8 \<Rightarrow> u16 \<Rightarrow> tty_state \<Rightarrow> tty_state" where
  "outb v port s = s\<lparr>io_log := io_log s @ [Outb v port]\<rparr>"

definition GETCH :: "nat \<Rightarrow> tty_state \<Rightarrow> u8 \<times> tty_state" where
  "GETCH q s = (next_char (tty_queues s q), upd_queue q take_char s)"

definition PUTCH :: "u8 \<Rightarrow> nat \<Rightarrow> tty_state \<Rightarrow> tty_state" where
  "PUTCH c q = upd_queue q (put_char c)"

text \<open>The queues of terminal \<open>k\<close> and a control character of it.\<close>

abbreviation (input) read_q :: "tty_state \<Rightarrow> nat \<Rightarrow> nat" where "read_q s k \<equiv> t_read_q (tty_lines s k)"
abbreviation (input) write_q :: "tty_state \<Rightarrow> nat \<Rightarrow> nat" where "write_q s k \<equiv> t_write_q (tty_lines s k)"
abbreviation (input) secondary :: "tty_state \<Rightarrow> nat \<Rightarrow> nat" where "secondary s k \<equiv> t_secondary (tty_lines s k)"

definition cc :: "nat \<Rightarrow> nat \<Rightarrow> tty_state \<Rightarrow> u8" where
  "cc i k s = c_cc (tty_termios s k) i"

definition i_flag :: "u32 \<Rightarrow> nat \<Rightarrow> tty_state \<Rightarrow> bool" where
  "i_flag f k s \<longleftrightarrow> c_iflag (tty_termios s k) AND f \<noteq> 0"

definition o_flag :: "u32 \<Rightarrow> nat \<Rightarrow> tty_state \<Rightarrow> bool" where
  "o_flag f k s \<longleftrightarrow> c_oflag (tty_termios s k) AND f \<noteq> 0"

definition l_flag :: "u32 \<Rightarrow> nat \<Rightarrow> tty_state \<Rightarrow> bool" where
  "l_flag f k s \<longleftrightarrow> c_lflag (tty_termios s k) AND f \<noteq> 0"

text \<open>\<^verbatim>\<open>current->signal & ~current->blocked\<close>\<close>

definition signal_waits :: "'a kstate_scheme \<Rightarrow> bool" where
  "signal_waits s \<longleftrightarrow> signal (cur s) AND NOT (blocked (cur s)) \<noteq> 0"

text \<open>A \<open>char\<close> is signed: it equals a control character, an \<open>unsigned char\<close>, only below 128.\<close>

definition is_cc :: "u8 \<Rightarrow> nat \<Rightarrow> nat \<Rightarrow> tty_state \<Rightarrow> bool" where
  "is_cc c i k s \<longleftrightarrow> cc i k s \<noteq> 0 \<and> sint c = uint (cc i k s)"

subsection \<open>Upper and lower case\<close>

text \<open>
  The table of \<^verbatim>\<open>lib/ctype.c\<close> by its rows; \<^verbatim>\<open>(_ctype+1)[c]\<close> for a negative \<open>c\<close> other than -1 reads before the table.
\<close>

definition ctype_table :: "nat list" where
  "ctype_table = [0] @ replicate 8 8 @ [8, 40, 40, 40, 40, 40, 8, 8] @ replicate 16 8 @ [160] @ replicate 15 16 @
     replicate 10 4 @ replicate 7 16 @ replicate 6 65 @ replicate 20 1 @ replicate 6 16 @ replicate 6 66 @
     replicate 20 2 @ replicate 4 16 @ [8] @ replicate 128 0"

definition tolower :: "u8 \<Rightarrow> tty_state \<Rightarrow> u8 tty_out" where
  "tolower c s =
    (if sint c < - 1 then Undefined ''_ctype''
     else Done (if bit (ctype_table ! nat (sint c + 1)) 0 then c + 32 else c) s)"

definition toupper :: "u8 \<Rightarrow> tty_state \<Rightarrow> u8 tty_out" where
  "toupper c s =
    (if sint c < - 1 then Undefined ''_ctype''
     else Done (if bit (ctype_table ! nat (sint c + 1)) 1 then c - 32 else c) s)"

subsection \<open>Examples\<close>

text \<open>A machine with a console (terminal 0) and a serial line (terminal 64), all queues empty.\<close>

definition demo_line :: "nat \<Rightarrow> tty_line" where
  "demo_line k =
    (if k = 0 then \<lparr>t_pad = (\<lambda>_. 0), t_stopped = False, t_write = Con_Write, t_read_q = 1, t_write_q = 2, t_secondary = 3\<rparr>
     else if k = 64 then \<lparr>t_pad = (\<lambda>_. 0), t_stopped = False, t_write = Rs_Write, t_read_q = 25, t_write_q = 26, t_secondary = 27\<rparr>
     else \<lparr>t_pad = (\<lambda>_. 0), t_stopped = False, t_write = No_Writer, t_read_q = 0, t_write_q = 0, t_secondary = 0\<rparr>)"

definition empty_queue :: tty_queue where
  "empty_queue = \<lparr>q_data = 0, q_head = 0, q_tail = 0, q_proc_list = 0, q_buf = (\<lambda>_. 0)\<rparr>"

text \<open>An 80 by 25 colour screen, the cursor in the upper left corner.\<close>

definition demo_video :: video_t where
  "demo_video =
    \<lparr>video_type = VIDEO_TYPE_EGAC, video_num_columns = 80, video_mem_base = 0xb8000, video_mem_term = 0xc0000,
     video_size_row = 160, video_num_lines = 25, video_page = 0, video_port_reg = 0x3d4, video_port_val = 0x3d5,
     can_do_colour = True\<rparr>"

definition demo_vc :: vc_t where
  "demo_vc =
    \<lparr>vc_video_erase_char = 0x720, vc_attr = 7, vc_def_attr = 7, vc_bold_attr = - 1, vc_ques = False, vc_state = ESnormal,
     vc_restate = ESnormal, vc_checkin = 0, vc_origin = 0xb8000, vc_scr_end = 0xb8fa0, vc_pos = 0xb8000, vc_x = 0, vc_y = 0,
     vc_top = 0, vc_bottom = 25, vc_npar = 0, vc_par = (\<lambda>_. 0), vc_video_mem_start = 0xb8000, vc_video_mem_end = 0xb9000,
     vc_saved_x = 0, vc_saved_y = 0, vc_iscolor = False, vc_translate = False\<rparr>"

definition demo_tty :: tty_state where
  "demo_tty = fs_state.extend demo_fs
     (tty_state.fields demo_line (\<lambda>_. empty_queue) (\<lambda>_. 0) False 1 demo_video (\<lambda>_. demo_vc) (\<lambda>_. 0))"

definition demo_tty_env :: tty_env where
  "demo_tty_env = \<lparr>te_sleep = (\<lambda>_ s. s), te_resume = (\<lambda>s. s), te_inb = (\<lambda>_ _. 0), te_junk = 0, te_nesting = 3\<rparr>"

lemma demo_tty_sel [simp]:
  "tty_lines demo_tty = demo_line" "tty_queues demo_tty = (\<lambda>_. empty_queue)" "cr_flag demo_tty = False"
  "NR_CONSOLES demo_tty = 1" "video demo_tty = demo_video" "vc_cons demo_tty = (\<lambda>_. demo_vc)"
  "cur demo_tty = demo_task" "fg_console demo_tty = 0"
  by (simp_all add: demo_tty_def demo_fs_def demo_kernel_def kstate.defs fs_state.defs tty_state.defs cur_def)

lemma empty_queue_ok [simp]: "queue_ok empty_queue" "chars empty_queue = []"
  by (simp_all add: queue_ok_def empty_queue_def chars_def CHARS_def)

end
