(* ===== verification/Console.thy ===== *)
theory Console
  imports Tty_State
begin

section \<open>The console\<close>

text \<open>
  \<^verbatim>\<open>kernel/chr_drv/console.c\<close>: what \<open>con_write\<close> does with each character, on the variables of virtual console \<open>n\<close>
  (\<open>currcons\<close>) and on video memory. The string instructions are recursions on the byte store \<open>vmem\<close>; writes to the
  video controller go to \<open>io_log\<close>. \<open>cook\<close> is \<open>copy_to_cooked\<close>, which the answer to \<^verbatim>\<open>ESC Z\<close> calls.
\<close>

unbundle bit_operations_syntax

definition vc :: "nat \<Rightarrow> tty_state \<Rightarrow> vc_t" where
  "vc n s = vc_cons s n"

definition upd_vc :: "nat \<Rightarrow> (vc_t \<Rightarrow> vc_t) \<Rightarrow> tty_state \<Rightarrow> tty_state" where
  "upd_vc n f s = s\<lparr>vc_cons := (vc_cons s)(n := f (vc_cons s n))\<rparr>"

definition upd_vmem :: "((u32 \<Rightarrow> u8) \<Rightarrow> u32 \<Rightarrow> u8) \<Rightarrow> tty_state \<Rightarrow> tty_state" where
  "upd_vmem f s = s\<lparr>vmem := f (vmem s)\<rparr>"

definition ega :: "tty_state \<Rightarrow> bool" where
  "ega s \<longleftrightarrow> video_type (video s) = VIDEO_TYPE_EGAC \<or> video_type (video s) = VIDEO_TYPE_EGAM"

abbreviation (input) columns :: "tty_state \<Rightarrow> u32" where "columns s \<equiv> video_num_columns (video s)"
abbreviation (input) rows :: "tty_state \<Rightarrow> u32" where "rows s \<equiv> video_num_lines (video s)"
abbreviation (input) row_size :: "tty_state \<Rightarrow> u32" where "row_size s \<equiv> video_size_row (video s)"

subsection \<open>Words of video memory and the string instructions\<close>

definition get16 :: "u32 \<Rightarrow> (u32 \<Rightarrow> u8) \<Rightarrow> u16" where
  "get16 a m = ucast (m a) OR push_bit 8 (ucast (m (a + 1)))"

definition put16 :: "u32 \<Rightarrow> u16 \<Rightarrow> (u32 \<Rightarrow> u8) \<Rightarrow> u32 \<Rightarrow> u8" where
  "put16 a v m = m(a := ucast v, a + 1 := ucast (drop_bit 8 v))"

text \<open>\<^verbatim>\<open>movsl\<close>, \<^verbatim>\<open>rep stosw\<close> and \<^verbatim>\<open>rep movsl\<close>, upwards (\<^verbatim>\<open>cld\<close>) and downwards (\<^verbatim>\<open>std\<close>); the last two leave \<^verbatim>\<open>edi\<close> behind.\<close>

definition copy4 :: "u32 \<Rightarrow> u32 \<Rightarrow> (u32 \<Rightarrow> u8) \<Rightarrow> u32 \<Rightarrow> u8" where
  "copy4 si di m = m(di := m si, di + 1 := m (si + 1), di + 2 := m (si + 2), di + 3 := m (si + 3))"

fun stosw :: "nat \<Rightarrow> u32 \<Rightarrow> u16 \<Rightarrow> (u32 \<Rightarrow> u8) \<Rightarrow> u32 \<Rightarrow> u8" where
  "stosw 0 di v m = m"
| "stosw (Suc n) di v m = stosw n (di + 2) v (put16 di v m)"

fun stosw_down :: "nat \<Rightarrow> u32 \<Rightarrow> u16 \<Rightarrow> (u32 \<Rightarrow> u8) \<Rightarrow> u32 \<Rightarrow> u8" where
  "stosw_down 0 di v m = m"
| "stosw_down (Suc n) di v m = stosw_down n (di - 2) v (put16 di v m)"

fun movsl :: "nat \<Rightarrow> u32 \<Rightarrow> u32 \<Rightarrow> (u32 \<Rightarrow> u8) \<Rightarrow> u32 \<Rightarrow> u8" where
  "movsl 0 si di m = m"
| "movsl (Suc n) si di m = movsl n (si + 4) (di + 4) (copy4 si di m)"

fun movsl_down :: "nat \<Rightarrow> u32 \<Rightarrow> u32 \<Rightarrow> (u32 \<Rightarrow> u8) \<Rightarrow> u32 \<Rightarrow> u8" where
  "movsl_down 0 si di m = m"
| "movsl_down (Suc n) si di m = movsl_down n (si - 4) (di - 4) (copy4 si di m)"

definition erase :: "u32 \<Rightarrow> u32 \<Rightarrow> nat \<Rightarrow> tty_state \<Rightarrow> tty_state" where
  "erase count start n s = upd_vmem (stosw (unat count) start (vc_video_erase_char (vc n s))) s"

subsection \<open>Cursor and scrolling\<close>

definition gotoxy :: "nat \<Rightarrow> u32 \<Rightarrow> u32 \<Rightarrow> tty_state \<Rightarrow> tty_state" where
  "gotoxy n new_x new_y s =
    (if new_x > columns s \<or> new_y \<ge> rows s then s
     else upd_vc n (\<lambda>v. v\<lparr>vc_x := new_x, vc_y := new_y,
                          vc_pos := vc_origin v + new_y * row_size s + push_bit 1 new_x\<rparr>) s)"

text \<open>Two registers of the video controller are set to the halves of a word address.\<close>

definition set_video :: "u8 \<Rightarrow> u32 \<Rightarrow> tty_state \<Rightarrow> tty_state" where
  "set_video reg a s =
    (let g = video s
     in outb (0xff AND ucast (drop_bit 1 (a - video_mem_base g))) (video_port_val g)
          (outb (reg + 1) (video_port_reg g)
            (outb (0xff AND ucast (drop_bit 9 (a - video_mem_base g))) (video_port_val g)
              (outb reg (video_port_reg g) s))))"

definition set_origin :: "nat \<Rightarrow> tty_state \<Rightarrow> tty_state" where
  "set_origin n s =
    (if \<not> ega s then s else if n \<noteq> fg_console s then s else set_video 12 (vc_origin (vc n s)) s)"

definition set_cursor :: "nat \<Rightarrow> tty_state \<Rightarrow> tty_state" where
  "set_cursor n s =
    (let s = s\<lparr>blankcount := blankinterval s\<rparr>
     in if n \<noteq> fg_console s then s else set_video 14 (vc_pos (vc n s)) s)"

definition hide_cursor :: "nat \<Rightarrow> tty_state \<Rightarrow> tty_state" where
  "hide_cursor n s = set_video 14 (vc_scr_end (vc n s)) s"

definition scroll_region :: "nat \<Rightarrow> tty_state \<Rightarrow> tty_state" where
  "scroll_region n s =
    (let v = vc n s; count = drop_bit 1 ((vc_bottom v - vc_top v - 1) * columns s);
         di = vc_origin v + row_size s * vc_top v;
         si = vc_origin v + row_size s * (vc_top v + 1)
     in erase (columns s) (di + 4 * count) n (upd_vmem (movsl (unat count) si di) s))"

definition scroll_hardware :: "nat \<Rightarrow> tty_state \<Rightarrow> tty_state" where
  "scroll_hardware n s =
    (let s = upd_vc n (\<lambda>v. v\<lparr>vc_origin := vc_origin v + row_size s, vc_pos := vc_pos v + row_size s,
                            vc_scr_end := vc_scr_end v + row_size s\<rparr>) s;
         v = vc n s;
         s = (if vc_scr_end v > vc_video_mem_end v
              then
                let count = drop_bit 1 ((rows s - 1) * columns s); di = vc_video_mem_start v;
                    s = erase (columns s) (di + 4 * count) n (upd_vmem (movsl (unat count) (vc_origin v) di) s);
                    d = vc_origin v - vc_video_mem_start v
                in upd_vc n (\<lambda>v. v\<lparr>vc_scr_end := vc_scr_end v - d, vc_pos := vc_pos v - d,
                                   vc_origin := vc_video_mem_start v\<rparr>) s
              else erase (columns s) (vc_scr_end v - row_size s) n s)
     in set_origin n s)"

definition scrup :: "nat \<Rightarrow> tty_state \<Rightarrow> tty_state" where
  "scrup n s =
    (let v = vc n s
     in if vc_bottom v \<le> vc_top v then s
        else if ega s \<and> vc_top v = 0 \<and> vc_bottom v = rows s then scroll_hardware n s
        else scroll_region n s)"

definition scrdown :: "nat \<Rightarrow> tty_state \<Rightarrow> tty_state" where
  "scrdown n s =
    (let v = vc n s; count = drop_bit 1 ((vc_bottom v - vc_top v - 1) * columns s);
         di = vc_origin v + row_size s * vc_bottom v - 4;
         si = vc_origin v + row_size s * (vc_bottom v - 1) - 4
     in if vc_bottom v \<le> vc_top v then s
        else upd_vmem (stosw_down (unat (columns s)) (di - 4 * count + 2) (vc_video_erase_char v))
               (upd_vmem (movsl_down (unat count) si di) s))"

definition lf :: "nat \<Rightarrow> tty_state \<Rightarrow> tty_state" where
  "lf n s =
    (if vc_y (vc n s) + 1 < vc_bottom (vc n s)
     then upd_vc n (\<lambda>v. v\<lparr>vc_y := vc_y v + 1, vc_pos := vc_pos v + row_size s\<rparr>) s
     else scrup n s)"

definition ri :: "nat \<Rightarrow> tty_state \<Rightarrow> tty_state" where
  "ri n s =
    (if vc_y (vc n s) > vc_top (vc n s)
     then upd_vc n (\<lambda>v. v\<lparr>vc_y := vc_y v - 1, vc_pos := vc_pos v - row_size s\<rparr>) s
     else scrdown n s)"

definition cr :: "nat \<Rightarrow> tty_state \<Rightarrow> tty_state" where
  "cr n s = upd_vc n (\<lambda>v. v\<lparr>vc_pos := vc_pos v - push_bit 1 (vc_x v), vc_x := 0\<rparr>) s"

definition del :: "nat \<Rightarrow> tty_state \<Rightarrow> tty_state" where
  "del n s =
    (if vc_x (vc n s) \<noteq> 0
     then let s = upd_vc n (\<lambda>v. v\<lparr>vc_pos := vc_pos v - 2, vc_x := vc_x v - 1\<rparr>) s
          in upd_vmem (put16 (vc_pos (vc n s)) (vc_video_erase_char (vc n s))) s
     else s)"

subsection \<open>Erasing\<close>

definition csi_J :: "nat \<Rightarrow> u32 \<Rightarrow> tty_state \<Rightarrow> tty_state" where
  "csi_J n vpar s =
    (let v = vc n s
     in if vpar = 0 then erase (drop_bit 1 (vc_scr_end v - vc_pos v)) (vc_pos v) n s
        else if vpar = 1 then erase (drop_bit 1 (vc_pos v - vc_origin v)) (vc_origin v) n s
        else if vpar = 2 then erase (columns s * rows s) (vc_origin v) n s
        else s)"

definition csi_K :: "nat \<Rightarrow> u32 \<Rightarrow> tty_state \<Rightarrow> tty_state" where
  "csi_K n vpar s =
    (let v = vc n s
     in if vpar = 0
        then if vc_x v \<ge> columns s then s else erase (columns s - vc_x v) (vc_pos v) n s
        else if vpar = 1
        then erase (if vc_x v < columns s then vc_x v else columns s) (vc_pos v - push_bit 1 (vc_x v)) n s
        else if vpar = 2 then erase (columns s) (vc_pos v - push_bit 1 (vc_x v)) n s
        else s)"

subsection \<open>Attributes\<close>

text \<open>One parameter of \<^verbatim>\<open>ESC [ ... m\<close>: the new attribute and whether the console is now a coloured one.\<close>

definition csi_m_step :: "bool \<Rightarrow> vc_t \<Rightarrow> u32 \<Rightarrow> vc_t" where
  "csi_m_step colour v p =
    (let a = vc_attr v; d = vc_def_attr v in
     if p = 0 then v\<lparr>vc_attr := d\<rparr>
     else if p = 1 then v\<lparr>vc_attr := if vc_iscolor v then a OR 0x08 else a OR 0x0f\<rparr>
     else if p = 4 then
       if \<not> vc_iscolor v then v\<lparr>vc_attr := a OR 0x01\<rparr>
       else if vc_bold_attr v \<noteq> - 1
       then v\<lparr>vc_attr := (ucast (vc_bold_attr v) AND 0x0f) OR (0xf0 AND a)\<rparr>
       else
         let newattr = (a AND 0xf0) OR (0xf AND NOT a)
         in v\<lparr>vc_attr := if newattr AND 0xf = drop_bit 4 a AND 0xf
                          then (a AND 0xf0) OR (((a AND 0xf) + 1) mod 0xf) else newattr\<rparr>
     else if p = 5 then v\<lparr>vc_attr := a OR 0x80\<rparr>
     else if p = 7 then v\<lparr>vc_attr := push_bit 4 a OR drop_bit 4 a\<rparr>
     else if p = 22 then v\<lparr>vc_attr := a AND 0xf7\<rparr>
     else if p = 24 then v\<lparr>vc_attr := a AND 0xfe\<rparr>
     else if p = 25 then v\<lparr>vc_attr := a AND 0x7f\<rparr>
     else if p = 27 then v\<lparr>vc_attr := d\<rparr>
     else if p = 39 then v\<lparr>vc_attr := (a AND 0xf0) OR (d AND 0x0f)\<rparr>
     else if p = 49 then v\<lparr>vc_attr := (a AND 0x0f) OR (d AND 0xf0)\<rparr>
     else if \<not> colour then v
     else if 30 \<le> p \<and> p \<le> 38 then v\<lparr>vc_iscolor := True, vc_attr := (a AND 0xf0) OR ucast (p - 30)\<rparr>
     else if 40 \<le> p \<and> p \<le> 48 then v\<lparr>vc_iscolor := True, vc_attr := (a AND 0x0f) OR push_bit 4 (ucast (p - 40))\<rparr>
     else v\<lparr>vc_iscolor := True\<rparr>)"

definition csi_m :: "nat \<Rightarrow> tty_state \<Rightarrow> tty_state" where
  "csi_m n s = upd_vc n (\<lambda>v. fold (\<lambda>i v. csi_m_step (can_do_colour (video s)) v (vc_par v i)) [0..<vc_npar v + 1] v) s"

subsection \<open>Inserting and deleting\<close>

fun shift_in :: "nat \<Rightarrow> u32 \<Rightarrow> u16 \<Rightarrow> (u32 \<Rightarrow> u8) \<Rightarrow> u32 \<Rightarrow> u8" where
  "shift_in 0 p old m = m"
| "shift_in (Suc k) p old m = shift_in k (p + 2) (get16 p m) (put16 p old m)"

definition insert_char :: "nat \<Rightarrow> tty_state \<Rightarrow> tty_state" where
  "insert_char n s =
    (let v = vc n s
     in upd_vmem (shift_in (unat (columns s) - unat (vc_x v)) (vc_pos v) (vc_video_erase_char v)) s)"

text \<open>The line from \<open>top\<close> is scrolled in the window from the cursor to the last line.\<close>

definition with_window :: "(nat \<Rightarrow> tty_state \<Rightarrow> tty_state) \<Rightarrow> nat \<Rightarrow> tty_state \<Rightarrow> tty_state" where
  "with_window scroll n s =
    (let v = vc n s
     in upd_vc n (\<lambda>w. w\<lparr>vc_top := vc_top v, vc_bottom := vc_bottom v\<rparr>)
          (scroll n (upd_vc n (\<lambda>v. v\<lparr>vc_top := vc_y v, vc_bottom := rows s\<rparr>) s)))"

definition insert_line :: "nat \<Rightarrow> tty_state \<Rightarrow> tty_state" where
  "insert_line n s = with_window scrdown n s"

fun shift_out :: "nat \<Rightarrow> u32 \<Rightarrow> u16 \<Rightarrow> (u32 \<Rightarrow> u8) \<Rightarrow> u32 \<Rightarrow> u8" where
  "shift_out 0 p v m = put16 p v m"
| "shift_out (Suc k) p v m = shift_out k (p + 2) v (put16 p (get16 (p + 2) m) m)"

definition delete_char :: "nat \<Rightarrow> tty_state \<Rightarrow> tty_state" where
  "delete_char n s =
    (let v = vc n s
     in if vc_x v \<ge> columns s then s
        else upd_vmem (shift_out (unat (columns s) - unat (vc_x v) - 1) (vc_pos v) (vc_video_erase_char v)) s)"

definition delete_line :: "nat \<Rightarrow> tty_state \<Rightarrow> tty_state" where
  "delete_line n s = with_window scrup n s"

text \<open>The count of an operation: at most \<open>most\<close>, and 1 where it is missing.\<close>

definition csi_count :: "u32 \<Rightarrow> u32 \<Rightarrow> nat" where
  "csi_count most nr = unat (if nr > most then most else if nr = 0 then 1 else nr)"

definition csi_at :: "nat \<Rightarrow> u32 \<Rightarrow> tty_state \<Rightarrow> tty_state" where
  "csi_at n nr s = (insert_char n ^^ csi_count (columns s) nr) s"

definition csi_L :: "nat \<Rightarrow> u32 \<Rightarrow> tty_state \<Rightarrow> tty_state" where
  "csi_L n nr s = (insert_line n ^^ csi_count (rows s) nr) s"

definition csi_P :: "nat \<Rightarrow> u32 \<Rightarrow> tty_state \<Rightarrow> tty_state" where
  "csi_P n nr s = (delete_char n ^^ csi_count (columns s) nr) s"

definition csi_M :: "nat \<Rightarrow> u32 \<Rightarrow> tty_state \<Rightarrow> tty_state" where
  "csi_M n nr s = (delete_line n ^^ csi_count (rows s) nr) s"

definition save_cur :: "nat \<Rightarrow> tty_state \<Rightarrow> tty_state" where
  "save_cur n = upd_vc n (\<lambda>v. v\<lparr>vc_saved_x := vc_x v, vc_saved_y := vc_y v\<rparr>)"

definition restore_cur :: "nat \<Rightarrow> tty_state \<Rightarrow> tty_state" where
  "restore_cur n s = gotoxy n (vc_saved_x (vc n s)) (vc_saved_y (vc n s)) s"

subsection \<open>Characters\<close>

text \<open>
  The two rows of \<^verbatim>\<open>translations\<close>, from the character 32 on. The graphics row has the four characters of a
  misspelt \<^verbatim>\<open>\007\<close> in the place of one.
\<close>

definition NORM_TRANS :: "u8 list" where
  "NORM_TRANS = map of_nat [32..<127] @ [32]"

definition GRAF_TRANS :: "u8 list" where
  "GRAF_TRANS = map of_nat [32..<95] @
    [32, 4, 177, 7, 7, 7, 7, 248, 241, 7, 7, 189, 183, 214, 211, 215, 196, 196, 196, 196, 196, 199, 182, 208,
     210, 186, 243, 242, 227, 92, 48, 48, 55, 156, 7, 32]"

definition sysbeep :: "tty_env \<Rightarrow> tty_state \<Rightarrow> tty_state" where
  "sysbeep e s =
    (let s = outb 0x06 0x42 (outb 0x37 0x42 (outb 0xB6 0x43 (outb (te_inb e 0x61 s OR 3) 0x61 s)))
     in s\<lparr>beepcount := 12\<rparr>)"

text \<open>The cursor that has run over the right edge goes to the next line first.\<close>

definition wrap_line :: "nat \<Rightarrow> tty_state \<Rightarrow> tty_state" where
  "wrap_line n s =
    lf n (upd_vc n (\<lambda>v. v\<lparr>vc_x := vc_x v - columns s, vc_pos := vc_pos v - row_size s\<rparr>) s)"

definition show_char :: "u8 \<Rightarrow> nat \<Rightarrow> tty_state \<Rightarrow> tty_state" where
  "show_char c n s =
    (let s = (if vc_x (vc n s) \<ge> columns s then wrap_line n s else s);
         v = vc n s
     in upd_vc n (\<lambda>v. v\<lparr>vc_pos := vc_pos v + 2, vc_x := vc_x v + 1\<rparr>)
          (upd_vmem (put16 (vc_pos v) (ucast c OR push_bit 8 (ucast (vc_attr v)))) s))"

definition con_normal :: "tty_env \<Rightarrow> nat \<Rightarrow> u8 \<Rightarrow> tty_state \<Rightarrow> tty_state" where
  "con_normal e n c s =
    (if 31 < sint c \<and> sint c < 127
     then show_char ((if vc_translate (vc n s) then GRAF_TRANS else NORM_TRANS) ! (unat c - 32)) n s
     else if c = 27 then upd_vc n (\<lambda>v. v\<lparr>vc_state := ESesc\<rparr>) s
     else if c = 10 \<or> c = 11 \<or> c = 12 then lf n s
     else if c = 13 then cr n s
     else if sint c = uint (cc VERASE n s) then del n s
     else if c = 8 then
       if vc_x (vc n s) \<noteq> 0 then upd_vc n (\<lambda>v. v\<lparr>vc_x := vc_x v - 1, vc_pos := vc_pos v - 2\<rparr>) s else s
     else if c = 9 then
       let k = 8 - (vc_x (vc n s) AND 7);
           s = upd_vc n (\<lambda>v. v\<lparr>vc_x := vc_x v + k, vc_pos := vc_pos v + push_bit 1 k\<rparr>) s
       in if vc_x (vc n s) > columns s then wrap_line n s else s
     else if c = 7 then sysbeep e s
     else if c = 14 then upd_vc n (\<lambda>v. v\<lparr>vc_translate := True\<rparr>) s
     else if c = 15 then upd_vc n (\<lambda>v. v\<lparr>vc_translate := False\<rparr>) s
     else s)"

subsection \<open>Escape sequences\<close>

definition set_state :: "escape_state \<Rightarrow> nat \<Rightarrow> tty_state \<Rightarrow> tty_state" where
  "set_state q n = upd_vc n (\<lambda>v. v\<lparr>vc_state := q\<rparr>)"

definition INIT_C_CC :: "nat \<Rightarrow> u8" where
  "INIT_C_CC i =
    (if i < 17 then [3, 28, 127, 21, 4, 0, 1, 0, 17, 19, 26, 0, 18, 15, 23, 22, 0] ! i else 0)"

definition DEF_TERMIOS :: termios_t where
  "DEF_TERMIOS =
    \<lparr>c_iflag = ICRNL, c_oflag = OPOST OR ONLCR, c_cflag = 0,
     c_lflag = IXON OR ISIG OR ICANON OR ECHO OR ECHOCTL OR ECHOKE, c_line = 0, c_cc = INIT_C_CC\<rparr>"

definition RESPONSE :: "u8 list" where
  "RESPONSE = [27, 91, 63, 49, 59, 50, 99]"

definition respond :: "(nat \<Rightarrow> tty_state \<Rightarrow> unit tty_out) \<Rightarrow> nat \<Rightarrow> tty_state \<Rightarrow> unit tty_out" where
  "respond cook k s = cook k (fold (\<lambda>c s. PUTCH c (read_q s k) s) RESPONSE s)"

definition reset_terminal :: "nat \<Rightarrow> tty_state \<Rightarrow> tty_state" where
  "reset_terminal k s =
    upd_vc k (\<lambda>v. v\<lparr>vc_state := ESnormal, vc_restate := ESnormal, vc_checkin := 0, vc_top := 0,
                     vc_bottom := rows s\<rparr>)
      (s\<lparr>tty_termios := (tty_termios s)(k := DEF_TERMIOS)\<rparr>)"

text \<open>The characters behind ESC, in ASCII: 5b is the left bracket, then E M D Z 7 8, the two parentheses, P, the
  number sign and c.\<close>

definition con_esc :: "(nat \<Rightarrow> tty_state \<Rightarrow> unit tty_out) \<Rightarrow> nat \<Rightarrow> u8 \<Rightarrow> tty_state \<Rightarrow> unit tty_out" where
  "con_esc cook n c s =
    (let s = set_state ESnormal n s in
     if c = 0x5b then Done () (set_state ESsquare n s)
     else if c = 0x45 then Done () (gotoxy n 0 (vc_y (vc n s) + 1) s)
     else if c = 0x4d then Done () (ri n s)
     else if c = 0x44 then Done () (lf n s)
     else if c = 0x5a then respond cook n s
     else if c = 0x37 then Done () (save_cur n s)
     else if c = 0x38 then Done () (restore_cur n s)
     else if c = 0x28 \<or> c = 0x29 then Done () (set_state ESsetgraph n s)
     else if c = 0x50 then Done () (set_state ESsetterm n s)
     else if c = 0x23 then Done () (set_state ESother n s)
     else if c = 0x63 then Done () (reset_terminal n s)
     else Done () s)"

text \<open>\<^verbatim>\<open>if (par[i]) par[i]--\<close> and \<^verbatim>\<open>if (!par[i]) par[i]++\<close>\<close>

definition par_index :: "nat \<Rightarrow> nat \<Rightarrow> tty_state \<Rightarrow> tty_state" where
  "par_index i n = upd_vc n (\<lambda>v. v\<lparr>vc_par := (vc_par v)(i := if vc_par v i \<noteq> 0 then vc_par v i - 1 else 0)\<rparr>)"

definition par_count :: "nat \<Rightarrow> tty_state \<Rightarrow> tty_state" where
  "par_count n = upd_vc n (\<lambda>v. v\<lparr>vc_par := (vc_par v)(0 := if vc_par v 0 = 0 then 1 else vc_par v 0)\<rparr>)"

definition par :: "nat \<Rightarrow> nat \<Rightarrow> tty_state \<Rightarrow> u32" where
  "par i n s = vc_par (vc n s) i"

text \<open>
  The last character of a sequence, first the cursor movements: G and the backquote, A, B e, C a, D, E, F, d, H f.
\<close>

definition csi_move :: "nat \<Rightarrow> u8 \<Rightarrow> tty_state \<Rightarrow> tty_state option" where
  "csi_move n c s =
    (let i = par_index 0 n s; k = par_count n s; x = vc_x (vc n s); y = vc_y (vc n s) in
     if c = 0x47 \<or> c = 0x60 then Some (gotoxy n (par 0 n i) y i)
     else if c = 0x41 then Some (gotoxy n x (y - par 0 n k) k)
     else if c = 0x42 \<or> c = 0x65 then Some (gotoxy n x (y + par 0 n k) k)
     else if c = 0x43 \<or> c = 0x61 then Some (gotoxy n (x + par 0 n k) y k)
     else if c = 0x44 then Some (gotoxy n (x - par 0 n k) y k)
     else if c = 0x45 then Some (gotoxy n 0 (y + par 0 n k) k)
     else if c = 0x46 then Some (gotoxy n 0 (y - par 0 n k) k)
     else if c = 0x64 then Some (gotoxy n x (par 0 n i) i)
     else if c = 0x48 \<or> c = 0x66
     then let i = par_index 1 n i in Some (gotoxy n (par 1 n i) (par 0 n i) i)
     else None)"

definition csi_region :: "nat \<Rightarrow> tty_state \<Rightarrow> tty_state" where
  "csi_region n s =
    (let s = par_index 0 n s;
         s = upd_vc n (\<lambda>v. v\<lparr>vc_par := (vc_par v)(1 := if vc_par v 1 = 0 then rows s else vc_par v 1)\<rparr>) s
     in if par 0 n s < par 1 n s \<and> par 1 n s \<le> rows s
        then upd_vc n (\<lambda>v. v\<lparr>vc_top := vc_par v 0, vc_bottom := vc_par v 1\<rparr>) s else s)"

text \<open>The settings of a console that only a sequence with a check on its parameters changes.\<close>

definition csi_guarded :: "nat \<Rightarrow> u8 \<Rightarrow> tty_state \<Rightarrow> tty_state" where
  "csi_guarded n c s =
    (if \<not> (2 \<le> vc_npar (vc n s) \<and> par 1 n s - 13 = par 0 n s \<and> par 2 n s - 17 = par 0 n s) then s
     else
       let s = (if c = 0x6c \<and> par 0 n s \<le> 60
                then s\<lparr>blankinterval := 100 * 60 * par 0 n s, blankcount := 100 * 60 * par 0 n s\<rparr> else s)
       in if c = 0x62 then upd_vc n (\<lambda>v. v\<lparr>vc_bold_attr := vc_par v 0\<rparr>) s else s)"

text \<open>J, K, L, M, P, the at sign, m, r, s, u; l and b.\<close>

definition csi_edit :: "nat \<Rightarrow> u8 \<Rightarrow> tty_state \<Rightarrow> tty_state" where
  "csi_edit n c s =
    (if c = 0x4a then csi_J n (par 0 n s) s
     else if c = 0x4b then csi_K n (par 0 n s) s
     else if c = 0x4c then csi_L n (par 0 n s) s
     else if c = 0x4d then csi_M n (par 0 n s) s
     else if c = 0x50 then csi_P n (par 0 n s) s
     else if c = 0x40 then csi_at n (par 0 n s) s
     else if c = 0x6d then csi_m n s
     else if c = 0x72 then csi_region n s
     else if c = 0x73 then save_cur n s
     else if c = 0x75 then restore_cur n s
     else if c = 0x6c \<or> c = 0x62 then csi_guarded n c s
     else s)"

definition con_gotpars :: "nat \<Rightarrow> u8 \<Rightarrow> tty_state \<Rightarrow> tty_state" where
  "con_gotpars n c s =
    (let s = set_state ESnormal n s in
     if vc_ques (vc n s) then upd_vc n (\<lambda>v. v\<lparr>vc_ques := False\<rparr>) s
     else case csi_move n c s of Some t \<Rightarrow> t | None \<Rightarrow> csi_edit n c s)"

text \<open>A semicolon, a digit, or the character that ends the parameters.\<close>

definition con_getpars :: "nat \<Rightarrow> u8 \<Rightarrow> tty_state \<Rightarrow> tty_state" where
  "con_getpars n c s =
    (if c = 0x3b \<and> vc_npar (vc n s) < 15 then upd_vc n (\<lambda>v. v\<lparr>vc_npar := vc_npar v + 1\<rparr>) s
     else if 0x30 \<le> sint c \<and> sint c \<le> 0x39
     then upd_vc n (\<lambda>v. v\<lparr>vc_par := (vc_par v)(vc_npar v := 10 * vc_par v (vc_npar v) + ucast c - 0x30)\<rparr>) s
     else con_gotpars n c (set_state ESgotpars n s))"

text \<open>The left bracket of a function key, or the question mark.\<close>

definition con_square :: "nat \<Rightarrow> u8 \<Rightarrow> tty_state \<Rightarrow> tty_state" where
  "con_square n c s =
    (let s = upd_vc n (\<lambda>v. v\<lparr>vc_par := (\<lambda>i. if i < 16 then 0 else vc_par v i), vc_npar := 0, vc_state := ESgetpars\<rparr>) s
     in if c = 0x5b then set_state ESfunckey n s
        else
          let s = upd_vc n (\<lambda>v. v\<lparr>vc_ques := (c = 0x3f)\<rparr>) s
          in if vc_ques (vc n s) then s else con_getpars n c s)"

text \<open>\<^verbatim>\<open>ESC P S\<close>\<close>

definition con_setterm :: "nat \<Rightarrow> u8 \<Rightarrow> tty_state \<Rightarrow> tty_state" where
  "con_setterm n c s =
    (let s = set_state ESnormal n s
     in if c = 0x53
        then upd_vc n (\<lambda>v. v\<lparr>vc_def_attr := vc_attr v,
               vc_video_erase_char := (vc_video_erase_char v AND 0x0ff) OR push_bit 8 (ucast (vc_attr v))\<rparr>) s
        else s)"

text \<open>\<^verbatim>\<open>ESC ( 0\<close> and \<^verbatim>\<open>ESC ( B\<close>\<close>

definition con_setgraph :: "nat \<Rightarrow> u8 \<Rightarrow> tty_state \<Rightarrow> tty_state" where
  "con_setgraph n c s =
    (let s = set_state ESnormal n s
     in if c = 0x30 then upd_vc n (\<lambda>v. v\<lparr>vc_translate := True\<rparr>) s
        else if c = 0x42 then upd_vc n (\<lambda>v. v\<lparr>vc_translate := False\<rparr>) s
        else s)"

definition con_char ::
  "tty_env \<Rightarrow> (nat \<Rightarrow> tty_state \<Rightarrow> unit tty_out) \<Rightarrow> nat \<Rightarrow> u8 \<Rightarrow> tty_state \<Rightarrow> unit tty_out" where
  "con_char e cook n c s =
    (let s = (if c = 24 \<or> c = 26 then set_state ESnormal n s else s) in
     case vc_state (vc n s) of
       ESnormal \<Rightarrow> Done () (con_normal e n c s)
     | ESesc \<Rightarrow> con_esc cook n c s
     | ESsquare \<Rightarrow> Done () (con_square n c s)
     | ESgetpars \<Rightarrow> Done () (con_getpars n c s)
     | ESgotpars \<Rightarrow> Done () (con_gotpars n c s)
     | ESfunckey \<Rightarrow> Done () (set_state ESnormal n s)
     | ESsetterm \<Rightarrow> Done () (con_setterm n c s)
     | ESsetgraph \<Rightarrow> Done () (con_setgraph n c s)
     | ESother \<Rightarrow> Done () (set_state ESnormal n s))"

fun con_chars ::
  "tty_env \<Rightarrow> (nat \<Rightarrow> tty_state \<Rightarrow> unit tty_out) \<Rightarrow> nat \<Rightarrow> nat \<Rightarrow> tty_state \<Rightarrow> unit tty_out" where
  "con_chars e cook k 0 s = Done () s"
| "con_chars e cook k (Suc nr) s =
    (if t_stopped (tty_lines s k) then Done () s
     else case GETCH (write_q s k) s of
       (c, s) \<Rightarrow> and_then (con_char e cook k c s) (\<lambda>_. con_chars e cook k nr))"

definition con_write_with ::
  "tty_env \<Rightarrow> (nat \<Rightarrow> tty_state \<Rightarrow> unit tty_out) \<Rightarrow> nat \<Rightarrow> tty_state \<Rightarrow> unit tty_out" where
  "con_write_with e cook k s =
    (if k \<ge> MAX_CONSOLES then Panics ''con_write: illegal tty''
     else and_then (con_chars e cook k (unat (CHARS (tty_queues s (write_q s k)))) s)
            (\<lambda>_ s. Done () (set_cursor k s)))"

subsection \<open>The kernel's own output, and start-up\<close>

definition console_print_char :: "nat \<Rightarrow> u8 \<Rightarrow> tty_state \<Rightarrow> tty_state" where
  "console_print_char n c s =
    (if c = 10 then lf n (cr n s) else if c = 13 then cr n s else show_char c n s)"

definition console_print :: "u8 list \<Rightarrow> tty_state \<Rightarrow> tty_state" where
  "console_print b s =
    (let n = fg_console s in set_cursor n (fold (console_print_char n) (takeWhile (\<lambda>c. c \<noteq> 0) b) s))"

definition update_screen :: "tty_state \<Rightarrow> tty_state" where
  "update_screen s = (let s = set_origin (fg_console s) s in set_cursor (fg_console s) s)"

definition sysbeepstop :: "tty_env \<Rightarrow> tty_state \<Rightarrow> tty_state" where
  "sysbeepstop e s = outb (te_inb e 0x61 s AND 0xFC) 0x61 s"

definition do_screendump :: "u32 \<Rightarrow> tty_state \<Rightarrow> int tty_out" where
  "do_screendump buf s =
    (let n = columns s * rows s in
     and_then (verify_area buf n s) (\<lambda>_ s.
       let c = unat (get_fs_byte buf s) in
       if c < 1 \<or> c > NR_CONSOLES s then Done (- EIO) s
       else Done 0 (fold (\<lambda>i s. put_fs_byte (vmem s (vc_origin (vc (c - 1) s) + of_nat i)) (buf + of_nat i) s)
                         [0..<nat (sint n)] s)))"

text \<open>What \<^verbatim>\<open>setup.S\<close> leaves at 0x90000.\<close>

record boot_video =
  ORIG_X :: u8
  ORIG_Y :: u8
  ORIG_VIDEO_PAGE :: u16
  ORIG_VIDEO_MODE_COLS :: u16
  ORIG_VIDEO_LINES :: u16
  ORIG_VIDEO_EGA_BX :: u16

definition video_found :: "boot_video \<Rightarrow> video_t \<times> u8 list" where
  "video_found b =
    (let cols = ucast (drop_bit 8 (ORIG_VIDEO_MODE_COLS b AND 0xff00));
         mono = (ORIG_VIDEO_MODE_COLS b AND 0xff = 7); vga = (ORIG_VIDEO_EGA_BX b AND 0xff \<noteq> 0x10);
         g = \<lparr>video_type = VIDEO_TYPE_MDA, video_num_columns = cols, video_mem_base = 0, video_mem_term = 0,
              video_size_row = cols * 2, video_num_lines = ucast (ORIG_VIDEO_LINES b AND 0xff),
              video_page = ucast (ORIG_VIDEO_PAGE b), video_port_reg = 0x3b4, video_port_val = 0x3b5,
              can_do_colour = False\<rparr>
     in if mono then
          (let g = g\<lparr>video_mem_base := 0xb0000\<rparr>
           in if vga then (g\<lparr>video_type := VIDEO_TYPE_EGAM, video_mem_term := 0xb8000\<rparr>, [69, 71, 65, 109])
              else (g\<lparr>video_type := VIDEO_TYPE_MDA, video_mem_term := 0xb2000\<rparr>, [42, 77, 68, 65]))
        else
          (let g = g\<lparr>can_do_colour := True, video_mem_base := 0xb8000, video_port_reg := 0x3d4, video_port_val := 0x3d5\<rparr>
           in if vga then (g\<lparr>video_type := VIDEO_TYPE_EGAC, video_mem_term := 0xc0000\<rparr>, [69, 71, 65, 99])
              else (g\<lparr>video_type := VIDEO_TYPE_CGA, video_mem_term := 0xba000\<rparr>, [42, 67, 71, 65])))"

definition con_count :: "video_t \<Rightarrow> nat" where
  "con_count g =
    (let k = unat (video_mem_term g - video_mem_base g) div unat (video_num_lines g * video_size_row g)
     in if k > MAX_CONSOLES then MAX_CONSOLES else if k = 0 then 1 else k)"

text \<open>Console 0, and console \<open>n\<close> as a copy of it behind the others in video memory; \<open>share\<close> is what each one gets.\<close>

definition first_console :: "u32 \<Rightarrow> tty_state \<Rightarrow> tty_state" where
  "first_console share s =
    (let base = video_mem_base (video s) in
     upd_vc 0 (\<lambda>v. v\<lparr>vc_video_erase_char := 0x0720, vc_origin := base, vc_video_mem_start := base,
       vc_video_mem_end := base + share, vc_scr_end := base + rows s * row_size s, vc_top := 0, vc_bottom := rows s,
       vc_attr := 7, vc_def_attr := 7, vc_restate := ESnormal, vc_state := ESnormal, vc_checkin := 0,
       vc_ques := False, vc_iscolor := False, vc_translate := False, vc_bold_attr := - 1\<rparr>) s)"

definition next_console :: "u32 \<Rightarrow> nat \<Rightarrow> tty_state \<Rightarrow> tty_state" where
  "next_console share n s =
    (let base = video_mem_base (video s) + of_nat n * share in
     gotoxy n 0 0
       (upd_vc n (\<lambda>_. (vc 0 s)\<lparr>vc_origin := base, vc_video_mem_start := base,
          vc_scr_end := base + rows s * row_size s, vc_video_mem_end := base + share\<rparr>) s))"

definition con_init :: "tty_env \<Rightarrow> boot_video \<Rightarrow> tty_state \<Rightarrow> unit tty_out" where
  "con_init e b s =
    (case video_found b of (g, desc) \<Rightarrow>
     if video_num_lines g * video_size_row g = 0 then Undefined ''division by zero''
     else
       let k = con_count g; share = (video_mem_term g - video_mem_base g) div of_nat k;
           s = s\<lparr>blankcount := blankinterval s, video := g, NR_CONSOLES := k\<rparr>;
           ptr = video_mem_base g + video_size_row g - 8;
           s = upd_vmem (\<lambda>m. fold (\<lambda>i m. m(ptr + 2 * of_nat i := desc ! i)) [0..<4] m) s;
           s = gotoxy 0 (ucast (ORIG_X b)) (ucast (ORIG_Y b)) (first_console share s);
           s = update_screen (fold (next_console share) [1..<k] s);
           s = outb (te_inb e 0x21 s AND 0xfd) 0x21 s;
           a = te_inb e 0x61 s
       in Done () (outb a 0x61 (outb (a OR 0x80) 0x61 s)))"

end
