(* ===== verification/Tty_Io.thy ===== *)
theory Tty_Io
  imports Console
begin

section \<open>Terminal input and output\<close>

text \<open>
  \<^verbatim>\<open>kernel/chr_drv/tty_io.c\<close>, \<^verbatim>\<open>pty.c\<close> and \<^verbatim>\<open>serial.c\<close>. The line discipline \<open>copy_to_cooked\<close> moves characters from the
  read queue of a terminal to its secondary queue, editing the line, and echoes them by the terminal's write
  function; that function may call \<open>copy_to_cooked\<close> again (for the other end of a pseudo terminal, or with the answer
  of the console). Each is therefore defined with the other as an argument \<open>wr\<close> or \<open>cook\<close>, and \<open>write_tty\<close> ties the
  knot for as many nested calls as the kernel stack has room for. The fuel is the only thing that bounds the
  recursion; \<^verbatim>\<open>cli\<close> and \<^verbatim>\<open>sti\<close> have no effect in the model.
\<close>

unbundle bit_operations_syntax

subsection \<open>Sleeping on a queue\<close>

definition change_console :: "nat \<Rightarrow> tty_state \<Rightarrow> tty_state" where
  "change_console new_console s =
    (if new_console = fg_console s \<or> new_console \<ge> NR_CONSOLES s then s
     else update_screen (s\<lparr>fg_console := new_console,
            table_list := (table_list s)(0 := 1 + new_console * 3, 1 := 2 + new_console * 3)\<rparr>))"

definition sleep_if_empty :: "tty_env \<Rightarrow> nat \<Rightarrow> tty_state \<Rightarrow> unit tty_out" where
  "sleep_if_empty e q = await (\<lambda>s. \<not> signal_waits s \<and> EMPTY (tty_queues s q)) (te_sleep e q)"

definition sleep_if_full :: "tty_env \<Rightarrow> nat \<Rightarrow> tty_state \<Rightarrow> unit tty_out" where
  "sleep_if_full e q s =
    (if \<not> FULL (tty_queues s q) then Done () s
     else await (\<lambda>s. \<not> signal_waits s \<and> LEFT (tty_queues s q) < 128) (te_sleep e q) s)"

definition wait_for_keypress :: "tty_env \<Rightarrow> tty_state \<Rightarrow> unit tty_out" where
  "wait_for_keypress e s = sleep_if_empty e (secondary s (fg_console s)) s"

definition no_queues :: "nat \<Rightarrow> tty_state \<Rightarrow> bool" where
  "no_queues k s \<longleftrightarrow> read_q s k = 0 \<and> write_q s k = 0 \<and> secondary s k = 0"

subsection \<open>The line discipline\<close>

text \<open>Carriage return and newline on input; \<open>None\<close> if the character is dropped.\<close>

definition cook_cr :: "u8 \<Rightarrow> nat \<Rightarrow> tty_state \<Rightarrow> u8 option" where
  "cook_cr c k s =
    (if c = 13 then if i_flag ICRNL k s then Some 10 else if i_flag IGNCR k s then None else Some 13
     else if c = 10 \<and> i_flag INLCR k s then Some 13 else Some c)"

text \<open>The rubbing out of a character on the screen, two columns for a control character.\<close>

definition echo_erase :: "(nat \<Rightarrow> tty_state \<Rightarrow> unit tty_out) \<Rightarrow> nat \<Rightarrow> u8 \<Rightarrow> tty_state \<Rightarrow> unit tty_out" where
  "echo_erase wr k c s =
    (if l_flag ECHO k s
     then let s = (if sint c < 32 then PUTCH 127 (write_q s k) s else s) in wr k (PUTCH 127 (write_q s k) s)
     else Done () s)"

text \<open>Whether the last character of the line is behind the current one: there is nothing to erase.\<close>

definition line_start :: "nat \<Rightarrow> tty_state \<Rightarrow> bool" where
  "line_start k s \<longleftrightarrow>
    (let q = tty_queues s (secondary s k) in EMPTY q \<or> LAST q = 10 \<or> is_cc (LAST q) VEOF k s)"

definition kill_line :: "(nat \<Rightarrow> tty_state \<Rightarrow> unit tty_out) \<Rightarrow> nat \<Rightarrow> tty_state \<Rightarrow> unit tty_out" where
  "kill_line wr k =
    loop (\<lambda>_ s. if line_start k s then Done (Leave ()) s
                else and_then (echo_erase wr k (LAST (tty_queues s (secondary s k))) s)
                       (\<lambda>_ s. Done (Again ()) (upd_queue (secondary s k) drop_char s))) ()"

text \<open>The stages; the result is whether the character has been consumed (\<^verbatim>\<open>continue\<close>).\<close>

definition cook_edit :: "(nat \<Rightarrow> tty_state \<Rightarrow> unit tty_out) \<Rightarrow> nat \<Rightarrow> u8 \<Rightarrow> tty_state \<Rightarrow> bool tty_out" where
  "cook_edit wr k c s =
    (if \<not> l_flag ICANON k s then Done False s
     else if is_cc c VKILL k s then and_then (kill_line wr k s) (\<lambda>_. Done True)
     else if is_cc c VERASE k s then
       if line_start k s then Done True s
       else and_then (echo_erase wr k (LAST (tty_queues s (secondary s k))) s)
              (\<lambda>_ s. Done True (upd_queue (secondary s k) drop_char s))
     else Done False s)"

definition cook_flow :: "(nat \<Rightarrow> tty_state \<Rightarrow> unit tty_out) \<Rightarrow> nat \<Rightarrow> u8 \<Rightarrow> tty_state \<Rightarrow> bool tty_out" where
  "cook_flow wr k c s =
    (if \<not> i_flag IXON k s then Done False s
     else if is_cc c VSTOP k s then and_then (wr k (upd_line k (\<lambda>t. t\<lparr>t_stopped := True\<rparr>) s)) (\<lambda>_. Done True)
     else if is_cc c VSTART k s then and_then (wr k (upd_line k (\<lambda>t. t\<lparr>t_stopped := False\<rparr>) s)) (\<lambda>_. Done True)
     else Done False s)"

definition cook_signal :: "nat \<Rightarrow> u8 \<Rightarrow> tty_state \<Rightarrow> bool tty_out" where
  "cook_signal k c s =
    (if \<not> l_flag ISIG k s then Done False s
     else if is_cc c VINTR k s then and_then (kill_pg (tty_pgrp s k) 2 True s) (\<lambda>_. Done True)
     else if is_cc c VQUIT k s then and_then (kill_pg (tty_pgrp s k) 3 True s) (\<lambda>_. Done True)
     else if is_cc c VSUSP k s then
       if is_orphaned_pgrp (tty_pgrp s k) s then Done True s
       else and_then (kill_pg (tty_pgrp s k) (int SIGTSTP) True s) (\<lambda>_. Done True)
     else Done False s)"

definition echo_char :: "u8 \<Rightarrow> nat \<Rightarrow> tty_state \<Rightarrow> tty_state" where
  "echo_char c k s =
    (if c = 10 then PUTCH 13 (write_q s k) (PUTCH 10 (write_q s k) s)
     else if sint c < 32 then
       if l_flag ECHOCTL k s then PUTCH (c + 64) (write_q s k) (PUTCH 94 (write_q s k) s) else s
     else PUTCH c (write_q s k) s)"

definition cook_store :: "(nat \<Rightarrow> tty_state \<Rightarrow> unit tty_out) \<Rightarrow> nat \<Rightarrow> u8 \<Rightarrow> tty_state \<Rightarrow> unit tty_out" where
  "cook_store wr k c s =
    (let s = (if c = 10 \<or> is_cc c VEOF k s then upd_queue (secondary s k) (\<lambda>q. q\<lparr>q_data := q_data q + 1\<rparr>) s else s)
     in and_then (if l_flag ECHO k s then wr k (echo_char c k s) else Done () s)
          (\<lambda>_ s. Done () (PUTCH c (secondary s k) s)))"

definition cook_rest :: "(nat \<Rightarrow> tty_state \<Rightarrow> unit tty_out) \<Rightarrow> nat \<Rightarrow> u8 \<Rightarrow> tty_state \<Rightarrow> unit tty_out" where
  "cook_rest wr k c s =
    and_then (cook_edit wr k c s) (\<lambda>done s. if done then Done () s else
    and_then (cook_flow wr k c s) (\<lambda>done s. if done then Done () s else
    and_then (cook_signal k c s) (\<lambda>done s. if done then Done () s else cook_store wr k c s)))"

definition cook_char :: "(nat \<Rightarrow> tty_state \<Rightarrow> unit tty_out) \<Rightarrow> nat \<Rightarrow> u8 \<Rightarrow> tty_state \<Rightarrow> unit tty_out" where
  "cook_char wr k c s =
    (case cook_cr c k s of
       None \<Rightarrow> Done () s
     | Some c \<Rightarrow> and_then (if i_flag IUCLC k s then tolower c s else Done c s) (\<lambda>c. cook_rest wr k c))"

definition cook_loop :: "(nat \<Rightarrow> tty_state \<Rightarrow> unit tty_out) \<Rightarrow> nat \<Rightarrow> tty_state \<Rightarrow> unit tty_out" where
  "cook_loop wr k =
    loop (\<lambda>_ s. if EMPTY (tty_queues s (read_q s k)) \<or> FULL (tty_queues s (secondary s k)) then Done (Leave ()) s
                else case GETCH (read_q s k) s of
                  (c, s) \<Rightarrow> and_then (cook_char wr k c s) (\<lambda>_. Done (Again ()))) ()"

definition copy_to_cooked_with :: "(nat \<Rightarrow> tty_state \<Rightarrow> unit tty_out) \<Rightarrow> nat \<Rightarrow> tty_state \<Rightarrow> unit tty_out" where
  "copy_to_cooked_with wr k s =
    (if no_queues k s then Done () s
     else and_then (cook_loop wr k s) (\<lambda>_ s. Done () (wake_up (q_proc_list (tty_queues s (secondary s k))) s)))"

subsection \<open>Serial lines and pseudo terminals\<close>

definition rs_write :: "tty_env \<Rightarrow> nat \<Rightarrow> tty_state \<Rightarrow> unit tty_out" where
  "rs_write e k s =
    (let q = tty_queues s (write_q s k); port = ucast (q_data q + 1)
     in Done () (if EMPTY q then s else outb (te_inb e port s OR 0x02) port s))"

definition pty_copy :: "(nat \<Rightarrow> tty_state \<Rightarrow> unit tty_out) \<Rightarrow> nat \<Rightarrow> nat \<Rightarrow> tty_state \<Rightarrow> unit tty_out" where
  "pty_copy cook k_from k_to s =
    and_then
      (loop (\<lambda>_ s. if t_stopped (tty_lines s k_from) \<or> EMPTY (tty_queues s (write_q s k_from)) then Done (Leave ()) s
                   else if FULL (tty_queues s (read_q s k_to)) then
                     if FULL (tty_queues s (secondary s k_to)) then Done (Leave ()) s
                     else and_then (cook k_to s) (\<lambda>_. Done (Again ()))
                   else case GETCH (write_q s k_from) s of
                     (c, s) \<Rightarrow> let s = PUTCH c (read_q s k_to) s
                              in Done (if signal_waits s then Leave () else Again ()) s) () s)
      (\<lambda>_ s. and_then (cook k_to s) (\<lambda>_ s. Done () (wake_up (q_proc_list (tty_queues s (write_q s k_from))) s)))"

definition mpty_write :: "(nat \<Rightarrow> tty_state \<Rightarrow> unit tty_out) \<Rightarrow> nat \<Rightarrow> tty_state \<Rightarrow> unit tty_out" where
  "mpty_write cook k s = (if k div 64 \<noteq> 2 then Done () s else pty_copy cook k (k + 64) s)"

definition spty_write :: "(nat \<Rightarrow> tty_state \<Rightarrow> unit tty_out) \<Rightarrow> nat \<Rightarrow> tty_state \<Rightarrow> unit tty_out" where
  "spty_write cook k s = (if k div 64 \<noteq> 3 then Done () s else pty_copy cook k (k - 64) s)"

text \<open>\<^verbatim>\<open>tty->write(tty)\<close>; a call through NULL, or one that finds no stack left, is undefined.\<close>

primrec write_tty :: "tty_env \<Rightarrow> nat \<Rightarrow> nat \<Rightarrow> tty_state \<Rightarrow> unit tty_out" where
  "write_tty e 0 k s = Undefined ''kernel stack''"
| "write_tty e (Suc n) k s =
    (case t_write (tty_lines s k) of
       No_Writer \<Rightarrow> Undefined ''tty->write''
     | Con_Write \<Rightarrow> con_write_with e (copy_to_cooked_with (write_tty e n)) k s
     | Rs_Write \<Rightarrow> rs_write e k s
     | Mpty_Write \<Rightarrow> mpty_write (copy_to_cooked_with (write_tty e n)) k s
     | Spty_Write \<Rightarrow> spty_write (copy_to_cooked_with (write_tty e n)) k s)"

definition tty_out :: "tty_env \<Rightarrow> nat \<Rightarrow> tty_state \<Rightarrow> unit tty_out" where
  "tty_out e = write_tty e (te_nesting e)"

definition copy_to_cooked :: "tty_env \<Rightarrow> nat \<Rightarrow> tty_state \<Rightarrow> unit tty_out" where
  "copy_to_cooked e = copy_to_cooked_with (tty_out e)"

definition do_tty_interrupt :: "tty_env \<Rightarrow> nat \<Rightarrow> tty_state \<Rightarrow> unit tty_out" where
  "do_tty_interrupt e nr s = copy_to_cooked e (TTY_TABLE nr s) s"

end
