(* ===== verification/Tty_Calls.thy ===== *)
theory Tty_Calls
  imports Tty_Io
begin

section \<open>Reading, writing and controlling terminals\<close>

text \<open>
  The calls of \<^verbatim>\<open>tty_io.c\<close> that \<^verbatim>\<open>fs/char_dev.c\<close> and \<^verbatim>\<open>fs/ioctl.c\<close> reach, \<^verbatim>\<open>tty_ioctl.c\<close>, and \<open>tty_init\<close>.
\<close>

unbundle bit_operations_syntax

definition tty_signal :: "nat \<Rightarrow> tty_state \<Rightarrow> int tty_out" where
  "tty_signal sig s =
    (if is_orphaned_pgrp (pgrp (cur s)) s then Done (- EIO) s
     else and_then (kill_pg (pgrp (cur s)) (int sig) True s) (\<lambda>_ s.
       let h = sa_handler (sigaction (cur s) (sig - 1)) in
       Done (if blocked (cur s) AND bit1 (sig - 1) \<noteq> 0 \<or> h = 1 then - EIO
             else if h \<noteq> 0 then - EINTR else - ERESTARTSYS) s))"

definition background :: "u32 \<Rightarrow> nat \<Rightarrow> tty_state \<Rightarrow> bool" where
  "background channel k s \<longleftrightarrow> tty (cur s) = channel \<and> tty_pgrp s k \<noteq> pgrp (cur s)"

definition set_timeout :: "u32 \<Rightarrow> tty_state \<Rightarrow> tty_state" where
  "set_timeout t = upd_cur (\<lambda>p. p\<lparr>timeout := t\<rparr>)"

subsection \<open>Reading\<close>

text \<open>The inner loop of \<open>tty_read\<close>, for \<open>n\<close> characters at most; the result is the new \<open>b\<close> and \<open>nr\<close>.\<close>

primrec read_chars :: "nat \<Rightarrow> nat \<Rightarrow> u32 \<Rightarrow> tty_state \<Rightarrow> (u32 \<times> nat) \<times> tty_state" where
  "read_chars k 0 b s = ((b, 0), s)"
| "read_chars k (Suc n) b s =
    (case GETCH (secondary s k) s of
       (c, s) \<Rightarrow>
         let eof = is_cc c VEOF k s;
             s = (if eof \<or> c = 10 then upd_queue (secondary s k) (\<lambda>q. q\<lparr>q_data := q_data q - 1\<rparr>) s else s) in
         if eof \<and> l_flag ICANON k s then ((b, Suc n), s)
         else
           let s = put_fs_byte c b s in
           if n = 0 then ((b + 1, 0), s)
           else if c = 10 \<and> l_flag ICANON k s then ((b + 1, n), s)
           else if EMPTY (tty_queues s (secondary s k)) then ((b + 1, n), s)
           else read_chars k n (b + 1) s)"

text \<open>\<^verbatim>\<open>VTIME\<close> and \<^verbatim>\<open>VMIN\<close>: the minimum, the time between characters, and the timeout of the caller.\<close>

definition read_mode :: "nat \<Rightarrow> int \<Rightarrow> tty_state \<Rightarrow> int \<times> u32 \<times> tty_state" where
  "read_mode k nr s =
    (let time = 10 * ucast (cc VTIME k s); minimum = uint (cc VMIN k s);
         (minimum, time, s) =
           (if l_flag ICANON k s then (nr, 0, set_timeout (- 1) s)
            else if minimum \<noteq> 0 then (minimum, time, set_timeout (- 1) s)
            else (nr, 0, if time \<noteq> 0 then set_timeout (time + jiffies s) s else s))
     in (min minimum nr, time, s))"

text \<open>One turn of the outer loop; \<open>other\<close> is the other end of a pseudo terminal.\<close>

definition read_turn ::
  "tty_env \<Rightarrow> nat \<Rightarrow> u32 \<Rightarrow> nat option \<Rightarrow> u32 \<Rightarrow> int \<Rightarrow> u32 \<Rightarrow> u32 \<times> nat \<Rightarrow> tty_state \<Rightarrow> (u32 \<times> nat, u32) turn tty_out" where
  "read_turn e k channel other time minimum buf v s =
    (case v of (b, nr) \<Rightarrow>
     if nr = 0 then Done (Leave b) s
     else and_then (case other of Some j \<Rightarrow> tty_out e j s | None \<Rightarrow> Done () s) (\<lambda>_ s.
       let q = tty_queues s (secondary s k) in
       if EMPTY q \<or> l_flag ICANON k s \<and> \<not> FULL (tty_queues s (read_q s k)) \<and> q_data q = 0
       then
         if timeout (cur s) = 0 \<or> signal_waits s then Done (Leave b) s
         else if channel AND 0xc0 = 0xc0 \<and> (case other of Some j \<Rightarrow> c_cflag (tty_termios s j) AND CBAUD = 0 | None \<Rightarrow> False)
         then Done (Leave b) s
         else Done (Again (b, nr)) (te_sleep e (secondary s k) s)
       else
         case read_chars k nr b s of
           ((b, nr), s) \<Rightarrow>
             let s = wake_up (q_proc_list (tty_queues s (read_q s k))) s;
                 s = (if time \<noteq> 0 then set_timeout (time + jiffies s) s else s)
             in Done (if l_flag ICANON k s \<or> minimum \<le> sint (b - buf) then Leave b else Again (b, nr)) s))"

definition tty_read_call :: "tty_env \<Rightarrow> u32 \<Rightarrow> u32 \<Rightarrow> int \<Rightarrow> tty_state \<Rightarrow> int tty_out" where
  "tty_read_call e channel buf nr s =
    (if channel > 255 then Done (- EIO) s
     else
       let k = TTY_TABLE (unat channel) s in
       if no_queues k s then Done (- EIO) s
       else if background channel k s then tty_signal SIGTTIN s
       else
         let other = (if channel AND 0x80 \<noteq> 0 then Some (unat (channel XOR 0x40)) else None) in
         case read_mode k nr s of
           (minimum, time, s) \<Rightarrow>
             and_then (loop (read_turn e k channel other time minimum buf) (buf, nat nr) s) (\<lambda>b s.
               let s = set_timeout 0 s in
               Done (if signal_waits s \<and> b = buf then - ERESTARTSYS else sint (b - buf)) s))"

subsection \<open>Writing\<close>

text \<open>One turn of the inner loop of \<open>tty_write\<close>: output processing of the next character.\<close>

definition post_char :: "u8 \<Rightarrow> nat \<Rightarrow> tty_state \<Rightarrow> u8" where
  "post_char c k s =
    (if c = 13 \<and> o_flag OCRNL k s then 10 else if c = 10 \<and> o_flag ONLRET k s then 13 else c)"

definition write_turn :: "nat \<Rightarrow> u32 \<times> nat \<Rightarrow> tty_state \<Rightarrow> (u32 \<times> nat, u32 \<times> nat) turn tty_out" where
  "write_turn k v s =
    (case v of (b, nr) \<Rightarrow>
     if nr = 0 \<or> FULL (tty_queues s (write_q s k)) then Done (Leave (b, nr)) s
     else
       let c = get_fs_byte b s; post = o_flag OPOST k s; c = (if post then post_char c k s else c) in
       if post \<and> c = 10 \<and> \<not> cr_flag s \<and> o_flag ONLCR k s
       then Done (Again (b, nr)) (PUTCH 13 (write_q s k) (s\<lparr>cr_flag := True\<rparr>))
       else and_then (if post \<and> o_flag OLCUC k s then toupper c s else Done c s) (\<lambda>c s.
         Done (Again (b + 1, nr - 1)) (PUTCH c (write_q s k) (s\<lparr>cr_flag := False\<rparr>))))"

definition write_block :: "tty_env \<Rightarrow> nat \<Rightarrow> u32 \<times> nat \<Rightarrow> tty_state \<Rightarrow> (u32 \<times> nat, u32) turn tty_out" where
  "write_block e k v s =
    (case v of (b, nr) \<Rightarrow>
     if nr = 0 then Done (Leave b) s
     else and_then (sleep_if_full e (write_q s k) s) (\<lambda>_ s.
       if signal_waits s then Done (Leave b) s
       else and_then (loop (write_turn k) (b, nr) s) (\<lambda>(b, nr) s.
            and_then (tty_out e k s) (\<lambda>_ s.
            if nr = 0 then Done (Again (b, nr)) s
            else and_then (reschedule (te_resume e) s) (\<lambda>_. Done (Again (b, nr)))))))"

definition tty_write_call :: "tty_env \<Rightarrow> u32 \<Rightarrow> u32 \<Rightarrow> int \<Rightarrow> tty_state \<Rightarrow> int tty_out" where
  "tty_write_call e channel buf nr s =
    (if channel > 255 then Done (- EIO) s
     else
       let k = TTY_TABLE (unat channel) s in
       if no_queues k s then Done (- EIO) s
       else if l_flag TOSTOP k s \<and> background channel k s then tty_signal SIGTTOU s
       else and_then (loop (write_block e k) (buf, nat nr) s) (\<lambda>b. Done (sint (b - buf))))"

subsection \<open>Control\<close>

definition quotient :: "nat \<Rightarrow> u16" where
  "quotient i = [0, 2304, 1536, 1047, 857, 768, 576, 384, 192, 96, 64, 48, 24, 12, 6, 3] ! i"

definition change_speed :: "nat \<Rightarrow> tty_state \<Rightarrow> tty_state" where
  "change_speed k s =
    (let port = ucast (q_data (tty_queues s (read_q s k))) :: u16; quot = quotient (unat (c_cflag (tty_termios s k) AND CBAUD))
     in if port = 0 then s
        else outb 0x03 (port + 3) (outb (ucast (drop_bit 8 quot)) (port + 1) (outb (ucast (quot AND 0xff)) port
               (outb 0x80 (port + 3) s))))"

definition flush :: "nat \<Rightarrow> tty_state \<Rightarrow> tty_state" where
  "flush q = upd_queue q (\<lambda>q. q\<lparr>q_head := q_tail q\<rparr>)"

text \<open>The 36 bytes of a \<^verbatim>\<open>struct termios\<close>, the last two of them padding, and the 18 of a \<^verbatim>\<open>struct termio\<close>.\<close>

definition termios_byte :: "nat \<Rightarrow> tty_state \<Rightarrow> nat \<Rightarrow> u8" where
  "termios_byte k s i =
    (let t = tty_termios s k in
     if i < 16
     then ucast (drop_bit (8 * (i mod 4))
            (if i < 4 then c_iflag t else if i < 8 then c_oflag t else if i < 12 then c_cflag t else c_lflag t))
     else if i = 16 then c_line t else if i < 34 then c_cc t (i - 17) else t_pad (tty_lines s k) (i - 34))"

definition put_bytes :: "(nat \<Rightarrow> u8) \<Rightarrow> nat \<Rightarrow> u32 \<Rightarrow> tty_state \<Rightarrow> tty_state" where
  "put_bytes f n addr s = fold (\<lambda>i. put_fs_byte (f i) (addr + of_nat i)) [0..<n] s"

definition get_termios :: "nat \<Rightarrow> u32 \<Rightarrow> tty_state \<Rightarrow> int tty_out" where
  "get_termios k addr s =
    and_then (verify_area addr 36 s) (\<lambda>_ s. Done 0 (put_bytes (termios_byte k s) 36 addr s))"

text \<open>A call from the background first sends SIGTTOU, and goes on only if that is blocked or ignored.\<close>

definition from_foreground :: "u32 \<Rightarrow> nat \<Rightarrow> (tty_state \<Rightarrow> int tty_out) \<Rightarrow> tty_state \<Rightarrow> int tty_out" where
  "from_foreground channel k f s =
    (if background channel k s
     then and_then (tty_signal SIGTTOU s) (\<lambda>r s. if r = - ERESTARTSYS \<or> r = - EINTR then Done r s else f s)
     else f s)"

definition read_termios :: "u32 \<Rightarrow> tty_state \<Rightarrow> termios_t" where
  "read_termios addr s =
    \<lparr>c_iflag = get_fs_long addr s, c_oflag = get_fs_long (addr + 4) s, c_cflag = get_fs_long (addr + 8) s,
     c_lflag = get_fs_long (addr + 12) s, c_line = get_fs_byte (addr + 16) s,
     c_cc = (\<lambda>i. get_fs_byte (addr + 17 + of_nat i) s)\<rparr>"

definition set_termios :: "nat \<Rightarrow> u32 \<Rightarrow> u32 \<Rightarrow> tty_state \<Rightarrow> int tty_out" where
  "set_termios k addr channel =
    from_foreground channel k (\<lambda>s.
      let t = read_termios addr s;
          s = s\<lparr>tty_termios := (tty_termios s)(k := t\<lparr>c_cc := \<lambda>i. if i < 17 then c_cc t i else c_cc (tty_termios s k) i\<rparr>)\<rparr>;
          s = upd_line k (\<lambda>l. l\<lparr>t_pad := \<lambda>i. if i < 2 then get_fs_byte (addr + 34 + of_nat i) s else t_pad l i\<rparr>) s
      in Done 0 (change_speed k s))"

definition termio_byte :: "u8 \<Rightarrow> nat \<Rightarrow> tty_state \<Rightarrow> nat \<Rightarrow> u8" where
  "termio_byte junk k s i =
    (let t = tty_termios s k in
     if i < 8
     then ucast (drop_bit (8 * (i mod 2))
            (if i < 2 then c_iflag t else if i < 4 then c_oflag t else if i < 6 then c_cflag t else c_lflag t))
     else if i = 8 then c_line t else if i < 17 then c_cc t (i - 9) else junk)"

definition get_termio :: "tty_env \<Rightarrow> nat \<Rightarrow> u32 \<Rightarrow> tty_state \<Rightarrow> int tty_out" where
  "get_termio e k addr s =
    and_then (verify_area addr 18 s) (\<lambda>_ s. Done 0 (put_bytes (termio_byte (te_junk e) k s) 18 addr s))"

text \<open>A \<open>short\<close> written over the low half of a \<open>long\<close>.\<close>

definition low_half :: "u16 \<Rightarrow> u32 \<Rightarrow> u32" where
  "low_half h w = (w AND 0xffff0000) OR ucast h"

definition set_termio :: "nat \<Rightarrow> u32 \<Rightarrow> u32 \<Rightarrow> tty_state \<Rightarrow> int tty_out" where
  "set_termio k addr channel =
    from_foreground channel k (\<lambda>s.
      let t = tty_termios s k;
          t = \<lparr>c_iflag = low_half (get_fs_word addr s) (c_iflag t), c_oflag = low_half (get_fs_word (addr + 2) s) (c_oflag t),
               c_cflag = low_half (get_fs_word (addr + 4) s) (c_cflag t), c_lflag = low_half (get_fs_word (addr + 6) s) (c_lflag t),
               c_line = get_fs_byte (addr + 8) s,
               c_cc = (\<lambda>i. if i < 8 then get_fs_byte (addr + 9 + of_nat i) s else c_cc t i)\<rparr>
      in Done 0 (change_speed k (s\<lparr>tty_termios := (tty_termios s)(k := t)\<rparr>)))"

definition tcxonc :: "tty_env \<Rightarrow> nat \<Rightarrow> u32 \<Rightarrow> tty_state \<Rightarrow> int tty_out" where
  "tcxonc e k arg s =
    (if arg = 0 then and_then (tty_out e k (upd_line k (\<lambda>t. t\<lparr>t_stopped := True\<rparr>) s)) (\<lambda>_. Done 0)
     else if arg = 1 then and_then (tty_out e k (upd_line k (\<lambda>t. t\<lparr>t_stopped := False\<rparr>) s)) (\<lambda>_. Done 0)
     else if arg = 2 then Done 0 (if cc VSTOP k s \<noteq> 0 then PUTCH (cc VSTOP k s) (write_q s k) s else s)
     else if arg = 3 then Done 0 (if cc VSTART k s \<noteq> 0 then PUTCH (cc VSTART k s) (write_q s k) s else s)
     else Done (- EINVAL) s)"

definition tcflsh :: "nat \<Rightarrow> u32 \<Rightarrow> tty_state \<Rightarrow> int tty_out" where
  "tcflsh k arg s =
    (if arg = 0 then Done 0 (flush (read_q s k) s)
     else if arg = 1 then Done 0 (flush (write_q s k) s)
     else if arg = 2 then Done 0 (flush (write_q s k) (flush (read_q s k) s))
     else Done (- EINVAL) s)"

definition tiocspgrp :: "u32 \<Rightarrow> nat \<Rightarrow> u32 \<Rightarrow> tty_state \<Rightarrow> int tty_out" where
  "tiocspgrp dev k arg s =
    (if sint (tty (cur s)) < 0 \<or> tty (cur s) \<noteq> dev \<or> tty_session s k \<noteq> session (cur s) then Done (- ENOTTY) s
     else
       let grp = get_fs_long arg s in
       if sint grp < 0 then Done (- EINVAL) s
       else if session_of_pgrp grp s \<noteq> sint (session (cur s)) then Done (- EPERM) s
       else Done 0 (s\<lparr>tty_pgrp := (tty_pgrp s)(k := grp)\<rparr>))"

definition put_result :: "u32 \<Rightarrow> u32 \<Rightarrow> tty_state \<Rightarrow> int tty_out" where
  "put_result v arg s = and_then (verify_area arg 4 s) (\<lambda>_ s. Done 0 (put_fs_long v arg s))"

text \<open>\<open>TIOCSPGRP\<close> is 0x5410, \<open>TIOCINQ\<close> 0x541b; all commands that are not listed return EINVAL.\<close>

definition tty_ioctl_call :: "tty_env \<Rightarrow> u32 \<Rightarrow> u32 \<Rightarrow> u32 \<Rightarrow> tty_state \<Rightarrow> int tty_out" where
  "tty_ioctl_call e dev cmd arg s =
    (if MAJOR dev = 5 \<and> sint (tty (cur s)) < 0 then Panics ''tty_ioctl: dev<0''
     else
       let dev = (if MAJOR dev = 5 then tty (cur s) else MINOR dev); k = TTY_TABLE (unat dev) s in
       if cmd = 0x5401 then get_termios k arg s
       else if cmd = 0x5404 then set_termios k arg dev (flush (read_q s k) s)
       else if cmd = 0x5402 \<or> cmd = 0x5403 then set_termios k arg dev s
       else if cmd = 0x5405 then get_termio e k arg s
       else if cmd = 0x5408 then set_termio k arg dev (flush (read_q s k) s)
       else if cmd = 0x5406 \<or> cmd = 0x5407 then set_termio k arg dev s
       else if cmd = 0x5409 then Done 0 s
       else if cmd = 0x540a then tcxonc e k arg s
       else if cmd = 0x540b then tcflsh k arg s
       else if cmd = 0x540f then and_then (verify_area arg 4 s) (\<lambda>_ s. Done 0 (put_fs_long (tty_pgrp s k) arg s))
       else if cmd = 0x5410 then tiocspgrp dev k arg s
       else if cmd = 0x5411 then put_result (CHARS (tty_queues s (write_q s k))) arg s
       else if cmd = 0x541b then put_result (CHARS (tty_queues s (secondary s k))) arg s
       else Done (- EINVAL) s)"

subsection \<open>Start-up\<close>

definition rs_init_port :: "tty_env \<Rightarrow> nat \<Rightarrow> tty_state \<Rightarrow> tty_state" where
  "rs_init_port e k s =
    (let port = ucast (q_data (tty_queues s (read_q s k))) :: u16
     in outb 0x0d (port + 1) (outb 0x0b (port + 4) (outb 0x03 (port + 3) (outb 0x00 (port + 1) (outb 0x30 port
          (outb 0x80 (port + 3) s))))))"

definition rs_init :: "tty_env \<Rightarrow> tty_state \<Rightarrow> tty_state" where
  "rs_init e s =
    (let s = rs_init_port e 65 (rs_init_port e 64 s) in outb (te_inb e 0x21 s AND 0xE7) 0x21 s)"

definition line_termios :: "nat \<Rightarrow> nat \<Rightarrow> termios_t" where
  "line_termios consoles k =
    (let none = \<lparr>c_iflag = 0, c_oflag = 0, c_cflag = 0, c_lflag = 0, c_line = 0, c_cc = INIT_C_CC\<rparr> in
     if k < consoles then DEF_TERMIOS
     else if 64 \<le> k \<and> k < 64 + NR_SERIALS then none\<lparr>c_cflag := B2400 OR CS8\<rparr>
     else if 128 \<le> k \<and> k < 128 + NR_PTYS then none\<lparr>c_cflag := B9600 OR CS8\<rparr>
     else if 192 \<le> k \<and> k < 192 + NR_PTYS then none\<lparr>c_cflag := B9600 OR CS8, c_lflag := IXON OR ISIG OR ICANON\<rparr>
     else none)"

text \<open>The three queues of a terminal stand one behind the other; \<open>q\<close> is the pointer to the first.\<close>

definition line_of :: "tty_writer \<Rightarrow> nat \<Rightarrow> tty_line" where
  "line_of w q =
    \<lparr>t_pad = (\<lambda>_. 0), t_stopped = False, t_write = w, t_read_q = q, t_write_q = q + 1, t_secondary = q + 2\<rparr>"

definition initial_line :: "nat \<Rightarrow> nat \<Rightarrow> tty_line" where
  "initial_line consoles k =
    (if k < consoles then line_of Con_Write (1 + k * 3)
     else if 64 \<le> k \<and> k < 64 + NR_SERIALS then line_of Rs_Write (1 + 3 * MAX_CONSOLES + (k - 64) * 3)
     else if 128 \<le> k \<and> k < 128 + NR_PTYS
     then line_of Mpty_Write (1 + 3 * (MAX_CONSOLES + NR_SERIALS) + (k - 128) * 3)
     else if 192 \<le> k \<and> k < 192 + NR_PTYS
     then line_of Spty_Write (1 + 3 * (MAX_CONSOLES + NR_SERIALS + NR_PTYS) + (k - 192) * 3)
     else \<lparr>t_pad = (\<lambda>_. 0), t_stopped = False, t_write = No_Writer, t_read_q = 0, t_write_q = 0, t_secondary = 0\<rparr>)"

definition initial_queue :: "nat \<Rightarrow> tty_queue" where
  "initial_queue q =
    \<lparr>q_data = (if q = 25 \<or> q = 26 then 0x3f8 else if q = 28 \<or> q = 29 then 0x2f8 else 0), q_head = 0, q_tail = 0,
     q_proc_list = 0, q_buf = (\<lambda>_. 0)\<rparr>"

definition tty_init :: "tty_env \<Rightarrow> boot_video \<Rightarrow> tty_state \<Rightarrow> unit tty_out" where
  "tty_init e b s =
    (let s = s\<lparr>tty_queues := (\<lambda>q. if 1 \<le> q \<and> q \<le> QUEUES then initial_queue q else tty_queues s q)\<rparr>
     in and_then (con_init e b s) (\<lambda>_ s.
       let k = NR_CONSOLES s;
           s = s\<lparr>tty_lines := (\<lambda>i. if i < 256 then initial_line k i else tty_lines s i),
                 tty_termios := (\<lambda>i. if i < 256 then line_termios k i else tty_termios s i),
                 tty_pgrp := (\<lambda>i. if i < 256 then 0 else tty_pgrp s i),
                 tty_session := (\<lambda>i. if i < 256 then 0 else tty_session s i)\<rparr>
       in Done () (rs_init e s)))"

end
