(* ===== verification/Console_Props.thy ===== *)
theory Console_Props
  imports Console
begin

section \<open>The console stays on its screen\<close>

text \<open>
  The invariant of a virtual console: the cursor is on the screen, the position in video memory is the one of the
  cursor, the scrolling region is a part of the screen, and the screen lies in the part of video memory that belongs
  to the console. Every operation keeps it, and writes nowhere else.
\<close>

unbundle bit_operations_syntax

definition con_ok :: "video_t \<Rightarrow> vc_t \<Rightarrow> bool" where
  "con_ok g v \<longleftrightarrow>
     8 \<le> unat (video_num_columns g) \<and> unat (video_size_row g) = 2 * unat (video_num_columns g) \<and>
     unat (vc_video_mem_start v) + unat (video_num_lines g) * unat (video_size_row g) \<le> unat (vc_video_mem_end v) \<and>
     unat (vc_video_mem_end v) \<le> 0xc0000 \<and> unat (vc_video_mem_start v) \<le> unat (vc_origin v) \<and>
     unat (vc_scr_end v) = unat (vc_origin v) + unat (video_num_lines g) * unat (video_size_row g) \<and>
     unat (vc_scr_end v) \<le> unat (vc_video_mem_end v) \<and>
     unat (vc_x v) \<le> unat (video_num_columns g) \<and> unat (vc_y v) < unat (video_num_lines g) \<and>
     unat (vc_pos v) = unat (vc_origin v) + unat (vc_y v) * unat (video_size_row g) + 2 * unat (vc_x v) \<and>
     unat (vc_top v) < unat (vc_bottom v) \<and> unat (vc_bottom v) \<le> unat (video_num_lines g)"

text \<open>The bytes of video memory that belong to a console, and a step that keeps to them.\<close>

definition own_vmem :: "vc_t \<Rightarrow> u32 set" where
  "own_vmem v = {a. unat (vc_video_mem_start v) \<le> unat a \<and> unat a < unat (vc_video_mem_end v)}"

definition con_step :: "nat \<Rightarrow> tty_state \<Rightarrow> tty_state \<Rightarrow> bool" where
  "con_step n s t \<longleftrightarrow>
     (con_ok (video s) (vc n s) \<longrightarrow>
        con_ok (video t) (vc n t) \<and> video t = video s \<and> NR_CONSOLES t = NR_CONSOLES s \<and> own_vmem (vc n t) = own_vmem (vc n s) \<and>
        (\<forall>m. m \<noteq> n \<longrightarrow> vc m t = vc m s) \<and> (\<forall>a. a \<notin> own_vmem (vc n s) \<longrightarrow> vmem t a = vmem s a))"

lemma con_stepI: "(con_ok (video s) (vc n s) \<Longrightarrow> con_step n s t) \<Longrightarrow> con_step n s t"
  unfolding con_step_def by blast

lemma con_step_refl: "con_step n s s"
  by (simp add: con_step_def)

lemma con_step_trans: "con_step n s t \<Longrightarrow> con_step n t u \<Longrightarrow> con_step n s u"
  by (auto simp: con_step_def)

subsection \<open>String instructions write between two addresses\<close>

definition writes :: "nat \<Rightarrow> nat \<Rightarrow> (u32 \<Rightarrow> u8) \<Rightarrow> (u32 \<Rightarrow> u8) \<Rightarrow> bool" where
  "writes lo hi m m' \<longleftrightarrow> (\<forall>a. unat a < lo \<or> hi \<le> unat a \<longrightarrow> m' a = m a)"

lemma writes_refl: "writes lo hi m m"
  by (simp add: writes_def)

lemma writes_trans: "writes lo hi m m' \<Longrightarrow> writes lo hi m' m'' \<Longrightarrow> writes lo hi m m''"
  by (simp add: writes_def)

lemma writes_mono: "writes lo hi m m' \<Longrightarrow> lo' \<le> lo \<Longrightarrow> hi \<le> hi' \<Longrightarrow> writes lo' hi' m m'"
  by (simp add: writes_def)

lemma unat_plus_small: "unat (a :: u32) + unat b < 2 ^ 32 \<Longrightarrow> unat (a + b) = unat a + unat b"
  by (simp add: unat_plus_if')

lemma writes_put16:
  assumes "lo \<le> unat di" "unat di + 2 \<le> hi" "hi \<le> 0xc0000"
  shows "writes lo hi m (put16 di v m)"
proof -
  have "unat (di + 1) = unat di + 1" using assms unat_plus_small[of di 1] by simp
  then show ?thesis using assms by (auto simp: writes_def put16_def)
qed

lemma writes_copy4:
  assumes "lo \<le> unat di" "unat di + 4 \<le> hi" "hi \<le> 0xc0000"
  shows "writes lo hi m (copy4 si di m)"
proof -
  have "unat (di + 1) = unat di + 1" "unat (di + 2) = unat di + 2" "unat (di + 3) = unat di + 3"
    using assms unat_plus_small[of di 1] unat_plus_small[of di 2] unat_plus_small[of di 3] by simp_all
  then show ?thesis using assms by (auto simp: writes_def copy4_def)
qed

lemma writes_stosw:
  assumes "lo \<le> unat di" "unat di + 2 * n \<le> hi" "hi \<le> 0xc0000"
  shows "writes lo hi m (stosw n di v m)"
  using assms
proof (induction n arbitrary: di m)
  case (Suc n)
  then have "unat (di + 2) = unat di + 2" using unat_plus_small[of di 2] by simp
  then have "writes lo hi (put16 di v m) (stosw n (di + 2) v (put16 di v m))" using Suc by simp
  then show ?case using writes_trans[OF writes_put16] Suc.prems by simp
qed (simp add: writes_refl)

lemma writes_movsl:
  assumes "lo \<le> unat di" "unat di + 4 * n \<le> hi" "hi \<le> 0xc0000"
  shows "writes lo hi m (movsl n si di m)"
  using assms
proof (induction n arbitrary: si di m)
  case (Suc n)
  then have "unat (di + 4) = unat di + 4" using unat_plus_small[of di 4] by simp
  then have "writes lo hi (copy4 si di m) (movsl n (si + 4) (di + 4) (copy4 si di m))" using Suc by simp
  then show ?case using writes_trans[OF writes_copy4] Suc.prems by simp
qed (simp add: writes_refl)

lemma writes_stosw_down:
  assumes "lo + 2 * n \<le> unat di + 2" "unat di + 2 \<le> hi" "hi \<le> 0xc0000"
  shows "writes lo hi m (stosw_down n di v m)"
  using assms
proof (induction n arbitrary: di m)
  case (Suc n)
  have w: "writes lo hi m (put16 di v m)" using Suc.prems by (intro writes_put16) simp_all
  show ?case
  proof (cases n)
    case 0
    then show ?thesis using w by simp
  next
    case (Suc k)
    then have "unat (di - 2) = unat di - 2" using Suc.prems unat_sub[of 2 di] by (simp add: word_le_nat_alt)
    then have "writes lo hi (put16 di v m) (stosw_down n (di - 2) v (put16 di v m))"
      using Suc Suc.prems by (intro Suc.IH) simp_all
    then show ?thesis using writes_trans[OF w] by simp
  qed
qed (simp add: writes_refl)

lemma writes_movsl_down:
  assumes "lo + 4 * n \<le> unat di + 4" "unat di + 4 \<le> hi" "hi \<le> 0xc0000"
  shows "writes lo hi m (movsl_down n si di m)"
  using assms
proof (induction n arbitrary: si di m)
  case (Suc n)
  have w: "writes lo hi m (copy4 si di m)" using Suc.prems by (intro writes_copy4) simp_all
  show ?case
  proof (cases n)
    case 0
    then show ?thesis using w by simp
  next
    case (Suc k)
    then have "unat (di - 4) = unat di - 4" using Suc.prems unat_sub[of 4 di] by (simp add: word_le_nat_alt)
    then have "writes lo hi (copy4 si di m) (movsl_down n (si - 4) (di - 4) (copy4 si di m))"
      using Suc Suc.prems by (intro Suc.IH) simp_all
    then show ?thesis using writes_trans[OF w] by simp
  qed
qed (simp add: writes_refl)

lemma writes_shift_in:
  assumes "lo \<le> unat p" "unat p + 2 * n \<le> hi" "hi \<le> 0xc0000"
  shows "writes lo hi m (shift_in n p old m)"
  using assms
proof (induction n arbitrary: p old m)
  case (Suc n)
  then have "unat (p + 2) = unat p + 2" using unat_plus_small[of p 2] by simp
  then have "writes lo hi (put16 p old m) (shift_in n (p + 2) (get16 p m) (put16 p old m))" using Suc by simp
  then show ?case using writes_trans[OF writes_put16] Suc.prems by simp
qed (simp add: writes_refl)

lemma writes_shift_out:
  assumes "lo \<le> unat p" "unat p + 2 * (n + 1) \<le> hi" "hi \<le> 0xc0000"
  shows "writes lo hi m (shift_out n p v m)"
  using assms
proof (induction n arbitrary: p m)
  case 0
  then show ?case using writes_put16 by simp
next
  case (Suc n)
  then have "unat (p + 2) = unat p + 2" using unat_plus_small[of p 2] by simp
  then have "writes lo hi (put16 p (get16 (p + 2) m) m)
      (shift_out n (p + 2) v (put16 p (get16 (p + 2) m) m))" using Suc by simp
  then show ?case using writes_trans[OF writes_put16] Suc.prems by simp
qed

subsection \<open>Steps of a console\<close>

lemma vc_sel [simp]:
  "vc n (upd_vc n f s) = f (vc n s)" "m \<noteq> n \<Longrightarrow> vc m (upd_vc n f s) = vc m s" "vc m (upd_vmem h s) = vc m s"
  "video (upd_vc n f s) = video s" "video (upd_vmem h s) = video s"
  "vmem (upd_vc n f s) = vmem s" "vmem (upd_vmem h s) = h (vmem s)"
  "NR_CONSOLES (upd_vc n f s) = NR_CONSOLES s" "NR_CONSOLES (upd_vmem h s) = NR_CONSOLES s"
  "NR_CONSOLES (outb b p s) = NR_CONSOLES s"
  "vc m (outb b p s) = vc m s" "video (outb b p s) = video s" "vmem (outb b p s) = vmem s"
  by (simp_all add: vc_def upd_vc_def upd_vmem_def outb_def)

lemma con_step_vc:
  assumes "con_ok (video s) (vc n s) \<Longrightarrow> con_ok (video s) (f (vc n s))"
    and "vc_video_mem_start (f (vc n s)) = vc_video_mem_start (vc n s)"
    and "vc_video_mem_end (f (vc n s)) = vc_video_mem_end (vc n s)"
  shows "con_step n s (upd_vc n f s)"
  using assms by (simp add: con_step_def own_vmem_def)

lemma con_step_vmem:
  assumes "con_ok (video s) (vc n s) \<Longrightarrow>
    writes (unat (vc_video_mem_start (vc n s))) (unat (vc_video_mem_end (vc n s))) (vmem s) (h (vmem s))"
  shows "con_step n s (upd_vmem h s)"
  using assms by (auto simp: con_step_def own_vmem_def writes_def not_le not_less)

lemma con_step_same:
  "vc_cons t = vc_cons s \<Longrightarrow> video t = video s \<Longrightarrow> vmem t = vmem s \<Longrightarrow>
   NR_CONSOLES t = NR_CONSOLES s \<Longrightarrow> con_step n s t"
  by (simp add: con_step_def vc_def)

text \<open>Sizes: the screen is small, and a row of it lies before its end.\<close>

lemma row_before:
  assumes "con_ok g v" "unat y < unat (video_num_lines g)"
  shows "unat (vc_origin v) + unat y * unat (video_size_row g) + unat (video_size_row g) \<le> unat (vc_scr_end v)"
proof -
  have "(unat y + 1) * unat (video_size_row g) \<le> unat (video_num_lines g) * unat (video_size_row g)"
    using assms(2) by (intro mult_le_mono1) simp
  then show ?thesis using assms(1) by (simp add: con_ok_def)
qed

lemma con_small:
  assumes "con_ok g v"
  shows "unat (vc_scr_end v) \<le> 0xc0000" "unat (vc_origin v) \<le> 0xc0000" "unat (vc_pos v) \<le> 0xc0000"
    "unat (video_num_columns g) \<le> 0xc0000" "unat (video_size_row g) \<le> 0xc0000" "unat (vc_x v) \<le> 0xc0000"
    "unat (video_num_lines g) \<le> 0xc0000" "unat (vc_bottom v) \<le> 0xc0000" "unat (video_num_lines g) * unat (video_size_row g) \<le> 0xc0000"
    "unat (vc_pos v) + 2 * (unat (video_num_columns g) - unat (vc_x v)) \<le> unat (vc_scr_end v)"
proof -
  note c = assms[unfolded con_ok_def]
  show s: "unat (vc_scr_end v) \<le> 0xc0000" using c by linarith
  show "unat (vc_origin v) \<le> 0xc0000" using c s by linarith
  have r: "unat (vc_origin v) + unat (vc_y v) * unat (video_size_row g) + unat (video_size_row g) \<le> unat (vc_scr_end v)"
    using row_before[OF assms] c by blast
  then show "unat (video_size_row g) \<le> 0xc0000" using s by linarith
  show p: "unat (vc_pos v) + 2 * (unat (video_num_columns g) - unat (vc_x v)) \<le> unat (vc_scr_end v)"
    using c r by linarith
  then show "unat (vc_pos v) \<le> 0xc0000" using s by linarith
  show k: "unat (video_num_columns g) \<le> 0xc0000" using c r s by linarith
  then show "unat (vc_x v) \<le> 0xc0000" using c by linarith
  show l: "unat (video_num_lines g) * unat (video_size_row g) \<le> 0xc0000" using c s by linarith
  have "unat (video_num_lines g) * 1 \<le> unat (video_num_lines g) * unat (video_size_row g)"
    using c by (intro mult_le_mono2) linarith
  then show m: "unat (video_num_lines g) \<le> 0xc0000" using l by linarith
  then show "unat (vc_bottom v) \<le> 0xc0000" using c by linarith
qed

lemma unat_double: "unat x \<le> 0xc0000 \<Longrightarrow> unat (push_bit 1 x :: u32) = 2 * unat x"
  by (simp add: push_bit_eq_mult unat_mult_lem[THEN iffD1] mult.commute)

lemma unat_times:
  assumes "unat a * unat b \<le> 0xc0000"
  shows "unat (a * b :: u32) = unat a * unat b"
  using assms by (simp add: unat_mult_lem[THEN iffD1])

lemma unat_row:
  assumes "con_ok g v" "unat y \<le> unat (video_num_lines g)"
  shows "unat (y * video_size_row g) = unat y * unat (video_size_row g)"
    "unat (video_size_row g * y) = unat y * unat (video_size_row g)"
    "unat (vc_origin v + y * video_size_row g) = unat (vc_origin v) + unat y * unat (video_size_row g)"
    "unat (vc_origin v + video_size_row g * y) = unat (vc_origin v) + unat y * unat (video_size_row g)"
proof -
  have m: "unat y * unat (video_size_row g) \<le> unat (video_num_lines g) * unat (video_size_row g)"
    using assms(2) by (intro mult_le_mono1)
  then show 1: "unat (y * video_size_row g) = unat y * unat (video_size_row g)"
    using con_small(9)[OF assms(1)] by (intro unat_times) linarith
  then show 2: "unat (video_size_row g * y) = unat y * unat (video_size_row g)" by (simp add: mult.commute)
  have "unat (vc_origin v) + unat y * unat (video_size_row g) < 4294967296"
    using con_small(2,9)[OF assms(1)] m by linarith
  then show "unat (vc_origin v + y * video_size_row g) = unat (vc_origin v) + unat y * unat (video_size_row g)"
    "unat (vc_origin v + video_size_row g * y) = unat (vc_origin v) + unat y * unat (video_size_row g)"
    using 1 2 by (simp_all add: unat_plus_small)
qed

text \<open>The cursor moves.\<close>

lemma con_ok_move:
  assumes "con_ok g v" "unat x \<le> unat (video_num_columns g)" "unat y < unat (video_num_lines g)"
    "unat p = unat (vc_origin v) + unat y * unat (video_size_row g) + 2 * unat x"
  shows "con_ok g (v\<lparr>vc_x := x, vc_y := y, vc_pos := p\<rparr>)"
  using assms by (cases v, hypsubst, unfold con_ok_def vc_t.simps, blast)

lemma gotoxy_step: "con_step n s (gotoxy n x y s)"
proof -
  have "con_ok (video s) (vc n s \<lparr>vc_x := x, vc_y := y, vc_pos := vc_origin (vc n s) + y * row_size s + push_bit 1 x\<rparr>)"
    if c: "con_ok (video s) (vc n s)" and x: "unat x \<le> unat (columns s)" and y: "unat y < unat (rows s)"
  proof -
    have p: "unat (push_bit 1 x) = 2 * unat x" using x con_small(4)[OF c] by (intro unat_double) linarith
    have o: "unat (vc_origin (vc n s) + y * row_size s) = unat (vc_origin (vc n s)) + unat y * unat (row_size s)"
      using unat_row(3)[OF c] y by simp
    have "unat (vc_origin (vc n s)) + unat y * unat (row_size s) + 2 * unat x < 4294967296"
      using row_before[OF c y] con_small(1,4)[OF c] x by linarith
    then have "unat (vc_origin (vc n s) + y * row_size s + push_bit 1 x) =
        unat (vc_origin (vc n s)) + unat y * unat (row_size s) + 2 * unat x"
      using p o by (simp add: unat_plus_small)
    then show ?thesis using con_ok_move[OF c x y] by blast
  qed
  then show ?thesis
    by (auto simp: gotoxy_def not_le not_less word_less_nat_alt word_le_nat_alt con_step_refl intro!: con_step_vc)
qed

lemma set_video_step: "con_step n s (set_video r a s)"
  by (rule con_step_same) (simp_all add: set_video_def outb_def Let_def)

lemma set_origin_step: "con_step n s (set_origin m s)"
  by (simp add: set_origin_def con_step_refl set_video_step)

lemma set_cursor_step: "con_step n s (set_cursor m s)"
proof -
  have "con_step n s (s\<lparr>blankcount := blankinterval s\<rparr>)" by (rule con_step_same) simp_all
  then show ?thesis by (auto simp: set_cursor_def Let_def intro: con_step_trans set_video_step)
qed

text \<open>Filling a part of the screen.\<close>

lemma erase_step:
  assumes "con_ok (video s) (vc n s) \<Longrightarrow> unat (vc_origin (vc n s)) \<le> unat start \<and>
    unat start + 2 * unat count \<le> unat (vc_scr_end (vc n s))"
  shows "con_step n s (erase count start n s)"
  unfolding erase_def
proof (rule con_step_vmem)
  assume c: "con_ok (video s) (vc n s)"
  then show "writes (unat (vc_video_mem_start (vc n s))) (unat (vc_video_mem_end (vc n s))) (vmem s)
      (stosw (unat count) start (vc_video_erase_char (vc n s)) (vmem s))"
    using assms[OF c] by (intro writes_stosw) (auto simp: con_ok_def)
qed

subsection \<open>Scrolling\<close>

lemma half: "2 * unat (drop_bit 1 w :: u32) \<le> unat w"
  by (simp add: drop_bit_eq_div unat_div)

text \<open>The number of longs that are moved when a region of more than one line scrolls.\<close>

lemma region_count:
  assumes c: "con_ok g v"
  defines "count \<equiv> drop_bit 1 ((vc_bottom v - vc_top v - 1) * video_num_columns g)"
  shows "4 * unat count \<le> (unat (vc_bottom v) - unat (vc_top v) - 1) * unat (video_size_row g)"
    "unat (4 * count) = 4 * unat count"
    "(unat (vc_bottom v) - unat (vc_top v) - 1) * unat (video_size_row g) + unat (vc_top v) * unat (video_size_row g) +
       unat (video_size_row g) = unat (vc_bottom v) * unat (video_size_row g)"
proof -
  let ?k = "unat (vc_bottom v) - unat (vc_top v) - 1"
  have tb: "unat (vc_top v) < unat (vc_bottom v)" "unat (vc_bottom v) \<le> unat (video_num_lines g)"
    and r: "unat (video_size_row g) = 2 * unat (video_num_columns g)" using c by (auto simp: con_ok_def)
  have d: "unat (vc_bottom v - vc_top v) = unat (vc_bottom v) - unat (vc_top v)"
    using tb by (intro unat_sub) (simp add: word_le_nat_alt)
  then have k: "unat (vc_bottom v - vc_top v - 1) = ?k" using tb by (subst unat_sub) (simp_all add: word_le_nat_alt)
  have "?k * unat (video_size_row g) \<le> unat (video_num_lines g) * unat (video_size_row g)"
    using tb by (intro mult_le_mono1) linarith
  then have l: "?k * unat (video_size_row g) \<le> 0xc0000" using con_small(9)[OF c] by linarith
  moreover have "?k * unat (video_num_columns g) \<le> ?k * unat (video_size_row g)" using r by (intro mult_le_mono2) simp
  ultimately have "?k * unat (video_num_columns g) \<le> 0xc0000" by linarith
  then have m: "unat ((vc_bottom v - vc_top v - 1) * video_num_columns g) = ?k * unat (video_num_columns g)"
    using k by (simp add: unat_times del: One_nat_def)
  then show 1: "4 * unat count \<le> ?k * unat (video_size_row g)"
  proof -
    have "2 * unat count \<le> ?k * unat (video_num_columns g)"
      using half[of "(vc_bottom v - vc_top v - 1) * video_num_columns g"] by (simp only: count_def m)
    moreover have "?k * unat (video_size_row g) = 2 * (?k * unat (video_num_columns g))" by (simp add: r)
    ultimately show ?thesis by linarith
  qed
  have "unat (4 :: u32) * unat count < 2 ^ LENGTH(32)" using 1 l by simp
  then show "unat (4 * count) = 4 * unat count" using unat_mult_lem[of 4 count] by simp
  have "unat (vc_bottom v) = ?k + unat (vc_top v) + 1" using tb by simp
  then show "?k * unat (video_size_row g) + unat (vc_top v) * unat (video_size_row g) + unat (video_size_row g) =
      unat (vc_bottom v) * unat (video_size_row g)"
    by (metis add_mult_distrib mult_1)
qed

lemma region_before:
  assumes "con_ok g v"
  shows "unat (vc_origin v) + unat (vc_bottom v) * unat (video_size_row g) \<le> unat (vc_scr_end v)"
proof -
  have "unat (vc_bottom v) * unat (video_size_row g) \<le> unat (video_num_lines g) * unat (video_size_row g)"
    using assms by (intro mult_le_mono1) (simp add: con_ok_def)
  then show ?thesis using assms by (simp add: con_ok_def)
qed

lemma scroll_region_step: "con_step n s (scroll_region n s)"
proof -
  let ?v = "vc n s" and ?g = "video s"
  define count where "count = drop_bit 1 ((vc_bottom ?v - vc_top ?v - 1) * columns s)"
  define di where "di = vc_origin ?v + row_size s * vc_top ?v"
  define si where "si = vc_origin ?v + row_size s * (vc_top ?v + 1)"
  define s1 where "s1 = upd_vmem (movsl (unat count) si di) s"
  have e: "scroll_region n s = erase (columns s) (di + 4 * count) n s1"
    unfolding scroll_region_def Let_def count_def[symmetric] di_def[symmetric] si_def[symmetric] s1_def[symmetric] ..
  {
    assume c: "con_ok ?g ?v"
    note r = region_count[OF c, folded count_def] region_before[OF c]
    have tb: "unat (vc_top ?v) \<le> unat (rows s)" using c by (simp add: con_ok_def)
    have d: "unat di = unat (vc_origin ?v) + unat (vc_top ?v) * unat (row_size s)"
      using unat_row(4)[OF c tb] by (simp add: di_def)
    have o: "unat (vc_video_mem_start ?v) \<le> unat (vc_origin ?v)" "unat (vc_scr_end ?v) \<le> unat (vc_video_mem_end ?v)"
      "unat (vc_video_mem_end ?v) \<le> 0xc0000" and R: "unat (row_size s) = 2 * unat (columns s)"
      using c by (auto simp: con_ok_def)
    have w: "writes (unat (vc_video_mem_start ?v)) (unat (vc_video_mem_end ?v)) (vmem s) (movsl (unat count) si di (vmem s))"
      using d r o by (intro writes_movsl) linarith+
    have "unat (di + 4 * count) = unat di + 4 * unat count"
      using d r o unat_plus_small[of di "4 * count"] by simp
    then have "unat (vc_origin ?v) \<le> unat (di + 4 * count)"
      "unat (di + 4 * count) + 2 * unat (columns s) \<le> unat (vc_scr_end ?v)"
      using d r R by linarith+
    note w this
  }
  note f = this
  have "con_step n s s1" unfolding s1_def by (rule con_step_vmem) (rule f(1))
  moreover have "con_step n s1 (erase (columns s) (di + 4 * count) n s1)"
    using f(2,3) by (intro erase_step) (simp add: s1_def)
  ultimately show ?thesis unfolding e by (rule con_step_trans)
qed

lemma scrdown_step: "con_step n s (scrdown n s)"
proof -
  let ?v = "vc n s" and ?g = "video s"
  define count where "count = drop_bit 1 ((vc_bottom ?v - vc_top ?v - 1) * columns s)"
  define di where "di = vc_origin ?v + row_size s * vc_bottom ?v - 4"
  define si where "si = vc_origin ?v + row_size s * (vc_bottom ?v - 1) - 4"
  define s1 where "s1 = upd_vmem (movsl_down (unat count) si di) s"
  have e: "scrdown n s = (if vc_bottom ?v \<le> vc_top ?v then s
      else upd_vmem (stosw_down (unat (columns s)) (di - 4 * count + 2) (vc_video_erase_char ?v)) s1)"
    unfolding scrdown_def Let_def count_def[symmetric] di_def[symmetric] si_def[symmetric] s1_def[symmetric] ..
  {
    assume c: "con_ok ?g ?v"
    note r = region_count[OF c, folded count_def] region_before[OF c]
    have b: "unat (vc_bottom ?v) \<le> unat (rows s)" "unat (vc_top ?v) < unat (vc_bottom ?v)" and
      o: "unat (vc_video_mem_start ?v) \<le> unat (vc_origin ?v)" "unat (vc_scr_end ?v) \<le> unat (vc_video_mem_end ?v)"
      "unat (vc_video_mem_end ?v) \<le> 0xc0000" and R: "unat (row_size s) = 2 * unat (columns s)" "8 \<le> unat (columns s)"
      using c by (auto simp: con_ok_def)
    have "unat (vc_origin ?v + row_size s * vc_bottom ?v) = unat (vc_origin ?v) + unat (vc_bottom ?v) * unat (row_size s)"
      using unat_row(4)[OF c b(1)] .
    moreover have "4 \<le> unat (vc_bottom ?v) * unat (row_size s)" using r(3) R by linarith
    ultimately have d: "unat di + 4 = unat (vc_origin ?v) + unat (vc_bottom ?v) * unat (row_size s)"
      unfolding di_def by (subst unat_sub) (simp_all add: word_le_nat_alt)
    have w: "writes (unat (vc_video_mem_start ?v)) (unat (vc_video_mem_end ?v)) (vmem s) (movsl_down (unat count) si di (vmem s))"
      using d r o by (intro writes_movsl_down) linarith+
    have "unat (di - 4 * count) = unat di - 4 * unat count"
    proof -
      have "unat (4 * count) \<le> unat di" using d r R by linarith
      then show ?thesis using r(2) by (subst unat_sub) (simp_all only: word_le_nat_alt)
    qed
    moreover have "unat di \<le> 0xc0000" using d r o by linarith
    ultimately have k: "unat (di - 4 * count + 2) = unat di - 4 * unat count + 2"
      using unat_plus_small[of "di - 4 * count" 2] by simp
    have "writes (unat (vc_video_mem_start ?v)) (unat (vc_video_mem_end ?v)) m
        (stosw_down (unat (columns s)) (di - 4 * count + 2) (vc_video_erase_char ?v) m)" for m
      using k d r o R by (intro writes_stosw_down) linarith+
    note w this
  }
  note f = this
  have 1: "con_step n s s1" unfolding s1_def by (rule con_step_vmem) (rule f(1))
  have "con_step n s1 (upd_vmem (stosw_down (unat (columns s)) (di - 4 * count + 2) (vc_video_erase_char ?v)) s1)"
    by (rule con_step_vmem) (use f(2) in \<open>simp add: s1_def\<close>)
  from con_step_trans[OF 1 this] show ?thesis by (simp add: e con_step_refl)
qed

text \<open>Scrolling by the video controller: the screen moves through the memory of the console and back to its start.\<close>

lemma unat_minus: "unat b \<le> unat a \<Longrightarrow> unat (a - b :: u32) = unat a - unat b"
  by (simp add: unat_sub word_le_nat_alt)

lemma con_ok_shift:
  assumes "con_ok g v" "unat (vc_video_mem_start v) \<le> unat p"
    "unat p + unat (video_num_lines g) * unat (video_size_row g) \<le> unat (vc_video_mem_end v)"
    "unat e = unat p + unat (video_num_lines g) * unat (video_size_row g)"
    "unat q = unat p + unat (vc_y v) * unat (video_size_row g) + 2 * unat (vc_x v)"
  shows "con_ok g (v\<lparr>vc_scr_end := e, vc_pos := q, vc_origin := p\<rparr>)"
  using assms by (cases v, hypsubst, unfold con_ok_def vc_t.simps, linarith)

lemma scroll_hardware_step: "con_step n s (scroll_hardware n s)"
proof -
  let ?v = "vc n s" and ?g = "video s"
  define R where "R = row_size s"
  define v where "v = ?v\<lparr>vc_origin := vc_origin ?v + R, vc_pos := vc_pos ?v + R, vc_scr_end := vc_scr_end ?v + R\<rparr>"
  define count where "count = drop_bit 1 ((rows s - 1) * columns s)"
  define d where "d = vc_origin v - vc_video_mem_start v"
  define s1 where "s1 = upd_vc n (\<lambda>v. v\<lparr>vc_origin := vc_origin v + row_size s, vc_pos := vc_pos v + row_size s,
                            vc_scr_end := vc_scr_end v + row_size s\<rparr>) s"
  have v1: "vc n s1 = v" by (simp add: s1_def v_def R_def)
  define s2 where "s2 = upd_vmem (movsl (unat count) (vc_origin v) (vc_video_mem_start v)) s1"
  define s3 where "s3 = erase (columns s) (vc_video_mem_start v + 4 * count) n s2"
  define t where "t = (if vc_scr_end v > vc_video_mem_end v
    then upd_vc n (\<lambda>v. v\<lparr>vc_scr_end := vc_scr_end v - d, vc_pos := vc_pos v - d,
                          vc_origin := vc_video_mem_start v\<rparr>) s3
    else erase (columns s) (vc_scr_end v - row_size s) n s1)"
  have vid: "video s1 = video s" by (simp add: s1_def)
  have e: "scroll_hardware n s = set_origin n t"
    unfolding scroll_hardware_def t_def s3_def s2_def s1_def[symmetric] count_def d_def
    by (simp add: Let_def v1 vid)
  have fld: "vc_video_mem_start v = vc_video_mem_start ?v" "vc_video_mem_end v = vc_video_mem_end ?v"
    "vc_y v = vc_y ?v" "vc_x v = vc_x ?v" by (simp_all add: v_def)
  have main: "con_ok ?g (vc n t) \<and> (\<forall>a. a \<notin> own_vmem ?v \<longrightarrow> vmem t a = vmem s a)" if c: "con_ok ?g ?v"
  proof -
    note c' = c[unfolded con_ok_def, folded R_def]
    have Rs: "unat R \<le> 0xc0000" using con_small(5)[OF c] by (simp add: R_def)
    have o: "unat (vc_origin v) = unat (vc_origin ?v) + unat R" "unat (vc_pos v) = unat (vc_pos ?v) + unat R"
      "unat (vc_scr_end v) = unat (vc_scr_end ?v) + unat R"
      using con_small(1-3)[OF c] Rs by (simp_all add: v_def unat_plus_small)
    have y0: "unat (0::u32) < unat (rows s)" using c' by simp
    have LR: "unat R \<le> unat (rows s) * unat R" using y0 by simp
    show ?thesis
    proof (cases "vc_scr_end v > vc_video_mem_end v")
      case False
      then have f: "unat (vc_scr_end v) \<le> unat (vc_video_mem_end ?v)" by (simp add: fld not_less word_le_nat_alt)
      have "unat (vc_scr_end v - R) = unat (vc_scr_end ?v)" using o by (simp add: unat_minus)
      then have w: "writes (unat (vc_video_mem_start ?v)) (unat (vc_video_mem_end ?v)) (vmem s1)
          (stosw (unat (columns s)) (vc_scr_end v - R) (vc_video_erase_char v) (vmem s1))"
        using c' o f by (intro writes_stosw) linarith+
      have t: "t = erase (columns s) (vc_scr_end v - R) n s1" using False by (simp add: t_def R_def)
      have "con_ok ?g (?v\<lparr>vc_scr_end := vc_scr_end v, vc_pos := vc_pos v, vc_origin := vc_origin v\<rparr>)"
        using c' o f by (intro con_ok_shift[OF c]) (unfold R_def[symmetric], linarith+)
      also have "?v\<lparr>vc_scr_end := vc_scr_end v, vc_pos := vc_pos v, vc_origin := vc_origin v\<rparr> = v"
        by (simp add: v_def)
      finally have "con_ok ?g v" .
      moreover have "vc n t = v" "vmem t = stosw (unat (columns s)) (vc_scr_end v - R) (vc_video_erase_char v) (vmem s1)"
        "vmem s1 = vmem s" by (simp_all add: t erase_def v1) (simp add: s1_def)
      ultimately show ?thesis using w by (auto simp: own_vmem_def writes_def not_le not_less)
    next
      case True
      have du: "unat d = unat (vc_origin v) - unat (vc_video_mem_start ?v)"
        using c' o by (simp add: d_def fld unat_minus)
      have m: "unat ((rows s - 1) * columns s) = (unat (rows s) - 1) * unat (columns s)"
      proof -
        have l: "unat (rows s - 1) = unat (rows s) - 1" using y0 by (simp add: unat_minus)
        have "unat (rows s - 1) * unat (columns s) \<le> unat (rows s) * unat (row_size s)"
          using c' l by (intro mult_le_mono) (simp_all add: R_def)
        then have "unat (rows s - 1) * unat (columns s) \<le> 0xc0000" using con_small(9)[OF c] by linarith
        then show ?thesis using l by (simp only: unat_times)
      qed
      have LR2: "unat (rows s) * unat R = 2 * ((unat (rows s) - 1) * unat (columns s)) + unat R"
        using c' y0 by (cases "unat (rows s)") simp_all
      have k: "2 * unat count \<le> (unat (rows s) - 1) * unat (columns s)"
        using half[of "(rows s - 1) * columns s"] by (simp only: count_def m)
      have "4 * unat count \<le> 0xc0000" using k LR2 c' by linarith
      then have k4: "unat (4 * count) = 4 * unat count" using unat_mult_lem[of 4 count] by simp
      have w1: "writes (unat (vc_video_mem_start ?v)) (unat (vc_video_mem_end ?v)) (vmem s1)
          (movsl (unat count) (vc_origin v) (vc_video_mem_start v) (vmem s1))"
        unfolding fld using c' k LR2 by (intro writes_movsl) linarith+
      have "unat (vc_video_mem_start ?v + 4 * count) = unat (vc_video_mem_start ?v) + 4 * unat count"
      proof -
        have "unat (vc_video_mem_start ?v) + unat (4 * count) < 4294967296" using c' k LR2 k4 by linarith
        then show ?thesis by (simp add: unat_plus_small k4)
      qed
      then have w2: "writes (unat (vc_video_mem_start ?v)) (unat (vc_video_mem_end ?v)) m
          (stosw (unat (columns s)) (vc_video_mem_start v + 4 * count) w m)" for w m
        unfolding fld using c' k LR2 by (intro writes_stosw) linarith+
      have t: "vmem t = stosw (unat (columns s)) (vc_video_mem_start v + 4 * count) (vc_video_erase_char v)
          (movsl (unat count) (vc_origin v) (vc_video_mem_start v) (vmem s1))"
        "vc n t = v\<lparr>vc_scr_end := vc_scr_end v - d, vc_pos := vc_pos v - d, vc_origin := vc_video_mem_start v\<rparr>"
        using True by (simp_all add: t_def s3_def s2_def erase_def v1)
      have u: "unat (vc_scr_end v - d) = unat (vc_scr_end v) - unat d" "unat (vc_pos v - d) = unat (vc_pos v) - unat d"
        using du c' o by (simp_all add: unat_minus)
      have "con_ok ?g (?v\<lparr>vc_scr_end := vc_scr_end v - d, vc_pos := vc_pos v - d, vc_origin := vc_video_mem_start v\<rparr>)"
        using c' o u du by (intro con_ok_shift[OF c]) (unfold fld R_def[symmetric], linarith+)
      also have "?v\<lparr>vc_scr_end := vc_scr_end v - d, vc_pos := vc_pos v - d, vc_origin := vc_video_mem_start v\<rparr> = vc n t"
        by (simp add: t v_def)
      finally have "con_ok ?g (vc n t)" .
      moreover have "vmem s1 = vmem s" by (simp add: s1_def)
      ultimately show ?thesis using writes_trans[OF w1 w2] by (auto simp: t(1) own_vmem_def writes_def not_le not_less)
    qed
  qed
  have "video t = video s" "NR_CONSOLES t = NR_CONSOLES s" "vc_video_mem_start (vc n t) = vc_video_mem_start ?v"
    "vc_video_mem_end (vc n t) = vc_video_mem_end ?v" "\<forall>m. m \<noteq> n \<longrightarrow> vc m t = vc m s"
    by (simp_all add: t_def s3_def s2_def s1_def erase_def v_def)
  then have "con_step n s t" using main by (simp add: con_step_def own_vmem_def)
  then show ?thesis unfolding e using set_origin_step by (rule con_step_trans)
qed

lemma scrup_step: "con_step n s (scrup n s)"
  by (simp add: scrup_def Let_def con_step_refl scroll_hardware_step scroll_region_step)

subsection \<open>Cursor movement, erasing, inserting and deleting\<close>

lemma con_okD:
  assumes "con_ok g v"
  shows "unat (vc_x v) \<le> unat (video_num_columns g)" "unat (vc_y v) < unat (video_num_lines g)"
    "unat (vc_pos v) = unat (vc_origin v) + unat (vc_y v) * unat (video_size_row g) + 2 * unat (vc_x v)"
    "unat (vc_video_mem_start v) \<le> unat (vc_origin v)" "unat (vc_scr_end v) \<le> unat (vc_video_mem_end v)"
    "unat (vc_scr_end v) = unat (vc_origin v) + unat (video_num_lines g) * unat (video_size_row g)"
    "unat (vc_top v) < unat (vc_bottom v)" "unat (vc_bottom v) \<le> unat (video_num_lines g)"
    "unat (vc_video_mem_end v) \<le> 0xc0000" "8 \<le> unat (video_num_columns g)"
  using assms by (auto simp only: con_ok_def)

lemma con_ok_row: "con_ok g v \<Longrightarrow> unat (video_size_row g) = 2 * unat (video_num_columns g)"
  by (simp only: con_ok_def)

lemma con_ok_cong:
  assumes "con_ok g v" "vc_video_mem_start w = vc_video_mem_start v" "vc_video_mem_end w = vc_video_mem_end v"
    "vc_origin w = vc_origin v" "vc_scr_end w = vc_scr_end v" "vc_x w = vc_x v" "vc_y w = vc_y v"
    "vc_pos w = vc_pos v" "vc_top w = vc_top v" "vc_bottom w = vc_bottom v"
  shows "con_ok g w"
  using assms(1) unfolding con_ok_def assms(2-) .

text \<open>Setting variables that the screen does not depend on.\<close>

lemma con_step_other:
  assumes "vc_video_mem_start (f (vc n s)) = vc_video_mem_start (vc n s)" "vc_video_mem_end (f (vc n s)) = vc_video_mem_end (vc n s)"
    "vc_origin (f (vc n s)) = vc_origin (vc n s)" "vc_scr_end (f (vc n s)) = vc_scr_end (vc n s)" "vc_x (f (vc n s)) = vc_x (vc n s)"
    "vc_y (f (vc n s)) = vc_y (vc n s)" "vc_pos (f (vc n s)) = vc_pos (vc n s)" "vc_top (f (vc n s)) = vc_top (vc n s)"
    "vc_bottom (f (vc n s)) = vc_bottom (vc n s)"
  shows "con_step n s (upd_vc n f s)"
  using assms con_ok_cong[of "video s" "vc n s" "f (vc n s)"] by (intro con_step_vc) auto

text \<open>A movement to \<open>x\<close>, \<open>y\<close>, \<open>p\<close>, the new position in video memory.\<close>

lemma con_step_move:
  assumes "f (vc n s) = (vc n s)\<lparr>vc_x := x, vc_y := y, vc_pos := p\<rparr>"
    and "con_ok (video s) (vc n s) \<Longrightarrow> unat x \<le> unat (columns s)"
    and "con_ok (video s) (vc n s) \<Longrightarrow> unat y < unat (rows s)"
    and "con_ok (video s) (vc n s) \<Longrightarrow>
      unat p = unat (vc_origin (vc n s)) + unat y * unat (row_size s) + 2 * unat x"
  shows "con_step n s (upd_vc n f s)"
  using con_ok_move[of "video s" "vc n s" x y p] assms by (intro con_step_vc) auto

lemma lf_step: "con_step n s (lf n s)"
proof (cases "vc_y (vc n s) + 1 < vc_bottom (vc n s)")
  case False
  then show ?thesis by (simp add: lf_def scrup_step)
next
  case True
  have y: "unat (vc_y (vc n s) + 1) = unat (vc_y (vc n s)) + 1" if c: "con_ok (video s) (vc n s)"
    using con_okD(2)[OF c] con_small(7)[OF c] by (simp add: unat_plus_small)
  have p: "unat (vc_pos (vc n s) + row_size s) = unat (vc_pos (vc n s)) + unat (row_size s)" if c: "con_ok (video s) (vc n s)"
    using con_small(3,5)[OF c] by (simp add: unat_plus_small)
  have "con_step n s (upd_vc n (\<lambda>v. v\<lparr>vc_y := vc_y v + 1, vc_pos := vc_pos v + row_size s\<rparr>) s)"
    using True y p con_okD(1,2,3,8)
    by (intro con_step_move[where x = "vc_x (vc n s)" and y = "vc_y (vc n s) + 1" and p = "vc_pos (vc n s) + row_size s"])
      (fastforce simp: word_less_nat_alt)+
  then show ?thesis using True by (simp add: lf_def)
qed

lemma unat_pred: "unat a = Suc k \<Longrightarrow> unat (a - 1 :: u32) = k"
  by (simp add: unat_minus)

lemma ri_step: "con_step n s (ri n s)"
proof (cases "vc_y (vc n s) > vc_top (vc n s)")
  case False
  then show ?thesis by (simp add: ri_def scrdown_step)
next
  case True
  then obtain k where k: "unat (vc_y (vc n s)) = Suc k"
    by (cases "unat (vc_y (vc n s))") (simp_all add: word_less_nat_alt)
  have p: "unat (vc_pos (vc n s) - row_size s) = unat (vc_origin (vc n s)) + k * unat (row_size s) + 2 * unat (vc_x (vc n s))"
    if c: "con_ok (video s) (vc n s)"
    using con_okD(3)[OF c] k by (subst unat_minus) simp_all
  have "con_step n s (upd_vc n (\<lambda>v. v\<lparr>vc_y := vc_y v - 1, vc_pos := vc_pos v - row_size s\<rparr>) s)"
    using unat_pred[OF k] k p con_okD(1,2)
    by (intro con_step_move[where x = "vc_x (vc n s)" and y = "vc_y (vc n s) - 1" and p = "vc_pos (vc n s) - row_size s"]) fastforce+
  then show ?thesis using True by (simp add: ri_def)
qed

lemma cr_step: "con_step n s (cr n s)"
proof -
  have p: "unat (vc_pos (vc n s) - push_bit 1 (vc_x (vc n s))) = unat (vc_origin (vc n s)) + unat (vc_y (vc n s)) * unat (row_size s)"
    if c: "con_ok (video s) (vc n s)"
    using con_okD(3)[OF c] unat_double[OF con_small(6)[OF c]] by (subst unat_minus) simp_all
  show ?thesis unfolding cr_def
    using p con_okD(2)
    by (intro con_step_move[where x = 0 and y = "vc_y (vc n s)" and p = "vc_pos (vc n s) - push_bit 1 (vc_x (vc n s))"]) simp_all
qed

text \<open>One to the left.\<close>

lemma left_step:
  assumes "vc_x (vc n s) \<noteq> 0"
  shows "con_step n s (upd_vc n (\<lambda>v. v\<lparr>vc_pos := vc_pos v - 2, vc_x := vc_x v - 1\<rparr>) s)"
    "con_step n s (upd_vc n (\<lambda>v. v\<lparr>vc_x := vc_x v - 1, vc_pos := vc_pos v - 2\<rparr>) s)"
proof -
  have "unat (vc_x (vc n s)) \<noteq> 0" using assms by (simp add: word_unat_eq_iff)
  then obtain k where k: "unat (vc_x (vc n s)) = Suc k" by (cases "unat (vc_x (vc n s))") auto
  have p: "unat (vc_pos (vc n s) - 2) = unat (vc_origin (vc n s)) + unat (vc_y (vc n s)) * unat (row_size s) + 2 * k"
    if c: "con_ok (video s) (vc n s)"
    using con_okD(3)[OF c] k by (subst unat_minus) simp_all
  show 1: "con_step n s (upd_vc n (\<lambda>v. v\<lparr>vc_pos := vc_pos v - 2, vc_x := vc_x v - 1\<rparr>) s)"
    using unat_pred[OF k] k p con_okD(1,2)
    by (intro con_step_move[where x = "vc_x (vc n s) - 1" and y = "vc_y (vc n s)" and p = "vc_pos (vc n s) - 2"]) fastforce+
  have e: "(\<lambda>v. v\<lparr>vc_x := vc_x v - 1, vc_pos := vc_pos v - 2\<rparr>) = (\<lambda>v. v\<lparr>vc_pos := vc_pos v - 2, vc_x := vc_x v - 1\<rparr>)"
    by (rule ext) simp
  show "con_step n s (upd_vc n (\<lambda>v. v\<lparr>vc_x := vc_x v - 1, vc_pos := vc_pos v - 2\<rparr>) s)"
    unfolding e by (rule 1)
qed

lemma cell_writes:
  assumes "con_ok (video s) (vc n s)" "unat (vc_x (vc n s)) < unat (columns s)"
  shows "writes (unat (vc_video_mem_start (vc n s))) (unat (vc_video_mem_end (vc n s))) (vmem s)
    (put16 (vc_pos (vc n s)) v (vmem s))"
  using assms(2) con_small(10)[OF assms(1)] con_okD[OF assms(1)] by (intro writes_put16) linarith+

lemma del_step: "con_step n s (del n s)"
proof (rule con_stepI)
  assume c: "con_ok (video s) (vc n s)"
  let ?t = "upd_vc n (\<lambda>v. v\<lparr>vc_pos := vc_pos v - 2, vc_x := vc_x v - 1\<rparr>) s"
  show "con_step n s (del n s)"
  proof (cases "vc_x (vc n s) = 0")
    case True
    then show ?thesis by (simp add: del_def con_step_refl)
  next
    case False
    then have "unat (vc_x (vc n s)) \<noteq> 0" by (simp add: word_unat_eq_iff)
    then obtain k where k: "unat (vc_x (vc n s)) = Suc k" by (cases "unat (vc_x (vc n s))") auto
    then have "unat (vc_x (vc n ?t)) < unat (columns ?t)" using unat_pred[OF k] con_okD(1)[OF c] by simp
    then have "con_step n ?t (upd_vmem (put16 (vc_pos (vc n ?t)) (vc_video_erase_char (vc n ?t))) ?t)"
      using cell_writes by (intro con_step_vmem)
    from con_step_trans[OF left_step(1)[OF False] this] False show ?thesis by (simp add: del_def Let_def)
  qed
qed

lemma csi_J_step: "con_step n s (csi_J n vpar s)"
proof (rule con_stepI)
  assume c: "con_ok (video s) (vc n s)"
  note d = con_okD[OF c] and z = con_small[OF c]
  have a: "unat (vc_scr_end (vc n s) - vc_pos (vc n s)) = unat (vc_scr_end (vc n s)) - unat (vc_pos (vc n s))"
    "unat (vc_pos (vc n s) - vc_origin (vc n s)) = unat (vc_pos (vc n s)) - unat (vc_origin (vc n s))"
    using d(3) z(10) by (simp_all add: unat_minus)
  have "unat (columns s) * unat (rows s) \<le> unat (rows s) * unat (row_size s)"
    by (subst mult.commute, rule mult_le_mono2) (simp add: con_ok_row[OF c])
  then have b: "unat (columns s * rows s) = unat (columns s) * unat (rows s)" using z(9) by (intro unat_times) linarith
  have b2: "2 * (unat (columns s) * unat (rows s)) = unat (rows s) * unat (row_size s)" by (simp add: con_ok_row[OF c])
  show "con_step n s (csi_J n vpar s)"
    using half[of "vc_scr_end (vc n s) - vc_pos (vc n s)"] half[of "vc_pos (vc n s) - vc_origin (vc n s)"] a d(3,6) z(10) b b2
    by (auto simp only: csi_J_def Let_def con_step_refl split: if_splits intro!: erase_step)
qed

lemma csi_K_step: "con_step n s (csi_K n vpar s)"
proof (rule con_stepI)
  assume c: "con_ok (video s) (vc n s)"
  note d = con_okD[OF c] and z = con_small[OF c] and r = row_before[OF c con_okD(2)[OF c]]
  have x: "unat (push_bit 1 (vc_x (vc n s))) = 2 * unat (vc_x (vc n s))" using z(6) by (rule unat_double)
  then have p: "unat (vc_pos (vc n s) - push_bit 1 (vc_x (vc n s))) = unat (vc_origin (vc n s)) + unat (vc_y (vc n s)) * unat (row_size s)"
    using d(3) by (subst unat_minus) simp_all
  have k: "unat (columns s - vc_x (vc n s)) = unat (columns s) - unat (vc_x (vc n s))" using d(1) by (rule unat_minus)
  show "con_step n s (csi_K n vpar s)"
    using p k d(1,3) z(10) r con_ok_row[OF c]
    by (auto simp only: csi_K_def Let_def con_step_refl split: if_splits intro!: erase_step)
qed

lemma csi_m_frame:
  "vc_video_mem_start (csi_m_step b v p) = vc_video_mem_start v" "vc_video_mem_end (csi_m_step b v p) = vc_video_mem_end v"
  "vc_origin (csi_m_step b v p) = vc_origin v" "vc_scr_end (csi_m_step b v p) = vc_scr_end v" "vc_x (csi_m_step b v p) = vc_x v"
  "vc_y (csi_m_step b v p) = vc_y v" "vc_pos (csi_m_step b v p) = vc_pos v" "vc_top (csi_m_step b v p) = vc_top v"
  "vc_bottom (csi_m_step b v p) = vc_bottom v"
  by (simp_all add: csi_m_step_def Let_def)

lemma csi_m_step': "con_step n s (csi_m n s)"
proof -
  define f where "f = (\<lambda>v. fold (\<lambda>i v. csi_m_step (can_do_colour (video s)) v (vc_par v i)) [0..<vc_npar v + 1] v)"
  let ?P = "\<lambda>v w. vc_video_mem_start w = vc_video_mem_start v \<and> vc_video_mem_end w = vc_video_mem_end v \<and>
    vc_origin w = vc_origin v \<and> vc_scr_end w = vc_scr_end v \<and> vc_x w = vc_x v \<and> vc_y w = vc_y v \<and>
    vc_pos w = vc_pos v \<and> vc_top w = vc_top v \<and> vc_bottom w = vc_bottom v"
  have "?P v (f v)" for v
    unfolding f_def by (rule fold_invariant_rule[where P = "?P v"]) (simp, simp only: csi_m_frame)
  then show ?thesis unfolding csi_m_def f_def[symmetric] by (intro con_step_other) blast+
qed

lemma insert_char_step: "con_step n s (insert_char n s)"
  unfolding insert_char_def Let_def
proof (rule con_step_vmem)
  assume c: "con_ok (video s) (vc n s)"
  show "writes (unat (vc_video_mem_start (vc n s))) (unat (vc_video_mem_end (vc n s))) (vmem s)
      (shift_in (unat (columns s) - unat (vc_x (vc n s))) (vc_pos (vc n s)) (vc_video_erase_char (vc n s)) (vmem s))"
    using con_okD[OF c] con_small(10)[OF c] by (intro writes_shift_in) linarith+
qed

lemma delete_char_step: "con_step n s (delete_char n s)"
proof -
  have "con_step n s (upd_vmem (shift_out (unat (columns s) - unat (vc_x (vc n s)) - 1) (vc_pos (vc n s))
      (vc_video_erase_char (vc n s))) s)" if "unat (vc_x (vc n s)) < unat (columns s)"
  proof (rule con_step_vmem)
    assume c: "con_ok (video s) (vc n s)"
    show "writes (unat (vc_video_mem_start (vc n s))) (unat (vc_video_mem_end (vc n s))) (vmem s)
        (shift_out (unat (columns s) - unat (vc_x (vc n s)) - 1) (vc_pos (vc n s)) (vc_video_erase_char (vc n s)) (vmem s))"
    proof (rule writes_shift_out)
      have "unat (columns s) - unat (vc_x (vc n s)) - 1 + 1 = unat (columns s) - unat (vc_x (vc n s))" using that by simp
      then show "unat (vc_pos (vc n s)) + 2 * (unat (columns s) - unat (vc_x (vc n s)) - 1 + 1) \<le> unat (vc_video_mem_end (vc n s))"
        using con_okD(5)[OF c] con_small(10)[OF c] by simp
    qed (use con_okD[OF c] in linarith)+
  qed
  then show ?thesis by (simp add: delete_char_def Let_def con_step_refl not_le word_less_nat_alt)
qed

text \<open>A window to scroll: the lines from the cursor on. Scrolling leaves the window itself alone.\<close>

lemma scrup_window:
  "vc_top (vc n (scrup n s)) = vc_top (vc n s)" "vc_bottom (vc n (scrup n s)) = vc_bottom (vc n s)"
  by (simp_all add: scrup_def scroll_hardware_def scroll_region_def set_origin_def set_video_def erase_def Let_def)

lemma scrdown_window:
  "vc_top (vc n (scrdown n s)) = vc_top (vc n s)" "vc_bottom (vc n (scrdown n s)) = vc_bottom (vc n s)"
  by (simp_all add: scrdown_def Let_def)

lemma con_ok_region:
  assumes "con_ok g v" "unat t < unat b" "unat b \<le> unat (video_num_lines g)"
  shows "con_ok g (v\<lparr>vc_top := t, vc_bottom := b\<rparr>)"
  using assms by (cases v, hypsubst, unfold con_ok_def vc_t.simps, blast)

lemma region_step:
  assumes "con_ok (video s) (vc n s) \<Longrightarrow> unat t < unat b \<and> unat b \<le> unat (rows s)"
  shows "con_step n s (upd_vc n (\<lambda>v. v\<lparr>vc_top := t, vc_bottom := b\<rparr>) s)"
  using assms con_ok_region by (intro con_step_vc) auto

lemma with_window_step:
  assumes "\<And>s. con_step n s (scroll n s)"
  shows "con_step n s (with_window scroll n s)"
proof (rule con_stepI)
  assume c: "con_ok (video s) (vc n s)"
  let ?a = "upd_vc n (\<lambda>v. v\<lparr>vc_top := vc_y v, vc_bottom := rows s\<rparr>) s"
  have "con_step n s (upd_vc n (\<lambda>v. v\<lparr>vc_top := vc_y (vc n s), vc_bottom := rows s\<rparr>) s)"
    using con_okD(2)[OF c] by (intro region_step) simp
  moreover have "upd_vc n (\<lambda>v. v\<lparr>vc_top := vc_y (vc n s), vc_bottom := rows s\<rparr>) s = ?a"
    by (simp add: upd_vc_def vc_def)
  ultimately have 1: "con_step n s (scroll n ?a)" using con_step_trans[OF _ assms] by metis
  have "video (scroll n ?a) = video s" using 1 c by (simp add: con_step_def)
  then have "con_step n (scroll n ?a) (upd_vc n (\<lambda>w. w\<lparr>vc_top := vc_top (vc n s), vc_bottom := vc_bottom (vc n s)\<rparr>) (scroll n ?a))"
    using con_okD(7,8)[OF c] by (intro region_step) simp
  from con_step_trans[OF 1 this] show "con_step n s (with_window scroll n s)"
    by (simp add: with_window_def Let_def)
qed

lemma power_step:
  assumes "\<And>s. con_step n s (f s)"
  shows "con_step n s ((f ^^ k) s)"
  by (induction k) (auto intro: con_step_refl con_step_trans assms)

subsection \<open>Characters and escape sequences\<close>

lemma sysbeep_step: "con_step n s (sysbeep e s)"
  by (rule con_step_same) (simp_all add: sysbeep_def outb_def Let_def)

text \<open>From behind the right edge to the next line.\<close>

lemma wrap_move:
  assumes "con_ok g (v\<lparr>vc_x := x0, vc_pos := p0\<rparr>)" "unat (video_num_columns g) \<le> unat (vc_x v)"
    "unat (vc_x v) - unat (video_num_columns g) \<le> unat (video_num_columns g)"
    "unat (vc_pos v) = unat (vc_origin v) + unat (vc_y v) * unat (video_size_row g) + 2 * unat (vc_x v)"
  shows "con_ok g (v\<lparr>vc_x := vc_x v - video_num_columns g, vc_pos := vc_pos v - video_size_row g\<rparr>)"
proof -
  let ?v = "v\<lparr>vc_x := x0, vc_pos := p0\<rparr>"
  have x: "unat (vc_x v - video_num_columns g) = unat (vc_x v) - unat (video_num_columns g)"
    using assms(2) by (rule unat_minus)
  have "unat (vc_pos v - video_size_row g) = unat (vc_pos v) - unat (video_size_row g)"
    using assms(2,4) con_ok_row[OF assms(1)] by (intro unat_minus) linarith
  then have "unat (vc_pos v - video_size_row g) = unat (vc_origin ?v) + unat (vc_y v) * unat (video_size_row g) +
      2 * unat (vc_x v - video_num_columns g)"
    using assms(2,4) con_ok_row[OF assms(1)] x by simp
  moreover have "unat (vc_y v) < unat (video_num_lines g)" using con_okD(2)[OF assms(1)] by simp
  ultimately have "con_ok g (?v\<lparr>vc_x := vc_x v - video_num_columns g, vc_y := vc_y v, vc_pos := vc_pos v - video_size_row g\<rparr>)"
    using assms(3) x by (intro con_ok_move[OF assms(1)]) simp_all
  then show ?thesis by simp
qed

text \<open>A step that goes over the edge and wraps.\<close>

lemma wrap_step:
  assumes "con_ok (video s) (vc n s)" "f (vc n s) = (vc n s)\<lparr>vc_x := x, vc_pos := p\<rparr>" "unat (columns s) \<le> unat x"
    "unat x - unat (columns s) \<le> unat (columns s)"
    "unat p = unat (vc_origin (vc n s)) + unat (vc_y (vc n s)) * unat (row_size s) + 2 * unat x"
  shows "con_step n s (wrap_line n (upd_vc n f s))"
proof -
  define g :: "vc_t \<Rightarrow> vc_t" where "g = (\<lambda>v. v\<lparr>vc_x := vc_x v - columns s, vc_pos := vc_pos v - row_size s\<rparr>)"
  have w: "wrap_line n (upd_vc n f s) = lf n (upd_vc n (\<lambda>v. g (f v)) s)"
    by (simp add: wrap_line_def g_def upd_vc_def)
  have "con_ok (video s) (g (f (vc n s)))"
    unfolding g_def by (rule wrap_move[where ?x0.0 = "vc_x (vc n s)" and ?p0.0 = "vc_pos (vc n s)"]) (use assms in simp_all)
  then have "con_step n s (upd_vc n (\<lambda>v. g (f v)) s)"
    by (intro con_step_vc) (simp_all add: assms(2) g_def)
  then show ?thesis unfolding w by (rule con_step_trans) (rule lf_step)
qed

lemma room_for_char:
  assumes c: "con_ok (video s) (vc n s)"
  shows "con_step n s (if vc_x (vc n s) \<ge> columns s then wrap_line n s else s) \<and>
    unat (vc_x (vc n (if vc_x (vc n s) \<ge> columns s then wrap_line n s else s))) < unat (columns s)"
proof (cases "vc_x (vc n s) \<ge> columns s")
  case False
  then show ?thesis by (simp add: con_step_refl word_le_nat_alt)
next
  case True
  then have x: "unat (vc_x (vc n s)) = unat (columns s)" using con_okD(1)[OF c] by (simp add: word_le_nat_alt)
  have i: "upd_vc n (\<lambda>v. v) s = s" by (simp add: upd_vc_def)
  have "con_step n s (wrap_line n (upd_vc n (\<lambda>v. v) s))"
    by (rule wrap_step[OF c, where x = "vc_x (vc n s)" and p = "vc_pos (vc n s)"])
      (use x con_okD(3)[OF c] in simp_all)
  then have w: "con_step n s (wrap_line n s)" by (simp only: i)
  have "vc_x (vc n (lf n t)) = vc_x (vc n t)" for t
    by (simp add: lf_def scrup_def scroll_hardware_def scroll_region_def set_origin_def set_video_def erase_def Let_def)
  moreover have "vc_x (vc n s) = columns s" using x by (simp add: word_unat_eq_iff)
  ultimately have "vc_x (vc n (wrap_line n s)) = 0" by (simp add: wrap_line_def)
  moreover have "0 < unat (columns s)" using con_okD(10)[OF c] by simp
  ultimately show ?thesis using True w by simp
qed

lemma show_char_step: "con_step n s (show_char c n s)"
proof (rule con_stepI)
  assume k: "con_ok (video s) (vc n s)"
  define t where "t = (if vc_x (vc n s) \<ge> columns s then wrap_line n s else s)"
  have 1: "con_step n s t" and x: "unat (vc_x (vc n t)) < unat (columns s)"
    using room_for_char[OF k] by (simp_all add: t_def)
  then have ct: "con_ok (video t) (vc n t)" and v: "video t = video s" using k by (auto simp: con_step_def)
  define w where "w = ucast c OR push_bit 8 (ucast (vc_attr (vc n t)) :: u16)"
  define u where "u = upd_vmem (put16 (vc_pos (vc n t)) w) t"
  have 2: "con_step n t u"
    unfolding u_def using cell_writes[OF ct] x v by (intro con_step_vmem) simp
  have p: "unat (vc_pos (vc n t) + 2) = unat (vc_pos (vc n t)) + 2" "unat (vc_x (vc n t) + 1) = unat (vc_x (vc n t)) + 1"
    using con_small(3,6)[OF ct] by (simp_all add: unat_plus_small)
  have "con_step n u (upd_vc n (\<lambda>v. v\<lparr>vc_pos := vc_pos v + 2, vc_x := vc_x v + 1\<rparr>) u)"
    using p x v con_okD(2,3)[OF ct]
    by (intro con_step_move[where x = "vc_x (vc n t) + 1" and y = "vc_y (vc n t)" and p = "vc_pos (vc n t) + 2"])
      (simp_all add: u_def)
  from con_step_trans[OF con_step_trans[OF 1 2] this] show "con_step n s (show_char c n s)"
    unfolding show_char_def Let_def t_def[symmetric] w_def[symmetric] u_def[symmetric] .
qed

lemma tab_step:
  fixes n s
  defines "k \<equiv> 8 - (vc_x (vc n s) AND 7)"
  defines "t \<equiv> upd_vc n (\<lambda>v. v\<lparr>vc_x := vc_x v + k, vc_pos := vc_pos v + push_bit 1 k\<rparr>) s"
  shows "con_step n s (if vc_x (vc n t) > columns t then wrap_line n t else t)"
proof (rule con_stepI)
  assume c: "con_ok (video s) (vc n s)"
  have "unat (vc_x (vc n s) AND 7) \<le> 7"
    using word_and_le1[of "vc_x (vc n s)" 7] by (simp add: word_le_nat_alt)
  then have "unat k = 8 - unat (vc_x (vc n s) AND 7)" unfolding k_def by (subst unat_minus) simp_all
  then have k: "unat k \<le> 8" by simp
  have k2: "unat (push_bit 1 k) = 2 * unat k" using k by (intro unat_double) simp
  have x: "unat (vc_x (vc n s) + k) = unat (vc_x (vc n s)) + unat k" using con_small(6)[OF c] k by (intro unat_plus_small) simp
  have p: "unat (vc_pos (vc n s) + push_bit 1 k) = unat (vc_pos (vc n s)) + 2 * unat k"
    using con_small(3)[OF c] k k2 by (subst unat_plus_small) simp_all
  have vt: "vc n t = (vc n s)\<lparr>vc_x := vc_x (vc n s) + k, vc_pos := vc_pos (vc n s) + push_bit 1 k\<rparr>" "video t = video s"
    by (simp_all add: t_def)
  show "con_step n s (if vc_x (vc n t) > columns t then wrap_line n t else t)"
  proof (cases "vc_x (vc n t) > columns t")
    case True
    then have "unat (columns s) < unat (vc_x (vc n s) + k)" by (simp add: vt word_less_nat_alt)
    then have "con_step n s (wrap_line n t)"
      unfolding t_def using x p k con_okD(1,3,10)[OF c]
      by (intro wrap_step[OF c, where x = "vc_x (vc n s) + k" and p = "vc_pos (vc n s) + push_bit 1 k"])
        (simp_all del: push_bit_numeral)
    then show ?thesis using True by simp
  next
    case False
    then have "unat (vc_x (vc n s) + k) \<le> unat (columns s)" by (simp add: vt word_less_nat_alt)
    then have "con_step n s t"
      unfolding t_def using x p con_okD(2,3)[OF c]
      by (intro con_step_move[where x = "vc_x (vc n s) + k" and y = "vc_y (vc n s)" and p = "vc_pos (vc n s) + push_bit 1 k"])
        simp_all
    then show ?thesis using False by simp
  qed
qed

lemma con_normal_step: "con_step n s (con_normal e n c s)"
proof -
  have set: "con_step n s (upd_vc n (\<lambda>v. v\<lparr>vc_state := q\<rparr>) s)" "con_step n s (upd_vc n (\<lambda>v. v\<lparr>vc_translate := b\<rparr>) s)" for q b
    by (intro con_step_other; simp)+
  show ?thesis
    using tab_step[of n s] left_step(2)
    by (auto simp: con_normal_def Let_def show_char_step lf_step cr_step del_step sysbeep_step con_step_refl set
        simp del: vc_sel push_bit_numeral)
qed

lemma save_cur_step: "con_step n s (save_cur n s)"
  unfolding save_cur_def by (rule con_step_other) simp_all

lemma restore_cur_step: "con_step n s (restore_cur n s)"
  by (simp add: restore_cur_def gotoxy_step)

lemma set_state_step: "con_step n s (set_state q n s)"
  unfolding set_state_def by (rule con_step_other) simp_all

lemma reset_terminal_step: "con_step n s (reset_terminal n s)"
proof (rule con_stepI)
  assume c: "con_ok (video s) (vc n s)"
  let ?t = "s\<lparr>tty_termios := (tty_termios s)(n := DEF_TERMIOS)\<rparr>"
  have 1: "con_step n s ?t" by (rule con_step_same) simp_all
  have v: "vc n ?t = vc n s" "video ?t = video s" by (simp_all add: vc_def)
  have 2: "con_step n ?t (upd_vc n (\<lambda>v. v\<lparr>vc_top := 0, vc_bottom := rows s\<rparr>) ?t)"
    using con_okD(2)[OF c] v by (intro region_step) simp
  let ?u = "upd_vc n (\<lambda>v. v\<lparr>vc_top := 0, vc_bottom := rows s\<rparr>) ?t"
  have 3: "con_step n ?u (upd_vc n (\<lambda>v. v\<lparr>vc_state := ESnormal, vc_restate := ESnormal, vc_checkin := 0\<rparr>) ?u)"
    by (rule con_step_other) simp_all
  have e: "v\<lparr>vc_state := ESnormal, vc_restate := ESnormal, vc_checkin := 0, vc_top := 0, vc_bottom := rows s\<rparr> =
      v\<lparr>vc_top := 0, vc_bottom := rows s, vc_state := ESnormal, vc_restate := ESnormal, vc_checkin := 0\<rparr>" for v :: vc_t
    by simp
  have "reset_terminal n s = upd_vc n (\<lambda>v. v\<lparr>vc_state := ESnormal, vc_restate := ESnormal, vc_checkin := 0\<rparr>) ?u"
    unfolding reset_terminal_def e by (simp add: upd_vc_def)
  then show "con_step n s (reset_terminal n s)" using con_step_trans[OF con_step_trans[OF 1 2] 3] by simp
qed

text \<open>\<open>cook\<close> keeps a relation between states.\<close>

definition keeps :: "(tty_state \<Rightarrow> tty_state \<Rightarrow> bool) \<Rightarrow> (tty_state \<Rightarrow> unit tty_out) \<Rightarrow> bool" where
  "keeps R f \<longleftrightarrow> (\<forall>s t. f s = Done () t \<longrightarrow> R s t)"

lemma keeps_step: "keeps R f \<Longrightarrow> f s = Done () t \<Longrightarrow> R s t"
  by (simp add: keeps_def)

lemma PUTCH_step: "con_step n s (PUTCH c q s)"
  by (rule con_step_same) (simp_all add: PUTCH_def upd_queue_def)

lemma GETCH_step: "GETCH q s = (c, t) \<Longrightarrow> con_step n s t"
  by (rule con_step_same) (auto simp: GETCH_def upd_queue_def)

lemma fold_step:
  assumes "\<And>x s. con_step n s (f x s)"
  shows "con_step n s (fold f xs s)"
  by (rule fold_invariant_rule[where P = "con_step n s"]) (auto intro: con_step_refl con_step_trans assms)

lemma respond_step: "keeps (con_step n) (cook n) \<Longrightarrow> respond cook n s = Done () t \<Longrightarrow> con_step n s t"
  unfolding respond_def by (rule con_step_trans[OF fold_step]) (auto intro: PUTCH_step dest: keeps_step)

lemma con_esc_step:
  assumes k: "keeps (con_step n) (cook n)" and d: "con_esc cook n c s = Done () t"
  shows "con_step n s t"
proof -
  have "con_step n (set_state ESnormal n s) t"
    using d respond_step[of n cook, OF k]
    by (auto simp: con_esc_def Let_def set_state_step gotoxy_step ri_step lf_step save_cur_step restore_cur_step
        reset_terminal_step con_step_refl split: if_splits)
  with set_state_step show ?thesis by (rule con_step_trans)
qed

lemma par_step: "con_step n s (par_index i n s)" "con_step n s (par_count n s)"
  unfolding par_index_def par_count_def by (rule con_step_other; simp)+

lemma csi_move_step: "csi_move n c s = Some t \<Longrightarrow> con_step n s t"
  by (auto simp: csi_move_def Let_def split: if_splits intro!: con_step_trans[OF _ gotoxy_step] par_step
      intro: con_step_trans[OF par_step(1) par_step(1)])

lemma csi_region_step: "con_step n s (csi_region n s)"
proof -
  let ?a = "par_index 0 n s"
  let ?b = "upd_vc n (\<lambda>v. v\<lparr>vc_par := (vc_par v)(1 := if vc_par v 1 = 0 then rows ?a else vc_par v 1)\<rparr>) ?a"
  have "con_step n ?a ?b" by (rule con_step_other) simp_all
  then have b: "con_step n s ?b" by (rule con_step_trans[OF par_step(1)])
  have "con_step n ?b (upd_vc n (\<lambda>v. v\<lparr>vc_top := vc_par v 0, vc_bottom := vc_par v 1\<rparr>) ?b)"
    if "par 0 n ?b < par 1 n ?b" "par 1 n ?b \<le> rows ?b"
  proof -
    have "con_step n ?b (upd_vc n (\<lambda>v. v\<lparr>vc_top := par 0 n ?b, vc_bottom := par 1 n ?b\<rparr>) ?b)"
      using that by (intro region_step) (simp only: word_less_nat_alt word_le_nat_alt)
    moreover have "upd_vc n (\<lambda>v. v\<lparr>vc_top := par 0 n ?b, vc_bottom := par 1 n ?b\<rparr>) ?b =
        upd_vc n (\<lambda>v. v\<lparr>vc_top := vc_par v 0, vc_bottom := vc_par v 1\<rparr>) ?b"
      by (simp add: upd_vc_def par_def vc_def)
    ultimately show ?thesis by (simp only:)
  qed
  then show ?thesis using b con_step_trans[OF b] by (auto simp only: csi_region_def Let_def split: if_splits)
qed

lemma csi_guarded_step: "con_step n s (csi_guarded n c s)"
proof -
  have "con_step n t (upd_vc n (\<lambda>v. v\<lparr>vc_bold_attr := vc_par v 0\<rparr>) t)" for t by (rule con_step_other) simp_all
  moreover have "con_step n s (s\<lparr>blankinterval := b, blankcount := b\<rparr>)" for b by (rule con_step_same) simp_all
  ultimately show ?thesis by (auto simp: csi_guarded_def Let_def con_step_refl intro: con_step_trans)
qed

lemma csi_edit_step: "con_step n s (csi_edit n c s)"
  by (auto simp: csi_edit_def csi_J_step csi_K_step csi_L_def csi_M_def csi_P_def csi_at_def csi_m_step' csi_region_step
      save_cur_step restore_cur_step csi_guarded_step con_step_refl insert_line_def delete_line_def
      intro!: power_step with_window_step scrup_step scrdown_step insert_char_step delete_char_step)

lemma con_gotpars_step: "con_step n s (con_gotpars n c s)"
proof -
  let ?a = "set_state ESnormal n s"
  have "con_step n ?a (upd_vc n (\<lambda>v. v\<lparr>vc_ques := False\<rparr>) ?a)" by (rule con_step_other) simp_all
  then have "con_step n ?a (con_gotpars n c s)"
    by (auto simp: con_gotpars_def Let_def csi_edit_step csi_move_step split: option.splits)
  with set_state_step show ?thesis by (rule con_step_trans)
qed

lemma con_getpars_step: "con_step n s (con_getpars n c s)"
proof -
  have "con_step n s (upd_vc n (\<lambda>v. v\<lparr>vc_npar := vc_npar v + 1\<rparr>) s)"
    "con_step n s (upd_vc n (\<lambda>v. v\<lparr>vc_par := (vc_par v)(vc_npar v := 10 * vc_par v (vc_npar v) + ucast c - 0x30)\<rparr>) s)"
    by (rule con_step_other; simp)+
  moreover have "con_step n s (con_gotpars n c (set_state ESgotpars n s))"
    by (rule con_step_trans[OF set_state_step con_gotpars_step])
  ultimately show ?thesis by (simp add: con_getpars_def)
qed

lemma con_square_step: "con_step n s (con_square n c s)"
proof -
  let ?a = "upd_vc n (\<lambda>v. v\<lparr>vc_par := (\<lambda>i. if i < 16 then 0 else vc_par v i), vc_npar := 0, vc_state := ESgetpars\<rparr>) s"
  let ?b = "upd_vc n (\<lambda>v. v\<lparr>vc_ques := (c = 0x3f)\<rparr>) ?a"
  have a: "con_step n s ?a" by (rule con_step_other) simp_all
  have "con_step n ?a ?b" by (rule con_step_other) simp_all
  then have b: "con_step n s ?b" by (rule con_step_trans[OF a])
  show ?thesis
    unfolding con_square_def Let_def
    using b con_step_trans[OF a set_state_step] con_step_trans[OF b con_getpars_step] by (auto simp only: split: if_splits)
qed

lemma con_setterm_step: "con_step n s (con_setterm n c s)"
proof -
  let ?a = "set_state ESnormal n s"
  have "con_step n ?a (upd_vc n (\<lambda>v. v\<lparr>vc_def_attr := vc_attr v,
      vc_video_erase_char := (vc_video_erase_char v AND 0x0ff) OR push_bit 8 (ucast (vc_attr v))\<rparr>) ?a)"
    by (rule con_step_other) simp_all
  from con_step_trans[OF set_state_step this] show ?thesis
    by (auto simp only: con_setterm_def Let_def set_state_step split: if_splits)
qed

lemma con_setgraph_step: "con_step n s (con_setgraph n c s)"
proof -
  let ?a = "set_state ESnormal n s"
  have "con_step n ?a (upd_vc n (\<lambda>v. v\<lparr>vc_translate := b\<rparr>) ?a)" for b by (rule con_step_other) simp_all
  from con_step_trans[OF set_state_step this] show ?thesis
    by (auto simp only: con_setgraph_def Let_def set_state_step split: if_splits)
qed

lemma con_char_step:
  assumes "keeps (con_step n) (cook n)" "con_char e cook n c s = Done () t"
  shows "con_step n s t"
proof -
  define a where "a = (if c = 24 \<or> c = 26 then set_state ESnormal n s else s)"
  have 1: "con_step n s a" by (simp add: a_def con_step_refl set_state_step)
  have "con_step n a t"
    using assms(2) con_esc_step[of n cook, OF assms(1)] unfolding con_char_def Let_def a_def[symmetric]
    by (cases "vc_state (vc n a)")
      (auto simp only: escape_state.case outcome.inject set_state_step con_normal_step con_square_step con_getpars_step
        con_gotpars_step con_setterm_step con_setgraph_step)
  with 1 show ?thesis by (rule con_step_trans)
qed

lemma con_chars_step:
  assumes "keeps (con_step k) (cook k)" "con_chars e cook k nr s = Done () t"
  shows "con_step k s t"
  using assms(2)
proof (induction nr arbitrary: s)
  case 0
  then show ?case by (simp add: con_step_refl)
next
  case (Suc nr)
  show ?case
  proof (cases "t_stopped (tty_lines s k)")
    case True
    then show ?thesis using Suc.prems by (simp add: con_step_refl)
  next
    case False
    obtain c a where g: "GETCH (write_q s k) s = (c, a)" by fastforce
    then obtain b where b: "con_char e cook k c a = Done () b" "con_chars e cook k nr b = Done () t"
      using Suc.prems False by (auto simp: and_then_Done_iff)
    show ?thesis
      using con_step_trans[OF con_step_trans[OF GETCH_step[OF g] con_char_step[of k cook, OF assms(1) b(1)]] Suc.IH[OF b(2)]] .
  qed
qed

lemma con_write_step:
  assumes "keeps (con_step k) (cook k)" "con_write_with e cook k s = Done () t"
  shows "con_step k s t"
proof -
  obtain a where "con_chars e cook k (unat (CHARS (tty_queues s (write_q s k)))) s = Done () a" "t = set_cursor k a"
    using assms(2) by (auto simp: con_write_with_def and_then_Done_iff split: if_splits)
  then show ?thesis using con_step_trans[OF con_chars_step[of k cook, OF assms(1)] set_cursor_step] by blast
qed

lemma console_print_step: "con_step (fg_console s) s (console_print b s)"
proof -
  have "con_step n u (console_print_char n c u)" for n c u
    by (auto simp: console_print_char_def cr_step show_char_step intro: con_step_trans[OF cr_step lf_step])
  then show ?thesis
    unfolding console_print_def Let_def by (intro con_step_trans[OF fold_step set_cursor_step])
qed

end
