(* ===== verification/Console_Init.thy ===== *)
theory Console_Init
  imports Console_Props
begin

section \<open>The consoles at start-up\<close>

text \<open>
  \<open>con_init\<close> divides the video memory that the adapter has among up to eight consoles: each one gets a part that its
  screen fits into, no two parts overlap, and the invariant of the console holds for all of them.
\<close>

unbundle bit_operations_syntax

definition consoles_ok :: "tty_state \<Rightarrow> bool" where
  "consoles_ok s \<longleftrightarrow>
     (\<forall>n<NR_CONSOLES s. con_ok (video s) (vc n s)) \<and>
     (\<forall>m<NR_CONSOLES s. \<forall>n<NR_CONSOLES s. m \<noteq> n \<longrightarrow> own_vmem (vc m s) \<inter> own_vmem (vc n s) = {})"

text \<open>A mode the BIOS can have set: at least eight columns and a line, a screen that fits, the cursor on it.\<close>

definition video_mode_ok :: "boot_video \<Rightarrow> bool" where
  "video_mode_ok b \<longleftrightarrow>
     (let g = fst (video_found b) in
      8 \<le> unat (video_num_columns g) \<and> 1 \<le> unat (video_num_lines g) \<and>
      unat (video_num_lines g) * unat (video_size_row g) \<le> unat (video_mem_term g - video_mem_base g) \<and>
      unat (ORIG_X b) \<le> unat (video_num_columns g) \<and> unat (ORIG_Y b) < unat (video_num_lines g))"

text \<open>A byte or a \<open>short\<close> widened.\<close>

lemma unat_widen: "unat (ucast (w :: u16) :: u32) = unat w"
  by transfer (simp add: take_bit_take_bit)

lemma unat_widen8: "unat (ucast (w :: u8) :: u32) = unat w"
  by transfer (simp add: take_bit_take_bit)

lemma video_found_sizes:
  assumes "video_found b = (g, d)"
  shows "unat (video_mem_base g) + unat (video_mem_term g - video_mem_base g) \<le> 0xc0000"
    "unat (video_mem_term g - video_mem_base g) \<le> 0x8000" "video_size_row g = video_num_columns g * 2"
    "unat (video_num_columns g) < 256"
proof -
  let ?c = "ucast (drop_bit 8 (ORIG_VIDEO_MODE_COLS b AND 0xff00)) :: u32"
  have g: "g \<in> {\<lparr>video_type = ty, video_num_columns = ?c, video_mem_base = fst ba, video_mem_term = snd ba,
      video_size_row = ?c * 2, video_num_lines = ucast (ORIG_VIDEO_LINES b AND 0xff), video_page = ucast (ORIG_VIDEO_PAGE b),
      video_port_reg = pr, video_port_val = pv, can_do_colour = cl\<rparr> |
      ty ba pr pv cl. ba \<in> {(0xb0000, 0xb8000), (0xb0000, 0xb2000), (0xb8000, 0xc0000), (0xb8000, 0xba000)}}"
    using assms by (auto simp: video_found_def Let_def split: if_splits)
  have "?c < 256"
  proof -
    have "drop_bit 8 w < (256 :: u16)" for w :: u16
    proof -
      have "unat w < 65536" using unsigned_less[of w, where 'a = nat] by simp
      then show ?thesis by (simp add: word_less_nat_alt drop_bit_eq_div unat_div div_less_iff_less_mult)
    qed
    then have "unat (drop_bit 8 (ORIG_VIDEO_MODE_COLS b AND 0xff00)) < unat (256 :: u16)" unfolding word_less_nat_alt .
    then show ?thesis by (simp add: word_less_nat_alt unat_widen)
  qed
  then show "unat (video_num_columns g) < 256" using g by (auto simp: word_less_nat_alt)
qed (use assms in \<open>auto simp: video_found_def Let_def split: if_splits\<close>)

text \<open>How the memory is divided.\<close>

lemma con_count_room:
  assumes "video_found b = (g, d)" "video_mode_ok b"
  defines "k \<equiv> con_count g"
  defines "share \<equiv> (video_mem_term g - video_mem_base g) div of_nat k"
  shows "1 \<le> k" "k \<le> 8" "unat share = unat (video_mem_term g - video_mem_base g) div k"
    "unat (video_num_lines g) * unat (video_size_row g) \<le> unat share"
    "n < k \<Longrightarrow> unat (of_nat n * share) = n * unat share"
    "n < k \<Longrightarrow> unat (video_mem_base g + of_nat n * share) = unat (video_mem_base g) + n * unat share"
    "n < k \<Longrightarrow> unat (video_mem_base g + of_nat n * share) + unat share \<le> 0xc0000"
    "video_num_lines g * video_size_row g \<noteq> 0"
proof -
  let ?M = "unat (video_mem_term g - video_mem_base g)"
  let ?S = "unat (video_num_lines g) * unat (video_size_row g)"
  note sz = video_found_sizes[OF assms(1)]
  have m: "8 \<le> unat (video_num_columns g)" "1 \<le> unat (video_num_lines g)" "?S \<le> ?M"
    using assms(2) by (auto simp: video_mode_ok_def assms(1) Let_def)
  have r: "unat (video_size_row g) = 2 * unat (video_num_columns g)"
    using sz(3,4) unat_times[of "video_num_columns g" 2] by simp
  have S0: "0 < ?S" using m r by simp
  have "?S \<le> 0xc0000" using m sz(2) by linarith
  then have s: "unat (video_num_lines g * video_size_row g) = ?S" by (rule unat_times)
  then show "video_num_lines g * video_size_row g \<noteq> 0" using S0 by (simp only: unat_eq_zero[symmetric])
  have q: "1 \<le> ?M div ?S" using m(3) S0 by (simp add: div_greater_zero_iff Suc_le_eq)
  then have k: "k = (if ?M div ?S > 8 then 8 else ?M div ?S)" by (simp add: k_def con_count_def s Let_def)
  then show k1: "1 \<le> k" and k8: "k \<le> 8" using q by auto
  have "unat (of_nat k :: u32) = k" using k8 by (simp add: unat_of_nat)
  then show sh: "unat share = ?M div k" by (simp add: share_def unat_div)
  have "k \<le> ?M div ?S" using k by auto
  then have "k * ?S \<le> ?M" using S0 by (metis less_eq_div_iff_mult_less_eq)
  then show "?S \<le> unat share" unfolding sh using k1 by (subst less_eq_div_iff_mult_less_eq) (simp_all add: mult.commute)
  have tot: "k * unat share \<le> ?M" unfolding sh by simp
  have nk: "n * unat share + unat share \<le> ?M" if "n < k" for n
  proof -
    have "(n + 1) * unat share \<le> k * unat share" using that by (intro mult_le_mono1) simp
    then show ?thesis using tot by simp
  qed
  have n: "unat (of_nat n * share) = n * unat share" if "n < k" for n
  proof -
    have "unat (of_nat n :: u32) = n" using that k8 by (simp add: unat_of_nat)
    moreover have "n * unat share \<le> 0xc0000" using nk[OF that] sz(2) by linarith
    ultimately show ?thesis using unat_times[of "of_nat n" share] by simp
  qed
  have b: "unat (video_mem_base g + of_nat n * share) = unat (video_mem_base g) + n * unat share" if "n < k" for n
    using n[OF that] nk[OF that] sz(1) by (subst unat_plus_small) simp_all
  show "n < k \<Longrightarrow> unat (of_nat n * share) = n * unat share"
    "n < k \<Longrightarrow> unat (video_mem_base g + of_nat n * share) = unat (video_mem_base g) + n * unat share" by (fact n b)+
  show "n < k \<Longrightarrow> unat (video_mem_base g + of_nat n * share) + unat share \<le> 0xc0000"
    using b nk sz(1) by fastforce
qed

text \<open>A console that begins at \<open>base\<close>, with its cursor at \<open>x\<close>, \<open>y\<close>.\<close>

lemma fresh_con_ok:
  assumes "8 \<le> unat (video_num_columns g)" "unat (video_size_row g) = 2 * unat (video_num_columns g)"
    "unat (video_num_lines g) * unat (video_size_row g) \<le> unat share" "unat base + unat share \<le> 0xc0000"
    "vc_video_mem_start v = base" "vc_video_mem_end v = base + share" "vc_origin v = base"
    "vc_scr_end v = base + video_num_lines g * video_size_row g" "vc_top v = 0" "vc_bottom v = video_num_lines g"
    "unat x \<le> unat (video_num_columns g)" "unat y < unat (video_num_lines g)"
  shows "con_ok g (v\<lparr>vc_x := x, vc_y := y, vc_pos := base + y * video_size_row g + push_bit 1 x\<rparr>)"
proof -
  have e: "unat (base + share) = unat base + unat share" using assms(4) by (intro unat_plus_small) simp
  have l: "unat (video_num_lines g * video_size_row g) = unat (video_num_lines g) * unat (video_size_row g)"
    using assms(3,4) by (intro unat_times) linarith
  then have s: "unat (base + video_num_lines g * video_size_row g) = unat base + unat (video_num_lines g) * unat (video_size_row g)"
    using assms(3,4) by (subst unat_plus_small) simp_all
  have "(unat y + 1) * unat (video_size_row g) \<le> unat (video_num_lines g) * unat (video_size_row g)"
    using assms(12) by (intro mult_le_mono1) simp
  then have yr: "unat y * unat (video_size_row g) + unat (video_size_row g) \<le> unat share" using assms(3) by simp
  have y: "unat (y * video_size_row g) = unat y * unat (video_size_row g)"
    using yr assms(4) by (intro unat_times) linarith
  have x: "unat (push_bit 1 x) = 2 * unat x"
    using assms(2,4,11) yr by (intro unat_double) linarith
  have p1: "unat (base + y * video_size_row g) = unat base + unat y * unat (video_size_row g)"
    using y yr assms(4) by (subst unat_plus_small) simp_all
  have "unat (base + y * video_size_row g) + unat (push_bit 1 x) < 2 ^ 32"
    unfolding p1 x using yr assms(2,4,11) by simp
  then have p: "unat (base + y * video_size_row g + push_bit 1 x) =
      unat base + unat y * unat (video_size_row g) + 2 * unat x"
    by (simp only: unat_plus_small p1 x)
  show ?thesis
    unfolding con_ok_def using assms e s p by (simp del: push_bit_numeral)
qed

text \<open>Console 0 after its start, and the loop that sets up the others.\<close>

lemma next_console_vc:
  assumes "8 \<le> unat (columns s)" "1 \<le> unat (rows s)"
  shows "vc n (next_console share n s) =
      (let base = video_mem_base (video s) + of_nat n * share in
       ((vc 0 s)\<lparr>vc_origin := base, vc_video_mem_start := base, vc_scr_end := base + rows s * row_size s,
          vc_video_mem_end := base + share\<rparr>)\<lparr>vc_x := 0, vc_y := 0, vc_pos := base + 0 * row_size s + push_bit 1 0\<rparr>)"
    "m \<noteq> n \<Longrightarrow> vc m (next_console share n s) = vc m s" "video (next_console share n s) = video s"
    "NR_CONSOLES (next_console share n s) = NR_CONSOLES s"
proof -
  have "\<not> rows s \<le> 0" using assms(2) by (simp add: word_le_nat_alt)
  then show "vc n (next_console share n s) =
      (let base = video_mem_base (video s) + of_nat n * share in
       ((vc 0 s)\<lparr>vc_origin := base, vc_video_mem_start := base, vc_scr_end := base + rows s * row_size s,
          vc_video_mem_end := base + share\<rparr>)\<lparr>vc_x := 0, vc_y := 0, vc_pos := base + 0 * row_size s + push_bit 1 0\<rparr>)"
    by (simp add: next_console_def gotoxy_def Let_def)
qed (auto simp: next_console_def gotoxy_def Let_def upd_vc_def vc_def)

definition divided :: "video_t \<Rightarrow> u32 \<Rightarrow> nat \<Rightarrow> tty_state \<Rightarrow> bool" where
  "divided g share j s \<longleftrightarrow> video s = g \<and> vc_top (vc 0 s) = 0 \<and> vc_bottom (vc 0 s) = video_num_lines g \<and>
     (\<forall>m<j. con_ok g (vc m s) \<and> vc_video_mem_start (vc m s) = video_mem_base g + of_nat m * share \<and>
        vc_video_mem_end (vc m s) = video_mem_base g + of_nat m * share + share)"

lemma next_console_divided:
  assumes "video_found b = (g, d)" "video_mode_ok b"
    and "divided g ((video_mem_term g - video_mem_base g) div of_nat (con_count g)) j s" "1 \<le> j" "j < con_count g"
  shows "divided g ((video_mem_term g - video_mem_base g) div of_nat (con_count g)) (Suc j)
    (next_console ((video_mem_term g - video_mem_base g) div of_nat (con_count g)) j s)"
proof -
  define share where "share = (video_mem_term g - video_mem_base g) div of_nat (con_count g)"
  note room = con_count_room[OF assms(1,2), folded share_def]
  note D = assms(3)[folded share_def, unfolded divided_def]
  have m: "8 \<le> unat (video_num_columns g)" "1 \<le> unat (video_num_lines g)"
    using assms(2) by (auto simp: video_mode_ok_def assms(1) Let_def)
  have c0: "con_ok g (vc 0 s)" using D assms(4) by auto
  define base where "base = video_mem_base g + of_nat j * share"
  define w where "w = (vc 0 s)\<lparr>vc_origin := base, vc_video_mem_start := base,
    vc_scr_end := base + video_num_lines g * video_size_row g, vc_video_mem_end := base + share\<rparr>"
  let ?t = "next_console share j s"
  have v: "video s = g" using D by simp
  have n: "vc j ?t = w\<lparr>vc_x := 0, vc_y := 0, vc_pos := base + 0 * video_size_row g + push_bit 1 0\<rparr>"
    using next_console_vc(1)[of s j share] m v by (simp add: w_def base_def Let_def)
  have "con_ok g (vc j ?t)" unfolding n
    by (rule fresh_con_ok[of g share base w])
      (use m room(4) room(7)[OF assms(5)] con_ok_row[OF c0] D in \<open>simp_all add: w_def base_def\<close>)
  moreover have "vc_video_mem_start (vc j ?t) = base" "vc_video_mem_end (vc j ?t) = base + share"
    by (simp_all add: n w_def)
  moreover have "vc i ?t = vc i s" if "i \<noteq> j" for i using next_console_vc(2)[of s i j share] m v that by simp
  moreover have "video ?t = g" using next_console_vc(3)[of s share j] m v by simp
  ultimately show ?thesis
    unfolding share_def[symmetric] divided_def using D assms(4) by (auto simp: less_Suc_eq base_def)
qed

lemma all_consoles_divided:
  assumes "video_found b = (g, d)" "video_mode_ok b"
    and "divided g ((video_mem_term g - video_mem_base g) div of_nat (con_count g)) 1 s"
  shows "1 \<le> j \<Longrightarrow> j \<le> con_count g \<Longrightarrow>
    divided g ((video_mem_term g - video_mem_base g) div of_nat (con_count g)) j
      (fold (next_console ((video_mem_term g - video_mem_base g) div of_nat (con_count g))) [1..<j] s)"
proof (induction j rule: nat_induct_at_least)
  case base
  then show ?case using assms(3) by simp
next
  case (Suc j)
  then show ?case using next_console_divided[OF assms(1,2) Suc.IH] by simp
qed

lemma update_screen_frame [simp]:
  "vc n (update_screen s) = vc n s" "video (update_screen s) = video s" "NR_CONSOLES (update_screen s) = NR_CONSOLES s"
  "vc n (s\<lparr>blankcount := k\<rparr>) = vc n s"
  by (simp_all add: update_screen_def set_origin_def set_cursor_def set_video_def Let_def outb_def vc_def)

lemma NR_CONSOLES_fold: "NR_CONSOLES (fold (next_console share) xs s) = NR_CONSOLES s"
  by (rule fold_invariant_rule[where P = "\<lambda>t. NR_CONSOLES t = NR_CONSOLES s"])
    (auto simp: next_console_def gotoxy_def upd_vc_def Let_def)

lemma NR_CONSOLES_outb: "NR_CONSOLES (outb v p s) = NR_CONSOLES s"
  by (simp add: outb_def)

lemma divided_cong:
  assumes "divided g share j s" "video t = video s" "\<And>n. vc n t = vc n s"
  shows "divided g share j t"
  using assms by (simp add: divided_def)

text \<open>What \<open>divided\<close> says of all of them.\<close>

lemma divided_consoles_ok:
  assumes "video_found b = (g, d)" "video_mode_ok b" "NR_CONSOLES s = con_count g"
    and D: "divided g ((video_mem_term g - video_mem_base g) div of_nat (con_count g)) (con_count g) s"
  shows "consoles_ok s"
proof -
  define share where "share = (video_mem_term g - video_mem_base g) div of_nat (con_count g)"
  note room = con_count_room[OF assms(1,2), folded share_def]
  have own: "own_vmem (vc m s) = {a. unat (video_mem_base g) + m * unat share \<le> unat a \<and>
      unat a < unat (video_mem_base g) + m * unat share + unat share}" if "m < con_count g" for m
  proof -
    have "unat (video_mem_base g + of_nat m * share + share) = unat (video_mem_base g + of_nat m * share) + unat share"
      using room(7)[OF that] by (intro unat_plus_small) simp
    then show ?thesis using D that room(6)[OF that] by (simp add: divided_def share_def[symmetric] own_vmem_def)
  qed
  have "own_vmem (vc m s) \<inter> own_vmem (vc n s) = {}" if "m < con_count g" "n < con_count g" "m < n" for m n
  proof -
    have "(m + 1) * unat share \<le> n * unat share" using that(3) by (intro mult_le_mono1) simp
    then show ?thesis using that(1,2) by (auto simp: own)
  qed
  then have "own_vmem (vc m s) \<inter> own_vmem (vc n s) = {}" if "m < con_count g" "n < con_count g" "m \<noteq> n" for m n
    using that by (metis Int_commute nat_neq_iff)
  then show ?thesis using D assms(3) by (auto simp: consoles_ok_def divided_def)
qed

lemma first_console_divided:
  assumes "video_found b = (g, d)" "video_mode_ok b" "video s = g"
  defines "share \<equiv> (video_mem_term g - video_mem_base g) div of_nat (con_count g)"
  shows "divided g share 1 (gotoxy 0 (ucast (ORIG_X b)) (ucast (ORIG_Y b)) (first_console share s))"
proof -
  note room = con_count_room[OF assms(1,2), folded share_def]
  have m: "8 \<le> unat (video_num_columns g)" "unat (ORIG_X b) \<le> unat (video_num_columns g)"
    "unat (ORIG_Y b) < unat (video_num_lines g)"
    using assms(2) by (auto simp: video_mode_ok_def assms(1) Let_def)
  have r: "unat (video_size_row g) = 2 * unat (video_num_columns g)"
    using video_found_sizes(3,4)[OF assms(1)] unat_times[of "video_num_columns g" 2] by simp
  let ?f = "first_console share s"
  have f: "video ?f = g" "vc_origin (vc 0 ?f) = video_mem_base g" "vc_video_mem_start (vc 0 ?f) = video_mem_base g"
    "vc_video_mem_end (vc 0 ?f) = video_mem_base g + share" "vc_top (vc 0 ?f) = 0"
    "vc_scr_end (vc 0 ?f) = video_mem_base g + video_num_lines g * video_size_row g" "vc_bottom (vc 0 ?f) = video_num_lines g"
    using assms(3) by (simp_all add: first_console_def Let_def)
  have g: "gotoxy 0 (ucast (ORIG_X b)) (ucast (ORIG_Y b)) ?f = upd_vc 0 (\<lambda>v. v\<lparr>vc_x := ucast (ORIG_X b), vc_y := ucast (ORIG_Y b),
      vc_pos := vc_origin v + ucast (ORIG_Y b) * video_size_row g + push_bit 1 (ucast (ORIG_X b))\<rparr>) ?f"
    using m by (simp add: gotoxy_def f word_less_nat_alt word_le_nat_alt unat_widen8)
  have "con_ok g ((vc 0 ?f)\<lparr>vc_x := ucast (ORIG_X b), vc_y := ucast (ORIG_Y b),
      vc_pos := video_mem_base g + ucast (ORIG_Y b) * video_size_row g + push_bit 1 (ucast (ORIG_X b))\<rparr>)"
    by (rule fresh_con_ok[of g share "video_mem_base g"])
      (use m r room(1,4) room(7)[of 0] in \<open>simp_all add: f unat_widen8\<close>)
  then show ?thesis unfolding g divided_def by (simp add: f del: push_bit_numeral)
qed

text \<open>
  C34. \<open>con_init\<close> returns, and after it every virtual console satisfies the invariant of the console - the cursor on the screen, the
  screen within the console's own part of video memory - and the parts of two consoles never overlap, whatever
  adapter and mode the BIOS has reported, under the conditions of \<open>video_mode_ok\<close>: the mode has at least eight columns and
  one line, the screen fits into the memory of the adapter, and the cursor the BIOS has left is on that screen, its
  column at most the number of columns and its row below the number of lines.
\<close>

theorem con_init_consoles_ok:
  assumes "video_mode_ok b"
  shows "\<exists>t. con_init e b s = Done () t \<and> consoles_ok t"
proof -
  obtain g d where g: "video_found b = (g, d)" by fastforce
  define share where "share = (video_mem_term g - video_mem_base g) div of_nat (con_count g)"
  define s1 where "s1 = upd_vmem (\<lambda>m. fold (\<lambda>i m. m(video_mem_base g + video_size_row g - 8 + 2 * of_nat i := d ! i)) [0..<4] m)
    (s\<lparr>blankcount := blankinterval s, video := g, NR_CONSOLES := con_count g\<rparr>)"
  define s2 where "s2 = gotoxy 0 (ucast (ORIG_X b)) (ucast (ORIG_Y b)) (first_console share s1)"
  define s3 where "s3 = fold (next_console share) [1..<con_count g] s2"
  have "\<exists>t v w p q. con_init e b s = Done () t \<and> t = outb v p (outb w p (outb q 0x21 (update_screen s3)))"
    using con_count_room(8)[OF g assms]
    unfolding con_init_def g prod.case Let_def share_def[symmetric] s1_def[symmetric] s2_def[symmetric] s3_def[symmetric]
    by auto
  then obtain t v w p q where T: "con_init e b s = Done () t" "t = outb v p (outb w p (outb q 0x21 (update_screen s3)))"
    by blast
  then have t: "vc n t = vc n s3" "video t = video s3" "NR_CONSOLES t = NR_CONSOLES s3" for n
    by (auto simp: NR_CONSOLES_outb)
  have "divided g share 1 s2"
    unfolding s2_def share_def by (rule first_console_divided[OF g assms]) (simp add: s1_def)
  then have "divided g share (con_count g) s3"
    unfolding s3_def share_def using con_count_room(1)[OF g assms] by (intro all_consoles_divided[OF g assms]) simp_all
  moreover have "NR_CONSOLES s3 = con_count g"
    by (simp add: s3_def NR_CONSOLES_fold) (simp add: s2_def s1_def first_console_def gotoxy_def upd_vc_def upd_vmem_def Let_def)
  ultimately show ?thesis
    using divided_consoles_ok[OF g assms, of t] t divided_cong[of g share "con_count g" s3 t] T(1) by (simp add: share_def)
qed

text \<open>An EGA in text mode 3, 80 by 25.\<close>

definition demo_boot :: boot_video where
  "demo_boot = \<lparr>ORIG_X = 0, ORIG_Y = 0, ORIG_VIDEO_PAGE = 0, ORIG_VIDEO_MODE_COLS = 0x5003, ORIG_VIDEO_LINES = 0x19,
     ORIG_VIDEO_EGA_BX = 3\<rparr>"

theorem con_init_consoles_ok_witness:
  "video_mode_ok demo_boot \<and> (\<exists>t. con_init demo_tty_env demo_boot demo_tty = Done () t \<and> consoles_ok t)"
proof -
  have "video_mode_ok demo_boot" by (simp add: video_mode_ok_def video_found_def demo_boot_def Let_def)
  then show ?thesis using con_init_consoles_ok by blast
qed

end
