(* ===== verification/Tty_Props.thy ===== *)
theory Tty_Props
  imports Tty_Calls Console_Init
begin

section \<open>What the line discipline does\<close>

text \<open>
  The contract of a terminal's write function, as \<open>copy_to_cooked\<close> uses it: it returns, and leaves alone the queues
  the line is edited in. Under that contract \<open>copy_to_cooked\<close> is a line editor: the secondary queue holds what a
  function on lists makes of the characters typed. Serial lines provide the contract.
\<close>

unbundle bit_operations_syntax

subsection \<open>The specification of the editor\<close>

definition ctl :: "termios_t \<Rightarrow> nat \<Rightarrow> u8 \<Rightarrow> bool" where
  "ctl t i c \<longleftrightarrow> c_cc t i \<noteq> 0 \<and> sint c = uint (c_cc t i)"

definition delim :: "termios_t \<Rightarrow> u8 \<Rightarrow> bool" where
  "delim t c \<longleftrightarrow> c = 10 \<or> ctl t VEOF c"

definition input_cr :: "termios_t \<Rightarrow> u8 \<Rightarrow> u8 option" where
  "input_cr t c =
    (if c = 13 then if c_iflag t AND ICRNL \<noteq> 0 then Some 10 else if c_iflag t AND IGNCR \<noteq> 0 then None else Some 13
     else if c = 10 \<and> c_iflag t AND INLCR \<noteq> 0 then Some 13 else Some c)"

text \<open>Without the last character, without the last line; finished lines stay.\<close>

definition erase_last :: "termios_t \<Rightarrow> u8 list \<Rightarrow> u8 list" where
  "erase_last t buf = (if buf = [] \<or> delim t (last buf) then buf else butlast buf)"

definition erase_line :: "termios_t \<Rightarrow> u8 list \<Rightarrow> u8 list" where
  "erase_line t buf = rev (dropWhile (\<lambda>c. \<not> delim t c) (rev buf))"

definition edit :: "termios_t \<Rightarrow> u8 \<Rightarrow> u8 list \<Rightarrow> u8 list" where
  "edit t c buf =
    (case input_cr t c of
       None \<Rightarrow> buf
     | Some c \<Rightarrow>
         if c_lflag t AND ICANON \<noteq> 0 \<and> ctl t VKILL c then erase_line t buf
         else if c_lflag t AND ICANON \<noteq> 0 \<and> ctl t VERASE c then erase_last t buf
         else if c_iflag t AND IXON \<noteq> 0 \<and> (ctl t VSTOP c \<or> ctl t VSTART c) then buf
         else if c_lflag t AND ISIG \<noteq> 0 \<and> (ctl t VINTR c \<or> ctl t VQUIT c \<or> ctl t VSUSP c) then buf
         else buf @ [c])"

subsection \<open>Signals sent from a terminal\<close>

definition only_tasks :: "'a kstate_scheme \<Rightarrow> 'a kstate_scheme \<Rightarrow> bool" where
  "only_tasks s t \<longleftrightarrow> (\<exists>h. t = s\<lparr>ts := h\<rparr>)"

lemma only_tasks_refl: "only_tasks s s"
  unfolding only_tasks_def by (rule exI[of _ "ts s"]) simp

lemma only_tasks_trans: "only_tasks s t \<Longrightarrow> only_tasks t u \<Longrightarrow> only_tasks s u"
  unfolding only_tasks_def by auto

lemma only_tasks_upd: "only_tasks s (upd_task p f s)"
  unfolding only_tasks_def upd_task_def by (rule exI) (rule refl)

lemma post_signal_only_tasks: "only_tasks s (post_signal sig p s)"
  unfolding post_signal_def Let_def
  by (auto intro!: only_tasks_refl only_tasks_trans[OF _ only_tasks_upd] only_tasks_upd)

lemma kill_pg_only_tasks: "\<exists>r t. kill_pg grp sig priv s = Done r t \<and> only_tasks s t"
proof (cases "sig < 1 \<or> sig > 32 \<or> sint grp \<le> 0")
  case True
  then show ?thesis by (simp add: kill_pg_def only_tasks_refl)
next
  case False
  have "\<exists>b' u'. kill_pg_step grp sig priv i b u = Done b' u' \<and> only_tasks u u'" for i b and u :: "'a kstate_scheme"
    using False by (auto simp: kill_pg_step_def send_sig_def only_tasks_refl post_signal_only_tasks split: prod.splits)
  then obtain b t where "fold_outcome (kill_pg_step grp sig priv) slot_order (- ESRCH, 0) s = Done b t" "only_tasks s t"
    using fold_outcome_total[of slot_order "kill_pg_step grp sig priv" only_tasks "(- ESRCH, 0)" s]
      only_tasks_refl only_tasks_trans by fastforce
  then show ?thesis using False by (cases b) (auto simp: kill_pg_def)
qed

subsection \<open>The contract\<close>

text \<open>The input side of terminal \<open>k\<close> is the same in two states.\<close>

definition same_input :: "nat \<Rightarrow> tty_state \<Rightarrow> tty_state \<Rightarrow> bool" where
  "same_input k s t \<longleftrightarrow>
     read_q t k = read_q s k \<and> write_q t k = write_q s k \<and> secondary t k = secondary s k \<and>
     tty_termios t k = tty_termios s k \<and> tty_queues t (read_q s k) = tty_queues s (read_q s k) \<and>
     tty_queues t (secondary s k) = tty_queues s (secondary s k) \<and> t_write (tty_lines t k) = t_write (tty_lines s k)"

lemma same_input_refl: "same_input k s s"
  by (simp add: same_input_def)

lemma same_input_trans: "same_input k s t \<Longrightarrow> same_input k t u \<Longrightarrow> same_input k s u"
  by (simp add: same_input_def)

text \<open>The three queues are different, and their indices are in range.\<close>

definition line_ok :: "nat \<Rightarrow> tty_state \<Rightarrow> bool" where
  "line_ok k s \<longleftrightarrow>
     write_q s k \<noteq> read_q s k \<and> write_q s k \<noteq> secondary s k \<and> read_q s k \<noteq> secondary s k \<and>
     queue_ok (tty_queues s (read_q s k)) \<and> queue_ok (tty_queues s (secondary s k))"

lemma same_input_line_ok: "same_input k s t \<Longrightarrow> line_ok k t = line_ok k s"
  by (simp add: same_input_def line_ok_def)

locale line_writer =
  fixes wr :: "nat \<Rightarrow> tty_state \<Rightarrow> unit tty_out" and k :: nat and able :: "tty_state \<Rightarrow> bool"
  assumes write_returns: "able s \<Longrightarrow> line_ok k s \<Longrightarrow> \<exists>t. wr k s = Done () t \<and> same_input k s t"
    and able_same: "same_input k s t \<Longrightarrow> able t = able s"
    and able_queue: "able (upd_queue q f s) = able s"
begin

lemma PUTCH_same: "line_ok k s \<Longrightarrow> same_input k s (PUTCH c (write_q s k) s)"
  by (simp add: same_input_def line_ok_def PUTCH_def upd_queue_def)

lemma write_same:
  assumes "able s" "line_ok k s" "same_input k s t"
  shows "\<exists>u. wr k t = Done () u \<and> same_input k s u"
  using write_returns[of t] able_same[OF assms(3)] same_input_line_ok[OF assms(3)] assms
  by (meson same_input_trans)

lemma echo_erase_same:
  assumes "able s" "line_ok k s"
  shows "\<exists>t. echo_erase wr k c s = Done () t \<and> same_input k s t"
proof -
  define u where "u = (if sint c < 32 then PUTCH 127 (write_q s k) s else s)"
  have u: "same_input k s u" using assms PUTCH_same by (simp add: u_def same_input_refl)
  then have "write_q u k = write_q s k" by (simp add: same_input_def)
  then have "same_input k s (PUTCH 127 (write_q s k) u)"
    using same_input_trans[OF u] PUTCH_same[of u] same_input_line_ok[OF u] assms(2) by metis
  then show ?thesis
    using write_same[OF assms] \<open>write_q u k = _\<close> unfolding echo_erase_def u_def[symmetric] Let_def
    by (auto simp: same_input_refl)
qed

lemma echo_char_same:
  assumes "line_ok k s"
  shows "same_input k s (echo_char c k s)"
proof -
  have 2: "same_input k s (PUTCH b (write_q s k) (PUTCH a (write_q s k) s))" for a b
    using assms by (simp add: same_input_def line_ok_def PUTCH_def upd_queue_def)
  show ?thesis using 2 PUTCH_same[OF assms] same_input_refl by (simp add: echo_char_def)
qed

end

text \<open>Dropping the last character of the line, on the lists.\<close>

lemma line_start_iff:
  assumes "queue_ok (tty_queues s (secondary s k))"
  shows "line_start k s \<longleftrightarrow> (let buf = chars (tty_queues s (secondary s k)) in buf = [] \<or> delim (tty_termios s k) (last buf))"
proof (cases "EMPTY (tty_queues s (secondary s k))")
  case True
  then show ?thesis using EMPTY_chars[OF assms] by (simp add: line_start_def Let_def)
next
  case False
  then have "last (chars (tty_queues s (secondary s k))) = LAST (tty_queues s (secondary s k))"
    by (subst chars_drop_char[OF assms]) simp_all
  then show ?thesis
    using False EMPTY_chars[OF assms] by (simp add: line_start_def Let_def delim_def ctl_def is_cc_def cc_def)
qed

lemma chars_drop_last:
  "queue_ok q \<Longrightarrow> chars q \<noteq> [] \<Longrightarrow> chars (drop_char q) = butlast (chars q)"
  using chars_drop_char[of q] EMPTY_chars[of q] by (metis butlast_snoc)

lemma erase_line_unfold:
  "erase_line t buf = (if buf = [] \<or> delim t (last buf) then buf else erase_line t (butlast buf))"
  by (cases buf rule: rev_cases) (simp_all add: erase_line_def)

text \<open>The state after a part of \<open>copy_to_cooked\<close>: the line reads \<open>buf\<close>, all else on the input side is as in \<open>s\<close>.\<close>

definition line_is :: "nat \<Rightarrow> u8 list \<Rightarrow> tty_state \<Rightarrow> tty_state \<Rightarrow> bool" where
  "line_is k buf s t \<longleftrightarrow>
     read_q t k = read_q s k \<and> write_q t k = write_q s k \<and> secondary t k = secondary s k \<and>
     tty_termios t k = tty_termios s k \<and> tty_queues t (read_q s k) = tty_queues s (read_q s k) \<and>
     t_write (tty_lines t k) = t_write (tty_lines s k) \<and> line_ok k t \<and> chars (tty_queues t (secondary s k)) = buf \<and>
     q_proc_list (tty_queues t (secondary s k)) = q_proc_list (tty_queues s (secondary s k))"

lemma same_input_line_is:
  "line_ok k s \<Longrightarrow> same_input k s t \<Longrightarrow> line_is k (chars (tty_queues s (secondary s k))) s t"
  using same_input_line_ok[of k s t] by (simp add: same_input_def line_is_def)

lemma line_is_refl: "line_ok k s \<Longrightarrow> line_is k (chars (tty_queues s (secondary s k))) s s"
  by (simp add: line_is_def)

lemma line_is_trans: "line_is k b s t \<Longrightarrow> line_is k c t u \<Longrightarrow> line_is k c s u"
  by (simp add: line_is_def)

lemma line_is_upd:
  assumes "line_ok k s" "queue_ok (f (tty_queues s (secondary s k)))"
    "q_proc_list (f (tty_queues s (secondary s k))) = q_proc_list (tty_queues s (secondary s k))"
  shows "line_is k (chars (f (tty_queues s (secondary s k)))) s (upd_queue (secondary s k) f s)"
  using assms by (simp add: line_is_def line_ok_def upd_queue_def)

lemma proc_list_sel:
  "q_proc_list (drop_char q) = q_proc_list q" "q_proc_list (put_char c q) = q_proc_list q"
  by (simp_all add: drop_char_def put_char_def)

lemma only_tasks_same_input: "only_tasks s t \<Longrightarrow> same_input k s t"
  by (auto simp: only_tasks_def same_input_def)

context line_writer
begin

text \<open>Rubbing out one character.\<close>

lemma rub_out:
  assumes "able s" "line_ok k s" "chars (tty_queues s (secondary s k)) \<noteq> []"
  shows "\<exists>t. and_then (echo_erase wr k c s) (\<lambda>_ s. Done x (upd_queue (secondary s k) drop_char s)) = Done x t \<and>
    able t \<and> line_is k (butlast (chars (tty_queues s (secondary s k)))) s t"
proof -
  obtain u where u: "echo_erase wr k c s = Done () u" "same_input k s u" using echo_erase_same[OF assms(1,2)] by blast
  have l: "line_ok k u" "able u" using same_input_line_ok[OF u(2)] able_same[OF u(2)] assms by simp_all
  have q: "tty_queues u (secondary u k) = tty_queues s (secondary s k)" using u(2) by (simp add: same_input_def)
  have ok: "queue_ok (tty_queues s (secondary s k))" using assms(2) by (simp add: line_ok_def)
  have "line_is k (butlast (chars (tty_queues s (secondary s k)))) u (upd_queue (secondary u k) drop_char u)"
    using line_is_upd[OF l(1), of drop_char] chars_drop_last[OF ok assms(3)] ok by (simp add: q proc_list_sel)
  then have "line_is k (butlast (chars (tty_queues s (secondary s k)))) s (upd_queue (secondary u k) drop_char u)"
    by (rule line_is_trans[OF same_input_line_is[OF assms(2) u(2)]])
  moreover have "able (upd_queue (secondary u k) drop_char u)" using l(2) able_queue by simp
  ultimately show ?thesis using u(1) by simp
qed

lemma kill_line_erases:
  assumes "able s" "line_ok k s"
  shows "\<exists>t. kill_line wr k s = Done () t \<and> able t \<and>
    line_is k (erase_line (tty_termios s k) (chars (tty_queues s (secondary s k)))) s t"
  using assms
proof (induction "length (chars (tty_queues s (secondary s k)))" arbitrary: s rule: less_induct)
  case less
  let ?q = "tty_queues s (secondary s k)"
  have ok: "queue_ok ?q" using less.prems by (simp add: line_ok_def)
  show ?case
  proof (cases "line_start k s")
    case True
    then have "kill_line wr k s = Done () s" by (simp add: kill_line_def loop_unfold)
    moreover have "erase_line (tty_termios s k) (chars ?q) = chars ?q"
      using True line_start_iff[OF ok] by (subst erase_line_unfold) (simp add: Let_def)
    ultimately show ?thesis using less.prems line_is_refl[OF less.prems(2)] by simp
  next
    case False
    then have ne: "chars ?q \<noteq> []" and d: "\<not> delim (tty_termios s k) (last (chars ?q))"
      using line_start_iff[OF ok] by (auto simp: Let_def)
    obtain u where u: "and_then (echo_erase wr k (LAST ?q) s) (\<lambda>_ s. Done (Again ()) (upd_queue (secondary s k) drop_char s)) =
        Done (Again () :: (unit, unit) turn) u" "able u" "line_is k (butlast (chars ?q)) s u"
      using rub_out[OF less.prems ne, of "LAST ?q" "Again ()"] by (elim exE conjE) (rule that)
    have l: "line_ok k u" "tty_termios u k = tty_termios s k" "chars (tty_queues u (secondary u k)) = butlast (chars ?q)"
      using u(3) by (simp_all add: line_is_def)
    have e: "erase_line (tty_termios s k) (chars ?q) = erase_line (tty_termios s k) (butlast (chars ?q))"
      using ne d by (subst erase_line_unfold) simp
    obtain t where t: "kill_line wr k u = Done () t" "able t"
        "line_is k (erase_line (tty_termios u k) (chars (tty_queues u (secondary u k)))) u t"
      using less.hyps[OF _ u(2) l(1)] ne unfolding l(3) by (metis length_butlast length_greater_0_conv diff_less zero_less_one)
    have "kill_line wr k s = kill_line wr k u"
      unfolding kill_line_def by (subst loop_unfold) (use False u(1) in simp)
    then show ?thesis using t(1,2) line_is_trans[OF u(3) t(3)] by (simp add: e l(2,3))
  qed
qed

text \<open>The stages: each one that takes the character does to the line what the editor says.\<close>

definition does :: "('a tty_out) \<Rightarrow> 'a \<Rightarrow> tty_state \<Rightarrow> u8 list \<Rightarrow> bool" where
  "does m x s buf \<longleftrightarrow> (\<exists>t. m = Done x t \<and> able t \<and> line_is k buf s t)"

lemma does_refl: "able s \<Longrightarrow> line_ok k s \<Longrightarrow> does (Done x s) x s (chars (tty_queues s (secondary s k)))"
  by (simp add: does_def line_is_refl)

lemma is_cc_ctl: "is_cc c i k s = ctl (tty_termios s k) i c"
  by (simp add: is_cc_def ctl_def cc_def)

lemma cook_edit_does:
  assumes "able s" "line_ok k s"
  shows "if l_flag ICANON k s \<and> ctl (tty_termios s k) VKILL c
    then does (cook_edit wr k c s) True s (erase_line (tty_termios s k) (chars (tty_queues s (secondary s k))))
    else if l_flag ICANON k s \<and> ctl (tty_termios s k) VERASE c
    then does (cook_edit wr k c s) True s (erase_last (tty_termios s k) (chars (tty_queues s (secondary s k))))
    else cook_edit wr k c s = Done False s"
proof -
  let ?buf = "chars (tty_queues s (secondary s k))"
  have ok: "queue_ok (tty_queues s (secondary s k))" using assms(2) by (simp add: line_ok_def)
  obtain t where "kill_line wr k s = Done () t" "able t" "line_is k (erase_line (tty_termios s k) ?buf) s t"
    using kill_line_erases[OF assms] by blast
  then have 1: "does (and_then (kill_line wr k s) (\<lambda>_. Done True)) True s (erase_line (tty_termios s k) ?buf)"
    by (simp add: does_def)
  have 2: "does (if line_start k s then Done True s else and_then (echo_erase wr k (LAST (tty_queues s (secondary s k))) s)
      (\<lambda>_ s. Done True (upd_queue (secondary s k) drop_char s))) True s (erase_last (tty_termios s k) ?buf)"
  proof (cases "line_start k s")
    case True
    then show ?thesis using does_refl[OF assms] line_start_iff[OF ok] by (simp add: erase_last_def Let_def)
  next
    case False
    then have "?buf \<noteq> []" and "erase_last (tty_termios s k) ?buf = butlast ?buf"
      using line_start_iff[OF ok] by (simp_all add: erase_last_def Let_def)
    then show ?thesis using rub_out[OF assms] False unfolding does_def by simp
  qed
  show ?thesis using 1 2 by (simp add: cook_edit_def is_cc_ctl)
qed

lemma stopped_same: "same_input k s (upd_line k (\<lambda>t. t\<lparr>t_stopped := b\<rparr>) s)"
  by (simp add: same_input_def upd_line_def)

lemma cook_flow_does:
  assumes "able s" "line_ok k s"
  shows "if i_flag IXON k s \<and> (ctl (tty_termios s k) VSTOP c \<or> ctl (tty_termios s k) VSTART c)
    then does (cook_flow wr k c s) True s (chars (tty_queues s (secondary s k)))
    else cook_flow wr k c s = Done False s"
proof -
  have "does (and_then (wr k (upd_line k (\<lambda>t. t\<lparr>t_stopped := b\<rparr>) s)) (\<lambda>_. Done True)) True s
      (chars (tty_queues s (secondary s k)))" for b
  proof -
    obtain u where u: "wr k (upd_line k (\<lambda>t. t\<lparr>t_stopped := b\<rparr>) s) = Done () u" "same_input k s u"
      using write_same[OF assms stopped_same] by blast
    then show ?thesis using same_input_line_is[OF assms(2) u(2)] able_same[OF u(2)] assms(1) by (simp add: does_def)
  qed
  then show ?thesis by (auto simp: cook_flow_def is_cc_ctl)
qed

lemma cook_signal_does:
  assumes "able s" "line_ok k s"
  shows "if l_flag ISIG k s \<and> (ctl (tty_termios s k) VINTR c \<or> ctl (tty_termios s k) VQUIT c \<or> ctl (tty_termios s k) VSUSP c)
    then does (cook_signal k c s) True s (chars (tty_queues s (secondary s k)))
    else cook_signal k c s = Done False s"
proof -
  have "does (and_then (kill_pg grp sig True s) (\<lambda>_. Done True)) True s (chars (tty_queues s (secondary s k)))" for grp sig
  proof -
    obtain x u where u: "kill_pg grp sig True s = Done x u" "only_tasks s u" using kill_pg_only_tasks by blast
    then have "same_input k s u" by (intro only_tasks_same_input)
    then show ?thesis using u(1) same_input_line_is[OF assms(2)] able_same assms(1) by (simp add: does_def)
  qed
  then show ?thesis using does_refl[OF assms] by (auto simp: cook_signal_def is_cc_ctl)
qed

lemma cook_store_does:
  assumes "able s" "line_ok k s" "\<not> FULL (tty_queues s (secondary s k))"
  shows "does (cook_store wr k c s) () s (chars (tty_queues s (secondary s k)) @ [c])"
proof -
  let ?f = "\<lambda>q. q\<lparr>q_data := q_data q + 1\<rparr>"
  have ok: "queue_ok (tty_queues s (secondary s k))" using assms(2) by (simp add: line_ok_def)
  define a where "a = (if c = 10 \<or> is_cc c VEOF k s then upd_queue (secondary s k) ?f s else s)"
  have f: "chars (?f q) = chars q" "queue_ok (?f q) = queue_ok q" "FULL (?f q) = FULL q" for q
    by (simp_all add: chars_def queue_ok_def FULL_def LEFT_def CHARS_def)
  have a1: "line_is k (chars (tty_queues s (secondary s k))) s a"
    using line_is_upd[OF assms(2), of ?f] line_is_refl[OF assms(2)] ok by (simp add: a_def f proc_list_sel)
  have a2: "able a" "line_ok k a" "\<not> FULL (tty_queues a (secondary a k))"
    using assms a1 able_queue by (auto simp: a_def line_is_def upd_queue_def f)
  obtain b where b: "(if l_flag ECHO k a then wr k (echo_char c k a) else Done () a) = Done () b" "same_input k a b"
  proof (cases "l_flag ECHO k a")
    case True
    obtain u where "wr k (echo_char c k a) = Done () u" "same_input k a u"
      using write_same[OF a2(1,2) echo_char_same[OF a2(2)]] by blast
    then show ?thesis using that True by simp
  next
    case False
    then show ?thesis using that same_input_refl by simp
  qed
  have b2: "able b" "line_ok k b" using able_same[OF b(2)] same_input_line_ok[OF b(2)] a2 by simp_all
  have q: "tty_queues b (secondary b k) = tty_queues a (secondary a k)" using b(2) by (simp add: same_input_def)
  then have okb: "queue_ok (tty_queues b (secondary b k))" using b2(2) by (simp add: line_ok_def)
  have "chars (put_char c (tty_queues b (secondary b k))) = chars (tty_queues b (secondary b k)) @ [c]"
    using a2(3) q okb by (intro chars_put_char) simp_all
  then have "line_is k (chars (tty_queues b (secondary b k)) @ [c]) b (PUTCH c (secondary b k) b)"
    using line_is_upd[OF b2(2), of "put_char c"] okb by (simp add: PUTCH_def proc_list_sel)
  then have "line_is k (chars (tty_queues b (secondary b k)) @ [c]) s (PUTCH c (secondary b k) b)"
    using line_is_trans[OF line_is_trans[OF a1 same_input_line_is[OF a2(2) b(2)]]] by blast
  moreover have "chars (tty_queues b (secondary b k)) = chars (tty_queues s (secondary s k))"
    using a1 q by (simp add: line_is_def)
  moreover have "cook_store wr k c s = Done () (PUTCH c (secondary b k) b)"
    unfolding cook_store_def a_def[symmetric] Let_def using b(1) by simp
  moreover have "able (PUTCH c (secondary b k) b)" using b2(1) able_queue by (simp add: PUTCH_def)
  ultimately show ?thesis by (simp add: does_def)
qed

lemma cook_rest_does:
  fixes s c
  defines "T \<equiv> tty_termios s k" and "buf \<equiv> chars (tty_queues s (secondary s k))"
  assumes "able s" "line_ok k s" "\<not> FULL (tty_queues s (secondary s k))"
  shows "does (cook_rest wr k c s) () s
    (if c_lflag T AND ICANON \<noteq> 0 \<and> ctl T VKILL c then erase_line T buf
     else if c_lflag T AND ICANON \<noteq> 0 \<and> ctl T VERASE c then erase_last T buf
     else if c_iflag T AND IXON \<noteq> 0 \<and> (ctl T VSTOP c \<or> ctl T VSTART c) then buf
     else if c_lflag T AND ISIG \<noteq> 0 \<and> (ctl T VINTR c \<or> ctl T VQUIT c \<or> ctl T VSUSP c) then buf
     else buf @ [c])"
proof -
  have fin: "does (and_then m (\<lambda>done s. if done then Done () s else f s)) () s b" if "does m True s b" for m f b
    using that by (auto simp: does_def)
  note E = cook_edit_does[OF assms(3,4), of c, folded T_def buf_def]
  note F = cook_flow_does[OF assms(3,4), of c, folded T_def buf_def]
  note G = cook_signal_does[OF assms(3,4), of c, folded T_def buf_def]
  note S = cook_store_does[OF assms(3-5), of c, folded buf_def]
  have fl: "l_flag ICANON k s \<longleftrightarrow> c_lflag T AND ICANON \<noteq> 0" "i_flag IXON k s \<longleftrightarrow> c_iflag T AND IXON \<noteq> 0"
    "l_flag ISIG k s \<longleftrightarrow> c_lflag T AND ISIG \<noteq> 0" by (simp_all add: l_flag_def i_flag_def T_def)
  show ?thesis
    using E F G S fin unfolding cook_rest_def fl by (auto split: if_splits)
qed

lemma cook_char_does:
  assumes "able s" "line_ok k s" "\<not> FULL (tty_queues s (secondary s k))" "c_iflag (tty_termios s k) AND IUCLC = 0"
  shows "does (cook_char wr k c s) () s (edit (tty_termios s k) c (chars (tty_queues s (secondary s k))))"
proof -
  have i: "cook_cr c k s = input_cr (tty_termios s k) c" by (simp add: cook_cr_def input_cr_def i_flag_def)
  show ?thesis
  proof (cases "input_cr (tty_termios s k) c")
    case None
    then show ?thesis using does_refl[OF assms(1,2)] by (simp add: cook_char_def i edit_def)
  next
    case (Some d)
    have "cook_char wr k c s = cook_rest wr k d s" using assms(4) Some by (simp add: cook_char_def i i_flag_def)
    then show ?thesis using cook_rest_does[OF assms(1-3), of d] Some by (simp only: edit_def option.case)
  qed
qed

text \<open>An editor never makes the line longer than what has been typed.\<close>

lemma length_edit: "length (edit t c buf) \<le> length buf + 1"
proof -
  have "length (erase_line t buf) \<le> length buf" by (simp add: erase_line_def) (metis length_dropWhile_le length_rev)
  moreover have "length (erase_last t buf) \<le> length buf" by (simp add: erase_last_def)
  ultimately show ?thesis by (auto simp: edit_def split: option.splits)
qed

lemma cook_loop_edits:
  assumes "able s" "line_ok k s" "c_iflag (tty_termios s k) AND IUCLC = 0"
    "length (chars (tty_queues s (secondary s k))) + length (chars (tty_queues s (read_q s k))) \<le> 1023"
  shows "\<exists>t. cook_loop wr k s = Done () t \<and> read_q t k = read_q s k \<and> secondary t k = secondary s k \<and>
    chars (tty_queues t (read_q s k)) = [] \<and>
    chars (tty_queues t (secondary s k)) =
      fold (edit (tty_termios s k)) (chars (tty_queues s (read_q s k))) (chars (tty_queues s (secondary s k))) \<and>
    q_proc_list (tty_queues t (secondary s k)) = q_proc_list (tty_queues s (secondary s k))"
  using assms
proof (induction "chars (tty_queues s (read_q s k))" arbitrary: s)
  case Nil
  then have "EMPTY (tty_queues s (read_q s k))" using EMPTY_chars[of "tty_queues s (read_q s k)"] by (simp add: line_ok_def)
  then have "cook_loop wr k s = Done () s" by (simp add: cook_loop_def loop_unfold)
  then show ?case using Nil.hyps by simp
next
  case (Cons c inp)
  let ?r = "tty_queues s (read_q s k)" and ?q = "tty_queues s (secondary s k)"
  have ok: "queue_ok ?r" "queue_ok ?q" "read_q s k \<noteq> secondary s k" using Cons.prems(2) by (simp_all add: line_ok_def)
  have ne: "\<not> EMPTY ?r" using EMPTY_chars[OF ok(1)] Cons.hyps(2) by auto
  have nf: "\<not> FULL ?q" using FULL_CHARS[OF ok(2)] Cons.prems(4) Cons.hyps(2)[symmetric] by simp
  define a where "a = upd_queue (read_q s k) take_char s"
  have rc: "chars ?r = next_char ?r # chars (take_char ?r)" by (rule chars_take_char[OF ok(1) ne])
  then have c: "next_char ?r = c" "chars (take_char ?r) = inp" using Cons.hyps(2) by simp_all
  have a: "able a" "line_ok k a" "\<not> FULL (tty_queues a (secondary a k))" "tty_termios a k = tty_termios s k"
    "read_q a k = read_q s k" "secondary a k = secondary s k" "tty_queues a (secondary s k) = ?q"
    "chars (tty_queues a (read_q s k)) = inp"
    using Cons.prems(1,2) able_queue nf ok c by (simp_all add: a_def line_ok_def upd_queue_def)
  obtain b where b: "cook_char wr k c a = Done () b" "able b"
      "line_is k (edit (tty_termios s k) c (chars ?q)) a b"
    using cook_char_does[OF a(1-3), of c] Cons.prems(3) a(4,6,7) unfolding does_def by auto
  have bb: "line_ok k b" "tty_termios b k = tty_termios s k" "read_q b k = read_q s k" "secondary b k = secondary s k"
    "chars (tty_queues b (secondary s k)) = edit (tty_termios s k) c (chars ?q)"
    "chars (tty_queues b (read_q s k)) = inp"
    "q_proc_list (tty_queues b (secondary s k)) = q_proc_list ?q"
    using b(3) a(4-8) by (simp_all add: line_is_def)
  have len: "length (edit (tty_termios s k) c (chars ?q)) + length inp \<le> 1023"
    using length_edit[of "tty_termios s k" c "chars ?q"] Cons.prems(4) Cons.hyps(2)[symmetric] by simp
  obtain t where t: "cook_loop wr k b = Done () t" "read_q t k = read_q b k" "secondary t k = secondary b k"
      "chars (tty_queues t (read_q b k)) = []"
      "chars (tty_queues t (secondary b k)) =
        fold (edit (tty_termios b k)) (chars (tty_queues b (read_q b k))) (chars (tty_queues b (secondary b k)))"
      "q_proc_list (tty_queues t (secondary b k)) = q_proc_list (tty_queues b (secondary b k))"
    using Cons.hyps(1)[of b] b(2) bb len Cons.prems(3) by auto
  have g: "GETCH (read_q s k) s = (c, a)" by (simp add: GETCH_def c(1) a_def)
  have "cook_loop wr k s = cook_loop wr k b"
    unfolding cook_loop_def by (subst loop_unfold) (simp add: ne nf g b(1))
  then show ?case using t bb Cons.hyps(2)[symmetric] by simp
qed

lemma copy_to_cooked_edits:
  assumes "able s" "line_ok k s" "c_iflag (tty_termios s k) AND IUCLC = 0"
    "length (chars (tty_queues s (secondary s k))) + length (chars (tty_queues s (read_q s k))) \<le> 1023"
  shows "\<exists>t. copy_to_cooked_with wr k s = Done () t \<and> chars (tty_queues t (read_q s k)) = [] \<and>
    chars (tty_queues t (secondary s k)) =
      fold (edit (tty_termios s k)) (chars (tty_queues s (read_q s k))) (chars (tty_queues s (secondary s k))) \<and>
    (q_proc_list (tty_queues s (secondary s k)) \<noteq> 0 \<longrightarrow>
      state (ts t (q_proc_list (tty_queues s (secondary s k)))) = TASK_RUNNING)"
proof -
  have n: "\<not> no_queues k s" using assms(2) by (auto simp: no_queues_def line_ok_def)
  obtain t where t: "cook_loop wr k s = Done () t" "secondary t k = secondary s k" "chars (tty_queues t (read_q s k)) = []"
      "chars (tty_queues t (secondary s k)) =
        fold (edit (tty_termios s k)) (chars (tty_queues s (read_q s k))) (chars (tty_queues s (secondary s k)))"
      "q_proc_list (tty_queues t (secondary s k)) = q_proc_list (tty_queues s (secondary s k))"
    using cook_loop_edits[OF assms] by blast
  have "tty_queues (wake_up p t) = tty_queues t" for p by (simp add: wake_up_def upd_task_def)
  then show ?thesis using n t by (simp add: copy_to_cooked_with_def) (simp add: wake_up_def)
qed

end

text \<open>Serial lines provide the contract.\<close>

lemma rs_write_same_input: "\<exists>t. rs_write e k s = Done () t \<and> same_input k s t"
  by (simp add: rs_write_def Let_def same_input_def outb_def)

interpretation serial: line_writer "write_tty e (Suc n)" k "\<lambda>s. t_write (tty_lines s k) = Rs_Write" for e n k
proof unfold_locales
  fix s :: tty_state
  assume "t_write (tty_lines s k) = Rs_Write"
  then show "\<exists>t. write_tty e (Suc n) k s = Done () t \<and> same_input k s t" using rs_write_same_input by simp
qed (simp_all add: same_input_def upd_queue_def)

end
