(* ===== verification/Tty_Claims.thy ===== *)
theory Tty_Claims
  imports Tty_Props
begin

section \<open>Properties of terminals and consoles\<close>

unbundle bit_operations_syntax

subsection \<open>The console through the whole output path\<close>

text \<open>
  Output to a console can answer a query of the terminal type, which puts characters into the console's own read
  queue and runs the line discipline on it, which echoes to the console. What holds of every write therefore has to
  be kept by the line discipline too: \<open>R\<close> is kept by a piece of code run in the state \<open>s\<close>.
\<close>

definition okm :: "(tty_state \<Rightarrow> tty_state \<Rightarrow> bool) \<Rightarrow> tty_state \<Rightarrow> 'a tty_out \<Rightarrow> bool" where
  "okm R s m \<longleftrightarrow> (\<forall>x t. m = Done x t \<longrightarrow> R s t)"

lemma okm_Done: "R s t \<Longrightarrow> okm R s (Done x t)"
  by (simp add: okm_def)

lemma okm_other: "okm R s (Undefined m)" "okm R s (Panics m)"
  by (simp_all add: okm_def)

locale kept =
  fixes R :: "tty_state \<Rightarrow> tty_state \<Rightarrow> bool" and wr :: "nat \<Rightarrow> tty_state \<Rightarrow> unit tty_out" and k :: nat
  assumes R_refl: "R s s" and R_trans: "R s t \<Longrightarrow> R t u \<Longrightarrow> R s u"
    and queue: "R s (upd_queue q f s)" and stop: "R s (upd_line k (\<lambda>t. t\<lparr>t_stopped := b\<rparr>) s)"
    and tasks: "only_tasks s t \<Longrightarrow> R s t" and wr_kept: "keeps R (wr k)"
begin

lemma okm_then: "okm R s m \<Longrightarrow> (\<And>x t. m = Done x t \<Longrightarrow> okm R t (f x t)) \<Longrightarrow> okm R s (and_then m f)"
  unfolding okm_def and_then_Done_iff using R_trans by blast

lemma okm_from: "R s t \<Longrightarrow> okm R t m \<Longrightarrow> okm R s m"
  unfolding okm_def using R_trans by blast

lemma okm_loop:
  assumes "\<And>v t. okm R t (f v t)"
  shows "okm R s (loop f v s)"
  unfolding okm_def
proof (intro allI impI)
  fix x t assume "loop f v s = Done x t"
  then show "R s t"
    by (rule loop_invariant[where P = "\<lambda>_ t. R s t" and Q = "\<lambda>_ t. R s t"])
      (use R_refl assms R_trans in \<open>auto simp: okm_def\<close>)
qed

lemma put: "R s (PUTCH c q s)"
  by (simp add: PUTCH_def queue)

lemma okm_write: "okm R s (wr k s)"
  using wr_kept by (simp add: keeps_def okm_def)

lemma okm_kill: "okm R s (kill_pg g sig priv s)"
  using kill_pg_only_tasks[of g sig priv s] tasks by (auto simp: okm_def)

lemma okm_if: "(b \<Longrightarrow> okm R s m) \<Longrightarrow> (\<not> b \<Longrightarrow> okm R s n) \<Longrightarrow> okm R s (if b then m else n)"
  by simp

lemma okm_echo_erase: "okm R s (echo_erase wr k c s)"
proof -
  define u where "u = (if sint c < 32 then PUTCH 127 (write_q s k) s else s)"
  have "R s u" by (simp add: u_def put R_refl)
  then have "okm R s (wr k (PUTCH 127 (write_q u k) u))" using okm_from[OF _ okm_from[OF put okm_write]] by blast
  then show ?thesis unfolding echo_erase_def Let_def u_def[symmetric] by (intro okm_if okm_Done R_refl)
qed

lemma okm_rub: "okm R s (and_then (echo_erase wr k c s) (\<lambda>_ s. Done x (upd_queue (secondary s k) f s)))"
  by (rule okm_then[OF okm_echo_erase]) (rule okm_Done, rule queue)

lemma okm_kill_line: "okm R s (kill_line wr k s)"
  unfolding kill_line_def by (rule okm_loop) (rule okm_if, rule okm_Done[OF R_refl], rule okm_rub)

lemma okm_after: "okm R s m \<Longrightarrow> okm R s (and_then m (\<lambda>_. Done x))"
  by (erule okm_then) (rule okm_Done[OF R_refl])

lemma okm_cook_edit: "okm R s (cook_edit wr k c s)"
  unfolding cook_edit_def by (simp add: okm_Done[OF R_refl] okm_after[OF okm_kill_line] okm_rub)

lemma okm_cook_flow: "okm R s (cook_flow wr k c s)"
  unfolding cook_flow_def by (simp add: okm_Done[OF R_refl] okm_after[OF okm_from[OF stop okm_write]])

lemma okm_cook_signal: "okm R s (cook_signal k c s)"
  unfolding cook_signal_def by (simp add: okm_Done[OF R_refl] okm_after[OF okm_kill])

lemma okm_cook_store: "okm R s (cook_store wr k c s)"
proof -
  have e: "R s (echo_char c k s)" for s
    unfolding echo_char_def by (simp add: put R_refl R_trans[OF put put])
  define a where "a = (if c = 10 \<or> is_cc c VEOF k s then upd_queue (secondary s k) (\<lambda>q. q\<lparr>q_data := q_data q + 1\<rparr>) s else s)"
  have a: "R s a" by (simp add: a_def queue R_refl)
  have "okm R a (if l_flag ECHO k a then wr k (echo_char c k a) else Done () a)"
    by (simp add: okm_Done[OF R_refl] okm_from[OF e okm_write])
  then have "okm R a (and_then (if l_flag ECHO k a then wr k (echo_char c k a) else Done () a)
      (\<lambda>_ s. Done () (PUTCH c (secondary s k) s)))"
    by (rule okm_then) (rule okm_Done, rule put)
  then show ?thesis unfolding cook_store_def a_def[symmetric] Let_def by (rule okm_from[OF a])
qed

lemma okm_cook_rest: "okm R s (cook_rest wr k c s)"
proof -
  have 1: "okm R s (and_then (cook_signal k c s) (\<lambda>fin s. if fin then Done () s else cook_store wr k c s))" for s
    by (rule okm_then[OF okm_cook_signal]) (rule okm_if, rule okm_Done[OF R_refl], rule okm_cook_store)
  have 2: "okm R s (and_then (cook_flow wr k c s) (\<lambda>fin s. if fin then Done () s else
      and_then (cook_signal k c s) (\<lambda>fin s. if fin then Done () s else cook_store wr k c s)))" for s
    by (rule okm_then[OF okm_cook_flow]) (rule okm_if, rule okm_Done[OF R_refl], rule 1)
  show ?thesis unfolding cook_rest_def
    by (rule okm_then[OF okm_cook_edit]) (rule okm_if, rule okm_Done[OF R_refl], rule 2)
qed

lemma okm_cook_char: "okm R s (cook_char wr k c s)"
proof (cases "cook_cr c k s")
  case None
  then show ?thesis by (simp add: cook_char_def okm_Done[OF R_refl])
next
  case (Some d)
  have "okm R s (if i_flag IUCLC k s then tolower d s else Done d s)"
    by (simp add: tolower_def okm_other okm_Done[OF R_refl])
  then have "okm R s (and_then (if i_flag IUCLC k s then tolower d s else Done d s) (\<lambda>c. cook_rest wr k c))"
    by (rule okm_then) (rule okm_cook_rest)
  then show ?thesis using Some by (simp add: cook_char_def)
qed

lemma copy_to_cooked_keeps: "keeps R (copy_to_cooked_with wr k)"
proof -
  have "okm R s (cook_loop wr k s)" for s
    unfolding cook_loop_def
  proof (rule okm_loop)
    fix v :: unit and t
    have "okm R t (and_then (cook_char wr k (next_char (tty_queues t (read_q t k))) (upd_queue (read_q t k) take_char t))
        (\<lambda>_. Done (Again () :: (unit, unit) turn)))"
      by (rule okm_after[OF okm_from[OF queue okm_cook_char]])
    then show "okm R t (if EMPTY (tty_queues t (read_q t k)) \<or> FULL (tty_queues t (secondary t k)) then Done (Leave ()) t
        else case GETCH (read_q t k) t of (c, s) \<Rightarrow> and_then (cook_char wr k c s) (\<lambda>_. Done (Again () :: (unit, unit) turn)))"
      by (simp add: GETCH_def okm_Done[OF R_refl])
  qed
  then have "okm R s (and_then (cook_loop wr k s) (\<lambda>_ s. Done () (wake_up (q_proc_list (tty_queues s (secondary s k))) s)))" for s
    by (rule okm_then) (rule okm_Done, rule tasks, simp add: wake_up_def only_tasks_upd only_tasks_refl)
  then have "okm R s (copy_to_cooked_with wr k s)" for s
    by (simp add: copy_to_cooked_with_def okm_Done[OF R_refl])
  then show ?thesis by (simp add: keeps_def okm_def)
qed

end

text \<open>A console step is such a relation, whatever number of calls can nest.\<close>

lemma con_step_only_tasks: "only_tasks s t \<Longrightarrow> con_step n s t"
  by (auto simp: only_tasks_def intro: con_step_same)

lemma outb_step: "con_step n s (outb b p s)"
  by (rule con_step_same) (simp_all add: outb_def)

lemma console_kept:
  assumes "keeps (con_step k) (write_tty e n k)"
  shows "kept (con_step k) (write_tty e n) k"
proof
  show "con_step k s s" for s by (rule con_step_refl)
  show "con_step k s u" if "con_step k s t" "con_step k t u" for s t u using that by (rule con_step_trans)
  show "con_step k s (upd_queue q f s)" for s q f by (rule con_step_same) (simp_all add: upd_queue_def)
  show "con_step k s (upd_line k (\<lambda>t. t\<lparr>t_stopped := b\<rparr>) s)" for s b
    by (rule con_step_same) (simp_all add: upd_line_def)
  show "con_step k s t" if "only_tasks s t" for s t using that by (rule con_step_only_tasks)
  show "keeps (con_step k) (write_tty e n k)" by (rule assms)
qed

lemma write_tty_keeps_console:
  assumes "k < MAX_CONSOLES"
  shows "keeps (con_step k) (write_tty e n k)"
proof (induction n)
  case 0
  then show ?case by (simp add: keeps_def)
next
  case (Suc n)
  note cook = kept.copy_to_cooked_keeps[OF console_kept[OF Suc]]
  show ?case
    using assms con_write_step[of k "copy_to_cooked_with (write_tty e n)", OF cook] outb_step con_step_refl
    by (auto simp: keeps_def rs_write_def mpty_write_def spty_write_def Let_def split: tty_writer.splits if_splits)
qed

text \<open>For every terminal number: there is nothing to keep for those that are no consoles.\<close>

definition console_step :: "nat \<Rightarrow> tty_state \<Rightarrow> tty_state \<Rightarrow> bool" where
  "console_step k s t \<longleftrightarrow> k < MAX_CONSOLES \<longrightarrow> con_step k s t"

interpretation console: kept "console_step k" "write_tty e n" k for e n k
proof (cases "k < MAX_CONSOLES")
  case True
  then have "console_step k = con_step k" by (simp add: console_step_def fun_eq_iff)
  then show "kept (console_step k) (write_tty e n) k"
    using console_kept[OF write_tty_keeps_console[OF True]] by simp
next
  case False
  then show "kept (console_step k) (write_tty e n) k"
    by unfold_locales (simp_all add: console_step_def keeps_def)
qed

lemma consoles_ok_step:
  assumes "con_step k s t" "k < NR_CONSOLES s" "consoles_ok s"
  shows "consoles_ok t" "\<forall>m. m \<noteq> k \<longrightarrow> vc m t = vc m s" "\<forall>a. a \<notin> own_vmem (vc k s) \<longrightarrow> vmem t a = vmem s a"
proof -
  have s: "con_ok (video t) (vc k t)" "video t = video s" "NR_CONSOLES t = NR_CONSOLES s" "own_vmem (vc k t) = own_vmem (vc k s)"
    "\<forall>m. m \<noteq> k \<longrightarrow> vc m t = vc m s" "\<forall>a. a \<notin> own_vmem (vc k s) \<longrightarrow> vmem t a = vmem s a"
    using assms unfolding con_step_def consoles_ok_def by blast+
  then have "own_vmem (vc m t) = own_vmem (vc m s)" for m by (cases "m = k") simp_all
  moreover have "con_ok (video t) (vc m t)" if "m < NR_CONSOLES s" for m
    using s(1,2,5) that assms(3) by (cases "m = k") (simp_all add: consoles_ok_def)
  ultimately show "consoles_ok t" using s(3) assms(3) by (simp add: consoles_ok_def)
  show "\<forall>m. m \<noteq> k \<longrightarrow> vc m t = vc m s" "\<forall>a. a \<notin> own_vmem (vc k s) \<longrightarrow> vmem t a = vmem s a" by (fact s(5,6))+
qed

text \<open>
  C32. Whatever is written to a virtual console - text, any sequence of escape codes, complete or not - the
  cursors of all consoles stay on their screens, every screen stays within the console's own part of video memory,
  nothing outside the part of the console written to changes, and no other console is touched. This holds for all
  the characters waiting in its write queue, and for the answers that the line discipline echoes on the way.
\<close>

theorem console_output_confined:
  assumes "consoles_ok s" "k < NR_CONSOLES s" "k < MAX_CONSOLES" "tty_out e k s = Done () t"
  shows "consoles_ok t \<and> (\<forall>m. m \<noteq> k \<longrightarrow> vc m t = vc m s) \<and>
    (\<forall>a. a \<notin> own_vmem (vc k s) \<longrightarrow> vmem t a = vmem s a)"
proof -
  have "con_step k s t"
    using console.wr_kept[of k e "te_nesting e"] assms(3,4)
    by (simp add: tty_out_def keeps_def console_step_def)
  then show ?thesis using consoles_ok_step assms(1,2) by blast
qed

text \<open>
  C35. Typing: the line discipline is a line editor. For a serial line (whose write routine only sets an interrupt
  mask) with three queues of its own and their indices in range, that does not map capitals to small letters (IUCLC is
  off) and has room in the secondary queue for all that is in the read queue, \<open>copy_to_cooked\<close> returns, has taken every
  character from the read queue, and has made of them what \<open>edit\<close> does to the line character by character: CR and NL are
  exchanged or CR is dropped as the input flags say; in canonical mode the erase character takes back the last
  character and the kill character the unfinished line, never a line already finished; the stop and start characters
  (with IXON) and the signal characters (with ISIG) leave no trace in the line; all others are appended. The reader is woken.
\<close>

theorem line_discipline_edits:
  assumes "t_write (tty_lines s k) = Rs_Write" "0 < te_nesting e" "line_ok k s"
    and "c_iflag (tty_termios s k) AND IUCLC = 0"
    and "length (chars (tty_queues s (secondary s k))) + length (chars (tty_queues s (read_q s k))) \<le> 1023"
  shows "\<exists>t. copy_to_cooked e k s = Done () t \<and> chars (tty_queues t (read_q s k)) = [] \<and>
    chars (tty_queues t (secondary s k)) =
      fold (edit (tty_termios s k)) (chars (tty_queues s (read_q s k))) (chars (tty_queues s (secondary s k))) \<and>
    (q_proc_list (tty_queues s (secondary s k)) \<noteq> 0 \<longrightarrow>
      state (ts t (q_proc_list (tty_queues s (secondary s k)))) = TASK_RUNNING)"
proof -
  obtain n where "te_nesting e = Suc n" using assms(2) by (cases "te_nesting e") auto
  then show ?thesis
    using serial.copy_to_cooked_edits[OF assms(1,3,4,5), of e n] by (simp add: copy_to_cooked_def tty_out_def)
qed

text \<open>An a, the erase character and a b, typed on the serial line, which erases with 127.\<close>

definition demo_typed :: tty_state where
  "demo_typed = upd_queue 25 (\<lambda>q. put_char 98 (put_char 127 (put_char 97 q)))
     (demo_tty\<lparr>tty_termios := \<lambda>_. \<lparr>c_iflag = 0, c_oflag = 0, c_cflag = 0, c_lflag = ICANON, c_line = 0,
        c_cc = (\<lambda>i. if i = VERASE then 127 else 0)\<rparr>\<rparr>)"

lemma chars_typed: "queue_ok (put_char 98 (put_char 127 (put_char 97 empty_queue)))"
  "chars (put_char 98 (put_char 127 (put_char 97 empty_queue))) = [97, 127, 98]"
  by (simp_all add: queue_ok_def empty_queue_def put_char_def INC_def chars_def CHARS_def upt_rec)

theorem line_discipline_edits_witness:
  "\<exists>t. copy_to_cooked demo_tty_env 64 demo_typed = Done () t \<and> chars (tty_queues t 25) = [] \<and> chars (tty_queues t 27) = [98]"
proof -
  have q: "tty_lines demo_typed 64 = demo_line 64" "tty_queues demo_typed 27 = empty_queue"
    "tty_queues demo_typed 25 = put_char 98 (put_char 127 (put_char 97 empty_queue))"
    "tty_termios demo_typed 64 = \<lparr>c_iflag = 0, c_oflag = 0, c_cflag = 0, c_lflag = ICANON, c_line = 0,
        c_cc = (\<lambda>i. if i = VERASE then 127 else 0)\<rparr>"
    by (simp_all add: demo_typed_def upd_queue_def)
  have "fold (edit (tty_termios demo_typed 64)) [97, 127, 98] [] = [98]"
    by (simp add: q edit_def input_cr_def ctl_def erase_last_def delim_def)
  then show ?thesis
    using line_discipline_edits[of demo_typed 64 demo_tty_env]
    by (auto simp: q demo_line_def line_ok_def demo_tty_env_def chars_typed simp del: length_chars)
qed

theorem console_output_confined_witness:
  "\<exists>t. tty_out demo_tty_env 0 (upd_queue 2 (put_char 65) demo_tty) = Done () t \<and> consoles_ok t"
proof -
  let ?s = "upd_queue 2 (put_char 65) demo_tty"
  have q: "chars (put_char 65 empty_queue) = [65]"
    by (subst chars_put_char) (simp_all add: FULL_CHARS, simp add: empty_queue_def CHARS_def)
  then have "unat (CHARS (tty_queues ?s 2)) = Suc 0" using length_chars[of "tty_queues ?s 2"] by (simp add: upd_queue_def)
  moreover have "next_char (put_char 65 empty_queue) = 65" by (simp add: next_char_def put_char_def empty_queue_def)
  ultimately have "\<exists>t. tty_out demo_tty_env 0 ?s = Done () t"
    by (simp add: tty_out_def demo_tty_env_def numeral_3_eq_3 demo_line_def con_write_with_def GETCH_def upd_queue_def
        con_char_def vc_def demo_vc_def Let_def)
  moreover have "consoles_ok ?s"
    by (simp add: consoles_ok_def con_ok_def vc_def demo_vc_def demo_video_def upd_queue_def)
  ultimately show ?thesis
    using console_output_confined[of ?s 0 demo_tty_env] by (auto simp: upd_queue_def)
qed

end
