(* ===== verification/Console_Text.thy ===== *)
theory Console_Text
  imports Tty_Claims
begin

section \<open>Output to the console comes to its end\<close>

text \<open>
  Apart from the answer to \<^verbatim>\<open>ESC Z\<close>, a character changes no queue and no terminal, and the automaton of the escape
  sequences is in \<open>ESesc\<close> only right after an ESC. So \<open>con_write\<close> writes all that waits in the queue.
\<close>

unbundle bit_operations_syntax

definition quiet :: "nat \<Rightarrow> tty_state \<Rightarrow> tty_state \<Rightarrow> bool" where
  "quiet n s t \<longleftrightarrow> tty_queues t = tty_queues s \<and> tty_lines t = tty_lines s \<and> vc_state (vc n t) = vc_state (vc n s)"

lemma quiet_refl [simp]: "quiet n s s"
  by (simp add: quiet_def)

lemma quiet_trans: "quiet n s t \<Longrightarrow> quiet n t u \<Longrightarrow> quiet n s u"
  by (simp add: quiet_def)

lemma quiet_upd [simp]:
  "quiet n s (upd_vmem g t) \<longleftrightarrow> quiet n s t"
  "quiet n s (outb v p t) \<longleftrightarrow> quiet n s t"
  "quiet n s (set_video r a t) \<longleftrightarrow> quiet n s t"
  "quiet n s (erase k a n t) \<longleftrightarrow> quiet n s t"
  "quiet n s (set_origin n t) \<longleftrightarrow> quiet n s t"
  by (simp_all add: quiet_def upd_vmem_def outb_def vc_def set_video_def Let_def erase_def set_origin_def)

lemma quiet_upd_vc: "(\<And>v. vc_state (f v) = vc_state v) \<Longrightarrow> quiet n s (upd_vc n f t) \<longleftrightarrow> quiet n s t"
  by (simp add: quiet_def upd_vc_def vc_def)

lemma quiet_scrup: "quiet n s (scrup n s)"
  by (simp add: scrup_def scroll_hardware_def scroll_region_def Let_def quiet_upd_vc)

lemma quiet_scrdown: "quiet n s (scrdown n s)"
  by (simp add: scrdown_def Let_def)

lemma quiet_lf: "quiet n s (lf n s)"
  by (simp add: lf_def quiet_upd_vc quiet_scrup)

lemma quiet_ri: "quiet n s (ri n s)"
  by (simp add: ri_def quiet_upd_vc quiet_scrdown)

lemma quiet_cursor:
  "quiet n s (cr n s)" "quiet n s (del n s)" "quiet n s (gotoxy n x y s)" "quiet n s (save_cur n s)"
  "quiet n s (restore_cur n s)" "quiet n s (par_index i n s)" "quiet n s (par_count n s)"
  by (simp_all add: cr_def del_def gotoxy_def save_cur_def restore_cur_def par_index_def par_count_def Let_def quiet_upd_vc)

lemma quiet_erase: "quiet n s (csi_J n p s)" "quiet n s (csi_K n p s)"
  by (simp_all add: csi_J_def csi_K_def Let_def)

lemma vc_state_csi_m: "vc_state (fold (\<lambda>i v. csi_m_step b v (vc_par v i)) is v) = vc_state v"
  by (induction "is" arbitrary: v) (simp_all add: csi_m_step_def Let_def)

lemma quiet_csi_m: "quiet n s (csi_m n s)"
  unfolding csi_m_def by (subst quiet_upd_vc) (simp_all only: vc_state_csi_m quiet_refl)

lemma quiet_power:
  assumes "\<And>s. quiet n s (f s)"
  shows "quiet n s ((f ^^ k) s)"
proof (induction k)
  case (Suc k)
  then show ?case using quiet_trans[OF Suc assms] by simp
qed simp

lemma quiet_window:
  assumes "\<And>s. quiet n s (f n s)"
  shows "quiet n s (with_window f n s)"
proof -
  have "quiet n s (upd_vc n (\<lambda>v. v\<lparr>vc_top := vc_y v, vc_bottom := rows s\<rparr>) s)" by (simp add: quiet_upd_vc)
  from quiet_trans[OF this assms] show ?thesis by (simp add: with_window_def Let_def quiet_upd_vc)
qed

lemma quiet_counted: "quiet n s (csi_at n p s)" "quiet n s (csi_L n p s)" "quiet n s (csi_P n p s)" "quiet n s (csi_M n p s)"
  unfolding csi_at_def csi_L_def csi_P_def csi_M_def
  by (rule quiet_power; simp add: insert_char_def delete_char_def insert_line_def delete_line_def Let_def
      quiet_window quiet_scrup quiet_scrdown)+

lemma quiet_csi_move: "csi_move n c s = Some t \<Longrightarrow> quiet n s t"
  by (auto simp: csi_move_def Let_def quiet_cursor intro: quiet_trans[OF quiet_cursor(6) quiet_cursor(3)]
      quiet_trans[OF quiet_cursor(7) quiet_cursor(3)] quiet_trans[OF quiet_cursor(6) quiet_trans[OF quiet_cursor(6) quiet_cursor(3)]]
      split: if_splits)

lemma quiet_region: "quiet n s (csi_region n s)"
  by (simp add: csi_region_def Let_def quiet_upd_vc quiet_cursor)

lemma quiet_guarded: "quiet n s (csi_guarded n c s)"
  by (simp add: csi_guarded_def Let_def quiet_upd_vc) (simp add: quiet_def vc_def)

lemma quiet_csi_edit: "quiet n s (csi_edit n c s)"
  by (simp add: csi_edit_def quiet_erase quiet_counted quiet_csi_m quiet_region quiet_cursor quiet_guarded)

lemma quiet_show: "quiet n s (wrap_line n s)" "quiet n s (show_char c n s)"
proof -
  have w: "quiet n s (wrap_line n s)" for s
    unfolding wrap_line_def by (rule quiet_trans[OF _ quiet_lf]) (simp add: quiet_upd_vc)
  show "quiet n s (wrap_line n s)" by (rule w)
  show "quiet n s (show_char c n s)" by (simp add: show_char_def Let_def quiet_upd_vc w)
qed

lemma quiet_sysbeep: "quiet n s (sysbeep e s)"
  by (simp add: sysbeep_def Let_def) (simp add: quiet_def outb_def vc_def)

text \<open>What the automaton does: \<open>calm\<close> for the steps after which it waits for no answer.\<close>

definition calm :: "nat \<Rightarrow> u8 \<Rightarrow> tty_state \<Rightarrow> tty_state \<Rightarrow> bool" where
  "calm n c s t \<longleftrightarrow> tty_queues t = tty_queues s \<and> tty_lines t = tty_lines s \<and> (vc_state (vc n t) = ESesc \<longrightarrow> c = 27)"

lemma calm_quiet: "quiet n s t \<Longrightarrow> vc_state (vc n s) \<noteq> ESesc \<Longrightarrow> calm n c s t"
  by (simp add: calm_def quiet_def)

lemma calm_from: "calm n c t u \<Longrightarrow> tty_queues t = tty_queues s \<Longrightarrow> tty_lines t = tty_lines s \<Longrightarrow> calm n c s u"
  by (simp add: calm_def)

lemma set_state_sel [simp]:
  "tty_queues (set_state q n s) = tty_queues s" "tty_lines (set_state q n s) = tty_lines s"
  "vc_state (vc n (set_state q n s)) = q"
  by (simp_all add: set_state_def upd_vc_def vc_def)

lemma calm_set_state: "q \<noteq> ESesc \<Longrightarrow> calm n c s (set_state q n s)"
  by (simp add: calm_def)

lemma calm_normal:
  assumes "vc_state (vc n s) = ESnormal"
  shows "calm n c s (con_normal e n c s)"
proof (cases "c = 27")
  case True
  then show ?thesis by (simp add: con_normal_def calm_def upd_vc_def vc_def)
next
  case False
  define u where "u = upd_vc n (\<lambda>v. v\<lparr>vc_x := vc_x v + (8 - (vc_x (vc n s) AND 7)),
    vc_pos := vc_pos v + push_bit 1 (8 - (vc_x (vc n s) AND 7))\<rparr>) s"
  have "quiet n s u" by (simp add: u_def quiet_upd_vc)
  then have t: "quiet n s (if vc_x (vc n u) > columns u then wrap_line n u else u)"
    using quiet_trans[OF _ quiet_show(1)] by simp
  have "quiet n s (con_normal e n c s)"
    unfolding con_normal_def Let_def u_def[symmetric] using False t
    by (simp add: quiet_show quiet_lf quiet_cursor quiet_sysbeep quiet_upd_vc)
  then show ?thesis using assms by (simp add: calm_quiet)
qed

lemma calm_after_state:
  assumes "q \<noteq> ESesc" "quiet n (set_state q n s) t"
  shows "calm n c s t"
  using assms by (simp add: calm_def quiet_def)

lemma calm_gotpars: "calm n c s (con_gotpars n c s)"
proof -
  have "quiet n u (case csi_move n c u of Some t \<Rightarrow> t | None \<Rightarrow> csi_edit n c u)" for u
    using quiet_csi_move by (simp add: quiet_csi_edit split: option.split)
  then show ?thesis
    by (intro calm_after_state[of ESnormal]) (simp_all add: con_gotpars_def Let_def quiet_upd_vc)
qed

lemma calm_getpars: "vc_state (vc n s) \<noteq> ESesc \<Longrightarrow> calm n c s (con_getpars n c s)"
  by (simp add: con_getpars_def calm_quiet quiet_upd_vc calm_from[OF calm_gotpars])

lemma calm_square: "calm n c s (con_square n c s)"
proof -
  let ?u = "upd_vc n (\<lambda>v. v\<lparr>vc_par := (\<lambda>i. if i < 16 then 0 else vc_par v i), vc_npar := 0, vc_state := ESgetpars\<rparr>) s"
  let ?v = "upd_vc n (\<lambda>v. v\<lparr>vc_ques := (c = 0x3f)\<rparr>) ?u"
  have u: "tty_queues ?u = tty_queues s" "tty_lines ?u = tty_lines s" "vc_state (vc n ?u) = ESgetpars"
    "tty_queues ?v = tty_queues s" "tty_lines ?v = tty_lines s" "vc_state (vc n ?v) = ESgetpars"
    by (simp_all add: upd_vc_def vc_def)
  have "calm n c s (set_state ESfunckey n ?u)" "calm n c s ?v" "calm n c s (con_getpars n c ?v)"
    using calm_from[OF calm_getpars[of n ?v c]] u by (simp_all add: calm_def)
  then show ?thesis unfolding con_square_def Let_def by presburger
qed

lemma calm_set: "calm n c s (con_setterm n c s)" "calm n c s (con_setgraph n c s)"
  by (rule calm_after_state[of ESnormal]; simp add: con_setterm_def con_setgraph_def Let_def quiet_upd_vc)+

lemma calm_esc:
  assumes "c \<noteq> 0x5a"
  shows "\<exists>t. con_esc cook n c s = Done () t \<and> calm n c s t"
proof -
  have r: "calm n c s (reset_terminal n (set_state ESnormal n s))" for c
    by (simp add: calm_def reset_terminal_def upd_vc_def vc_def set_state_def)
  have "calm n c s (set_state q n (set_state ESnormal n s))" if "q \<noteq> ESesc" for q c
    using that by (simp add: calm_def)
  moreover note after = calm_after_state[of ESnormal n s, OF _ quiet_cursor(3)] calm_after_state[of ESnormal n s, OF _ quiet_ri]
    calm_after_state[of ESnormal n s, OF _ quiet_lf] calm_after_state[of ESnormal n s, OF _ quiet_cursor(4)]
    calm_after_state[of ESnormal n s, OF _ quiet_cursor(5)]
  ultimately show ?thesis
    using assms r unfolding con_esc_def Let_def by (simp add: calm_set_state)
qed

lemma calm_char:
  assumes "vc_state (vc n s) = ESesc \<longrightarrow> c \<noteq> 0x5a"
  shows "\<exists>t. con_char e cook n c s = Done () t \<and> calm n c s t"
proof -
  define u where "u = (if c = 24 \<or> c = 26 then set_state ESnormal n s else s)"
  have u: "tty_queues u = tty_queues s" "tty_lines u = tty_lines s" "vc_state (vc n u) = ESesc \<longrightarrow> c \<noteq> 0x5a"
    using assms by (simp_all add: u_def)
  have "\<exists>t. con_char e cook n c s = Done () t \<and> calm n c u t"
    unfolding con_char_def u_def[symmetric] Let_def
    using u(3) calm_esc[of c cook n u]
    by (cases "vc_state (vc n u)") (simp_all add: calm_normal calm_square calm_getpars calm_gotpars calm_set_state calm_set)
  then show ?thesis using calm_from u(1,2) by blast
qed

subsection \<open>The whole queue\<close>

text \<open>No ESC is followed by a Z; \<open>esc\<close> tells whether the last character before the list was an ESC.\<close>

fun no_query :: "bool \<Rightarrow> u8 list \<Rightarrow> bool" where
  "no_query esc [] \<longleftrightarrow> True"
| "no_query esc (c # cs) \<longleftrightarrow> \<not> (esc \<and> c = 0x5a) \<and> no_query (c = 27) cs"

lemma no_query_weaken: "no_query b cs \<Longrightarrow> (b' \<Longrightarrow> b) \<Longrightarrow> no_query b' cs"
  by (cases cs) auto

lemma con_chars_all:
  assumes "queue_ok (tty_queues s (write_q s k))" "\<not> t_stopped (tty_lines s k)"
    and "length (chars (tty_queues s (write_q s k))) = nr"
    and "no_query (vc_state (vc k s) = ESesc) (chars (tty_queues s (write_q s k)))"
  shows "\<exists>t. con_chars e cook k nr s = Done () t \<and> chars (tty_queues t (write_q s k)) = [] \<and>
    (\<forall>q. q \<noteq> write_q s k \<longrightarrow> tty_queues t q = tty_queues s q)"
  using assms
proof (induction nr arbitrary: s)
  case 0
  then show ?case by (simp del: length_chars)
next
  case (Suc nr)
  let ?q = "tty_queues s (write_q s k)"
  let ?c = "next_char ?q"
  let ?u = "upd_queue (write_q s k) take_char s"
  have "\<not> EMPTY ?q" using Suc.prems(1,3) EMPTY_chars by fastforce
  then have cs: "chars ?q = ?c # chars (take_char ?q)" using Suc.prems(1) chars_take_char by blast
  have u: "vc k ?u = vc k s" "tty_lines ?u = tty_lines s" "tty_queues ?u = (tty_queues s)(write_q s k := take_char ?q)"
    by (simp_all add: upd_queue_def vc_def)
  have nq: "vc_state (vc k ?u) = ESesc \<longrightarrow> ?c \<noteq> 0x5a" "no_query (?c = 27) (chars (take_char ?q))"
    using Suc.prems(4) unfolding cs u(1) no_query.simps by blast+
  then obtain t where t: "con_char e cook k ?c ?u = Done () t" "calm k ?c ?u t" using calm_char by blast
  then have l: "tty_lines t = tty_lines s" "tty_queues t = (tty_queues s)(write_q s k := take_char ?q)"
    "vc_state (vc k t) = ESesc \<longrightarrow> ?c = 27"
    using u by (simp_all add: calm_def)
  have "\<exists>v. con_chars e cook k nr t = Done () v \<and> chars (tty_queues v (write_q t k)) = [] \<and>
    (\<forall>q. q \<noteq> write_q t k \<longrightarrow> tty_queues v q = tty_queues t q)"
  proof (rule Suc.IH)
    show "queue_ok (tty_queues t (write_q t k))" using Suc.prems(1) by (simp add: l)
    show "\<not> t_stopped (tty_lines t k)" using Suc.prems(2) by (simp add: l)
    have "Suc (length (chars (take_char ?q))) = Suc nr" using Suc.prems(3) unfolding cs by simp
    then show "length (chars (tty_queues t (write_q t k))) = nr" by (simp add: l)
    show "no_query (vc_state (vc k t) = ESesc) (chars (tty_queues t (write_q t k)))"
      using no_query_weaken[OF nq(2)] l by simp
  qed
  then obtain v where v: "con_chars e cook k nr t = Done () v" "chars (tty_queues v (write_q s k)) = []"
    "\<forall>q. q \<noteq> write_q s k \<longrightarrow> tty_queues v q = tty_queues s q"
    using l by auto
  have "con_chars e cook k (Suc nr) s = con_chars e cook k nr t"
    using Suc.prems(2) t(1) by (simp add: GETCH_def)
  then show ?case using v by metis
qed

text \<open>
  C33. Output to a virtual console ends: a write to a console that is not stopped returns with its write queue empty
  and all other queues as they were, whatever text and escape sequences the queue holds, complete or not, as long as
  it does not ask for the terminal type (ESC Z), which would run the line discipline.
\<close>

theorem console_output_ends:
  assumes "k < MAX_CONSOLES" "t_write (tty_lines s k) = Con_Write" "\<not> t_stopped (tty_lines s k)" "0 < te_nesting e"
    and "queue_ok (tty_queues s (write_q s k))"
    and "no_query (vc_state (vc k s) = ESesc) (chars (tty_queues s (write_q s k)))"
  shows "\<exists>t. tty_out e k s = Done () t \<and> chars (tty_queues t (write_q s k)) = [] \<and>
    (\<forall>q. q \<noteq> write_q s k \<longrightarrow> tty_queues t q = tty_queues s q)"
proof -
  obtain n where n: "te_nesting e = Suc n" using assms(4) by (cases "te_nesting e") auto
  obtain t where t: "con_chars e (copy_to_cooked_with (write_tty e n)) k (unat (CHARS (tty_queues s (write_q s k)))) s = Done () t"
    "chars (tty_queues t (write_q s k)) = []" "\<forall>q. q \<noteq> write_q s k \<longrightarrow> tty_queues t q = tty_queues s q"
    using con_chars_all[OF assms(5,3) length_chars assms(6)] by blast
  have "tty_queues (set_cursor k t) = tty_queues t"
    by (simp add: set_cursor_def set_video_def outb_def Let_def)
  then show ?thesis using t assms(1,2) n by (simp add: tty_out_def con_write_with_def)
qed

theorem console_output_ends_witness:
  "\<exists>t. tty_out demo_tty_env 0 (upd_queue 2 (put_char 65) demo_tty) = Done () t \<and> chars (tty_queues t 2) = []"
proof -
  let ?s = "upd_queue 2 (put_char 65) demo_tty"
  have "chars (put_char 65 empty_queue) = [65]" by (subst chars_put_char) (simp_all add: FULL_CHARS, simp add: empty_queue_def CHARS_def)
  then show ?thesis
    using console_output_ends[of 0 ?s demo_tty_env]
    by (auto simp: upd_queue_def demo_line_def demo_tty_env_def vc_def demo_vc_def)
qed

end
