(* ===== verification/Page_Faults.thy ===== *)
theory Page_Faults
  imports Files Memory_Props
begin

section \<open>Page faults\<close>

text \<open>
  The rest of \<^verbatim>\<open>mm/memory.c\<close>, which looks at tasks and files: the page fault handlers \<open>do_wp_page\<close> and \<open>do_no_page\<close>,
  and sharing a page with another task that runs the same file. Addresses are linear addresses, except the
  argument of \<open>try_to_share\<close> and \<open>share_page\<close>, which counts from the start of the data space of a task.
\<close>

unbundle bit_operations_syntax

subsection \<open>Writing to a read-only page\<close>

definition do_wp_page :: "u32 \<Rightarrow> 'a kstate_scheme \<Rightarrow> ('a kstate_scheme, unit) outcome" where
  "do_wp_page address s =
    (if address - start_code (cur s) > TASK_SIZE then Exits (int SIGSEGV) s
     else un_wp_page (pte_offset address + frame (pmem s (pde_addr address))) s)"

subsection \<open>Sharing a page\<close>

text \<open>The entry of the page directory for an address of the data space of a task.\<close>

definition task_dir :: "u32 \<Rightarrow> task_struct \<Rightarrow> u32" where
  "task_dir address t = pde_addr address + pde_addr (start_code t)"

definition try_to_share :: "u32 \<Rightarrow> u32 \<Rightarrow> 'a kstate_scheme \<Rightarrow> ('a kstate_scheme, bool) outcome" where
  "try_to_share address p s =
    (let from = pmem s (task_dir address (ts s p)); from_page = frame from + pte_offset address;
         entry = pmem s from_page; phys_addr = frame entry; to_dir = task_dir address (cur s) in
     if \<not> bit from 0 then Done False s
     else if entry AND 0x41 \<noteq> 1 then Done False s
     else if phys_addr \<ge> HIGH_MEMORY s \<or> phys_addr < LOW_MEM then Done False s
     else
       and_then
         (if bit (pmem s to_dir) 0 then Done (pmem s to_dir) s
          else and_then (get_free_page s) (\<lambda>to s.
            if to = 0 then oom s else Done to (write_long to_dir (to OR 7) s)))
         (\<lambda>to s.
           let to_page = frame to + pte_offset address in
           if bit (pmem s to_page) 0 then Panics ''try_to_share: to_page already exists''
           else
             let s = write_long from_page (pmem s from_page AND NOT 2) s;
                 s = write_long to_page (pmem s from_page) s;
                 i = MAP_NR phys_addr
             in Done True (s\<lparr>mem_map := (mem_map s)(i := mem_map s i + 1)\<rparr>)))"

text \<open>All slots from the last one down to slot 1, until a task has been found to share with.\<close>

definition share_page :: "u32 \<Rightarrow> u32 \<Rightarrow> 'a kstate_scheme \<Rightarrow> ('a kstate_scheme, bool) outcome" where
  "share_page inode address s =
    (if i_count s inode < 2 \<or> inode = 0 then Done False s
     else
       fold_outcome (\<lambda>i shared s.
         let p = task s ! i in
         if shared then Done True s
         else if p = 0 \<or> p = current s then Done False s
         else if inode \<noteq> (if address < LIBRARY_OFFSET then executable (ts s p) else library (ts s p)) then Done False s
         else try_to_share address p s) slot_order False s)"

subsection \<open>A page that is not there\<close>

text \<open>The file a page comes from and the block of it, behind the header; no file for the rest of the data space.\<close>

definition fault_file :: "u32 \<Rightarrow> task_struct \<Rightarrow> u32 \<times> u32" where
  "fault_file tmp t =
    (if tmp \<ge> LIBRARY_OFFSET then (library t, 1 + (tmp - LIBRARY_OFFSET) div 1024)
     else if tmp < end_data t then (executable t, 1 + tmp div 1024)
     else (0, 0))"

definition fault_blocks :: "fs_env \<Rightarrow> u32 \<Rightarrow> u32 \<Rightarrow> fs_state \<Rightarrow> (nat \<Rightarrow> u32) fs_out" where
  "fault_blocks e inode block s =
    fold_outcome (\<lambda>i nr s. and_then (bmap e inode (block + of_nat i) s) (\<lambda>b. Done (nr(i := of_int b)))) [0..<4] (\<lambda>_. 0) s"

text \<open>How many bytes at the end of the page lie behind the data of the file, and their clearing.\<close>

definition tail_bytes :: "u32 \<Rightarrow> u32 \<Rightarrow> nat" where
  "tail_bytes tmp data_end =
    (let i = sint (tmp + 4096 - data_end) in if i > 4095 then 0 else nat i)"

definition clear_tail :: "u32 \<Rightarrow> nat \<Rightarrow> 'a mm_state_scheme \<Rightarrow> 'a mm_state_scheme" where
  "clear_tail page n s = fold (\<lambda>k. store_byte (page + 4095 - of_nat k) 0) [0..<n] s"

definition load_page :: "fs_env \<Rightarrow> u32 \<Rightarrow> u32 \<Rightarrow> u32 \<Rightarrow> u32 \<Rightarrow> fs_state \<Rightarrow> unit fs_out" where
  "load_page e inode block tmp address s =
    and_then (get_free_page s) (\<lambda>page s.
      if page = 0 then oom s
      else
        and_then (fault_blocks e inode block s) (\<lambda>nr s.
        and_then (bread_page e page (ucast (i_dev (inode_table s inode))) nr s) (\<lambda>_ s.
        and_then (put_page page address (clear_tail page (tail_bytes tmp (end_data (cur s))) s)) (\<lambda>put s.
          if put \<noteq> 0 then Done () s
          else and_then (free_page page s) (\<lambda>_ s. oom s)))))"

definition do_no_page :: "fs_env \<Rightarrow> u32 \<Rightarrow> fs_state \<Rightarrow> unit fs_out" where
  "do_no_page e address s =
    (if address - start_code (cur s) > TASK_SIZE then Exits (int SIGSEGV) s
     else
       let page = pmem s (pde_addr address); pte = frame page + pte_offset address in
       if bit page 0 \<and> pmem s pte \<noteq> 0 \<and> \<not> bit (pmem s pte) 0 then swap_in pte s
       else
         let address = frame address; tmp = address - start_code (cur s) in
         case fault_file tmp (cur s) of
           (inode, block) \<Rightarrow>
             if inode = 0 then get_empty_page address s
             else and_then (share_page inode tmp s) (\<lambda>shared s.
               if shared then Done () s else load_page e inode block tmp address s))"

subsection \<open>The figures of \<open>show_mem\<close>\<close>

text \<open>
  The lines it prints. A page directory entry that points above the memory is printed for ever: \<^verbatim>\<open>continue\<close>
  skips the \<^verbatim>\<open>i++\<close> at the end of the loop.
\<close>

datatype mem_info =
    Free_Pages int int
  | Pages_Shared int
  | Bad_Entry nat nat u32
  | Process_Pages int int
  | Memory_Found int int

definition count_map :: "(nat \<Rightarrow> u8) \<Rightarrow> int \<times> int \<times> int" where
  "count_map m =
    fold (\<lambda>i (free, pages, shared).
      if m i = USED then (free, pages, shared)
      else if m i = 0 then (free + 1, pages + 1, shared)
      else (free, pages + 1, shared + (uint (m i) - 1))) [0..<PAGING_PAGES] (0, 0, 0)"

definition count_table :: "'a mm_state_scheme \<Rightarrow> nat \<Rightarrow> int \<times> mem_info list \<Rightarrow> int \<times> mem_info list" where
  "count_table s i =
    fold (\<lambda>j (n, out).
      let e = pmem s (frame (pg_dir s i) + 4 * of_nat j) in
      if bit e 0 \<and> e > LOW_MEM
      then if e > HIGH_MEMORY s then (n, out @ [Bad_Entry i j e]) else (n + 1, out)
      else (n, out)) [0..<1024]"

definition show_dir :: "nat \<Rightarrow> int \<times> int \<times> mem_info list \<Rightarrow> 'a mm_state_scheme \<Rightarrow> ('a mm_state_scheme, int \<times> int \<times> mem_info list) outcome" where
  "show_dir i v s =
    (case v of (free, k, out) \<Rightarrow>
     if bit (pg_dir s i) 0 \<and> pg_dir s i > HIGH_MEMORY s then Diverges
     else
       let (n, out) =
             (if bit (pg_dir s i) 0 then count_table s i (if pg_dir s i > LOW_MEM then 1 else 0, out) else (0, out));
           free = free + n; k = k + n
       in Done (if (i + 1) mod 16 = 0 \<and> k \<noteq> 0
                then (free + 1, 0, out @ [Process_Pages (int ((i + 1) div 16) - 1) (k + 1)])
                else (free, k, out)) s)"

definition show_mem :: "'a mm_state_scheme \<Rightarrow> ('a mm_state_scheme, mem_info list) outcome" where
  "show_mem s =
    (case count_map (mem_map s) of (free, pages, shared) \<Rightarrow>
       and_then (fold_outcome show_dir [4..<1024] (free, 0, [Free_Pages free pages, Pages_Shared shared]) s)
         (\<lambda>(free, k, out). Done (out @ [Memory_Found (free - shared) pages])))"


subsection \<open>Addresses\<close>

lemma bit_0xffc: "bit (0xffc :: int) i \<longleftrightarrow> 2 \<le> i \<and> i < 12"
proof -
  have "(0xffc :: int) = push_bit 2 (mask 10)" by (simp add: mask_eq_exp_minus_1 push_bit_eq_mult)
  then show ?thesis by (simp only: bit_push_bit_iff bit_mask_iff) auto
qed

lemma bit_0x3ff: "bit (0x3ff :: int) i \<longleftrightarrow> i < 10"
proof -
  have "(0x3ff :: int) = mask 10" by (simp add: mask_eq_exp_minus_1)
  then show ?thesis by (simp only: bit_mask_iff) simp
qed

lemma pde_addr_frame: "pde_addr (frame a) = pde_addr a"
  unfolding pde_addr_def frame_mask by (rule bit_word_eqI) (auto simp: bit_simps bit_0xffc)

lemma pte_offset_frame: "pte_offset (frame a) = pte_offset a"
  unfolding pte_offset_def frame_mask by (rule bit_word_eqI) (auto simp: bit_simps bit_0xffc)

lemma pte_index: "4 * (drop_bit 12 a AND 0x3ff) = pte_offset a"
proof -
  have "4 * (drop_bit 12 a AND 0x3ff) = push_bit 2 (drop_bit 12 a AND 0x3ff)" by (simp add: push_bit_eq_mult)
  also have "\<dots> = pte_offset a"
    unfolding pte_offset_def by (rule bit_word_eqI) (auto simp: bit_simps bit_0xffc bit_0x3ff)
  finally show ?thesis .
qed

text \<open>A task's data space begins at a multiple of 64 MB and is 64 MB long.\<close>

lemma disjoint_add:
  assumes "start AND 0x03ffffff = 0" "a < TASK_SIZE"
  shows "start + a = start OR a" "\<And>i. bit start i \<Longrightarrow> 26 \<le> i" "\<And>i. bit a i \<Longrightarrow> i < 26"
proof -
  have m: "(0x03ffffff :: u32) = mask 26" by (simp add: mask_eq_exp_minus_1)
  show s: "26 \<le> i" if "bit start i" for i
  proof (rule ccontr)
    assume "\<not> 26 \<le> i"
    then have "bit (start AND mask 26) i" using that by (simp add: bit_simps)
    then show False using assms(1) m by simp
  qed
  have "a = take_bit 26 a"
    using less_mask_eq[of a 26] assms(2) by (simp add: take_bit_eq_mask)
  then show a: "i < 26" if "bit a i" for i using that by (metis bit_take_bit_iff)
  have "start AND a = 0" by (rule bit_word_eqI) (use s a in \<open>force simp: bit_simps\<close>)
  then show "start + a = start OR a" by (rule disjunctive_add_eq_or)
qed

lemma task_address:
  assumes "start AND 0x03ffffff = 0" "a < TASK_SIZE"
  shows "pde_addr (start + a) = pde_addr a + pde_addr start" "pte_offset (start + a) = pte_offset a"
proof -
  note d = disjoint_add[OF assms]
  have "pde_addr a AND pde_addr start = 0"
    unfolding pde_addr_def by (rule bit_word_eqI) (use d(2,3) in \<open>fastforce simp: bit_simps bit_0xffc\<close>)
  then have "pde_addr a + pde_addr start = pde_addr a OR pde_addr start" by (rule disjunctive_add_eq_or)
  also have "\<dots> = pde_addr (start + a)"
    unfolding d(1) pde_addr_def by (rule bit_word_eqI) (auto simp: bit_simps)
  finally show "pde_addr (start + a) = pde_addr a + pde_addr start" by simp
  show "pte_offset (start + a) = pte_offset a"
    unfolding d(1) pte_offset_def by (rule bit_word_eqI) (use d(2) in \<open>fastforce simp: bit_simps bit_0xffc\<close>)
qed

subsection \<open>Sharing a page, and writing to it\<close>

text \<open>The page table entry for an address of the data space of a task; when a page of \<open>p\<close> can be shared.\<close>

definition task_entry :: "u32 \<Rightarrow> task_struct \<Rightarrow> 'a mm_state_scheme \<Rightarrow> u32" where
  "task_entry a t s = frame (pmem s (task_dir a t)) + pte_offset a"

definition shareable :: "u32 \<Rightarrow> u32 \<Rightarrow> 'a kstate_scheme \<Rightarrow> bool" where
  "shareable a p s \<longleftrightarrow>
     bit (pmem s (task_dir a (ts s p))) 0 \<and> bit (pmem s (task_dir a (cur s))) 0 \<and>
     pmem s (task_entry a (ts s p) s) AND 0x41 = 1 \<and> \<not> bit (pmem s (task_entry a (cur s) s)) 0 \<and>
     LOW_MEM \<le> frame (pmem s (task_entry a (ts s p) s)) \<and> frame (pmem s (task_entry a (ts s p) s)) < HIGH_MEMORY s"

lemma present_clean: "w AND 0x41 = (1 :: u32) \<Longrightarrow> bit w 0"
proof -
  assume "w AND 0x41 = (1 :: u32)"
  then have "bit (w AND 0x41) 0" by simp
  then show ?thesis by (simp add: bit_and_iff)
qed

lemma try_to_share_state:
  assumes "shareable a p s"
  defines "f \<equiv> task_entry a (ts s p) s" and "e \<equiv> task_entry a (cur s) s"
  shows "e \<noteq> f" "try_to_share a p s = Done True (s\<lparr>pmem := (pmem s)(f := pmem s f AND NOT 2, e := pmem s f AND NOT 2),
    mem_map := (mem_map s)(MAP_NR (frame (pmem s f)) := mem_map s (MAP_NR (frame (pmem s f))) + 1)\<rparr>)"
proof -
  have s: "bit (pmem s (task_dir a (ts s p))) 0" "bit (pmem s (task_dir a (cur s))) 0" "pmem s f AND 0x41 = 1"
    "\<not> bit (pmem s e) 0" "LOW_MEM \<le> frame (pmem s f)" "frame (pmem s f) < HIGH_MEMORY s"
    using assms by (simp_all add: shareable_def)
  show "e \<noteq> f" using s(3,4) present_clean by metis
  then show "try_to_share a p s = Done True (s\<lparr>pmem := (pmem s)(f := pmem s f AND NOT 2, e := pmem s f AND NOT 2),
    mem_map := (mem_map s)(MAP_NR (frame (pmem s f)) := mem_map s (MAP_NR (frame (pmem s f))) + 1)\<rparr>)"
    using s(1,2,4-6) s(3)[unfolded f_def]
    by (simp add: try_to_share_def Let_def f_def[symmetric] e_def[symmetric, unfolded task_entry_def] task_entry_def write_long_def
        not_le not_less f_def[unfolded task_entry_def, symmetric])
qed

lemma frame_read_only: "frame (w AND NOT 2) = frame w" "\<not> bit (w AND NOT 2 :: u32) 1" "bit (w AND NOT 2 :: u32) 0 = bit w 0"
proof -
  show "frame (w AND NOT 2) = frame w"
    unfolding frame_mask low_masks(5) by (rule bit_word_eqI) (auto simp: bit_simps)
  show "\<not> bit (w AND NOT 2) 1" "bit (w AND NOT 2) 0 = bit w 0"
    by (simp_all only: bit_and_iff bit_not_iff) simp_all
qed

text \<open>A copied page: what \<open>un_wp_page\<close> does with a page that others use too.\<close>

lemma un_wp_page_copies:
  assumes "map_within_memory s" "i < PAGING_PAGES" "mem_map s i = 0"
    and "mem_map s (MAP_NR (frame (pmem s te))) \<noteq> 1" "LOW_MEM \<le> frame (pmem s te)"
  obtains j u where "j < PAGING_PAGES" "mem_map s j = 0" "un_wp_page te s = Done () u" "pmem u te = page_addr j OR 7"
    "\<And>x. x \<noteq> te \<Longrightarrow> pmem u x =
       (if in_page (page_addr j) x
        then if in_page (page_addr j) (frame (pmem s te) + (x - page_addr j)) then 0
             else pmem s (frame (pmem s te) + (x - page_addr j))
        else pmem s x)"
    "mem_map u = (mem_map s)(j := 1, MAP_NR (frame (pmem s te)) :=
       ((mem_map s)(j := 1)) (MAP_NR (frame (pmem s te))) - 1)"
proof -
  obtain j where j: "j < PAGING_PAGES" "mem_map s j = 0"
    "get_free_page s = Done (page_addr j) (clear_page (page_addr j) (s\<lparr>mem_map := (mem_map s)(j := 1)\<rparr>))"
    using get_free_page_free[OF assms(1-3)] by blast
  let ?t = "clear_page (page_addr j) (s\<lparr>mem_map := (mem_map s)(j := 1)\<rparr>)"
  let ?M = "MAP_NR (frame (pmem s te))"
  have "un_wp_page te s = Done () (write_long te (page_addr j OR 7)
      (copy_page (frame (pmem s te)) (page_addr j) (?t\<lparr>mem_map := (mem_map ?t)(?M := mem_map ?t ?M - 1)\<rparr>)))"
    using assms(4,5) j(3) page_addr_neq_0[OF j(1)] by (simp add: un_wp_page_def Let_def)
  from that[OF j(1,2) this] show ?thesis
    by (simp add: write_long_def copy_page_def clear_page_def)
qed

text \<open>
  Sharing and copy on write fit together. If a page of another task is clean and the running task, which runs the
  same file, has no page at that address, \<open>try_to_share\<close> succeeds; and when the running task then writes to
  the page, the fault handler gives it a writable copy of its own with the same 1024 words in a frame that only this
  entry uses, while the other task keeps the page, unchanged and read-only, with the number of users it had at first.
\<close>

theorem write_to_shared_page:
  assumes "shareable a p s" "a < TASK_SIZE" "start_code (cur s) AND 0x03ffffff = 0"
    and "map_within_memory s" "i < PAGING_PAGES" "mem_map s i = 0"
    and F: "F = frame (pmem s (task_entry a (ts s p) s))" "0 < mem_map s (MAP_NR F)" "mem_map s (MAP_NR F) < 255"
    and e: "e = task_entry a (cur s) s" "\<not> in_page F e" "task_dir a (cur s) \<noteq> e"
    and f: "f = task_entry a (ts s p) s" "\<not> in_page F f" "task_dir a (cur s) \<noteq> f"
    and used: "\<And>j x. j < PAGING_PAGES \<Longrightarrow> mem_map s j = 0 \<Longrightarrow> in_page (page_addr j) x \<Longrightarrow> x \<noteq> e \<and> x \<noteq> f"
  shows "\<exists>t u. try_to_share a p s = Done True t \<and> do_wp_page (start_code (cur s) + a) t = Done () u \<and>
    bit (pmem u e) 0 \<and> bit (pmem u e) 1 \<and> mem_map u (MAP_NR (frame (pmem u e))) = 1 \<and> frame (pmem u e) \<noteq> F \<and>
    frame (pmem u f) = F \<and> \<not> bit (pmem u f) 1 \<and> mem_map u (MAP_NR F) = mem_map s (MAP_NR F) \<and>
    (\<forall>k<1024. page_view u (pmem u e) k = page_view s (pmem s f) k \<and> page_view u (pmem u f) k = page_view s (pmem s f) k)"
proof -
  let ?w = "pmem s f AND NOT 2"
  let ?M = "MAP_NR F"
  define t where "t = s\<lparr>pmem := (pmem s)(f := ?w, e := ?w), mem_map := (mem_map s)(?M := mem_map s ?M + 1)\<rparr>"
  have ef: "e \<noteq> f" and share: "try_to_share a p s = Done True t"
    using try_to_share_state[OF assms(1)] by (simp_all add: e(1) f(1) F(1) t_def)
  have fr: "frame (pmem s f) = F" using F(1) f(1) by simp
  have w: "frame ?w = F" "\<not> bit ?w 1" using fr frame_read_only by simp_all
  have low: "LOW_MEM \<le> F" using assms(1) fr by (simp add: shareable_def f(1)[symmetric])
  have t: "pmem t e = ?w" "mem_map t ?M = mem_map s ?M + 1" "\<And>j. j \<noteq> ?M \<Longrightarrow> mem_map t j = mem_map s j" "cur t = cur s"
    "pmem t (task_dir a (cur s)) = pmem s (task_dir a (cur s))" "\<And>x. x \<noteq> e \<Longrightarrow> x \<noteq> f \<Longrightarrow> pmem t x = pmem s x" "pmem t f = ?w"
    "HIGH_MEMORY t = HIGH_MEMORY s"
    using e(3) f(3) ef by (simp_all add: t_def cur_def)
  have M: "mem_map t ?M \<noteq> 0" "mem_map t ?M \<noteq> 1"
  proof -
    have "uint (mem_map s ?M + 1) = uint (mem_map s ?M) + 1"
      using F(3) by (simp add: word_less_def uint_word_ariths)
    then show "mem_map t ?M \<noteq> 0" "mem_map t ?M \<noteq> 1" using F(2) t(2) by (auto simp: word_less_def)
  qed
  have cell: "mem_map t j = 0 \<longleftrightarrow> mem_map s j = 0" for j
    using M(1) t(3) F(2) by (cases "j = ?M") auto
  have fr_t: "frame (pmem t e) = F" using t(1) w(1) by simp
  obtain j u where j: "j < PAGING_PAGES" "mem_map t j = 0" and u: "un_wp_page e t = Done () u" "pmem u e = page_addr j OR 7"
    "\<And>x. x \<noteq> e \<Longrightarrow> pmem u x = (if in_page (page_addr j) x
        then if in_page (page_addr j) (F + (x - page_addr j)) then 0 else pmem t (F + (x - page_addr j)) else pmem t x)"
    "mem_map u = (mem_map t)(j := 1, ?M := ((mem_map t)(j := 1)) ?M - 1)"
  proof (rule un_wp_page_copies[of t i e])
    show "map_within_memory t" using assms(4) cell t(8) by (simp add: map_within_memory_def)
    show "mem_map t i = 0" using assms(6) cell by simp
  qed (use assms(5) M fr_t low in auto)
  have jM: "j \<noteq> ?M" using j(2) M(1) by auto
  have new: "page_addr j \<noteq> F" using jM j(1) by auto
  have FF: "frame F = F" using fr frame_idem by metis
  have "\<not> TASK_SIZE < a" using assms(2) by order
  then have "do_wp_page (start_code (cur s) + a) t = un_wp_page e t"
    using task_address[OF assms(3,2)] t(4,5)
    by (simp add: do_wp_page_def e(1) task_entry_def task_dir_def add.commute)
  moreover have "pmem u f = ?w"
    using u(3)[OF ef[symmetric]] used[OF j(1)] j(2) cell t(7) by auto
  moreover have "page_view u (pmem u e) k = page_view s (pmem s f) k" "page_view u ?w k = page_view s (pmem s f) k"
    if k: "k < 1024" for k
  proof -
    have F_k: "in_page F (F + 4 * of_nat k)" and n_k: "in_page (page_addr j) (page_addr j + 4 * of_nat k)"
      using in_page_nth[OF k] by simp_all
    then have "F + 4 * of_nat k \<noteq> e" "F + 4 * of_nat k \<noteq> f" "page_addr j + 4 * of_nat k \<noteq> e"
      using e(2) f(2) used[OF j(1)] j(2) cell by auto
    moreover have "\<not> in_page (page_addr j) (F + 4 * of_nat k)"
      using pages_disjoint[OF FF frame_page_addr new[symmetric] F_k] .
    ultimately show "page_view u (pmem u e) k = page_view s (pmem s f) k" "page_view u ?w k = page_view s (pmem s f) k"
      using u(2,3) n_k t(6) fr w(1) by (simp_all add: page_view_def)
  qed
  ultimately show ?thesis
    using share u(1,2,4) jM j(1) new w t(2)
    by (intro exI[of _ t] exI[of _ u]) (simp add: bit_simps)
qed

subsection \<open>Demand-loaded pages\<close>

text \<open>
  The first touch of the heap or the stack: when no page is mapped there, nothing was swapped out and no file
  holds the address, \<open>do_no_page\<close> maps a frame that nothing else uses, present, writable and for the user, full of
  zeroes; no other page table entry changes.
\<close>

theorem fault_gives_zero_page:
  assumes "\<not> address - start_code (cur s) > TASK_SIZE"
    and "end_data (cur s) \<le> frame address - start_code (cur s)" "frame address - start_code (cur s) < LIBRARY_OFFSET"
    and "map_within_memory s" "i < PAGING_PAGES" "mem_map s i = 0"
    and dir: "bit (pmem s (pde_addr address)) 0"
    and e: "e = frame (pmem s (pde_addr address)) + pte_offset address" "pmem s e = 0"
    and used: "\<And>j x. j < PAGING_PAGES \<Longrightarrow> mem_map s j = 0 \<Longrightarrow> in_page (page_addr j) x \<Longrightarrow>
      x \<noteq> e \<and> x \<noteq> pde_addr address"
  shows "\<exists>t j. do_no_page env address s = Done () t \<and> j < PAGING_PAGES \<and> mem_map s j = 0 \<and> mem_map t j = 1 \<and>
    pmem t e = page_addr j OR 7 \<and> (\<forall>k<1024. page_view t (pmem t e) k = 0) \<and>
    (\<forall>x. x \<noteq> e \<and> \<not> in_page (page_addr j) x \<longrightarrow> pmem t x = pmem s x)"
proof -
  obtain j where j: "j < PAGING_PAGES" "mem_map s j = 0"
    "get_free_page s = Done (page_addr j) (clear_page (page_addr j) (s\<lparr>mem_map := (mem_map s)(j := 1)\<rparr>))"
    using get_free_page_free[OF assms(4-6)] by blast
  let ?t = "clear_page (page_addr j) (s\<lparr>mem_map := (mem_map s)(j := 1)\<rparr>)"
  have n: "\<not> in_page (page_addr j) e" "\<not> in_page (page_addr j) (pde_addr address)" using used[OF j(1,2)] by blast+
  have d: "pmem ?t (pde_addr address) = pmem s (pde_addr address)" using n(2) by (simp add: clear_page_def)
  have p: "put_page (page_addr j) (frame address) ?t = Done (page_addr j) (write_long e (page_addr j OR 7) ?t)"
    using dir d by (simp add: put_page_def put_page_flags_def Let_def pde_addr_frame pte_index pte_offset_frame e(1))
  have "do_no_page env address s = get_empty_page (frame address) s"
    using assms(1-3) e dir by (simp add: do_no_page_def Let_def fault_file_def not_le[symmetric])
  also have "\<dots> = Done () (write_long e (page_addr j OR 7) ?t)"
    using j(3) p page_addr_neq_0[OF j(1)] by (simp add: get_empty_page_def)
  finally have r: "do_no_page env address s = Done () (write_long e (page_addr j OR 7) ?t)" .
  have "page_addr j + 4 * of_nat k \<noteq> e" "in_page (page_addr j) (page_addr j + 4 * of_nat k)" if "k < 1024" for k
    using in_page_nth[OF that, of "page_addr j"] n(1) by auto
  then show ?thesis using r j(1,2) n
    by (intro exI[of _ "write_long e (page_addr j OR 7) ?t"] exI[of _ j])
      (auto simp: write_long_def clear_page_def page_view_def)
qed

text \<open>The bytes of the tail of a page.\<close>

lemma load_clear_tail:
  assumes "n \<le> 4096" "i < 4096"
  shows "load_byte (page + of_nat i) (clear_tail page n s) = (if 4096 - n \<le> i then 0 else load_byte (page + of_nat i) s)"
  using assms(1)
proof (induction n)
  case 0
  then show ?case using assms(2) by (simp add: clear_tail_def)
next
  case (Suc n)
  have "page + of_nat i = page + 4095 - of_nat n \<longleftrightarrow> (of_nat i :: u32) + of_nat n = 4095"
    by (auto simp: algebra_simps)
  also have "\<dots> \<longleftrightarrow> i + n = 4095"
  proof -
    have "unat ((of_nat i :: u32) + of_nat n) = i + n"
      using Suc.prems assms(2) by (simp add: unat_of_nat flip: of_nat_add)
    then show ?thesis by (simp add: word_unat_eq_iff)
  qed
  finally show ?case
    using Suc by (auto simp: clear_tail_def load_store_byte)
qed

text \<open>
  The last page of a program: of a page that starts before the end of the data, exactly the bytes from
  \<open>end_data\<close> on are cleared, whatever the file had there; the bytes of the program stay.
\<close>

theorem page_tail_cleared:
  assumes "tmp < data_end" "data_end < 0x80000000" "i < 4096"
  shows "load_byte (page + of_nat i) (clear_tail page (tail_bytes tmp data_end) s) =
    (if unat data_end \<le> unat tmp + i then 0 else load_byte (page + of_nat i) s)"
proof -
  have l: "unat tmp < unat data_end" "unat data_end < 0x80000000" using assms(1,2) by (simp_all add: word_less_nat_alt)
  let ?v = "int (unat tmp) + 4096 - int (unat data_end)"
  have "of_int ?v = tmp + 4096 - data_end" by simp
  moreover have "- 2147483648 \<le> ?v" "?v < 2147483648" using l by linarith+
  then have "sint (word_of_int ?v :: u32) = ?v"
    unfolding sint_sbintrunc' by (subst signed_take_bit_int_eq_self) simp_all
  ultimately have "sint (tmp + 4096 - data_end) = ?v" by simp
  moreover have "\<not> ?v > 4095" "nat ?v = unat tmp + 4096 - unat data_end" using l by arith+
  ultimately have b: "tail_bytes tmp data_end = unat tmp + 4096 - unat data_end"
    by (simp only: tail_bytes_def Let_def if_False)
  then have "tail_bytes tmp data_end \<le> 4096" using l by simp
  moreover have "4096 - tail_bytes tmp data_end \<le> i \<longleftrightarrow> unat data_end \<le> unat tmp + i"
    unfolding b using l assms(3) by arith
  ultimately show ?thesis using load_clear_tail[of "tail_bytes tmp data_end" i page s] assms(3) by simp
qed

subsection \<open>Examples\<close>

text \<open>
  Two tasks at 64 MB and 128 MB; the pages from 3 MB on are used. The page tables are at 3 MB and 3 MB + 4 KB; the
  task at 0x3000 has the page at 3 MB + 8 KB at the start of its data space, clean and writable.
\<close>

definition demo_sharing :: kstate where
  "demo_sharing = demo_kernel\<lparr>
     pmem := (\<lambda>_. 0)(0x40 := 0x300007, 0x80 := 0x301007, 0x301000 := 0x302007),
     mem_map := (\<lambda>i. if i = 512 \<or> i = 513 \<or> i = 514 then 1 else if i = 1000 then 0 else USED), HIGH_MEMORY := 0x1000000,
     ts := (ts demo_kernel)(0x2000 := demo_task\<lparr>start_code := 0x4000000\<rparr>, 0x3000 := demo_task\<lparr>start_code := 0x8000000\<rparr>)\<rparr>"

lemma demo_sharing_free: "j < PAGING_PAGES \<Longrightarrow> mem_map demo_sharing j = 0 \<Longrightarrow> j = 1000"
  by (simp add: demo_sharing_def split: if_splits)

theorem write_to_shared_page_witness:
  "\<exists>t u. try_to_share 0 0x3000 demo_sharing = Done True t \<and> do_wp_page 0x4000000 t = Done () u \<and>
     bit (pmem u 0x300000) 1 \<and> \<not> bit (pmem u 0x301000) 1"
proof -
  have c: "cur demo_sharing = demo_task\<lparr>start_code := 0x4000000\<rparr>" "ts demo_sharing 0x3000 = demo_task\<lparr>start_code := 0x8000000\<rparr>"
    "HIGH_MEMORY demo_sharing = 0x1000000" "pmem demo_sharing = (\<lambda>_. 0)(0x40 := 0x300007, 0x80 := 0x301007, 0x301000 := 0x302007)"
    by (simp_all add: demo_sharing_def cur_def demo_kernel_def)
  have d: "task_dir 0 (cur demo_sharing) = 0x40" "task_dir 0 (ts demo_sharing 0x3000) = 0x80"
    by (simp_all add: c task_dir_def pde_addr_def demo_task_def)
  then have e: "task_entry 0 (cur demo_sharing) demo_sharing = 0x300000" "task_entry 0 (ts demo_sharing 0x3000) demo_sharing = 0x301000"
    by (simp_all add: task_entry_def pte_offset_def c(4) frame_def)
  have st: "start_code (cur demo_sharing) = 0x4000000" by (simp add: c(1))
  have s: "shareable 0 0x3000 demo_sharing"
    by (simp add: shareable_def d e c(3,4) frame_def bit_0)
  have m: "map_within_memory demo_sharing"
    unfolding map_within_memory_def by (intro allI impI, drule (1) demo_sharing_free) (simp add: c(3) page_addr_def)
  have "\<not> in_page (page_addr 1000) 0x300000" "\<not> in_page (page_addr 1000) 0x301000"
    by (simp_all add: in_page_def page_addr_def)
  then have u: "\<And>j x. j < PAGING_PAGES \<Longrightarrow> mem_map demo_sharing j = 0 \<Longrightarrow> in_page (page_addr j) x \<Longrightarrow> x \<noteq> 0x300000 \<and> x \<noteq> 0x301000"
    using demo_sharing_free by blast
  have f: "0x302000 = frame (pmem demo_sharing (task_entry 0 (ts demo_sharing 0x3000) demo_sharing))"
    by (simp add: e c(4) frame_def)
  have z: "mem_map demo_sharing 1000 = 0" "mem_map demo_sharing (MAP_NR 0x302000) = 1"
    by (simp_all add: demo_sharing_def MAP_NR_def)
  obtain t u where "try_to_share 0 0x3000 demo_sharing = Done True t" "do_wp_page (start_code (cur demo_sharing) + 0) t = Done () u"
    "bit (pmem u 0x300000) 1" "\<not> bit (pmem u 0x301000) 1"
    using write_to_shared_page[OF s _ _ m _ z(1) f _ _ e(1)[symmetric] _ _ e(2)[symmetric] _ _ u]
    by (fastforce simp: st d z(2) in_page_def)
  then show ?thesis unfolding st by auto
qed

theorem fault_gives_zero_page_witness:
  "\<exists>t. do_no_page demo_env 0x5000 (demo_fs\<lparr>pmem := (\<lambda>_. 0)(0 := 0x300007), mem_map := (\<lambda>i. if i = 1000 then 0 else USED)\<rparr>) = Done () t"
proof -
  let ?s = "demo_fs\<lparr>pmem := (\<lambda>_. 0)(0 := 0x300007), mem_map := (\<lambda>i. if i = 1000 then 0 else USED)\<rparr>"
  have c: "cur ?s = demo_task" "HIGH_MEMORY ?s = 0x1000000"
    by (simp_all add: demo_fs_def demo_kernel_def kstate.defs cur_def)
  have "map_within_memory ?s" using c(2) by (auto simp: map_within_memory_def page_addr_def)
  moreover have "\<not> in_page (page_addr 1000) 0x300014" "\<not> in_page (page_addr 1000) 0"
    by (simp_all add: in_page_def page_addr_def)
  then have "\<And>j x. j < PAGING_PAGES \<Longrightarrow> mem_map ?s j = 0 \<Longrightarrow> in_page (page_addr j) x \<Longrightarrow> x \<noteq> 0x300014 \<and> x \<noteq> 0"
    by (auto split: if_splits)
  ultimately show ?thesis
    using fault_gives_zero_page[of "0x5000" ?s 1000 "0x300014" demo_env] c
    by (auto simp: demo_task_def frame_def pde_addr_def pte_offset_def bit_0)
qed

theorem page_tail_cleared_witness:
  "load_byte 0x300fff (clear_tail 0x300000 (tail_bytes 0x1000 0x1fff) demo_sharing) = 0"
  using page_tail_cleared[of "0x1000" "0x1fff" "0xfff" "0x300000" demo_sharing] by simp

end
