(* ===== verification/Exec.thy ===== *)
theory Exec
  imports Fs_Calls Memory_Props
begin

section \<open>Loading a program\<close>

text \<open>
  \<^verbatim>\<open>fs/exec.c\<close>. The strings of the new program are copied to pages of their own (\<open>page\<close>, an array of 32
  addresses, 0 where there is none) from the top down; \<open>p\<close> is where the last string copied begins. \<open>change_ldt\<close> maps
  these pages at the top of the new data space. User memory is the store \<open>fs_mem\<close>: mapping a page puts its bytes there;
  what the rest of the new data space holds, which later page faults bring in, is the argument \<open>fresh\<close>.
\<close>

unbundle bit_operations_syntax

abbreviation (input) MAX_ARG_PAGES :: nat where "MAX_ARG_PAGES \<equiv> 32"
abbreviation (input) LIBRARY_SIZE :: u32 where "LIBRARY_SIZE \<equiv> 0x400000"
abbreviation (input) ZMAGIC :: u32 where "ZMAGIC \<equiv> 267"

definition sys_uselib :: "fs_env \<Rightarrow> u32 \<Rightarrow> fs_state \<Rightarrow> int fs_out" where
  "sys_uselib e lib s =
    (if get_limit (ldt (cur s) 2) \<noteq> TASK_SIZE then Done (- EINVAL) s
     else
       and_then (if lib \<noteq> 0 then namei e lib s else Done 0 s) (\<lambda>inode s.
         if lib \<noteq> 0 \<and> inode = 0 then Done (- ENOENT) s
         else
           and_then (iput e (library (cur s)) s) (\<lambda>_ s.
             let s = upd_cur (\<lambda>t. t\<lparr>library := 0\<rparr>) s; base = get_base (ldt (cur s) 2) + LIBRARY_OFFSET in
             and_then (free_page_tables base LIBRARY_SIZE s) (\<lambda>_ s.
               Done 0 (upd_cur (\<lambda>t. t\<lparr>library := inode\<rparr>) s)))))"

subsection \<open>The tables of pointers on the new stack\<close>

text \<open>\<^verbatim>\<open>while (get_fs_byte(p++))\<close>: behind the zero byte that ends the string at \<open>p\<close>.\<close>

definition skip_string :: "u32 \<Rightarrow> 'a kstate_scheme \<Rightarrow> ('a kstate_scheme, u32) outcome" where
  "skip_string = loop (\<lambda>p s. Done (if get_fs_byte p s = 0 then Leave (p + 1) else Again (p + 1)) s)"

text \<open>Pointers to \<open>n\<close> strings from \<open>p\<close> on, and a final NULL, are stored from \<open>table\<close> on.\<close>

primrec fill_table :: "nat \<Rightarrow> u32 \<Rightarrow> u32 \<Rightarrow> 'a kstate_scheme \<Rightarrow> ('a kstate_scheme, u32) outcome" where
  "fill_table 0 table p s = Done p (put_fs_long 0 table s)"
| "fill_table (Suc n) table p s =
    and_then (skip_string p (put_fs_long p table s)) (\<lambda>p. fill_table n (table + 4) p)"

definition create_tables :: "u32 \<Rightarrow> nat \<Rightarrow> nat \<Rightarrow> 'a kstate_scheme \<Rightarrow> ('a kstate_scheme, u32) outcome" where
  "create_tables p argc envc s =
    (let sp = 0xfffffffc AND p;
         envp = sp - 4 * of_nat (envc + 1);
         argv = envp - 4 * of_nat (argc + 1);
         s = put_fs_long (of_nat argc) (argv - 12) (put_fs_long argv (argv - 8) (put_fs_long envp (argv - 4) s))
     in and_then (fill_table argc argv p s) (\<lambda>p s.
        and_then (fill_table envc envp p s) (\<lambda>_. Done (argv - 12))))"

definition count :: "u32 \<Rightarrow> 'a kstate_scheme \<Rightarrow> ('a kstate_scheme, nat) outcome" where
  "count argv s =
    (if argv = 0 then Done 0 s
     else loop (\<lambda>i s. Done (if get_fs_long (argv + 4 * of_nat i) s = 0 then Leave i else Again (i + 1)) s) 0 s)"

subsection \<open>Copying the strings\<close>

text \<open>The local variables of \<open>copy_strings\<close>: the pages, the place of the last byte, its offset in the page \<open>pag\<close>.\<close>

record arg_area =
  arg_page :: "nat \<Rightarrow> u32"
  arg_p :: u32
  arg_offset :: int
  arg_pag :: u32

text \<open>The next lower byte; the result is whether there was a page for it.\<close>

definition copy_byte :: "u8 \<Rightarrow> arg_area \<Rightarrow> 'a mm_state_scheme \<Rightarrow> ('a mm_state_scheme, bool \<times> arg_area) outcome" where
  "copy_byte c v s =
    (let v = v\<lparr>arg_p := arg_p v - 1, arg_offset := arg_offset v - 1\<rparr>;
         store = (\<lambda>v s. Done (True, v) (store_byte (arg_pag v + of_int (arg_offset v)) c s))
     in if arg_offset v \<ge> 0 then store v s
        else
          let v = v\<lparr>arg_offset := uint (arg_p v mod 4096)\<rparr>; i = unat (arg_p v div 4096) in
          if i \<ge> MAX_ARG_PAGES then Undefined ''page[]''
          else if arg_page v i \<noteq> 0 then store (v\<lparr>arg_pag := arg_page v i\<rparr>) s
          else
            and_then (get_free_page s) (\<lambda>pag s.
              let v = v\<lparr>arg_page := (arg_page v)(i := pag), arg_pag := pag\<rparr> in
              if pag = 0 then Done (False, v) s else store v s))"

text \<open>A string from its last byte, the zero, to its first.\<close>

definition string_length :: "path \<Rightarrow> fs_state \<Rightarrow> nat fs_out" where
  "string_length str =
    loop (\<lambda>n s. Done (if path_byte str n s = 0 then Leave (n + 1) else Again (n + 1)) s) 0"

definition copy_string :: "path \<Rightarrow> arg_area \<Rightarrow> fs_state \<Rightarrow> (bool \<times> arg_area) fs_out" where
  "copy_string str v s =
    and_then (string_length str s) (\<lambda>len.
      fold_outcome (\<lambda>i (ok, v) s. if ok then copy_byte (path_byte str i s) v s else Done (False, v) s)
        (rev [0..<len]) (True, v))"

text \<open>\<open>arg k\<close> reads the \<open>k\<close>-th pointer: \<open>None\<close> is NULL.\<close>

primrec copy_args :: "(nat \<Rightarrow> fs_state \<Rightarrow> path option) \<Rightarrow> nat \<Rightarrow> arg_area \<Rightarrow> fs_state \<Rightarrow> (bool \<times> arg_area) fs_out" where
  "copy_args arg 0 v s = Done (True, v) s"
| "copy_args arg (Suc n) v s =
    (case arg n s of
       None \<Rightarrow> Panics ''argc is wrong''
     | Some str \<Rightarrow> and_then (copy_string str v s) (\<lambda>(ok, v) s. if ok then copy_args arg n v s else Done (False, v) s))"

definition copy_strings ::
  "(nat \<Rightarrow> fs_state \<Rightarrow> path option) \<Rightarrow> nat \<Rightarrow> (nat \<Rightarrow> u32) \<times> u32 \<Rightarrow> fs_state \<Rightarrow> ((nat \<Rightarrow> u32) \<times> u32) fs_out" where
  "copy_strings arg argc pp s =
    (case pp of (page, p) \<Rightarrow>
     if p = 0 then Done (page, 0) s
     else
       and_then (copy_args arg argc \<lparr>arg_page = page, arg_p = p, arg_offset = 0, arg_pag = 0\<rparr> s) (\<lambda>(ok, v).
         Done (arg_page v, if ok then arg_p v else 0)))"

definition user_arg :: "u32 \<Rightarrow> nat \<Rightarrow> fs_state \<Rightarrow> path option" where
  "user_arg argv k s = (let a = get_fs_long (argv + 4 * of_nat k) s in if a = 0 then None else Some (User a))"

subsection \<open>The new data space\<close>

definition set_limit :: "desc_struct \<Rightarrow> u32 \<Rightarrow> desc_struct" where
  "set_limit d limit =
    (let l = drop_bit 12 (limit - 1)
     in d\<lparr>desc_a := (desc_a d AND 0xffff0000) OR (l AND 0xffff),
          desc_b := (desc_b d AND 0xff00ffff) OR push_bit 16 ((drop_bit 16 l AND 0xff) OR (drop_bit 16 (desc_b d) AND 0xf0))\<rparr>)"

text \<open>The user address of the page \<open>i\<close>, and the bytes of a page that has been mapped there.\<close>

definition arg_base :: "nat \<Rightarrow> u32" where
  "arg_base i = TASK_SIZE - LIBRARY_SIZE - 4096 * of_nat (MAX_ARG_PAGES - i)"

definition map_bytes :: "nat \<Rightarrow> u32 \<Rightarrow> 'a kstate_scheme \<Rightarrow> 'a kstate_scheme" where
  "map_bytes i pg s =
    s\<lparr>fs_mem := (\<lambda>x. if x - arg_base i < 4096 then load_byte (pg + (x - arg_base i)) s else fs_mem s x)\<rparr>"

definition change_ldt :: "(u32 \<Rightarrow> u8) \<Rightarrow> (nat \<Rightarrow> u32) \<Rightarrow> fs_state \<Rightarrow> u32 fs_out" where
  "change_ldt fresh page s =
    (let base = get_base (ldt (cur s) 1);
         s = upd_cur (\<lambda>t. t\<lparr>ldt := (ldt t)(1 := set_limit (set_base (ldt t 1) base) TASK_SIZE,
                                            2 := set_limit (set_base (ldt t 2) base) TASK_SIZE)\<rparr>) s
     in and_then (fold_outcome (\<lambda>i (_ :: unit) s.
          if page i = 0 then Done () s
          else and_then (put_dirty_page (page i) (base + arg_base i) s) (\<lambda>put s.
            Done () (if put = 0 then s else map_bytes i (page i) s)))
          (rev [0..<MAX_ARG_PAGES]) () (s\<lparr>fs_mem := fresh\<rparr>))
        (\<lambda>_. Done TASK_SIZE))"

subsection \<open>\<open>do_execve\<close>\<close>

record exec =
  a_magic :: u32
  a_text :: u32
  a_data :: u32
  a_bss :: u32
  a_syms :: u32
  a_entry :: u32
  a_trsize :: u32
  a_drsize :: u32

definition exec_header :: "(nat \<Rightarrow> u8) \<Rightarrow> exec" where
  "exec_header d =
    \<lparr>a_magic = get_le32 d 0, a_text = get_le32 d 4, a_data = get_le32 d 8, a_bss = get_le32 d 12, a_syms = get_le32 d 16,
     a_entry = get_le32 d 20, a_trsize = get_le32 d 24, a_drsize = get_le32 d 28\<rparr>"

definition N_TXTOFF :: "exec \<Rightarrow> u32" where
  "N_TXTOFF x = (if a_magic x = ZMAGIC then (1024 - 32) + 32 else 32)"

text \<open>\<^verbatim>\<open>exec_error1\<close> and \<^verbatim>\<open>exec_error2\<close>; the second component of a result is the new \<open>eip\<close> and stack pointer.\<close>

type_synonym exec_result = "int \<times> (u32 \<times> u32) option"

definition exec_error1 :: "(nat \<Rightarrow> u32) \<Rightarrow> int \<Rightarrow> fs_state \<Rightarrow> exec_result fs_out" where
  "exec_error1 page retval s =
    and_then (fold_outcome (\<lambda>i (_ :: unit). free_page (page i)) [0..<MAX_ARG_PAGES] () s) (\<lambda>_. Done (retval, None))"

definition exec_error2 :: "fs_env \<Rightarrow> u32 \<Rightarrow> (nat \<Rightarrow> u32) \<Rightarrow> int \<Rightarrow> fs_state \<Rightarrow> exec_result fs_out" where
  "exec_error2 e inode page retval s = and_then (iput e inode s) (\<lambda>_. exec_error1 page retval)"

text \<open>Who the new program runs as, and whether the caller may run it.\<close>

definition exec_euid :: "m_inode \<Rightarrow> 'a kstate_scheme \<Rightarrow> u16" where
  "exec_euid i s = (if i_mode i AND 0x800 \<noteq> 0 then i_uid i else euid (cur s))"

definition exec_egid :: "m_inode \<Rightarrow> 'a kstate_scheme \<Rightarrow> u16" where
  "exec_egid i s = (if i_mode i AND 0x400 \<noteq> 0 then ucast (i_gid i) else egid (cur s))"

definition may_execute :: "m_inode \<Rightarrow> 'a kstate_scheme \<Rightarrow> bool" where
  "may_execute i s \<longleftrightarrow>
    (let m = (if euid (cur s) = i_uid i then drop_bit 6 (i_mode i)
              else if in_group_p (ucast (i_gid i)) s then drop_bit 3 (i_mode i) else i_mode i)
     in m AND 1 \<noteq> 0 \<or> i_mode i AND 0x49 \<noteq> 0 \<and> suser s)"

text \<open>The first line of a script: the interpreter, what its \<open>argv[0]\<close> is, and its argument.\<close>

definition blank :: "u8 \<Rightarrow> bool" where
  "blank c \<longleftrightarrow> c = 32 \<or> c = 9"

definition parse_script :: "(nat \<Rightarrow> u8) \<Rightarrow> (u8 list \<times> u8 list \<times> u8 list option) option" where
  "parse_script d =
    (let buf = takeWhile (\<lambda>c. c \<noteq> 0) (map (\<lambda>i. d (2 + i)) [0..<127]);
         line = dropWhile blank (takeWhile (\<lambda>c. c \<noteq> 10) buf);
         interp = takeWhile (\<lambda>c. \<not> blank c) line;
         rest = drop (length interp) line
     in if 10 \<notin> set buf \<or> line = [] then None
        else Some (interp, rev (takeWhile (\<lambda>c. c \<noteq> SLASH) (rev interp)), if rest = [] then None else Some (tl rest)))"


text \<open>From the point of no return on.\<close>

definition reset_handlers :: "(nat \<Rightarrow> sigaction_t) \<Rightarrow> nat \<Rightarrow> sigaction_t" where
  "reset_handlers h i =
    (if i < 32 then (h i)\<lparr>sa_mask := 0, sa_flags := 0, sa_handler := if sa_handler (h i) = 1 then 1 else 0\<rparr> else h i)"

definition close_marked :: "fs_env \<Rightarrow> fs_state \<Rightarrow> unit fs_out" where
  "close_marked e =
    fold_outcome (\<lambda>i (_ :: unit) s.
      if bit (close_on_exec (cur s)) i then and_then (sys_close e (of_nat i) s) (\<lambda>_. Done ()) else Done () s) [0..<NR_OPEN] ()"

definition exec_commit ::
  "fs_env \<Rightarrow> (u32 \<Rightarrow> u8) \<Rightarrow> u32 \<Rightarrow> u16 \<times> u16 \<Rightarrow> exec \<Rightarrow> (nat \<Rightarrow> u32) \<times> u32 \<Rightarrow> nat \<Rightarrow> nat \<Rightarrow> fs_state \<Rightarrow> exec_result fs_out" where
  "exec_commit e fresh inode ids ex pp argc envc s =
    and_then (if executable (cur s) \<noteq> 0 then iput e (executable (cur s)) s else Done () s) (\<lambda>_ s.
    and_then (close_marked e (upd_cur (\<lambda>t. t\<lparr>executable := inode, signal := 0, sigaction := reset_handlers (sigaction t)\<rparr>) s)) (\<lambda>_ s.
    let s = upd_cur (\<lambda>t. t\<lparr>close_on_exec := 0\<rparr>) s in
    and_then (free_page_tables (get_base (ldt (cur s) 1)) (get_limit (ldt (cur s) 1)) s) (\<lambda>_ s.
    and_then (free_page_tables (get_base (ldt (cur s) 2)) (get_limit (ldt (cur s) 2)) s) (\<lambda>_ s.
    let s = (if last_task_used_math s = current s then s\<lparr>last_task_used_math := 0\<rparr> else s);
        s = upd_cur (\<lambda>t. t\<lparr>used_math := 0\<rparr>) s in
    and_then (change_ldt fresh (fst pp) s) (\<lambda>size s.
    and_then (create_tables (snd pp + size - (LIBRARY_SIZE + 4096 * of_nat MAX_ARG_PAGES)) argc envc s) (\<lambda>p s.
      Done (0, Some (a_entry ex, p))
        (upd_cur (\<lambda>t. t\<lparr>end_code := a_text ex, end_data := a_data ex + a_text ex, brk := a_bss ex + (a_data ex + a_text ex),
           start_stack := p AND 0xfffff000, suid := fst ids, euid := fst ids, sgid := snd ids, egid := snd ids\<rparr>) s)))))))"

definition bad_header :: "exec \<Rightarrow> u32 \<Rightarrow> bool" where
  "bad_header ex sz \<longleftrightarrow>
    a_magic ex \<noteq> ZMAGIC \<or> a_trsize ex \<noteq> 0 \<or> a_drsize ex \<noteq> 0 \<or> a_text ex + a_data ex + a_bss ex > 0x3000000 \<or>
    sz < a_text ex + a_data ex + a_syms ex + N_TXTOFF ex \<or> N_TXTOFF ex \<noteq> 1024"

text \<open>\<open>strings\<close> copies the strings of a program that is no interpreter; an interpreter has its strings already.\<close>

definition exec_load ::
  "fs_env \<Rightarrow> (u32 \<Rightarrow> u8) \<Rightarrow> u32 \<Rightarrow> u16 \<times> u16 \<Rightarrow> exec \<Rightarrow> ((nat \<Rightarrow> u32) \<times> u32 \<Rightarrow> fs_state \<Rightarrow> ((nat \<Rightarrow> u32) \<times> u32) fs_out) option \<Rightarrow>
    (nat \<Rightarrow> u32) \<times> u32 \<Rightarrow> nat \<Rightarrow> nat \<Rightarrow> fs_state \<Rightarrow> exec_result fs_out" where
  "exec_load e fresh inode ids ex strings pp argc envc s =
    (if bad_header ex (i_size (inode_table s inode)) then exec_error2 e inode (fst pp) (- ENOEXEC) s
     else
       case strings of
         None \<Rightarrow> exec_commit e fresh inode ids ex pp argc envc s
       | Some f \<Rightarrow> and_then (f pp s) (\<lambda>pp s.
           if snd pp = 0 then exec_error2 e inode (fst pp) (- ENOMEM) s
           else exec_commit e fresh inode ids ex pp argc envc s))"

text \<open>The checks and the header, then a script or a program.\<close>

definition exec_image ::
  "fs_env \<Rightarrow> u32 \<Rightarrow> (nat \<Rightarrow> u32) \<Rightarrow> ((nat \<Rightarrow> u8) \<Rightarrow> fs_state \<Rightarrow> exec_result fs_out) option \<Rightarrow>
    (u16 \<times> u16 \<Rightarrow> exec \<Rightarrow> fs_state \<Rightarrow> exec_result fs_out) \<Rightarrow> fs_state \<Rightarrow> exec_result fs_out" where
  "exec_image e inode page script load s =
    (let i = inode_table s inode; ids = (exec_euid i s, exec_egid i s) in
     if \<not> S_ISREG (i_mode i) then exec_error2 e inode page (- EACCES) s
     else if \<not> may_execute i s then exec_error2 e inode page (- ENOEXEC) s
     else
       and_then (bread e (ucast (i_dev i)) (ucast (i_zone i 0)) s) (\<lambda>bh s.
         if bh = 0 then exec_error2 e inode page (- EACCES) s
         else
           let d = b_data (bufs s bh) in
           and_then (brelse e bh s) (\<lambda>_ s.
             case script of
               Some f \<Rightarrow>
                 if d 0 = 0x23 \<and> d 1 = 0x21 then and_then (iput e inode s) (\<lambda>_. f d) else load ids (exec_header d) s
             | None \<Rightarrow> load ids (exec_header d) s)))"

definition exec_script ::
  "fs_env \<Rightarrow> (u32 \<Rightarrow> u8) \<Rightarrow> u32 \<Rightarrow> u32 \<Rightarrow> u32 \<Rightarrow> int \<Rightarrow> nat \<Rightarrow> (nat \<Rightarrow> u32) \<times> u32 \<Rightarrow> (nat \<Rightarrow> u8) \<Rightarrow> fs_state \<Rightarrow> exec_result fs_out" where
  "exec_script e fresh filename argv envp argc envc pp d s =
    (case parse_script d of
       None \<Rightarrow> exec_error1 (fst pp) (- ENOEXEC) s
     | Some (interp, i_name, i_arg) \<Rightarrow>
         and_then (copy_strings (user_arg envp) envc pp s) (\<lambda>pp s.
         and_then (copy_strings (user_arg (argv + 4)) (nat (argc - 1)) pp s) (\<lambda>pp s.
         and_then (copy_strings (\<lambda>_ _. if filename = 0 then None else Some (User filename)) 1 pp s) (\<lambda>pp s.
         and_then (case i_arg of None \<Rightarrow> Done pp s | Some a \<Rightarrow> copy_strings (\<lambda>_ _. Some (In_Kernel a)) 1 pp s) (\<lambda>pp s.
         and_then (copy_strings (\<lambda>_ _. Some (In_Kernel i_name)) 1 pp s) (\<lambda>pp s.
           if snd pp = 0 then exec_error1 (fst pp) (- ENOMEM) s
           else
             and_then (namei_with (follow_link_with None e) e (In_Kernel interp) 0 True s) (\<lambda>inode s.
               if inode = 0 then exec_error1 (fst pp) (- ENOENT) s
               else
                 exec_image e inode (fst pp) None (\<lambda>ids ex.
                   exec_load e fresh inode ids ex None pp (nat (argc + (if i_arg = None then 1 else 2))) envc) s)))))))"

text \<open>\<open>cs\<close> is the code segment of the caller.\<close>

definition do_execve :: "fs_env \<Rightarrow> (u32 \<Rightarrow> u8) \<Rightarrow> u32 \<Rightarrow> u32 \<Rightarrow> u32 \<Rightarrow> u32 \<Rightarrow> fs_state \<Rightarrow> exec_result fs_out" where
  "do_execve e fresh cs filename argv envp s =
    (if 0xffff AND cs \<noteq> 0x000f then Panics ''execve called from supervisor mode''
     else
       let pp = ((\<lambda>_. 0), 4096 * of_nat MAX_ARG_PAGES - 4) in
       and_then (namei e filename s) (\<lambda>inode s.
         if inode = 0 then Done (- ENOENT, None) s
         else
           and_then (count argv s) (\<lambda>argc s. and_then (count envp s) (\<lambda>envc.
             exec_image e inode (fst pp)
               (Some (exec_script e fresh filename argv envp (int argc) envc pp))
               (\<lambda>ids ex. exec_load e fresh inode ids ex
                 (Some (\<lambda>pp s. and_then (copy_strings (user_arg envp) envc pp s) (copy_strings (user_arg argv) argc)))
                 pp argc envc)))))"

end
