(* ===== verification/Exec_Props.thy ===== *)
theory Exec_Props
  imports Exec
begin

section \<open>The stack of a new program\<close>

text \<open>
  What \<^verbatim>\<open>create_tables\<close> leaves for the new program: \<open>argc\<close>, \<open>argv\<close> and \<open>envp\<close> on top of the stack and the two tables of
  pointers to the strings above it. The proof computes with addresses as naturals below \<open>2 ^ 32\<close>.
\<close>

unbundle bit_operations_syntax

text \<open>\<open>holds s a bs\<close>: the bytes \<open>bs\<close> stand from the user address \<open>a\<close> on.\<close>

definition holds :: "'a kstate_scheme \<Rightarrow> u32 \<Rightarrow> u8 list \<Rightarrow> bool" where
  "holds s a bs \<longleftrightarrow> (\<forall>i<length bs. fs_mem s (a + of_nat i) = bs ! i)"

text \<open>The strings one behind the other, each with its final zero, and a table of pointers to strings.\<close>

definition strings_bytes :: "u8 list list \<Rightarrow> u8 list" where
  "strings_bytes xs = concat (map (\<lambda>x. x @ [0]) xs)"

lemma strings_bytes_simps [simp]:
  "strings_bytes [] = []" "strings_bytes (x # xs) = x @ 0 # strings_bytes xs"
  "strings_bytes (xs @ ys) = strings_bytes xs @ strings_bytes ys"
  by (simp_all add: strings_bytes_def)

definition string_table :: "'a kstate_scheme \<Rightarrow> u32 \<Rightarrow> u8 list list \<Rightarrow> bool" where
  "string_table s table xs \<longleftrightarrow>
    (\<forall>i<length xs. holds s (get_fs_long (table + 4 * of_nat i) s) (xs ! i @ [0])) \<and>
    get_fs_long (table + 4 * of_nat (length xs)) s = 0"

lemma holds_Nil [simp]: "holds s a []" by (simp add: holds_def)

lemma holds_Cons [simp]: "holds s a (b # bs) \<longleftrightarrow> fs_mem s a = b \<and> holds s (a + 1) bs"
  unfolding holds_def by (auto simp: less_Suc_eq_0_disj add.assoc add.commute[of 1])

lemma holds_append [simp]:
  "holds s a (bs @ cs) \<longleftrightarrow> holds s a bs \<and> holds s (a + of_nat (length bs)) cs"
  by (induction bs arbitrary: a) (auto simp: add.assoc add.left_commute)

lemma holds_cong:
  assumes "holds s (of_nat a) bs" "a + length bs \<le> b"
    "\<And>x. a \<le> x \<Longrightarrow> x < b \<Longrightarrow> fs_mem t (of_nat x) = fs_mem s (of_nat x)"
  shows "holds t (of_nat a) bs"
  unfolding holds_def
proof (intro allI impI)
  fix i assume "i < length bs"
  then show "fs_mem t (of_nat a + of_nat i) = bs ! i"
    using assms(1) assms(3)[of "a + i"] assms(2) by (simp add: holds_def)
qed

lemma skip_string_over:
  "holds s p (x @ [0]) \<Longrightarrow> 0 \<notin> set x \<Longrightarrow> skip_string p s = Done (p + 1 + of_nat (length x)) s"
proof (induction x arbitrary: p)
  case Nil
  then show ?case by (simp add: skip_string_def loop_unfold get_fs_byte_def)
next
  case (Cons c x)
  then have "skip_string p s = skip_string (p + 1) s"
    by (subst skip_string_def, subst loop_unfold) (auto simp: get_fs_byte_def skip_string_def)
  then show ?case using Cons by (simp add: add.assoc)
qed

lemma fs_mem_put_fs_long:
  assumes "b + 4 \<le> 2 ^ 32" "x < 2 ^ 32" "x < b \<or> b + 4 \<le> x"
  shows "fs_mem (put_fs_long v (of_nat b) s) (of_nat x) = fs_mem s (of_nat x)"
proof -
  have ne: "(of_nat x :: u32) \<noteq> of_nat (b + i)" if "i < 4" for i
  proof -
    have "x mod 2 ^ 32 \<noteq> (b + i) mod 2 ^ 32" using assms that by auto
    then show ?thesis by (simp add: word_unat_eq_iff unat_of_nat del: of_nat_add)
  qed
  show ?thesis using ne[of 0] ne[of 1] ne[of 2] ne[of 3] by (simp add: put_fs_long_def add.commute[of 1] add.commute[of 2])
qed

lemma get_fs_long_same:
  assumes "\<And>i. i < 4 \<Longrightarrow> fs_mem t (of_nat (a + i)) = fs_mem s (of_nat (a + i))"
  shows "get_fs_long (of_nat a) t = get_fs_long (of_nat a) s"
proof -
  have "fs_mem t (of_nat a + of_nat i) = fs_mem s (of_nat a + of_nat i)" if "i < 4" for i
    using assms[OF that] by simp
  from this[of 0] this[of 1] this[of 2] this[of 3] show ?thesis by (simp add: get_fs_long_def)
qed

text \<open>\<open>fill_table\<close> writes the table only, and each pointer is where the string begins.\<close>

lemma fill_table_result:
  assumes "holds s (of_nat p) (strings_bytes xs)" "\<forall>x\<in>set xs. 0 \<notin> set x"
    "table + 4 * (length xs + 1) \<le> p" "p + length (strings_bytes xs) \<le> 2 ^ 32"
  shows "\<exists>t. fill_table (length xs) (of_nat table) (of_nat p) s = Done (of_nat (p + length (strings_bytes xs))) t \<and>
    (\<forall>x<2 ^ 32. x < table \<or> table + 4 * (length xs + 1) \<le> x \<longrightarrow> fs_mem t (of_nat x) = fs_mem s (of_nat x)) \<and>
    (\<forall>i<length xs. get_fs_long (of_nat (table + 4 * i)) t = of_nat (p + length (strings_bytes (take i xs)))) \<and>
    get_fs_long (of_nat (table + 4 * length xs)) t = 0"
  using assms
proof (induction xs arbitrary: table p s)
  case Nil
  then show ?case by (auto intro: fs_mem_put_fs_long)
next
  case (Cons x xs)
  let ?s = "put_fs_long (of_nat p) (of_nat table) s" and ?p = "p + (length x + 1)"
  have out: "fs_mem ?s (of_nat a) = fs_mem s (of_nat a)" if "a < 2 ^ 32" "a < table \<or> table + 4 \<le> a" for a
    using fs_mem_put_fs_long[of table a] that Cons.prems by simp
  have h: "holds ?s (of_nat p) (strings_bytes (x # xs))"
    by (rule holds_cong[OF Cons.prems(1), where b = "2 ^ 32"]) (use Cons.prems(3,4) out in simp_all)
  then have "holds ?s (of_nat p) (x @ [0])" by simp
  then have skip: "skip_string (of_nat p) ?s = Done (of_nat ?p) ?s"
    using Cons.prems(2) by (subst skip_string_over[where x = x]) (simp_all add: add.assoc add.left_commute)
  have "holds ?s (of_nat ?p) (strings_bytes xs)"
    using h by (simp add: add.assoc add.left_commute add.commute)
  then obtain t where t: "fill_table (length xs) (of_nat (table + 4)) (of_nat ?p) ?s = Done (of_nat (?p + length (strings_bytes xs))) t"
      "\<And>a. a < 2 ^ 32 \<Longrightarrow> a < table + 4 \<or> table + 4 + 4 * (length xs + 1) \<le> a \<Longrightarrow> fs_mem t (of_nat a) = fs_mem ?s (of_nat a)"
      "\<And>i. i < length xs \<Longrightarrow> get_fs_long (of_nat (table + 4 + 4 * i)) t = of_nat (?p + length (strings_bytes (take i xs)))"
      "get_fs_long (of_nat (table + 4 + 4 * length xs)) t = 0"
    using Cons.IH[of ?s ?p "table + 4"] Cons.prems(2-4) by auto
  have "get_fs_long (of_nat table) t = get_fs_long (of_nat table) ?s"
    by (rule get_fs_long_same, rule t(2)) (use Cons.prems(3,4) in auto)
  then have first: "get_fs_long (of_nat table) t = of_nat p" by simp
  have "get_fs_long (of_nat (table + 4 * i)) t = of_nat (p + length (strings_bytes (take i (x # xs))))"
    if "i < length (x # xs)" for i
    using that first t(3)[of "i - 1"] by (cases i) (simp_all add: algebra_simps)
  moreover have "fill_table (length (x # xs)) (of_nat table) (of_nat p) s = Done (of_nat (p + length (strings_bytes (x # xs)))) t"
    using skip t(1) by (simp add: algebra_simps)
  moreover have "fs_mem t (of_nat a) = fs_mem s (of_nat a)"
    if "a < 2 ^ 32" "a < table \<or> table + 4 * (length (x # xs) + 1) \<le> a" for a
    using t(2)[of a] out[of a] that by auto
  moreover have "get_fs_long (of_nat (table + 4 * length (x # xs))) t = 0"
    using t(4) by (simp add: algebra_simps)
  ultimately show ?case by blast
qed

lemma get_fs_long_put_nat:
  assumes "a + 4 \<le> 2 ^ 32" "b + 4 \<le> 2 ^ 32" "a + 4 \<le> b \<or> b + 4 \<le> a"
  shows "get_fs_long (of_nat a) (put_fs_long v (of_nat b) s) = get_fs_long (of_nat a) s"
  by (rule get_fs_long_same, rule fs_mem_put_fs_long) (use assms in auto)

lemma align_word: "(0xfffffffc :: u32) AND p = of_nat (4 * (unat p div 4))"
proof -
  have m: "(0xfffffffc :: u32) = NOT (mask 2)"
    by (simp add: mask_eq_exp_minus_1 word_eq_iff_unsigned)
  have "(0xfffffffc :: u32) AND p = push_bit 2 (drop_bit 2 p)"
    unfolding m by (rule bit_word_eqI) (auto simp: bit_simps not_less dest!: le_Suc_ex)
  also have "\<dots> = 4 * (p div 4)" by (simp add: drop_bit_eq_div push_bit_eq_mult)
  also have "p div 4 = of_nat (unat p div 4)" by (simp add: unat_div[symmetric, of p 4, simplified])
  finally show ?thesis by simp
qed

lemma holds_nth_string:
  assumes "holds s p (strings_bytes xs)" "i < length xs"
  shows "holds s (p + of_nat (length (strings_bytes (take i xs)))) (xs ! i @ [0])"
proof -
  have "strings_bytes xs = strings_bytes (take i xs) @ strings_bytes (xs ! i # drop (Suc i) xs)"
    using id_take_nth_drop[OF assms(2)] by (metis strings_bytes_simps(3))
  then show ?thesis using assms(1) by (auto simp: add.assoc)
qed

lemma strings_bytes_take_le: "i < length xs \<Longrightarrow> length (strings_bytes (take i xs)) + length (xs ! i) + 1 \<le> length (strings_bytes xs)"
proof -
  assume "i < length xs"
  then have "strings_bytes xs = strings_bytes (take i xs) @ strings_bytes (xs ! i # drop (Suc i) xs)"
    using id_take_nth_drop by (metis strings_bytes_simps(3))
  then show ?thesis by simp
qed

text \<open>A table that is filled, in a state where the strings are still there.\<close>

lemma string_tableI:
  assumes "holds t (of_nat p) (strings_bytes xs)"
    "\<forall>i<length xs. get_fs_long (of_nat (table + 4 * i)) t = of_nat (p + length (strings_bytes (take i xs)))"
    "get_fs_long (of_nat (table + 4 * length xs)) t = 0"
  shows "string_table t (of_nat table) xs"
  using assms holds_nth_string[OF assms(1)] by (simp add: string_table_def)

text \<open>Both tables, the one of the arguments below the one of the environment.\<close>

lemma both_tables:
  assumes h: "holds s (of_nat p) (strings_bytes (args @ envs))" and nz: "\<forall>x\<in>set (args @ envs). 0 \<notin> set x"
    and e: "e = a + 4 * (length args + 1)" and room: "e + 4 * (length envs + 1) \<le> p"
    and top: "p + length (strings_bytes args) + length (strings_bytes envs) \<le> 2 ^ 32"
  shows "\<exists>t. and_then (fill_table (length args) (of_nat a) (of_nat p) s) (fill_table (length envs) (of_nat e)) =
      Done (of_nat (p + length (strings_bytes args) + length (strings_bytes envs))) t \<and>
    string_table t (of_nat a) args \<and> string_table t (of_nat e) envs \<and>
    (\<forall>b. b + 4 \<le> a \<longrightarrow> get_fs_long (of_nat b) t = get_fs_long (of_nat b) s)"
proof -
  let ?n = "length (strings_bytes args)" and ?m = "length (strings_bytes envs)"
  obtain t1 where t1: "fill_table (length args) (of_nat a) (of_nat p) s = Done (of_nat (p + ?n)) t1"
      "\<And>x. x < 2 ^ 32 \<Longrightarrow> x < a \<or> e \<le> x \<Longrightarrow> fs_mem t1 (of_nat x) = fs_mem s (of_nat x)"
      "\<forall>i<length args. get_fs_long (of_nat (a + 4 * i)) t1 = of_nat (p + length (strings_bytes (take i args)))"
      "get_fs_long (of_nat (a + 4 * length args)) t1 = 0"
    using fill_table_result[of s p args a] h nz e room top by auto
  have "holds t1 (of_nat p) (strings_bytes (args @ envs))"
    by (rule holds_cong[OF h, where b = "2 ^ 32"]) (use top t1(2) e room in simp_all)
  then have h1: "holds t1 (of_nat p) (strings_bytes args)" "holds t1 (of_nat (p + ?n)) (strings_bytes envs)" by simp_all
  obtain t2 where t2: "fill_table (length envs) (of_nat e) (of_nat (p + ?n)) t1 = Done (of_nat (p + ?n + ?m)) t2"
      "\<And>x. x < 2 ^ 32 \<Longrightarrow> x < e \<or> e + 4 * (length envs + 1) \<le> x \<Longrightarrow> fs_mem t2 (of_nat x) = fs_mem t1 (of_nat x)"
      "\<forall>i<length envs. get_fs_long (of_nat (e + 4 * i)) t2 = of_nat (p + ?n + length (strings_bytes (take i envs)))"
      "get_fs_long (of_nat (e + 4 * length envs)) t2 = 0"
    using fill_table_result[of t1 "p + ?n" envs e] h1(2) nz room top by auto
  have h2: "holds t2 (of_nat p) (strings_bytes args)" "holds t2 (of_nat (p + ?n)) (strings_bytes envs)"
    using holds_cong[OF h1(1), where t = t2 and b = "2 ^ 32"] holds_cong[OF h1(2), where t = t2 and b = "2 ^ 32"]
      t2(2) top room by auto
  have keep2: "get_fs_long (of_nat b) t2 = get_fs_long (of_nat b) t1" if "b + 4 \<le> e" for b
    by (rule get_fs_long_same, rule t2(2)) (use that room top in auto)
  have keep1: "get_fs_long (of_nat b) t1 = get_fs_long (of_nat b) s" if "b + 4 \<le> a" for b
    by (rule get_fs_long_same, rule t1(2)) (use that e room top in auto)
  have "string_table t2 (of_nat a) args"
    by (rule string_tableI[OF h2(1)]) (use t1(3,4) e in \<open>simp_all add: keep2 del: of_nat_add\<close>)
  moreover have "string_table t2 (of_nat e) envs"
    by (rule string_tableI[OF h2(2)]) (use t2(3,4) in simp_all)
  ultimately show ?thesis
    using t1(1) t2(1) keep1 keep2 e by (simp del: of_nat_add)
qed

text \<open>
  C26. What main finds. If the strings of the arguments and of the environment stand one behind the other from \<open>p\<close> on, up to
  the end of the address space at most and with enough room for the tables below, create_tables returns a stack pointer at which the new program finds argc, then the address of
  a table with a pointer to every argument in order and a final NULL, then the address of such a table for the
  environment; the strings themselves are untouched by the tables.
\<close>

theorem create_tables_for_main:
  fixes p :: u32
  assumes "holds s p (strings_bytes (args @ envs))" "\<forall>x\<in>set (args @ envs). 0 \<notin> set x"
    "4 * (length args + length envs) + 24 \<le> unat p" "unat p + length (strings_bytes (args @ envs)) \<le> 2 ^ 32"
  shows "\<exists>sp t. create_tables p (length args) (length envs) s = Done sp t \<and>
    get_fs_long sp t = of_nat (length args) \<and>
    string_table t (get_fs_long (sp + 4) t) args \<and> string_table t (get_fs_long (sp + 8) t) envs"
proof -
  define P S where "P = unat p" and "S = 4 * (unat p div 4)"
  obtain B where B: "S = B + 12 + 4 * (length args + 1) + 4 * (length envs + 1)"
  proof
    show "S = (S - 4 * (length args + length envs + 2) - 12) + 12 + 4 * (length args + 1) + 4 * (length envs + 1)"
      using assms(3) by (simp add: S_def)
  qed
  define A E where "A = B + 12" and "E = A + 4 * (length args + 1)"
  have p: "p = of_nat P" by (simp add: P_def)
  have room: "E + 4 * (length envs + 1) \<le> P" 
    using B by (simp add: A_def E_def P_def S_def)
  have top: "P + length (strings_bytes args) + length (strings_bytes envs) \<le> 2 ^ 32" using assms(4) by (simp add: P_def)
  define s1 where "s1 = put_fs_long (of_nat (length args)) (of_nat B)
    (put_fs_long (of_nat A) (of_nat (B + 4)) (put_fs_long (of_nat E) (of_nat (B + 8)) s))"
  have "fs_mem s1 (of_nat x) = fs_mem s (of_nat x)" if "x < 2 ^ 32" "P \<le> x" for x
    unfolding s1_def using that top room by (simp add: fs_mem_put_fs_long A_def E_def del: of_nat_add)
  then have "holds s1 (of_nat P) (strings_bytes (args @ envs))"
    using assms(1) top by (intro holds_cong[where b = "2 ^ 32" and s = s and t = s1]) (simp_all add: p)
  then obtain t where t: "and_then (fill_table (length args) (of_nat A) (of_nat P) s1) (fill_table (length envs) (of_nat E)) =
        Done (of_nat (P + length (strings_bytes args) + length (strings_bytes envs))) t"
      "string_table t (of_nat A) args" "string_table t (of_nat E) envs"
      "\<And>b. b + 4 \<le> A \<Longrightarrow> get_fs_long (of_nat b) t = get_fs_long (of_nat b) s1"
    using both_tables[OF _ assms(2) E_def room top] by blast
  have heads: "get_fs_long (of_nat B) t = of_nat (length args)" "get_fs_long (of_nat (B + 4)) t = of_nat A"
      "get_fs_long (of_nat (B + 8)) t = of_nat E"
    using top room by (simp_all add: t(4) s1_def get_fs_long_put_nat A_def E_def del: of_nat_add)
  have words: "(of_nat S - 4 * of_nat (length envs + 1) :: u32) = of_nat E"
      "(of_nat E - 4 * of_nat (length args + 1) :: u32) = of_nat A"
      "(of_nat A :: u32) - 12 = of_nat B" "(of_nat A :: u32) - 8 = of_nat (B + 4)" "(of_nat A :: u32) - 4 = of_nat (B + 8)"
    by (simp_all add: B A_def E_def)
  have "create_tables p (length args) (length envs) s = Done (of_nat B) t"
    unfolding create_tables_def Let_def align_word S_def[symmetric] words
    using t(1) by (auto simp: s1_def p and_then_assoc[symmetric] and_then_Done_iff simp del: of_nat_add)
  then show ?thesis using t(2,3) heads by (auto simp: add.commute)
qed

definition demo_strings :: kstate where
  "demo_strings = demo_kernel\<lparr>fs_mem := (\<lambda>a. if a = 0x3000 \<or> a = 0x3002 then 0x61 else 0)\<rparr>"

theorem create_tables_for_main_witness:
  "\<exists>sp t. create_tables 0x3000 1 1 demo_strings = Done sp t \<and> get_fs_long sp t = 1 \<and>
    string_table t (get_fs_long (sp + 4) t) [[0x61]] \<and> string_table t (get_fs_long (sp + 8) t) [[0x61]]"
  using create_tables_for_main[of demo_strings "0x3000" "[[0x61]]" "[[0x61]]"] by (simp add: demo_strings_def)

end
