(* ===== verification/Kernel_Malloc.thy ===== *)
theory Kernel_Malloc
  imports Memory_Props Linked_Lists
begin

section \<open>The kernel's malloc\<close>

text \<open>
  \<^verbatim>\<open>lib/malloc.c\<close>. A bucket is a page of objects of one size; the free objects of a page are strung together through
  their first \<open>long\<close>, in \<open>pmem\<close>. The bucket descriptors, which the code keeps in pages of their own, 256 to a page, are
  the store \<open>descs\<close>; a pointer to one is its address, 0 is NULL. \<open>bucket_chain k\<close> is the field \<open>chain\<close> of \<^verbatim>\<open>bucket_dir[k]\<close>, the
  bucket size is \<open>16 * 2 ^ k\<close>. \<^verbatim>\<open>cli\<close> and \<^verbatim>\<open>sti\<close> have no effect in the model.
\<close>

unbundle bit_operations_syntax

record bucket_desc =
  bd_page :: u32
  bd_next :: u32
  bd_freeptr :: u32
  bd_refcnt :: u16
  bd_size :: u16

record malloc_state = mm_state +
  bucket_chain :: "nat \<Rightarrow> u32"
  descs :: "u32 \<Rightarrow> bucket_desc"
  free_bucket_desc :: u32

type_synonym 'a malloc_out = "(malloc_state, 'a) outcome"

definition bucket_dir :: "u32 list" where
  "bucket_dir = map (\<lambda>k. 16 * 2 ^ k) [0..<9]"

definition upd_desc :: "u32 \<Rightarrow> (bucket_desc \<Rightarrow> bucket_desc) \<Rightarrow> malloc_state \<Rightarrow> malloc_state" where
  "upd_desc b f s = s\<lparr>descs := (descs s)(b := f (descs s b))\<rparr>"

text \<open>The 256 descriptors of a new page, which is all zero, are put in front of the free ones.\<close>

definition no_desc :: bucket_desc where
  "no_desc = \<lparr>bd_page = 0, bd_next = 0, bd_freeptr = 0, bd_refcnt = 0, bd_size = 0\<rparr>"

definition init_bucket_desc :: "malloc_state \<Rightarrow> unit malloc_out" where
  "init_bucket_desc s =
    and_then (get_free_page s) (\<lambda>first s.
      if first = 0 then Panics ''Out of memory in init_bucket_desc()''
      else
        let s = fold (\<lambda>i. upd_desc (first + 16 * of_nat i) (\<lambda>_. no_desc\<lparr>bd_next := first + 16 * of_nat (i + 1)\<rparr>)) [0..<255] s;
            s = upd_desc (first + 16 * 255) (\<lambda>_. no_desc\<lparr>bd_next := free_bucket_desc s\<rparr>) s
        in Done () (s\<lparr>free_bucket_desc := first\<rparr>))"

text \<open>A page is cut into \<open>n + 1\<close> objects of a size.\<close>

primrec free_objects :: "nat \<Rightarrow> u32 \<Rightarrow> u32 \<Rightarrow> malloc_state \<Rightarrow> malloc_state" where
  "free_objects 0 sz cp s = write_long cp 0 s"
| "free_objects (Suc n) sz cp s = free_objects n sz (cp + sz) (write_long cp (cp + sz) s)"

definition new_bucket :: "nat \<Rightarrow> malloc_state \<Rightarrow> u32 malloc_out" where
  "new_bucket k s =
    (let sz = bucket_dir ! k in
     and_then (if free_bucket_desc s = 0 then init_bucket_desc s else Done () s) (\<lambda>_ s.
       let b = free_bucket_desc s;
           s = upd_desc b (\<lambda>d. d\<lparr>bd_refcnt := 0, bd_size := ucast sz\<rparr>) (s\<lparr>free_bucket_desc := bd_next (descs s b)\<rparr>) in
       and_then (get_free_page s) (\<lambda>cp s.
         if cp = 0 then Panics ''Out of memory in kernel malloc()''
         else
           let s = free_objects (unat (4096 div sz) - 1) sz cp (upd_desc b (\<lambda>d. d\<lparr>bd_page := cp, bd_freeptr := cp\<rparr>) s);
               s = upd_desc b (\<lambda>d. d\<lparr>bd_next := bucket_chain s k\<rparr>) s
           in Done b (s\<lparr>bucket_chain := (bucket_chain s)(k := b)\<rparr>))))"

definition find_bucket :: "u32 \<Rightarrow> malloc_state \<Rightarrow> u32 malloc_out" where
  "find_bucket =
    loop (\<lambda>b s. Done (if b = 0 \<or> bd_freeptr (descs s b) \<noteq> 0 then Leave b else Again (bd_next (descs s b))) s)"

definition take_object :: "u32 \<Rightarrow> malloc_state \<Rightarrow> u32 malloc_out" where
  "take_object b s =
    (let retval = bd_freeptr (descs s b)
     in Done retval (upd_desc b (\<lambda>d. d\<lparr>bd_freeptr := pmem s retval, bd_refcnt := bd_refcnt d + 1\<rparr>) s))"

definition malloc :: "u32 \<Rightarrow> malloc_state \<Rightarrow> u32 malloc_out" where
  "malloc len s =
    (case find (\<lambda>k. bucket_dir ! k \<ge> len) [0..<9] of
       None \<Rightarrow> Panics ''malloc: bad arg''
     | Some k \<Rightarrow>
         and_then (find_bucket (bucket_chain s k) s) (\<lambda>b s.
         and_then (if b = 0 then new_bucket k s else Done b s) take_object))"

text \<open>The search of a chain for the bucket of a page, with the descriptor before it.\<close>

definition find_page :: "u32 \<Rightarrow> u32 \<Rightarrow> malloc_state \<Rightarrow> (u32 \<times> u32) malloc_out" where
  "find_page page first =
    loop (\<lambda>(prev, b) s.
      Done (if b = 0 \<or> bd_page (descs s b) = page then Leave (prev, b) else Again (b, bd_next (descs s b))) s) (0, first)"

text \<open>All chains of a size that is large enough; the result is the number of the chain, \<open>prev\<close> and the descriptor.\<close>

definition find_object :: "u32 \<Rightarrow> int \<Rightarrow> malloc_state \<Rightarrow> (nat \<times> u32 \<times> u32) option malloc_out" where
  "find_object page sz s =
    fold_outcome (\<lambda>k found s.
      if found \<noteq> None \<or> sint (bucket_dir ! k) < sz then Done found s
      else and_then (find_page page (bucket_chain s k) s) (\<lambda>(prev, b). Done (if b = 0 then None else Some (k, prev, b))))
      [0..<9] None s"

text \<open>\<open>prev\<close> again, if an interrupt has changed the chain.\<close>

definition find_prev :: "u32 \<Rightarrow> u32 \<Rightarrow> malloc_state \<Rightarrow> u32 malloc_out" where
  "find_prev b =
    loop (\<lambda>prev s. Done (if prev = 0 \<or> bd_next (descs s prev) = b then Leave prev else Again (bd_next (descs s prev))) s)"

definition free_bucket :: "nat \<Rightarrow> u32 \<Rightarrow> u32 \<Rightarrow> malloc_state \<Rightarrow> unit malloc_out" where
  "free_bucket k prev b s =
    and_then
      (if prev \<noteq> 0 \<and> bd_next (descs s prev) \<noteq> b \<or> prev = 0 \<and> bucket_chain s k \<noteq> b
       then find_prev b (bucket_chain s k) s else Done prev s)
      (\<lambda>prev s.
        and_then
          (if prev \<noteq> 0 then Done () (upd_desc prev (\<lambda>d. d\<lparr>bd_next := bd_next (descs s b)\<rparr>) s)
           else if bucket_chain s k \<noteq> b then Panics ''malloc bucket chains corrupted''
           else Done () (s\<lparr>bucket_chain := (bucket_chain s)(k := bd_next (descs s b))\<rparr>))
          (\<lambda>_ s.
            and_then (free_page (bd_page (descs s b)) s) (\<lambda>_ s.
              Done () ((upd_desc b (\<lambda>d. d\<lparr>bd_next := free_bucket_desc s\<rparr>) s)\<lparr>free_bucket_desc := b\<rparr>))))"

definition free_s :: "u32 \<Rightarrow> int \<Rightarrow> malloc_state \<Rightarrow> unit malloc_out" where
  "free_s obj sz s =
    and_then (find_object (obj AND 0xfffff000) sz s) (\<lambda>found s.
      case found of
        None \<Rightarrow> Panics ''Bad address passed to kernel free_s()''
      | Some (k, prev, b) \<Rightarrow>
          let s = write_long obj (bd_freeptr (descs s b)) s;
              s = upd_desc b (\<lambda>d. d\<lparr>bd_freeptr := obj, bd_refcnt := bd_refcnt d - 1\<rparr>) s
          in if bd_refcnt (descs s b) = 0 then free_bucket k prev b s else Done () s)"

end
