(* ===== verification/Malloc_Heap.thy ===== *)
theory Malloc_Heap
  imports Kernel_Malloc
begin

section \<open>The kernel's malloc hands out separate blocks\<close>

text \<open>
  A well-formed heap, \<open>heap_ok\<close>: the chains of the bucket sizes and the free descriptors are disjoint lists, no two buckets
  share a page, the free objects of a bucket are objects of its page and the reference count is the number of the
  others, and descriptors do not stand in pages of buckets. \<open>bs k\<close> is the list of the buckets of chain \<open>k\<close>, \<open>fl b\<close> the
  list of the free objects of bucket \<open>b\<close>, \<open>fs\<close> that of the free descriptors. \<open>heap s live\<close> hides the three: \<open>live\<close> is the set
  of the objects that are handed out, with the number of their size. The lemmas say what taking an object, a new page
  of descriptors and a new bucket do to it.
\<close>

unbundle bit_operations_syntax

subsection \<open>Objects of a page\<close>

definition obj_count :: "nat \<Rightarrow> nat" where
  "obj_count k = 256 div 2 ^ k"

definition objects :: "nat \<Rightarrow> u32 \<Rightarrow> u32 list" where
  "objects k page = map (\<lambda>i. page + of_nat (i * (16 * 2 ^ k))) [0..<obj_count k]"

lemma below_9: "k < 9 \<Longrightarrow> k \<in> {0, 1, 2, 3, 4, 5, 6, 7, 8 :: nat}" by auto

lemma bucket_dir_nth: "k < 9 \<Longrightarrow> bucket_dir ! k = 16 * 2 ^ k"
  by (simp add: bucket_dir_def)

lemma unat_bucket_dir: "k < 9 \<Longrightarrow> unat (bucket_dir ! k) = 16 * 2 ^ k"
  by (drule below_9) (auto simp: bucket_dir_def)

lemma obj_count_times: "k < 9 \<Longrightarrow> obj_count k * (16 * 2 ^ k) = 4096"
  by (drule below_9) (auto simp: obj_count_def)

lemma obj_count_pos: "k < 9 \<Longrightarrow> 0 < obj_count k"
  by (drule below_9) (auto simp: obj_count_def)

lemma obj_count_le: "obj_count k \<le> 256"
  by (simp add: obj_count_def)

lemma length_objects [simp]: "length (objects k page) = obj_count k"
  by (simp add: objects_def)

definition block :: "u32 \<times> nat \<Rightarrow> u32 set" where
  "block ak = {x. x - fst ak < bucket_dir ! snd ak}"

text \<open>An address in an object determines the page and the object.\<close>

lemma object_of_address:
  assumes k: "k < 9" and pg: "frame page = page" and a: "a \<in> set (objects k page)" and x: "x - a < bucket_dir ! k"
  shows "frame x = page \<and> a = page + of_nat (unat (x - page) div (16 * 2 ^ k) * (16 * 2 ^ k))"
proof -
  define z where "z = (16 * 2 ^ k :: nat)"
  obtain i where i: "i < obj_count k" "a = page + of_nat (i * z)"
    using a by (auto simp: objects_def z_def)
  have "(i + 1) * z \<le> obj_count k * z" using i(1) by (intro mult_le_mono1) simp
  then have iz: "i * z + z \<le> 4096" using obj_count_times[OF k] by (simp add: z_def)
  have d: "unat (x - a) < z" using x unat_bucket_dir[OF k] by (simp add: word_less_nat_alt z_def)
  have "x - page = of_nat (i * z) + of_nat (unat (x - a))" using i(2) by simp
  then have "unat (x - page) = (i * z + unat (x - a)) mod 2 ^ 32"
    by (simp only: of_nat_add[symmetric] unat_of_nat) simp
  then have u: "unat (x - page) = i * z + unat (x - a)" using iz d by simp
  then have "unat (x - page) div z = i" using d by simp
  moreover have "x - page < 4096" using u iz d by (simp add: word_less_nat_alt)
  then have "frame (page + (x - page)) = page" by (rule frame_add_offset[OF pg])
  ultimately show ?thesis using i(2) by (simp add: z_def)
qed

lemma objects_frame: "k < 9 \<Longrightarrow> frame page = page \<Longrightarrow> a \<in> set (objects k page) \<Longrightarrow> frame a = page"
  using object_of_address[of k page a a] bucket_dir_nth[of k] unat_bucket_dir[of k] by (simp add: word_less_nat_alt)

lemma distinct_objects: "k < 9 \<Longrightarrow> distinct (objects k page)"
proof -
  assume k: "k < 9"
  have "i = j" if "i < obj_count k" "j < obj_count k" "(of_nat (i * (16 * 2 ^ k)) :: u32) = of_nat (j * (16 * 2 ^ k))" for i j
  proof -
    have "i * (16 * 2 ^ k) < 4096" "j * (16 * 2 ^ k) < 4096"
      using mult_less_mono1[OF that(1), of "16 * 2 ^ k"] mult_less_mono1[OF that(2), of "16 * 2 ^ k"] obj_count_times[OF k]
      by simp_all
    then have "i * (16 * 2 ^ k) = j * (16 * 2 ^ k)"
      using that(3) by (simp only: word_unat_eq_iff unat_of_nat) simp
    then show ?thesis by simp
  qed
  then show ?thesis by (auto simp: objects_def distinct_map inj_on_def simp del: of_nat_mult)
qed

subsection \<open>A well-formed heap\<close>

definition bucket_ok :: "malloc_state \<Rightarrow> nat \<Rightarrow> u32 \<Rightarrow> u32 list \<Rightarrow> bool" where
  "bucket_ok s k b f \<longleftrightarrow>
    (let d = descs s b in
     (\<exists>i<PAGING_PAGES. bd_page d = page_addr i \<and> mem_map s i = 1 \<and> page_addr i < HIGH_MEMORY s) \<and>
     path_to (pmem s) (bd_freeptr d) f \<and> distinct f \<and> set f \<subseteq> set (objects k (bd_page d)) \<and>
     unat (bd_refcnt d) + length f = obj_count k)"

definition next_desc :: "malloc_state \<Rightarrow> u32 \<Rightarrow> u32" where
  "next_desc s b = bd_next (descs s b)"

definition apart :: "(nat \<Rightarrow> u32 list) \<Rightarrow> u32 list \<Rightarrow> bool" where
  "apart bs fs \<longleftrightarrow> distinct fs \<and> (\<forall>k<9. distinct (bs k) \<and> set (bs k) \<inter> set fs = {}) \<and>
    (\<forall>j<9. \<forall>k<9. j \<noteq> k \<longrightarrow> set (bs j) \<inter> set (bs k) = {})"

lemma apart_same: "apart bs fs \<Longrightarrow> b \<in> set (bs j) \<Longrightarrow> b \<in> set (bs k) \<Longrightarrow> j < 9 \<Longrightarrow> k < 9 \<Longrightarrow> k = j"
  unfolding apart_def by blast

definition buckets :: "(nat \<Rightarrow> u32 list) \<Rightarrow> u32 set" where
  "buckets bs = (\<Union>k<9. set (bs k))"

definition heap_ok :: "malloc_state \<Rightarrow> (nat \<Rightarrow> u32 list) \<Rightarrow> (u32 \<Rightarrow> u32 list) \<Rightarrow> u32 list \<Rightarrow> bool" where
  "heap_ok s bs fl fs \<longleftrightarrow>
    map_within_memory s \<and> apart bs fs \<and>
    (\<forall>k<9. path_to (next_desc s) (bucket_chain s k) (bs k) \<and> (\<forall>b\<in>set (bs k). bucket_ok s k b (fl b))) \<and>
    path_to (next_desc s) (free_bucket_desc s) fs \<and>
    inj_on (\<lambda>b. bd_page (descs s b)) (buckets bs) \<and>
    (\<forall>b\<in>buckets bs \<union> set fs. \<exists>i<PAGING_PAGES. frame b = page_addr i \<and> mem_map s i \<noteq> 0 \<and>
      (\<forall>c\<in>buckets bs. bd_page (descs s c) \<noteq> frame b))"

definition allocated :: "malloc_state \<Rightarrow> (nat \<Rightarrow> u32 list) \<Rightarrow> (u32 \<Rightarrow> u32 list) \<Rightarrow> (u32 \<times> nat) set" where
  "allocated s bs fl = {(a, k). k < 9 \<and> (\<exists>b\<in>set (bs k). a \<in> set (objects k (bd_page (descs s b))) - set (fl b))}"

definition heap :: "malloc_state \<Rightarrow> (u32 \<times> nat) set \<Rightarrow> bool" where
  "heap s live \<longleftrightarrow> (\<exists>bs fl fs. heap_ok s bs fl fs \<and> live = allocated s bs fl)"

lemma bucketsI: "k < 9 \<Longrightarrow> b \<in> set (bs k) \<Longrightarrow> b \<in> buckets bs"
  by (auto simp: buckets_def)

lemma bucket_page:
  assumes "bucket_ok s k b f"
  shows "frame (bd_page (descs s b)) = bd_page (descs s b)"
  using assms by (auto simp: bucket_ok_def Let_def)

lemma heap_okD:
  assumes "heap_ok s bs fl fs" "k < 9" "b \<in> set (bs k)"
  shows "bucket_ok s k b (fl b)" "b \<in> buckets bs" "b \<noteq> 0"
  using assms path_to_nonzero[of "next_desc s" "bucket_chain s k" "bs k"] by (auto simp: heap_ok_def intro: bucketsI)

lemma page_owner:
  assumes h: "heap_ok s bs fl fs" and b: "k < 9" "b \<in> set (bs k)" and c: "j < 9" "c \<in> set (bs j)"
    and pg: "bd_page (descs s b) = bd_page (descs s c)"
  shows "b = c \<and> k = j"
proof -
  have "inj_on (\<lambda>b. bd_page (descs s b)) (buckets bs)" "apart bs fs" using h by (simp_all add: heap_ok_def)
  then have "b = c" using pg heap_okD(2)[OF h b] heap_okD(2)[OF h c] by (blast dest: inj_onD)
  then show ?thesis using apart_same[OF \<open>apart bs fs\<close> _ c(2) b(1) c(1)] apart_same[OF \<open>apart bs fs\<close> c(2) _ c(1) b(1)] b(2) by blast
qed

lemma object_owner:
  assumes h: "heap_ok s bs fl fs" and b: "k < 9" "b \<in> set (bs k)" and c: "j < 9" "c \<in> set (bs j)"
    and a: "a \<in> set (objects k (bd_page (descs s b)))" "a \<in> set (objects j (bd_page (descs s c)))"
  shows "b = c \<and> k = j"
proof (rule page_owner[OF h b c])
  have "frame a = bd_page (descs s b)"
    by (rule objects_frame[OF b(1) bucket_page[OF heap_okD(1)[OF h b]] a(1)])
  moreover have "frame a = bd_page (descs s c)"
    by (rule objects_frame[OF c(1) bucket_page[OF heap_okD(1)[OF h c]] a(2)])
  ultimately show "bd_page (descs s b) = bd_page (descs s c)" by simp
qed

text \<open>Blocks that are handed out do not overlap.\<close>

lemma heap_blocks_disjoint:
  assumes "heap_ok s bs fl fs" "(a, k) \<in> allocated s bs fl" "(c, j) \<in> allocated s bs fl" "x \<in> block (a, k)" "x \<in> block (c, j)"
  shows "a = c \<and> k = j"
proof -
  obtain b where b: "k < 9" "b \<in> set (bs k)" "a \<in> set (objects k (bd_page (descs s b)))"
    using assms(2) by (auto simp: allocated_def)
  obtain d where d: "j < 9" "d \<in> set (bs j)" "c \<in> set (objects j (bd_page (descs s d)))"
    using assms(3) by (auto simp: allocated_def)
  note pb = bucket_page[OF heap_okD(1)[OF assms(1) b(1,2)]] and pd = bucket_page[OF heap_okD(1)[OF assms(1) d(1,2)]]
  have xa: "frame x = bd_page (descs s b)"
      "a = bd_page (descs s b) + of_nat (unat (x - bd_page (descs s b)) div (16 * 2 ^ k) * (16 * 2 ^ k))"
    using object_of_address[OF b(1) pb b(3), of x] assms(4) by (simp_all add: block_def)
  have xc: "frame x = bd_page (descs s d)"
      "c = bd_page (descs s d) + of_nat (unat (x - bd_page (descs s d)) div (16 * 2 ^ j) * (16 * 2 ^ j))"
    using object_of_address[OF d(1) pd d(3), of x] assms(5) by (simp_all add: block_def)
  have "b = d \<and> k = j" using page_owner[OF assms(1) b(1,2) d(1,2)] xa(1) xc(1) by simp
  then show ?thesis using xa(2) xc(2) by simp
qed

subsection \<open>Taking an object from a bucket\<close>

lemma descs_upd [simp]:
  "descs (upd_desc b f s) = (descs s)(b := f (descs s b))" "pmem (upd_desc b f s) = pmem s"
  "mem_map (upd_desc b f s) = mem_map s" "HIGH_MEMORY (upd_desc b f s) = HIGH_MEMORY s"
  "bucket_chain (upd_desc b f s) = bucket_chain s" "free_bucket_desc (upd_desc b f s) = free_bucket_desc s"
  "map_within_memory (upd_desc b f s) = map_within_memory s"
  by (simp_all add: upd_desc_def map_within_memory_def)

lemma bucket_ok_other [simp]: "c \<noteq> b \<Longrightarrow> bucket_ok (upd_desc b f s) k c g = bucket_ok s k c g"
  by (simp add: bucket_ok_def Let_def)

text \<open>A descriptor whose page and successor stay what they are.\<close>

lemma heap_ok_upd_desc:
  assumes "heap_ok s bs fl fs" "k < 9" "b \<in> set (bs k)"
    "bd_page (f (descs s b)) = bd_page (descs s b)" "bd_next (f (descs s b)) = bd_next (descs s b)"
    "bucket_ok (upd_desc b f s) k b g"
  shows "heap_ok (upd_desc b f s) bs (fl(b := g)) fs"
proof -
  let ?t = "upd_desc b f s"
  have nx: "next_desc ?t = next_desc s" using assms(5) by (auto simp: next_desc_def fun_eq_iff)
  have pg: "bd_page (descs ?t c) = bd_page (descs s c)" for c using assms(4) by simp
  have "bucket_ok ?t j c ((fl(b := g)) c)" if "j < 9" "c \<in> set (bs j)" for j c
  proof (cases "c = b")
    case True
    then have "j = k" using apart_same[of bs fs b k j] assms(1,2,3) that by (simp add: heap_ok_def)
    then show ?thesis using True assms(6) by simp
  qed (use heap_okD(1)[OF assms(1) that] in simp)
  then show ?thesis
    using assms(1) unfolding heap_ok_def nx pg descs_upd(3-7) by blast
qed

lemma take_object_ok:
  assumes h: "heap_ok s bs fl fs" and k: "k < 9" and b: "b \<in> set (bs k)" and free: "bd_freeptr (descs s b) \<noteq> 0"
  shows "\<exists>a t f. take_object b s = Done a t \<and> heap_ok t bs (fl(b := f)) fs \<and> pmem t = pmem s \<and>
    (a, k) \<notin> allocated s bs fl \<and> allocated t bs (fl(b := f)) = insert (a, k) (allocated s bs fl)"
proof -
  note ok = heap_okD[OF h k b]
  have p: "path_to (pmem s) (bd_freeptr (descs s b)) (fl b)" using ok(1) by (simp add: bucket_ok_def Let_def)
  then obtain a f where f: "fl b = a # f" using free by (cases "fl b") auto
  then have a: "bd_freeptr (descs s b) = a" using p by simp
  define t where "t = upd_desc b (\<lambda>d. d\<lparr>bd_freeptr := pmem s a, bd_refcnt := bd_refcnt d + 1\<rparr>) s"
  have cnt: "unat (bd_refcnt (descs s b)) + length (fl b) = obj_count k" using ok(1) by (simp add: bucket_ok_def Let_def)
  then have "unat (bd_refcnt (descs s b)) + 1 < 2 ^ 16" using obj_count_le[of k] f by simp
  then have "unat (bd_refcnt (descs s b) + 1) = unat (bd_refcnt (descs s b)) + 1" by (simp add: unat_word_ariths)
  then have bt: "bucket_ok t k b f"
    using ok(1) f p cnt by (auto simp: bucket_ok_def Let_def t_def)
  have ht: "heap_ok t bs (fl(b := f)) fs"
    using bt unfolding t_def by (intro heap_ok_upd_desc[OF h k b]) simp_all
  have objs: "a \<in> set (objects k (bd_page (descs s b)))" "a \<notin> set f"
    using ok(1) f by (auto simp: bucket_ok_def Let_def)
  have "take_object b s = Done a t" by (simp add: take_object_def t_def a)
  moreover have "pmem t = pmem s" by (simp add: t_def)
  moreover have "(a, k) \<notin> allocated s bs fl"
  proof
    assume "(a, k) \<in> allocated s bs fl"
    then obtain c where c: "c \<in> set (bs k)" "a \<in> set (objects k (bd_page (descs s c)))" "a \<notin> set (fl c)"
      by (auto simp: allocated_def)
    then have "b = c" using object_owner[OF h k b k c(1) objs(1) c(2)] by simp
    then show False using c(3) f by simp
  qed
  moreover have "allocated t bs (fl(b := f)) = insert (a, k) (allocated s bs fl)"
  proof (intro set_eqI iffI; clarify)
    fix x j assume "(x, j) \<in> allocated t bs (fl(b := f))" "(x, j) \<notin> allocated s bs fl"
    then obtain c where c: "j < 9" "c \<in> set (bs j)" "x \<in> set (objects j (bd_page (descs t c)))" "x \<notin> set ((fl(b := f)) c)"
        "c = b"
      by (auto simp: allocated_def t_def split: if_splits)
    then have "j = k" using apart_same[of bs fs b k j] h k b by (simp add: heap_ok_def)
    then show "x = a \<and> j = k"
      using c \<open>(x, j) \<notin> allocated s bs fl\<close> f b k by (auto simp: allocated_def t_def)
  next
    fix x j assume "(x, j) \<in> insert (a, k) (allocated s bs fl)"
    then show "(x, j) \<in> allocated t bs (fl(b := f))"
      using k b objs f by (auto simp: allocated_def t_def)
  qed
  ultimately show ?thesis using ht by blast
qed

subsection \<open>Pages that are in use stay as they are\<close>

definition keeps_used :: "'a mm_state_scheme \<Rightarrow> 'a mm_state_scheme \<Rightarrow> bool" where
  "keeps_used s t \<longleftrightarrow> HIGH_MEMORY t = HIGH_MEMORY s \<and>
    (\<forall>i<PAGING_PAGES. mem_map s i \<noteq> 0 \<longrightarrow>
      mem_map t i = mem_map s i \<and> (\<forall>x. frame x = page_addr i \<longrightarrow> pmem t x = pmem s x))"

lemma keeps_used_refl [simp]: "keeps_used s s"
  by (simp add: keeps_used_def)

lemma keeps_used_trans: "keeps_used s t \<Longrightarrow> keeps_used t u \<Longrightarrow> keeps_used s u"
  by (simp add: keeps_used_def)

lemma keeps_used_upd_desc [simp]: "keeps_used s (upd_desc b f t) = keeps_used s t" "keeps_used (upd_desc b f s) t = keeps_used s t"
  by (simp_all add: keeps_used_def)

lemma keeps_used_map: "keeps_used s t \<Longrightarrow> map_within_memory s \<Longrightarrow> map_within_memory t"
  by (auto simp: keeps_used_def map_within_memory_def)

lemma page_addr_inj: "i < PAGING_PAGES \<Longrightarrow> j < PAGING_PAGES \<Longrightarrow> page_addr i = page_addr j \<Longrightarrow> i = j"
  using MAP_NR_page_addr by metis

lemma bucket_ok_keeps:
  assumes k: "k < 9" and ok: "bucket_ok s k b f" and u: "keeps_used s t" "descs t b = descs s b"
  shows "bucket_ok t k b f"
proof -
  obtain i where i: "i < PAGING_PAGES" "bd_page (descs s b) = page_addr i" "mem_map s i = 1"
    using ok by (auto simp: bucket_ok_def Let_def)
  have "pmem t x = pmem s x" if "x \<in> set f" for x
  proof -
    have "x \<in> set (objects k (page_addr i))" using ok i that by (auto simp: bucket_ok_def Let_def)
    then have "frame x = page_addr i" by (rule objects_frame[OF k frame_page_addr])
    then show ?thesis using u(1) i by (auto simp: keeps_used_def)
  qed
  then have "path_to (pmem t) (bd_freeptr (descs s b)) f = path_to (pmem s) (bd_freeptr (descs s b)) f"
    by (intro path_to_cong) simp
  moreover have "mem_map t i = 1" "HIGH_MEMORY t = HIGH_MEMORY s" using u(1) i by (simp_all add: keeps_used_def)
  moreover have "page_addr i < HIGH_MEMORY s"
    using ok i(1,2) page_addr_inj[OF i(1)] unfolding bucket_ok_def Let_def by metis
  ultimately show ?thesis using ok i unfolding bucket_ok_def Let_def u(2) by metis
qed

lemma heap_ok_keeps:
  assumes h: "heap_ok s bs fl fs" and u: "keeps_used s t" and
    same: "descs t = descs s" "bucket_chain t = bucket_chain s" "free_bucket_desc t = free_bucket_desc s"
  shows "heap_ok t bs fl fs" "allocated t bs fl = allocated s bs fl"
proof -
  have nx: "next_desc t = next_desc s" by (simp add: fun_eq_iff next_desc_def same)
  have "bucket_ok t k b (fl b)" if "k < 9" "b \<in> set (bs k)" for k b
    using bucket_ok_keeps[OF that(1) heap_okD(1)[OF h that] u] same by simp
  moreover have "map_within_memory t" using h keeps_used_map[OF u] by (simp add: heap_ok_def)
  moreover have "\<exists>i<PAGING_PAGES. frame b = page_addr i \<and> mem_map t i \<noteq> 0 \<and> (\<forall>c\<in>buckets bs. bd_page (descs s c) \<noteq> frame b)"
    if "b \<in> buckets bs \<union> set fs" for b
    using h u that unfolding heap_ok_def keeps_used_def by metis
  ultimately show "heap_ok t bs fl fs"
    using h unfolding heap_ok_def nx same by blast
  show "allocated t bs fl = allocated s bs fl" by (simp add: allocated_def same)
qed

text \<open>A free page, taken and cleared.\<close>

definition taken :: "nat \<Rightarrow> 'a mm_state_scheme \<Rightarrow> 'a mm_state_scheme" where
  "taken j s = clear_page (page_addr j) (s\<lparr>mem_map := (mem_map s)(j := 1)\<rparr>)"

lemma taken_sel [simp]:
  "mem_map (taken j s) = (mem_map s)(j := 1)" "HIGH_MEMORY (taken j s) = HIGH_MEMORY s"
  "descs (taken j t) = descs t" "bucket_chain (taken j t) = bucket_chain t" "free_bucket_desc (taken j t) = free_bucket_desc t"
  by (simp_all add: taken_def clear_page_def)

lemma keeps_used_taken: "j < PAGING_PAGES \<Longrightarrow> mem_map s j = 0 \<Longrightarrow> keeps_used s (taken j s)"
  using page_addr_inj in_page_frame[OF frame_page_addr]
  by (fastforce simp: keeps_used_def taken_def clear_page_def)

lemma get_free_page_taken:
  assumes "map_within_memory s" "\<exists>i<PAGING_PAGES. mem_map s i = 0"
  obtains j where "j < PAGING_PAGES" "mem_map s j = 0" "page_addr j < HIGH_MEMORY s" "get_free_page s = Done (page_addr j) (taken j s)"
  using get_free_page_free[OF assms(1)] assms(2) unfolding taken_def by blast

subsection \<open>Lists at equal distances\<close>

definition steps :: "nat \<Rightarrow> u32 \<Rightarrow> u32 \<Rightarrow> u32 list" where
  "steps n sz a = map (\<lambda>i. a + of_nat i * sz) [0..<n]"

lemma steps_Suc: "steps (Suc n) sz a = a # steps n sz (a + sz)"
  by (simp add: steps_def upt_conv_Cons map_Suc_upt[symmetric] o_def algebra_simps del: upt_Suc)

lemma objects_steps: "objects k page = steps (obj_count k) (16 * 2 ^ k) page"
  by (simp add: objects_def steps_def)

lemma free_objects_sel [simp]:
  "mem_map (free_objects n sz a s) = mem_map s" "HIGH_MEMORY (free_objects n sz a s) = HIGH_MEMORY s"
  "descs (free_objects n sz a s) = descs s" "bucket_chain (free_objects n sz a s) = bucket_chain s"
  "free_bucket_desc (free_objects n sz a s) = free_bucket_desc s"
  by (induction n arbitrary: a s) (simp_all add: write_long_def)

lemma free_objects_outside: "x \<notin> set (steps (Suc n) sz a) \<Longrightarrow> pmem (free_objects n sz a s) x = pmem s x"
  by (induction n arbitrary: a s) (simp_all add: write_long_def steps_Suc)

lemma free_objects_path:
  "distinct (steps (Suc n) sz a) \<Longrightarrow> 0 \<notin> set (steps (Suc n) sz a) \<Longrightarrow>
   path_to (pmem (free_objects n sz a s)) a (steps (Suc n) sz a)"
proof (induction n arbitrary: a s)
  case 0
  then show ?case by (simp add: write_long_def steps_Suc) (simp add: steps_def)
next
  case (Suc n)
  let ?u = "free_objects n sz (a + sz) (write_long a (a + sz) s)"
  have d: "a \<notin> set (steps (Suc n) sz (a + sz))" "distinct (steps (Suc n) sz (a + sz))" "0 \<notin> set (steps (Suc n) sz (a + sz))" "a \<noteq> 0"
    using Suc.prems by (auto simp only: steps_Suc distinct.simps list.set)
  have "pmem ?u a = a + sz" using free_objects_outside[OF d(1)] by (simp add: write_long_def)
  then show ?case using Suc.IH[OF d(2,3)] d(4) by (subst steps_Suc) simp
qed

lemma objects_nonzero:
  assumes "k < 9" "j < PAGING_PAGES"
  shows "0 \<notin> set (objects k (page_addr j))"
proof
  assume "0 \<in> set (objects k (page_addr j))"
  then have "frame 0 = page_addr j" by (rule objects_frame[OF assms(1) frame_page_addr])
  then have "page_addr j = 0" by (simp add: frame_def)
  then show False using page_addr_neq_0[OF assms(2)] by blast
qed

subsection \<open>A new bucket\<close>

text \<open>The page of an address below which a bucket has its objects or a descriptor stands is in use.\<close>

lemma bucket_page_used:
  assumes "heap_ok s bs fl fs" "b \<in> buckets bs" "j < PAGING_PAGES" "mem_map s j = 0"
  shows "bd_page (descs s b) \<noteq> page_addr j"
proof -
  obtain k where "k < 9" "b \<in> set (bs k)" using assms(2) by (auto simp: buckets_def)
  then have "bucket_ok s k b (fl b)" using heap_okD(1)[OF assms(1)] by blast
  then show ?thesis using assms(3,4) page_addr_inj unfolding bucket_ok_def Let_def by (metis zero_neq_one)
qed

lemma desc_page_used:
  assumes "heap_ok s bs fl fs" "b \<in> buckets bs \<union> set fs" "j < PAGING_PAGES" "mem_map s j = 0"
  shows "frame b \<noteq> page_addr j"
  using assms page_addr_inj unfolding heap_ok_def by metis

text \<open>A bucket whose page was free until now is put in front of its chain.\<close>

lemma heap_ok_link:
  assumes h: "heap_ok s bs fl (b # fs)" and k: "k < 9" and j: "j < PAGING_PAGES" "mem_map s j = 0" "page_addr j < HIGH_MEMORY s"
    and u: "keeps_used s t" "mem_map t j = 1"
    and d: "descs t = (descs s)(b := d)" "bd_page d = page_addr j" "bd_next d = bucket_chain s k" "bd_refcnt d = 0"
    and fp: "bd_freeptr d = page_addr j" "path_to (pmem t) (page_addr j) (objects k (page_addr j))"
    and heads: "bucket_chain t = (bucket_chain s)(k := b)" "free_bucket_desc t = bd_next (descs s b)"
  shows "heap_ok t (bs(k := b # bs k)) (fl(b := objects k (page_addr j))) fs"
    and "allocated t (bs(k := b # bs k)) (fl(b := objects k (page_addr j))) = allocated s bs fl"
proof -
  let ?bs = "bs(k := b # bs k)" and ?fl = "fl(b := objects k (page_addr j))"
  have ap: "apart bs (b # fs)" using h by (simp add: heap_ok_def)
  have new: "b \<notin> buckets bs" "b \<notin> set fs" "\<And>i. i < 9 \<Longrightarrow> b \<notin> set (bs i)"
    using ap by (auto simp: apart_def buckets_def)
  have bks: "buckets ?bs = insert b (buckets bs)" using k by (auto simp: buckets_def split: if_splits)
  have pth: "path_to (next_desc s) (free_bucket_desc s) (b # fs)" using h by (simp add: heap_ok_def)
  then have b0: "b \<noteq> 0" by simp
  have nx: "path_to (next_desc t) a xs = path_to (next_desc s) a xs" if "b \<notin> set xs" for a xs
    by (rule path_to_cong) (use that d(1) in \<open>auto simp: next_desc_def\<close>)
  have nb: "next_desc t b = bucket_chain s k" by (simp add: next_desc_def d)
  have "map_within_memory t" using h keeps_used_map[OF u(1)] by (simp add: heap_ok_def)
  moreover have "apart ?bs fs" using ap k unfolding apart_def by auto
  moreover have "path_to (next_desc t) (bucket_chain t i) (?bs i)" if "i < 9" for i
    using that h new(3) b0 nb heads by (auto simp: heap_ok_def nx)
  moreover have "bucket_ok t i c (?fl c)" if i: "i < 9" "c \<in> set (?bs i)" for i c
  proof (cases "c = b")
    case True
    then have "i = k" using i new(3)[of i] by (auto split: if_splits)
    have "HIGH_MEMORY t = HIGH_MEMORY s" using u(1) by (simp add: keeps_used_def)
    then show ?thesis
      using True \<open>i = k\<close> d fp u(2) j distinct_objects[OF k] by (auto simp: bucket_ok_def Let_def)
  next
    case False
    then have "c \<in> set (bs i)" using i by (auto split: if_splits)
    then show ?thesis using bucket_ok_keeps[OF i(1) heap_okD(1)[OF h i(1)] u(1)] False d(1) by simp
  qed
  moreover have "path_to (next_desc t) (free_bucket_desc t) fs"
    using pth new(2) heads(2) by (simp add: nx next_desc_def)
  moreover have "inj_on (\<lambda>b. bd_page (descs t b)) (buckets ?bs)"
  proof -
    have "inj_on (\<lambda>b. bd_page (descs t b)) (buckets bs) = inj_on (\<lambda>b. bd_page (descs s b)) (buckets bs)"
      by (rule inj_on_cong) (use new(1) d(1) in auto)
    moreover have "page_addr j \<notin> (\<lambda>c. bd_page (descs t c)) ` buckets bs"
    proof
      assume "page_addr j \<in> (\<lambda>c. bd_page (descs t c)) ` buckets bs"
      then obtain c where "c \<in> buckets bs" "bd_page (descs t c) = page_addr j" by auto
      then show False using bucket_page_used[OF h, of c j] j new(1) d(1) by (auto split: if_splits)
    qed
    ultimately show ?thesis
      unfolding bks inj_on_insert using h new(1) d(1,2) by (simp add: heap_ok_def image_iff)
  qed
  moreover have "\<exists>i<PAGING_PAGES. frame c = page_addr i \<and> mem_map t i \<noteq> 0 \<and> (\<forall>e\<in>buckets ?bs. bd_page (descs t e) \<noteq> frame c)"
    if c: "c \<in> buckets ?bs \<union> set fs" for c
  proof -
    have c: "c \<in> buckets bs \<union> set (b # fs)" using c bks by auto
    then obtain i where i: "i < PAGING_PAGES" "frame c = page_addr i" "mem_map s i \<noteq> 0"
        "\<forall>e\<in>buckets bs. bd_page (descs s e) \<noteq> frame c"
      using h unfolding heap_ok_def by blast
    have "frame c \<noteq> page_addr j" by (rule desc_page_used[OF h c j(1,2)])
    then have "\<forall>e\<in>buckets ?bs. bd_page (descs t e) \<noteq> frame c"
      using i(4) new(1) d(1,2) unfolding bks by auto
    moreover have "mem_map t i \<noteq> 0" using u(1) i by (auto simp: keeps_used_def)
    ultimately show ?thesis using i by blast
  qed
  ultimately show "heap_ok t ?bs ?fl fs" unfolding heap_ok_def by blast
  show "allocated t ?bs ?fl = allocated s bs fl"
    using new(3) d(1,2) k by (fastforce simp: allocated_def split: if_splits)
qed

definition free_pages :: "'a mm_state_scheme \<Rightarrow> nat set" where
  "free_pages s = {i. i < PAGING_PAGES \<and> mem_map s i = 0}"

lemma new_bucket_linked:
  assumes h: "heap_ok s bs fl fs" and k: "k < 9" and fs: "free_bucket_desc s \<noteq> 0" and pages: "free_pages s \<noteq> {}"
  shows "\<exists>b t bs' fl' fs'. new_bucket k s = Done b t \<and> heap_ok t bs' fl' fs' \<and> allocated t bs' fl' = allocated s bs fl \<and>
    b \<in> set (bs' k) \<and> bd_freeptr (descs t b) \<noteq> 0 \<and> keeps_used s t"
proof -
  have pth: "path_to (next_desc s) (free_bucket_desc s) fs" using h by (simp add: heap_ok_def)
  then obtain b fs' where b: "fs = b # fs'" "free_bucket_desc s = b" using fs by (cases fs) auto
  define s1 where "s1 = upd_desc b (\<lambda>d. d\<lparr>bd_refcnt := 0, bd_size := ucast (bucket_dir ! k)\<rparr>)
    (s\<lparr>free_bucket_desc := bd_next (descs s b)\<rparr>)"
  have s1: "mem_map s1 = mem_map s" "HIGH_MEMORY s1 = HIGH_MEMORY s" "pmem s1 = pmem s" "bucket_chain s1 = bucket_chain s"
    "free_bucket_desc s1 = bd_next (descs s b)" "map_within_memory s1 = map_within_memory s"
    "descs s1 = (descs s)(b := (descs s b)\<lparr>bd_refcnt := 0, bd_size := ucast (bucket_dir ! k)\<rparr>)"
    by (simp_all add: s1_def map_within_memory_def)
  obtain j where j: "j < PAGING_PAGES" "mem_map s j = 0" "page_addr j < HIGH_MEMORY s"
      "get_free_page s1 = Done (page_addr j) (taken j s1)"
    using get_free_page_taken[of s1] h pages s1 by (auto simp: heap_ok_def free_pages_def)
  let ?pg = "page_addr j" and ?sz = "bucket_dir ! k"
  let ?n = "unat (4096 div ?sz) - 1"
  have n: "Suc ?n = obj_count k" "?sz = 16 * 2 ^ k"
    using below_9[OF k] bucket_dir_nth[OF k] unat_bucket_dir[OF k] by (auto simp: obj_count_def unat_div)
  define s2 where "s2 = upd_desc b (\<lambda>d. d\<lparr>bd_page := ?pg, bd_freeptr := ?pg\<rparr>) (taken j s1)"
  define s3 where "s3 = free_objects ?n ?sz ?pg s2"
  define t where "t = (upd_desc b (\<lambda>d. d\<lparr>bd_next := bucket_chain s k\<rparr>) s3)\<lparr>bucket_chain := (bucket_chain s)(k := b)\<rparr>"
  have "new_bucket k s = Done b t"
    using fs j page_addr_neq_0[OF j(1)] b(2) s1(4)
    by (simp add: new_bucket_def Let_def s1_def[symmetric] s2_def[symmetric] s3_def[symmetric])
       (simp add: t_def s3_def s2_def)
  moreover have objs: "objects k ?pg = steps (Suc ?n) ?sz ?pg" by (simp only: objects_steps n(1)) (simp only: n(2))
  have mem: "pmem t = pmem s3" "mem_map t = (mem_map s)(j := 1)" "HIGH_MEMORY t = HIGH_MEMORY s"
    by (simp_all add: t_def s3_def s2_def s1)
  have fp: "path_to (pmem t) ?pg (objects k ?pg)"
    unfolding mem s3_def objs
    using distinct_objects[OF k, of ?pg] objects_nonzero[OF k j(1)] unfolding objs by (rule free_objects_path)
  have u: "keeps_used s t"
    unfolding keeps_used_def
  proof (intro conjI allI impI)
    fix i x assume i: "i < PAGING_PAGES" "mem_map s i \<noteq> 0" "frame x = page_addr i"
    have ij: "page_addr i \<noteq> ?pg" using page_addr_inj[OF i(1) j(1)] i(2) j(2) by auto
    have "x \<notin> set (objects k ?pg)"
    proof
      assume "x \<in> set (objects k ?pg)"
      then have "frame x = ?pg" by (rule objects_frame[OF k frame_page_addr])
      then show False using i(3) ij by simp
    qed
    then have "pmem s3 x = pmem s2 x" unfolding s3_def objs by (rule free_objects_outside)
    also have "\<dots> = pmem (taken j s1) x" by (simp add: s2_def)
    also have "\<dots> = pmem s1 x"
      using keeps_used_taken[of j s1] j i s1 by (simp add: keeps_used_def)
    finally show "pmem t x = pmem s x" using s1 mem by simp
  qed (use mem j in auto)
  have d: "descs t = (descs s)(b := \<lparr>bd_page = ?pg, bd_next = bucket_chain s k, bd_freeptr = ?pg, bd_refcnt = 0, bd_size = ucast ?sz\<rparr>)"
    by (simp add: t_def s3_def s2_def s1 fun_eq_iff)
  have heads: "bucket_chain t = (bucket_chain s)(k := b)" "free_bucket_desc t = bd_next (descs s b)"
    by (simp_all add: t_def s3_def s2_def s1)
  note link = heap_ok_link[OF h[unfolded b(1)] k j(1-3) u _ d _ _ _ _ fp heads]
  have "heap_ok t (bs(k := b # bs k)) (fl(b := objects k ?pg)) fs'" by (rule link(1)) (simp_all add: mem)
  moreover have "allocated t (bs(k := b # bs k)) (fl(b := objects k ?pg)) = allocated s bs fl" by (rule link(2)) (simp_all add: mem)
  moreover have "b \<in> set ((bs(k := b # bs k)) k)" "bd_freeptr (descs t b) \<noteq> 0"
    using page_addr_neq_0[OF j(1)] d by simp_all
  ultimately show ?thesis using u by blast
qed

lemma find_bucket_path:
  "path_to (next_desc s) b xs \<Longrightarrow>
   find_bucket b s = Done (case dropWhile (\<lambda>b. bd_freeptr (descs s b) = 0) xs of [] \<Rightarrow> 0 | x # _ \<Rightarrow> x) s"
proof (induction xs arbitrary: b)
  case Nil
  then show ?case by (simp add: find_bucket_def loop_unfold)
next
  case (Cons x xs)
  have "find_bucket b s = (if bd_freeptr (descs s b) \<noteq> 0 then Done b s else find_bucket (bd_next (descs s b)) s)"
    unfolding find_bucket_def using Cons.prems by (subst loop_unfold) simp
  then show ?case using Cons by (simp add: next_desc_def)
qed

subsection \<open>A page of new descriptors\<close>

lemma path_to_steps:
  assumes "\<forall>i<n. nx (a + of_nat i * sz) = a + of_nat (Suc i) * sz" "0 \<notin> set (steps (Suc n) sz a)" "path_to nx (nx (a + of_nat n * sz)) xs"
  shows "path_to nx a (steps (Suc n) sz a @ xs)"
  using assms
proof (induction n arbitrary: a)
  case 0
  then show ?case by (simp add: steps_def)
next
  case (Suc n)
  have "nx a = a + sz" using Suc.prems(1) by (auto dest: spec[of _ 0])
  moreover have "path_to nx (a + sz) (steps (Suc n) sz (a + sz) @ xs)"
  proof (rule Suc.IH)
    show "\<forall>i<n. nx (a + sz + of_nat i * sz) = a + sz + of_nat (Suc i) * sz"
      using Suc.prems(1) by (auto simp: algebra_simps dest: spec[of _ "Suc _"])
  qed (use Suc.prems(2,3) in \<open>simp_all add: algebra_simps steps_Suc[of "Suc n"]\<close>)
  ultimately show ?case using Suc.prems(2) by (subst steps_Suc) (simp add: steps_Suc[of "Suc n"])
qed

lemma fold_upd_desc:
  assumes "inj_on f {..<m}" "n \<le> m"
  shows "(\<forall>i<n. descs (fold (\<lambda>i. upd_desc (f i) (g i)) [0..<n] s) (f i) = g i (descs s (f i))) \<and>
    (\<forall>b. b \<notin> f ` {..<n} \<longrightarrow> descs (fold (\<lambda>i. upd_desc (f i) (g i)) [0..<n] s) b = descs s b)"
  using assms(2)
proof (induction n)
  case (Suc n)
  have "f i \<noteq> f n" if "i < n" for i using inj_onD[OF assms(1), of i n] that Suc.prems by auto
  moreover have "f n \<notin> f ` {..<n}" using calculation by force
  ultimately show ?case using Suc by (auto simp: less_Suc_eq lessThan_Suc)
qed simp

lemma fold_upd_desc_sel [simp]:
  "pmem (fold (\<lambda>i. upd_desc (f i) (g i)) xs s) = pmem s"
  "mem_map (fold (\<lambda>i. upd_desc (f i) (g i)) xs s) = mem_map s"
  "HIGH_MEMORY (fold (\<lambda>i. upd_desc (f i) (g i)) xs s) = HIGH_MEMORY s"
  "bucket_chain (fold (\<lambda>i. upd_desc (f i) (g i)) xs s) = bucket_chain s"
  "free_bucket_desc (fold (\<lambda>i. upd_desc (f i) (g i)) xs s) = free_bucket_desc s"
  by (induction xs arbitrary: s) simp_all

lemma new_descs_linked:
  assumes h: "heap_ok s bs fl fs" and empty: "free_bucket_desc s = 0" and pages: "free_pages s \<noteq> {}"
  shows "\<exists>t j fs'. init_bucket_desc s = Done () t \<and> heap_ok t bs fl fs' \<and> allocated t bs fl = allocated s bs fl \<and>
    free_bucket_desc t \<noteq> 0 \<and> keeps_used s t \<and> free_pages t = free_pages s - {j}"
proof -
  have fs: "fs = []" using h empty by (cases fs) (auto simp: heap_ok_def)
  obtain j where j: "j < PAGING_PAGES" "mem_map s j = 0" "get_free_page s = Done (page_addr j) (taken j s)"
  proof -
    have "map_within_memory s" "\<exists>i<PAGING_PAGES. mem_map s i = 0"
      using h pages by (auto simp: heap_ok_def free_pages_def)
    then show ?thesis using get_free_page_taken that by blast
  qed
  let ?f = "\<lambda>i :: nat. page_addr j + 16 * of_nat i"
  let ?g = "\<lambda>(i :: nat) (_ :: bucket_desc). no_desc\<lparr>bd_next := page_addr j + 16 * of_nat (i + 1)\<rparr>"
  define s1 where "s1 = fold (\<lambda>i. upd_desc (?f i) (?g i)) [0..<255] (taken j s)"
  define t where "t = (upd_desc (page_addr j + 16 * 255) (\<lambda>_. no_desc\<lparr>bd_next := 0\<rparr>) s1)\<lparr>free_bucket_desc := page_addr j\<rparr>"
  let ?new = "steps 256 16 (page_addr j)"
  have objs: "?new = objects 0 (page_addr j)" by (simp add: objects_steps obj_count_def)
  have fmap: "?new = map ?f [0..<256]" by (simp add: steps_def mult.commute)
  have dist: "distinct ?new" "0 \<notin> set ?new" using objs distinct_objects[of 0] objects_nonzero[of 0 j] j(1) by simp_all
  have inj: "inj_on ?f {..<256}"
    using dist(1) unfolding fmap by (simp add: distinct_map lessThan_atLeast0)
  have f255: "?f 255 = page_addr j + 16 * 255" by simp
  have d1: "\<forall>i<255. descs s1 (?f i) = no_desc\<lparr>bd_next := ?f (i + 1)\<rparr>" "\<forall>b. b \<notin> ?f ` {..<255} \<longrightarrow> descs s1 b = descs s b"
    using fold_upd_desc[OF inj, of 255 ?g "taken j s"] unfolding s1_def[symmetric] by simp_all
  have in_new: "b \<in> set ?new \<longleftrightarrow> (\<exists>i<256. b = ?f i)" for b unfolding fmap by auto
  have d: "descs t b = descs s b" if "b \<notin> set ?new" for b
  proof -
    have no: "b \<noteq> ?f i" if "i < 256" for i using \<open>b \<notin> set ?new\<close> that unfolding in_new by blast
    have "b \<notin> ?f ` {..<255}"
    proof
      assume "b \<in> ?f ` {..<255}"
      then obtain i where "i < 255" "b = ?f i" by blast
      then show False using no[of i] by simp
    qed
    then show ?thesis using d1(2) no[of 255] by (simp add: t_def)
  qed
  have nx: "next_desc t (?f i) = ?f (Suc i)" if "i < 255" for i
  proof -
    have "?f i \<noteq> ?f 255" using inj_onD[OF inj, of i 255] that by force
    then show ?thesis using d1(1) that by (auto simp: t_def next_desc_def)
  qed
  have last: "next_desc t (?f 255) = 0" by (simp add: t_def next_desc_def)
  have "init_bucket_desc s = Done () t"
    using j page_addr_neq_0[OF j(1)] empty
    by (simp add: init_bucket_desc_def Let_def s1_def[symmetric] del: upt.simps upt_rec_numeral) (simp add: t_def s1_def)
  moreover have mem: "mem_map t = (mem_map s)(j := 1)" "pmem t = pmem (taken j s)" "HIGH_MEMORY t = HIGH_MEMORY s"
      "bucket_chain t = bucket_chain s" "free_bucket_desc t = page_addr j"
    by (simp_all add: t_def s1_def del: upt.simps upt_rec_numeral)
  have u: "keeps_used s t"
    using keeps_used_taken[of j s] j mem by (simp add: keeps_used_def)
  have fr: "frame b = page_addr j" if "b \<in> set ?new" for b
    by (rule objects_frame[of 0, OF _ frame_page_addr]) (use that objs in simp_all)
  have old: "b \<notin> set ?new" if "b \<in> buckets bs" for b
    using desc_page_used[OF h _ j(1,2), of b] fr[of b] that by auto
  have same: "descs t b = descs s b" if "b \<in> buckets bs" for b using d old that by blast
  have "heap_ok t bs fl ?new"
    unfolding heap_ok_def
  proof (intro conjI allI impI ballI)
    show "map_within_memory t" using h keeps_used_map[OF u] by (simp add: heap_ok_def)
    show "apart bs ?new" using h dist(1) old bucketsI unfolding heap_ok_def apart_def by blast
    fix k :: nat assume k: "k < 9"
    have "path_to (next_desc t) (bucket_chain s k) (bs k) = path_to (next_desc s) (bucket_chain s k) (bs k)"
      by (rule path_to_cong) (use same heap_okD(2)[OF h k] in \<open>simp add: next_desc_def\<close>)
    then show "path_to (next_desc t) (bucket_chain t k) (bs k)" using h k mem(4) by (simp add: heap_ok_def)
    fix b assume b: "b \<in> set (bs k)"
    show "bucket_ok t k b (fl b)"
      by (rule bucket_ok_keeps[OF k heap_okD(1)[OF h k b] u same[OF heap_okD(2)[OF h k b]]])
  next
    show "path_to (next_desc t) (free_bucket_desc t) ?new"
      using path_to_steps[of 255 "next_desc t" "page_addr j" 16 "[]"] nx last dist(2) mem(5) by (simp add: mult.commute)
    have "inj_on (\<lambda>b. bd_page (descs t b)) (buckets bs) = inj_on (\<lambda>b. bd_page (descs s b)) (buckets bs)"
      by (rule inj_on_cong) (simp add: same)
    then show "inj_on (\<lambda>b. bd_page (descs t b)) (buckets bs)" using h by (simp add: heap_ok_def)
  next
    fix b assume b: "b \<in> buckets bs \<union> set ?new"
    show "\<exists>i<PAGING_PAGES. frame b = page_addr i \<and> mem_map t i \<noteq> 0 \<and> (\<forall>c\<in>buckets bs. bd_page (descs t c) \<noteq> frame b)"
    proof (cases "b \<in> set ?new")
      case True
      then have "\<forall>c\<in>buckets bs. bd_page (descs t c) \<noteq> frame b"
        using bucket_page_used[OF h _ j(1,2)] fr same by simp
      then show ?thesis using fr[OF True] j(1) mem(1) by auto
    next
      case False
      then have "b \<in> buckets bs \<union> set fs" using b by auto
      then obtain i where "i < PAGING_PAGES" "frame b = page_addr i" "mem_map s i \<noteq> 0"
          "\<forall>c\<in>buckets bs. bd_page (descs s c) \<noteq> frame b"
        using h unfolding heap_ok_def by blast
      moreover from this have "mem_map t i \<noteq> 0" using mem(1) by simp
      ultimately show ?thesis using same by auto
    qed
  qed
  moreover have "allocated t bs fl = allocated s bs fl"
    using same bucketsI unfolding allocated_def by fastforce
  moreover have "free_pages t = free_pages s - {j}" using j by (auto simp: free_pages_def mem split: if_splits)
  ultimately show ?thesis using u mem(5) page_addr_neq_0[OF j(1)] by metis
qed

end
