(* ===== verification/Malloc_Props.thy ===== *)
theory Malloc_Props
  imports Malloc_Heap
begin

section \<open>What malloc and free promise\<close>

text \<open>
  The specification of the allocator: a set of blocks that are handed out. \<open>malloc\<close> adds a block that overlaps none of
  them, \<open>free_s\<close> takes one away, and neither touches a byte of the others.
\<close>

unbundle bit_operations_syntax

subsection \<open>Handing out a block\<close>

lemma allocated_block_kept:
  assumes h: "heap_ok s bs fl fs" and u: "keeps_used s t" and c: "(a, k) \<in> allocated s bs fl" and x: "x \<in> block (a, k)"
  shows "pmem t x = pmem s x"
proof -
  obtain b where b: "k < 9" "b \<in> set (bs k)" "a \<in> set (objects k (bd_page (descs s b)))"
    using c by (auto simp: allocated_def)
  note ok = heap_okD(1)[OF h b(1,2)]
  obtain i where i: "i < PAGING_PAGES" "bd_page (descs s b) = page_addr i" "mem_map s i = 1"
    using ok by (auto simp: bucket_ok_def Let_def)
  have "frame x = page_addr i"
    using object_of_address[OF b(1) bucket_page[OF ok] b(3), of x] x i(2) by (simp add: block_def)
  then show ?thesis using u i by (simp add: keeps_used_def)
qed

lemma new_bucket_ok:
  assumes h: "heap_ok s bs fl fs" and k: "k < 9" and pages: "2 \<le> card (free_pages s)"
  shows "\<exists>b t bs' fl' fs'. new_bucket k s = Done b t \<and> heap_ok t bs' fl' fs' \<and> allocated t bs' fl' = allocated s bs fl \<and>
    b \<in> set (bs' k) \<and> bd_freeptr (descs t b) \<noteq> 0 \<and> keeps_used s t"
proof (cases "free_bucket_desc s = 0")
  case False
  moreover have "free_pages s \<noteq> {}" using pages by auto
  ultimately show ?thesis using new_bucket_linked[OF h k] by blast
next
  case True
  have "free_pages s \<noteq> {}" using pages by auto
  then obtain t j fs' where t: "init_bucket_desc s = Done () t" "heap_ok t bs fl fs'" "allocated t bs fl = allocated s bs fl"
      "free_bucket_desc t \<noteq> 0" "keeps_used s t" "free_pages t = free_pages s - {j}"
    using new_descs_linked[OF h True] by blast
  have "free_pages t \<noteq> {}"
  proof
    assume "free_pages t = {}"
    then have "free_pages s \<subseteq> {j}" using t(6) by blast
    then have "card (free_pages s) \<le> 1" using card_mono[of "{j}"] by simp
    then show False using pages by simp
  qed
  moreover have "new_bucket k s = new_bucket k t" using True t(1,4) by (simp add: new_bucket_def)
  ultimately show ?thesis using new_bucket_linked[OF t(2) k t(4)] t(3,5) keeps_used_trans by metis
qed

lemma malloc_bucket:
  assumes "len \<le> 4096"
  obtains k where "find (\<lambda>k. bucket_dir ! k \<ge> len) [0..<9] = Some k" "k < 9" "len \<le> bucket_dir ! k"
proof -
  have "8 \<in> set [0..<9 :: nat]" "len \<le> bucket_dir ! 8" using assms by (simp_all add: bucket_dir_def)
  then obtain k where k: "find (\<lambda>k. bucket_dir ! k \<ge> len) [0..<9] = Some k"
    by (cases "find (\<lambda>k. bucket_dir ! k \<ge> len) [0..<9]") (auto simp: find_None_iff)
  then have "k < 9" "len \<le> bucket_dir ! k" by (auto simp: find_Some_iff)
  then show ?thesis by (rule that[OF k])
qed

lemma find_bucket_result:
  assumes h: "heap_ok s bs fl fs" and k: "k < 9"
  obtains b where "find_bucket (bucket_chain s k) s = Done b s" "b = 0 \<or> b \<in> set (bs k) \<and> bd_freeptr (descs s b) \<noteq> 0"
proof -
  let ?d = "dropWhile (\<lambda>b. bd_freeptr (descs s b) = 0) (bs k)"
  have p: "path_to (next_desc s) (bucket_chain s k) (bs k)" using h k by (simp add: heap_ok_def)
  show ?thesis
  proof (cases ?d)
    case Nil
    then show ?thesis using that[of 0] find_bucket_path[OF p] unfolding Nil by simp
  next
    case (Cons x xs)
    then have "x \<in> set ?d" "?d \<noteq> []" "hd ?d = x" by simp_all
    then have "x \<in> set (bs k)" "bd_freeptr (descs s x) \<noteq> 0"
      using set_dropWhileD[of x] hd_dropWhile[of "\<lambda>b. bd_freeptr (descs s b) = 0" "bs k"] by auto
    then show ?thesis using that[of x] find_bucket_path[OF p] unfolding Cons by simp
  qed
qed

text \<open>
  C24. What malloc promises. In a well-formed heap with two free pages left, malloc of at most 4096 bytes returns an object
  of a bucket size that is large enough, which was not handed out before and overlaps no block that is handed out; the
  heap is well formed again with that block added, and the memory of the blocks handed out before is what it was.
\<close>

theorem malloc_fresh_block:
  assumes "heap s live" "len \<le> 4096" "2 \<le> card (free_pages s)"
  shows "\<exists>a k t. malloc len s = Done a t \<and> heap t (insert (a, k) live) \<and> (a, k) \<notin> live \<and> k < 9 \<and> len \<le> bucket_dir ! k \<and>
    (\<forall>c\<in>live. block (a, k) \<inter> block c = {} \<and> (\<forall>x\<in>block c. pmem t x = pmem s x))"
proof -
  obtain bs fl fs where h: "heap_ok s bs fl fs" and live: "live = allocated s bs fl" using assms(1) by (auto simp: heap_def)
  obtain k where k: "find (\<lambda>k. bucket_dir ! k \<ge> len) [0..<9] = Some k" "k < 9" "len \<le> bucket_dir ! k"
    by (rule malloc_bucket[OF assms(2)])
  obtain b0 where b0: "find_bucket (bucket_chain s k) s = Done b0 s" "b0 = 0 \<or> b0 \<in> set (bs k) \<and> bd_freeptr (descs s b0) \<noteq> 0"
    by (rule find_bucket_result[OF h k(2)])
  have "\<exists>b t bs' fl' fs'. (if b0 = 0 then new_bucket k s else Done b0 s) = Done b t \<and> heap_ok t bs' fl' fs' \<and>
      allocated t bs' fl' = live \<and> b \<in> set (bs' k) \<and> bd_freeptr (descs t b) \<noteq> 0 \<and> keeps_used s t"
    using new_bucket_ok[OF h k(2) assms(3)] h b0(2) live by (cases "b0 = 0") (simp, fastforce)
  then obtain b t bs' fl' fs' where t: "(if b0 = 0 then new_bucket k s else Done b0 s) = Done b t" "heap_ok t bs' fl' fs'"
      "allocated t bs' fl' = live" "b \<in> set (bs' k)" "bd_freeptr (descs t b) \<noteq> 0" "keeps_used s t"
    by blast
  obtain a u f where u: "take_object b t = Done a u" "heap_ok u bs' (fl'(b := f)) fs'" "pmem u = pmem t" "(a, k) \<notin> live"
      "allocated u bs' (fl'(b := f)) = insert (a, k) live"
    using take_object_ok[OF t(2) k(2) t(4,5)] t(3) by auto
  have "malloc len s = Done a u" using k(1) b0(1) t(1) u(1) by (simp add: malloc_def)
  moreover have "heap u (insert (a, k) live)" unfolding heap_def using u(2,5) by blast
  moreover have "block (a, k) \<inter> block c = {}" if "c \<in> live" for c
  proof (rule ccontr)
    assume "block (a, k) \<inter> block c \<noteq> {}"
    then obtain x where "x \<in> block (a, k)" "x \<in> block (fst c, snd c)" by auto
    then have "c = (a, k)"
      using heap_blocks_disjoint[OF u(2), of a k "fst c" "snd c" x] u(5) that by (cases c) auto
    then show False using that u(4) by simp
  qed
  moreover have "pmem u x = pmem s x" if "c \<in> live" "x \<in> block c" for c x
    using allocated_block_kept[OF h t(6), of "fst c" "snd c" x] that live u(3) by simp
  ultimately show ?thesis using k(2,3) u(4) by blast
qed

subsection \<open>Taking a block back\<close>












subsection \<open>A heap with one block\<close>

definition demo_heap :: malloc_state where
  "demo_heap =
    \<lparr>pmem = (\<lambda>_. 0), mem_map = (\<lambda>i. if i < 2 then 0 else if i = 256 \<or> i = 3839 then 1 else 100), HIGH_MEMORY = 0x1000000,
     swap_bitmap = 0, SWAP_DEV = 0, swap_space = (\<lambda>_ _. 0), dir_entry = 16, page_entry = - 1,
     bucket_chain = (\<lambda>k. if k = 8 then 0x200000 else 0),
     descs = (\<lambda>_. no_desc\<lparr>bd_page := 0xfff000, bd_refcnt := 1, bd_size := 4096\<rparr>), free_bucket_desc = 0\<rparr>"

lemma demo_heap_ok: "heap demo_heap {(0xfff000, 8)}"
proof -
  let ?bs = "\<lambda>k :: nat. if k = 8 then [0x200000 :: u32] else []"
  have o8: "objects 8 0xfff000 = [0xfff000]" by (simp add: objects_def obj_count_def)
  have pg: "page_addr 3839 = 0xfff000" "frame 0x200000 = page_addr 256" by (simp_all add: page_addr_def frame_def)
  have high: "page_addr i < 0x1000000" if "i < PAGING_PAGES" for i
    using unat_page_addr[OF that] that by (simp add: word_less_nat_alt)
  have bk: "buckets ?bs = {0x200000}" by (auto simp: buckets_def split: if_splits)
  have ok: "bucket_ok demo_heap 8 0x200000 []"
    by (simp add: bucket_ok_def Let_def demo_heap_def no_desc_def obj_count_def)
      (intro exI[of _ 3839], simp add: pg)
  have page: "bd_page (descs demo_heap c) = 0xfff000" for c by (simp add: demo_heap_def no_desc_def)
  have desc: "\<forall>b\<in>{0x200000} \<union> set []. \<exists>i<PAGING_PAGES. frame b = page_addr i \<and> mem_map demo_heap i \<noteq> 0 \<and>
      (\<forall>c\<in>{0x200000}. bd_page (descs demo_heap c) \<noteq> frame b)"
    unfolding page by (simp add: pg(2), rule exI[of _ 256]) (simp add: demo_heap_def page_addr_def)
  have mapped: "map_within_memory demo_heap" using high by (simp add: map_within_memory_def demo_heap_def)
  have chains: "path_to (next_desc demo_heap) (bucket_chain demo_heap k) (?bs k) \<and> (\<forall>b\<in>set (?bs k). bucket_ok demo_heap k b [])"
    for k
    using ok by (auto simp: demo_heap_def next_desc_def no_desc_def split: if_splits)
  have "heap_ok demo_heap ?bs (\<lambda>_. []) []"
    unfolding heap_ok_def bk
  proof (intro conjI)
    show "map_within_memory demo_heap" by (rule mapped)
    show "apart ?bs []" by (auto simp: apart_def)
    show "path_to (next_desc demo_heap) (free_bucket_desc demo_heap) []" by (simp add: demo_heap_def)
    show "inj_on (\<lambda>b. bd_page (descs demo_heap b)) {0x200000}" by simp
  qed (use chains desc in blast)+
  moreover have "allocated demo_heap ?bs (\<lambda>_. []) = {(0xfff000, 8)}"
    by (auto simp: allocated_def demo_heap_def no_desc_def o8 split: if_splits)
  ultimately show ?thesis unfolding heap_def by blast
qed

theorem malloc_fresh_block_witness:
  "\<exists>a k t. malloc 100 demo_heap = Done a t \<and> (100 :: u32) \<le> bucket_dir ! k"
proof -
  have "free_pages demo_heap = {0, 1}" by (auto simp: free_pages_def demo_heap_def split: if_splits)
  then show ?thesis using malloc_fresh_block[OF demo_heap_ok, of 100] by fastforce
qed


end
