(* ===== verification/Printing.thy ===== *)
theory Printing
  imports Console
begin

section \<open>Formatted printing\<close>

text \<open>
  \<^verbatim>\<open>kernel/vsprintf.c\<close> and \<^verbatim>\<open>kernel/printk.c\<close>. A format is the list of its characters; what is left of it stands for the pointer
  \<open>fmt\<close>, the empty list for the final zero. The text so far, the arguments that are left and what \<open>%n\<close> has stored are the
  state \<open>printing\<close>; an argument is a 32-bit word or a string. Widths and precisions are C integers, computed with as
  integers.
\<close>

unbundle bit_operations_syntax

datatype c_arg = Word u32 | Text "u8 list"

record printing =
  pr_text :: "u8 list"
  pr_args :: "c_arg list"
  pr_counts :: "(u32 \<times> nat) list"

type_synonym 'a pr_out = "(printing, 'a) outcome"

abbreviation (input) PR_ZEROPAD :: u32 where "PR_ZEROPAD \<equiv> 1"
abbreviation (input) PR_SIGN :: u32 where "PR_SIGN \<equiv> 2"
abbreviation (input) PR_PLUS :: u32 where "PR_PLUS \<equiv> 4"
abbreviation (input) PR_SPACE :: u32 where "PR_SPACE \<equiv> 8"
abbreviation (input) PR_LEFT :: u32 where "PR_LEFT \<equiv> 16"
abbreviation (input) PR_SPECIAL :: u32 where "PR_SPECIAL \<equiv> 32"
abbreviation (input) PR_SMALL :: u32 where "PR_SMALL \<equiv> 64"

definition has_flag :: "u32 \<Rightarrow> u32 \<Rightarrow> bool" where
  "has_flag flag flags \<longleftrightarrow> flags AND flag \<noteq> 0"

definition is_digit :: "u8 \<Rightarrow> bool" where
  "is_digit c \<longleftrightarrow> 48 \<le> c \<and> c \<le> 57"

fun skip_atoi :: "u32 \<Rightarrow> u8 list \<Rightarrow> u32 \<times> u8 list" where
  "skip_atoi i (c # s) = (if is_digit c then skip_atoi (i * 10 + ucast c - 48) s else (i, c # s))"
| "skip_atoi i [] = (i, [])"

subsection \<open>Numbers\<close>

text \<open>\<^verbatim>\<open>digits[d]\<close>.\<close>

definition digit_char :: "bool \<Rightarrow> nat \<Rightarrow> u8" where
  "digit_char small d = of_nat (if d < 10 then 48 + d else if small then 87 + d else 55 + d)"

text \<open>What the loop with \<^verbatim>\<open>do_div\<close>, an unsigned division, leaves in \<open>tmp\<close>: the last digit comes first.\<close>

function digits_of :: "u32 \<Rightarrow> u32 \<Rightarrow> nat list" where
  "digits_of num base = (if num = 0 \<or> base < 2 then [] else unat (num mod base) # digits_of (num div base) base)"
  by auto

termination
  by (relation "measure (\<lambda>(num, base). unat num)")
    (auto simp: unat_div word_less_nat_alt unat_gt_0 intro!: div_less_dividend)

declare digits_of.simps [simp del]

definition pad :: "int \<Rightarrow> u8 \<Rightarrow> u8 list" where
  "pad n c = replicate (nat n) c"

text \<open>The second half of \<open>number\<close>: padding, sign, prefix, zeros and digits in the order in which they are written.\<close>

definition layout :: "u32 \<Rightarrow> u8 list \<Rightarrow> u8 list \<Rightarrow> u8 list \<Rightarrow> int \<Rightarrow> int \<Rightarrow> u8 list" where
  "layout type sign prefix tmp sz precision =
    (let c = (if has_flag PR_ZEROPAD type then 48 else 32);
         precision = max precision (int (length tmp));
         sz = sz - int (length sign) - int (length prefix) - precision;
         before = (if \<not> has_flag PR_ZEROPAD type \<and> \<not> has_flag PR_LEFT type then pad sz 32 else []);
         sz = (if \<not> has_flag PR_ZEROPAD type \<and> \<not> has_flag PR_LEFT type then min sz 0 - 1 else sz);
         between = (if \<not> has_flag PR_LEFT type then pad sz c else []);
         sz = (if \<not> has_flag PR_LEFT type then min sz 0 - 1 else sz)
     in before @ sign @ prefix @ between @ pad (precision - int (length tmp)) 48 @ rev tmp @ pad sz 32)"

definition number :: "u32 \<Rightarrow> u32 \<Rightarrow> int \<Rightarrow> int \<Rightarrow> u32 \<Rightarrow> u8 list option" where
  "number num base sz precision type =
    (let small = has_flag PR_SMALL type;
         type = (if has_flag PR_LEFT type then type AND NOT PR_ZEROPAD else type)
     in if sint base < 2 \<or> 36 < sint base then None
        else
          let negative = (has_flag PR_SIGN type \<and> sint num < 0);
              num = (if negative then - num else num);
              sign = (if negative then [45] else if has_flag PR_PLUS type then [43]
                      else if has_flag PR_SPACE type then [32] else []);
              prefix = (if \<not> has_flag PR_SPECIAL type then [] else if base = 8 then [48]
                        else if base = 16 then [48, digit_char small 33] else []);
              tmp = (if num = 0 then [48] else map (digit_char small) (digits_of num base))
          in Some (layout type sign prefix tmp sz precision))"

subsection \<open>Conversions\<close>

definition put_text :: "u8 list \<Rightarrow> printing \<Rightarrow> printing" where
  "put_text cs st = st\<lparr>pr_text := pr_text st @ cs\<rparr>"

definition word_arg :: "printing \<Rightarrow> u32 pr_out" where
  "word_arg st =
    (case pr_args st of Word w # as \<Rightarrow> Done w (st\<lparr>pr_args := as\<rparr>) | _ \<Rightarrow> Undefined ''va_arg'')"

definition text_arg :: "printing \<Rightarrow> u8 list pr_out" where
  "text_arg st =
    (case pr_args st of Text cs # as \<Rightarrow> Done (takeWhile (\<lambda>c. c \<noteq> 0) cs) (st\<lparr>pr_args := as\<rparr>) | _ \<Rightarrow> Undefined ''va_arg'')"

fun parse_flags :: "u32 \<Rightarrow> u8 list \<Rightarrow> u32 \<times> u8 list" where
  "parse_flags flags (c # fmt) =
    (if c = 45 then parse_flags (flags OR PR_LEFT) fmt
     else if c = 43 then parse_flags (flags OR PR_PLUS) fmt
     else if c = 32 then parse_flags (flags OR PR_SPACE) fmt
     else if c = 35 then parse_flags (flags OR PR_SPECIAL) fmt
     else if c = 48 then parse_flags (flags OR PR_ZEROPAD) fmt
     else (flags, c # fmt))"
| "parse_flags flags [] = (flags, [])"

text \<open>The star is not skipped: it is still there when the conversion is looked up.\<close>

definition parse_width :: "u32 \<Rightarrow> u8 list \<Rightarrow> printing \<Rightarrow> (u32 \<times> int \<times> u8 list) pr_out" where
  "parse_width flags fmt st =
    (if fmt \<noteq> [] \<and> is_digit (hd fmt) then
       case skip_atoi 0 fmt of (w, fmt) \<Rightarrow> Done (flags, sint w, fmt) st
     else if fmt \<noteq> [] \<and> hd fmt = 42 then
       and_then (word_arg st) (\<lambda>w.
         Done (if sint w < 0 then (flags OR PR_LEFT, sint (- w), fmt) else (flags, sint w, fmt)))
     else Done (flags, - 1, fmt) st)"

definition parse_precision :: "u8 list \<Rightarrow> printing \<Rightarrow> (int \<times> u8 list) pr_out" where
  "parse_precision fmt st =
    (if fmt \<noteq> [] \<and> hd fmt = 46 then
       let fmt = tl fmt in
       and_then
         (if fmt \<noteq> [] \<and> is_digit (hd fmt) then case skip_atoi 0 fmt of (w, fmt) \<Rightarrow> Done (sint w, fmt) st
          else if fmt \<noteq> [] \<and> hd fmt = 42 then and_then (word_arg st) (\<lambda>w. Done (sint w, fmt))
          else Done (- 1, fmt) st)
         (\<lambda>(precision, fmt). Done (max precision 0, fmt))
     else Done (- 1, fmt) st)"

definition skip_qualifier :: "u8 list \<Rightarrow> u8 list" where
  "skip_qualifier fmt = (if fmt \<noteq> [] \<and> hd fmt \<in> {104, 108, 76} then tl fmt else fmt)"

definition put_number :: "u32 \<Rightarrow> int \<Rightarrow> int \<Rightarrow> u32 \<Rightarrow> printing \<Rightarrow> unit pr_out" where
  "put_number base width precision flags st =
    and_then (word_arg st) (\<lambda>num st.
      case number num base width precision flags of
        None \<Rightarrow> Undefined ''str'' | Some cs \<Rightarrow> Done () (put_text cs st))"

definition put_char_arg :: "u32 \<Rightarrow> int \<Rightarrow> printing \<Rightarrow> unit pr_out" where
  "put_char_arg flags width st =
    and_then (word_arg st) (\<lambda>w st.
      Done () (put_text (if has_flag PR_LEFT flags then ucast w # pad (width - 1) 32 else pad (width - 1) 32 @ [ucast w]) st))"

definition put_string_arg :: "u32 \<Rightarrow> int \<Rightarrow> int \<Rightarrow> printing \<Rightarrow> unit pr_out" where
  "put_string_arg flags width precision st =
    and_then (text_arg st) (\<lambda>s st.
      let s = (if precision < 0 then s else take (nat precision) s); fill = pad (width - int (length s)) 32
      in Done () (put_text (if has_flag PR_LEFT flags then s @ fill else fill @ s) st))"

text \<open>The switch on the character of the conversion; the result is the rest of the format.\<close>

definition convert_arg :: "u32 \<Rightarrow> int \<Rightarrow> int \<Rightarrow> u8 list \<Rightarrow> printing \<Rightarrow> u8 list pr_out" where
  "convert_arg flags width precision fmt st =
    (case fmt of
       [] \<Rightarrow> Done [] (put_text [37] st)
     | c # fmt \<Rightarrow>
         and_then
           (if c = 99 then put_char_arg flags width st
            else if c = 115 then put_string_arg flags width precision st
            else if c = 111 then put_number 8 width precision flags st
            else if c = 112 then
              if width = - 1 then put_number 16 8 precision (flags OR PR_ZEROPAD) st else put_number 16 width precision flags st
            else if c = 120 then put_number 16 width precision (flags OR PR_SMALL) st
            else if c = 88 then put_number 16 width precision flags st
            else if c = 100 \<or> c = 105 then put_number 10 width precision (flags OR PR_SIGN) st
            else if c = 117 then put_number 10 width precision flags st
            else if c = 110 then
              and_then (word_arg st) (\<lambda>ip st. Done () (st\<lparr>pr_counts := pr_counts st @ [(ip, length (pr_text st))]\<rparr>))
            else Done () (put_text (if c \<noteq> 37 then [37, c] else [c]) st))
           (\<lambda>_. Done fmt))"

definition conversion :: "u8 list \<Rightarrow> printing \<Rightarrow> u8 list pr_out" where
  "conversion fmt st =
    (case parse_flags 0 fmt of
       (flags, fmt) \<Rightarrow>
         and_then (parse_width flags fmt st) (\<lambda>(flags, width, fmt) st.
         and_then (parse_precision fmt st) (\<lambda>(precision, fmt).
           convert_arg flags width precision (skip_qualifier fmt))))"

definition vsprintf :: "u8 list \<Rightarrow> c_arg list \<Rightarrow> nat pr_out" where
  "vsprintf fmt args =
    and_then
      (loop (\<lambda>fmt st.
         case fmt of
           [] \<Rightarrow> Done (Leave ()) st
         | c # fmt \<Rightarrow>
             if c \<noteq> 37 then Done (Again fmt) (put_text [c] st)
             else and_then (conversion fmt st) (\<lambda>fmt. Done (Again fmt)))
        fmt \<lparr>pr_text = [], pr_args = args, pr_counts = []\<rparr>)
      (\<lambda>_ st. Done (length (pr_text st)) st)"

text \<open>\<open>buf\<close> has room for 1024 characters, the final zero included.\<close>

definition printk :: "u8 list \<Rightarrow> c_arg list \<Rightarrow> tty_state \<Rightarrow> nat tty_out" where
  "printk fmt args s =
    (case vsprintf fmt args of
       Done n st \<Rightarrow> if 1024 \<le> n then Undefined ''buf'' else Done n (console_print (pr_text st @ [0]) s)
     | Exits c st \<Rightarrow> Exits c s
     | Panics m \<Rightarrow> Panics m
     | Undefined m \<Rightarrow> Undefined m
     | Diverges \<Rightarrow> Diverges)"

end
