(* ===== verification/Select.thy ===== *)
theory Select
  imports Tty_Io Files
begin

section \<open>Waiting for several files\<close>

text \<open>
  \<^verbatim>\<open>fs/select.c\<close>. \<open>add_wait\<close> puts the process in front of a wait queue and notes who was in front before; \<open>free_wait\<close> takes
  it out of all of them again. A wait address is the queue of a tty queue or the field \<open>i_wait\<close> of an inode. What the
  other processes do until \<^verbatim>\<open>schedule\<close> returns to this one is the argument \<open>resume\<close>. A set of descriptors is a word. Shown of
  them: what is reported was asked about, and \<open>free_wait\<close> undoes \<open>add_wait\<close>.
\<close>

unbundle bit_operations_syntax

datatype wait_address = Tty_Wait nat | Inode_Wait u32

fun wait_head :: "wait_address \<Rightarrow> tty_state \<Rightarrow> u32" where
  "wait_head (Tty_Wait q) s = q_proc_list (tty_queues s q)"
| "wait_head (Inode_Wait p) s = i_wait (inode_table s p)"

fun set_wait_head :: "wait_address \<Rightarrow> u32 \<Rightarrow> tty_state \<Rightarrow> tty_state" where
  "set_wait_head (Tty_Wait q) p s = upd_queue q (\<lambda>d. d\<lparr>q_proc_list := p\<rparr>) s"
| "set_wait_head (Inode_Wait n) p s = s\<lparr>inode_table := (inode_table s)(n := (inode_table s n)\<lparr>i_wait := p\<rparr>)\<rparr>"

text \<open>\<^verbatim>\<open>select_table\<close>: the entries in order, the wait address and the old task; \<^verbatim>\<open>entry\<close> has 60 of them.\<close>

type_synonym select_table = "(wait_address \<times> u32) list"

definition add_wait :: "wait_address \<Rightarrow> select_table \<Rightarrow> tty_state \<Rightarrow> select_table tty_out" where
  "add_wait a w s =
    (if a \<in> fst ` set w then Done w s
     else if length w \<ge> NR_OPEN * 3 then Undefined ''entry[]''
     else Done (w @ [(a, wait_head a s)]) (set_wait_head a (current s) s))"

definition free_entry :: "(tty_state \<Rightarrow> tty_state) \<Rightarrow> wait_address \<times> u32 \<Rightarrow> tty_state \<Rightarrow> unit tty_out" where
  "free_entry resume en s =
    and_then
      (loop (\<lambda>_ s.
         if wait_head (fst en) s \<noteq> 0 \<and> wait_head (fst en) s \<noteq> current s then
           and_then (reschedule resume
             (upd_cur (\<lambda>t. t\<lparr>state := TASK_UNINTERRUPTIBLE\<rparr>)
               (upd_task (wait_head (fst en) s) (\<lambda>t. t\<lparr>state := TASK_RUNNING\<rparr>) s))) (\<lambda>_. Done (Again ()))
         else Done (Leave ()) s) () s)
      (\<lambda>_ s.
        let s = set_wait_head (fst en) (snd en) s
        in Done () (if snd en \<noteq> 0 then upd_task (snd en) (\<lambda>t. t\<lparr>state := TASK_RUNNING\<rparr>) s else s))"

definition free_wait :: "(tty_state \<Rightarrow> tty_state) \<Rightarrow> select_table \<Rightarrow> tty_state \<Rightarrow> unit tty_out" where
  "free_wait resume w s = fold_outcome (\<lambda>en (_ :: unit). free_entry resume en) w () s"

text \<open>The terminal of an inode, \<open>None\<close> if it is no terminal.\<close>

definition get_tty :: "m_inode \<Rightarrow> tty_state \<Rightarrow> nat option" where
  "get_tty i s =
    (let major = MAJOR (ucast (i_zone i 0)) in
     if \<not> S_ISCHR (i_mode i) \<or> major \<noteq> 5 \<and> major \<noteq> 4 then None
     else
       let minor = (if major = 5 then tty (cur s) else MINOR (ucast (i_zone i 0))) in
       if sint minor < 0 then None else Some (TTY_TABLE (unat minor) s))"

text \<open>The result is whether the file is ready, and the table.\<close>

type_synonym checked = "(bool \<times> select_table) tty_out"

definition wait_for :: "wait_address \<Rightarrow> select_table \<Rightarrow> tty_state \<Rightarrow> checked" where
  "wait_for a w s = and_then (add_wait a w s) (\<lambda>w. Done (False, w))"

definition check_in :: "select_table \<Rightarrow> u32 \<Rightarrow> tty_state \<Rightarrow> checked" where
  "check_in w p s =
    (let i = inode_table s p in
     case get_tty i s of
       Some k \<Rightarrow>
         if \<not> EMPTY (tty_queues s (secondary s k)) then Done (True, w) s else wait_for (Tty_Wait (secondary s k)) w s
     | None \<Rightarrow>
         if i_pipe i \<noteq> 0 then if PIPE_SIZE i \<noteq> 0 then Done (True, w) s else wait_for (Inode_Wait p) w s
         else Done (False, w) s)"

definition check_out :: "select_table \<Rightarrow> u32 \<Rightarrow> tty_state \<Rightarrow> checked" where
  "check_out w p s =
    (let i = inode_table s p in
     case get_tty i s of
       Some k \<Rightarrow> if \<not> FULL (tty_queues s (write_q s k)) then Done (True, w) s else wait_for (Tty_Wait (write_q s k)) w s
     | None \<Rightarrow>
         if i_pipe i \<noteq> 0 then if PIPE_SIZE i \<noteq> 4095 then Done (True, w) s else wait_for (Inode_Wait p) w s
         else Done (False, w) s)"

definition check_ex :: "select_table \<Rightarrow> u32 \<Rightarrow> tty_state \<Rightarrow> checked" where
  "check_ex w p s =
    (let i = inode_table s p in
     case get_tty i s of
       Some k \<Rightarrow> Done (False, w) s
     | None \<Rightarrow>
         if i_pipe i \<noteq> 0 then if i_count s p < 2 then Done (True, w) s else wait_for (Inode_Wait p) w s
         else Done (False, w) s)"

subsection \<open>\<open>do_select\<close>\<close>

text \<open>The inode of a descriptor.\<close>

definition fd_inode :: "nat \<Rightarrow> tty_state \<Rightarrow> u32" where
  "fd_inode fd s = f_inode (file_table s (filp (cur s) fd))"

definition bad_fd :: "nat \<Rightarrow> tty_state \<Rightarrow> bool" where
  "bad_fd fd s \<longleftrightarrow>
    filp (cur s) fd = 0 \<or> fd_inode fd s = 0 \<or>
    (let i = inode_table s (fd_inode fd s) in i_pipe i = 0 \<and> \<not> S_ISCHR (i_mode i) \<and> \<not> S_ISFIFO (i_mode i))"

text \<open>The local variables of the scan.\<close>

record select_scan =
  sel_table :: select_table
  sel_in :: u32
  sel_out :: u32
  sel_ex :: u32
  sel_count :: nat

text \<open>One of the three tests of a descriptor, if its bit is in the set \<open>fds\<close>; \<open>found\<close> notes it in the result.\<close>

definition test_fd :: "u32 \<Rightarrow> (select_table \<Rightarrow> u32 \<Rightarrow> tty_state \<Rightarrow> checked) \<Rightarrow>
    (select_scan \<Rightarrow> select_scan) \<Rightarrow> nat \<Rightarrow> select_scan \<Rightarrow> tty_state \<Rightarrow> select_scan tty_out" where
  "test_fd fds check found fd r s =
    (if \<not> bit fds fd then Done r s
     else and_then (check (sel_table r) (fd_inode fd s) s) (\<lambda>(ready, w).
       let r = r\<lparr>sel_table := w\<rparr> in Done (if ready then found (r\<lparr>sel_count := sel_count r + 1\<rparr>) else r)))"

definition scan_fds :: "u32 \<Rightarrow> u32 \<Rightarrow> u32 \<Rightarrow> tty_state \<Rightarrow> select_scan tty_out" where
  "scan_fds ins outs exs s =
    fold_outcome (\<lambda>i r s.
        and_then (test_fd ins check_in (\<lambda>r. r\<lparr>sel_in := set_bit i (sel_in r)\<rparr>) i r s) (\<lambda>r s.
        and_then (test_fd outs check_out (\<lambda>r. r\<lparr>sel_out := set_bit i (sel_out r)\<rparr>) i r s) (\<lambda>r.
          test_fd exs check_ex (\<lambda>r. r\<lparr>sel_ex := set_bit i (sel_ex r)\<rparr>) i r)))
      [0..<NR_OPEN] \<lparr>sel_table = [], sel_in = 0, sel_out = 0, sel_ex = 0, sel_count = 0\<rparr> s"

definition do_select :: "(tty_state \<Rightarrow> tty_state) \<Rightarrow> u32 \<Rightarrow> u32 \<Rightarrow> u32 \<Rightarrow> tty_state \<Rightarrow> (int \<times> u32 \<times> u32 \<times> u32) tty_out" where
  "do_select resume ins outs exs s =
    (if \<exists>i<NR_OPEN. bit (ins OR outs OR exs) i \<and> bad_fd i s then Done (- EBADF, 0, 0, 0) s
     else
       loop (\<lambda>_ s.
         and_then (scan_fds ins outs exs s) (\<lambda>r s.
           if \<not> signal_waits s \<and> (sel_table r \<noteq> [] \<or> timeout (cur s) \<noteq> 0) \<and> sel_count r = 0 then
             and_then (reschedule resume (upd_cur (\<lambda>t. t\<lparr>state := TASK_INTERRUPTIBLE\<rparr>) s)) (\<lambda>_ s.
             and_then (free_wait resume (sel_table r) s) (\<lambda>_. Done (Again ())))
           else
             and_then (free_wait resume (sel_table r) s) (\<lambda>_.
               Done (Leave (int (sel_count r), sel_in r, sel_out r, sel_ex r))))) () s)"

subsection \<open>The system call\<close>

text \<open>What is left of the time: \<open>current->timeout\<close> less the clock.\<close>

definition time_left :: "tty_state \<Rightarrow> u32" where
  "time_left s = (if timeout (cur s) > jiffies s then timeout (cur s) - jiffies s else 0)"

definition put_fds :: "u32 \<Rightarrow> u32 \<Rightarrow> tty_state \<Rightarrow> unit tty_out" where
  "put_fds p v s = (if p = 0 then Done () s else and_then (verify_area p 4 s) (\<lambda>_ s. Done () (put_fs_long v p s)))"

definition put_timeval :: "u32 \<Rightarrow> u32 \<Rightarrow> tty_state \<Rightarrow> unit tty_out" where
  "put_timeval tvp left s =
    (if tvp = 0 then Done () s
     else and_then (verify_area tvp 8 s) (\<lambda>_ s.
       Done () (put_fs_long (left mod 100 * 10000) (tvp + 4) (put_fs_long (left div 100) tvp s))))"

text \<open>A shift by 32 or more is undefined.\<close>

definition sys_select :: "(tty_state \<Rightarrow> tty_state) \<Rightarrow> u32 \<Rightarrow> tty_state \<Rightarrow> int tty_out" where
  "sys_select resume buffer s =
    (let n = unat (get_fs_long buffer s);
         inp = get_fs_long (buffer + 4) s; outp = get_fs_long (buffer + 8) s;
         exp = get_fs_long (buffer + 12) s; tvp = get_fs_long (buffer + 16) s;
         fds = (\<lambda>p. if p = 0 then 0 else mask n AND get_fs_long p s);
         timeout = (if tvp = 0 then 0xffffffff
                    else get_fs_long (tvp + 4) s div 10000 + get_fs_long tvp s * 100 + jiffies s)
     in if 32 \<le> n then Undefined ''shift''
        else
          and_then (do_select resume (fds inp) (fds outp) (fds exp) (upd_cur (\<lambda>t. t\<lparr>timeout := timeout\<rparr>) s))
            (\<lambda>(i, res_in, res_out, res_ex) s.
              let left = time_left s; s = upd_cur (\<lambda>t. t\<lparr>timeout := 0\<rparr>) s
              in if i < 0 then Done i s
                 else
                   and_then (put_fds inp res_in s) (\<lambda>_ s. and_then (put_fds outp res_out s) (\<lambda>_ s.
                   and_then (put_fds exp res_ex s) (\<lambda>_ s. and_then (put_timeval tvp left s) (\<lambda>_ s.
                     Done (if i = 0 \<and> signal_waits s then - EINTR else i) s))))))"

subsection \<open>What is reported\<close>

definition bits :: "u32 \<Rightarrow> nat set" where
  "bits w = {k. bit w k}"

lemma bits_0 [simp]: "bits 0 = {}" by (simp add: bits_def)

lemma finite_bits [simp]: "finite (bits w)"
  by (rule finite_subset[of _ "{..<32}"]) (auto simp: bits_def dest: bit_imp_le_length)

lemma bits_set_bit: "i < 32 \<Longrightarrow> bits (set_bit i w) = insert i (bits w)"
  by (auto simp: bits_def bit_set_bit_iff exp_eq_zero_iff)

text \<open>What one descriptor adds to a scan of those below it.\<close>

definition scanned :: "nat \<Rightarrow> u32 \<Rightarrow> u32 \<Rightarrow> u32 \<Rightarrow> select_scan \<Rightarrow> bool" where
  "scanned n ins outs exs r \<longleftrightarrow>
    bits (sel_in r) \<subseteq> bits ins \<inter> {..<n} \<and> bits (sel_out r) \<subseteq> bits outs \<inter> {..<n} \<and> bits (sel_ex r) \<subseteq> bits exs \<inter> {..<n} \<and>
    sel_count r = card (bits (sel_in r)) + card (bits (sel_out r)) + card (bits (sel_ex r))"

lemma test_fdE:
  assumes "test_fd fds check found fd r s = Done r' s'"
  obtains w where "r' = r\<lparr>sel_table := w\<rparr>" | w where "bit fds fd" "r' = found (r\<lparr>sel_table := w, sel_count := sel_count r + 1\<rparr>)"
  using assms by (auto simp: test_fd_def and_then_Done_iff Let_def split: if_splits prod.splits) (metis select_scan.surjective select_scan.update_convs(1))

lemma scan_fds_scanned:
  assumes "scan_fds ins outs exs s = Done r t"
  shows "scanned NR_OPEN ins outs exs r"
proof -
  let ?f = "\<lambda>i r s. and_then (test_fd ins check_in (\<lambda>r. r\<lparr>sel_in := set_bit i (sel_in r)\<rparr>) i r s) (\<lambda>r s.
        and_then (test_fd outs check_out (\<lambda>r. r\<lparr>sel_out := set_bit i (sel_out r)\<rparr>) i r s) (\<lambda>r.
          test_fd exs check_ex (\<lambda>r. r\<lparr>sel_ex := set_bit i (sel_ex r)\<rparr>) i r))"
  have "scanned n ins outs exs r" if "n \<le> 32"
    "fold_outcome ?f [0..<n] \<lparr>sel_table = [], sel_in = 0, sel_out = 0, sel_ex = 0, sel_count = 0\<rparr> s = Done r t" for n r t
    using that
  proof (induction n arbitrary: r t)
    case 0
    then show ?case by (auto simp: scanned_def)
  next
    case (Suc n)
    then obtain r0 s0 r1 s1 r2 s2 where r0: "fold_outcome ?f [0..<n] \<lparr>sel_table = [], sel_in = 0, sel_out = 0, sel_ex = 0, sel_count = 0\<rparr> s = Done r0 s0"
      and 1: "test_fd ins check_in (\<lambda>r. r\<lparr>sel_in := set_bit n (sel_in r)\<rparr>) n r0 s0 = Done r1 s1"
      and 2: "test_fd outs check_out (\<lambda>r. r\<lparr>sel_out := set_bit n (sel_out r)\<rparr>) n r1 s1 = Done r2 s2"
      and 3: "test_fd exs check_ex (\<lambda>r. r\<lparr>sel_ex := set_bit n (sel_ex r)\<rparr>) n r2 s2 = Done r t"
      by (auto simp: fold_outcome_append and_then_Done_iff)
    have n: "n < 32" using Suc.prems by simp
    have "scanned n ins outs exs r0" using Suc.IH[OF _ r0] Suc.prems by simp
    then have s0: "bits (sel_in r0) \<subseteq> bits ins \<inter> {..<n}" "bits (sel_out r0) \<subseteq> bits outs \<inter> {..<n}"
        "bits (sel_ex r0) \<subseteq> bits exs \<inter> {..<n}"
        "sel_count r0 = card (bits (sel_in r0)) + card (bits (sel_out r0)) + card (bits (sel_ex r0))"
      by (simp_all add: scanned_def)
    then have new: "n \<notin> bits (sel_in r0)" "n \<notin> bits (sel_out r0)" "n \<notin> bits (sel_ex r0)" by auto
    have s1: "bits (sel_in r1) \<subseteq> bits ins \<inter> {..<Suc n}" "sel_out r1 = sel_out r0" "sel_ex r1 = sel_ex r0"
        "sel_count r1 = card (bits (sel_in r1)) + card (bits (sel_out r0)) + card (bits (sel_ex r0))"
      using 1 s0 new n by (auto elim!: test_fdE simp: bits_set_bit less_Suc_eq) (auto simp: bits_def)
    have s2: "bits (sel_out r2) \<subseteq> bits outs \<inter> {..<Suc n}" "sel_in r2 = sel_in r1" "sel_ex r2 = sel_ex r0"
        "sel_count r2 = card (bits (sel_in r1)) + card (bits (sel_out r2)) + card (bits (sel_ex r0))"
      using 2 s0 s1 new n by (auto elim!: test_fdE simp: bits_set_bit less_Suc_eq) (auto simp: bits_def)
    have s3: "bits (sel_ex r) \<subseteq> bits exs \<inter> {..<Suc n}" "sel_in r = sel_in r1" "sel_out r = sel_out r2"
        "sel_count r = card (bits (sel_in r1)) + card (bits (sel_out r2)) + card (bits (sel_ex r))"
      using 3 s0 s2 new n by (auto elim!: test_fdE simp: bits_set_bit less_Suc_eq) (auto simp: bits_def)
    show ?case using s1 s2 s3 by (simp add: scanned_def)
  qed
  then show ?thesis using assms unfolding scan_fds_def by simp
qed

text \<open>
  What select reports. When do_select returns a count, every descriptor it reports as ready for reading, writing or an
  exception was asked about and is one of the descriptors of a process, and the count is the number of reports.
\<close>

theorem select_reports_what_was_asked:
  assumes "do_select resume ins outs exs s = Done (n, rin, rout, rex) t" "0 \<le> n"
  shows "bits rin \<subseteq> bits ins \<inter> {..<NR_OPEN} \<and> bits rout \<subseteq> bits outs \<inter> {..<NR_OPEN} \<and> bits rex \<subseteq> bits exs \<inter> {..<NR_OPEN} \<and>
    n = int (card (bits rin) + card (bits rout) + card (bits rex))"
proof -
  let ?Q = "\<lambda>(n, rin, rout, rex) (t :: tty_state). \<exists>r. scanned NR_OPEN ins outs exs r \<and> n = int (sel_count r) \<and>
    rin = sel_in r \<and> rout = sel_out r \<and> rex = sel_ex r"
  have "?Q (n, rin, rout, rex) t"
  proof (cases "\<exists>i<NR_OPEN. bit (ins OR outs OR exs) i \<and> bad_fd i s")
    case True
    then show ?thesis using assms by (simp add: do_select_def)
  next
    case False
    show ?thesis
      by (rule loop_invariant[OF assms(1)[unfolded do_select_def if_not_P[OF False]], where P = "\<lambda>_ _. True" and Q = ?Q])
        (auto simp: and_then_Done_iff split: if_splits dest: scan_fds_scanned)
  qed
  then show ?thesis by (auto simp: scanned_def)
qed

subsection \<open>In the queues and out again\<close>

lemma wait_head_set [simp]: "wait_head a (set_wait_head b p s) = (if a = b then p else wait_head a s)"
  by (cases a; cases b) (simp_all add: upd_queue_def)

lemma wait_head_upd_task [simp]: "wait_head a (upd_task p f s) = wait_head a s"
  by (cases a) (simp_all add: upd_task_def)

lemma set_wait_head_sel [simp]: "current (set_wait_head a p s) = current s" "ts (set_wait_head a p s) = ts s"
  by (cases a; simp add: upd_queue_def)+

text \<open>Putting oneself in front of a list of queues.\<close>

definition add_waits :: "wait_address list \<Rightarrow> tty_state \<Rightarrow> select_table tty_out" where
  "add_waits = (\<lambda>as. fold_outcome (\<lambda>a w. add_wait a w) as [])"

text \<open>The table of a state \<open>s\<close> that has become \<open>t\<close>: it remembers the heads of \<open>s\<close>, and \<open>t\<close> has the process in their place.\<close>

definition waits_in :: "tty_state \<Rightarrow> select_table \<Rightarrow> tty_state \<Rightarrow> bool" where
  "waits_in s w t \<longleftrightarrow> distinct (map fst w) \<and> (\<forall>en\<in>set w. snd en = wait_head (fst en) s) \<and> current t = current s \<and>
    (\<forall>a. wait_head a t = (if a \<in> fst ` set w then current s else wait_head a s))"

lemma add_wait_waits_in:
  assumes "add_wait a w t = Done w' t'" "waits_in s w t"
  shows "waits_in s w' t'"
proof (cases "a \<in> fst ` set w")
  case True
  then show ?thesis using assms by (simp add: add_wait_def)
next
  case False
  then have w': "w' = w @ [(a, wait_head a t)]" "t' = set_wait_head a (current t) t"
    using assms(1) by (auto simp: add_wait_def split: if_splits)
  have heads: "wait_head b t = (if b \<in> fst ` set w then current s else wait_head b s)" for b
    using assms(2) by (simp add: waits_in_def)
  show ?thesis unfolding waits_in_def
    using assms(2) False by (intro conjI allI) (simp_all add: waits_in_def w' heads)
qed

lemma add_wait_addresses:
  assumes "add_wait a w t = Done w' t'"
  shows "fst ` set w' = insert a (fst ` set w)"
proof (cases "a \<in> fst ` set w")
  case True
  then show ?thesis using assms by (simp add: add_wait_def insert_absorb)
next
  case False
  then have "w' = w @ [(a, wait_head a t)]" using assms by (auto simp: add_wait_def split: if_splits)
  then show ?thesis by simp
qed

lemma add_waits_waits_in:
  assumes "add_waits as s = Done w t"
  shows "waits_in s w t \<and> set as \<subseteq> fst ` set w"
proof -
  have "waits_in s w t \<and> set as \<union> fst ` set v \<subseteq> fst ` set w" if "fold_outcome (\<lambda>a w. add_wait a w) as v u = Done w t" "waits_in s v u" for v u
    using that
  proof (induction as arbitrary: v u)
    case (Cons a as)
    then obtain v' u' where 1: "add_wait a v u = Done v' u'" "fold_outcome (\<lambda>a w. add_wait a w) as v' u' = Done w t"
      by (auto simp: and_then_Done_iff)
    have "fst ` set v' = insert a (fst ` set v)" by (rule add_wait_addresses[OF 1(1)])
    then show ?case using Cons.IH[OF 1(2) add_wait_waits_in[OF 1(1) Cons.prems(2)]] by auto
  qed simp
  from this[of "[]" s] show ?thesis using assms by (simp add: add_waits_def waits_in_def)
qed

lemma free_entry_head:
  assumes "wait_head (fst en) s = current s"
  shows "free_entry resume en s = Done ()
    (if snd en \<noteq> 0 then upd_task (snd en) (\<lambda>t. t\<lparr>state := TASK_RUNNING\<rparr>) (set_wait_head (fst en) (snd en) s)
     else set_wait_head (fst en) (snd en) s)"
  using assms by (simp add: free_entry_def loop_unfold Let_def)

lemma state_upd_task: "state (ts (upd_task p f s) q) = (if p = q then state (f (ts s q)) else state (ts s q))"
  by (auto simp: upd_task_def)

lemma free_wait_frees:
  assumes "waits_in s w t"
  shows "\<exists>u. free_wait resume w t = Done () u \<and> (\<forall>a. wait_head a u = wait_head a s) \<and>
    (\<forall>p. (\<exists>en\<in>set w. snd en = p \<and> p \<noteq> 0) \<or> state (ts t p) = TASK_RUNNING \<longrightarrow> state (ts u p) = TASK_RUNNING)"
  using assms
proof (induction w arbitrary: t)
  case Nil
  then show ?case by (simp add: free_wait_def waits_in_def)
next
  case (Cons en w)
  let ?t = "if snd en \<noteq> 0 then upd_task (snd en) (\<lambda>t. t\<lparr>state := TASK_RUNNING\<rparr>) (set_wait_head (fst en) (snd en) t)
     else set_wait_head (fst en) (snd en) t"
  have head: "wait_head (fst en) t = current t" using Cons.prems by (auto simp: waits_in_def)
  have "waits_in s w ?t" using Cons.prems by (auto simp: waits_in_def)
  then obtain u where u: "free_wait resume w ?t = Done () u" "\<forall>a. wait_head a u = wait_head a s"
      "\<forall>p. (\<exists>en\<in>set w. snd en = p \<and> p \<noteq> 0) \<or> state (ts ?t p) = TASK_RUNNING \<longrightarrow> state (ts u p) = TASK_RUNNING"
    using Cons.IH by blast
  have "free_wait resume (en # w) t = Done () u"
    using u(1) free_entry_head[OF head, of resume] by (simp add: free_wait_def)
  moreover have "state (ts ?t p) = TASK_RUNNING" if "p \<noteq> 0 \<and> snd en = p \<or> state (ts t p) = TASK_RUNNING" for p
    using that by (auto simp: state_upd_task)
  ultimately show ?case using u(2,3) by (intro exI[of _ u]) auto
qed

text \<open>
  In the queues and out again. A process that has put itself in front of any wait queues, the same ones twice included,
  and finds itself still in front of them, takes itself out of all of them: free_wait returns without giving up the
  processor, every wait queue has its old head, and the old heads of the queues it was in are runnable, so that no
  wake-up is lost.
\<close>

theorem free_wait_undoes_add_wait:
  assumes "add_waits as s = Done w t"
  shows "\<exists>u. free_wait resume w t = Done () u \<and> (\<forall>a. wait_head a u = wait_head a s) \<and>
    (\<forall>a\<in>set as. wait_head a s \<noteq> 0 \<longrightarrow> state (ts u (wait_head a s)) = TASK_RUNNING)"
proof -
  note w = add_waits_waits_in[OF assms]
  then have "\<exists>en\<in>set w. snd en = wait_head a s" if "a \<in> set as" for a
    using that unfolding waits_in_def by fastforce
  then show ?thesis using free_wait_frees[of s w t resume] w by blast
qed

theorem free_wait_undoes_add_wait_witness:
  "\<exists>w t u. add_waits [Tty_Wait 3, Inode_Wait 7, Tty_Wait 3] demo_tty = Done w t \<and> length w = 2 \<and> free_wait id w t = Done () u \<and>
    wait_head (Tty_Wait 3) u = wait_head (Tty_Wait 3) demo_tty"
proof -
  have "\<exists>w t. add_waits [Tty_Wait 3, Inode_Wait 7, Tty_Wait 3] demo_tty = Done w t \<and> length w = 2"
    by (simp add: add_waits_def add_wait_def)
  then show ?thesis using free_wait_undoes_add_wait by metis
qed

theorem select_reports_what_was_asked_witness:
  "\<exists>t. do_select id 0 0 0 demo_tty = Done (0, 0, 0, 0) t \<and> bits (0 :: u32) \<subseteq> bits (0 :: u32) \<inter> {..<NR_OPEN}"
proof -
  have bad: "\<not> (\<exists>i<NR_OPEN. bit ((0 :: u32) OR 0 OR 0) i \<and> bad_fd i demo_tty)" by simp
  have "scan_fds 0 0 0 demo_tty = Done \<lparr>sel_table = [], sel_in = 0, sel_out = 0, sel_ex = 0, sel_count = 0\<rparr> demo_tty"
    unfolding scan_fds_def by (rule fold_outcome_idle) (simp add: test_fd_def)
  moreover have "timeout (cur demo_tty) = 0" by (simp add: demo_task_def)
  ultimately have "do_select id 0 0 0 demo_tty = Done (0, 0, 0, 0) demo_tty"
    by (simp add: do_select_def loop_unfold free_wait_def)
  then show ?thesis using select_reports_what_was_asked[of id 0 0 0 demo_tty 0 0 0 0 demo_tty] by auto
qed

end
