(* ===== verification/Spec2Isabelle.thy ===== *)
theory Spec2Isabelle
  imports Mktime Memory_Props Timers Fork Sys_Calls Fs_Calls Wait_Queue Emulator_Props Console_Text Page_Faults Exec_Props
    Malloc_Props Printing_Props Select
begin

section \<open>A verified model of the Linux 0.12 kernel\<close>

text \<open>
  This development models the C part of the Linux 0.12 kernel for the i386, with the few pieces of assembly that its logic
  rests on, and proves what makes its components correct. This theory only gathers the others; every definition and
  theorem is in the theory of its component.

  \<^bold>\<open>The program.\<close> A process enters the kernel by a system call, a page fault, a coprocessor trap or an interrupt. The
  system calls of \<^verbatim>\<open>kernel/sys.c\<close>, \<^verbatim>\<open>signal.c\<close>, \<^verbatim>\<open>fork.c\<close>, \<^verbatim>\<open>exit.c\<close> and \<^verbatim>\<open>sched.c\<close> work on the task structures; those of
  \<^verbatim>\<open>fs/\<close> work on files, which are inodes in the inode table, whose blocks are in the buffer cache, which reads and writes
  them through the request queues of \<^verbatim>\<open>kernel/blk_drv\<close>. A page fault ends in \<^verbatim>\<open>mm/memory.c\<close>, which loads a page from the file
  a process runs, shares it, brings it back from the swap device (\<^verbatim>\<open>mm/swap.c\<close>) or copies it. A process that has to wait
  puts itself in a queue of sleepers and calls \<open>schedule\<close>; the clock interrupt counts its time and fires the timers. A
  character typed goes through the queues and the line discipline of \<^verbatim>\<open>kernel/chr_drv\<close>, a character written goes to the
  console automaton. Signals are delivered on the way out of the kernel.

  \<^bold>\<open>How code becomes definitions.\<close> Each C function is a definition of the same name, its loops and long branches
  definitions of their own that the function is composed of. \<^verbatim>\<open>Kernel_Prelude\<close> holds what all of them use. C integers are
  words of their width, so that they wrap as the machine's do; a signed comparison is written on \<open>sint\<close>. Code that
  changes state takes the state and gives an \<open>outcome\<close>: \<open>Done r s\<close>, or \<open>Exits c s\<close> where it calls \<open>do_exit\<close>, \<open>Panics\<close> where it
  calls \<open>panic\<close>, \<open>Undefined\<close> where it leaves an array or reads what no model can say, \<open>Diverges\<close> where it never returns.
  \<open>and_then\<close> composes outcomes, \<open>fold_outcome\<close> is a \<^verbatim>\<open>for\<close> loop, and \<open>loop\<close> is a loop that may run for ever: it is defined by
  \<open>while_option\<close>, has no fuel, and is \<open>Diverges\<close> exactly when the iteration has no end. A theorem that says \<open>= Done\<close> says that the code
  returns.

  \<^bold>\<open>State.\<close> The states are records that extend each other, so that the operations of a lower component run on the states of
  the higher ones: \<open>mm_state\<close> (\<^verbatim>\<open>Memory\<close>: physical memory as a map from addresses to \<open>long\<close>s, \<open>mem_map\<close>, the swap device), \<open>kstate\<close>
  (\<^verbatim>\<open>Task_State\<close>: the task structures, the task table and the clock; \<^verbatim>\<open>Memory_Frame\<close> shows that memory operations keep all of it),
  \<open>fs_state\<close> (\<^verbatim>\<open>Fs_State\<close>: buffers, inodes, files, super blocks, requests), \<open>tty_state\<close> (\<^verbatim>\<open>Tty_State\<close>: terminals, their queues, the consoles
  and the video memory), \<open>malloc_state\<close>. Structures live in typed stores: \<open>ts p\<close> is the task structure at address \<open>p\<close>,
  \<open>bufs\<close>, \<open>inode_table\<close> and the others likewise, and 0 is NULL; what the code reads through NULL is entry 0 of the store. Bytes and
  \<open>long\<close>s of a page are in \<open>pmem\<close>; the caller's data segment, which the code reaches through \<open>fs\<close>, is the byte store \<open>fs_mem\<close>; the video
  memory is \<open>vmem\<close>. These three are separate: the model does not follow a user address through the page tables.
\<close>

subsection \<open>The theories\<close>

text \<open>
  \<^bold>\<open>Interfaces.\<close> \<^verbatim>\<open>Slot_Allocator\<close>: the contract of a bitmap allocator, interpreted on the swap bitmap in \<^verbatim>\<open>Memory_Props\<close>.
  \<^verbatim>\<open>Bounded_Queue\<close>: the contract of a ring of bytes, interpreted on pipes in \<^verbatim>\<open>Files\<close> (\<open>pq\<close>) and on the queues of terminals in \<^verbatim>\<open>Tty_State\<close>
  (\<open>tq\<close>). \<^verbatim>\<open>Linked_Lists\<close>: lists through pointer fields, for the request queues, the hash queues, the free list, the sleepers and the
  chains of \<open>malloc\<close>. \<open>line_writer\<close> (\<^verbatim>\<open>Tty_Props\<close>, interpreted on serial lines) and \<open>kept\<close> (\<^verbatim>\<open>Tty_Claims\<close>, interpreted on the
  console): what the line discipline asks of the write function of a terminal.

  \<^bold>\<open>Memory\<close> (\<^verbatim>\<open>mm/\<close>, \<^verbatim>\<open>include/linux/mm.h\<close>). \<^verbatim>\<open>Memory\<close>: pages, page tables, copy on write and swapping. \<^verbatim>\<open>Memory_Props\<close>: a writable
  page is private and has the old contents; a page comes back from the swap device as it went. \<^verbatim>\<open>Page_Faults\<close>: the handlers
  \<open>do_wp_page\<close> and \<open>do_no_page\<close>, sharing, demand loading, \<open>show_mem\<close>; a write to a shared page gives a copy of its own, a fault outside the file
  a page of zeroes, and the end of the last page of a file is cleared. \<^verbatim>\<open>Kernel_Malloc\<close> (\<^verbatim>\<open>lib/malloc.c\<close>), \<^verbatim>\<open>Malloc_Heap\<close>, \<^verbatim>\<open>Malloc_Props\<close>: the
  bucket heap refines a set of blocks that are handed out: a new block overlaps none of them, freeing removes one, neither
  changes a byte of the others.

  \<^bold>\<open>Processes\<close> (\<^verbatim>\<open>kernel/\<close>). \<^verbatim>\<open>Scheduler\<close>: the choice of the next task and the wake-ups before it. \<^verbatim>\<open>Wait_Queue\<close>: \<open>__sleep_on\<close> cut at
  its call of \<open>schedule\<close>, as a step relation of sleepers; its invariant, and that one \<open>wake_up\<close> drains the queue. \<^verbatim>\<open>Timers\<close>: the timer list
  as a list of due times, the clock interrupt, the floppy motors. \<^verbatim>\<open>Signals\<close>: masks, actions, \<open>do_signal\<close> and the frame it
  builds, \<open>ret_from_sys_call\<close>. \<^verbatim>\<open>Process_Tree\<close>: the links of parents, children and siblings and the code's own audit of them.
  \<^verbatim>\<open>Process_Exit\<close> (\<^verbatim>\<open>kernel/exit.c\<close>): \<open>do_exit\<close> and \<open>release\<close> keep the tree, \<open>sys_waitpid\<close> finds the child it should, \<open>sys_kill\<close> asks for permission.
  \<^verbatim>\<open>Fork\<close>: a fresh process number, and the child as a copy of its parent. \<^verbatim>\<open>Sys_Calls\<close> (\<^verbatim>\<open>kernel/sys.c\<close>): user and group ids and the rest of the
  simple calls. \<^verbatim>\<open>User_Access\<close>: \<open>get_fs\<close>, \<open>put_fs\<close>, \<open>verify_area\<close>. \<^verbatim>\<open>Mktime\<close>: the time at start-up against the calendar. \<^verbatim>\<open>Exec\<close>,
  \<^verbatim>\<open>Exec_Props\<close> (\<^verbatim>\<open>fs/exec.c\<close>): \<open>do_execve\<close> with scripts and interpreters, and the stack that \<open>create_tables\<close> leaves for \<open>main\<close>.
  \<^verbatim>\<open>Printing\<close>, \<^verbatim>\<open>Printing_Props\<close>: \<open>vsprintf\<close> and \<open>printk\<close>; a printed number reads back, and every format ends.

  \<^bold>\<open>File system\<close> (\<^verbatim>\<open>fs/\<close>, \<^verbatim>\<open>kernel/blk_drv\<close>). \<^verbatim>\<open>Block_Requests\<close> (\<^verbatim>\<open>ll_rw_blk.c\<close>, \<^verbatim>\<open>blk.h\<close>, \<^verbatim>\<open>ramdisk.c\<close>): the request queues against an elevator on
  lists. \<^verbatim>\<open>Buffer_Cache\<close>: hash queues and free list, \<open>getblk\<close> with its races. \<^verbatim>\<open>Inodes\<close> (\<^verbatim>\<open>bitmap.c\<close>, \<^verbatim>\<open>truncate.c\<close>, \<^verbatim>\<open>inode.c\<close>): free blocks and
  inodes, the inode table, \<open>bmap\<close>. \<^verbatim>\<open>Files\<close>: reading and writing of regular files, devices and pipes; a pipe is a queue. \<^verbatim>\<open>Namei\<close>:
  permissions, directories, path names and the calls on names. \<^verbatim>\<open>Fs_Calls\<close> (\<^verbatim>\<open>open.c\<close>, \<^verbatim>\<open>stat.c\<close>, \<^verbatim>\<open>super.c\<close>): the other system calls on
  files, mounting. \<^verbatim>\<open>Select\<close>: \<open>sys_select\<close> and its wait tables.

  \<^bold>\<open>Terminals\<close> (\<^verbatim>\<open>kernel/chr_drv\<close>). \<^verbatim>\<open>Console\<close>: \<open>con_write\<close> and all its escape sequences; \<^verbatim>\<open>Console_Props\<close>, \<^verbatim>\<open>Console_Init\<close>: nothing is written
  outside a console's own part of the video memory, and \<open>con_init\<close> cuts it into such parts. \<^verbatim>\<open>Tty_Io\<close>, \<^verbatim>\<open>Tty_Calls\<close> (\<^verbatim>\<open>tty_io.c\<close>, \<^verbatim>\<open>tty_ioctl.c\<close>, \<^verbatim>\<open>pty.c\<close>,
  \<^verbatim>\<open>serial.c\<close>): queues, line discipline, reading and writing, \<open>ioctl\<close>. \<^verbatim>\<open>Tty_Props\<close>, \<^verbatim>\<open>Tty_Claims\<close>, \<^verbatim>\<open>Console_Text\<close>: the line discipline as an editor
  of a list, console output stays on its console and ends.

  \<^bold>\<open>Coprocessor emulator\<close> (\<^verbatim>\<open>kernel/math\<close>). \<^verbatim>\<open>Fpu_Arith\<close>: the arithmetic on 80-bit numbers, word by word with the carry flag. \<^verbatim>\<open>Fpu_Props\<close>: what it
  computes, as numbers. \<^verbatim>\<open>Math_Emulator\<close>: \<open>do_emu\<close> with its four switches, addressing modes, loads and stores. \<^verbatim>\<open>Emulator_Props\<close>: an
  emulated instruction stays within the task, the register stack is a stack, decimal numbers survive.
\<close>

subsection \<open>Parameters, bounds and fuel\<close>

text \<open>
  \<^item> Code that sleeps goes on in a state that other processes have made. What they do is an argument: \<open>resume\<close> of the
    operations of \<^verbatim>\<open>Scheduler\<close>, \<^verbatim>\<open>Signals\<close> and \<^verbatim>\<open>Select\<close>, the functions \<open>sleep_on\<close>, \<open>interruptible_sleep_on\<close> and \<open>resume_after\<close> of the record
    \<open>fs_env\<close>, \<open>te_sleep\<close> and \<open>te_resume\<close> of \<open>tty_env\<close>. Theorems hold for every such function unless they say what they ask of it.
    \<^verbatim>\<open>Wait_Queue\<close> does not use them: there the interleavings are the steps of a relation.
  \<^item> The rest of \<open>fs_env\<close> is what \<^verbatim>\<open>fs/\<close> calls elsewhere: the strategy routines of the devices (\<open>request_fn\<close>), the test for a changed
    floppy, the terminal driver, a port. \<open>tty_env\<close> has the value of a port and an uninitialised byte (\<open>te_junk\<close>). \<open>do_exit\<close> takes
    \<open>close_fd\<close> and \<open>iput\<close>, the emulator the value \<open>tmp\<close> of a local variable the code does not set, \<open>do_execve\<close> what the new data space holds
    (\<open>fresh\<close>), \<open>con_init\<close> what the BIOS has left (\<open>boot_video\<close>).
  \<^item> Two pairs of functions call each other: \<open>getblk\<close> writes back inodes, which needs \<open>getblk\<close>; the console answers a query
    through the line discipline, which echoes to the console. \<open>nesting\<close> and \<open>te_nesting\<close> say how deep, as the kernel stack of
    one page does in the program; beyond that the model is \<open>Undefined\<close>. The theorems hold for every bound, or ask for one nested
    call where they claim that the code returns.
  \<^item> No loop has fuel. \<open>find_pid\<close> and \<open>sched_loop\<close> are \<^verbatim>\<open>partial_function (option)\<close>, the others \<open>loop\<close>s. That they end is part of the
    theorems on \<open>find_empty_process\<close> (at most 128 turns), \<open>schedule\<close> (at most one recharge), \<open>find_buffer\<close>, \<open>add_request\<close>, \<open>malloc\<close>, \<open>free_s\<close>,
    \<open>con_write\<close> and \<open>vsprintf\<close>. \<open>getblk\<close> may sleep for ever if no buffer is given back: its theorem is about the block that it returns.
    \<open>norm_left\<close> of the emulator stops at a zero significand, where the code would shift for ever; the code calls it on others only.
  \<^item> The i386 layout of \<^verbatim>\<open>struct d_inode\<close>, which \<open>read_inode\<close> and \<open>write_inode\<close> copy as a structure, is written out in bytes
    (\<open>d_inode_of\<close>, \<open>d_inode_bytes\<close>), as are directory entries and the header of an executable.
\<close>

subsection \<open>What is not modelled\<close>

text \<open>
  \<^item> The drivers of the hard disk and the floppy (\<^verbatim>\<open>hd.c\<close>, \<^verbatim>\<open>floppy.c\<close>): controller protocols over ports and interrupts. The block
    layer calls them as \<open>request_fn\<close>; the RAM disk is modelled.
  \<^item> The interrupt handlers of the keyboard and the serial lines (assembly over device registers): characters are in the
    read queues when the model begins.
  \<^item> Traps, the entry code of system calls apart from the delivery of signals, the start-up code and the order of the
    initialisations in \<^verbatim>\<open>init/main.c\<close>, \<open>init_swapping\<close>, \<open>rd_load\<close>, \<open>sched_init\<close>: they set up descriptors, ports and devices.
  \<^item> The string routines of \<^verbatim>\<open>include/string.h\<close> (inline assembly), for which the model uses functions on lists and maps; the
    wrappers of system calls in \<^verbatim>\<open>lib/\<close>, which run in user mode.
  \<^item> Messages: a call of \<open>printk\<close> has no effect in the other components; port output is recorded in \<open>io_log\<close> only where a driver's
    state is modelled. \<^verbatim>\<open>cli\<close>, \<^verbatim>\<open>sti\<close> and the segment registers have no effect: the code between two sleeps runs alone.
  \<^item> The coprocessor state that \<open>fork\<close> saves into a new task.
\<close>

end
